(* ===== verification/Prelude.thy ===== *)
theory Prelude
  imports Main "HOL-Library.Word"
begin

text \<open>
  Shared vocabulary of the development: the C integer types of an LP64 build, the ways in
  which the C code can stop (\<open>fault\<close>), the bind of the fault monad, and the generic lemmas
  that the components use.  Nothing here models a line of the program.
\<close>

unbundle bit_operations_syntax

section \<open>C integers\<close>

text \<open>
  \<open>long\<close>, \<open>unsigned long\<close>, \<open>size_t\<close> and \<open>time_t\<close> are 64 bits wide, \<open>int\<close> and the
  \<open>int32_t\<close>/\<open>uint32_t\<close> fields are 32 bits wide.  A signed variable is a word that is read
  with \<open>sint\<close>; signed addition, subtraction and multiplication wrap around, as the machine
  instructions that the code is compiled to do.
\<close>

type_synonym byte = "8 word"
type_synonym cint = "32 word"
type_synonym clong = "64 word"
type_synonym culong = "64 word"

text \<open>A \<open>long\<close> (or \<open>unsigned long\<close>) that is returned from a function of type \<open>int\<close>.\<close>

definition c_int_of_long :: "clong \<Rightarrow> int" where
  "c_int_of_long w = sint (ucast w :: cint)"

text \<open>C division truncates towards zero; \<open>sdiv_trunc\<close> and \<open>smod_trunc\<close> are \<open>/\<close> and \<open>%\<close>.\<close>

definition sdiv_trunc :: "int \<Rightarrow> int \<Rightarrow> int" where
  "sdiv_trunc a b = sgn a * sgn b * (\<bar>a\<bar> div \<bar>b\<bar>)"

definition smod_trunc :: "int \<Rightarrow> int \<Rightarrow> int" where
  "smod_trunc a b = a - b * sdiv_trunc a b"

lemma smod_trunc_eq: "sdiv_trunc a b * b + smod_trunc a b = a"
  by (simp add: smod_trunc_def)

lemma abs_sdiv_trunc: "\<bar>sdiv_trunc a b\<bar> = (if b = 0 then 0 else \<bar>a\<bar> div \<bar>b\<bar>)"
  by (cases "a = 0"; simp add: sdiv_trunc_def abs_mult abs_sgn_eq pos_imp_zdiv_nonneg_iff)

lemma smod_trunc_sgn: "smod_trunc a b = sgn a * (\<bar>a\<bar> mod \<bar>b\<bar>)"
proof -
  have "b * (sgn a * sgn b * q) = sgn a * (\<bar>b\<bar> * q)" for q :: int
    by (cases "b < 0"; cases "b = 0") auto
  from this [of "\<bar>a\<bar> div \<bar>b\<bar>"]
  have "b * (sgn a * sgn b * (\<bar>a\<bar> div \<bar>b\<bar>)) = sgn a * (\<bar>b\<bar> * (\<bar>a\<bar> div \<bar>b\<bar>))" .
  then have "smod_trunc a b = sgn a * \<bar>a\<bar> - sgn a * (\<bar>b\<bar> * (\<bar>a\<bar> div \<bar>b\<bar>))"
    by (simp only: smod_trunc_def sdiv_trunc_def sgn_mult_abs)
  then have "smod_trunc a b = sgn a * (\<bar>a\<bar> - \<bar>b\<bar> * (\<bar>a\<bar> div \<bar>b\<bar>))"
    by (simp add: right_diff_distrib)
  then show ?thesis by (simp add: minus_mult_div_eq_mod)
qed

lemma abs_smod_trunc_less: "b \<noteq> 0 \<Longrightarrow> \<bar>smod_trunc a b\<bar> < \<bar>b\<bar>"
  by (simp add: smod_trunc_sgn abs_mult abs_sgn_eq)

lemma not_bit_above: "i < 2 ^ k \<Longrightarrow> \<not> bit (i :: nat) k"
  by (simp add: bit_iff_odd)

lemma ucast_up_down: "ucast (ucast x :: culong) = (x :: cint)"
  by (rule bit_eqI) (simp add: bit_simps)

text \<open>Widening a signed and an unsigned character is the same on ASCII characters.\<close>

lemma scast_ascii: "b < 128 \<Longrightarrow> (scast b :: culong) = ucast (b :: byte)"
proof -
  assume "b < 128"
  then have "unat b < 2 ^ 7" by (simp add: word_less_nat_alt)
  then have "\<not> bit (unat b) 7" by (rule not_bit_above)
  then have "\<not> bit b 7" by (simp add: bit_simps)
  moreover from this have "\<not> bit b n" if "7 \<le> n" for n
    using that bit_imp_le_length [of b n] by (cases "n = 7") auto
  ultimately show ?thesis by (auto simp: bit_eq_iff bit_simps min_def not_le)
qed

section \<open>Faults\<close>

text \<open>
  What can go wrong in the C code is a value: a \<open>NULL\<close> pointer is dereferenced, a block is
  used or freed after it was freed, an array is accessed outside its bounds, the processor
  traps an integer division, or the code calls \<open>exit\<close> itself.  \<open>NoReturn\<close> is
  not a stop of the code: the fuel of the model is used up.
\<close>

datatype fault = NullDeref | DeadAccess | OutOfBounds | SigFpe | ExitFailure | ExitSuccess | NoReturn

definition bnd :: "fault + 'a \<Rightarrow> ('a \<Rightarrow> fault + 'b) \<Rightarrow> fault + 'b" where
  "bnd m f = (case m of Inl e \<Rightarrow> Inl e | Inr x \<Rightarrow> f x)"

lemma bnd_Inl [simp]: "bnd (Inl e) f = Inl e"
  by (simp add: bnd_def)

lemma bnd_Inr [simp]: "bnd (Inr x) f = f x"
  by (simp add: bnd_def)

lemma bnd_eq_Inr [simp]: "bnd m f = Inr y \<longleftrightarrow> (\<exists>x. m = Inr x \<and> f x = Inr y)"
  by (cases m) auto

lemma bnd_assoc: "bnd (bnd m f) g = bnd m (\<lambda>x. bnd (f x) g)"
  by (cases m) auto

lemma bnd_cong [fundef_cong]:
  "m = m' \<Longrightarrow> (\<And>x. m' = Inr x \<Longrightarrow> f x = f' x) \<Longrightarrow> bnd m f = bnd m' f'"
  by (cases m') auto

definition check :: "bool \<Rightarrow> fault \<Rightarrow> fault + unit" where
  "check b e = (if b then Inr () else Inl e)"

lemma check_True [simp]: "check True e = Inr ()"
  by (simp add: check_def)

lemma check_False [simp]: "check False e = Inl e"
  by (simp add: check_def)

lemma check_eq_Inr [simp]: "check b e = Inr u \<longleftrightarrow> b"
  by (simp add: check_def)

text \<open>Indexing of a C array: outside the array there is nothing to read.\<close>

definition at :: "'a list \<Rightarrow> nat \<Rightarrow> fault + 'a" where
  "at xs i = (if i < length xs then Inr (xs ! i) else Inl OutOfBounds)"

lemma at_in [simp]: "i < length xs \<Longrightarrow> at xs i = Inr (xs ! i)"
  by (simp add: at_def)

lemma at_eq_Inr: "at xs i = Inr x \<longleftrightarrow> i < length xs \<and> x = xs ! i"
  by (auto simp: at_def)

lemma at_append_left: "i < length xs \<Longrightarrow> at (xs @ ys) i = at xs i"
  by (simp add: at_def nth_append)

lemma at_append_right: "at (xs @ ys) (length xs + i) = at ys i"
  by (simp add: at_def)

section \<open>Lists\<close>

lemma take_Suc_list_update:
  "n < length xs \<Longrightarrow> take (Suc n) (xs[n := x]) = take n xs @ [x]"
  by (simp add: take_Suc_conv_app_nth)

lemma rev_take_Suc: "n < length xs \<Longrightarrow> rev (take (Suc n) xs) = xs ! n # rev (take n xs)"
  by (simp add: take_Suc_conv_app_nth)

lemma upt_cons: "[i..<Suc (i + n)] = i # [Suc i..<Suc (i + n)]"
  by (simp add: upt_conv_Cons del: upt_Suc)

lemma upt_append: "[i..<i + m] @ [i + m..<i + (m + n)] = [i..<i + (m + n)]"
  using upt_add_eq_append [of i "i + m" n] by (simp add: add.assoc)

end
