(* ===== verification/Values.thy ===== *)
theory Values
  imports Prelude
begin

text \<open>
  \<open>src/lang.h\<close> and the type layer of \<open>src/lang.c\<close>: the tagged values of the ISSDL
  language, their constructors and accessors, and the comparison, arithmetic, cloning and
  test functions that the table \<open>issdl_types_g\<close> dispatches to.  A function that returns a
  newly allocated variable returns its contents here; the allocation is done by the virtual
  machine (theory \<open>Ovm\<close>).  Floating point values are not modelled.
\<close>

section \<open>Data\<close>

text \<open>
  One constructor for each value that the code builds, with the fields of its \<open>struct\<close>.
  A virtual string or binary string shows the bytes it refers to; a regular expression keeps
  the address and the bytes of its source string (the compiled \<open>regex_t\<close> is derived from
  it).  The tags \<open>T_FNCT\<close>, \<open>T_ARRAY\<close>, \<open>T_HASH\<close> and \<open>T_DOUBLE\<close> have no constructor
  function in the code.
\<close>

datatype ovm_data =
    VNull cint
  | VInt clong
  | VBStr "byte list"
  | VVBStr "byte list"
  | VStr "byte list"
  | VVStr "byte list"
  | VCTime clong
  | VIPv4 cint
  | VTimeval clong clong
  | VCounter culong
  | VRegex culong "byte list"
  | VSRegex culong "byte list" cint
  | VPtr32 culong
  | VUInt culong
  | VSnmpOid "culong list"
  | VExtern culong

record ovm_var =
  vdata :: ovm_data
  vflags :: cint

fun type_id :: "ovm_data \<Rightarrow> int" where
  "type_id (VNull _) = 0"
| "type_id (VInt _) = 2"
| "type_id (VBStr _) = 3"
| "type_id (VVBStr _) = 4"
| "type_id (VStr _) = 5"
| "type_id (VVStr _) = 6"
| "type_id (VCTime _) = 9"
| "type_id (VIPv4 _) = 10"
| "type_id (VTimeval _ _) = 11"
| "type_id (VCounter _) = 12"
| "type_id (VRegex _ _) = 13"
| "type_id (VSRegex _ _ _) = 14"
| "type_id (VPtr32 _) = 15"
| "type_id (VUInt _) = 16"
| "type_id (VSnmpOid _) = 17"
| "type_id (VExtern _) = 20"

text \<open>Flags of a variable.\<close>

definition TYPE_MONO :: cint where "TYPE_MONO = 1"
definition TYPE_ANTI :: cint where "TYPE_ANTI = 2"
definition TYPE_CONST :: cint where "TYPE_CONST = TYPE_MONO OR TYPE_ANTI"
definition TYPE_CANFREE :: cint where "TYPE_CANFREE = 4"
definition TYPE_NOTBOUND :: cint where "TYPE_NOTBOUND = 8"

definition can_free_var :: "ovm_var \<Rightarrow> bool" where
  "can_free_var v \<longleftrightarrow> vflags v AND TYPE_CANFREE \<noteq> 0"

definition is_not_bound :: "ovm_var \<Rightarrow> bool" where
  "is_not_bound v \<longleftrightarrow>
     vflags v AND (TYPE_CANFREE OR TYPE_NOTBOUND) = TYPE_CANFREE OR TYPE_NOTBOUND"

text \<open>\<open>FLAGS(*var) &= ~TYPE_NOTBOUND\<close>, the marking done by \<open>ovm_pop\<close>.\<close>

definition clear_notbound :: "ovm_var \<Rightarrow> ovm_var" where
  "clear_notbound v = v\<lparr>vflags := vflags v AND NOT TYPE_NOTBOUND\<rparr>"

text \<open>Error numbers of a null value.\<close>

definition ERRNO_UNDEFINED :: cint where "ERRNO_UNDEFINED = 1"
definition ERRNO_PARAMETER_ERROR :: cint where "ERRNO_PARAMETER_ERROR = 2"
definition ERRNO_REGEX_ERROR :: cint where "ERRNO_REGEX_ERROR = 3"

section \<open>Constructors\<close>

definition ovm_null_new :: ovm_var where "ovm_null_new = \<lparr>vdata = VNull 1, vflags = 0\<rparr>"
definition ovm_int_new :: ovm_var where "ovm_int_new = \<lparr>vdata = VInt 0, vflags = 0\<rparr>"
definition ovm_uint_new :: ovm_var where "ovm_uint_new = \<lparr>vdata = VUInt 0, vflags = 0\<rparr>"
definition ovm_bstr_new :: "nat \<Rightarrow> ovm_var" where
  "ovm_bstr_new n = \<lparr>vdata = VBStr (replicate n 0), vflags = 0\<rparr>"
definition ovm_vbstr_new :: ovm_var where "ovm_vbstr_new = \<lparr>vdata = VVBStr [], vflags = 0\<rparr>"
definition ovm_str_new :: "nat \<Rightarrow> ovm_var" where
  "ovm_str_new n = \<lparr>vdata = VStr (replicate n 0), vflags = 0\<rparr>"
definition ovm_vstr_new :: ovm_var where "ovm_vstr_new = \<lparr>vdata = VVStr [], vflags = 0\<rparr>"
definition ovm_ctime_new :: ovm_var where "ovm_ctime_new = \<lparr>vdata = VCTime 0, vflags = 0\<rparr>"
definition ovm_ipv4_new :: ovm_var where "ovm_ipv4_new = \<lparr>vdata = VIPv4 0, vflags = 0\<rparr>"
definition ovm_timeval_new :: ovm_var where
  "ovm_timeval_new = \<lparr>vdata = VTimeval 0 0, vflags = 0\<rparr>"
definition ovm_counter_new :: ovm_var where
  "ovm_counter_new = \<lparr>vdata = VCounter 0, vflags = TYPE_MONO\<rparr>"
definition ovm_snmpoid_new :: "nat \<Rightarrow> ovm_var" where
  "ovm_snmpoid_new n = \<lparr>vdata = VSnmpOid (replicate n 0), vflags = 0\<rparr>"

text \<open>
  Every operation below fills a new variable in and then executes
  \<open>FLAGS(res) |= TYPE_CANFREE | TYPE_NOTBOUND\<close>.
\<close>

definition temp_from :: "ovm_var \<Rightarrow> ovm_data \<Rightarrow> ovm_var" where
  "temp_from v d = v\<lparr>vdata := d, vflags := vflags v OR (TYPE_CANFREE OR TYPE_NOTBOUND)\<rparr>"

section \<open>Reading a value through another type\<close>

text \<open>
  Some functions read \<open>UINT(var2)\<close> before they know the type of \<open>var2\<close>: they get the eight
  bytes at offset 8 of whatever \<open>struct\<close> is there.  For the types whose block ends at
  offset 12 this is a read outside the block.
\<close>

fun raw_ulong :: "ovm_data \<Rightarrow> fault + culong" where
  "raw_ulong (VNull _) = Inl OutOfBounds"
| "raw_ulong (VIPv4 _) = Inl OutOfBounds"
| "raw_ulong (VInt i) = Inr i"
| "raw_ulong (VUInt u) = Inr u"
| "raw_ulong (VCTime t) = Inr t"
| "raw_ulong (VTimeval s _) = Inr s"
| "raw_ulong (VCounter c) = Inr c"
| "raw_ulong (VBStr s) = Inr (of_nat (length s))"
| "raw_ulong (VVBStr s) = Inr (of_nat (length s))"
| "raw_ulong (VStr s) = Inr (of_nat (length s))"
| "raw_ulong (VVStr s) = Inr (of_nat (length s))"
| "raw_ulong (VSnmpOid ids) = Inr (of_nat (length ids))"
| "raw_ulong (VRegex p _) = Inr p"
| "raw_ulong (VSRegex p _ _) = Inr p"
| "raw_ulong (VPtr32 p) = Inr p"
| "raw_ulong (VExtern p) = Inr p"

section \<open>Integers\<close>

type_synonym arith_result = "fault + ovm_var option"

abbreviation no_value :: arith_result where "no_value \<equiv> Inr None"
abbreviation new_value :: "ovm_var \<Rightarrow> arith_result" where "new_value v \<equiv> Inr (Some v)"

text \<open>\<open>idiv\<close> traps on a zero divisor and when the quotient of the smallest \<open>long\<close> by
  \<open>-1\<close> does not fit.\<close>

definition long_div :: "clong \<Rightarrow> clong \<Rightarrow> fault + clong" where
  "long_div a b =
     (if b = 0 \<or> (sint a = - (2 ^ 63) \<and> sint b = -1) then Inl SigFpe
      else Inr (word_of_int (sdiv_trunc (sint a) (sint b))))"

definition long_mod :: "clong \<Rightarrow> clong \<Rightarrow> fault + clong" where
  "long_mod a b =
     (if b = 0 \<or> (sint a = - (2 ^ 63) \<and> sint b = -1) then Inl SigFpe
      else Inr (word_of_int (smod_trunc (sint a) (sint b))))"

definition int_cmp :: "clong \<Rightarrow> ovm_data \<Rightarrow> int" where
  "int_cmp a d = (case d of VInt b \<Rightarrow> c_int_of_long (a - b) | _ \<Rightarrow> 2 - type_id d)"

definition int_add :: "clong \<Rightarrow> ovm_data \<Rightarrow> arith_result" where
  "int_add a d = (case d of
     VInt b \<Rightarrow> new_value (temp_from ovm_int_new (VInt (a + b))) | _ \<Rightarrow> no_value)"

definition int_sub :: "clong \<Rightarrow> ovm_data \<Rightarrow> arith_result" where
  "int_sub a d = (case d of
     VInt b \<Rightarrow> new_value (temp_from ovm_int_new (VInt (a - b))) | _ \<Rightarrow> no_value)"

definition int_mul :: "clong \<Rightarrow> ovm_data \<Rightarrow> arith_result" where
  "int_mul a d = (case d of
     VInt b \<Rightarrow> new_value (temp_from ovm_int_new (VInt (a * b))) | _ \<Rightarrow> no_value)"

definition int_div :: "clong \<Rightarrow> ovm_data \<Rightarrow> arith_result" where
  "int_div a d = (case d of
     VInt b \<Rightarrow> if b = 0 then no_value
       else bnd (long_div a b) (\<lambda>q. new_value (temp_from ovm_int_new (VInt q)))
   | _ \<Rightarrow> no_value)"

definition int_mod :: "clong \<Rightarrow> ovm_data \<Rightarrow> arith_result" where
  "int_mod a d = (case d of
     VInt b \<Rightarrow> if b = 0 then no_value
       else bnd (long_mod a b) (\<lambda>q. new_value (temp_from ovm_int_new (VInt q)))
   | _ \<Rightarrow> no_value)"

definition int_clone :: "clong \<Rightarrow> arith_result" where
  "int_clone a = new_value (temp_from ovm_int_new (VInt a))"

section \<open>Unsigned integers\<close>

definition uint_cmp :: "culong \<Rightarrow> ovm_data \<Rightarrow> int" where
  "uint_cmp a d = (case d of VUInt b \<Rightarrow> c_int_of_long (a - b) | _ \<Rightarrow> 16 - type_id d)"

definition uint_add :: "culong \<Rightarrow> ovm_data \<Rightarrow> arith_result" where
  "uint_add a d = (case d of
     VUInt b \<Rightarrow> new_value (temp_from ovm_uint_new (VUInt (a + b))) | _ \<Rightarrow> no_value)"

text \<open>The guard refuses only an operand of another type that reads as a smaller number.\<close>

definition uint_sub :: "culong \<Rightarrow> ovm_data \<Rightarrow> arith_result" where
  "uint_sub a d = (if type_id d = 16
     then bnd (raw_ulong d) (\<lambda>b. new_value (temp_from ovm_uint_new (VUInt (a - b))))
     else bnd (raw_ulong d) (\<lambda>b. if a > b then no_value
            else new_value (temp_from ovm_uint_new (VUInt (a - b)))))"

definition uint_mul :: "culong \<Rightarrow> ovm_data \<Rightarrow> arith_result" where
  "uint_mul a d = (case d of
     VUInt b \<Rightarrow> new_value (temp_from ovm_uint_new (VUInt (a * b))) | _ \<Rightarrow> no_value)"

text \<open>The guard refuses an operand of another type that is not zero; nothing refuses zero.\<close>

definition uint_div :: "culong \<Rightarrow> ovm_data \<Rightarrow> arith_result" where
  "uint_div a d = bnd (raw_ulong d) (\<lambda>b.
     if type_id d \<noteq> 16 \<and> b > 0 then no_value
     else if b = 0 then Inl SigFpe
     else new_value (temp_from ovm_uint_new (VUInt (a div b))))"

definition uint_mod :: "culong \<Rightarrow> ovm_data \<Rightarrow> arith_result" where
  "uint_mod a d = bnd (raw_ulong d) (\<lambda>b.
     if type_id d \<noteq> 16 \<and> b > 0 then no_value
     else if b = 0 then Inl SigFpe
     else new_value (temp_from ovm_uint_new (VUInt (a mod b))))"

definition uint_clone :: "culong \<Rightarrow> arith_result" where
  "uint_clone a = new_value (temp_from ovm_uint_new (VUInt a))"

section \<open>Strings\<close>

text \<open>
  \<open>memcmp\<close> looks at the bytes in order and stops at the first difference; its result has the
  sign of that difference.  Where no difference is found before the second block ends, it
  reads outside of it.
\<close>

fun memcmp :: "byte list \<Rightarrow> byte list \<Rightarrow> fault + int" where
  "memcmp [] ys = Inr 0"
| "memcmp (x # xs) [] = Inl OutOfBounds"
| "memcmp (x # xs) (y # ys) = (if x = y then memcmp xs ys else Inr (uint x - uint y))"

text \<open>The block of a \<open>T_STR\<close> has five zero bytes behind the string (\<open>sizeof\<close> is rounded up
  to 24 and one byte is added for the terminator).\<close>

definition str_block :: "byte list \<Rightarrow> byte list" where
  "str_block s = s @ replicate 5 0"

definition bstr_clone :: "byte list \<Rightarrow> arith_result" where
  "bstr_clone s = new_value (temp_from (ovm_bstr_new (length s)) (VBStr s))"

definition vbstr_clone :: "byte list \<Rightarrow> arith_result" where
  "vbstr_clone s = new_value (temp_from ovm_vbstr_new (VVBStr s))"

definition string_clone :: "byte list \<Rightarrow> arith_result" where
  "string_clone s = new_value (temp_from (ovm_str_new (length s)) (VStr s))"

definition str_add :: "byte list \<Rightarrow> ovm_data \<Rightarrow> arith_result" where
  "str_add s d = (case d of
     VStr t \<Rightarrow> new_value (temp_from (ovm_str_new (length s + length t)) (VStr (s @ t)))
   | VVStr t \<Rightarrow> new_value (temp_from (ovm_str_new (length s + length t)) (VStr (s @ t)))
   | _ \<Rightarrow> no_value)"

definition str_cmp :: "byte list \<Rightarrow> ovm_data \<Rightarrow> fault + int" where
  "str_cmp s d = (case d of
     VStr t \<Rightarrow> memcmp s (str_block t)
   | VVStr t \<Rightarrow> memcmp s t
   | _ \<Rightarrow> Inr (5 - type_id d))"

definition vstr_clone :: "byte list \<Rightarrow> arith_result" where
  "vstr_clone s = new_value (temp_from ovm_vstr_new (VVStr s))"

text \<open>
  With a \<open>T_VSTR\<close> on the right the result is a \<open>T_STR\<close>, but the copies go to \<open>VSTR(res)\<close>:
  the first bytes of the zeroed new block are taken for a pointer, and \<open>memcpy\<close> writes to
  \<open>NULL\<close> as soon as there is a byte to copy.
\<close>

definition vstr_add :: "byte list \<Rightarrow> ovm_data \<Rightarrow> arith_result" where
  "vstr_add s d = (case d of
     VStr t \<Rightarrow> new_value (temp_from (ovm_str_new (length s + length t)) (VStr (s @ t)))
   | VVStr t \<Rightarrow> if s = [] \<and> t = [] then new_value (temp_from (ovm_str_new 0) (VStr []))
               else Inl NullDeref
   | _ \<Rightarrow> no_value)"

definition vstr_cmp :: "byte list \<Rightarrow> ovm_data \<Rightarrow> fault + int" where
  "vstr_cmp s d = (case d of
     VStr t \<Rightarrow> memcmp s (str_block t)
   | VVStr t \<Rightarrow> memcmp s t
   | _ \<Rightarrow> Inr (6 - type_id d))"

section \<open>Dates\<close>

definition ctime_cmp :: "clong \<Rightarrow> ovm_data \<Rightarrow> int" where
  "ctime_cmp a d = (case d of VCTime b \<Rightarrow> c_int_of_long (a - b) | _ \<Rightarrow> 9 - type_id d)"

abbreviation new_ctime :: "clong \<Rightarrow> arith_result" where
  "new_ctime t \<equiv> new_value (temp_from ovm_ctime_new (VCTime t))"

definition ctime_add :: "clong \<Rightarrow> ovm_data \<Rightarrow> arith_result" where
  "ctime_add a d = (case d of
     VCTime b \<Rightarrow> new_ctime (a + b) | VInt b \<Rightarrow> new_ctime (a + b) | _ \<Rightarrow> no_value)"

definition ctime_sub :: "clong \<Rightarrow> ovm_data \<Rightarrow> arith_result" where
  "ctime_sub a d = (case d of
     VCTime b \<Rightarrow> new_ctime (a - b) | VInt b \<Rightarrow> new_ctime (a - b) | _ \<Rightarrow> no_value)"

definition ctime_mul :: "clong \<Rightarrow> ovm_data \<Rightarrow> arith_result" where
  "ctime_mul a d = (case d of
     VCTime b \<Rightarrow> new_ctime (a * b) | VInt b \<Rightarrow> new_ctime (a * b) | _ \<Rightarrow> no_value)"

definition ctime_div :: "clong \<Rightarrow> ovm_data \<Rightarrow> arith_result" where
  "ctime_div a d = (case d of
     VCTime b \<Rightarrow> if b \<noteq> 0 then bnd (long_div a b) new_ctime else no_value
   | VInt b \<Rightarrow> if b \<noteq> 0 then bnd (long_div a b) new_ctime else no_value
   | _ \<Rightarrow> no_value)"

definition ctime_mod :: "clong \<Rightarrow> ovm_data \<Rightarrow> arith_result" where
  "ctime_mod a d = (case d of
     VCTime b \<Rightarrow> if b \<noteq> 0 then bnd (long_mod a b) new_ctime else no_value
   | VInt b \<Rightarrow> if b \<noteq> 0 then bnd (long_mod a b) new_ctime else no_value
   | _ \<Rightarrow> no_value)"

definition ctime_clone :: "clong \<Rightarrow> arith_result" where
  "ctime_clone a = new_ctime a"

section \<open>Addresses\<close>

definition ipv4_cmp :: "cint \<Rightarrow> ovm_data \<Rightarrow> int" where
  "ipv4_cmp a d = (case d of VIPv4 b \<Rightarrow> sint (a - b) | _ \<Rightarrow> 10 - type_id d)"

definition ipv4_clone :: "cint \<Rightarrow> arith_result" where
  "ipv4_clone a = new_value (temp_from ovm_ipv4_new (VIPv4 a))"

section \<open>Time values\<close>

text \<open>The macros \<open>Timer_Add\<close> and \<open>Timer_Sub\<close> of \<open>src/util/timer.h\<close>.\<close>

definition Timer_Add :: "clong \<times> clong \<Rightarrow> clong \<times> clong \<Rightarrow> clong \<times> clong" where
  "Timer_Add a b =
     (let u = sint (snd a + snd b)
      in (fst a + fst b + word_of_int (sdiv_trunc u 1000000),
          word_of_int (smod_trunc u 1000000)))"

definition Timer_Sub :: "clong \<times> clong \<Rightarrow> clong \<times> clong \<Rightarrow> clong \<times> clong" where
  "Timer_Sub a b =
     (if sint (snd a) < sint (snd b)
      then (fst a - fst b - 1, 1000000 + snd a - snd b)
      else (fst a - fst b, snd a - snd b))"

definition timercmp_less :: "clong \<times> clong \<Rightarrow> clong \<times> clong \<Rightarrow> bool" where
  "timercmp_less a b \<longleftrightarrow>
     (if fst a = fst b then sint (snd a) < sint (snd b) else sint (fst a) < sint (fst b))"

abbreviation new_timeval :: "clong \<times> clong \<Rightarrow> arith_result" where
  "new_timeval t \<equiv> new_value (temp_from ovm_timeval_new (VTimeval (fst t) (snd t)))"

definition timeval_add :: "clong \<Rightarrow> clong \<Rightarrow> ovm_data \<Rightarrow> arith_result" where
  "timeval_add s u d = (case d of
     VTimeval s' u' \<Rightarrow> new_timeval (Timer_Add (s, u) (s', u'))
   | VCTime b \<Rightarrow> new_timeval (s + b, u)
   | VInt b \<Rightarrow> new_timeval (s + b, u)
   | _ \<Rightarrow> no_value)"

definition timeval_sub :: "clong \<Rightarrow> clong \<Rightarrow> ovm_data \<Rightarrow> arith_result" where
  "timeval_sub s u d = (case d of
     VTimeval s' u' \<Rightarrow> new_timeval (Timer_Sub (s, u) (s', u'))
   | VCTime b \<Rightarrow> new_timeval (s - b, u)
   | VInt b \<Rightarrow> new_timeval (s - b, u)
   | _ \<Rightarrow> no_value)"

definition timeval_mul :: "clong \<Rightarrow> clong \<Rightarrow> ovm_data \<Rightarrow> arith_result" where
  "timeval_mul s u d = (case d of
     VCTime b \<Rightarrow> new_timeval (s * b, u)
   | VInt b \<Rightarrow> new_timeval (s * b, u)
   | _ \<Rightarrow> no_value)"

definition timeval_div :: "clong \<Rightarrow> clong \<Rightarrow> ovm_data \<Rightarrow> arith_result" where
  "timeval_div s u d = (case d of
     VCTime b \<Rightarrow> if b \<noteq> 0 then bnd (long_div s b) (\<lambda>q. new_timeval (q, u)) else no_value
   | VInt b \<Rightarrow> if b \<noteq> 0 then bnd (long_div s b) (\<lambda>q. new_timeval (q, u)) else no_value
   | _ \<Rightarrow> no_value)"

definition timeval_mod :: "clong \<Rightarrow> clong \<Rightarrow> ovm_data \<Rightarrow> arith_result" where
  "timeval_mod s u d = (case d of
     VCTime b \<Rightarrow> if b \<noteq> 0 then bnd (long_mod s b) (\<lambda>q. new_timeval (q, u)) else no_value
   | VInt b \<Rightarrow> if b \<noteq> 0 then bnd (long_mod s b) (\<lambda>q. new_timeval (q, u)) else no_value
   | _ \<Rightarrow> no_value)"

definition timeval_cmp :: "clong \<Rightarrow> clong \<Rightarrow> ovm_data \<Rightarrow> int" where
  "timeval_cmp s u d = (case d of
     VTimeval s' u' \<Rightarrow> if timercmp_less (s, u) (s', u') then -1
                      else if timercmp_less (s', u') (s, u) then 1 else 0
   | _ \<Rightarrow> 11 - type_id d)"

definition timeval_clone :: "clong \<Rightarrow> clong \<Rightarrow> arith_result" where
  "timeval_clone s u = new_timeval (s, u)"

section \<open>Counters\<close>

definition counter_cmp :: "culong \<Rightarrow> ovm_data \<Rightarrow> int" where
  "counter_cmp a d = (case d of VCounter b \<Rightarrow> c_int_of_long (a - b) | _ \<Rightarrow> 12 - type_id d)"

abbreviation new_counter :: "culong \<Rightarrow> arith_result" where
  "new_counter c \<equiv> new_value (temp_from ovm_counter_new (VCounter c))"

definition counter_add :: "culong \<Rightarrow> ovm_data \<Rightarrow> arith_result" where
  "counter_add a d = (case d of
     VInt b \<Rightarrow> new_counter (a + b) | VCounter b \<Rightarrow> new_counter (a + b) | _ \<Rightarrow> no_value)"

definition counter_mul :: "culong \<Rightarrow> ovm_data \<Rightarrow> arith_result" where
  "counter_mul a d = (case d of
     VInt b \<Rightarrow> if sint b > 0 then new_counter (a * b) else no_value
   | VCounter b \<Rightarrow> if b > 0 then new_counter (a * b) else no_value
   | _ \<Rightarrow> no_value)"

definition counter_clone :: "culong \<Rightarrow> arith_result" where
  "counter_clone a = new_counter a"

section \<open>Dispatch through the type table\<close>

text \<open>A \<open>NULL\<close> entry of \<open>issdl_types_g\<close> makes the comparison \<open>-1\<close> and every other
  operation return \<open>NULL\<close>.\<close>

fun issdl_cmp :: "ovm_data \<Rightarrow> ovm_data \<Rightarrow> fault + int" where
  "issdl_cmp (VInt a) d = Inr (int_cmp a d)"
| "issdl_cmp (VUInt a) d = Inr (uint_cmp a d)"
| "issdl_cmp (VStr s) d = str_cmp s d"
| "issdl_cmp (VVStr s) d = vstr_cmp s d"
| "issdl_cmp (VCTime t) d = Inr (ctime_cmp t d)"
| "issdl_cmp (VIPv4 a) d = Inr (ipv4_cmp a d)"
| "issdl_cmp (VTimeval s u) d = Inr (timeval_cmp s u d)"
| "issdl_cmp (VCounter c) d = Inr (counter_cmp c d)"
| "issdl_cmp _ d = Inr (-1)"

fun issdl_add :: "ovm_data \<Rightarrow> ovm_data \<Rightarrow> arith_result" where
  "issdl_add (VInt a) d = int_add a d"
| "issdl_add (VUInt a) d = uint_add a d"
| "issdl_add (VStr s) d = str_add s d"
| "issdl_add (VVStr s) d = vstr_add s d"
| "issdl_add (VCTime t) d = ctime_add t d"
| "issdl_add (VTimeval s u) d = timeval_add s u d"
| "issdl_add (VCounter c) d = counter_add c d"
| "issdl_add _ d = no_value"

fun issdl_sub :: "ovm_data \<Rightarrow> ovm_data \<Rightarrow> arith_result" where
  "issdl_sub (VInt a) d = int_sub a d"
| "issdl_sub (VUInt a) d = uint_sub a d"
| "issdl_sub (VCTime t) d = ctime_sub t d"
| "issdl_sub (VTimeval s u) d = timeval_sub s u d"
| "issdl_sub _ d = no_value"

fun issdl_mul :: "ovm_data \<Rightarrow> ovm_data \<Rightarrow> arith_result" where
  "issdl_mul (VInt a) d = int_mul a d"
| "issdl_mul (VUInt a) d = uint_mul a d"
| "issdl_mul (VCTime t) d = ctime_mul t d"
| "issdl_mul (VTimeval s u) d = timeval_mul s u d"
| "issdl_mul (VCounter c) d = counter_mul c d"
| "issdl_mul _ d = no_value"

fun issdl_div :: "ovm_data \<Rightarrow> ovm_data \<Rightarrow> arith_result" where
  "issdl_div (VInt a) d = int_div a d"
| "issdl_div (VUInt a) d = uint_div a d"
| "issdl_div (VCTime t) d = ctime_div t d"
| "issdl_div (VTimeval s u) d = timeval_div s u d"
| "issdl_div _ d = no_value"

fun issdl_mod :: "ovm_data \<Rightarrow> ovm_data \<Rightarrow> arith_result" where
  "issdl_mod (VInt a) d = int_mod a d"
| "issdl_mod (VUInt a) d = uint_mod a d"
| "issdl_mod (VCTime t) d = ctime_mod t d"
| "issdl_mod (VTimeval s u) d = timeval_mod s u d"
| "issdl_mod _ d = no_value"

fun issdl_clone :: "ovm_data \<Rightarrow> arith_result" where
  "issdl_clone (VInt a) = int_clone a"
| "issdl_clone (VUInt a) = uint_clone a"
| "issdl_clone (VBStr s) = bstr_clone s"
| "issdl_clone (VVBStr s) = vbstr_clone s"
| "issdl_clone (VStr s) = string_clone s"
| "issdl_clone (VVStr s) = vstr_clone s"
| "issdl_clone (VCTime t) = ctime_clone t"
| "issdl_clone (VIPv4 a) = ipv4_clone a"
| "issdl_clone (VTimeval s u) = timeval_clone s u"
| "issdl_clone (VCounter c) = counter_clone c"
| "issdl_clone _ = no_value"

text \<open>The truth of a value; \<open>INT(var)\<close> and \<open>UINT(var)\<close> are returned as an \<open>int\<close>.\<close>

fun issdl_test :: "ovm_data option \<Rightarrow> bool" where
  "issdl_test None = False"
| "issdl_test (Some (VNull _)) = False"
| "issdl_test (Some (VInt i)) = (c_int_of_long i \<noteq> 0)"
| "issdl_test (Some (VUInt u)) = (c_int_of_long u \<noteq> 0)"
| "issdl_test (Some _) = True"

text \<open>\<open>IS_NULL\<close>.\<close>

fun is_null :: "ovm_data option \<Rightarrow> bool" where
  "is_null None = True"
| "is_null (Some (VNull _)) = True"
| "is_null (Some _) = False"

section \<open>Raw data\<close>

text \<open>The bytes of a word in memory, least significant byte first.\<close>

definition bytes_le :: "nat \<Rightarrow> 'a::len word \<Rightarrow> byte list" where
  "bytes_le n w = map (\<lambda>i. ucast (drop_bit (8 * i) w)) [0..<n]"

text \<open>
  \<open>issdl_get_data\<close> together with \<open>issdl_get_data_len\<close>: the block that the two describe,
  \<open>None\<close> where \<open>get_data\<close> is \<open>NULL\<close> (the length is 0 then).
\<close>

fun issdl_get_data :: "ovm_data \<Rightarrow> byte list option" where
  "issdl_get_data (VInt i) = Some (bytes_le 8 i)"
| "issdl_get_data (VUInt i) = Some (bytes_le 8 i)"
| "issdl_get_data (VBStr s) = Some s"
| "issdl_get_data (VVBStr s) = Some s"
| "issdl_get_data (VStr s) = Some s"
| "issdl_get_data (VVStr s) = Some s"
| "issdl_get_data (VCTime t) = Some (bytes_le 8 t)"
| "issdl_get_data (VIPv4 a) = Some (bytes_le 4 a)"
| "issdl_get_data (VTimeval s u) = Some (bytes_le 8 s @ bytes_le 8 u)"
| "issdl_get_data (VCounter c) = Some (bytes_le 8 c)"
| "issdl_get_data (VRegex _ s) = Some s"
| "issdl_get_data (VSRegex _ s _) = Some s"
| "issdl_get_data (VPtr32 p) = Some (bytes_le 8 p)"
| "issdl_get_data (VExtern p) = Some (bytes_le 8 p)"
| "issdl_get_data _ = None"

definition issdl_get_data_len :: "ovm_data \<Rightarrow> nat" where
  "issdl_get_data_len d = (case issdl_get_data d of None \<Rightarrow> 0 | Some bs \<Rightarrow> length bs)"

end
