(* ===== verification/Lifo_Stack.thy ===== *)
theory Lifo_Stack
  imports Prelude
begin

text \<open>
  \<open>src/util/stack.c\<close>: the growable stack of \<open>void *\<close> on which the virtual machine works.
  A pointer is \<open>'a option\<close>, \<open>None\<close> being \<open>NULL\<close>.  The interface locale \<open>lifo\<close> is what the
  virtual machine relies on; it is interpreted on the operations of the C code.
\<close>

section \<open>The code\<close>

record 'a lifostack =
  stk_pos :: int
  stk_size :: nat
  stk_grow :: nat
  stk_data :: "'a option list"

definition new_stack :: "nat \<Rightarrow> nat \<Rightarrow> 'a lifostack" where
  "new_stack initial_size grow_size =
     \<lparr>stk_pos = -1, stk_size = initial_size, stk_grow = grow_size,
      stk_data = replicate initial_size None\<rparr>"

text \<open>\<open>realloc\<close> keeps the common prefix; the new slots are not initialised.\<close>

definition realloc_slots :: "nat \<Rightarrow> 'a option list \<Rightarrow> 'a option list" where
  "realloc_slots n xs = take n xs @ replicate (n - length xs) None"

text \<open>
  In \<open>newsize <= stack->pos\<close> the \<open>int\<close> is converted to \<open>size_t\<close>: with an empty stack the
  position is \<open>-1\<close>, which becomes the largest value, so an empty stack is never resized.
\<close>

definition stack_resize :: "'a lifostack \<Rightarrow> nat \<Rightarrow> 'a lifostack" where
  "stack_resize s newsize =
     (if stk_pos s < 0 \<or> int newsize \<le> stk_pos s then s
      else s\<lparr>stk_data := realloc_slots newsize (stk_data s), stk_size := newsize\<rparr>)"

text \<open>\<open>pos\<close> is converted to \<open>size_t\<close> here too, so the arithmetic is modulo \<open>2^64\<close>.\<close>

definition stack_shrink :: "'a lifostack \<Rightarrow> fault + 'a lifostack" where
  "stack_shrink s =
     (if stk_grow s = 0 then Inl SigFpe
      else let p = stk_pos s mod 2 ^ 64;
               n = nat ((p - p mod int (stk_grow s) + int (stk_grow s)) mod 2 ^ 64)
           in Inr (s\<lparr>stk_size := n, stk_data := realloc_slots n (stk_data s)\<rparr>))"

definition stack_push :: "'a lifostack \<Rightarrow> 'a option \<Rightarrow> fault + 'a lifostack" where
  "stack_push s d =
     (let s1 = (if stk_pos s = int (stk_size s) - 1
                then s\<lparr>stk_size := stk_size s + stk_grow s,
                       stk_data := realloc_slots (stk_size s + stk_grow s) (stk_data s)\<rparr>
                else s);
          p = stk_pos s1 + 1
      in if 0 \<le> p \<and> nat p < length (stk_data s1)
         then Inr (s1\<lparr>stk_pos := p, stk_data := (stk_data s1)[nat p := d]\<rparr>)
         else Inl OutOfBounds)"

definition stack_pop :: "'a lifostack \<Rightarrow> 'a option \<times> 'a lifostack" where
  "stack_pop s =
     (if stk_pos s < 0 then (None, s)
      else (stk_data s ! nat (stk_pos s), s\<lparr>stk_pos := stk_pos s - 1\<rparr>))"

section \<open>What the stack promises\<close>

definition stack_ok :: "'a lifostack \<Rightarrow> bool" where
  "stack_ok s \<longleftrightarrow> -1 \<le> stk_pos s \<and> stk_pos s < int (stk_size s) \<and>
     length (stk_data s) = stk_size s \<and> 0 < stk_grow s"

definition stack_list :: "'a lifostack \<Rightarrow> 'a option list" where
  "stack_list s = rev (take (nat (stk_pos s + 1)) (stk_data s))"

lemma stack_ok_new: "0 < g \<Longrightarrow> stack_ok (new_stack n g)"
  by (simp add: stack_ok_def new_stack_def)

lemma stack_list_new: "stack_list (new_stack n g) = []"
  by (simp add: stack_list_def new_stack_def)

lemma length_realloc_slots [simp]: "length (realloc_slots n xs) = n"
  by (simp add: realloc_slots_def)

lemma take_realloc_slots: "k \<le> n \<Longrightarrow> k \<le> length xs \<Longrightarrow> take k (realloc_slots n xs) = take k xs"
  by (simp add: realloc_slots_def)

lemma stack_push_ok:
  assumes "stack_ok s"
  shows "\<exists>s'. stack_push s d = Inr s' \<and> stack_ok s' \<and> stack_list s' = d # stack_list s"
proof -
  define s1 where "s1 = (if stk_pos s = int (stk_size s) - 1
                then s\<lparr>stk_size := stk_size s + stk_grow s,
                       stk_data := realloc_slots (stk_size s + stk_grow s) (stk_data s)\<rparr>
                else s)"
  define n where "n = nat (stk_pos s + 1)"
  have pos: "stk_pos s1 = stk_pos s" and n: "stk_pos s + 1 = int n"
    using assms by (auto simp: s1_def n_def stack_ok_def)
  have room: "n < stk_size s1" "length (stk_data s1) = stk_size s1" "0 < stk_grow s1"
    using assms n by (auto simp: s1_def stack_ok_def split: if_splits)
  have same: "take n (stk_data s1) = take n (stk_data s)"
    using assms n by (auto simp: s1_def stack_ok_def take_realloc_slots)
  let ?t = "s1\<lparr>stk_pos := int n, stk_data := (stk_data s1)[n := d]\<rparr>"
  have "stack_push s d = Inr ?t"
    unfolding stack_push_def Let_def s1_def [symmetric] using pos n room by simp
  moreover have "stack_ok ?t" using room by (simp add: stack_ok_def)
  moreover have "stack_list ?t = d # stack_list s"
    using room same by (simp add: stack_list_def n nat_add_distrib take_Suc_list_update)
  ultimately show ?thesis by blast
qed

lemma stack_pop_empty: "stack_ok s \<Longrightarrow> stack_list s = [] \<Longrightarrow> stack_pop s = (None, s)"
  by (auto simp: stack_ok_def stack_list_def stack_pop_def)

lemma stack_pop_top:
  assumes "stack_ok s" and "stack_list s = x # xs"
  shows "\<exists>s'. stack_pop s = (x, s') \<and> stack_ok s' \<and> stack_list s' = xs"
proof -
  have "stk_pos s \<noteq> -1" using assms(2) by (auto simp: stack_list_def)
  with assms(1) have p: "0 \<le> stk_pos s" and lt: "nat (stk_pos s) < length (stk_data s)"
    by (auto simp: stack_ok_def)
  have "nat (stk_pos s + 1) = Suc (nat (stk_pos s))" using p by simp
  with lt assms(2) have "x = stk_data s ! nat (stk_pos s)"
    and "xs = rev (take (nat (stk_pos s)) (stk_data s))"
    by (auto simp: stack_list_def rev_take_Suc)
  with p assms(1) show ?thesis
    by (auto simp: stack_pop_def stack_ok_def stack_list_def)
qed

section \<open>The interface of the stack\<close>

locale lifo =
  fixes push :: "'s \<Rightarrow> 'a option \<Rightarrow> fault + 's"
    and pop :: "'s \<Rightarrow> 'a option \<times> 's"
    and elems :: "'s \<Rightarrow> 'a option list"
    and ok :: "'s \<Rightarrow> bool"
  assumes push_elems: "ok s \<Longrightarrow> \<exists>s'. push s d = Inr s' \<and> ok s' \<and> elems s' = d # elems s"
    and pop_none: "ok s \<Longrightarrow> elems s = [] \<Longrightarrow> pop s = (None, s)"
    and pop_elems: "ok s \<Longrightarrow> elems s = x # xs \<Longrightarrow>
          \<exists>s'. pop s = (x, s') \<and> ok s' \<and> elems s' = xs"
begin

lemma pop_general:
  assumes "ok s"
  obtains s' where "pop s = (case elems s of [] \<Rightarrow> None | x # _ \<Rightarrow> x, s')"
    and "ok s'" and "elems s' = tl (elems s)"
  using assms pop_none [of s] pop_elems [of s] by (cases "elems s") auto

lemma pop_after_push:
  assumes "ok s" and "push s d = Inr s'"
  shows "fst (pop s') = d \<and> elems (snd (pop s')) = elems s \<and> ok (snd (pop s'))"
proof -
  from push_elems [OF assms(1), of d] assms(2) have "ok s'" "elems s' = d # elems s"
    by auto
  with pop_elems [of s' d "elems s"] show ?thesis by auto
qed

end

interpretation lst: lifo stack_push stack_pop stack_list stack_ok
  by unfold_locales (auto simp: stack_push_ok stack_pop_empty stack_pop_top)

end
