(* ===== verification/Ovm.thy ===== *)
theory Ovm
  imports Values Lifo_Stack
begin

text \<open>
  \<open>src/ovm.c\<close>: the Orchids virtual machine.  A state of the machine is the part of the heap
  that holds variables (\<open>ovm_var_t\<close> blocks), the stack of pointers, and the two environments
  of the state instance for which the bytecode runs.  The rule (static environment), the
  event (field values) and the function table do not change during a run; they form the
  context.  Each instruction is a definition of its own and \<open>ops_g\<close> is the jump table.
\<close>

section \<open>State\<close>

record ovm =
  heap :: "nat \<Rightarrow> ovm_var option"
  fresh :: nat
  ovm_stack :: "nat lifostack"
  current_env :: "nat option list option"
  inherit_env :: "nat option list option"

text \<open>\<open>regexec\<close> is a function of the regular expression library: it takes the source string
  of the expression and the subject, and reports the offsets of the submatches.\<close>

datatype regex_result = RegMatch "(int \<times> int) list" | RegNoMatch | RegError

record ovm_ctx =
  static_env :: "nat option list"
  field_vals :: "nat option list"
  static_1_res_id :: nat
  static_0_res_id :: nat
  static_null_res_id :: nat
  static_param_error_res_id :: nat
  static_regex_error_res_id :: nat
  vm_func_tbl :: "(ovm \<Rightarrow> fault + ovm) list"
  regexec :: "byte list \<Rightarrow> byte list \<Rightarrow> regex_result"

section \<open>Memory\<close>

text \<open>A block that was freed, or never allocated, is \<open>None\<close>; addresses are not reused.\<close>

definition deref :: "ovm \<Rightarrow> nat option \<Rightarrow> fault + ovm_var" where
  "deref m p = (case p of None \<Rightarrow> Inl NullDeref | Some a \<Rightarrow>
     (case heap m a of None \<Rightarrow> Inl DeadAccess | Some v \<Rightarrow> Inr v))"

definition free_var :: "nat option \<Rightarrow> ovm \<Rightarrow> fault + ovm" where
  "free_var p m = (case p of None \<Rightarrow> Inr m | Some a \<Rightarrow>
     (case heap m a of None \<Rightarrow> Inl DeadAccess | Some _ \<Rightarrow> Inr (m\<lparr>heap := (heap m)(a := None)\<rparr>)))"

definition alloc :: "ovm_var \<Rightarrow> ovm \<Rightarrow> nat option \<times> ovm" where
  "alloc v m = (Some (fresh m), m\<lparr>heap := (heap m)(fresh m \<mapsto> v), fresh := Suc (fresh m)\<rparr>)"

text \<open>\<open>IS_NOT_BOUND(x)\<close> on a pointer, \<open>if (IS_NOT_BOUND(x)) Xfree(x)\<close> and
  \<open>FREE_IF_NEEDED(x)\<close>, which tests the pointer first.\<close>

definition free_if_not_bound :: "nat option \<Rightarrow> ovm \<Rightarrow> fault + ovm" where
  "free_if_not_bound p m = bnd (deref m p) (\<lambda>v. if is_not_bound v then free_var p m else Inr m)"

definition free_if_needed :: "nat option \<Rightarrow> ovm \<Rightarrow> fault + ovm" where
  "free_if_needed p m = (if p = None then Inr m else free_if_not_bound p m)"

definition data_of :: "ovm \<Rightarrow> nat option \<Rightarrow> fault + ovm_data option" where
  "data_of m p = (if p = None then Inr None else bnd (deref m p) (\<lambda>v. Inr (Some (vdata v))))"

definition push :: "nat option \<Rightarrow> ovm \<Rightarrow> fault + ovm" where
  "push p m = bnd (stack_push (ovm_stack m) p) (\<lambda>s. Inr (m\<lparr>ovm_stack := s\<rparr>))"

definition pop :: "ovm \<Rightarrow> nat option \<times> ovm" where
  "pop m = (let (p, s) = stack_pop (ovm_stack m) in (p, m\<lparr>ovm_stack := s\<rparr>))"

section \<open>Instructions\<close>

type_synonym insn = "ovm_ctx \<Rightarrow> culong list \<Rightarrow> nat \<Rightarrow> ovm \<Rightarrow> fault + nat \<times> ovm"

definition operand :: "culong list \<Rightarrow> nat \<Rightarrow> fault + nat" where
  "operand code ip = bnd (at code (ip + 1)) (\<lambda>w. Inr (unat w))"

definition NULL_VAR :: "ovm_ctx \<Rightarrow> fault + nat option" where
  "NULL_VAR c = at (static_env c) (static_null_res_id c)"
definition PARAM_ERROR_VAR :: "ovm_ctx \<Rightarrow> fault + nat option" where
  "PARAM_ERROR_VAR c = at (static_env c) (static_param_error_res_id c)"
definition REGEX_ERROR_VAR :: "ovm_ctx \<Rightarrow> fault + nat option" where
  "REGEX_ERROR_VAR c = at (static_env c) (static_regex_error_res_id c)"
definition TRUE_VAR :: "ovm_ctx \<Rightarrow> fault + nat option" where
  "TRUE_VAR c = at (static_env c) (static_1_res_id c)"
definition FALSE_VAR :: "ovm_ctx \<Rightarrow> fault + nat option" where
  "FALSE_VAR c = at (static_env c) (static_0_res_id c)"

definition ovm_nop :: insn where
  "ovm_nop c code ip m = Inr (ip + 1, m)"

text \<open>A slot of an environment that may be absent (\<open>NULL\<close> when the rule has no
  variables).\<close>

definition env_slot :: "nat option list option \<Rightarrow> nat \<Rightarrow> fault + nat option" where
  "env_slot env i = (case env of None \<Rightarrow> Inr None | Some e \<Rightarrow> at e i)"

definition lookup_var :: "ovm_ctx \<Rightarrow> ovm \<Rightarrow> nat \<Rightarrow> fault + nat option" where
  "lookup_var c m i =
     bnd (env_slot (current_env m) i) (\<lambda>p. if p \<noteq> None then Inr p else
     bnd (env_slot (inherit_env m) i) (\<lambda>q. if q \<noteq> None then Inr q else NULL_VAR c))"

definition ovm_push :: insn where
  "ovm_push c code ip m =
     bnd (operand code ip) (\<lambda>i. bnd (lookup_var c m i) (\<lambda>p.
     bnd (push p m) (\<lambda>m. Inr (ip + 2, m))))"

definition ovm_pop :: insn where
  "ovm_pop c code ip m =
     bnd (operand code ip) (\<lambda>i.
     case current_env m of None \<Rightarrow> Inl NullDeref | Some env \<Rightarrow>
     bnd (at env i) (\<lambda>old.
     bnd (if old = None then Inr m
          else bnd (deref m old) (\<lambda>v. if can_free_var v then free_var old m else Inr m)) (\<lambda>m.
     let (p, m) = pop m; m = m\<lparr>current_env := Some (env[i := p])\<rparr>
     in case p of None \<Rightarrow> Inr (ip + 2, m)
        | Some a \<Rightarrow> bnd (deref m p) (\<lambda>v.
            Inr (ip + 2, m\<lparr>heap := (heap m)(a \<mapsto> clear_notbound v)\<rparr>)))))"

definition ovm_trash :: insn where
  "ovm_trash c code ip m =
     (let (p, m) = pop m in
      if p = None then Inr (ip + 1, m)
      else bnd (deref m p) (\<lambda>v.
           bnd (if can_free_var v then free_var p m else Inr m) (\<lambda>m. Inr (ip + 1, m))))"

definition ovm_pushstatic :: insn where
  "ovm_pushstatic c code ip m =
     bnd (operand code ip) (\<lambda>i. bnd (at (static_env c) i) (\<lambda>p.
     bnd (push p m) (\<lambda>m. Inr (ip + 2, m))))"

definition ovm_pushfield :: insn where
  "ovm_pushfield c code ip m =
     bnd (operand code ip) (\<lambda>i. bnd (at (field_vals c) i) (\<lambda>p.
     bnd (push p m) (\<lambda>m. Inr (ip + 2, m))))"

definition ovm_call :: insn where
  "ovm_call c code ip m =
     bnd (operand code ip) (\<lambda>i. bnd (at (vm_func_tbl c) i) (\<lambda>f.
     bnd (f m) (\<lambda>m. Inr (ip + 2, m))))"

subsection \<open>Arithmetic\<close>

text \<open>
  The five arithmetic instructions have the same body: the right operand is on top; a null
  operand or a refused operation gives the null value; and the operands are freed when they
  are temporaries, a test that reads the flags of both operands, \<open>NULL\<close> or not.
\<close>

definition ovm_arith :: "(ovm_data \<Rightarrow> ovm_data \<Rightarrow> arith_result) \<Rightarrow> insn" where
  "ovm_arith f c code ip m =
     (let (op2, m) = pop m; (op1, m) = pop m in
      bnd (data_of m op1) (\<lambda>d1.
      bnd (if is_null d1 then Inr (None, m)
           else bnd (data_of m op2) (\<lambda>d2.
             if is_null d2 then Inr (None, m)
             else bnd (f (the d1) (the d2)) (\<lambda>r.
               case r of None \<Rightarrow> Inr (None, m) | Some v \<Rightarrow> Inr (alloc v m)))) (\<lambda>(res, m).
      bnd (if res = None then NULL_VAR c else Inr res) (\<lambda>res.
      bnd (push res m) (\<lambda>m.
      bnd (free_if_not_bound op1 m) (\<lambda>m.
      bnd (free_if_not_bound op2 m) (\<lambda>m.
      Inr (ip + 1, m))))))))"

definition ovm_add :: insn where "ovm_add = ovm_arith issdl_add"
definition ovm_sub :: insn where "ovm_sub = ovm_arith issdl_sub"
definition ovm_mul :: insn where "ovm_mul = ovm_arith issdl_mul"
definition ovm_div :: insn where "ovm_div = ovm_arith issdl_div"
definition ovm_mod :: insn where "ovm_mod = ovm_arith issdl_mod"

text \<open>The instructions that are not implemented return \<open>-1\<close>, which \<open>ovm_exec\<close> ignores, and
  do not advance the instruction pointer.\<close>

definition not_implemented :: insn where
  "not_implemented c code ip m = Inr (ip, m)"

definition ovm_inc :: insn where "ovm_inc = not_implemented"
definition ovm_dec :: insn where "ovm_dec = not_implemented"
definition ovm_and :: insn where "ovm_and = not_implemented"
definition ovm_or :: insn where "ovm_or = not_implemented"
definition ovm_xor :: insn where "ovm_xor = not_implemented"
definition ovm_neg :: insn where "ovm_neg = not_implemented"
definition ovm_not :: insn where "ovm_not = not_implemented"

subsection \<open>Jumps\<close>

text \<open>The displacement is an \<open>unsigned long\<close> that is added to a pointer: it is read as a
  signed number, and a target before the code is outside the array.\<close>

definition jump_from :: "culong list \<Rightarrow> nat \<Rightarrow> fault + nat" where
  "jump_from code ip = bnd (at code (ip + 1)) (\<lambda>w.
     let t = int ip + sint w + 2 in if 0 \<le> t then Inr (nat t) else Inl OutOfBounds)"

definition ovm_jmp :: insn where
  "ovm_jmp c code ip m = bnd (jump_from code ip) (\<lambda>t. Inr (t, m))"

definition ovm_popcjmp :: insn where
  "ovm_popcjmp c code ip m =
     (let (p, m) = pop m in
      bnd (data_of m p) (\<lambda>d.
      if issdl_test d then bnd (jump_from code ip) (\<lambda>t. Inr (t, m)) else Inr (ip + 2, m)))"

subsection \<open>Comparisons\<close>

text \<open>The variable that a comparison of \<open>op1\<close> with \<open>op2\<close> pushes: the null value if one of
  them is null, otherwise the static \<open>1\<close> or \<open>0\<close>.\<close>

definition cmp_var ::
  "ovm_ctx \<Rightarrow> (int \<Rightarrow> bool) \<Rightarrow> ovm \<Rightarrow> nat option \<Rightarrow> nat option \<Rightarrow> fault + nat option" where
  "cmp_var c test m op1 op2 =
     bnd (data_of m op1) (\<lambda>d1.
     if is_null d1 then NULL_VAR c
     else bnd (data_of m op2) (\<lambda>d2.
       if is_null d2 then NULL_VAR c
       else bnd (issdl_cmp (the d1) (the d2)) (\<lambda>r.
         if test r then TRUE_VAR c else FALSE_VAR c)))"

definition ovm_ceq :: insn where
  "ovm_ceq c code ip m =
     (let (op1, m) = pop m; (op2, m) = pop m in
      bnd (cmp_var c (\<lambda>r. r = 0) m op1 op2) (\<lambda>res.
      bnd (push res m) (\<lambda>m.
      bnd (free_if_needed op1 m) (\<lambda>m.
      bnd (free_if_needed op2 m) (\<lambda>m. Inr (ip + 1, m))))))"

definition ovm_cneq :: insn where
  "ovm_cneq c code ip m =
     (let (op2, m) = pop m; (op1, m) = pop m in
      bnd (cmp_var c (\<lambda>r. r \<noteq> 0) m op1 op2) (\<lambda>res.
      bnd (push res m) (\<lambda>m.
      bnd (free_if_needed op1 m) (\<lambda>m.
      bnd (free_if_needed op2 m) (\<lambda>m. Inr (ip + 1, m))))))"

text \<open>The four orderings free the operands before they push the result.\<close>

definition ovm_order :: "(int \<Rightarrow> bool) \<Rightarrow> insn" where
  "ovm_order test c code ip m =
     (let (op2, m) = pop m; (op1, m) = pop m in
      bnd (cmp_var c test m op1 op2) (\<lambda>res.
      bnd (free_if_needed op1 m) (\<lambda>m.
      bnd (free_if_needed op2 m) (\<lambda>m.
      bnd (push res m) (\<lambda>m. Inr (ip + 1, m))))))"

definition ovm_clt :: insn where "ovm_clt = ovm_order (\<lambda>r. \<not> r \<ge> 0)"
definition ovm_cgt :: insn where "ovm_cgt = ovm_order (\<lambda>r. \<not> r \<le> 0)"
definition ovm_cle :: insn where "ovm_cle = ovm_order (\<lambda>r. \<not> r > 0)"
definition ovm_cge :: insn where "ovm_cge = ovm_order (\<lambda>r. \<not> r < 0)"

subsection \<open>Regular expressions\<close>

text \<open>\<open>ovm_strdup\<close> copies with \<open>strncpy\<close>: the C string ends at the first zero byte.\<close>

fun ovm_strdup :: "ovm_data \<Rightarrow> byte list option" where
  "ovm_strdup (VStr s) = Some (takeWhile (\<lambda>b. b \<noteq> 0) s)"
| "ovm_strdup (VVStr s) = Some (takeWhile (\<lambda>b. b \<noteq> 0) s)"
| "ovm_strdup _ = None"

text \<open>The variable that a match of \<open>string\<close> against \<open>regex\<close> pushes, given what to push for a
  match, for no match and for an error of the library.\<close>

definition match_var ::
  "ovm_ctx \<Rightarrow> fault + nat option \<Rightarrow> fault + nat option \<Rightarrow> fault + nat option \<Rightarrow>
   ovm \<Rightarrow> nat option \<Rightarrow> nat option \<Rightarrow> fault + nat option" where
  "match_var c yes no err m regex string =
     bnd (data_of m regex) (\<lambda>r.
     if is_null r then NULL_VAR c
     else bnd (data_of m string) (\<lambda>s.
       if is_null s then NULL_VAR c
       else case (the r, ovm_strdup (the s)) of
         (VRegex _ pat, Some str) \<Rightarrow>
            (case regexec c pat str of RegMatch _ \<Rightarrow> yes | RegNoMatch \<Rightarrow> no | RegError \<Rightarrow> err)
       | _ \<Rightarrow> PARAM_ERROR_VAR c))"

definition ovm_crm :: insn where
  "ovm_crm c code ip m =
     (let (regex, m) = pop m; (string, m) = pop m in
      bnd (match_var c (TRUE_VAR c) (FALSE_VAR c) (PARAM_ERROR_VAR c) m regex string) (\<lambda>res.
      bnd (push res m) (\<lambda>m.
      bnd (free_if_needed string m) (\<lambda>m.
      bnd (free_if_needed regex m) (\<lambda>m. Inr (ip + 1, m))))))"

definition ovm_cnrm :: insn where
  "ovm_cnrm c code ip m =
     (let (regex, m) = pop m; (string, m) = pop m in
      bnd (match_var c (FALSE_VAR c) (TRUE_VAR c) (REGEX_ERROR_VAR c) m regex string) (\<lambda>res.
      bnd (push res m) (\<lambda>m.
      bnd (free_if_needed string m) (\<lambda>m.
      bnd (free_if_needed regex m) (\<lambda>m. Inr (ip + 1, m))))))"

text \<open>
  The submatches \<open>n, \<dots>, 1\<close> are pushed as new strings without flags; a group that did not
  take part in the match has the offsets \<open>-1\<close> and gives an empty string.
\<close>

definition submatch :: "byte list \<Rightarrow> int \<times> int \<Rightarrow> byte list" where
  "submatch s g = take (nat (snd g - fst g)) (drop (nat (fst g)) s)"

fun push_submatches ::
  "byte list \<Rightarrow> (int \<times> int) list \<Rightarrow> nat \<Rightarrow> ovm \<Rightarrow> fault + ovm" where
  "push_submatches s gs 0 m = Inr m"
| "push_submatches s gs (Suc i) m =
     bnd (at gs (Suc i)) (\<lambda>g.
     let (p, m) = alloc \<lparr>vdata = VStr (submatch s g), vflags = 0\<rparr> m
     in bnd (push p m) (push_submatches s gs i))"

text \<open>
  The test \<open>IS_NULL(pattern) && IS_NULL(string)\<close> lets one null operand pass, and then
  \<open>TYPE\<close> reads it.  \<open>regexec\<close> fills an array of ten entries with \<open>splits + 1\<close> of them.
\<close>

definition ovm_regsplit :: insn where
  "ovm_regsplit c code ip m =
     (let (pattern, m) = pop m; (string, m) = pop m in
      bnd (data_of m pattern) (\<lambda>p.
      bnd (data_of m string) (\<lambda>s.
      bnd (if is_null p \<and> is_null s then Inr m
           else bnd (if p = None then Inl NullDeref else Inr (the p)) (\<lambda>pd.
             case pd of
               VSRegex _ pat n \<Rightarrow>
                 bnd (if s = None then Inl NullDeref else Inr (the s)) (\<lambda>sd.
                 case sd of
                   VStr str \<Rightarrow>
                     (let str0 = takeWhile (\<lambda>b. b \<noteq> 0) str in
                      case regexec c pat str0 of
                        RegMatch gs \<Rightarrow>
                          if sint n + 1 > 10 then Inl OutOfBounds
                          else push_submatches str gs (nat (sint n)) m
                      | _ \<Rightarrow> Inr m)
                 | _ \<Rightarrow> Inr m)
             | _ \<Rightarrow> Inr m)) (\<lambda>m.
      bnd (free_if_needed pattern m) (\<lambda>m.
      bnd (free_if_needed string m) (\<lambda>m. Inr (ip + 1, m)))))))"

definition ovm_cesv :: insn where "ovm_cesv = not_implemented"
definition ovm_past :: insn where "ovm_past = not_implemented"

section \<open>The jump table and the interpreter\<close>

definition ops_g :: "insn option list" where
  "ops_g = [None, Some ovm_nop, Some ovm_push, Some ovm_pop, Some ovm_pushstatic,
     Some ovm_pushfield, Some ovm_trash, Some ovm_call, Some ovm_add, Some ovm_sub,
     Some ovm_mul, Some ovm_div, Some ovm_mod, Some ovm_inc, Some ovm_dec, Some ovm_and,
     Some ovm_or, Some ovm_xor, Some ovm_neg, Some ovm_not, Some ovm_jmp, Some ovm_popcjmp,
     Some ovm_ceq, Some ovm_cneq, Some ovm_crm, Some ovm_cnrm, Some ovm_clt, Some ovm_cgt,
     Some ovm_cle, Some ovm_cge, Some ovm_regsplit, Some ovm_cesv, Some ovm_past, None]"

definition OPCODE_NUM :: nat where "OPCODE_NUM = 40"

abbreviation (input) "OP_END \<equiv> 0 :: nat"
abbreviation (input) "OP_NOP \<equiv> 1 :: nat"
abbreviation (input) "OP_PUSH \<equiv> 2 :: nat"
abbreviation (input) "OP_POP \<equiv> 3 :: nat"
abbreviation (input) "OP_PUSHSTATIC \<equiv> 4 :: nat"
abbreviation (input) "OP_PUSHFIELD \<equiv> 5 :: nat"
abbreviation (input) "OP_TRASH \<equiv> 6 :: nat"
abbreviation (input) "OP_CALL \<equiv> 7 :: nat"
abbreviation (input) "OP_ADD \<equiv> 8 :: nat"
abbreviation (input) "OP_SUB \<equiv> 9 :: nat"
abbreviation (input) "OP_MUL \<equiv> 10 :: nat"
abbreviation (input) "OP_DIV \<equiv> 11 :: nat"
abbreviation (input) "OP_MOD \<equiv> 12 :: nat"
abbreviation (input) "OP_INC \<equiv> 13 :: nat"
abbreviation (input) "OP_JMP \<equiv> 20 :: nat"
abbreviation (input) "OP_POPCJMP \<equiv> 21 :: nat"
abbreviation (input) "OP_CEQ \<equiv> 22 :: nat"
abbreviation (input) "OP_CNEQ \<equiv> 23 :: nat"
abbreviation (input) "OP_CRM \<equiv> 24 :: nat"
abbreviation (input) "OP_CNRM \<equiv> 25 :: nat"
abbreviation (input) "OP_CLT \<equiv> 26 :: nat"
abbreviation (input) "OP_CGT \<equiv> 27 :: nat"
abbreviation (input) "OP_CLE \<equiv> 28 :: nat"
abbreviation (input) "OP_CGE \<equiv> 29 :: nat"
abbreviation (input) "OP_REGSPLIT \<equiv> 30 :: nat"

lemma free_if_needed_stack: "free_if_needed p m = Inr m' \<Longrightarrow> ovm_stack m' = ovm_stack m"
  by (auto simp: free_if_needed_def free_if_not_bound_def free_var_def
      split: if_splits option.splits)

text \<open>\<open>ovm_flush\<close> pops until it gets \<open>NULL\<close>.\<close>

function ovm_flush :: "ovm \<Rightarrow> fault + ovm" where
  "ovm_flush m = (let (p, m) = pop m in
     if p = None then Inr m else bnd (free_if_needed p m) ovm_flush)"
  by pat_completeness auto
termination
  by (relation "measure (\<lambda>m. nat (stk_pos (ovm_stack m) + 1))")
    (auto simp: pop_def stack_pop_def split: if_splits dest!: free_if_needed_stack)

declare ovm_flush.simps [simp del]

text \<open>The loop of \<open>ovm_exec\<close>.  An opcode below \<open>OPCODE_NUM\<close> is looked up in the jump table,
  which has 34 entries; calling a \<open>NULL\<close> entry is a null dereference.\<close>

definition ovm_insn :: "ovm_ctx \<Rightarrow> culong list \<Rightarrow> nat \<Rightarrow> nat \<Rightarrow> ovm \<Rightarrow> fault + nat \<times> ovm" where
  "ovm_insn c code opc ip m =
     bnd (at ops_g opc) (\<lambda>f. case f of None \<Rightarrow> Inl NullDeref | Some g \<Rightarrow> g c code ip m)"

datatype vm_stop = Finished ovm | Unknown_Opcode ovm

text \<open>The result is \<open>None\<close> when the fuel is used up before the program stops.\<close>

fun ovm_loop :: "nat \<Rightarrow> ovm_ctx \<Rightarrow> culong list \<Rightarrow> nat \<Rightarrow> ovm \<Rightarrow> (fault + vm_stop) option" where
  "ovm_loop 0 c code ip m = None"
| "ovm_loop (Suc n) c code ip m =
     (case at code ip of
        Inl e \<Rightarrow> Some (Inl e)
      | Inr w \<Rightarrow>
          if unat w = OP_END then Some (Inr (Finished m))
          else if unat w \<ge> OPCODE_NUM then Some (Inr (Unknown_Opcode m))
          else (case ovm_insn c code (unat w) ip m of
                  Inl e \<Rightarrow> Some (Inl e)
                | Inr (ip', m') \<Rightarrow> ovm_loop n c code ip' m'))"

definition ovm_exec :: "nat \<Rightarrow> ovm_ctx \<Rightarrow> culong list \<Rightarrow> ovm \<Rightarrow> (fault + int \<times> ovm) option" where
  "ovm_exec fuel c code m =
     (case ovm_loop fuel c code 0 m of
        None \<Rightarrow> None
      | Some (Inl e) \<Rightarrow> Some (Inl e)
      | Some (Inr (Unknown_Opcode m')) \<Rightarrow> Some (bnd (ovm_flush m') (\<lambda>m''. Inr (1, m'')))
      | Some (Inr (Finished m')) \<Rightarrow>
          (let (res, m1) = pop m' in
           Some (bnd (ovm_flush m1) (\<lambda>m2.
             bnd (data_of m2 res) (\<lambda>d. case d of
                Some (VInt i) \<Rightarrow> Inr (if i = 0 then 1 else 0, m2)
              | _ \<Rightarrow> Inr (1, m2))))))"

end
