(* ===== verification/Value_Laws.thy ===== *)
theory Value_Laws
  imports Values
begin

text \<open>
  What the operations of theory \<open>Values\<close> guarantee: exactly when an arithmetic operation can
  stop the program, that every result is a temporary, what the comparisons decide, and the
  exactness of the arithmetic on dates and time values.
\<close>

section \<open>Flags\<close>

lemmas type_flag_defs = TYPE_MONO_def TYPE_ANTI_def TYPE_CONST_def TYPE_CANFREE_def
  TYPE_NOTBOUND_def

lemma flag_absorb: "(f OR m) AND m = (m :: cint)"
  by simp

lemma is_not_bound_temp [simp]: "is_not_bound (temp_from v d)"
  by (simp add: is_not_bound_def temp_from_def flag_absorb)

lemma vdata_temp [simp]: "vdata (temp_from v d) = d"
  by (simp add: temp_from_def)

lemma can_free_temp [simp]: "can_free_var (temp_from v d)"
proof -
  have "(vflags v OR (TYPE_CANFREE OR TYPE_NOTBOUND)) AND TYPE_CANFREE = TYPE_CANFREE"
    by (metis flag_absorb or.assoc or.commute)
  then show ?thesis by (simp add: can_free_var_def temp_from_def TYPE_CANFREE_def)
qed

lemma is_not_bound_can_free: "is_not_bound v \<Longrightarrow> can_free_var v"
proof -
  assume "is_not_bound v"
  then have "vflags v AND TYPE_CANFREE = TYPE_CANFREE"
    unfolding is_not_bound_def by (metis and.left_commute word_ao_absorbs(3))
  then show ?thesis by (simp add: can_free_var_def TYPE_CANFREE_def)
qed

lemma not_bound_cleared [simp]: "\<not> is_not_bound (clear_notbound v)"
proof
  assume "is_not_bound (clear_notbound v)"
  then have "bit ((vflags v AND NOT TYPE_NOTBOUND) AND (TYPE_CANFREE OR TYPE_NOTBOUND)) 3"
    by (simp add: is_not_bound_def clear_notbound_def type_flag_defs)
  then show False by (simp add: TYPE_NOTBOUND_def bit_simps)
qed

lemma vdata_cleared [simp]: "vdata (clear_notbound v) = vdata v"
  by (simp add: clear_notbound_def)

section \<open>Truncation to \<open>int\<close>\<close>

lemma c_int_word_of_int: "c_int_of_long (word_of_int k) = signed_take_bit 31 k"
  by (simp add: c_int_of_long_def ucast_down_wi is_down sint_sbintrunc')

lemma c_int_of_diff: "c_int_of_long (a - b) = signed_take_bit 31 (sint a - sint b)"
  using c_int_word_of_int [of "sint a - sint b"] by (simp add: wi_hom_sub [symmetric])

lemma c_int_of_diff_unsigned: "c_int_of_long (a - b) = signed_take_bit 31 (uint a - uint b)"
  using c_int_word_of_int [of "uint a - uint b"] by (simp add: wi_hom_sub [symmetric])

lemma signed_take_bit_eq_0: "signed_take_bit 31 (k :: int) = 0 \<longleftrightarrow> 2 ^ 32 dvd k"
proof -
  have "signed_take_bit 31 k = 0 \<longleftrightarrow> take_bit 32 k = take_bit 32 0"
    using signed_take_bit_eq_iff_take_bit_eq [of 31 k 0] by simp
  then show ?thesis by (simp add: take_bit_eq_0_iff)
qed

lemma sgn_signed_take_bit:
  "\<bar>k\<bar> < 2 ^ 31 \<Longrightarrow> sgn (signed_take_bit 31 (k :: int)) = sgn k"
  by (simp add: signed_take_bit_int_eq_self)

section \<open>Division of \<open>long\<close>\<close>

definition div_overflows :: "clong \<Rightarrow> clong \<Rightarrow> bool" where
  "div_overflows a b \<longleftrightarrow> sint a = - (2 ^ 63) \<and> sint b = -1"

lemma long_div_Inl: "long_div a b = Inl f \<longleftrightarrow> f = SigFpe \<and> (b = 0 \<or> div_overflows a b)"
  by (auto simp: long_div_def div_overflows_def)

lemma long_mod_Inl: "long_mod a b = Inl f \<longleftrightarrow> f = SigFpe \<and> (b = 0 \<or> div_overflows a b)"
  by (auto simp: long_mod_def div_overflows_def)

lemma sint_bounds: "- (2 ^ 63) \<le> sint (a :: clong) \<and> sint a < 2 ^ 63"
  using sint_lt [of a] sint_ge [of a] by simp

lemma sint_eq_zero: "sint (b :: clong) = 0 \<longleftrightarrow> b = 0"
  by (metis signed_0 signed_word_eqI)

lemma sdiv_trunc_bound:
  assumes "- (2 ^ 63) \<le> x" "x < 2 ^ 63" and "y \<noteq> 0" and "\<not> (x = - (2 ^ 63) \<and> y = -1)"
  shows "- (2 ^ 63) \<le> sdiv_trunc x y \<and> sdiv_trunc x y < 2 ^ 63"
proof (cases "\<bar>y\<bar> = 1")
  case True
  then have "y = 1 \<or> y = -1" by arith
  moreover have "sgn x * \<bar>x\<bar> = x" by (rule sgn_mult_abs)
  ultimately have "sdiv_trunc x y = x \<or> sdiv_trunc x y = - x \<and> y = -1"
    by (auto simp: sdiv_trunc_def)
  with assms show ?thesis by auto
next
  case False
  with assms(3) have "2 \<le> \<bar>y\<bar>" by arith
  then have "\<bar>x\<bar> div \<bar>y\<bar> \<le> \<bar>x\<bar> div 2"
    by (intro zdiv_mono2) auto
  then have "\<bar>sdiv_trunc x y\<bar> \<le> \<bar>x\<bar> div 2"
    using assms(3) by (simp add: abs_sdiv_trunc)
  moreover have "\<bar>x\<bar> \<le> 2 ^ 63" using assms(1,2) by arith
  ultimately show ?thesis by (simp add: abs_le_iff) arith
qed

lemma sint_word_of_int: "- (2 ^ 63) \<le> k \<Longrightarrow> k < 2 ^ 63 \<Longrightarrow> sint (word_of_int k :: clong) = k"
  by (simp add: sint_sbintrunc' signed_take_bit_int_eq_self)

lemma long_div_Inr:
  assumes "long_div a b = Inr q"
  shows "sint q = sdiv_trunc (sint a) (sint b)"
proof -
  from assms have b: "sint b \<noteq> 0" "\<not> (sint a = - (2 ^ 63) \<and> sint b = -1)"
    and q: "q = word_of_int (sdiv_trunc (sint a) (sint b))"
    by (auto simp: long_div_def sint_eq_zero split: if_splits)
  from sdiv_trunc_bound [OF _ _ b] sint_bounds [of a] show ?thesis
    unfolding q by (intro sint_word_of_int) auto
qed

lemma long_mod_Inr:
  assumes "long_mod a b = Inr r"
  shows "sint r = smod_trunc (sint a) (sint b)"
proof -
  from assms have b: "sint b \<noteq> 0" and r: "r = word_of_int (smod_trunc (sint a) (sint b))"
    by (auto simp: long_mod_def sint_eq_zero split: if_splits)
  have "\<bar>smod_trunc (sint a) (sint b)\<bar> < 2 ^ 63"
    using abs_smod_trunc_less [OF b, of "sint a"] sint_bounds [of b] by arith
  then show ?thesis unfolding r by (intro sint_word_of_int) auto
qed

section \<open>When arithmetic stops the program\<close>

text \<open>The pairs of operands whose quotient is computed with the signed division of
  \<open>long\<close>.\<close>

fun long_operands :: "ovm_data \<Rightarrow> ovm_data \<Rightarrow> (clong \<times> clong) option" where
  "long_operands (VInt x) (VInt y) = Some (x, y)"
| "long_operands (VCTime x) (VInt y) = Some (x, y)"
| "long_operands (VCTime x) (VCTime y) = Some (x, y)"
| "long_operands (VTimeval x u) (VInt y) = Some (x, y)"
| "long_operands (VTimeval x u) (VCTime y) = Some (x, y)"
| "long_operands _ _ = None"

lemmas arith_defs =
  int_add_def int_sub_def int_mul_def int_div_def int_mod_def
  uint_add_def uint_sub_def uint_mul_def uint_div_def uint_mod_def
  str_add_def vstr_add_def
  ctime_add_def ctime_sub_def ctime_mul_def ctime_div_def ctime_mod_def
  timeval_add_def timeval_sub_def timeval_mul_def timeval_div_def timeval_mod_def
  counter_add_def counter_mul_def

lemma bnd_eq_Inl: "bnd m g = Inl f \<longleftrightarrow> m = Inl f \<or> (\<exists>x. m = Inr x \<and> g x = Inl f)"
  by (cases m) auto

lemma add_fault: "issdl_add a b = Inl f \<longleftrightarrow>
    f = NullDeref \<and> (\<exists>s t. a = VVStr s \<and> b = VVStr t \<and> s @ t \<noteq> [])"
  by (cases a; cases b) (auto simp: arith_defs)

lemma sub_fault: "issdl_sub a b = Inl f \<longleftrightarrow> (\<exists>u. a = VUInt u) \<and> raw_ulong b = Inl f"
  by (cases a; cases b) (auto simp: arith_defs)

lemma mul_fault: "issdl_mul a b \<noteq> Inl f"
  by (cases a; cases b) (auto simp: arith_defs)

lemma uint_div_fault: "uint_div u b = Inl f \<longleftrightarrow>
    raw_ulong b = Inl f \<or> raw_ulong b = Inr 0 \<and> f = SigFpe"
  by (auto simp: uint_div_def bnd_eq_Inl)

lemma uint_mod_fault: "uint_mod u b = Inl f \<longleftrightarrow>
    raw_ulong b = Inl f \<or> raw_ulong b = Inr 0 \<and> f = SigFpe"
  by (auto simp: uint_mod_def bnd_eq_Inl)

lemma div_overflows_nonzero: "div_overflows x y \<Longrightarrow> y \<noteq> 0"
  by (auto simp: div_overflows_def)

lemma div_fault: "issdl_div a b = Inl f \<longleftrightarrow>
    (\<exists>u. a = VUInt u \<and> (raw_ulong b = Inl f \<or> raw_ulong b = Inr 0 \<and> f = SigFpe)) \<or>
    f = SigFpe \<and> (\<exists>x y. long_operands a b = Some (x, y) \<and> div_overflows x y)"
proof (cases "\<exists>u. a = VUInt u")
  case True
  then show ?thesis by (cases b) (auto simp: uint_div_fault)
next
  case False
  then show ?thesis
    by (cases a; cases b)
      (auto simp: arith_defs bnd_eq_Inl long_div_Inl dest: div_overflows_nonzero)
qed

lemma mod_fault: "issdl_mod a b = Inl f \<longleftrightarrow>
    (\<exists>u. a = VUInt u \<and> (raw_ulong b = Inl f \<or> raw_ulong b = Inr 0 \<and> f = SigFpe)) \<or>
    f = SigFpe \<and> (\<exists>x y. long_operands a b = Some (x, y) \<and> div_overflows x y)"
proof (cases "\<exists>u. a = VUInt u")
  case True
  then show ?thesis by (cases b) (auto simp: uint_mod_fault)
next
  case False
  then show ?thesis
    by (cases a; cases b)
      (auto simp: arith_defs bnd_eq_Inl long_mod_Inl dest: div_overflows_nonzero)
qed

text \<open>
  Claim C37: an arithmetic operation of the language stops the program in exactly these cases.
  An addition writes through \<open>NULL\<close> when both operands are virtual strings that are not both
  empty; a subtraction reads outside a block when an unsigned integer is the left operand and
  the right one is a null value or an address; a multiplication never stops; a division or a
  modulo by an operand that reads as zero traps when the left operand is unsigned (there the
  guard against zero is inverted), and every signed one traps for the smallest \<open>long\<close> divided
  by \<open>-1\<close>.  Division of an integer or a date by zero is not among them.
\<close>

theorem arithmetic_fault_iff:
  "(issdl_add a b = Inl f \<longleftrightarrow>
      f = NullDeref \<and> (\<exists>s t. a = VVStr s \<and> b = VVStr t \<and> s @ t \<noteq> [])) \<and>
   (issdl_sub a b = Inl f \<longleftrightarrow> (\<exists>u. a = VUInt u) \<and> raw_ulong b = Inl f) \<and>
   issdl_mul a b \<noteq> Inl f \<and>
   (issdl_div a b = Inl f \<longleftrightarrow>
      (\<exists>u. a = VUInt u \<and> (raw_ulong b = Inl f \<or> raw_ulong b = Inr 0 \<and> f = SigFpe)) \<or>
      f = SigFpe \<and> (\<exists>x y. long_operands a b = Some (x, y) \<and> div_overflows x y)) \<and>
   (issdl_mod a b = Inl f \<longleftrightarrow>
      (\<exists>u. a = VUInt u \<and> (raw_ulong b = Inl f \<or> raw_ulong b = Inr 0 \<and> f = SigFpe)) \<or>
      f = SigFpe \<and> (\<exists>x y. long_operands a b = Some (x, y) \<and> div_overflows x y))"
  by (intro conjI add_fault sub_fault mul_fault div_fault mod_fault)

section \<open>Results are temporaries\<close>

lemma add_temp: "issdl_add a b = Inr (Some v) \<Longrightarrow> is_not_bound v"
  by (cases a; cases b) (auto simp: arith_defs split: if_splits)

lemma sub_temp: "issdl_sub a b = Inr (Some v) \<Longrightarrow> is_not_bound v"
  by (cases a; cases b) (auto simp: arith_defs split: if_splits)

lemma mul_temp: "issdl_mul a b = Inr (Some v) \<Longrightarrow> is_not_bound v"
  by (cases a; cases b) (auto simp: arith_defs split: if_splits)

lemma div_temp: "issdl_div a b = Inr (Some v) \<Longrightarrow> is_not_bound v"
  by (cases a; cases b) (auto simp: arith_defs split: if_splits)

lemma mod_temp: "issdl_mod a b = Inr (Some v) \<Longrightarrow> is_not_bound v"
  by (cases a; cases b) (auto simp: arith_defs split: if_splits)

section \<open>Integer comparison and division\<close>

text \<open>
  Two integers compare as equal exactly when they agree modulo \<open>2^32\<close>, because the
  difference of two \<open>long\<close> values is returned as an \<open>int\<close>.  The integers that differ by less
  than \<open>2^31\<close> are ordered correctly.
\<close>

lemma int_compare:
  "\<exists>c. issdl_cmp (VInt a) (VInt b) = Inr c \<and>
       (c = 0 \<longleftrightarrow> sint a mod 2 ^ 32 = sint b mod 2 ^ 32) \<and>
       (\<bar>sint a - sint b\<bar> < 2 ^ 31 \<longrightarrow> sgn c = sgn (sint a - sint b))"
  by (auto simp: int_cmp_def c_int_of_diff signed_take_bit_eq_0 mod_eq_dvd_iff
      intro: sgn_signed_take_bit)

text \<open>The operands \<open>5\<close> and \<open>7\<close> are ordered; \<open>0\<close> and \<open>2^32\<close> are taken for equal.\<close>

lemma int_compare_witness:
  "(\<exists>c. issdl_cmp (VInt 5) (VInt 7) = Inr c \<and> sgn c = -1) \<and>
   issdl_cmp (VInt 0) (VInt (2 ^ 32)) = Inr 0"
proof
  show "\<exists>c. issdl_cmp (VInt 5) (VInt 7) = Inr c \<and> sgn c = -1"
    using int_compare [of 5 7] by auto
  show "issdl_cmp (VInt 0) (VInt (2 ^ 32)) = Inr 0"
    using int_compare [of 0 "2 ^ 32"] by auto
qed

text \<open>
  For a non-zero divisor that does not make the quotient overflow, division and
  modulo of integers return a quotient and a remainder with \<open>a = q * b + r\<close>, the remainder
  smaller than the divisor and with the sign of the dividend; a zero divisor returns no value
  and does not trap.
\<close>

theorem int_division:
  assumes "\<not> div_overflows a b"
  shows "(b = 0 \<and> issdl_div (VInt a) (VInt b) = no_value \<and> issdl_mod (VInt a) (VInt b) = no_value)
    \<or> (\<exists>q r. issdl_div (VInt a) (VInt b) = new_value (temp_from ovm_int_new (VInt q)) \<and>
           issdl_mod (VInt a) (VInt b) = new_value (temp_from ovm_int_new (VInt r)) \<and>
           sint a = sint q * sint b + sint r \<and> \<bar>sint r\<bar> < \<bar>sint b\<bar> \<and> 0 \<le> sint r * sint a)"
proof (cases "b = 0")
  case True
  then show ?thesis by (simp add: int_div_def int_mod_def)
next
  case False
  with assms obtain q r where q: "long_div a b = Inr q" and r: "long_mod a b = Inr r"
    by (meson long_div_Inl long_mod_Inl old.sum.exhaust)
  have b: "sint b \<noteq> 0" using False by (simp add: sint_eq_zero)
  have "sint a = sint q * sint b + sint r"
    using smod_trunc_eq [of "sint a" "sint b"] long_div_Inr [OF q] long_mod_Inr [OF r] by simp
  moreover have "\<bar>sint r\<bar> < \<bar>sint b\<bar>"
    using abs_smod_trunc_less [OF b] long_mod_Inr [OF r] by simp
  moreover have "sint r * sint a = \<bar>sint a\<bar> * (\<bar>sint a\<bar> mod \<bar>sint b\<bar>)"
    unfolding long_mod_Inr [OF r] smod_trunc_sgn by (simp add: abs_sgn mult_ac)
  then have "0 \<le> sint r * sint a" using b by simp
  ultimately show ?thesis using False q r by (auto simp: int_div_def int_mod_def)
qed

theorem int_division_witness:
  "\<not> div_overflows (- 7) 2 \<and>
   (\<exists>q r. issdl_div (VInt (- 7)) (VInt 2) = new_value (temp_from ovm_int_new (VInt q)) \<and>
      issdl_mod (VInt (- 7)) (VInt 2) = new_value (temp_from ovm_int_new (VInt r)) \<and>
      - 7 = sint q * 2 + sint r \<and> \<bar>sint r\<bar> < 2)"
proof -
  have h: "\<not> div_overflows (- 7) 2" by (simp add: div_overflows_def)
  show ?thesis using h int_division [OF h] by auto
qed

section \<open>Strings\<close>

lemma memcmp_zero: "memcmp xs ys = Inr 0 \<longleftrightarrow> take (length xs) ys = xs"
  by (induction xs ys rule: memcmp.induct) (auto dest: unsigned_word_eqI)

lemma memcmp_fault: "memcmp xs ys = Inl f \<longleftrightarrow>
    f = OutOfBounds \<and> length ys < length xs \<and> take (length ys) xs = ys"
  by (induction xs ys rule: memcmp.induct) auto

lemma memcmp_order:
  "length xs = length ys \<Longrightarrow> \<exists>c. memcmp xs ys = Inr c \<and>
     (c < 0 \<longleftrightarrow> (xs, ys) \<in> lexord {(x, y). x < y}) \<and> (c = 0 \<longleftrightarrow> xs = ys)"
  by (induction xs ys rule: memcmp.induct) (auto simp: word_less_def dest: unsigned_word_eqI)

lemma zero_bytes5: "replicate 5 (0 :: byte) = [0, 0, 0, 0, 0]"
  by (simp add: numeral_eq_Suc)

text \<open>
  A string compares as equal to a second string exactly when it is a prefix of the
  second one followed by its five trailing zero bytes, so the empty string equals every string
  and the comparison is not symmetric; it reads outside the second block exactly when the
  first string continues that block beyond its end.  Two strings of the same length are
  ordered as byte sequences.
\<close>

lemma string_compare:
  "(issdl_cmp (VStr s) (VStr t) = Inr 0 \<longleftrightarrow> take (length s) (t @ replicate 5 0) = s) \<and>
   (issdl_cmp (VStr s) (VStr t) = Inl f \<longleftrightarrow>
      f = OutOfBounds \<and> length t + 5 < length s \<and> take (length t + 5) s = t @ replicate 5 0) \<and>
   (length s = length t \<longrightarrow> (\<exists>c. issdl_cmp (VStr s) (VStr t) = Inr c \<and>
      (c < 0 \<longleftrightarrow> (s, t) \<in> lexord {(x, y). x < y})))"
proof (intro conjI impI)
  show "issdl_cmp (VStr s) (VStr t) = Inr 0 \<longleftrightarrow> take (length s) (t @ replicate 5 0) = s"
    by (simp add: str_cmp_def str_block_def memcmp_zero)
  show "issdl_cmp (VStr s) (VStr t) = Inl f \<longleftrightarrow>
      f = OutOfBounds \<and> length t + 5 < length s \<and> take (length t + 5) s = t @ replicate 5 0"
    by (simp add: str_cmp_def str_block_def memcmp_fault)
  assume "length s = length t"
  moreover have "memcmp s (t @ u) = memcmp s t" if "length s \<le> length t" for s t u :: "byte list"
    using that by (induction s t rule: memcmp.induct) auto
  ultimately show "\<exists>c. issdl_cmp (VStr s) (VStr t) = Inr c \<and>
      (c < 0 \<longleftrightarrow> (s, t) \<in> lexord {(x, y). x < y})"
    using memcmp_order [of s t] by (auto simp: str_cmp_def str_block_def)
qed

lemma string_compare_witness:
  "issdl_cmp (VStr [97]) (VStr [97, 98]) = Inr 0 \<and> issdl_cmp (VStr [97, 98]) (VStr [97]) \<noteq> Inr 0 \<and>
   (\<exists>c. issdl_cmp (VStr [97]) (VStr [98]) = Inr c \<and> c < 0)"
  using zero_bytes5 string_compare [of "[97]" "[97, 98]" NullDeref] string_compare [of "[97, 98]" "[97]" NullDeref]
    string_compare [of "[97]" "[98]" NullDeref]
  by simp

section \<open>Time values\<close>

text \<open>The time in microseconds, and the range of values that arise from clocks.\<close>

definition usecs :: "clong \<times> clong \<Rightarrow> int" where
  "usecs t = sint (fst t) * 1000000 + sint (snd t)"

definition tv_ok :: "clong \<times> clong \<Rightarrow> bool" where
  "tv_ok t \<longleftrightarrow> \<bar>sint (fst t)\<bar> < 2 ^ 61 \<and> 0 \<le> sint (snd t) \<and> sint (snd t) < 1000000"

lemma sint_add_small:
  "\<bar>sint a + sint b\<bar> < 2 ^ 63 \<Longrightarrow> sint (a + b :: clong) = sint a + sint b"
  using sint_word_of_int [of "sint a + sint b"] by (simp add: wi_hom_add [symmetric])

lemma sint_diff_small:
  "\<bar>sint a - sint b\<bar> < 2 ^ 63 \<Longrightarrow> sint (a - b :: clong) = sint a - sint b"
  using sint_word_of_int [of "sint a - sint b"] by (simp add: wi_hom_sub [symmetric])

lemma Timer_Add_usecs:
  assumes "tv_ok a" and "tv_ok b"
  shows "usecs (Timer_Add a b) = usecs a + usecs b \<and>
         0 \<le> sint (snd (Timer_Add a b)) \<and> sint (snd (Timer_Add a b)) < 1000000"
proof -
  define u where "u = sint (snd a) + sint (snd b)"
  have u: "sint (snd a + snd b) = u" "0 \<le> u" "u < 2000000"
    using assms by (auto simp: u_def tv_ok_def intro!: sint_add_small)
  have q: "sdiv_trunc u 1000000 = u div 1000000" "smod_trunc u 1000000 = u mod 1000000"
    using u by (auto simp: sdiv_trunc_def smod_trunc_sgn sgn_if)
  have qs: "sint (word_of_int (u div 1000000) :: clong) = u div 1000000"
    "sint (word_of_int (u mod 1000000) :: clong) = u mod 1000000"
    using u by (auto intro!: sint_word_of_int)
  have sec: "sint (fst a + fst b) = sint (fst a) + sint (fst b)"
    using assms by (auto simp: tv_ok_def intro!: sint_add_small)
  have "sint (fst a + fst b + word_of_int (u div 1000000)) =
      sint (fst a) + sint (fst b) + u div 1000000"
    using assms u by (subst sint_add_small) (auto simp: sec qs tv_ok_def)
  moreover have "Timer_Add a b =
      (fst a + fst b + word_of_int (u div 1000000), word_of_int (u mod 1000000))"
    by (simp add: Timer_Add_def u(1) q)
  ultimately have "usecs (Timer_Add a b) =
      (sint (fst a) + sint (fst b) + u div 1000000) * 1000000 + u mod 1000000"
    and norm: "snd (Timer_Add a b) = word_of_int (u mod 1000000)"
    by (simp_all add: usecs_def qs)
  moreover have "u div 1000000 * 1000000 + u mod 1000000 = sint (snd a) + sint (snd b)"
    by (simp add: u_def)
  ultimately have "usecs (Timer_Add a b) = usecs a + usecs b"
    unfolding usecs_def [of a] usecs_def [of b] by (simp only: distrib_right)
  then show ?thesis by (simp add: norm qs)
qed

lemma Timer_Sub_usecs:
  assumes "tv_ok a" and "tv_ok b"
  shows "usecs (Timer_Sub a b) = usecs a - usecs b \<and>
         0 \<le> sint (snd (Timer_Sub a b)) \<and> sint (snd (Timer_Sub a b)) < 1000000"
proof -
  have "sint (fst a - fst b) = sint (fst a) - sint (fst b)"
    "sint (snd a - snd b) = sint (snd a) - sint (snd b)"
    using assms by (auto simp: tv_ok_def intro!: sint_diff_small)
  moreover have "sint (1000000 + snd a) = 1000000 + sint (snd a)"
    using assms by (subst sint_add_small) (auto simp: tv_ok_def)
  then have "sint (1000000 + snd a - snd b) = 1000000 + sint (snd a) - sint (snd b)"
    using assms by (subst sint_diff_small) (auto simp: tv_ok_def)
  moreover have "sint (fst a - fst b - 1) = sint (fst a) - sint (fst b) - 1"
    using assms calculation(1) by (subst sint_diff_small) (auto simp: tv_ok_def)
  ultimately show ?thesis using assms
    by (auto simp: usecs_def Timer_Sub_def tv_ok_def)
qed

lemma timercmp_usecs:
  assumes "tv_ok a" and "tv_ok b"
  shows "timercmp_less a b \<longleftrightarrow> usecs a < usecs b"
proof (cases "fst a = fst b")
  case False
  then have "sint (fst a) \<noteq> sint (fst b)" by (metis signed_word_eqI)
  with assms False show ?thesis by (auto simp: timercmp_less_def usecs_def tv_ok_def)
qed (simp add: timercmp_less_def usecs_def)

lemma usecs_inj: "tv_ok a \<Longrightarrow> tv_ok b \<Longrightarrow> usecs a = usecs b \<Longrightarrow> a = b"
proof -
  assume a: "tv_ok a" "tv_ok b" "usecs a = usecs b"
  then have "sint (fst a) = sint (fst b)" by (simp add: tv_ok_def usecs_def)
  moreover from this a(3) have "sint (snd a) = sint (snd b)" by (simp add: usecs_def)
  ultimately show "a = b" by (metis prod.expand signed_word_eqI)
qed

text \<open>
  On time values with a normalised microsecond part, adding and subtracting are
  exact in microseconds and normalise the result, comparing decides the order of the times,
  and subtracting what was added gives the first time back.
\<close>

theorem timeval_arithmetic:
  assumes "tv_ok (s, u)" and "tv_ok (s', u')"
  shows "\<exists>s1 u1 s2 u2.
    issdl_add (VTimeval s u) (VTimeval s' u') = new_timeval (s1, u1) \<and>
    issdl_sub (VTimeval s u) (VTimeval s' u') = new_timeval (s2, u2) \<and>
    usecs (s1, u1) = usecs (s, u) + usecs (s', u') \<and> usecs (s2, u2) = usecs (s, u) - usecs (s', u') \<and>
    0 \<le> sint u1 \<and> sint u1 < 1000000 \<and> 0 \<le> sint u2 \<and> sint u2 < 1000000 \<and>
    issdl_cmp (VTimeval s u) (VTimeval s' u') = Inr (sgn (usecs (s, u) - usecs (s', u')))"
proof -
  note add = Timer_Add_usecs [OF assms] and sub = Timer_Sub_usecs [OF assms]
  have "timeval_cmp s u (VTimeval s' u') = sgn (usecs (s, u) - usecs (s', u'))"
    using assms by (simp add: timeval_cmp_def timercmp_usecs sgn_if)
  with add sub show ?thesis
    by (intro exI [of _ "fst (Timer_Add (s, u) (s', u'))"] exI [of _ "snd (Timer_Add (s, u) (s', u'))"]
          exI [of _ "fst (Timer_Sub (s, u) (s', u'))"] exI [of _ "snd (Timer_Sub (s, u) (s', u'))"])
      (simp add: timeval_add_def timeval_sub_def)
qed

theorem timeval_arithmetic_witness:
  "\<exists>s1 u1. issdl_add (VTimeval 1 700000) (VTimeval 2 600000) = new_timeval (s1, u1) \<and>
           usecs (s1, u1) = 4300000"
proof -
  have h: "tv_ok (1, 700000)" "tv_ok (2, 600000)" by (simp_all add: tv_ok_def)
  show ?thesis using timeval_arithmetic [OF h] by (auto simp: usecs_def)
qed

end
