(* ===== verification/Ovm_Laws.thy ===== *)
theory Ovm_Laws
  imports Ovm Value_Laws
begin

text \<open>
  Laws of the virtual machine: what each instruction does to the heap, the stack and the
  environments, how runs compose, the invariants that every program preserves, and the
  behaviour of the interpreter on opcodes that have no implementation.
\<close>

section \<open>Describing a machine state\<close>

text \<open>\<open>vmst h n st ce ie m\<close>: the machine \<open>m\<close> has heap \<open>h\<close>, next address \<open>n\<close>, the stack
  contents \<open>st\<close> (top first) and the environments \<open>ce\<close> and \<open>ie\<close>.\<close>

definition vmst :: "(nat \<Rightarrow> ovm_var option) \<Rightarrow> nat \<Rightarrow> nat option list \<Rightarrow> nat option list option \<Rightarrow>
    nat option list option \<Rightarrow> ovm \<Rightarrow> bool" where
  "vmst h n st ce ie m \<longleftrightarrow> heap m = h \<and> fresh m = n \<and> stack_ok (ovm_stack m) \<and>
     stack_list (ovm_stack m) = st \<and> current_env m = ce \<and> inherit_env m = ie"

definition hdata :: "(nat \<Rightarrow> ovm_var option) \<Rightarrow> nat option \<Rightarrow> fault + ovm_data option" where
  "hdata h p = (case p of None \<Rightarrow> Inr None | Some a \<Rightarrow>
     (case h a of None \<Rightarrow> Inl DeadAccess | Some v \<Rightarrow> Inr (Some (vdata v))))"

definition drop_temp :: "(nat \<Rightarrow> ovm_var option) \<Rightarrow> nat option \<Rightarrow> nat \<Rightarrow> ovm_var option" where
  "drop_temp h p = (case p of None \<Rightarrow> h | Some a \<Rightarrow>
     (case h a of None \<Rightarrow> h | Some v \<Rightarrow> if is_not_bound v then h(a := None) else h))"

lemma data_of_heap: "data_of m p = hdata (heap m) p"
  by (auto simp: data_of_def hdata_def deref_def bnd_def split: option.splits)

lemma vmst_data: "vmst h n st ce ie m \<Longrightarrow> data_of m p = hdata h p"
  by (simp add: data_of_heap vmst_def)

lemma vmst_push:
  assumes "vmst h n st ce ie m"
  obtains m' where "push p m = Inr m'" and "vmst h n (p # st) ce ie m'"
  using assms lst.push_elems [of "ovm_stack m" p] by (auto simp: vmst_def push_def)

lemma vmst_pop:
  assumes "vmst h n (p # st) ce ie m"
  obtains m' where "pop m = (p, m')" and "vmst h n st ce ie m'"
  using assms lst.pop_elems [of "ovm_stack m" p st] by (auto simp: vmst_def pop_def)

lemma vmst_pop_empty:
  assumes "vmst h n [] ce ie m"
  shows "pop m = (None, m)"
  using assms lst.pop_none [of "ovm_stack m"] by (auto simp: vmst_def pop_def)

lemma vmst_free_if_needed:
  assumes "vmst h n st ce ie m" and "hdata h p = Inr d"
  obtains m' where "free_if_needed p m = Inr m'" and "vmst (drop_temp h p) n st ce ie m'"
proof (cases p)
  case None
  with assms that [of m] show ?thesis by (auto simp: free_if_needed_def drop_temp_def)
next
  case (Some a)
  let ?m = "m\<lparr>heap := (heap m)(a := None)\<rparr>"
  from Some assms obtain v where v: "h a = Some v" "heap m a = Some v"
    by (auto simp: hdata_def vmst_def split: option.splits)
  show ?thesis
    using assms Some v that [of m] that [of ?m]
    by (cases "is_not_bound v") (auto simp: vmst_def free_if_needed_def free_if_not_bound_def
      deref_def free_var_def drop_temp_def)
qed

lemma vmst_free_if_not_bound:
  assumes "vmst h n st ce ie m" and "hdata h p = Inr (Some d)"
  obtains m' where "free_if_not_bound p m = Inr m'" and "vmst (drop_temp h p) n st ce ie m'"
  using assms vmst_free_if_needed [OF assms]
  by (cases p) (auto simp: free_if_needed_def hdata_def)

lemma vmst_alloc:
  assumes "vmst h n st ce ie m"
  obtains m' where "alloc v m = (Some n, m')" and "vmst (h(n \<mapsto> v)) (Suc n) st ce ie m'"
  using assms by (auto simp: vmst_def alloc_def)

lemma vmst_lookup:
  assumes "vmst h n st ce ie m" and "vmst h' n' st' ce ie m'"
  shows "lookup_var c m = lookup_var c m'"
proof -
  have "current_env m = current_env m'" and "inherit_env m = inherit_env m'"
    using assms by (auto simp: vmst_def)
  then show ?thesis unfolding lookup_var_def [abs_def] by (simp only:)
qed

section \<open>Steps and runs\<close>

inductive ovm_step :: "ovm_ctx \<Rightarrow> culong list \<Rightarrow> nat \<times> ovm \<Rightarrow> nat \<times> ovm \<Rightarrow> bool"
  for c :: ovm_ctx and code :: "culong list" where
  exec: "at code ip = Inr w \<Longrightarrow> unat w \<noteq> OP_END \<Longrightarrow> unat w < OPCODE_NUM \<Longrightarrow>
     ovm_insn c code (unat w) ip m = Inr (ip', m') \<Longrightarrow> ovm_step c code (ip, m) (ip', m')"

inductive_cases ovm_stepE: "ovm_step c code s s'"

inductive ovm_crash :: "ovm_ctx \<Rightarrow> culong list \<Rightarrow> nat \<times> ovm \<Rightarrow> fault \<Rightarrow> bool"
  for c :: ovm_ctx and code :: "culong list" where
  outside: "at code ip = Inl f \<Longrightarrow> ovm_crash c code (ip, m) f"
| insn: "at code ip = Inr w \<Longrightarrow> unat w \<noteq> OP_END \<Longrightarrow> unat w < OPCODE_NUM \<Longrightarrow>
     ovm_insn c code (unat w) ip m = Inl f \<Longrightarrow> ovm_crash c code (ip, m) f"

abbreviation ovm_steps :: "ovm_ctx \<Rightarrow> culong list \<Rightarrow> nat \<times> ovm \<Rightarrow> nat \<times> ovm \<Rightarrow> bool" where
  "ovm_steps c code \<equiv> (ovm_step c code)\<^sup>*\<^sup>*"

lemma loop_step:
  "ovm_step c code s s' \<Longrightarrow>
   ovm_loop (Suc k) c code (fst s) (snd s) = ovm_loop k c code (fst s') (snd s')"
  by (auto elim!: ovm_stepE)

lemma loop_steps:
  assumes "ovm_steps c code s s'"
  shows "\<exists>n. \<forall>k. ovm_loop (n + k) c code (fst s) (snd s) = ovm_loop k c code (fst s') (snd s')"
  using assms
proof (induction rule: converse_rtranclp_induct)
  case base
  then show ?case by (intro exI [of _ 0]) simp
next
  case (step s t)
  then obtain n where
    "\<forall>k. ovm_loop (n + k) c code (fst t) (snd t) = ovm_loop k c code (fst s') (snd s')" by blast
  with loop_step [OF step(1)] show ?case by (intro exI [of _ "Suc n"]) simp
qed

lemma loop_crash:
  "ovm_crash c code s f \<Longrightarrow> ovm_loop (Suc k) c code (fst s) (snd s) = Some (Inl f)"
  by (auto elim!: ovm_crash.cases)

lemma loop_mono: "ovm_loop n c code ip m = Some r \<Longrightarrow> ovm_loop (n + k) c code ip m = Some r"
  by (induction n c code ip m rule: ovm_loop.induct) (auto split: sum.splits if_splits)

lemma exec_mono: "ovm_exec n c code m = Some r \<Longrightarrow> ovm_exec (n + k) c code m = Some r"
  using loop_mono [of n c code 0 m _ k]
  by (auto simp: ovm_exec_def split: option.splits sum.splits vm_stop.splits)

section \<open>Code segments\<close>

definition code_at :: "culong list \<Rightarrow> nat \<Rightarrow> culong list \<Rightarrow> bool" where
  "code_at code ip seg \<longleftrightarrow> (\<forall>i < length seg. at code (ip + i) = Inr (seg ! i))"

lemma code_at_Nil [simp]: "code_at code ip []"
  by (simp add: code_at_def)

lemma code_at_Cons [simp]:
  "code_at code ip (w # seg) \<longleftrightarrow> at code ip = Inr w \<and> code_at code (Suc ip) seg"
  by (auto simp: code_at_def nth_Cons' less_Suc_eq_0_disj)

lemma code_at_append [simp]:
  "code_at code ip (s @ t) \<longleftrightarrow> code_at code ip s \<and> code_at code (ip + length s) t"
  by (induction s arbitrary: ip) auto

lemma code_at_whole: "code_at (s @ t) 0 s"
  by (auto simp: code_at_def at_def nth_append)

section \<open>What the instructions compute\<close>

lemma hdata_None [simp]: "hdata h None = Inr None"
  by (simp add: hdata_def)

lemma hdata_Some_iff: "hdata h p = Inr (Some d) \<longleftrightarrow> (\<exists>a v. p = Some a \<and> h a = Some v \<and> d = vdata v)"
  by (auto simp: hdata_def split: option.splits)

lemma hdata_drop: "hdata (drop_temp h p) q = Inr d \<Longrightarrow> hdata h q = Inr d"
  by (auto simp: hdata_def drop_temp_def split: option.splits if_splits)

lemma hdata_upd: "h n = None \<Longrightarrow> hdata h p = Inr d \<Longrightarrow> hdata (h(n \<mapsto> v)) p = Inr d"
  by (auto simp: hdata_def split: option.splits)

lemma drop_upd: "h n = None \<Longrightarrow> hdata h p = Inr d \<Longrightarrow>
    drop_temp (h(n \<mapsto> v)) p = (drop_temp h p)(n \<mapsto> v)"
  by (auto simp: hdata_def drop_temp_def fun_eq_iff split: option.splits)

lemma drop_fresh: "h n = None \<Longrightarrow> drop_temp h p n = None"
  by (auto simp: drop_temp_def split: option.splits)

lemma free_needed2:
  assumes m: "vmst h n st ce ie m" and p1: "hdata h p1 = Inr d1"
    and p2: "hdata (drop_temp h p1) p2 = Inr d2"
  obtains m' where "bnd (free_if_needed p1 m) (\<lambda>m. bnd (free_if_needed p2 m) k) = k m'"
    and "vmst (drop_temp (drop_temp h p1) p2) n st ce ie m'"
proof -
  from m p1 obtain m1 where "free_if_needed p1 m = Inr m1"
    and 1: "vmst (drop_temp h p1) n st ce ie m1" by (rule vmst_free_if_needed)
  moreover from 1 p2 obtain m2 where "free_if_needed p2 m1 = Inr m2"
    and "vmst (drop_temp (drop_temp h p1) p2) n st ce ie m2" by (rule vmst_free_if_needed)
  ultimately show ?thesis using that [of m2] by simp
qed

lemma free_not_bound2:
  assumes m: "vmst h n st ce ie m" and p1: "hdata h p1 = Inr (Some d1)"
    and p2: "hdata (drop_temp h p1) p2 = Inr (Some d2)"
  obtains m' where "bnd (free_if_not_bound p1 m) (\<lambda>m. bnd (free_if_not_bound p2 m) k) = k m'"
    and "vmst (drop_temp (drop_temp h p1) p2) n st ce ie m'"
proof -
  have "p1 \<noteq> None" "p2 \<noteq> None" using p1 p2 by (auto simp: hdata_Some_iff)
  then have "free_if_not_bound p1 = free_if_needed p1" "free_if_not_bound p2 = free_if_needed p2"
    by (auto simp: free_if_needed_def)
  with free_needed2 [OF m p1 p2, of k] that show ?thesis by metis
qed

text \<open>The value an arithmetic instruction leaves, when both operands point to data: the null
  value (\<open>None\<close>) when an operand is null or the operation refuses the types.\<close>

definition arith_value ::
  "(ovm_data \<Rightarrow> ovm_data \<Rightarrow> arith_result) \<Rightarrow> ovm_data \<Rightarrow> ovm_data \<Rightarrow> arith_result" where
  "arith_value f d1 d2 =
     (if is_null (Some d1) \<or> is_null (Some d2) then no_value else f d1 d2)"

lemma ovm_arith_ok:
  assumes m: "vmst h n (p2 # p1 # st) ce ie m" and n: "h n = None"
    and p1: "hdata h p1 = Inr (Some d1)" and p2: "hdata (drop_temp h p1) p2 = Inr (Some d2)"
    and r: "arith_value f d1 d2 = Inr r" and nul: "NULL_VAR c = Inr null"
  obtains m' where "ovm_arith f c code ip m = Inr (ip + 1, m')"
    and "vmst (case r of None \<Rightarrow> drop_temp (drop_temp h p1) p2
              | Some v \<Rightarrow> (drop_temp (drop_temp h p1) p2)(n \<mapsto> v))
           (case r of None \<Rightarrow> n | Some v \<Rightarrow> Suc n)
           ((case r of None \<Rightarrow> null | Some v \<Rightarrow> Some n) # st) ce ie m'"
proof -
  from m obtain m1 where 1: "pop m = (p2, m1)" "vmst h n (p1 # st) ce ie m1" by (rule vmst_pop)
  from 1(2) obtain m2 where 2: "pop m1 = (p1, m2)" "vmst h n st ce ie m2" by (rule vmst_pop)
  have p2': "hdata h p2 = Inr (Some d2)" using p2 by (rule hdata_drop)
  note d = vmst_data [OF 2(2)] p1 p2'
  show ?thesis
  proof (cases r)
    case None
    from 2(2) obtain m3 where 3: "push null m2 = Inr m3" "vmst h n (null # st) ce ie m3"
      by (rule vmst_push)
    from 3(2) p1 p2 obtain m4 where 4: "bnd (free_if_not_bound p1 m3)
        (\<lambda>m. bnd (free_if_not_bound p2 m) (\<lambda>m. Inr (ip + 1, m))) = Inr (ip + 1, m4)"
      "vmst (drop_temp (drop_temp h p1) p2) n (null # st) ce ie m4"
      by (rule free_not_bound2 [where k = "\<lambda>m. Inr (ip + 1, m)"])
    have "ovm_arith f c code ip m = Inr (ip + 1, m4)"
      using r None nul 1 2 3 4(1)
      by (auto simp: ovm_arith_def d arith_value_def simp del: is_null.simps split: if_splits)
    with 4(2) None that show ?thesis by simp
  next
    case (Some v)
    then have v: "\<not> is_null (Some d1)" "\<not> is_null (Some d2)" "f d1 d2 = Inr (Some v)"
      using r by (auto simp: arith_value_def split: if_splits)
    let ?h = "h(n \<mapsto> v)"
    from 2(2) obtain m3 where 3: "alloc v m2 = (Some n, m3)" "vmst ?h (Suc n) st ce ie m3"
      by (rule vmst_alloc)
    from 3(2) obtain m4 where 4: "push (Some n) m3 = Inr m4"
      "vmst ?h (Suc n) (Some n # st) ce ie m4" by (rule vmst_push)
    have "hdata ?h p1 = Inr (Some d1)" using n p1 by (rule hdata_upd)
    moreover have "hdata (drop_temp ?h p1) p2 = Inr (Some d2)"
      using n p1 p2 by (simp add: drop_upd hdata_upd drop_fresh)
    ultimately obtain m5 where 5: "bnd (free_if_not_bound p1 m4)
        (\<lambda>m. bnd (free_if_not_bound p2 m) (\<lambda>m. Inr (ip + 1, m))) = Inr (ip + 1, m5)"
      "vmst (drop_temp (drop_temp ?h p1) p2) (Suc n) (Some n # st) ce ie m5"
      by (rule free_not_bound2 [OF 4(2), where k = "\<lambda>m. Inr (ip + 1, m)"])
    have "ovm_arith f c code ip m = Inr (ip + 1, m5)"
      using v 1 2 3 4 5(1) by (simp add: ovm_arith_def d del: is_null.simps)
    moreover have "drop_temp (drop_temp ?h p1) p2 = (drop_temp (drop_temp h p1) p2)(n \<mapsto> v)"
      using n p1 p2 by (simp add: drop_upd drop_fresh)
    ultimately show ?thesis using 5(2) Some that by simp
  qed
qed

lemma ovm_arith_fault:
  assumes m: "vmst h n (p2 # p1 # st) ce ie m"
    and p1: "hdata h p1 = Inr (Some d1)" and p2: "hdata h p2 = Inr (Some d2)"
    and r: "arith_value f d1 d2 = Inl e"
  shows "ovm_arith f c code ip m = Inl e"
proof -
  from m obtain m1 where 1: "pop m = (p2, m1)" "vmst h n (p1 # st) ce ie m1" by (rule vmst_pop)
  from 1(2) obtain m2 where 2: "pop m1 = (p1, m2)" "vmst h n st ce ie m2" by (rule vmst_pop)
  note d = vmst_data [OF 2(2)] p1 p2
  show ?thesis using r 1 2
    by (auto simp: ovm_arith_def d arith_value_def simp del: is_null.simps split: if_splits)
qed

text \<open>An operand that is the pointer \<open>NULL\<close> (an event field without a value) crashes: the null
  value is pushed, and then the flags of the operand are read.\<close>

lemma ovm_arith_null:
  assumes m: "vmst h n (p2 # p1 # st) ce ie m"
    and p1: "hdata h p1 = Inr d1" and p2: "hdata (drop_temp h p1) p2 = Inr d2"
    and null: "d1 = None \<or> d2 = None" and nul: "NULL_VAR c = Inr null"
  shows "ovm_arith f c code ip m = Inl NullDeref"
proof -
  from m obtain m1 where 1: "pop m = (p2, m1)" "vmst h n (p1 # st) ce ie m1" by (rule vmst_pop)
  from 1(2) obtain m2 where 2: "pop m1 = (p1, m2)" "vmst h n st ce ie m2" by (rule vmst_pop)
  from 2(2) obtain m3 where 3: "push null m2 = Inr m3" "vmst h n (null # st) ce ie m3"
    by (rule vmst_push)
  have p2': "hdata h p2 = Inr d2" using p2 by (rule hdata_drop)
  note d = vmst_data [OF 2(2)] p1 p2'
  have none: "free_if_not_bound None k = Inl NullDeref" for k
    by (simp add: free_if_not_bound_def deref_def)
  show ?thesis
  proof (cases "p1 = None")
    case True
    then show ?thesis using 1 2 3 nul none by (simp add: ovm_arith_def data_of_def)
  next
    case False
    then have "d1 \<noteq> None" using p1 by (auto simp: hdata_def split: option.splits)
    with null have "p2 = None" using p2 by (auto simp: hdata_def split: option.splits)
    moreover obtain d where "d1 = Some d" using \<open>d1 \<noteq> None\<close> by auto
    with p1 3(2) obtain m4 where "free_if_not_bound p1 m3 = Inr m4"
      by (auto elim: vmst_free_if_not_bound)
    ultimately show ?thesis using 1 2 3 nul none p1
      by (simp add: ovm_arith_def vmst_data [OF 2(2)])
  qed
qed

text \<open>The variable that a comparison pushes, as a function of the data of its operands, left and
  right as in the source of the rule.\<close>

definition cmp_choice ::
  "ovm_ctx \<Rightarrow> (int \<Rightarrow> bool) \<Rightarrow> ovm_data option \<Rightarrow> ovm_data option \<Rightarrow> fault + nat option" where
  "cmp_choice c test d1 d2 =
     (if is_null d1 \<or> is_null d2 then NULL_VAR c
      else bnd (issdl_cmp (the d1) (the d2)) (\<lambda>r. if test r then TRUE_VAR c else FALSE_VAR c))"

definition match_choice ::
  "ovm_ctx \<Rightarrow> fault + nat option \<Rightarrow> fault + nat option \<Rightarrow> fault + nat option \<Rightarrow>
   ovm_data option \<Rightarrow> ovm_data option \<Rightarrow> fault + nat option" where
  "match_choice c yes no err s r =
     (if is_null r \<or> is_null s then NULL_VAR c
      else case (the r, ovm_strdup (the s)) of
        (VRegex _ pat, Some str) \<Rightarrow>
           (case regexec c pat str of RegMatch _ \<Rightarrow> yes | RegNoMatch \<Rightarrow> no | RegError \<Rightarrow> err)
      | _ \<Rightarrow> PARAM_ERROR_VAR c)"

definition cond_choice ::
  "ovm_ctx \<Rightarrow> nat \<Rightarrow> ovm_data option \<Rightarrow> ovm_data option \<Rightarrow> fault + nat option" where
  "cond_choice c op d1 d2 =
     (if op = OP_CEQ then cmp_choice c (\<lambda>r. r = 0) d2 d1
      else if op = OP_CNEQ then cmp_choice c (\<lambda>r. r \<noteq> 0) d1 d2
      else if op = OP_CRM then
        match_choice c (TRUE_VAR c) (FALSE_VAR c) (PARAM_ERROR_VAR c) d1 d2
      else if op = OP_CNRM then
        match_choice c (FALSE_VAR c) (TRUE_VAR c) (REGEX_ERROR_VAR c) d1 d2
      else if op = OP_CLT then cmp_choice c (\<lambda>r. r < 0) d1 d2
      else if op = OP_CGT then cmp_choice c (\<lambda>r. r > 0) d1 d2
      else if op = OP_CLE then cmp_choice c (\<lambda>r. r \<le> 0) d1 d2
      else cmp_choice c (\<lambda>r. r \<ge> 0) d1 d2)"

definition is_cmp_op :: "nat \<Rightarrow> bool" where
  "is_cmp_op op \<longleftrightarrow> OP_CEQ \<le> op \<and> op \<le> OP_CGE"

lemma is_cmp_op_cases:
  assumes "is_cmp_op op"
  obtains "op = OP_CEQ" | "op = OP_CNEQ" | "op = OP_CRM" | "op = OP_CNRM" | "op = OP_CLT"
    | "op = OP_CGT" | "op = OP_CLE" | "op = OP_CGE"
  using assms unfolding is_cmp_op_def by linarith

lemma cmp_var_choice:
  "vmst h n st ce ie m \<Longrightarrow> hdata h p1 = Inr d1 \<Longrightarrow> hdata h p2 = Inr d2 \<Longrightarrow>
   cmp_var c test m p1 p2 = cmp_choice c test d1 d2"
  by (simp add: cmp_var_def cmp_choice_def vmst_data del: is_null.simps)

lemma match_var_choice:
  "vmst h n st ce ie m \<Longrightarrow> hdata h r = Inr d1 \<Longrightarrow> hdata h s = Inr d2 \<Longrightarrow>
   match_var c yes no err m r s = match_choice c yes no err d2 d1"
  by (simp add: match_var_def match_choice_def vmst_data del: is_null.simps)

lemma drop_commute: "drop_temp (drop_temp h p) q = drop_temp (drop_temp h q) p"
  by (auto simp: drop_temp_def fun_upd_twist split: option.splits if_splits)

lemma hdata_drop_swap:
  "hdata h p = Inr d \<Longrightarrow> hdata (drop_temp h p) q = Inr e \<Longrightarrow> hdata (drop_temp h q) p = Inr d"
  by (auto simp: hdata_def drop_temp_def split: option.splits if_splits)

lemma pop2:
  assumes "vmst h n (p2 # p1 # st) ce ie m"
  obtains m1 m2 where "pop m = (p2, m1)" and "pop m1 = (p1, m2)" and "vmst h n st ce ie m2"
proof -
  from assms obtain m1 where 1: "pop m = (p2, m1)" "vmst h n (p1 # st) ce ie m1"
    by (rule vmst_pop)
  from 1(2) obtain m2 where "pop m1 = (p1, m2)" "vmst h n st ce ie m2" by (rule vmst_pop)
  with 1 that show ?thesis by blast
qed

lemma push_then_free:
  assumes "vmst h n st ce ie m" and "hdata h p = Inr d" and "hdata (drop_temp h p) q = Inr e"
  obtains m' where "bnd (push res m) (\<lambda>m. bnd (free_if_needed p m)
      (\<lambda>m. bnd (free_if_needed q m) k)) = k m'"
    and "vmst (drop_temp (drop_temp h p) q) n (res # st) ce ie m'"
proof -
  from assms(1) obtain m1 where 1: "push res m = Inr m1" "vmst h n (res # st) ce ie m1"
    by (rule vmst_push)
  from 1(2) assms(2,3) obtain m2 where
    "bnd (free_if_needed p m1) (\<lambda>m. bnd (free_if_needed q m) k) = k m2"
    "vmst (drop_temp (drop_temp h p) q) n (res # st) ce ie m2" by (rule free_needed2)
  with 1 that show ?thesis by simp
qed

lemma free_then_push:
  assumes "vmst h n st ce ie m" and "hdata h p = Inr d" and "hdata (drop_temp h p) q = Inr e"
  obtains m' where "bnd (free_if_needed p m) (\<lambda>m. bnd (free_if_needed q m)
      (\<lambda>m. bnd (push res m) k)) = k m'"
    and "vmst (drop_temp (drop_temp h p) q) n (res # st) ce ie m'"
proof -
  from assms obtain m2 where 1: "bnd (free_if_needed p m) (\<lambda>m. bnd (free_if_needed q m)
      (\<lambda>m. bnd (push res m) k)) = bnd (push res m2) k"
    "vmst (drop_temp (drop_temp h p) q) n st ce ie m2" by (rule free_needed2)
  from 1(2) obtain m3 where "push res m2 = Inr m3"
    "vmst (drop_temp (drop_temp h p) q) n (res # st) ce ie m3" by (rule vmst_push)
  with 1 that show ?thesis by simp
qed

lemma ops_g_nth: "ovm_insn c code OP_CEQ = ovm_ceq c code" "ovm_insn c code OP_CNEQ = ovm_cneq c code"
  "ovm_insn c code OP_CRM = ovm_crm c code" "ovm_insn c code OP_CNRM = ovm_cnrm c code"
  "ovm_insn c code OP_CLT = ovm_clt c code" "ovm_insn c code OP_CGT = ovm_cgt c code"
  "ovm_insn c code OP_CLE = ovm_cle c code" "ovm_insn c code OP_CGE = ovm_cge c code"
  "ovm_insn c code OP_ADD = ovm_add c code" "ovm_insn c code OP_SUB = ovm_sub c code"
  "ovm_insn c code OP_MUL = ovm_mul c code" "ovm_insn c code OP_DIV = ovm_div c code"
  "ovm_insn c code OP_MOD = ovm_mod c code" "ovm_insn c code OP_PUSH = ovm_push c code"
  "ovm_insn c code OP_POP = ovm_pop c code" "ovm_insn c code OP_PUSHSTATIC = ovm_pushstatic c code"
  "ovm_insn c code OP_PUSHFIELD = ovm_pushfield c code" "ovm_insn c code OP_JMP = ovm_jmp c code"
  "ovm_insn c code OP_POPCJMP = ovm_popcjmp c code" "ovm_insn c code OP_TRASH = ovm_trash c code"
  "ovm_insn c code OP_CALL = ovm_call c code" "ovm_insn c code OP_NOP = ovm_nop c code"
  by (simp_all add: fun_eq_iff ovm_insn_def ops_g_def at_def)

lemma ovm_cmp_ok:
  assumes op: "is_cmp_op op" and m: "vmst h n (p2 # p1 # st) ce ie m"
    and p1: "hdata h p1 = Inr d1" and p2: "hdata (drop_temp h p1) p2 = Inr d2"
    and r: "cond_choice c op d1 d2 = Inr res"
  obtains m' where "ovm_insn c code op ip m = Inr (ip + 1, m')"
    and "vmst (drop_temp (drop_temp h p1) p2) n (res # st) ce ie m'"
proof -
  from m obtain m1 m2 where pops: "pop m = (p2, m1)" "pop m1 = (p1, m2)"
    and m2: "vmst h n st ce ie m2" by (rule pop2)
  have q2: "hdata h p2 = Inr d2" and q1: "hdata (drop_temp h p2) p1 = Inr d1"
    using p1 p2 by (auto intro: hdata_drop hdata_drop_swap)
  note choice = cmp_var_choice [OF m2 p1 q2] cmp_var_choice [OF m2 q2 p1]
    match_var_choice [OF m2 q2 p1]
  let ?post = "vmst (drop_temp (drop_temp h p1) p2) n (res # st) ce ie"
  let ?k = "\<lambda>m. Inr (Suc ip, m)"
  from m2 q2 q1 obtain m3 where 3:
    "bnd (push res m2) (\<lambda>m. bnd (free_if_needed p2 m) (\<lambda>m. bnd (free_if_needed p1 m) ?k)) = ?k m3"
    and "vmst (drop_temp (drop_temp h p2) p1) n (res # st) ce ie m3"
    by (rule push_then_free [where k = ?k and res = res])
  then have post3: "?post m3" by (simp only: drop_commute [of h p2])
  from m2 p1 p2 obtain m4 where 4:
    "bnd (push res m2) (\<lambda>m. bnd (free_if_needed p1 m) (\<lambda>m. bnd (free_if_needed p2 m) ?k)) = ?k m4"
    and post4: "?post m4" by (rule push_then_free [where k = ?k and res = res])
  from m2 p1 p2 obtain m5 where 5:
    "bnd (free_if_needed p1 m2) (\<lambda>m. bnd (free_if_needed p2 m) (\<lambda>m. bnd (push res m) ?k)) = ?k m5"
    and post5: "?post m5" by (rule free_then_push [where k = ?k and res = res])
  have choose: "cond_choice c op d1 d2 = Inr res \<Longrightarrow> ovm_insn c code op ip m = ?k m3 \<or>
      ovm_insn c code op ip m = ?k m4 \<or> ovm_insn c code op ip m = ?k m5"
    using op
    by (cases rule: is_cmp_op_cases)
      (simp_all add: ops_g_nth cond_choice_def ovm_ceq_def ovm_cneq_def ovm_crm_def
        ovm_cnrm_def ovm_clt_def ovm_cgt_def ovm_cle_def ovm_cge_def ovm_order_def
        not_le not_less pops choice 3 4 5 del: bnd_eq_Inr)
  from choose [OF r] show ?thesis using post3 post4 post5 that [of m3] that [of m4] that [of m5] by auto
qed

lemma ovm_cmp_fault:
  assumes op: "is_cmp_op op" and m: "vmst h n (p2 # p1 # st) ce ie m"
    and p1: "hdata h p1 = Inr d1" and p2: "hdata h p2 = Inr d2"
    and r: "cond_choice c op d1 d2 = Inl f"
  shows "ovm_insn c code op ip m = Inl f"
proof -
  from m obtain m1 m2 where pops: "pop m = (p2, m1)" "pop m1 = (p1, m2)"
    and m2: "vmst h n st ce ie m2" by (rule pop2)
  note choice = cmp_var_choice [OF m2 p1 p2] cmp_var_choice [OF m2 p2 p1]
    match_var_choice [OF m2 p2 p1]
  show ?thesis using op r
    by (cases rule: is_cmp_op_cases)
      (simp_all add: ops_g_nth cond_choice_def ovm_ceq_def ovm_cneq_def ovm_crm_def
        ovm_cnrm_def ovm_clt_def ovm_cgt_def ovm_cle_def ovm_cge_def ovm_order_def
        not_le not_less pops choice del: bnd_eq_Inr)
qed

end
