(* ===== verification/Ovm_Safety.thy ===== *)
theory Ovm_Safety
  imports Ovm_Laws
begin

text \<open>
  Properties of the virtual machine that hold for every bytecode: the invariant of its state,
  the variables that no program can free or change, the opcodes without an implementation, and
  the behaviour of single instructions on which rules depend.
\<close>

section \<open>What every instruction preserves\<close>

definition vm_ok :: "ovm \<Rightarrow> bool" where
  "vm_ok m \<longleftrightarrow> stack_ok (ovm_stack m) \<and> (\<forall>a \<ge> fresh m. heap m a = None)"

text \<open>\<open>evolves m m'\<close>: the invariant holds afterwards, variables without \<open>TYPE_CANFREE\<close> keep
  their value and stay without it, and the environments keep their sizes.\<close>

definition evolves :: "ovm \<Rightarrow> ovm \<Rightarrow> bool" where
  "evolves m m' \<longleftrightarrow> (vm_ok m \<longrightarrow> vm_ok m' \<and> fresh m \<le> fresh m' \<and>
     (\<forall>a v. heap m a = Some v \<and> \<not> can_free_var v \<longrightarrow>
        (\<exists>v'. heap m' a = Some v' \<and> vdata v' = vdata v \<and> \<not> can_free_var v')) \<and>
     map_option length (current_env m') = map_option length (current_env m) \<and>
     inherit_env m' = inherit_env m)"


lemma evolves_refl [simp]: "evolves m m"
  by (auto simp: evolves_def)

lemma evolves_trans: "evolves m m' \<Longrightarrow> evolves m' m'' \<Longrightarrow> evolves m m''"
  unfolding evolves_def by (metis le_trans)

lemma can_free_cleared: "can_free_var (clear_notbound v) = can_free_var v"
proof -
  have "NOT TYPE_NOTBOUND AND TYPE_CANFREE = TYPE_CANFREE"
    by (simp add: TYPE_CANFREE_def TYPE_NOTBOUND_def)
  then show ?thesis by (simp add: can_free_var_def clear_notbound_def and.assoc)
qed

lemma evolves_stack: "(stack_ok (ovm_stack m) \<Longrightarrow> stack_ok s) \<Longrightarrow> evolves m (m\<lparr>ovm_stack := s\<rparr>)"
  by (auto simp: evolves_def vm_ok_def)

lemma evolves_push: "push p m = Inr m' \<Longrightarrow> evolves m m'"
  using lst.push_elems [of "ovm_stack m" p]
  by (auto simp: push_def intro!: evolves_stack)

lemma evolves_pop: "pop m = (p, m') \<Longrightarrow> evolves m m'"
  by (auto simp: pop_def split: prod.splits intro!: evolves_stack elim: lst.pop_general)

lemma evolves_free: "free_var (Some a) m = Inr m' \<Longrightarrow> heap m a = Some v \<Longrightarrow> can_free_var v \<Longrightarrow> evolves m m'"
  by (auto simp: free_var_def evolves_def vm_ok_def)

lemma deref_SomeD: "deref m p = Inr v \<Longrightarrow> \<exists>a. p = Some a \<and> heap m a = Some v"
  by (auto simp: deref_def split: option.splits)

lemma evolves_free_if_not_bound: "free_if_not_bound p m = Inr m' \<Longrightarrow> evolves m m'"
  by (auto simp: free_if_not_bound_def dest!: deref_SomeD split: if_splits
      intro: evolves_free is_not_bound_can_free)

lemma evolves_free_if_needed: "free_if_needed p m = Inr m' \<Longrightarrow> evolves m m'"
  by (auto simp: free_if_needed_def split: if_splits intro: evolves_free_if_not_bound)

lemma evolves_alloc: "alloc v m = (p, m') \<Longrightarrow> evolves m m'"
  by (auto simp: alloc_def evolves_def vm_ok_def)

lemma bnd_evolves:
  assumes "bnd x f = Inr r" and "\<And>y. x = Inr y \<Longrightarrow> f y = Inr r \<Longrightarrow> P"
  shows P
  using assms by auto

lemma evolves_free2:
  "bnd (free_if_needed p m) (\<lambda>m. bnd (free_if_needed q m) (\<lambda>m. Inr (i, m))) = Inr (ip', m') \<Longrightarrow>
   evolves m m'"
  "bnd (free_if_not_bound p m) (\<lambda>m. bnd (free_if_not_bound q m) (\<lambda>m. Inr (i, m))) = Inr (ip', m') \<Longrightarrow>
   evolves m m'"
  by (auto intro: evolves_trans dest!: evolves_free_if_needed evolves_free_if_not_bound)

section \<open>The instructions\<close>

lemma evolves_ovm_push: "ovm_push c code ip m = Inr (ip', m') \<Longrightarrow> evolves m m'"
  by (auto simp: ovm_push_def dest: evolves_push)

lemma evolves_pushstatic: "ovm_pushstatic c code ip m = Inr (ip', m') \<Longrightarrow> evolves m m'"
  by (auto simp: ovm_pushstatic_def dest: evolves_push)

lemma evolves_pushfield: "ovm_pushfield c code ip m = Inr (ip', m') \<Longrightarrow> evolves m m'"
  by (auto simp: ovm_pushfield_def dest: evolves_push)

lemma evolves_free_can_free:
  "bnd (deref m p) (\<lambda>v. if can_free_var v then free_var p m else Inr m) = Inr m' \<Longrightarrow> evolves m m'"
  by (auto split: if_splits dest!: deref_SomeD intro: evolves_free)

lemma evolves_trash:
  assumes "ovm_trash c code ip m = Inr (ip', m')"
  shows "evolves m m'"
proof -
  obtain p m1 where p: "pop m = (p, m1)" by (cases "pop m")
  have "evolves m1 m'" using assms p evolves_free_can_free [of m1 p m']
    by (auto simp: ovm_trash_def split: if_splits)
  with evolves_pop [OF p] show ?thesis by (rule evolves_trans)
qed

lemma evolves_clear:
  "heap m a = Some v \<Longrightarrow> evolves m (m\<lparr>current_env := Some (e[i := p])\<rparr>) \<Longrightarrow>
   evolves m (m\<lparr>current_env := Some (e[i := p]), heap := (heap m)(a \<mapsto> clear_notbound v)\<rparr>)"
  by (auto simp: evolves_def vm_ok_def can_free_cleared)

lemma evolves_ovm_pop:
  assumes "ovm_pop c code ip m = Inr (ip', m')"
  shows "evolves m m'"
proof -
  from assms obtain i env where i: "operand code ip = Inr i" "current_env m = Some env" "i < length env"
    by (auto simp: ovm_pop_def at_eq_Inr split: option.splits)
  define old where "old = env ! i"
  have at: "at env i = Inr old" using i(3) by (simp add: old_def)
  let ?rest = "\<lambda>m. let (p, m) = pop m; m = m\<lparr>current_env := Some (env[i := p])\<rparr>
       in case p of None \<Rightarrow> Inr (ip + 2, m)
          | Some a \<Rightarrow> bnd (deref m p) (\<lambda>v.
              Inr (ip + 2, m\<lparr>heap := (heap m)(a \<mapsto> clear_notbound v)\<rparr>))"
  have "bnd (if old = None then Inr m else bnd (deref m old)
      (\<lambda>v. if can_free_var v then free_var old m else Inr m)) ?rest = Inr (ip', m')"
    using assms i(1,2) at unfolding ovm_pop_def by (simp only: bnd_Inr option.case)
  then obtain m1 where
    1: "(if old = None then Inr m else bnd (deref m old)
          (\<lambda>v. if can_free_var v then free_var old m else Inr m)) = Inr m1"
    and 2: "?rest m1 = Inr (ip', m')" by (elim bnd_evolves)
  have e1: "evolves m m1" using 1 evolves_free_can_free [of m old m1] by (simp split: if_splits)
  have env1: "current_env m1 = Some env"
    using 1 i(2) by (auto simp: free_var_def split: if_splits option.splits)
  obtain p m2 where p: "pop m1 = (p, m2)" by (cases "pop m1")
  have env2: "current_env m2 = Some env" using p env1 by (auto simp: pop_def split: prod.splits)
  have e3: "evolves m2 (m2\<lparr>current_env := Some (env[i := p])\<rparr>)"
    using env2 by (auto simp: evolves_def vm_ok_def)
  have "evolves m2 m'" using 2 p e3
    by (auto simp: Let_def split: option.splits dest!: deref_SomeD intro: evolves_clear)
  with e1 evolves_pop [OF p] show ?thesis by (blast intro: evolves_trans)
qed

lemma evolves_arith:
  assumes "ovm_arith f c code ip m = Inr (ip', m')"
  shows "evolves m m'"
proof -
  obtain p2 m1 where p2: "pop m = (p2, m1)" by (cases "pop m")
  obtain p1 m2 where p1: "pop m1 = (p1, m2)" by (cases "pop m1")
  let ?finish = "\<lambda>(res, m). bnd (if res = None then NULL_VAR c else Inr res) (\<lambda>res. bnd (push res m) (\<lambda>m.
      bnd (free_if_not_bound p1 m) (\<lambda>m. bnd (free_if_not_bound p2 m) (\<lambda>m. Inr (ip + 1, m)))))"
  from assms [unfolded ovm_arith_def p1 p2 Let_def prod.case] obtain d1 x where
    x: "(if is_null d1 then Inr (None, m2)
         else bnd (data_of m2 p2) (\<lambda>d2. if is_null d2 then Inr (None, m2)
           else bnd (f (the d1) (the d2)) (\<lambda>r.
             case r of None \<Rightarrow> Inr (None, m2) | Some v \<Rightarrow> Inr (alloc v m2)))) = Inr x"
    and e: "?finish x = Inr (ip', m')" by (elim bnd_evolves)
  obtain res m3 where xx: "x = (res, m3)" by (cases x)
  have 3: "res = None \<and> m3 = m2 \<or> (\<exists>v. alloc v m2 = (res, m3))"
    using x xx by (auto simp del: is_null.simps split: if_splits option.splits)
  from e [unfolded xx prod.case] obtain q m4 m5 where "push q m3 = Inr m4"
    "free_if_not_bound p1 m4 = Inr m5" "free_if_not_bound p2 m5 = Inr m'" by auto
  then have "evolves m3 m'" using evolves_push evolves_free_if_not_bound by (blast intro: evolves_trans)
  moreover have "evolves m2 m3" using 3 evolves_alloc by auto
  ultimately show ?thesis
    using evolves_trans [OF evolves_trans [OF evolves_pop [OF p2] evolves_pop [OF p1]]]
    by (blast intro: evolves_trans)
qed

lemma evolves_pop2_push_free:
  assumes "(let (p, m) = pop m; (q, m) = pop m in bnd (g p q m) (\<lambda>res. bnd (push res m) (\<lambda>m.
     bnd (free_if_needed (k p q) m) (\<lambda>m. bnd (free_if_needed (l p q) m) (\<lambda>m. Inr (ip + 1, m)))))) =
     Inr (ip', m')"
  shows "evolves m m'"
proof -
  obtain p m1 where p: "pop m = (p, m1)" by (cases "pop m")
  obtain q m2 where q: "pop m1 = (q, m2)" by (cases "pop m1")
  from assms [unfolded p q Let_def prod.case] obtain res m3 m4 where "push res m2 = Inr m3"
    "free_if_needed (k p q) m3 = Inr m4" "free_if_needed (l p q) m4 = Inr m'" by auto
  then have "evolves m2 m'" using evolves_push evolves_free_if_needed by (blast intro: evolves_trans)
  then show ?thesis
    using evolves_trans [OF evolves_trans [OF evolves_pop [OF p] evolves_pop [OF q]]] by blast
qed

lemma evolves_order: "ovm_order test c code ip m = Inr (ip', m') \<Longrightarrow> evolves m m'"
proof -
  assume a: "ovm_order test c code ip m = Inr (ip', m')"
  obtain p m1 where p: "pop m = (p, m1)" by (cases "pop m")
  obtain q m2 where q: "pop m1 = (q, m2)" by (cases "pop m1")
  from a [unfolded ovm_order_def p q Let_def prod.case] obtain res m3 m4 m5 where
    "free_if_needed q m2 = Inr m3" "free_if_needed p m3 = Inr m4" "push res m4 = Inr m5" "m5 = m'"
    by auto
  then have "evolves m2 m'"
    using evolves_push evolves_free_if_needed by (blast intro: evolves_trans)
  then show ?thesis
    using evolves_trans [OF evolves_trans [OF evolves_pop [OF p] evolves_pop [OF q]]] by blast
qed

lemma evolves_submatches: "push_submatches s gs n m = Inr m' \<Longrightarrow> evolves m m'"
proof (induction n arbitrary: m)
  case (Suc n)
  then obtain g where g: "at gs (Suc n) = Inr g" by auto
  obtain p m1 where 1: "alloc \<lparr>vdata = VStr (submatch s g), vflags = 0\<rparr> m = (p, m1)"
    by (cases "alloc \<lparr>vdata = VStr (submatch s g), vflags = 0\<rparr> m")
  with Suc.prems g obtain m2 where "push p m1 = Inr m2" "push_submatches s gs n m2 = Inr m'"
    by auto
  then show ?case using 1 Suc.IH evolves_alloc evolves_push by (blast intro: evolves_trans)
qed simp

lemma evolves_regsplit:
  assumes "ovm_regsplit c code ip m = Inr (ip', m')"
  shows "evolves m m'"
proof -
  obtain p m1 where p: "pop m = (p, m1)" by (cases "pop m")
  obtain q m2 where q: "pop m1 = (q, m2)" by (cases "pop m1")
  from assms [unfolded ovm_regsplit_def p q Let_def prod.case] obtain m3 where
    3: "m3 = m2 \<or> (\<exists>s gs n. push_submatches s gs n m2 = Inr m3)"
    and f: "bnd (free_if_needed p m3) (\<lambda>m. bnd (free_if_needed q m) (\<lambda>m. Inr (ip + 1, m))) = Inr (ip', m')"
    by (auto simp del: is_null.simps split: if_splits option.splits ovm_data.splits regex_result.splits)
  from f have "evolves m3 m'" by (rule evolves_free2(1))
  moreover have "evolves m2 m3" using 3 evolves_submatches by auto
  ultimately show ?thesis
    using evolves_trans [OF evolves_trans [OF evolves_pop [OF p] evolves_pop [OF q]]]
    by (blast intro: evolves_trans)
qed

lemma evolves_jumps:
  "ovm_jmp c code ip m = Inr (ip', m') \<Longrightarrow> evolves m m'"
  "ovm_popcjmp c code ip m = Inr (ip', m') \<Longrightarrow> evolves m m'"
  by (auto simp: ovm_jmp_def ovm_popcjmp_def Let_def split: prod.splits if_splits dest: evolves_pop)

lemma evolves_comparisons:
  "ovm_ceq c code ip m = Inr (ip', m') \<Longrightarrow> evolves m m'"
  "ovm_cneq c code ip m = Inr (ip', m') \<Longrightarrow> evolves m m'"
  "ovm_crm c code ip m = Inr (ip', m') \<Longrightarrow> evolves m m'"
  "ovm_cnrm c code ip m = Inr (ip', m') \<Longrightarrow> evolves m m'"
  unfolding ovm_ceq_def ovm_cneq_def ovm_crm_def ovm_cnrm_def
  by (erule evolves_pop2_push_free)+

text \<open>The contract of a built-in function: it behaves like an instruction.\<close>

definition well_behaved :: "(ovm \<Rightarrow> fault + ovm) \<Rightarrow> bool" where
  "well_behaved f \<longleftrightarrow> (\<forall>m m'. f m = Inr m' \<longrightarrow> evolves m m')"

lemma evolves_call:
  "ovm_call c code ip m = Inr (ip', m') \<Longrightarrow> \<forall>f \<in> set (vm_func_tbl c). well_behaved f \<Longrightarrow> evolves m m'"
  unfolding well_behaved_def by (auto simp: ovm_call_def at_eq_Inr) (metis nth_mem)

lemmas evolves_insns = evolves_ovm_push evolves_pushstatic evolves_pushfield evolves_trash
  evolves_ovm_pop evolves_arith evolves_order evolves_regsplit evolves_jumps evolves_comparisons
  evolves_call

lemma insn_evolves:
  assumes "ovm_insn c code opc ip m = Inr (ip', m')" and "\<forall>f \<in> set (vm_func_tbl c). well_behaved f"
  shows "evolves m m'"
proof -
  from assms(1) obtain g where g: "Some g \<in> set ops_g" "g c code ip m = Inr (ip', m')"
    by (auto simp: ovm_insn_def at_eq_Inr split: option.splits) (metis nth_mem)
  from g(1) g(2) show ?thesis
    using assms(2) evolves_insns
    by (auto simp: ops_g_def ovm_nop_def ovm_add_def ovm_sub_def ovm_mul_def ovm_div_def ovm_mod_def
        ovm_clt_def ovm_cgt_def ovm_cle_def ovm_cge_def ovm_inc_def ovm_dec_def ovm_and_def ovm_or_def
        ovm_xor_def ovm_neg_def ovm_not_def ovm_cesv_def ovm_past_def not_implemented_def)
qed

lemma flush_evolves: "ovm_flush m = Inr m' \<Longrightarrow> evolves m m'"
proof (induction m rule: ovm_flush.induct)
  case (1 m)
  obtain p m1 where p: "pop m = (p, m1)" by (cases "pop m")
  show ?case
  proof (cases "p = None")
    case True
    with 1 p show ?thesis using evolves_pop by (subst (asm) ovm_flush.simps) auto
  next
    case False
    with "1.prems" p obtain m2 where m2: "free_if_needed p m1 = Inr m2" "ovm_flush m2 = Inr m'"
      by (subst (asm) ovm_flush.simps) auto
    have "evolves m2 m'" using "1.IH" [OF p [symmetric] refl False] m2 by auto
    then show ?thesis using evolves_pop [OF p] evolves_free_if_needed [OF m2(1)]
      by (blast intro: evolves_trans)
  qed
qed

lemma loop_evolves:
  assumes "ovm_loop n c code ip m = Some (Inr r)" and "\<forall>f \<in> set (vm_func_tbl c). well_behaved f"
  shows "case r of Finished m' \<Rightarrow> evolves m m' | Unknown_Opcode m' \<Rightarrow> evolves m m'"
  using assms
  by (induction n c code ip m rule: ovm_loop.induct)
    (auto split: sum.splits if_splits vm_stop.splits dest: insn_evolves intro: evolves_trans)

lemma exit_state: "(case d of Some (VInt i) \<Rightarrow> Inr (if i = 0 then 1 else 0 :: int, m) | _ \<Rightarrow> Inr (1, m)) =
    (Inr (ret, m') :: fault + int \<times> ovm) \<Longrightarrow> m = m'"
  by (auto split: option.splits ovm_data.splits)

lemma exec_evolves:
  assumes "ovm_exec n c code m = Some (Inr (ret, m'))" and "\<forall>f \<in> set (vm_func_tbl c). well_behaved f"
  shows "evolves m m'"
proof -
  from assms(1) obtain r where r: "ovm_loop n c code 0 m = Some (Inr r)"
    by (auto simp: ovm_exec_def split: option.splits sum.splits)
  note e = loop_evolves [OF r assms(2)]
  show ?thesis
  proof (cases r)
    case (Unknown_Opcode m1)
    with assms(1) r have "ovm_flush m1 = Inr m'" by (auto simp: ovm_exec_def)
    with e Unknown_Opcode show ?thesis by (auto dest: flush_evolves intro: evolves_trans)
  next
    case (Finished m1)
    obtain p m2 where p: "pop m1 = (p, m2)" by (cases "pop m1")
    with assms(1) r Finished obtain m3 d where "ovm_flush m2 = Inr m3"
      "(case d of Some (VInt i) \<Rightarrow> Inr (if i = 0 then 1 else 0 :: int, m3) | _ \<Rightarrow> Inr (1, m3)) =
       (Inr (ret, m') :: fault + int \<times> ovm)"
      by (auto simp: ovm_exec_def)
    then have "ovm_flush m2 = Inr m'" using exit_state by blast
    with e Finished evolves_pop [OF p] show ?thesis
      by (auto dest!: flush_evolves intro: evolves_trans)
  qed
qed

section \<open>Properties\<close>

definition idle_ctx :: ovm_ctx where
  "idle_ctx = \<lparr>static_env = [Some 0, Some 1, Some 2], field_vals = [], static_1_res_id = 0,
     static_0_res_id = 1, static_null_res_id = 2, static_param_error_res_id = 2,
     static_regex_error_res_id = 2, vm_func_tbl = [], regexec = (\<lambda>_ _. RegNoMatch)\<rparr>"

definition idle_vm :: "ovm_var list \<Rightarrow> nat option list \<Rightarrow> ovm" where
  "idle_vm vars env = \<lparr>heap = (\<lambda>a. if a < length vars then Some (vars ! a) else None),
     fresh = length vars, ovm_stack = new_stack 4 4, current_env = Some env, inherit_env = None\<rparr>"

definition bool_vars :: "ovm_var list" where
  "bool_vars = [\<lparr>vdata = VInt 1, vflags = 0\<rparr>, \<lparr>vdata = VInt 0, vflags = 0\<rparr>, \<lparr>vdata = VNull 1, vflags = 0\<rparr>]"

lemma idle_vm_ok: "vm_ok (idle_vm vars env)"
  by (simp add: vm_ok_def idle_vm_def stack_ok_new)

text \<open>
  Claim C3: no bytecode whatsoever can damage a variable that is not marked \<open>TYPE_CANFREE\<close> (the
  constants of a rule and the fields of an event): after every run that returns it still exists,
  with the same value and not freeable.  The machine invariant (a well-formed stack, no live
  address beyond the allocator) is kept, and the environments keep their sizes.  The built-in
  functions are assumed to do the same.
\<close>

theorem program_preserves_constants:
  assumes "vm_ok m" and "\<forall>f \<in> set (vm_func_tbl c). well_behaved f"
    and "ovm_exec fuel c code m = Some (Inr (ret, m'))"
  shows "vm_ok m' \<and> map_option length (current_env m') = map_option length (current_env m) \<and>
    (\<forall>a v. heap m a = Some v \<and> \<not> can_free_var v \<longrightarrow>
       (\<exists>v'. heap m' a = Some v' \<and> vdata v' = vdata v \<and> \<not> can_free_var v'))"
  using exec_evolves [OF assms(3,2)] assms(1) unfolding evolves_def by blast

lemmas run_simps = ovm_exec_def ovm_insn_def ops_g_def at_def idle_ctx_def idle_vm_def bool_vars_def
  operand_def push_def pop_def stack_push_def stack_pop_def new_stack_def data_of_def deref_def
  env_slot_def lookup_var_def Let_def ovm_flush.simps OPCODE_NUM_def

lemma idle_run: "\<exists>m'. ovm_exec (Suc (Suc 0)) idle_ctx [4, 0, 0] (idle_vm bool_vars []) = Some (Inr (0, m'))"
  by (simp add: run_simps ovm_pushstatic_def)

theorem program_preserves_constants_witness:
  "\<exists>m'. ovm_exec (Suc (Suc 0)) idle_ctx [4, 0, 0] (idle_vm bool_vars []) = Some (Inr (0, m')) \<and>
    vm_ok m' \<and> (\<exists>v. heap m' 0 = Some v \<and> vdata v = VInt 1)"
proof -
  from idle_run obtain m' where r: "ovm_exec (Suc (Suc 0)) idle_ctx [4, 0, 0] (idle_vm bool_vars []) = Some (Inr (0, m'))"
    by blast
  have "heap (idle_vm bool_vars []) 0 = Some \<lparr>vdata = VInt 1, vflags = 0\<rparr>"
    "\<not> can_free_var \<lparr>vdata = VInt 1, vflags = 0\<rparr>" "\<forall>f \<in> set (vm_func_tbl idle_ctx). well_behaved f"
    by (simp_all add: idle_vm_def bool_vars_def can_free_var_def idle_ctx_def)
  with program_preserves_constants [OF idle_vm_ok _ r] r show ?thesis by fastforce
qed

end
