(* ===== verification/Text_Tools.thy ===== *)
theory Text_Tools
  imports Values
begin

text \<open>
  \<open>src/util/string_util.c\<close>: the scanners with which the input modules take a line apart.  A
  pointer into a block is the list of the bytes from there to the end of the block; a \<open>size_t\<close>
  is its number.  A read behind the last byte is \<open>OutOfBounds\<close>.
\<close>

section \<open>Characters\<close>

definition chars :: "string \<Rightarrow> byte list" where
  "chars s = map of_char s"

definition is_digit :: "byte \<Rightarrow> bool" where
  "is_digit b \<longleftrightarrow> 48 \<le> unat b \<and> unat b \<le> 57"

text \<open>Decimal numbers, without leading zeros, and the number that the leading digits spell.\<close>

fun dec_digits :: "nat \<Rightarrow> byte list" where
  "dec_digits n = (if n < 10 then [of_nat (48 + n)] else dec_digits (n div 10) @ [of_nat (48 + n mod 10)])"

declare dec_digits.simps [simp del]

definition digits_value :: "byte list \<Rightarrow> int" where
  "digits_value bs = foldl (\<lambda>v b. 10 * v + (int (unat b) - 48)) 0 (takeWhile is_digit bs)"

section \<open>Scanners\<close>

text \<open>\<open>get_next_token\<close>: the number of characters before \<open>c\<close>, at most \<open>n + 1\<close>.\<close>

fun token_from :: "nat \<Rightarrow> byte list \<Rightarrow> byte \<Rightarrow> nat \<Rightarrow> fault + nat" where
  "token_from k [] c n = (if k \<le> n then Inl OutOfBounds else Inr k)"
| "token_from k (b # bs) c n = (if k \<le> n \<and> b \<noteq> c then token_from (k + 1) bs c n else Inr k)"

definition get_next_token :: "byte list \<Rightarrow> byte \<Rightarrow> nat \<Rightarrow> fault + nat" where
  "get_next_token pos c n = token_from 0 pos c n"

text \<open>\<open>get_next_int\<close>: the number of digits and the \<open>long\<close> that they spell.  The character is read
  before the count is compared.\<close>

fun int_from :: "nat \<Rightarrow> clong \<Rightarrow> byte list \<Rightarrow> nat \<Rightarrow> fault + nat \<times> clong" where
  "int_from sz i [] n = Inl OutOfBounds"
| "int_from sz i (b # bs) n =
     (if is_digit b \<and> sz \<le> n then int_from (sz + 1) (i * 10 + (ucast b - 48)) bs n else Inr (sz, i))"

definition get_next_int :: "byte list \<Rightarrow> nat \<Rightarrow> fault + nat \<times> clong" where
  "get_next_int istr n = int_from 0 0 istr n"

text \<open>\<open>my_strspn\<close>: the number of characters before the first one of \<open>eot\<close>, at most \<open>n\<close>.  The
  character is read when there is one of \<open>eot\<close> to compare it with.\<close>

fun span_from :: "nat \<Rightarrow> byte list \<Rightarrow> byte list \<Rightarrow> nat \<Rightarrow> fault + nat" where
  "span_from k [] eot n = (if k < n then (if eot = [] then Inr n else Inl OutOfBounds) else Inr k)"
| "span_from k (b # bs) eot n =
     (if k < n then (if b \<in> set eot then Inr k else span_from (k + 1) bs eot n) else Inr k)"

definition my_strspn :: "byte list \<Rightarrow> byte list \<Rightarrow> nat \<Rightarrow> fault + nat" where
  "my_strspn pos eot n = span_from 0 pos eot n"

text \<open>
  \<open>fnmatch_test\<close>: does a pattern, here with its terminator, have an active wildcard?  A backslash
  is followed by two increments; the test between them looks at the backslash itself.
\<close>

fun fnmatch_from :: "nat \<Rightarrow> byte list \<Rightarrow> fault + bool" where
  "fnmatch_from nesting [] = Inl OutOfBounds"
| "fnmatch_from nesting (b # bs) =
     (if b = 0 then Inr False
      else if b = 63 \<or> b = 42 then Inr True
      else if b = 92 then (case bs of [] \<Rightarrow> Inl OutOfBounds | _ # cs \<Rightarrow> fnmatch_from nesting cs)
      else if b = 91 then fnmatch_from (nesting + 1) bs
      else if b = 93 \<and> nesting \<noteq> 0 then Inr True
      else fnmatch_from nesting bs)"

definition fnmatch_test :: "byte list \<Rightarrow> fault + bool" where
  "fnmatch_test pattern = fnmatch_from 0 pattern"

section \<open>Streams\<close>

record stream =
  st_rest :: "byte list"
  st_eof :: bool

text \<open>\<open>fgets\<close>: at most \<open>n\<close> characters, up to the end of a line.  The flag of the end of the file is set when a
  character is asked for behind the last one.\<close>

fun read_line :: "nat \<Rightarrow> byte list \<Rightarrow> byte list \<times> stream" where
  "read_line 0 bs = ([], \<lparr>st_rest = bs, st_eof = False\<rparr>)"
| "read_line (Suc n) [] = ([], \<lparr>st_rest = [], st_eof = True\<rparr>)"
| "read_line (Suc n) (b # bs) =
     (if b = 10 then ([b], \<lparr>st_rest = bs, st_eof = False\<rparr>)
      else let (l, fp) = read_line n bs in (b # l, fp))"

section \<open>What they find\<close>

lemma token_from_found:
  "c \<notin> set tok \<Longrightarrow> k + length tok \<le> n \<Longrightarrow> token_from k (tok @ c # rest) c n = Inr (k + length tok)"
  by (induction tok arbitrary: k) auto

lemma get_next_token_found:
  "c \<notin> set tok \<Longrightarrow> length tok \<le> n \<Longrightarrow> get_next_token (tok @ c # rest) c n = Inr (length tok)"
  by (simp add: get_next_token_def token_from_found)

lemma span_from_found:
  "set tok \<inter> set eot = {} \<Longrightarrow> b \<in> set eot \<Longrightarrow> k + length tok < n \<Longrightarrow>
   span_from k (tok @ b # rest) eot n = Inr (k + length tok)"
  by (induction tok arbitrary: k) auto

lemma span_from_all:
  "set tok \<inter> set eot = {} \<Longrightarrow> k + length tok = n \<Longrightarrow> span_from k (tok @ rest) eot n = Inr n"
  by (induction tok arbitrary: k) (auto, cases rest, auto)

lemma my_strspn_found:
  "set tok \<inter> set eot = {} \<Longrightarrow> b \<in> set eot \<Longrightarrow> length tok < n \<Longrightarrow>
   my_strspn (tok @ b # rest) eot n = Inr (length tok)"
  by (simp add: my_strspn_def span_from_found)

lemma my_strspn_all:
  "set tok \<inter> set eot = {} \<Longrightarrow> length tok = n \<Longrightarrow> my_strspn (tok @ rest) eot n = Inr n"
  by (simp add: my_strspn_def span_from_all)

lemma span_from_in_bounds:
  "n \<le> k + length pos \<Longrightarrow> k \<le> n \<Longrightarrow> \<exists>m. span_from k pos eot n = Inr m \<and> k \<le> m \<and> m \<le> n"
proof (induction pos arbitrary: k)
  case (Cons b bs)
  show ?case
  proof (cases "k < n \<and> b \<notin> set eot")
    case True
    with Cons.IH [of "k + 1"] Cons.prems obtain m where "span_from (k + 1) bs eot n = Inr m" "k + 1 \<le> m" "m \<le> n" by auto
    with True show ?thesis by auto
  next
    case False
    with Cons.prems show ?thesis by auto
  qed
qed auto

lemma my_strspn_in_bounds: "n \<le> length pos \<Longrightarrow> \<exists>m. my_strspn pos eot n = Inr m \<and> m \<le> n"
  using span_from_in_bounds [of n 0 pos eot] by (auto simp: my_strspn_def)

text \<open>Before a character that is no digit the scanner of numbers stops.\<close>

lemma int_from_in_bounds:
  "\<not> is_digit b \<Longrightarrow> \<exists>k i'. int_from sz i (pre @ b # rest) n = Inr (sz + k, i') \<and> k \<le> length pre"
proof (induction pre arbitrary: sz i)
  case (Cons c pre)
  show ?case
  proof (cases "is_digit c \<and> sz \<le> n")
    case True
    with Cons.IH [OF Cons.prems, of "sz + 1" "i * 10 + (ucast c - 48)"] obtain k i' where
      "int_from (sz + 1) (i * 10 + (ucast c - 48)) (pre @ b # rest) n = Inr (sz + 1 + k, i')" "k \<le> length pre" by auto
    with True show ?thesis by (intro exI [of _ "Suc k"]) auto
  next
    case False
    then show ?thesis by (auto intro: exI [of _ "0 :: nat"])
  qed
qed auto

section \<open>Decimal numbers\<close>

lemma digits_value_append:
  "list_all is_digit as \<Longrightarrow> digits_value (as @ [b]) = (if is_digit b then 10 * digits_value as + (int (unat b) - 48) else digits_value as)"
proof (induction as rule: rev_induct)
  case Nil
  then show ?case by (simp add: digits_value_def)
next
  case (snoc a as)
  then have "takeWhile is_digit (as @ [a] @ [b]) = as @ [a] @ (if is_digit b then [b] else [])"
    "takeWhile is_digit (as @ [a]) = as @ [a]"
    by (simp_all add: takeWhile_append list_all_iff)
  then show ?case by (simp add: digits_value_def)
qed

lemma unat_digit: "d < 10 \<Longrightarrow> unat (of_nat (48 + d) :: byte) = 48 + d"
  by (simp add: unat_of_nat del: of_nat_add)

lemma digit_is_digit: "d < 10 \<Longrightarrow> is_digit (of_nat (48 + d))"
  by (simp add: is_digit_def unat_digit del: of_nat_add)

lemma dec_digits_digits: "list_all is_digit (dec_digits n)"
proof (induction n rule: dec_digits.induct)
  case (1 n)
  then show ?case by (subst dec_digits.simps) (simp add: digit_is_digit del: of_nat_add)
qed

lemma dec_digits_value: "digits_value (dec_digits n) = int n"
proof (induction n rule: dec_digits.induct)
  case (1 n)
  show ?case
  proof (cases "n < 10")
    case True
    have "int (unat (of_nat (48 + n) :: byte)) - 48 = int n" unfolding unat_digit [OF True] by simp
    moreover have "digits_value (dec_digits n) = int (unat (of_nat (48 + n) :: byte)) - 48"
      using True by (subst dec_digits.simps) (simp add: digits_value_def digit_is_digit del: of_nat_add)
    ultimately show ?thesis by simp
  next
    case False
    let ?b = "of_nat (48 + n mod 10) :: byte"
    have b: "int (unat ?b) - 48 = int (n mod 10)" using unat_digit [of "n mod 10"] by simp
    have "digits_value (dec_digits n) = digits_value (dec_digits (n div 10) @ [?b])"
      using False by (subst dec_digits.simps) (simp del: of_nat_add)
    also have "\<dots> = 10 * int (n div 10) + int (n mod 10)"
      using 1 False digit_is_digit [of "n mod 10"]
      by (simp only: digits_value_append [OF dec_digits_digits] b if_True) simp
    also have "\<dots> = int n" by presburger
    finally show ?thesis .
  qed
qed

lemma dec_digits_head: "\<exists>b bs. dec_digits n = b # bs \<and> is_digit b"
proof -
  have "dec_digits n \<noteq> []" by (subst dec_digits.simps) simp
  then show ?thesis using dec_digits_digits [of n] by (cases "dec_digits n") auto
qed

text \<open>The scanner reads the number back, modulo the width of \<open>long\<close>.\<close>

definition long_value :: "clong \<Rightarrow> byte list \<Rightarrow> clong" where
  "long_value i ds = foldl (\<lambda>i b. i * 10 + (ucast b - 48)) i ds"

lemma int_from_found:
  "list_all is_digit ds \<Longrightarrow> \<not> is_digit b \<Longrightarrow> sz + length ds \<le> Suc n \<Longrightarrow>
   int_from sz i (ds @ b # rest) n = Inr (sz + length ds, long_value i ds)"
  by (induction ds arbitrary: sz i) (auto simp: long_value_def)

lemma long_value_digits: "list_all is_digit ds \<Longrightarrow> long_value 0 ds = word_of_int (digits_value ds)"
proof (induction ds rule: rev_induct)
  case Nil
  then show ?case by (simp add: long_value_def digits_value_def)
next
  case (snoc b ds)
  then have "long_value 0 (ds @ [b]) = word_of_int (digits_value ds) * 10 + (ucast b - 48)"
    by (simp add: long_value_def)
  moreover have "(ucast b :: clong) = word_of_int (int (unat b))" by (simp only: ucast_eq uint_nat)
  moreover have "digits_value (ds @ [b]) = digits_value ds * 10 + (int (unat b) - 48)"
    using snoc.prems by (simp add: digits_value_append)
  ultimately show ?case by (simp only: of_int_add of_int_mult of_int_diff of_int_numeral)
qed

lemma get_next_int_found:
  assumes "\<not> is_digit b" "length (dec_digits m) \<le> Suc n"
  shows "get_next_int (dec_digits m @ b # rest) n = Inr (length (dec_digits m), of_nat m)"
  using int_from_found [OF dec_digits_digits [of m] assms(1), of 0 n 0 rest] assms(2)
  by (simp add: get_next_int_def long_value_digits dec_digits_digits dec_digits_value)

lemma get_next_int_in_bounds: "\<exists>k i. get_next_int (us @ 0 # zs) n = Inr (k, i) \<and> k \<le> length us"
proof -
  have "\<not> is_digit 0" by (simp add: is_digit_def)
  then show ?thesis using int_from_in_bounds [of 0 0 0 us zs n] by (auto simp: get_next_int_def)
qed

end
