(* ===== verification/Builtins.thy ===== *)
theory Builtins
  imports Ovm_Safety Text_Tools
begin

text \<open>
  The built-in functions of \<open>src/lang.c\<close> that \<open>OP_CALL\<close> reaches through the function table:
  each pops its arguments from the stack of the machine and pushes its result.  What they
  print is left out.  The functions of the C library on which a result depends are the fields
  of \<open>builtin_lib\<close>.
\<close>

section \<open>The C library\<close>

text \<open>\<open>lib_rand\<close> is the next value of \<open>rand()\<close>, \<open>lib_difftime\<close> the value of \<open>difftime\<close> as a
  \<open>long\<close>, \<open>lib_strftime\<close> the local time as a string, and \<open>lib_regcomp\<close> a compiled expression.\<close>

record builtin_lib =
  lib_rand :: cint
  lib_difftime :: "clong \<Rightarrow> clong \<Rightarrow> clong"
  lib_strftime :: "clong \<Rightarrow> byte list"
  lib_regcomp :: "byte list \<Rightarrow> culong option"

text \<open>\<open>snprintf\<close> with \<open>"%li"\<close>, and \<open>atoi\<close>, which skips white space and saturates at the limits
  of \<open>long\<close> before the conversion to \<open>int\<close>.\<close>

definition print_li :: "clong \<Rightarrow> byte list" where
  "print_li w = (if sint w < 0 then 45 # dec_digits (nat (- sint w)) else dec_digits (nat (sint w)))"

definition is_space :: "byte \<Rightarrow> bool" where
  "is_space b \<longleftrightarrow> b = 32 \<or> 9 \<le> unat b \<and> unat b \<le> 13"

definition strtol10 :: "byte list \<Rightarrow> int" where
  "strtol10 s = (case dropWhile is_space s of
       [] \<Rightarrow> 0
     | b # bs \<Rightarrow> if b = 45 then - digits_value bs else if b = 43 then digits_value bs else digits_value (b # bs))"

definition c_atoi :: "byte list \<Rightarrow> cint" where
  "c_atoi s = word_of_int (max (- (2 ^ 63)) (min (2 ^ 63 - 1) (strtol10 s)))"

text \<open>\<open>inet_ntoa\<close>: the four bytes of the address in the order of the memory.\<close>

definition inet_ntoa :: "cint \<Rightarrow> byte list" where
  "inet_ntoa a = (case map (\<lambda>b. dec_digits (unat b)) (bytes_le 4 a) of
     [w, x, y, z] \<Rightarrow> w @ 46 # x @ 46 # y @ 46 # z | _ \<Rightarrow> [])"

section \<open>The functions\<close>

type_synonym builtin = "ovm_ctx \<Rightarrow> ovm \<Rightarrow> fault + ovm"

definition push_return_true :: builtin where
  "push_return_true c m = bnd (TRUE_VAR c) (\<lambda>p. push p m)"
definition push_return_false :: builtin where
  "push_return_false c m = bnd (FALSE_VAR c) (\<lambda>p. push p m)"

definition push_new :: "ovm_var \<Rightarrow> ovm \<Rightarrow> fault + ovm" where
  "push_new v m = (let (p, m) = alloc v m in push p m)"

definition temp_flags :: cint where "temp_flags = TYPE_CANFREE OR TYPE_NOTBOUND"

definition issdl_noop :: builtin where
  "issdl_noop c m = Inr m"

definition issdl_print :: builtin where
  "issdl_print c m = (let (p, m) = pop m in bnd (data_of m p) (\<lambda>_. push_return_true c m))"

text \<open>\<open>report\<close> and \<open>dump_stack\<close> fail outside a rule instance.\<close>

definition issdl_dumpstack :: "bool \<Rightarrow> builtin" where
  "issdl_dumpstack in_rule c m = (if in_rule then push_return_true c m else push_return_false c m)"
definition issdl_report :: "bool \<Rightarrow> builtin" where
  "issdl_report in_rule c m = (if in_rule then push_return_true c m else push_return_false c m)"
definition issdl_printevent :: builtin where "issdl_printevent = push_return_true"
definition issdl_dumppathtree :: builtin where "issdl_dumppathtree = push_return_true"
definition issdl_stats :: builtin where "issdl_stats = push_return_true"

definition issdl_random :: "builtin_lib \<Rightarrow> builtin" where
  "issdl_random l c m = push_new (ovm_int_new\<lparr>vdata := VInt (scast (lib_rand l))\<rparr>) m"

definition issdl_system :: builtin where
  "issdl_system c m = (let (p, m) = pop m in bnd (data_of m p) (\<lambda>_. push_return_true c m))"

definition issdl_str_from_int :: builtin where
  "issdl_str_from_int c m =
     (let (i, m) = pop m in
      bnd (deref m i) (\<lambda>v.
      bnd (push_new (case vdata v of
             VInt n \<Rightarrow> \<lparr>vdata = VStr (print_li n), vflags = temp_flags\<rparr>
           | _ \<Rightarrow> \<lparr>vdata = VStr [], vflags = temp_flags\<rparr>) m) (free_if_not_bound i)))"

definition issdl_str_from_ipv4 :: builtin where
  "issdl_str_from_ipv4 c m =
     (let (i, m) = pop m in
      bnd (deref m i) (\<lambda>v. case vdata v of
        VIPv4 a \<Rightarrow> bnd (push_new \<lparr>vdata = VStr (inet_ntoa a), vflags = temp_flags\<rparr> m) (free_if_not_bound i)
      | _ \<Rightarrow> push_return_false c m))"

definition issdl_int_from_str :: builtin where
  "issdl_int_from_str c m =
     (let (s, m) = pop m in
      bnd (deref m s) (\<lambda>v. case vdata v of
        VStr bs \<Rightarrow> bnd (push_new (ovm_int_new\<lparr>vdata := VInt (scast (c_atoi bs))\<rparr>) m) (free_if_not_bound s)
      | _ \<Rightarrow> push_return_false c m))"

text \<open>The level of an event is returned beside the machine.\<close>

definition issdl_drop_event :: "bool \<Rightarrow> ovm_ctx \<Rightarrow> ovm \<Rightarrow> (fault + ovm) \<times> int option" where
  "issdl_drop_event has_event c m =
     (if has_event then (push_return_true c m, Some (-1)) else (push_return_false c m, None))"

text \<open>The number of the level, an \<open>int32_t\<close>.\<close>

fun level_of :: "ovm_data \<Rightarrow> int option" where
  "level_of (VInt i) = Some (sint (ucast i :: cint))"
| "level_of _ = None"

definition issdl_set_event_level :: "bool \<Rightarrow> ovm_ctx \<Rightarrow> ovm \<Rightarrow> (fault + ovm) \<times> int option" where
  "issdl_set_event_level has_event c m =
     (let (p, m) = pop m; level = bnd (deref m p) (\<lambda>v. Inr (level_of (vdata v))) in
      if \<not> has_event then (push_return_false c m, None)
      else (bnd level (\<lambda>i. if i = None then push_return_false c m else push_return_true c m),
            case level of Inl _ \<Rightarrow> None | Inr i \<Rightarrow> i))"

subsection \<open>Distances\<close>

definition bitcnt_tbl :: "nat list" where
  "bitcnt_tbl = [
    0, 1, 1, 2, 1, 2, 2, 3, 1, 2, 2, 3, 2, 3, 3, 4,
    1, 2, 2, 3, 2, 3, 3, 4, 2, 3, 3, 4, 3, 4, 4, 5,
    1, 2, 2, 3, 2, 3, 3, 4, 2, 3, 3, 4, 3, 4, 4, 5,
    2, 3, 3, 4, 3, 4, 4, 5, 3, 4, 4, 5, 4, 5, 5, 6,
    1, 2, 2, 3, 2, 3, 3, 4, 2, 3, 3, 4, 3, 4, 4, 5,
    2, 3, 3, 4, 3, 4, 4, 5, 3, 4, 4, 5, 4, 5, 5, 6,
    2, 3, 3, 4, 3, 4, 4, 5, 3, 4, 4, 5, 4, 5, 5, 6,
    3, 4, 4, 5, 4, 5, 5, 6, 4, 5, 5, 6, 5, 6, 6, 7,
    1, 2, 2, 3, 2, 3, 3, 4, 2, 3, 3, 4, 3, 4, 4, 5,
    2, 3, 3, 4, 3, 4, 4, 5, 3, 4, 4, 5, 4, 5, 5, 6,
    2, 3, 3, 4, 3, 4, 4, 5, 3, 4, 4, 5, 4, 5, 5, 6,
    3, 4, 4, 5, 4, 5, 5, 6, 4, 5, 5, 6, 5, 6, 6, 7,
    2, 3, 3, 4, 3, 4, 4, 5, 3, 4, 4, 5, 4, 5, 5, 6,
    3, 4, 4, 5, 4, 5, 5, 6, 4, 5, 5, 6, 5, 6, 6, 7,
    3, 4, 4, 5, 4, 5, 5, 6, 4, 5, 5, 6, 5, 6, 6, 7,
    4, 5, 5, 6, 5, 6, 6, 7, 5, 6, 6, 7, 6, 7, 7, 8]"

fun bit_distance :: "byte list \<Rightarrow> byte list \<Rightarrow> nat" where
  "bit_distance (a # as) (b # bs) = bitcnt_tbl ! unat (xor a b) + bit_distance as bs"
| "bit_distance _ _ = 0"

fun byte_distance :: "byte list \<Rightarrow> byte list \<Rightarrow> nat" where
  "byte_distance (a # as) (b # bs) = (if a \<noteq> b then 1 else 0) + byte_distance as bs"
| "byte_distance _ _ = 0"

definition block_of :: "ovm_data \<Rightarrow> byte list" where
  "block_of d = (case issdl_get_data d of None \<Rightarrow> [] | Some bs \<Rightarrow> bs)"

text \<open>The two functions differ in the distance only; when the types or the sizes differ
  nothing is pushed.\<close>

definition issdl_dist :: "(byte list \<Rightarrow> byte list \<Rightarrow> nat) \<Rightarrow> builtin" where
  "issdl_dist dist c m =
     (let (p, m) = pop m; (q, m) = pop m in
      bnd (deref m p) (\<lambda>v. bnd (deref m q) (\<lambda>w.
      bnd (if type_id (vdata v) \<noteq> type_id (vdata w) \<or> issdl_get_data_len (vdata v) \<noteq> issdl_get_data_len (vdata w)
           then Inr m
           else push_new \<lparr>vdata = VInt (of_nat (dist (block_of (vdata v)) (block_of (vdata w)))), vflags = temp_flags\<rparr> m)
        (\<lambda>m. bnd (free_if_needed p m) (\<lambda>m. free_if_needed q m)))))"

definition issdl_bindist :: builtin where "issdl_bindist = issdl_dist bit_distance"
definition issdl_bytedist :: builtin where "issdl_bytedist = issdl_dist byte_distance"

subsection \<open>Regular expressions and time\<close>

text \<open>The source of an expression is a C string.\<close>

definition c_str :: "byte list \<Rightarrow> byte list" where
  "c_str = takeWhile (\<lambda>b. b \<noteq> 0)"

definition issdl_vstr_from_regex :: builtin where
  "issdl_vstr_from_regex c m =
     (let (r, m) = pop m in
      bnd (deref m r) (\<lambda>v. case vdata v of
        VRegex _ s \<Rightarrow> bnd (push_new (ovm_vstr_new\<lparr>vdata := VVStr (c_str s)\<rparr>) m) (free_if_needed r)
      | _ \<Rightarrow> Inr m))"

definition issdl_str_from_regex :: builtin where
  "issdl_str_from_regex c m =
     (let (r, m) = pop m in
      bnd (deref m r) (\<lambda>v. case vdata v of
        VRegex _ s \<Rightarrow> bnd (push_new \<lparr>vdata = VStr (c_str s), vflags = 0\<rparr> m) (free_if_needed r)
      | _ \<Rightarrow> Inr m))"

definition issdl_defined :: builtin where
  "issdl_defined c m =
     (let (f, m) = pop m in
      bnd (data_of m f) (\<lambda>d. if is_null d then push_return_false c m else push_return_true c m))"

text \<open>The test is \<open>(TYPE(t1) & TYPE(t2)) == T_CTIME\<close>: the bitwise conjunction of the numbers of
  the types.\<close>

definition issdl_difftime :: "builtin_lib \<Rightarrow> builtin" where
  "issdl_difftime l c m =
     (let (p, m) = pop m; (q, m) = pop m in
      bnd (deref m p) (\<lambda>v. bnd (deref m q) (\<lambda>w.
      if type_id (vdata v) AND type_id (vdata w) = type_id (VCTime 0) then
        bnd (raw_ulong (vdata v)) (\<lambda>t. bnd (raw_ulong (vdata w)) (\<lambda>u.
        push_new (ovm_int_new\<lparr>vdata := VInt (lib_difftime l t u)\<rparr>) m))
      else push_return_false c m)))"

definition issdl_str_from_time :: "builtin_lib \<Rightarrow> builtin" where
  "issdl_str_from_time l c m =
     (let (t, m) = pop m in
      bnd (deref m t) (\<lambda>v. case vdata v of
        VCTime x \<Rightarrow> bnd (push_new \<lparr>vdata = VStr (lib_strftime l x), vflags = temp_flags\<rparr> m) (free_if_not_bound t)
      | _ \<Rightarrow> Inr m))"

text \<open>The result has a fixed text for its source.  The argument is not freed, and when the expression is not
  correct nothing is pushed.\<close>

definition compile_regex :: "builtin_lib \<Rightarrow> byte list \<Rightarrow> ovm \<Rightarrow> fault + ovm" where
  "compile_regex l s m = (case lib_regcomp l (c_str s) of None \<Rightarrow> Inr m
     | Some r \<Rightarrow> push_new \<lparr>vdata = VRegex r (chars ''(string not available: was compiled dynamically)''), vflags = 0\<rparr> m)"

definition issdl_regex_from_str :: "builtin_lib \<Rightarrow> builtin" where
  "issdl_regex_from_str l c m =
     (let (p, m) = pop m in
      bnd (deref m p) (\<lambda>v. case vdata v of VStr s \<Rightarrow> compile_regex l s m | VVStr s \<Rightarrow> compile_regex l s m | _ \<Rightarrow> Inr m))"

subsection \<open>The engine and the system\<close>

text \<open>
  What the functions do to the engine and what they read of it is in theory \<open>Rule_Functions\<close>.  Here it is
  \<open>engine_parts\<close>: the names of the variables of the rule, and whether the walk over the threads, the states or the
  environments ends or what fault it has.  Nothing of it gets the machine.
\<close>

record engine_parts =
  ep_kill_threads :: "fault + unit"
  ep_cut :: "byte list \<Rightarrow> fault + unit"
  ep_var_names :: "byte list list"
  ep_past_value :: "nat \<Rightarrow> bool \<Rightarrow> fault + unit"

definition issdl_shutdown :: "bool \<Rightarrow> builtin" where
  "issdl_shutdown in_rule c m = Inl (if in_rule then ExitSuccess else NullDeref)"

definition machine_kill_threads :: "engine_parts \<Rightarrow> builtin" where
  "machine_kill_threads ep c m = bnd (ep_kill_threads ep) (\<lambda>_. push_return_true c m)"

definition machine_cut :: "engine_parts \<Rightarrow> builtin" where
  "machine_cut ep c m =
     (let (p, m) = pop m in
      bnd (deref m p) (\<lambda>v. case vdata v of
        VStr str \<Rightarrow> bnd (ep_cut ep str) (\<lambda>_. push_return_true c m)
      | _ \<Rightarrow> Inr m))"

text \<open>\<open>strncmp(s, t, n)\<close> where \<open>n\<close> is the length of the first string, and the second one ends with a zero.\<close>

fun strncmp_eq :: "byte list \<Rightarrow> byte list \<Rightarrow> bool" where
  "strncmp_eq [] t = True"
| "strncmp_eq (a # s) [] = (a = 0)"
| "strncmp_eq (a # s) (b # t) = (a = b \<and> (a = 0 \<or> strncmp_eq s t))"

text \<open>The name of the variable is not tested to be a string: another block is read outside of its bounds.  What is found
  is not pushed, so the function takes two values from the stack and leaves none.  The count is a pointer that is
  decremented, and only whether it is \<open>NULL\<close> matters.\<close>

definition issdl_pastval :: "engine_parts \<Rightarrow> builtin" where
  "issdl_pastval ep c m =
     (let (p, m) = pop m; (n, m) = pop m in
      if ep_var_names ep = [] then Inr m
      else bnd (deref m p) (\<lambda>v. case vdata v of
        VStr str \<Rightarrow>
          (let i = length (takeWhile (\<lambda>name. \<not> strncmp_eq str name) (ep_var_names ep)) in
           if i = length (ep_var_names ep) then Inr m
           else bnd (ep_past_value ep i (n \<noteq> None)) (\<lambda>_. Inr m))
      | _ \<Rightarrow> Inl OutOfBounds))"

text \<open>The mail is written by a child process; the parent only takes its arguments.  In \<open>sendmail_report\<close> the parent
  writes the mail, and has run over all its states when it needs the state for the result.\<close>

definition issdl_sendmail :: builtin where
  "issdl_sendmail c m =
     (let (from, m) = pop m; (to, m) = pop m; (subject, m) = pop m; (body, m) = pop m in push_return_true c m)"

definition issdl_sendmail_report :: builtin where
  "issdl_sendmail_report c m =
     (let (from, m) = pop m; (to, m) = pop m; (subject, m) = pop m; (body, m) = pop m in
      bnd (deref m to) (\<lambda>_. bnd (deref m from) (\<lambda>_. bnd (deref m subject) (\<lambda>_. bnd (deref m body) (\<lambda>_.
      Inl NullDeref)))))"

section \<open>The function table\<close>

text \<open>
  A name, the number of arguments that the compiler is told, and the function; \<open>in_rule\<close> and
  \<open>has_event\<close> say whether the state belongs to a rule instance and refers to an event.
\<close>

record issdl_function =
  fn_name :: string
  args_nb :: int
  fn_run :: "ovm \<Rightarrow> fault + ovm"

definition issdl_function_g ::
  "builtin_lib \<Rightarrow> bool \<Rightarrow> bool \<Rightarrow> engine_parts \<Rightarrow> ovm_ctx \<Rightarrow> issdl_function list" where
  "issdl_function_g l in_rule has_event ep c = [
     \<lparr>fn_name = ''noop'', args_nb = 0, fn_run = issdl_noop c\<rparr>,
     \<lparr>fn_name = ''print'', args_nb = 1, fn_run = issdl_print c\<rparr>,
     \<lparr>fn_name = ''dump_stack'', args_nb = 0, fn_run = issdl_dumpstack in_rule c\<rparr>,
     \<lparr>fn_name = ''print_event'', args_nb = 0, fn_run = issdl_printevent c\<rparr>,
     \<lparr>fn_name = ''dump_dot_pathtree'', args_nb = 0, fn_run = issdl_dumppathtree c\<rparr>,
     \<lparr>fn_name = ''drop_event'', args_nb = 0, fn_run = \<lambda>m. fst (issdl_drop_event has_event c m)\<rparr>,
     \<lparr>fn_name = ''set_event_level'', args_nb = 1, fn_run = \<lambda>m. fst (issdl_set_event_level has_event c m)\<rparr>,
     \<lparr>fn_name = ''report'', args_nb = 0, fn_run = issdl_report in_rule c\<rparr>,
     \<lparr>fn_name = ''shutdown'', args_nb = 0, fn_run = issdl_shutdown in_rule c\<rparr>,
     \<lparr>fn_name = ''random'', args_nb = 0, fn_run = issdl_random l c\<rparr>,
     \<lparr>fn_name = ''system'', args_nb = 0, fn_run = issdl_system c\<rparr>,
     \<lparr>fn_name = ''show_stats'', args_nb = 0, fn_run = issdl_stats c\<rparr>,
     \<lparr>fn_name = ''str_from_int'', args_nb = 0, fn_run = issdl_str_from_int c\<rparr>,
     \<lparr>fn_name = ''int_from_str'', args_nb = 0, fn_run = issdl_int_from_str c\<rparr>,
     \<lparr>fn_name = ''str_from_ipv4'', args_nb = 0, fn_run = issdl_str_from_ipv4 c\<rparr>,
     \<lparr>fn_name = ''kill_threads'', args_nb = 0, fn_run = machine_kill_threads ep c\<rparr>,
     \<lparr>fn_name = ''cut'', args_nb = 1, fn_run = machine_cut ep c\<rparr>,
     \<lparr>fn_name = ''pastval'', args_nb = 2, fn_run = issdl_pastval ep c\<rparr>,
     \<lparr>fn_name = ''sendmail'', args_nb = 4, fn_run = issdl_sendmail c\<rparr>,
     \<lparr>fn_name = ''sendmail_report'', args_nb = 4, fn_run = issdl_sendmail_report c\<rparr>,
     \<lparr>fn_name = ''bitdist'', args_nb = 2, fn_run = issdl_bindist c\<rparr>,
     \<lparr>fn_name = ''bytedist'', args_nb = 2, fn_run = issdl_bytedist c\<rparr>,
     \<lparr>fn_name = ''vstr_from_regex'', args_nb = 1, fn_run = issdl_vstr_from_regex c\<rparr>,
     \<lparr>fn_name = ''str_from_regex'', args_nb = 1, fn_run = issdl_str_from_regex c\<rparr>,
     \<lparr>fn_name = ''regex_from_str'', args_nb = 1, fn_run = issdl_regex_from_str l c\<rparr>,
     \<lparr>fn_name = ''defined'', args_nb = 1, fn_run = issdl_defined c\<rparr>,
     \<lparr>fn_name = ''difftime'', args_nb = 1, fn_run = issdl_difftime l c\<rparr>,
     \<lparr>fn_name = ''str_from_time'', args_nb = 0, fn_run = issdl_str_from_time l c\<rparr>]"

definition register_lang_function :: "issdl_function list \<Rightarrow> issdl_function \<Rightarrow> issdl_function list" where
  "register_lang_function tbl f = tbl @ [f]"

definition register_core_functions ::
  "builtin_lib \<Rightarrow> bool \<Rightarrow> bool \<Rightarrow> engine_parts \<Rightarrow> ovm_ctx \<Rightarrow> issdl_function list \<Rightarrow> issdl_function list" where
  "register_core_functions l in_rule has_event ep c tbl =
     foldl register_lang_function tbl (issdl_function_g l in_rule has_event ep c)"

end
