(* ===== verification/Hash_Funcs.thy ===== *)
theory Hash_Funcs
  imports Prelude
begin

text \<open>
  The hash functions of \<open>src/util/hash.c\<close> (keys are blocks of unsigned bytes),
  \<open>src/util/strhash.c\<close> and \<open>src/util/objhash.c\<close> (keys are C strings, whose bytes are signed),
  and the checksum of \<open>src/util/crc32.c\<close>.  \<open>hcode_t\<close> is \<open>unsigned long\<close>.  A key is the list of
  its bytes; for a C string, those before the terminator.  The two families share the body of
  their loops: they differ in how a byte becomes an \<open>unsigned long\<close>.
\<close>

section \<open>Bytes and loops\<close>

abbreviation uchar :: "byte \<Rightarrow> culong" where "uchar k \<equiv> ucast k"
abbreviation schar :: "byte \<Rightarrow> culong" where "schar k \<equiv> scast k"

definition over_bytes :: "(culong \<Rightarrow> culong \<Rightarrow> culong) \<Rightarrow> culong \<Rightarrow> byte list \<Rightarrow> culong" where
  "over_bytes step h key = foldl step h (map uchar key)"

definition over_chars :: "(culong \<Rightarrow> culong \<Rightarrow> culong) \<Rightarrow> culong \<Rightarrow> byte list \<Rightarrow> culong" where
  "over_chars step h key = foldl step h (map schar key)"

text \<open>The little-endian load of \<open>n\<close> bytes.\<close>

fun load_le :: "byte list \<Rightarrow> culong" where
  "load_le [] = 0"
| "load_le (b # bs) = ucast b OR push_bit 8 (load_le bs)"

section \<open>Loop bodies\<close>

definition pjw_step :: "nat \<Rightarrow> culong \<Rightarrow> culong \<Rightarrow> culong" where
  "pjw_step s h k =
     (let h = push_bit 4 h + k; g = h AND 0xF0000000
      in if g \<noteq> 0 then (h XOR drop_bit s g) XOR g else h)"

definition elf_step :: "culong \<Rightarrow> culong \<Rightarrow> culong" where
  "elf_step h k =
     (let h = push_bit 4 h + k; g = h AND 0xF0000000
      in if g \<noteq> 0 then (h XOR drop_bit 24 g) AND NOT g else h)"

definition pow_step :: "culong \<Rightarrow> culong \<Rightarrow> culong" where
  "pow_step h k = h + k * k"
definition x65599_step :: "culong \<Rightarrow> culong \<Rightarrow> culong" where
  "x65599_step h k = h + k * 65599"
definition x65599_opt_step :: "culong \<Rightarrow> culong \<Rightarrow> culong" where
  "x65599_opt_step h k = k + push_bit 6 h + push_bit 16 h - h"
definition rs_step :: "culong \<times> culong \<Rightarrow> culong \<Rightarrow> culong \<times> culong" where
  "rs_step ha k = (case ha of (h, a) \<Rightarrow> (h * a + k, a * 378551))"
definition gcc295_step :: "culong \<Rightarrow> culong \<Rightarrow> culong" where
  "gcc295_step h k = push_bit 2 h + k"
definition bkdr_step :: "culong \<Rightarrow> culong \<Rightarrow> culong" where
  "bkdr_step h k = h * 131313 + k"
definition djb_step :: "culong \<Rightarrow> culong \<Rightarrow> culong" where
  "djb_step h k = (push_bit 5 h + h) + k"
definition dk_step :: "culong \<Rightarrow> culong \<Rightarrow> culong" where
  "dk_step h k = (push_bit 5 h XOR drop_bit 27 h) XOR k"
definition ap_step :: "bool \<Rightarrow> culong \<Rightarrow> culong \<Rightarrow> culong" where
  "ap_step ev h k = h XOR (if ev then push_bit 7 h XOR k XOR drop_bit 3 h
     else NOT (push_bit 11 h XOR k XOR drop_bit 5 h))"
definition rz_step :: "culong \<Rightarrow> culong \<Rightarrow> culong" where
  "rz_step h k = h XOR (push_bit 5 h + k + drop_bit 2 h)"
definition lcg_step :: "culong \<Rightarrow> culong \<Rightarrow> culong" where
  "lcg_step h k = h * 1664525 + k + 1013904223"
definition rot13_step :: "culong \<Rightarrow> culong \<Rightarrow> culong" where
  "rot13_step h k = (let h = h + k in h - (push_bit 13 h OR drop_bit 19 h))"
definition oat_step :: "culong \<Rightarrow> culong \<Rightarrow> culong" where
  "oat_step h k = (let h = h + k; h = h + push_bit 10 h in h XOR drop_bit 6 h)"
definition oat_end :: "culong \<Rightarrow> culong" where
  "oat_end h = (let h = h + push_bit 3 h; h = h XOR drop_bit 11 h in h + push_bit 15 h)"
definition ethz_step :: "culong \<Rightarrow> culong \<Rightarrow> culong" where
  "ethz_step h k = k * (h mod 257) + 1"

text \<open>The prime \<open>0x01000193\<close> of Fowler, Noll and Vo, and the shifts that replace it.\<close>

definition fnv_mult :: "culong \<Rightarrow> culong" where
  "fnv_mult h = h * 0x01000193"
definition fnv_shifts :: "culong \<Rightarrow> culong" where
  "fnv_shifts h = h + (push_bit 1 h + push_bit 4 h + push_bit 7 h + push_bit 8 h + push_bit 24 h)"
definition fnv1_step :: "(culong \<Rightarrow> culong) \<Rightarrow> culong \<Rightarrow> culong \<Rightarrow> culong" where
  "fnv1_step mul h k = mul h XOR k"
definition fnv1a_step :: "(culong \<Rightarrow> culong) \<Rightarrow> culong \<Rightarrow> culong \<Rightarrow> culong" where
  "fnv1a_step mul h k = mul (h XOR k)"
definition FNV1_INIT :: culong where "FNV1_INIT = 0x811c9dc5"

section \<open>Keys that are blocks of bytes\<close>

definition hash_pjw where "hash_pjw = over_bytes (pjw_step 28) 0"
definition hash_pjw_typo where "hash_pjw_typo = over_bytes (pjw_step 24) 0"
definition hash_pow where "hash_pow = over_bytes pow_step 0"
definition hash_x65599 where "hash_x65599 = over_bytes x65599_step 0"
definition hash_x65599_opt where "hash_x65599_opt = over_bytes x65599_opt_step 0"
definition hash_elf where "hash_elf = over_bytes elf_step 0"
definition hash_gcc295_cpp where "hash_gcc295_cpp = over_bytes gcc295_step 0"
definition hash_bkdr where "hash_bkdr = over_bytes bkdr_step 0"
definition hash_djb where "hash_djb = over_bytes djb_step 5381"
definition hash_dk :: "byte list \<Rightarrow> culong" where
  "hash_dk key = over_bytes dk_step (of_nat (length key)) key"
definition hash_rz where "hash_rz = over_bytes rz_step 0"
definition hash_fnv0 where "hash_fnv0 = over_bytes (fnv1_step fnv_mult) 0"
definition hash_fnv0_opt where "hash_fnv0_opt = over_bytes (fnv1_step fnv_shifts) 0"
definition hash_fnv1 where "hash_fnv1 = over_bytes (fnv1_step fnv_mult) FNV1_INIT"
definition hash_fnv1_opt where "hash_fnv1_opt = over_bytes (fnv1_step fnv_shifts) FNV1_INIT"
definition hash_fnv1a where "hash_fnv1a = over_bytes (fnv1a_step fnv_mult) FNV1_INIT"
definition hash_fnv1a_opt where "hash_fnv1a_opt = over_bytes (fnv1a_step fnv_shifts) FNV1_INIT"
definition hash_lcg32dk where "hash_lcg32dk = over_bytes lcg_step 0"
definition hash_rot13 where "hash_rot13 = over_bytes rot13_step 0"
definition hash_oat :: "byte list \<Rightarrow> culong" where
  "hash_oat key = oat_end (over_bytes oat_step 0 key)"
definition hash_rs :: "byte list \<Rightarrow> culong" where
  "hash_rs key = fst (foldl rs_step (0, 63689) (map uchar key))"

text \<open>The parity is that of the number of bytes that are left.\<close>

fun hash_ap_loop :: "culong \<Rightarrow> byte list \<Rightarrow> culong" where
  "hash_ap_loop h [] = h"
| "hash_ap_loop h (k # ks) = hash_ap_loop (ap_step (even (length (k # ks))) h (uchar k)) ks"

definition hash_ap :: "byte list \<Rightarrow> culong" where "hash_ap key = hash_ap_loop 0 key"

text \<open>Only the complete \<open>unsigned long\<close> words of the key are added.\<close>

definition quad_sum :: "byte list \<Rightarrow> culong" where
  "quad_sum key =
     foldl (\<lambda>h i. h + load_le (take 8 (drop (8 * i) key))) 0 [0..<length key div 8]"

definition hash_quad :: "byte list \<Rightarrow> culong" where "hash_quad key = quad_sum key"

text \<open>These two hash the address of the key; \<open>jglbr\<close> reverses its bits.\<close>

definition hash_ptr :: "culong \<Rightarrow> culong" where "hash_ptr address = address"

definition jglbr_round :: "culong \<times> culong \<Rightarrow> culong \<times> culong" where
  "jglbr_round ij = (case ij of (i, j) \<Rightarrow> (drop_bit 1 i, push_bit 1 (j OR (i AND 1))))"

definition hash_jglbr :: "culong \<Rightarrow> culong" where
  "hash_jglbr address = snd ((jglbr_round ^^ 63) (address, 0))"

text \<open>The words of two bytes, the three last bytes and the finish of \<open>SuperFastHash\<close>; the
  argument \<open>ext\<close> widens a byte.\<close>

definition sfh_round :: "culong \<Rightarrow> byte list \<Rightarrow> culong" where
  "sfh_round h q =
     (let h = h + load_le (take 2 q);
          t = push_bit 11 (load_le (drop 2 q)) XOR h;
          h = push_bit 16 h XOR t
      in h + drop_bit 11 h)"

definition sfh_rest :: "(byte \<Rightarrow> culong) \<Rightarrow> culong \<Rightarrow> byte list \<Rightarrow> culong" where
  "sfh_rest ext h r = (case r of
     [a, b, c] \<Rightarrow> (let h = h + load_le [a, b]; h = h XOR push_bit 16 h;
                      h = h XOR push_bit 18 (ext c) in h + drop_bit 11 h)
   | [a, b] \<Rightarrow> (let h = h + load_le [a, b]; h = h XOR push_bit 11 h in h + drop_bit 17 h)
   | [a] \<Rightarrow> (let h = h + ext a; h = h XOR push_bit 10 h in h + drop_bit 1 h)
   | _ \<Rightarrow> h)"

definition sfh_finish :: "culong \<Rightarrow> culong" where
  "sfh_finish h =
     (let h = h XOR push_bit 3 h; h = h + drop_bit 5 h; h = h XOR push_bit 4 h;
          h = h + drop_bit 17 h; h = h XOR push_bit 25 h in h + drop_bit 6 h)"

definition sfh_with :: "(byte \<Rightarrow> culong) \<Rightarrow> byte list \<Rightarrow> culong" where
  "sfh_with ext key =
     (let n = length key div 4;
          h = foldl (\<lambda>h i. sfh_round h (take 4 (drop (4 * i) key))) (of_nat (length key)) [0..<n]
      in sfh_finish (sfh_rest ext h (drop (4 * n) key)))"

definition hash_sfh :: "byte list \<Rightarrow> culong" where "hash_sfh key = sfh_with uchar key"

text \<open>The mixing step of the two \<open>hsh1113\<close> functions, on the pair of \<open>state\<close> and \<open>h\<close>.\<close>

definition rotl32 :: "nat \<Rightarrow> culong \<Rightarrow> culong" where
  "rotl32 n w = push_bit n w OR drop_bit (32 - n) w"

definition mix1113 :: "culong \<times> culong \<Rightarrow> culong \<times> culong" where
  "mix1113 sh = (case sh of (state, h) \<Rightarrow>
     (let state = rotl32 11 state; h = rotl32 13 h XOR state;
          h = rotl32 (unat (state AND 0x1F)) h;
          state = rotl32 (unat (h AND 0x1F)) state
      in (state, h)))"

definition hash_hsh1113_8bits :: "byte list \<Rightarrow> culong" where
  "hash_hsh1113_8bits key =
     snd (foldl (\<lambda>(state, h) k. (mix1113 ^^ 7) (state, h XOR uchar k)) (0x40490FDB, 0) key)"

text \<open>The loop eats eight bytes as long as more than eight are left; the rest is what the
  last two bits of the length say, which may be less than what is left.\<close>

function hsh1113_words :: "culong \<times> culong \<Rightarrow> byte list \<Rightarrow> (culong \<times> culong) \<times> byte list" where
  "hsh1113_words sh key =
     (if length key > 8
      then hsh1113_words ((mix1113 ^^ 31) (fst sh, snd sh XOR load_le (take 8 key))) (drop 8 key)
      else (sh, key))"
  by pat_completeness auto
termination by (relation "measure (\<lambda>(sh, key). length key)") auto

declare hsh1113_words.simps [simp del]

definition hash_hsh1113_32bits :: "byte list \<Rightarrow> culong" where
  "hash_hsh1113_32bits key =
     (let ((state, h), rest) = hsh1113_words (0x40490FDB, 0) key; rem = length key mod 4
      in if rem = 0 then h
         else snd ((mix1113 ^^ 31) (state, h XOR load_le (take rem rest))))"

text \<open>The loop of \<open>hash_ethz\<close> counts \<open>keylen\<close> up: it runs past the end of the key.\<close>

function hash_ethz_loop :: "byte list \<Rightarrow> culong \<Rightarrow> nat \<Rightarrow> culong \<Rightarrow> fault + culong" where
  "hash_ethz_loop key h i keylen =
     (if keylen = 0 then Inr h
      else bnd (at key i) (\<lambda>k. hash_ethz_loop key (ethz_step h (uchar k)) (i + 1) (keylen + 1)))"
  by pat_completeness auto
termination by (relation "measure (\<lambda>(key, h, i, keylen). length key - i)") (auto simp: at_eq_Inr)

declare hash_ethz_loop.simps [simp del]

definition hash_ethz :: "byte list \<Rightarrow> fault + culong" where
  "hash_ethz key = hash_ethz_loop key 0 0 (of_nat (length key))"

definition randbox :: "culong list" where
  "randbox = [0x49848f1b, 0xe6255dba, 0x36da5bdc, 0x47bf94e9,
    0x8cbcce22, 0x559fc06a, 0xd268f536, 0xe10af79a,
    0xc1af4d69, 0x1d2917b5, 0xec4c304d, 0x9ee5016c,
    0x69232f74, 0xfead7bb3, 0xe9089ab6, 0xf012f6ae]"

definition kazlib_step :: "culong \<Rightarrow> culong \<Rightarrow> culong" where
  "kazlib_step h k =
     (let h = h XOR randbox ! unat ((k + h) AND 0xf);
          h = (push_bit 1 h OR drop_bit 31 h) AND 0xffffffff;
          h = h XOR randbox ! unat ((drop_bit 4 k + h) AND 0xf)
      in (push_bit 2 h OR drop_bit 30 h) AND 0xffffffff)"

definition hash_kazlib where "hash_kazlib = over_bytes kazlib_step 0"

section \<open>Keys that are C strings\<close>

definition strhash_pjw where "strhash_pjw = over_chars (pjw_step 28) 0"
definition strhash_pjw_typo where "strhash_pjw_typo = over_chars (pjw_step 24) 0"
definition strhash_pow where "strhash_pow = over_chars pow_step 0"
definition strhash_x65599 where "strhash_x65599 = over_chars x65599_step 0"
definition strhash_x65599_opt where "strhash_x65599_opt = over_chars x65599_opt_step 0"
definition strhash_quad :: "byte list \<Rightarrow> culong" where "strhash_quad key = quad_sum key"
definition strhash_rs :: "byte list \<Rightarrow> culong" where
  "strhash_rs key = fst (foldl rs_step (0, 63689) (map schar key))"
definition strhash_ptr :: "culong \<Rightarrow> culong" where "strhash_ptr address = address"
definition strhash_jglbr :: "culong \<Rightarrow> culong" where
  "strhash_jglbr address = snd ((jglbr_round ^^ 63) (address, 0))"
definition strhash_elf where "strhash_elf = over_chars elf_step 0"
definition strhash_gcc295_cpp where "strhash_gcc295_cpp = over_chars gcc295_step 0"
definition strhash_bkdr where "strhash_bkdr = over_chars bkdr_step 0"
definition strhash_djb where "strhash_djb = over_chars djb_step 5381"
definition strhash_dk :: "byte list \<Rightarrow> culong" where
  "strhash_dk key = over_chars dk_step (of_nat (length key)) key"

text \<open>Here the parity is that of the number of characters that were read.\<close>

fun strhash_ap_loop :: "nat \<Rightarrow> culong \<Rightarrow> byte list \<Rightarrow> culong" where
  "strhash_ap_loop i h [] = h"
| "strhash_ap_loop i h (k # ks) = strhash_ap_loop (i + 1) (ap_step (even i) h (schar k)) ks"

definition strhash_ap :: "byte list \<Rightarrow> culong" where "strhash_ap key = strhash_ap_loop 0 0 key"
definition strhash_sfh :: "byte list \<Rightarrow> culong" where "strhash_sfh key = sfh_with schar key"
definition strhash_rz where "strhash_rz = over_chars rz_step 0"
definition strhash_fnv0 where "strhash_fnv0 = over_chars (fnv1_step fnv_mult) 0"
definition strhash_fnv0_opt where "strhash_fnv0_opt = over_chars (fnv1_step fnv_shifts) 0"
definition strhash_fnv1 where "strhash_fnv1 = over_chars (fnv1_step fnv_mult) FNV1_INIT"
definition strhash_fnv1_opt where "strhash_fnv1_opt = over_chars (fnv1_step fnv_shifts) FNV1_INIT"
definition strhash_fnv1a where "strhash_fnv1a = over_chars (fnv1a_step fnv_mult) FNV1_INIT"
definition strhash_fnv1a_opt where
  "strhash_fnv1a_opt = over_chars (fnv1a_step fnv_shifts) FNV1_INIT"
definition strhash_lcg32dk where "strhash_lcg32dk = over_chars lcg_step 0"
definition strhash_rot13 where "strhash_rot13 = over_chars rot13_step 0"
definition strhash_oat :: "byte list \<Rightarrow> culong" where
  "strhash_oat key = oat_end (over_chars oat_step 0 key)"
definition strhash_ethz where "strhash_ethz = over_chars ethz_step 0"
definition strhash_kazlib where "strhash_kazlib = over_bytes kazlib_step 0"

definition objhash_pjw where "objhash_pjw = over_chars (pjw_step 24) 0"

end
