(* ===== verification/Hash_Table.thy ===== *)
theory Hash_Table
  imports Hash_Funcs
begin

text \<open>
  The chained hash tables of \<open>src/util/hash.c\<close>, \<open>src/util/strhash.c\<close> and
  \<open>src/util/objhash.c\<close>.  The three files have the same code for three kinds of keys: a block
  of bytes with its length, a C string, and an object with a comparison function.  The
  operations are written once, over the hash function and the comparison, and instantiated
  as in the three files.  A chain is the list of its elements, the head first; \<open>size\<close> is the
  number of chains.  Data pointers are not \<open>NULL\<close>.  \<open>hash_resize\<close>, which relinks the
  elements in place, is modelled on the links.
\<close>

section \<open>Tables\<close>

record ('k, 'v) htab =
  htable :: "('k \<times> 'v) list list"
  elmts :: int

definition tab_new :: "nat \<Rightarrow> ('k, 'v) htab" where
  "tab_new hsize = \<lparr>htable = replicate hsize [], elmts = 0\<rparr>"

text \<open>The index \<open>hash(key) % size\<close>.\<close>

definition tab_slot :: "('k \<Rightarrow> culong) \<Rightarrow> ('k, 'v) htab \<Rightarrow> 'k \<Rightarrow> fault + nat" where
  "tab_slot hash h key =
     (if htable h = [] then Inl SigFpe else Inr (unat (hash key) mod length (htable h)))"

text \<open>The searches along a chain: the data, the data replaced, the element unlinked.\<close>

fun chain_find :: "('k \<Rightarrow> 'k \<Rightarrow> bool) \<Rightarrow> 'k \<Rightarrow> ('k \<times> 'v) list \<Rightarrow> 'v option" where
  "chain_find eq key [] = None"
| "chain_find eq key ((k, d) # es) = (if eq key k then Some d else chain_find eq key es)"

fun chain_update :: "('k \<Rightarrow> 'k \<Rightarrow> bool) \<Rightarrow> 'v \<Rightarrow> 'k \<Rightarrow> ('k \<times> 'v) list \<Rightarrow> ('k \<times> 'v) list" where
  "chain_update eq new key [] = []"
| "chain_update eq new key ((k, d) # es) =
     (if eq key k then (k, new) # es else (k, d) # chain_update eq new key es)"

fun chain_unlink :: "('k \<Rightarrow> 'k \<Rightarrow> bool) \<Rightarrow> 'k \<Rightarrow> ('k \<times> 'v) list \<Rightarrow> ('k \<times> 'v) list" where
  "chain_unlink eq key [] = []"
| "chain_unlink eq key ((k, d) # es) = (if eq key k then es else (k, d) # chain_unlink eq key es)"

definition link_front :: "nat \<Rightarrow> 'k \<Rightarrow> 'v \<Rightarrow> ('k, 'v) htab \<Rightarrow> ('k, 'v) htab" where
  "link_front i key data h =
     h\<lparr>htable := (htable h)[i := (key, data) # htable h ! i], elmts := elmts h + 1\<rparr>"

definition tab_add :: "('k \<Rightarrow> culong) \<Rightarrow> ('k, 'v) htab \<Rightarrow> 'v \<Rightarrow> 'k \<Rightarrow> fault + ('k, 'v) htab" where
  "tab_add hash h data key = bnd (tab_slot hash h key) (\<lambda>i. Inr (link_front i key data h))"

definition tab_get ::
  "('k \<Rightarrow> culong) \<Rightarrow> ('k \<Rightarrow> 'k \<Rightarrow> bool) \<Rightarrow> ('k, 'v) htab \<Rightarrow> 'k \<Rightarrow> fault + 'v option" where
  "tab_get hash eq h key =
     bnd (tab_slot hash h key) (\<lambda>i. Inr (chain_find eq key (htable h ! i)))"

definition tab_check_and_add ::
  "('k \<Rightarrow> culong) \<Rightarrow> ('k \<Rightarrow> 'k \<Rightarrow> bool) \<Rightarrow> ('k, 'v) htab \<Rightarrow> 'v \<Rightarrow> 'k \<Rightarrow>
   fault + 'v option \<times> ('k, 'v) htab" where
  "tab_check_and_add hash eq h data key =
     bnd (tab_slot hash h key) (\<lambda>i. case chain_find eq key (htable h ! i) of
         Some old \<Rightarrow> Inr (Some old, h)
       | None \<Rightarrow> Inr (None, link_front i key data h))"

definition tab_update ::
  "('k \<Rightarrow> culong) \<Rightarrow> ('k \<Rightarrow> 'k \<Rightarrow> bool) \<Rightarrow> ('k, 'v) htab \<Rightarrow> 'v \<Rightarrow> 'k \<Rightarrow>
   fault + 'v option \<times> ('k, 'v) htab" where
  "tab_update hash eq h new key =
     bnd (tab_slot hash h key) (\<lambda>i. case chain_find eq key (htable h ! i) of
         Some old \<Rightarrow> Inr (Some old,
           h\<lparr>htable := (htable h)[i := chain_update eq new key (htable h ! i)]\<rparr>)
       | None \<Rightarrow> Inr (None, h))"

definition tab_update_or_add ::
  "('k \<Rightarrow> culong) \<Rightarrow> ('k \<Rightarrow> 'k \<Rightarrow> bool) \<Rightarrow> ('k, 'v) htab \<Rightarrow> 'v \<Rightarrow> 'k \<Rightarrow>
   fault + 'v option \<times> ('k, 'v) htab" where
  "tab_update_or_add hash eq h new key =
     bnd (tab_slot hash h key) (\<lambda>i. case chain_find eq key (htable h ! i) of
         Some old \<Rightarrow> Inr (Some old,
           h\<lparr>htable := (htable h)[i := chain_update eq new key (htable h ! i)]\<rparr>)
       | None \<Rightarrow> Inr (None, link_front i key new h))"

text \<open>The element is unlinked, but \<open>elmts\<close> is not decremented.\<close>

definition tab_del ::
  "('k \<Rightarrow> culong) \<Rightarrow> ('k \<Rightarrow> 'k \<Rightarrow> bool) \<Rightarrow> ('k, 'v) htab \<Rightarrow> 'k \<Rightarrow>
   fault + 'v option \<times> ('k, 'v) htab" where
  "tab_del hash eq h key =
     bnd (tab_slot hash h key) (\<lambda>i. case chain_find eq key (htable h ! i) of
         Some old \<Rightarrow> Inr (Some old,
           h\<lparr>htable := (htable h)[i := chain_unlink eq key (htable h ! i)]\<rparr>)
       | None \<Rightarrow> Inr (None, h))"

definition tab_clear :: "('k, 'v) htab \<Rightarrow> ('k, 'v) htab" where
  "tab_clear h = h\<lparr>elmts := 0, htable := replicate (length (htable h)) []\<rparr>"

text \<open>The elements in the order of a walk.\<close>

definition tab_elements :: "('k, 'v) htab \<Rightarrow> ('k \<times> 'v) list" where
  "tab_elements h = concat (htable h)"

text \<open>The array has \<open>elmts\<close> entries, of which the first ones are filled; an entry that is not
  filled is \<open>None\<close>.  More elements than entries would be written behind the array.\<close>

definition tab_to_array :: "('k, 'v) htab \<Rightarrow> fault + 'v option list" where
  "tab_to_array h =
     (let ds = map snd (tab_elements h)
      in if int (length ds) \<le> elmts h
         then Inr (map Some ds @ replicate (nat (elmts h) - length ds) None)
         else Inl OutOfBounds)"

text \<open>A walk stops at the first status that is not zero; the walker has a state.\<close>

fun walk_elements :: "('v \<Rightarrow> 's \<Rightarrow> int \<times> 's) \<Rightarrow> ('k \<times> 'v) list \<Rightarrow> 's \<Rightarrow> int \<times> 's" where
  "walk_elements f [] s = (0, s)"
| "walk_elements f ((k, d) # es) s =
     (let (status, s') = f d s in if status \<noteq> 0 then (status, s') else walk_elements f es s')"

definition tab_walk :: "('k, 'v) htab \<Rightarrow> ('v \<Rightarrow> 's \<Rightarrow> int \<times> 's) \<Rightarrow> 's \<Rightarrow> int \<times> 's" where
  "tab_walk h f s = walk_elements f (tab_elements h) s"

text \<open>The elements that have a next element.\<close>

definition tab_collide_count :: "('k, 'v) htab \<Rightarrow> nat" where
  "tab_collide_count h = sum_list (map (\<lambda>es. length es - 1) (htable h))"

text \<open>A clone adds the elements one by one to a new table.\<close>

fun add_clones ::
  "('k \<Rightarrow> culong) \<Rightarrow> ('v \<Rightarrow> 'v) \<Rightarrow> ('k \<times> 'v) list \<Rightarrow> ('k, 'v) htab \<Rightarrow> fault + ('k, 'v) htab" where
  "add_clones hash clone [] h = Inr h"
| "add_clones hash clone ((k, d) # es) h =
     bnd (tab_add hash h (clone d) k) (add_clones hash clone es)"

definition tab_clone ::
  "('k \<Rightarrow> culong) \<Rightarrow> ('k, 'v) htab \<Rightarrow> ('v \<Rightarrow> 'v) option \<Rightarrow> fault + ('k, 'v) htab option" where
  "tab_clone hash h clone = (case clone of None \<Rightarrow> Inr None
     | Some f \<Rightarrow> bnd (add_clones hash f (tab_elements h) (tab_new (length (htable h))))
                  (\<lambda>h'. Inr (Some h')))"

section \<open>Blocks of bytes: \<open>hash.c\<close>\<close>

type_synonym 'v hash = "(byte list, 'v) htab"

text \<open>\<open>keylen == elmt->keylen && !memcmp(key, elmt->key, keylen)\<close>\<close>

definition hash_eq :: "byte list \<Rightarrow> byte list \<Rightarrow> bool" where
  "hash_eq key k \<longleftrightarrow> length key = length k \<and> list_all2 (=) key k"

definition new_hash :: "nat \<Rightarrow> 'v hash" where "new_hash = tab_new"
definition clear_hash :: "'v hash \<Rightarrow> 'v hash" where "clear_hash = tab_clear"
definition hash_to_array :: "'v hash \<Rightarrow> fault + 'v option list" where "hash_to_array = tab_to_array"
definition hash_add :: "'v hash \<Rightarrow> 'v \<Rightarrow> byte list \<Rightarrow> fault + 'v hash" where
  "hash_add = tab_add hash_djb"
definition hash_check_and_add :: "'v hash \<Rightarrow> 'v \<Rightarrow> byte list \<Rightarrow> fault + 'v option \<times> 'v hash" where
  "hash_check_and_add = tab_check_and_add hash_djb hash_eq"
definition hash_update :: "'v hash \<Rightarrow> 'v \<Rightarrow> byte list \<Rightarrow> fault + 'v option \<times> 'v hash" where
  "hash_update = tab_update hash_djb hash_eq"
definition hash_update_or_add :: "'v hash \<Rightarrow> 'v \<Rightarrow> byte list \<Rightarrow> fault + 'v option \<times> 'v hash" where
  "hash_update_or_add = tab_update_or_add hash_djb hash_eq"
definition hash_del :: "'v hash \<Rightarrow> byte list \<Rightarrow> fault + 'v option \<times> 'v hash" where
  "hash_del = tab_del hash_djb hash_eq"
definition hash_get :: "'v hash \<Rightarrow> byte list \<Rightarrow> fault + 'v option" where
  "hash_get = tab_get hash_djb hash_eq"
definition hash_clone :: "'v hash \<Rightarrow> ('v \<Rightarrow> 'v) option \<Rightarrow> fault + 'v hash option" where
  "hash_clone = tab_clone hash_djb"
definition hash_walk :: "'v hash \<Rightarrow> ('v \<Rightarrow> 's \<Rightarrow> int \<times> 's) \<Rightarrow> 's \<Rightarrow> int \<times> 's" where
  "hash_walk = tab_walk"
definition hash_collide_count :: "'v hash \<Rightarrow> nat" where "hash_collide_count = tab_collide_count"

section \<open>C strings: \<open>strhash.c\<close>\<close>

type_synonym 'v strhash = "(byte list, 'v) htab"

text \<open>\<open>strcmp\<close> goes on while the characters are equal and not zero; a string is the list of
  its characters before the terminator.\<close>

fun strcmp_eq :: "byte list \<Rightarrow> byte list \<Rightarrow> bool" where
  "strcmp_eq [] [] = True"
| "strcmp_eq (a # as) (b # bs) = (a = b \<and> strcmp_eq as bs)"
| "strcmp_eq _ _ = False"

definition new_strhash :: "nat \<Rightarrow> 'v strhash" where "new_strhash = tab_new"
definition clear_strhash :: "'v strhash \<Rightarrow> 'v strhash" where "clear_strhash = tab_clear"
definition strhash_to_array :: "'v strhash \<Rightarrow> fault + 'v option list" where
  "strhash_to_array = tab_to_array"
definition strhash_add :: "'v strhash \<Rightarrow> 'v \<Rightarrow> byte list \<Rightarrow> fault + 'v strhash" where
  "strhash_add = tab_add strhash_djb"
definition strhash_check_and_add ::
  "'v strhash \<Rightarrow> 'v \<Rightarrow> byte list \<Rightarrow> fault + 'v option \<times> 'v strhash" where
  "strhash_check_and_add = tab_check_and_add strhash_djb strcmp_eq"
definition strhash_update :: "'v strhash \<Rightarrow> 'v \<Rightarrow> byte list \<Rightarrow> fault + 'v option \<times> 'v strhash" where
  "strhash_update = tab_update strhash_djb strcmp_eq"
definition strhash_update_or_add ::
  "'v strhash \<Rightarrow> 'v \<Rightarrow> byte list \<Rightarrow> fault + 'v option \<times> 'v strhash" where
  "strhash_update_or_add = tab_update_or_add strhash_djb strcmp_eq"
definition strhash_del :: "'v strhash \<Rightarrow> byte list \<Rightarrow> fault + 'v option \<times> 'v strhash" where
  "strhash_del = tab_del strhash_djb strcmp_eq"
definition strhash_get :: "'v strhash \<Rightarrow> byte list \<Rightarrow> fault + 'v option" where
  "strhash_get = tab_get strhash_djb strcmp_eq"
definition strhash_clone :: "'v strhash \<Rightarrow> ('v \<Rightarrow> 'v) option \<Rightarrow> fault + 'v strhash option" where
  "strhash_clone = tab_clone strhash_djb"
definition strhash_walk :: "'v strhash \<Rightarrow> ('v \<Rightarrow> 's \<Rightarrow> int \<times> 's) \<Rightarrow> 's \<Rightarrow> int \<times> 's" where
  "strhash_walk = tab_walk"
definition strhash_collide_count :: "'v strhash \<Rightarrow> nat" where
  "strhash_collide_count = tab_collide_count"

section \<open>Objects: \<open>objhash.c\<close>\<close>

text \<open>The hash function and the comparison are fields of the table, set by the owner.\<close>

record 'k objclass =
  obj_hash :: "'k \<Rightarrow> culong"
  obj_cmp :: "'k \<Rightarrow> 'k \<Rightarrow> bool"

definition new_objhash :: "nat \<Rightarrow> ('k, 'v) htab" where "new_objhash = tab_new"
definition objhash_add ::
  "'k objclass \<Rightarrow> ('k, 'v) htab \<Rightarrow> 'v \<Rightarrow> 'k \<Rightarrow> fault + ('k, 'v) htab" where
  "objhash_add c = tab_add (obj_hash c)"
definition objhash_del ::
  "'k objclass \<Rightarrow> ('k, 'v) htab \<Rightarrow> 'k \<Rightarrow> fault + 'v option \<times> ('k, 'v) htab" where
  "objhash_del c = tab_del (obj_hash c) (obj_cmp c)"
definition objhash_get :: "'k objclass \<Rightarrow> ('k, 'v) htab \<Rightarrow> 'k \<Rightarrow> fault + 'v option" where
  "objhash_get c = tab_get (obj_hash c) (obj_cmp c)"
definition objhash_walk :: "('k, 'v) htab \<Rightarrow> ('v \<Rightarrow> 's \<Rightarrow> int \<times> 's) \<Rightarrow> 's \<Rightarrow> int \<times> 's" where
  "objhash_walk = tab_walk"
definition objhash_collide_count :: "('k, 'v) htab \<Rightarrow> nat" where
  "objhash_collide_count = tab_collide_count"

text \<open>The default class: C strings.\<close>

definition objhash_cmp :: "byte list \<Rightarrow> byte list \<Rightarrow> bool" where "objhash_cmp = strcmp_eq"
definition string_class :: "byte list objclass" where
  "string_class = \<lparr>obj_hash = objhash_pjw, obj_cmp = objhash_cmp\<rparr>"

section \<open>Resizing\<close>

text \<open>
  The links of the elements: \<open>nxt\<close> of an address is the next element of its chain, \<open>heads\<close>
  the first elements.  The inner loop of \<open>hash_resize\<close> moves the element \<open>tmp\<close> to the front
  of its new chain and then goes on with \<open>tmp->next\<close>, which is now a link of the new table.
  \<open>code\<close> gives the index in the new table.  Not returning is \<open>None\<close>.
\<close>

partial_function (option) relink ::
  "(nat \<Rightarrow> nat) \<Rightarrow> nat option \<Rightarrow> nat option list \<Rightarrow> (nat \<Rightarrow> nat option) \<Rightarrow>
   (nat option list \<times> (nat \<Rightarrow> nat option)) option" where
  "relink code tmp heads nxt = (case tmp of None \<Rightarrow> Some (heads, nxt)
     | Some a \<Rightarrow>
        (let nxt = nxt(a := heads ! code a); heads = heads[code a := Some a]
         in relink code (nxt a) heads nxt))"

fun resize_chains ::
  "(nat \<Rightarrow> nat) \<Rightarrow> nat option list \<Rightarrow> nat option list \<Rightarrow> (nat \<Rightarrow> nat option) \<Rightarrow>
   (nat option list \<times> (nat \<Rightarrow> nat option)) option" where
  "resize_chains code [] heads nxt = Some (heads, nxt)"
| "resize_chains code (old # olds) heads nxt =
     (case relink code old heads nxt of None \<Rightarrow> None
      | Some (heads', nxt') \<Rightarrow> resize_chains code olds heads' nxt')"

definition hash_resize ::
  "(nat \<Rightarrow> nat) \<Rightarrow> nat option list \<Rightarrow> (nat \<Rightarrow> nat option) \<Rightarrow> nat \<Rightarrow>
   (nat option list \<times> (nat \<Rightarrow> nat option)) option" where
  "hash_resize code old_htable nxt newsize =
     resize_chains code old_htable (replicate newsize None) nxt"

definition strhash_resize where "strhash_resize = hash_resize"
definition objhash_resize where "objhash_resize = hash_resize"

end
