(* ===== verification/Sharedvars.thy ===== *)
theory Sharedvars
  imports Builtins Hash_Table
begin

text \<open>
  \<open>src/modules/mod_sharedvars.c\<close>: variables that the instances of all rules share.  They are clones, at addresses that
  a table of the module has under their names; the functions of rules set, get and delete them.  The global
  configuration of the module, its table and its size, is a record beside the machine.
\<close>

section \<open>The module\<close>

record sharedvars_config =
  hash_size :: cint
  vars_hash :: "nat strhash option"

definition DEFAULT_SHAREDVARS_HASH_SZ :: cint where "DEFAULT_SHAREDVARS_HASH_SZ = 262144"

text \<open>The table is \<open>NULL\<close> until \<open>sharedvars_postconfig\<close> makes the table.\<close>

definition sharedvars_preconfig :: sharedvars_config where
  "sharedvars_preconfig = \<lparr>hash_size = DEFAULT_SHAREDVARS_HASH_SZ, vars_hash = None\<rparr>"

definition set_hash_size :: "byte list \<Rightarrow> sharedvars_config \<Rightarrow> sharedvars_config" where
  "set_hash_size args cfg = cfg\<lparr>hash_size := c_atoi args\<rparr>"

text \<open>The size is passed as a \<open>size_t\<close>.\<close>

definition sharedvars_postconfig :: "sharedvars_config \<Rightarrow> sharedvars_config" where
  "sharedvars_postconfig cfg = cfg\<lparr>vars_hash := Some (new_strhash (unat (scast (hash_size cfg) :: culong)))\<rparr>"

section \<open>The functions\<close>

type_synonym shared_builtin = "ovm_ctx \<Rightarrow> sharedvars_config \<times> ovm \<Rightarrow> fault + sharedvars_config \<times> ovm"

definition the_vars :: "sharedvars_config \<Rightarrow> fault + nat strhash" where
  "the_vars cfg = (case vars_hash cfg of None \<Rightarrow> Inl NullDeref | Some h \<Rightarrow> Inr h)"

definition with_cfg :: "sharedvars_config \<Rightarrow> fault + ovm \<Rightarrow> fault + sharedvars_config \<times> ovm" where
  "with_cfg cfg r = bnd r (\<lambda>m. Inr (cfg, m))"

text \<open>The stored variable is cloned once more; a stored variable always has a type that can be cloned.\<close>

definition issdl_get_shared_var :: shared_builtin where
  "issdl_get_shared_var c st =
     (let (cfg, m) = st; (p, m) = pop m in
      bnd (deref m p) (\<lambda>varname. case vdata varname of
        VStr s \<Rightarrow>
          bnd (the_vars cfg) (\<lambda>h. bnd (strhash_get h (c_str s)) (\<lambda>r. case r of
            None \<Rightarrow> with_cfg cfg (push_return_false c m)
          | Some a \<Rightarrow>
              bnd (deref m (Some a)) (\<lambda>v. bnd (issdl_clone (vdata v)) (\<lambda>w. case w of
                None \<Rightarrow> Inl NullDeref
              | Some w \<Rightarrow> with_cfg cfg (push_new (w\<lparr>vflags := vflags w OR temp_flags\<rparr>) m)))))
      | _ \<Rightarrow> with_cfg cfg (push_return_false c m)))"

text \<open>With a parameter of another type nothing is pushed.\<close>

definition issdl_del_shared_var :: shared_builtin where
  "issdl_del_shared_var c st =
     (let (cfg, m) = st; (p, m) = pop m in
      bnd (deref m p) (\<lambda>varname. case vdata varname of
        VStr s \<Rightarrow>
          bnd (the_vars cfg) (\<lambda>h. bnd (strhash_del h (c_str s)) (\<lambda>(old, h).
          bnd (free_var old m) (\<lambda>m. with_cfg (cfg\<lparr>vars_hash := Some h\<rparr>) (push_return_true c m))))
      | _ \<Rightarrow> Inr (cfg, m)))"

text \<open>A value that cannot be cloned is \<open>NULL\<close> here; the flag of the clone is cleared without a test.\<close>

definition issdl_set_shared_var :: shared_builtin where
  "issdl_set_shared_var c st =
     (let (cfg, m) = st; (p, m) = pop m in
      bnd (deref m p) (\<lambda>varname. case vdata varname of
        VStr s \<Rightarrow>
          let (q, m) = pop m in
          bnd (deref m q) (\<lambda>v. bnd (issdl_clone (vdata v)) (\<lambda>w. case w of
            None \<Rightarrow> Inl NullDeref
          | Some w \<Rightarrow>
              let (a, m) = alloc (w\<lparr>vflags := vflags w AND NOT TYPE_CANFREE\<rparr>) m in
              bnd (the_vars cfg) (\<lambda>h. bnd (strhash_update_or_add h (the a) (c_str s)) (\<lambda>(old, h).
              bnd (free_var old m) (\<lambda>m. with_cfg (cfg\<lparr>vars_hash := Some h\<rparr>) (push_return_true c m))))))
      | _ \<Rightarrow> with_cfg cfg (push_return_false c m)))"

text \<open>What \<open>sharedvars_preconfig\<close> registers: the functions with their names and numbers of arguments.\<close>

definition sharedvars_functions :: "(string \<times> nat \<times> shared_builtin) list" where
  "sharedvars_functions = [(''set_shared_var'', 2, issdl_set_shared_var), (''get_shared_var'', 1, issdl_get_shared_var),
     (''del_shared_var'', 1, issdl_del_shared_var)]"

end
