(* ===== verification/Builtins_Laws.thy ===== *)
theory Builtins_Laws
  imports Builtins
begin

text \<open>
  Properties of the built-in functions: they keep the contract of the machine, numbers survive the
  way to a string and back, and the distances count bits and bytes.
\<close>

section \<open>The contract\<close>

lemma well_behavedI: "(\<And>m m'. f m = Inr m' \<Longrightarrow> evolves m m') \<Longrightarrow> well_behaved f"
  by (simp add: well_behaved_def)

lemma evolves_push_new: "push_new v m = Inr m' \<Longrightarrow> evolves m m'"
  by (auto simp: push_new_def split: prod.splits dest!: evolves_alloc evolves_push intro: evolves_trans)

lemma evolves_push_return:
  "push_return_true c m = Inr m' \<Longrightarrow> evolves m m'"
  "push_return_false c m = Inr m' \<Longrightarrow> evolves m m'"
  by (auto simp: push_return_true_def push_return_false_def dest: evolves_push)

lemmas evolves_parts = evolves_push_new evolves_push_return evolves_free_if_needed evolves_free_if_not_bound

text \<open>A function that pops one argument and then works on the machine that is left.\<close>

lemma pop_well_behaved:
  assumes "\<And>p m m'. g p m = Inr m' \<Longrightarrow> evolves m m'"
  shows "well_behaved (\<lambda>m. let (p, m) = pop m in g p m)"
proof (rule well_behavedI)
  fix m m'
  obtain p m1 where p: "pop m = (p, m1)" by (cases "pop m")
  assume "(let (p, m) = pop m in g p m) = Inr m'"
  with p have "g p m1 = Inr m'" by simp
  with assms evolves_pop [OF p] show "evolves m m'" by (blast intro: evolves_trans)
qed

lemma pop2_well_behaved:
  assumes "\<And>p q m m'. g p q m = Inr m' \<Longrightarrow> evolves m m'"
  shows "well_behaved (\<lambda>m. let (p, m) = pop m; (q, m) = pop m in g p q m)"
proof (rule pop_well_behaved)
  fix p m m'
  assume "(let (q, m) = pop m in g p q m) = Inr m'"
  with pop_well_behaved [of "g p"] assms show "evolves m m'" by (simp add: well_behaved_def)
qed

lemma push_well_behaved: "well_behaved (push_return_true c)" "well_behaved (push_return_false c)"
  by (auto intro: well_behavedI evolves_push_return)

lemma deref_step:
  assumes "bnd (deref m p) g = Inr m'" and "\<And>v. g v = Inr m' \<Longrightarrow> evolves m m'"
  shows "evolves m m'"
  using assms by auto

lemma push_new_then_free:
  "bnd (push_new v m) (free_if_not_bound p) = Inr m' \<Longrightarrow> evolves m m'"
  "bnd (push_new v m) (free_if_needed p) = Inr m' \<Longrightarrow> evolves m m'"
  by (auto dest!: evolves_parts intro: evolves_trans)

lemma event_well_behaved:
  "well_behaved (\<lambda>m. fst (issdl_drop_event h c m))"
  "well_behaved (\<lambda>m. fst (issdl_set_event_level h c m))"
proof -
  show "well_behaved (\<lambda>m. fst (issdl_drop_event h c m))"
    by (rule well_behavedI) (auto simp: issdl_drop_event_def split: if_splits dest: evolves_push_return)
  let ?g = "\<lambda>p m. if \<not> h then push_return_false c m
      else bnd (bnd (deref m p) (\<lambda>v. Inr (level_of (vdata v))))
        (\<lambda>i. if i = None then push_return_false c m else push_return_true c m)"
  have "well_behaved (\<lambda>m. let (p, m) = pop m in ?g p m)"
    by (rule pop_well_behaved) (auto split: if_splits dest: evolves_push_return)
  moreover have "(\<lambda>m. fst (issdl_set_event_level h c m)) = (\<lambda>m. let (p, m) = pop m in ?g p m)"
    by (simp add: issdl_set_event_level_def Let_def fun_eq_iff split: prod.splits)
  ultimately show "well_behaved (\<lambda>m. fst (issdl_set_event_level h c m))" by simp
qed

lemma look_well_behaved:
  "well_behaved (issdl_print c)" "well_behaved (issdl_system c)" "well_behaved (issdl_defined c)"
  unfolding issdl_print_def issdl_system_def issdl_defined_def
  by (rule pop_well_behaved; auto simp del: is_null.simps split: if_splits dest: evolves_push_return)+

lemma conversion_well_behaved:
  "well_behaved (issdl_str_from_int c)" "well_behaved (issdl_str_from_ipv4 c)" "well_behaved (issdl_int_from_str c)"
  "well_behaved (issdl_vstr_from_regex c)" "well_behaved (issdl_str_from_regex c)" "well_behaved (issdl_str_from_time l c)"
  unfolding issdl_str_from_int_def issdl_str_from_ipv4_def issdl_int_from_str_def
    issdl_vstr_from_regex_def issdl_str_from_regex_def issdl_str_from_time_def
  by (rule pop_well_behaved, erule deref_step,
      fastforce simp del: bnd_eq_Inr split: ovm_data.splits intro: push_new_then_free evolves_push_return)+

lemma dist_well_behaved: "well_behaved (issdl_dist dist c)"
  unfolding issdl_dist_def
proof (rule pop2_well_behaved, erule deref_step, erule deref_step)
  fix p q m m' v w
  assume "bnd (if type_id (vdata v) \<noteq> type_id (vdata w) \<or> issdl_get_data_len (vdata v) \<noteq> issdl_get_data_len (vdata w)
           then Inr m
           else push_new \<lparr>vdata = VInt (of_nat (dist (block_of (vdata v)) (block_of (vdata w)))), vflags = temp_flags\<rparr> m)
        (\<lambda>m. bnd (free_if_needed p m) (\<lambda>m. free_if_needed q m)) = Inr m'"
  then obtain m1 m2 where "m1 = m \<or> (\<exists>x. push_new x m = Inr m1)" "free_if_needed p m1 = Inr m2"
    "free_if_needed q m2 = Inr m'" by (auto split: if_splits)
  then show "evolves m m'" by (auto dest!: evolves_parts intro: evolves_trans)
qed

lemma difftime_well_behaved: "well_behaved (issdl_difftime l c)"
  unfolding issdl_difftime_def
  by (rule pop2_well_behaved, erule deref_step, erule deref_step) (auto split: if_splits dest: evolves_parts)

lemma no_argument_well_behaved:
  "well_behaved (issdl_noop c)" "well_behaved (issdl_random l c)" "well_behaved (issdl_dumpstack b c)"
  "well_behaved (issdl_report b c)" "well_behaved (issdl_printevent c)" "well_behaved (issdl_dumppathtree c)"
  "well_behaved (issdl_stats c)"
  by (auto intro!: well_behavedI simp: issdl_noop_def issdl_random_def issdl_dumpstack_def issdl_report_def
      issdl_printevent_def issdl_dumppathtree_def issdl_stats_def split: if_splits dest: evolves_parts)

lemma evolves_compile: "compile_regex l s m = Inr m' \<Longrightarrow> evolves m m'"
  by (auto simp: compile_regex_def split: option.splits dest: evolves_push_new)

lemma regex_well_behaved: "well_behaved (issdl_regex_from_str l c)"
  unfolding issdl_regex_from_str_def
proof (rule pop_well_behaved, erule deref_step)
  fix m m' v
  assume "(case vdata v of VStr s \<Rightarrow> compile_regex l s m | VVStr s \<Rightarrow> compile_regex l s m | _ \<Rightarrow> Inr m) = Inr m'"
  then show "evolves m m'" by (cases "vdata v") (simp_all add: evolves_compile)
qed

lemma after_pop: "pop m = (p, m1) \<Longrightarrow> evolves m1 m' \<Longrightarrow> evolves m m'"
  using evolves_pop evolves_trans by blast

text \<open>\<open>pastval\<close> takes two values and gives none.\<close>

lemma pastval_step: "(case vdata v of VStr str \<Rightarrow>
          (let i = length (takeWhile (\<lambda>name. \<not> strncmp_eq str name) (ep_var_names ep)) in
           if i = length (ep_var_names ep) then Inr m else bnd (ep_past_value ep i (n \<noteq> None)) (\<lambda>_. Inr m))
      | _ \<Rightarrow> Inl OutOfBounds) = Inr m' \<Longrightarrow> m' = m"
  by (cases "vdata v") (auto simp: Let_def split: if_splits)

lemma pastval_pushes_nothing:
  assumes "issdl_pastval ep c m = Inr m'"
  shows "m' = snd (pop (snd (pop m)))"
proof -
  obtain p m1 n m2 where p: "pop m = (p, m1)" "pop m1 = (n, m2)" by (metis prod.exhaust)
  with assms have "m' = m2" by (auto simp: issdl_pastval_def split: if_splits dest!: pastval_step)
  with p show ?thesis by simp
qed

lemma engine_well_behaved:
  "well_behaved (issdl_shutdown b c)" "well_behaved (machine_kill_threads ep c)" "well_behaved (machine_cut ep c)"
  "well_behaved (issdl_pastval ep c)" "well_behaved (issdl_sendmail c)" "well_behaved (issdl_sendmail_report c)"
proof -
  show "well_behaved (issdl_shutdown b c)" by (simp add: issdl_shutdown_def well_behaved_def)
  show "well_behaved (machine_kill_threads ep c)"
    by (rule well_behavedI) (auto simp: machine_kill_threads_def dest: evolves_push_return)
  show "well_behaved (machine_cut ep c)" unfolding machine_cut_def
  proof (rule pop_well_behaved, erule deref_step)
    fix m m' v
    assume "(case vdata v of VStr str \<Rightarrow> bnd (ep_cut ep str) (\<lambda>_. push_return_true c m) | _ \<Rightarrow> Inr m) = Inr m'"
    then show "evolves m m'" by (cases "vdata v") (auto dest: evolves_push_return)
  qed
  show "well_behaved (issdl_pastval ep c)" unfolding issdl_pastval_def
    by (rule pop2_well_behaved) (auto split: if_splits dest!: pastval_step)
  show "well_behaved (issdl_sendmail c)"
  proof (rule well_behavedI)
    fix m m'
    obtain p1 m1 p2 m2 p3 m3 p4 m4 where p: "pop m = (p1, m1)" "pop m1 = (p2, m2)" "pop m2 = (p3, m3)" "pop m3 = (p4, m4)"
      by (metis prod.exhaust)
    assume "issdl_sendmail c m = Inr m'"
    with p have "push_return_true c m4 = Inr m'" by (simp add: issdl_sendmail_def)
    then have "evolves m4 m'" by (rule evolves_push_return)
    from after_pop [OF p(1)] after_pop [OF p(2)] after_pop [OF p(3)] after_pop [OF p(4) this] show "evolves m m'" by blast
  qed
  show "well_behaved (issdl_sendmail_report c)"
    by (rule well_behavedI) (simp add: issdl_sendmail_report_def split: prod.splits)
qed

lemma core_well_behaved: "f \<in> set (issdl_function_g l b h ep c) \<Longrightarrow> well_behaved (fn_run f)"
  by (auto simp: issdl_function_g_def issdl_bindist_def issdl_bytedist_def event_well_behaved look_well_behaved
      conversion_well_behaved dist_well_behaved difftime_well_behaved no_argument_well_behaved regex_well_behaved
      engine_well_behaved)

text \<open>\<open>sendmail_report\<close> never returns.\<close>

lemma sendmail_report_faults: "\<exists>f. issdl_sendmail_report c m = Inl f"
  by (auto simp: issdl_sendmail_report_def bnd_def split: prod.splits sum.splits)

lemma register_appends: "register_core_functions l b h ep c tbl = tbl @ issdl_function_g l b h ep c"
proof -
  have "foldl register_lang_function tbl fs = tbl @ fs" for fs
    by (induction fs arbitrary: tbl) (simp_all add: register_lang_function_def)
  then show ?thesis by (simp add: register_core_functions_def)
qed

section \<open>Numbers and strings\<close>

lemma digit_plain: "is_digit b \<Longrightarrow> \<not> is_space b \<and> b \<noteq> 45 \<and> b \<noteq> 43"
  by (auto simp: is_digit_def is_space_def)

lemma strtol_print: "strtol10 (print_li w) = sint w"
proof (cases "sint w < 0")
  case True
  moreover have "\<not> is_space 45" by (simp add: is_space_def)
  ultimately show ?thesis by (simp add: print_li_def strtol10_def dec_digits_value)
next
  case False
  obtain b bs where b: "dec_digits (nat (sint w)) = b # bs" "is_digit b" using dec_digits_head by blast
  from False b digit_plain [OF b(2)] have "strtol10 (print_li w) = digits_value (dec_digits (nat (sint w)))"
    by (simp add: print_li_def strtol10_def)
  with False show ?thesis by (simp add: dec_digits_value)
qed

lemma atoi_print: "c_atoi (print_li w) = word_of_int (sint w)"
proof -
  have "- (2 ^ 63) \<le> sint w" "sint w \<le> 2 ^ 63 - 1" using sint_ge [of w] sint_lt [of w] by simp_all
  then show ?thesis by (simp add: c_atoi_def strtol_print)
qed

lemma word_of_sint: "(word_of_int (sint n) :: cint) = ucast n" for n :: clong
  by (rule bit_word_eqI) (simp add: bit_simps bit_word_ucast_iff)

lemma sint_low: "sint (ucast n :: cint) = signed_take_bit 31 (sint n)" for n :: clong
  by (rule bit_eqI) (simp add: bit_simps bit_sint_iff min_def)

lemma scast_ucast_small:
  fixes n :: clong
  assumes "- (2 ^ 31) \<le> sint n" and "sint n < 2 ^ 31"
  shows "scast (ucast n :: cint) = n"
proof -
  have "sint (ucast n :: cint) = sint n" using assms by (simp add: sint_low signed_take_bit_int_eq_self)
  then have "(scast (ucast n :: cint) :: clong) = word_of_int (sint n)" by (simp add: scast_eq)
  then show ?thesis by simp
qed

section \<open>Distances\<close>

definition bit_count :: "byte \<Rightarrow> nat" where
  "bit_count b = length (filter (\<lambda>i. bit b i) [0..<8])"

lemma bitcnt_tbl_counts: "bitcnt_tbl = map (\<lambda>n. bit_count (of_nat n)) [0..<256]"
  by code_simp

lemma bitcnt_byte: "bitcnt_tbl ! unat b = bit_count b"
proof -
  have "unat b < 256" using unsigned_less [of b, where ?'a = nat] by simp
  then show ?thesis by (simp add: bitcnt_tbl_counts)
qed

lemma bit_count_0: "bit_count b = 0 \<longleftrightarrow> b = 0"
proof
  assume "bit_count b = 0"
  then have "\<not> bit b i" if "i < 8" for i using that by (auto simp: bit_count_def filter_empty_conv)
  then show "b = 0" by (intro bit_word_eqI) simp
qed (simp add: bit_count_def)

lemma bit_count_le: "bit_count b \<le> 8"
  unfolding bit_count_def by (rule order_trans [OF length_filter_le]) simp

lemma bit_distance_sum:
  "length as = length bs \<Longrightarrow> bit_distance as bs = (\<Sum>i < length as. bit_count (xor (as ! i) (bs ! i)))"
proof (induction as bs rule: list_induct2)
  case (Cons a as b bs)
  have "(\<Sum>i < Suc (length as). bit_count (xor ((a # as) ! i) ((b # bs) ! i))) =
      bit_count (xor a b) + (\<Sum>i < length as. bit_count (xor (as ! i) (bs ! i)))"
    by (simp only: sum.lessThan_Suc_shift) simp
  with Cons show ?case by (simp add: bitcnt_byte)
qed simp

lemma byte_distance_card:
  "length as = length bs \<Longrightarrow> byte_distance as bs = card {i. i < length as \<and> as ! i \<noteq> bs ! i}"
proof (induction as bs rule: list_induct2)
  case (Cons a as b bs)
  have "{i. i < Suc (length as) \<and> (a # as) ! i \<noteq> (b # bs) ! i} =
      (if a \<noteq> b then {0} else {}) \<union> Suc ` {i. i < length as \<and> as ! i \<noteq> bs ! i}"
    by (auto simp: image_iff less_Suc_eq_0_disj nth_Cons')
  with Cons show ?case by (auto simp: card_image card_insert_if)
qed simp

lemma xor_zero_iff: "xor a b = 0 \<longleftrightarrow> a = b" for a b :: byte
proof
  assume "xor a b = 0"
  then have "xor (xor a b) b = b" by simp
  then show "a = b" by (simp add: xor.assoc)
qed simp

lemma byte_bit_distance:
  "length as = length bs \<Longrightarrow> byte_distance as bs \<le> bit_distance as bs \<and> bit_distance as bs \<le> 8 * byte_distance as bs"
proof (induction as bs rule: list_induct2)
  case (Cons a as b bs)
  have "0 < bit_count (xor a b) \<longleftrightarrow> a \<noteq> b" using bit_count_0 [of "xor a b"] xor_zero_iff [of a b] by auto
  then show ?case using Cons bit_count_le [of "xor a b"] by (auto simp: bitcnt_byte)
qed simp

section \<open>Properties\<close>

text \<open>
  Claim C21.  The built-in functions of the language keep the contract that the machine relies on:
  with the table of all 28 functions that \<open>register_core_functions\<close> makes, no program can free or change a variable
  that is not marked \<open>TYPE_CANFREE\<close>, and the invariant of the machine and the sizes of the
  environments are kept, whatever the engine and the C library answer.
\<close>

theorem core_functions_are_safe:
  assumes "vm_ok m"
    and "vm_func_tbl c = map fn_run (register_core_functions l in_rule has_event ep c' [])"
    and "ovm_exec fuel c code m = Some (Inr (ret, m'))"
  shows "vm_ok m' \<and> map_option length (current_env m') = map_option length (current_env m) \<and>
    (\<forall>a v. heap m a = Some v \<and> \<not> can_free_var v \<longrightarrow>
       (\<exists>v'. heap m' a = Some v' \<and> vdata v' = vdata v \<and> \<not> can_free_var v'))"
proof -
  have "\<forall>f \<in> set (vm_func_tbl c). well_behaved f"
    using core_well_behaved by (auto simp: assms(2) register_appends)
  from exec_evolves [OF assms(3) this] assms(1) show ?thesis unfolding evolves_def by blast
qed

definition sample_lib :: builtin_lib where
  "sample_lib = \<lparr>lib_rand = 0, lib_difftime = (\<lambda>t u. t - u), lib_strftime = (\<lambda>_. []), lib_regcomp = (\<lambda>_. Some 0)\<rparr>"

definition no_engine :: engine_parts where
  "no_engine = \<lparr>ep_kill_threads = Inr (), ep_cut = (\<lambda>_. Inr ()), ep_var_names = [], ep_past_value = (\<lambda>_ _. Inr ())\<rparr>"

definition core_ctx :: ovm_ctx where
  "core_ctx = idle_ctx\<lparr>vm_func_tbl := map fn_run (register_core_functions
     sample_lib True True no_engine idle_ctx [])\<rparr>"

text \<open>The expression \<open>random()\<close>: the call of function 9.\<close>

theorem core_functions_are_safe_witness:
  "\<exists>m'. ovm_exec (Suc (Suc 0)) core_ctx [7, 9, 0] (idle_vm bool_vars []) = Some (Inr (1, m')) \<and>
    vm_ok m' \<and> (\<exists>v. heap m' 0 = Some v \<and> vdata v = VInt 1)"
proof -
  have "\<exists>m'. ovm_exec (Suc (Suc 0)) core_ctx [7, 9, 0] (idle_vm bool_vars []) = Some (Inr (1, m'))"
    by (simp add: core_ctx_def sample_lib_def register_appends issdl_function_g_def issdl_random_def push_new_def alloc_def
        ovm_int_new_def run_simps ovm_call_def free_if_needed_def free_if_not_bound_def is_not_bound_def TYPE_CANFREE_def TYPE_NOTBOUND_def)
  then obtain m' where r: "ovm_exec (Suc (Suc 0)) core_ctx [7, 9, 0] (idle_vm bool_vars []) = Some (Inr (1, m'))" by blast
  have "heap (idle_vm bool_vars []) 0 = Some \<lparr>vdata = VInt 1, vflags = 0\<rparr>"
    "\<not> can_free_var \<lparr>vdata = VInt 1, vflags = 0\<rparr>"
    by (simp_all add: idle_vm_def bool_vars_def can_free_var_def)
  moreover have "vm_func_tbl core_ctx = map fn_run (register_core_functions
     sample_lib True True no_engine idle_ctx [])"
    by (simp add: core_ctx_def)
  ultimately show ?thesis using core_functions_are_safe [OF idle_vm_ok _ r] r by fastforce
qed

text \<open>
  Claim C38.  A number that is written to a string and read back is the number again: the result is
  a new variable with the low 32 bits of the number, sign-extended, which is the number itself when
  it fits an \<open>int\<close>.  The string is freed, the argument is freed when it was a temporary, and
  nothing else changes.
\<close>

theorem int_string_round_trip:
  assumes "vmst h k (Some a # st) ce ie m" and "h a = Some v" and "vdata v = VInt n" and "a < k"
  shows "\<exists>m1 m2. issdl_str_from_int c m = Inr m1 \<and> issdl_int_from_str c m1 = Inr m2 \<and>
    vmst ((drop_temp h (Some a))(k := None, Suc k \<mapsto> \<lparr>vdata = VInt (scast (ucast n :: cint)), vflags = 0\<rparr>))
      (Suc (Suc k)) (Some (Suc k) # st) ce ie m2 \<and>
    (- (2 ^ 31) \<le> sint n \<and> sint n < 2 ^ 31 \<longrightarrow> scast (ucast n :: cint) = n)"
proof -
  let ?s = "\<lparr>vdata = VStr (print_li n), vflags = temp_flags\<rparr>"
  let ?i = "\<lparr>vdata = VInt (scast (ucast n :: cint)), vflags = 0\<rparr> :: ovm_var"
  obtain m1 where m1: "pop m = (Some a, m1)" "vmst h k st ce ie m1" using vmst_pop [OF assms(1)] .
  obtain m2 where m2: "alloc ?s m1 = (Some k, m2)" "vmst (h(k \<mapsto> ?s)) (Suc k) st ce ie m2" using vmst_alloc [OF m1(2)] .
  obtain m3 where m3: "push (Some k) m2 = Inr m3" "vmst (h(k \<mapsto> ?s)) (Suc k) (Some k # st) ce ie m3"
    using vmst_push [OF m2(2)] .
  have "hdata (h(k \<mapsto> ?s)) (Some a) = Inr (Some (VInt n))" using assms(2-4) by (simp add: hdata_def)
  from vmst_free_if_not_bound [OF m3(2) this] obtain m4 where m4: "free_if_not_bound (Some a) m3 = Inr m4"
    "vmst (drop_temp (h(k \<mapsto> ?s)) (Some a)) (Suc k) (Some k # st) ce ie m4" .
  have drop: "drop_temp (h(k \<mapsto> ?s)) (Some a) = (drop_temp h (Some a))(k \<mapsto> ?s)"
    using assms(2,4) by (auto simp: drop_temp_def fun_eq_iff)
  have "deref m1 (Some a) = Inr v" using m1(2) assms(2) by (simp add: vmst_def deref_def)
  with m1(1) m2(1) m3(1) m4(1) assms(3) have first: "issdl_str_from_int c m = Inr m4"
    by (simp add: issdl_str_from_int_def push_new_def)
  let ?h = "(drop_temp h (Some a))(k \<mapsto> ?s)"
  obtain m5 where m5: "pop m4 = (Some k, m5)" "vmst ?h (Suc k) st ce ie m5" using vmst_pop [OF m4(2) [unfolded drop]] .
  obtain m6 where m6: "alloc ?i m5 = (Some (Suc k), m6)" "vmst (?h(Suc k \<mapsto> ?i)) (Suc (Suc k)) st ce ie m6"
    using vmst_alloc [OF m5(2)] .
  obtain m7 where m7: "push (Some (Suc k)) m6 = Inr m7" "vmst (?h(Suc k \<mapsto> ?i)) (Suc (Suc k)) (Some (Suc k) # st) ce ie m7"
    using vmst_push [OF m6(2)] .
  have "hdata (?h(Suc k \<mapsto> ?i)) (Some k) = Inr (Some (VStr (print_li n)))" by (simp add: hdata_def)
  from vmst_free_if_not_bound [OF m7(2) this] obtain m8 where m8: "free_if_not_bound (Some k) m7 = Inr m8"
    "vmst (drop_temp (?h(Suc k \<mapsto> ?i)) (Some k)) (Suc (Suc k)) (Some (Suc k) # st) ce ie m8" .
  have "is_not_bound ?s" by (simp add: is_not_bound_def temp_flags_def)
  then have drop2: "drop_temp (?h(Suc k \<mapsto> ?i)) (Some k) = (drop_temp h (Some a))(k := None, Suc k \<mapsto> ?i)"
    by (simp add: drop_temp_def fun_eq_iff)
  have deref: "deref m5 (Some k) = Inr ?s" using m5(2) by (simp add: vmst_def deref_def)
  have "(scast (c_atoi (print_li n)) :: clong) = scast (ucast n :: cint)"
    by (simp only: atoi_print word_of_sint)
  with deref m5(1) m6(1) m7(1) m8(1) have second: "issdl_int_from_str c m4 = Inr m8"
    by (simp add: issdl_int_from_str_def push_new_def ovm_int_new_def)
  have "scast (ucast n :: cint) = n" if "- (2 ^ 31) \<le> sint n" "sint n < 2 ^ 31"
    using that by (rule scast_ucast_small)
  with first second m8(2) [unfolded drop2] show ?thesis by blast
qed

text \<open>
  \<open>bitdist\<close> pushes the number of the bits in which two blocks of the same type and size
  differ, and \<open>bytedist\<close> the number of the bytes: the table of 256 entries has the number of ones
  of every byte.  The second is at most the first, which is at most eight times the second.
\<close>

lemma distances_count_differences:
  assumes "length as = length bs"
  shows "bit_distance as bs = card {(i, j). i < length as \<and> j < 8 \<and> bit (as ! i) j \<noteq> bit (bs ! i) j} \<and>
    byte_distance as bs = card {i. i < length as \<and> as ! i \<noteq> bs ! i} \<and>
    byte_distance as bs \<le> bit_distance as bs \<and> bit_distance as bs \<le> 8 * byte_distance as bs"
proof -
  have bits: "bit_count (xor a b) = card {j. j < 8 \<and> bit a j \<noteq> bit b j}" for a b :: byte
  proof -
    have "bit_count (xor a b) = card {j. j < 8 \<and> bit (xor a b) j}"
      unfolding bit_count_def by (subst length_filter_conv_card) (auto intro: arg_cong [where f = card])
    then show ?thesis by (simp add: bit_xor_iff)
  qed
  have "{(i, j). i < length as \<and> j < 8 \<and> bit (as ! i) j \<noteq> bit (bs ! i) j} =
      (SIGMA i : {..< length as}. {j. j < 8 \<and> bit (as ! i) j \<noteq> bit (bs ! i) j})" by auto
  then have "card {(i, j). i < length as \<and> j < 8 \<and> bit (as ! i) j \<noteq> bit (bs ! i) j} =
      (\<Sum>i < length as. bit_count (xor (as ! i) (bs ! i)))"
    by (simp only:) (subst card_SigmaI; simp add: bits)
  with byte_bit_distance [OF assms] bit_distance_sum [OF assms] byte_distance_card [OF assms] show ?thesis by simp
qed

lemma distances_count_differences_witness:
  "card {(i, j). i < length [5, 1 :: byte] \<and> j < 8 \<and> bit ([5, 1 :: byte] ! i) j \<noteq> bit ([6, 1 :: byte] ! i) j} = 2"
proof -
  have "bit_distance [5, 1] [6, 1] = 2" by (simp add: bitcnt_tbl_def)
  with distances_count_differences [of "[5, 1]" "[6, 1]"] show ?thesis by simp
qed

definition number_vm :: ovm where
  "number_vm = (idle_vm [\<lparr>vdata = VInt (- 7), vflags = 0\<rparr>] [])\<lparr>ovm_stack :=
     \<lparr>stk_pos = 0, stk_size = 1, stk_grow = 1, stk_data = [Some 0]\<rparr>\<rparr>"

theorem int_string_round_trip_witness:
  "\<exists>m1 m2. issdl_str_from_int idle_ctx number_vm = Inr m1 \<and> issdl_int_from_str idle_ctx m1 = Inr m2 \<and>
    heap m2 2 = Some \<lparr>vdata = VInt (- 7), vflags = 0\<rparr> \<and> heap m2 1 = None"
proof -
  let ?v = "\<lparr>vdata = VInt (- 7), vflags = 0\<rparr> :: ovm_var"
  have vm: "vmst (\<lambda>a. if a < 1 then Some ?v else None) 1 [Some 0] (Some []) None number_vm"
    by (simp add: vmst_def number_vm_def idle_vm_def stack_ok_def stack_list_def fun_eq_iff)
  from int_string_round_trip [OF vm, of ?v "- 7" idle_ctx] obtain m1 m2 where
    m: "issdl_str_from_int idle_ctx number_vm = Inr m1" "issdl_int_from_str idle_ctx m1 = Inr m2"
    "vmst ((drop_temp (\<lambda>a. if a < 1 then Some ?v else None) (Some 0))
        (1 := None, Suc 1 \<mapsto> \<lparr>vdata = VInt (scast (ucast (- 7 :: clong) :: cint)), vflags = 0\<rparr>))
      (Suc (Suc 1)) (Some (Suc 1) # []) (Some []) None m2" by auto
  then show ?thesis by (simp add: vmst_def)
qed

end
