(* ===== verification/Hash_Table_Laws.thy ===== *)
theory Hash_Table_Laws
  imports Hash_Table
begin

text \<open>
  What the tables promise.  \<open>dictionary\<close> is the interface that the other components rely on;
  \<open>table_keys\<close> is what the tables need from a hash function and a comparison, and it gives
  the interface.  The three kinds of tables are interpretations.  The last part is about the
  operations that do not keep their promises: the element count and the resizing.
\<close>

section \<open>The interface\<close>

locale dictionary =
  fixes ok :: "'t \<Rightarrow> bool"
    and same :: "'k \<Rightarrow> 'k \<Rightarrow> bool"
    and get :: "'t \<Rightarrow> 'k \<Rightarrow> fault + 'v option"
    and add :: "'t \<Rightarrow> 'v \<Rightarrow> 'k \<Rightarrow> fault + 't"
    and del :: "'t \<Rightarrow> 'k \<Rightarrow> fault + 'v option \<times> 't"
  assumes same_equiv: "equivp same"
    and get_total: "ok t \<Longrightarrow> \<exists>r. get t k = Inr r"
    and get_same: "ok t \<Longrightarrow> same k k' \<Longrightarrow> get t k = get t k'"
    and add_total: "ok t \<Longrightarrow> \<exists>t'. add t d k = Inr t'"
    and add_law: "ok t \<Longrightarrow> add t d k = Inr t' \<Longrightarrow>
      ok t' \<and> get t' k' = (if same k' k then Inr (Some d) else get t k')"
    and del_total: "ok t \<Longrightarrow> get t k = Inr r \<Longrightarrow> \<exists>t'. del t k = Inr (r, t')"
    and del_law: "ok t \<Longrightarrow> del t k = Inr (r, t') \<Longrightarrow>
      ok t' \<and> (\<not> same k' k \<longrightarrow> get t' k' = get t k')"
begin

text \<open>Adding bindings one after the other.\<close>

fun add_all :: "('k \<times> 'v) list \<Rightarrow> 't \<Rightarrow> fault + 't" where
  "add_all [] t = Inr t"
| "add_all ((k, d) # bs) t = bnd (add t d k) (add_all bs)"

lemma same_refl [simp]: "same k k"
  by (rule equivp_reflp [OF same_equiv])

lemma add_ok: "ok t \<Longrightarrow> add t d k = Inr t' \<Longrightarrow> ok t'"
  using add_law by blast

lemma get_add: "ok t \<Longrightarrow> add t d k = Inr t' \<Longrightarrow> get t' k' = (if same k' k then Inr (Some d) else get t k')"
  using add_law by blast

lemma find_snoc: "find P (xs @ [x]) = (case find P xs of Some y \<Rightarrow> Some y | None \<Rightarrow> if P x then Some x else None)"
  by (induction xs) auto

lemma add_all_total: "ok t \<Longrightarrow> \<exists>t'. add_all bs t = Inr t' \<and> ok t'"
proof (induction bs arbitrary: t)
  case (Cons b bs)
  obtain k d where b: "b = (k, d)" by fastforce
  from add_total [OF Cons.prems] obtain t1 where t1: "add t d k = Inr t1" by blast
  from Cons.IH [OF add_ok [OF Cons.prems t1]] show ?case by (simp add: b t1)
qed simp

text \<open>The last binding of a key is the one that is found.\<close>

lemma get_add_all:
  "ok t \<Longrightarrow> add_all bs t = Inr t' \<Longrightarrow>
   get t' k = (case find (\<lambda>b. same k (fst b)) (rev bs) of Some b \<Rightarrow> Inr (Some (snd b)) | None \<Rightarrow> get t k)"
proof (induction bs arbitrary: t)
  case (Cons b bs)
  obtain j d where b: "b = (j, d)" by fastforce
  from Cons.prems(2) obtain t1 where t1: "add t d j = Inr t1" "add_all bs t1 = Inr t'"
    by (auto simp: b)
  note ih = Cons.IH [OF add_ok [OF Cons.prems(1) t1(1)] t1(2)]
  show ?case
    by (cases "find (\<lambda>b. same k (fst b)) (rev bs)")
      (simp_all add: ih b find_snoc get_add [OF Cons.prems(1) t1(1)])
qed simp

end

section \<open>Chains\<close>

lemma chain_find_update:
  "chain_find eq key es \<noteq> None \<Longrightarrow> equivp eq \<Longrightarrow>
   chain_find eq k (chain_update eq new key es) = (if eq k key then Some new else chain_find eq k es)"
  by (induction eq key es rule: chain_find.induct)
    (auto split: if_splits dest: equivp_transp equivp_symp)

lemma chain_find_unlink:
  "equivp eq \<Longrightarrow> \<not> eq k key \<Longrightarrow> chain_find eq k (chain_unlink eq key es) = chain_find eq k es"
  by (induction eq key es rule: chain_find.induct) (auto dest: equivp_transp equivp_symp)

lemma chain_find_same:
  "equivp eq \<Longrightarrow> eq k k' \<Longrightarrow> chain_find eq k es = chain_find eq k' es"
  by (induction eq k es rule: chain_find.induct) (auto dest: equivp_transp equivp_symp)

lemma length_unlink:
  "chain_find eq key es \<noteq> None \<Longrightarrow> length es = Suc (length (chain_unlink eq key es))"
  by (induction eq key es rule: chain_find.induct) (auto split: if_splits)

section \<open>Tables give the interface\<close>

locale table_keys =
  fixes hash :: "'k \<Rightarrow> culong" and eq :: "'k \<Rightarrow> 'k \<Rightarrow> bool"
  assumes eq_equiv: "equivp eq"
    and eq_hash: "eq a b \<Longrightarrow> hash a = hash b"
begin

lemma slot_Inr: "htable h \<noteq> [] \<Longrightarrow> \<exists>i < length (htable h). tab_slot hash h k = Inr i"
  by (simp add: tab_slot_def)

lemma slot_same: "eq k k' \<Longrightarrow> tab_slot hash h k = tab_slot hash h k'"
  by (simp add: tab_slot_def eq_hash)

lemma slot_length: "length (htable h') = length (htable h) \<Longrightarrow> tab_slot hash h' k = tab_slot hash h k"
  by (auto simp: tab_slot_def)

lemma get_upd:
  assumes "tab_slot hash h k = Inr i" and "i < length (htable h)"
    and "htable h' = (htable h)[i := es]"
    and "\<And>k'. tab_slot hash h k' = Inr i \<Longrightarrow>
      chain_find eq k' es = (if eq k' k then r else chain_find eq k' (htable h ! i))"
  shows "tab_get hash eq h' k' = (if eq k' k then Inr r else tab_get hash eq h k')"
proof -
  have s: "tab_slot hash h' k' = tab_slot hash h k'" by (rule slot_length) (simp add: assms(3))
  have "eq k' k \<Longrightarrow> tab_slot hash h k' = Inr i" using assms(1) slot_same by metis
  with assms show ?thesis
    by (cases "tab_slot hash h k'") (auto simp: tab_get_def s nth_list_update)
qed

lemma get_link:
  assumes "tab_slot hash h k = Inr i" and "i < length (htable h)"
  shows "tab_get hash eq (link_front i k d h) k' = (if eq k' k then Inr (Some d) else tab_get hash eq h k')"
  by (rule get_upd [OF assms, where es = "(k, d) # htable h ! i"]) (simp_all add: link_front_def)

lemma get_unlink:
  assumes "tab_slot hash h k = Inr i" and "i < length (htable h)" and "\<not> eq k' k"
    and "htable h' = (htable h)[i := chain_unlink eq k (htable h ! i)]"
  shows "tab_get hash eq h' k' = tab_get hash eq h k'"
proof -
  have s: "tab_slot hash h' k' = tab_slot hash h k'" by (rule slot_length) (simp add: assms(4))
  with assms show ?thesis
    by (cases "tab_slot hash h k'")
      (auto simp: tab_get_def nth_list_update chain_find_unlink [OF eq_equiv])
qed

lemma get_update_or_add:
  assumes "htable h \<noteq> []" and "tab_update_or_add hash eq h d k = Inr (old, h')"
  shows "tab_get hash eq h k = Inr old \<and> htable h' \<noteq> [] \<and>
    tab_get hash eq h' k' = (if eq k' k then Inr (Some d) else tab_get hash eq h k')"
proof -
  from slot_Inr [OF assms(1)] obtain i where i: "tab_slot hash h k = Inr i" "i < length (htable h)"
    by blast
  show ?thesis
  proof (cases "chain_find eq k (htable h ! i)")
    case None
    with assms i have "h' = link_front i k d h" "old = None" by (auto simp: tab_update_or_add_def)
    with get_link [OF i] None i assms(1) show ?thesis
      by (simp add: tab_get_def [of _ _ h k] link_front_def)
  next
    case (Some o')
    with assms i have h': "h' = h\<lparr>htable := (htable h)[i := chain_update eq d k (htable h ! i)]\<rparr>"
      "old = Some o'" by (auto simp: tab_update_or_add_def)
    have "tab_get hash eq h' k' = (if eq k' k then Inr (Some d) else tab_get hash eq h k')"
      by (rule get_upd [OF i, where es = "chain_update eq d k (htable h ! i)"])
        (simp_all add: h' chain_find_update [OF _ eq_equiv] Some)
    with Some i assms(1) show ?thesis by (simp add: tab_get_def [of _ _ h k] h')
  qed
qed

sublocale dictionary "\<lambda>h. htable h \<noteq> []" eq "tab_get hash eq" "tab_add hash" "tab_del hash eq"
proof (unfold_locales, goal_cases)
  case 1 show ?case by (rule eq_equiv)
next
  case (2 t k) with slot_Inr [of t k] show ?case by (auto simp: tab_get_def)
next
  case (3 t k k')
  then show ?case
    by (simp add: tab_get_def slot_same [OF 3(2), of t] chain_find_same [OF eq_equiv 3(2)])
next
  case (4 t d k) with slot_Inr [of t k] show ?case by (auto simp: tab_add_def)
next
  case (5 t d k t' k')
  then obtain i where i: "tab_slot hash t k = Inr i" "i < length (htable t)" using slot_Inr by blast
  with 5 have "t' = link_front i k d t" by (simp add: tab_add_def)
  with get_link [OF i] 5 show ?case by (auto simp: link_front_def)
next
  case (6 t k r)
  then obtain i where "tab_slot hash t k = Inr i" using slot_Inr by blast
  with 6 show ?case by (auto simp: tab_get_def tab_del_def split: option.splits)
next
  case (7 t k r t' k')
  then obtain i where i: "tab_slot hash t k = Inr i" "i < length (htable t)" using slot_Inr by blast
  show ?case
  proof (cases "chain_find eq k (htable t ! i)")
    case None with 7 i show ?thesis by (simp add: tab_del_def)
  next
    case (Some d)
    with 7 i have "htable t' = (htable t)[i := chain_unlink eq k (htable t ! i)]"
      by (auto simp: tab_del_def)
    with get_unlink [OF i] 7(1) show ?thesis by auto
  qed
qed

text \<open>Deleting what was just added gives the old chains back, but not the old count.\<close>

lemma del_add:
  assumes "htable h \<noteq> []" and "tab_add hash h d k = Inr h'"
  shows "tab_del hash eq h' k = Inr (Some d, h\<lparr>elmts := elmts h + 1\<rparr>)"
proof -
  from slot_Inr [OF assms(1)] obtain i where i: "tab_slot hash h k = Inr i" "i < length (htable h)"
    by blast
  with assms have "h' = link_front i k d h" by (simp add: tab_add_def)
  moreover have "tab_slot hash h' k = Inr i" unfolding i(1) [symmetric]
    by (rule slot_length) (simp add: calculation link_front_def)
  ultimately show ?thesis using i by (simp add: tab_del_def link_front_def)
qed

end

section \<open>The three kinds of keys\<close>

lemma hash_eq_iff: "hash_eq = (=)"
  by (intro ext) (auto simp: hash_eq_def list.rel_eq)

lemma strcmp_eq_iff: "strcmp_eq = (=)"
proof (intro ext)
  fix a b show "strcmp_eq a b = (a = b)" by (induction a b rule: strcmp_eq.induct) auto
qed

interpretation blocks: table_keys hash_djb hash_eq
  by unfold_locales (simp_all add: hash_eq_iff identity_equivp)

interpretation strings: table_keys strhash_djb strcmp_eq
  by unfold_locales (simp_all add: strcmp_eq_iff identity_equivp)

interpretation objects: table_keys "obj_hash string_class" "obj_cmp string_class"
  by unfold_locales (simp_all add: string_class_def objhash_cmp_def strcmp_eq_iff identity_equivp)

section \<open>Elements and their number\<close>

definition tab_size :: "('k, 'v) htab \<Rightarrow> nat" where
  "tab_size h = length (tab_elements h)"

lemma length_concat_update:
  "i < length xss \<Longrightarrow> length (concat (xss[i := ys])) + length (xss ! i) = length (concat xss) + length ys"
proof (induction xss arbitrary: i)
  case (Cons xs xss)
  then show ?case by (cases i) auto
qed simp

lemma tab_size_add:
  assumes "tab_add hash h d k = Inr h'"
  shows "tab_size h' = Suc (tab_size h) \<and> elmts h' = elmts h + 1"
proof -
  from assms obtain i where i: "tab_slot hash h k = Inr i" "h' = link_front i k d h"
    by (auto simp: tab_add_def)
  then have "i < length (htable h)" by (auto simp: tab_slot_def split: if_splits)
  from length_concat_update [OF this, of "(k, d) # htable h ! i"] i(2) show ?thesis
    by (simp add: tab_size_def tab_elements_def link_front_def)
qed

lemma tab_size_del:
  assumes "tab_del hash eq h k = Inr (r, h')"
  shows "tab_size h = tab_size h' + (if r = None then 0 else 1) \<and> elmts h' = elmts h"
proof -
  from assms obtain i where i: "tab_slot hash h k = Inr i" by (auto simp: tab_del_def)
  then have len: "i < length (htable h)" by (auto simp: tab_slot_def split: if_splits)
  show ?thesis
  proof (cases "chain_find eq k (htable h ! i)")
    case None with assms i show ?thesis by (auto simp: tab_del_def)
  next
    case (Some d)
    with assms i have "h' = h\<lparr>htable := (htable h)[i := chain_unlink eq k (htable h ! i)]\<rparr>" "r = Some d"
      by (auto simp: tab_del_def)
    with length_unlink [of eq k "htable h ! i"] Some
      length_concat_update [OF len, of "chain_unlink eq k (htable h ! i)"]
    show ?thesis by (simp add: tab_size_def tab_elements_def)
  qed
qed

section \<open>Resizing\<close>

text \<open>Two elements of the same new chain chase each other.\<close>

lemma relink_cycle:
  assumes "relink code tmp heads nxt = Some r"
  shows "tmp = Some a \<Longrightarrow> code a < length heads \<Longrightarrow> heads ! code a = Some b \<Longrightarrow> code b = code a \<Longrightarrow> False"
  using assms
proof (induction arbitrary: a b rule: relink.raw_induct [rotated, consumes 1, case_names step])
  case (step self code tmp heads nxt r)
  from step(2-6) have r: "self code (Some b) (heads[code a := Some a]) (nxt(a := Some b)) = Some r"
    by (simp add: Let_def)
  show ?case
    using step(1) [OF r refl] step(4-6) by (metis length_list_update nth_list_update_eq)
qed

lemma relink_front:
  assumes "code a < length heads" and "heads ! code a = None"
  shows "relink code (Some a) heads nxt = Some (heads[code a := Some a], nxt(a := None))"
  using assms by (subst relink.simps, simp add: Let_def, subst relink.simps, simp)

lemma relink_diverges:
  assumes "code a < length heads" and "heads ! code a = Some b" and "code b = code a"
  shows "relink code (Some a) heads nxt = None"
  using relink_cycle [OF _ refl assms] by (cases "relink code (Some a) heads nxt") auto

text \<open>The first elements of the old chains.\<close>

definition firsts :: "nat option list \<Rightarrow> nat list" where
  "firsts olds = map the (filter (\<lambda>p. p \<noteq> None) olds)"

lemma firsts_simps [simp]:
  "firsts [] = []" "firsts (None # olds) = firsts olds" "firsts (Some a # olds) = a # firsts olds"
  by (simp_all add: firsts_def)

definition put_first :: "(nat \<Rightarrow> nat) \<Rightarrow> nat option list \<Rightarrow> nat \<Rightarrow> nat option list" where
  "put_first code heads a = heads[code a := Some a]"

lemma resize_chains_result:
  assumes "\<forall>a \<in> set (firsts olds). code a < length heads"
    and "\<And>i b. i < length heads \<Longrightarrow> heads ! i = Some b \<Longrightarrow> code b = i"
  shows "resize_chains code olds heads nxt =
    (if distinct (map code (firsts olds)) \<and> (\<forall>a \<in> set (firsts olds). heads ! code a = None)
     then Some (foldl (put_first code) heads (firsts olds), \<lambda>a. if a \<in> set (firsts olds) then None else nxt a)
     else None)"
  using assms
proof (induction olds arbitrary: heads nxt)
  case (Cons old olds)
  show ?case
  proof (cases old)
    case None
    then have "relink code old heads nxt = Some (heads, nxt)" by (subst relink.simps) simp
    with None Cons.IH Cons.prems show ?thesis by simp
  next
    case (Some a)
    with Cons.prems(1) have a: "code a < length heads" by simp
    show ?thesis
    proof (cases "heads ! code a")
      case None
      let ?heads = "heads[code a := Some a]"
      have "resize_chains code (old # olds) heads nxt = resize_chains code olds ?heads (nxt(a := None))"
        by (simp add: Some relink_front [where code = code and heads = heads, OF a None])
      also have "\<dots> = (if distinct (map code (firsts olds)) \<and> (\<forall>b \<in> set (firsts olds). ?heads ! code b = None)
        then Some (foldl (put_first code) ?heads (firsts olds),
          \<lambda>b. if b \<in> set (firsts olds) then None else (nxt(a := None)) b) else None)"
        using Cons.prems by (intro Cons.IH) (auto simp: Some nth_list_update split: if_splits)
      finally have r: "resize_chains code (old # olds) heads nxt = \<dots>" .
      have "(\<forall>b \<in> set (firsts olds). ?heads ! code b = None) \<longleftrightarrow>
          code a \<notin> set (map code (firsts olds)) \<and> (\<forall>b \<in> set (firsts olds). heads ! code b = None)"
        using Cons.prems(1) a by (auto simp: Some nth_list_update)
      moreover have "put_first code heads a = ?heads" by (simp add: put_first_def)
      ultimately show ?thesis unfolding r using None by (auto simp: Some fun_eq_iff)
    next
      case (Some b)
      with Cons.prems(2) [OF a] have "relink code (Some a) heads nxt = None"
        by (intro relink_diverges [where code = code and heads = heads and b = b, OF a]) auto
      with Some \<open>old = Some a\<close> show ?thesis by simp
    qed
  qed
qed simp

section \<open>Properties\<close>

text \<open>The bindings of a key, the newest first.\<close>

definition chain_bindings :: "('k \<Rightarrow> 'k \<Rightarrow> bool) \<Rightarrow> 'k \<Rightarrow> ('k \<times> 'v) list \<Rightarrow> 'v list" where
  "chain_bindings eq key es = map snd (filter (\<lambda>(k, d). eq key k) es)"

definition newest :: "'v list \<Rightarrow> 'v option" where
  "newest ds = (case ds of [] \<Rightarrow> None | d # _ \<Rightarrow> Some d)"

lemma chain_find_bindings: "chain_find eq key es = newest (chain_bindings eq key es)"
  by (induction eq key es rule: chain_find.induct) (simp_all add: chain_bindings_def newest_def)

lemma chain_update_bindings:
  "chain_bindings (=) j (chain_update (=) new key es) =
     (if j = key \<and> chain_bindings (=) key es \<noteq> [] then new # tl (chain_bindings (=) key es) else chain_bindings (=) j es)"
  by (induction es) (auto simp: chain_bindings_def)

lemma chain_unlink_bindings:
  "chain_bindings (=) j (chain_unlink (=) key es) =
     (if j = key then tl (chain_bindings (=) key es) else chain_bindings (=) j es)"
  by (induction es) (auto simp: chain_bindings_def)

definition strhash_bindings :: "'v strhash \<Rightarrow> byte list \<Rightarrow> 'v list" where
  "strhash_bindings h key = chain_bindings strcmp_eq key (htable h ! (unat (strhash_djb key) mod length (htable h)))"

lemma strhash_bindings_change:
  assumes "htable h' = (htable h)[unat (strhash_djb k) mod length (htable h) := es]" and "htable h \<noteq> []"
    and "\<And>j. j \<noteq> k \<Longrightarrow> chain_bindings (=) j es = chain_bindings (=) j (htable h ! (unat (strhash_djb k) mod length (htable h)))"
  shows "strhash_bindings h' j = (if j = k then chain_bindings (=) k es else strhash_bindings h j)"
  using assms(2,3) by (auto simp: strhash_bindings_def strcmp_eq_iff assms(1) nth_list_update)

text \<open>
  Claim C34.  A \<open>strhash\<close> with at least one chain is a map from strings to stacks of values, and its operations are total.
  \<open>strhash_get\<close> returns the newest value of a key and \<open>NULL\<close> when it has none; \<open>strhash_add\<close> puts a value in front;
  \<open>strhash_check_and_add\<close> does so only for a key without a value; \<open>strhash_update\<close> replaces the newest value and does
  nothing without one; \<open>strhash_update_or_add\<close> replaces it or adds the value; \<open>strhash_del\<close> removes the newest
  value, so an older one shows again.  The last four return the value that was there.  No operation changes another key.
\<close>

theorem strhash_is_a_map:
  assumes "htable h \<noteq> []"
  shows "strhash_get h k = Inr (newest (strhash_bindings h k)) \<and>
    (\<exists>h'. strhash_add h d k = Inr h' \<and> htable h' \<noteq> [] \<and>
      strhash_bindings h' = (strhash_bindings h)(k := d # strhash_bindings h k)) \<and>
    (\<exists>h'. strhash_check_and_add h d k = Inr (newest (strhash_bindings h k), h') \<and> htable h' \<noteq> [] \<and>
      strhash_bindings h' = (if strhash_bindings h k = [] then (strhash_bindings h)(k := [d]) else strhash_bindings h)) \<and>
    (\<exists>h'. strhash_update h d k = Inr (newest (strhash_bindings h k), h') \<and> htable h' \<noteq> [] \<and>
      strhash_bindings h' = (if strhash_bindings h k = [] then strhash_bindings h
        else (strhash_bindings h)(k := d # tl (strhash_bindings h k)))) \<and>
    (\<exists>h'. strhash_update_or_add h d k = Inr (newest (strhash_bindings h k), h') \<and> htable h' \<noteq> [] \<and>
      strhash_bindings h' = (strhash_bindings h)(k := d # tl (strhash_bindings h k))) \<and>
    (\<exists>h'. strhash_del h k = Inr (newest (strhash_bindings h k), h') \<and> htable h' \<noteq> [] \<and>
      strhash_bindings h' = (strhash_bindings h)(k := tl (strhash_bindings h k)))"
proof -
  let ?i = "unat (strhash_djb k) mod length (htable h)"
  let ?es = "htable h ! ?i"
  have slot: "tab_slot strhash_djb h k = Inr ?i" using assms by (simp add: tab_slot_def)
  have here: "strhash_bindings h k = chain_bindings (=) k ?es" by (simp add: strhash_bindings_def strcmp_eq_iff)
  have find: "chain_find (=) k ?es = newest (strhash_bindings h k)" by (simp add: here chain_find_bindings)
  have none: "newest (strhash_bindings h k) = None \<longleftrightarrow> strhash_bindings h k = []" by (simp add: newest_def split: list.split)
  have change: "htable h' \<noteq> [] \<and> strhash_bindings h' = (strhash_bindings h)(k := chain_bindings (=) k es)"
    if "htable h' = (htable h)[?i := es]" "\<And>j. j \<noteq> k \<Longrightarrow> chain_bindings (=) j es = chain_bindings (=) j ?es" for h' es
    using strhash_bindings_change [OF that(1) assms that(2)] assms that(1) by (auto simp: fun_eq_iff)
  have link: "htable (link_front ?i k d h) \<noteq> [] \<and>
      strhash_bindings (link_front ?i k d h) = (strhash_bindings h)(k := d # strhash_bindings h k)"
    using change [of "link_front ?i k d h" "(k, d) # ?es"] by (simp add: link_front_def here) (simp add: chain_bindings_def)
  have upd: "htable (h\<lparr>htable := (htable h)[?i := chain_update (=) d k ?es]\<rparr>) \<noteq> [] \<and>
      strhash_bindings (h\<lparr>htable := (htable h)[?i := chain_update (=) d k ?es]\<rparr>) =
        (strhash_bindings h)(k := d # tl (strhash_bindings h k))" if "strhash_bindings h k \<noteq> []"
    using change [of "h\<lparr>htable := (htable h)[?i := chain_update (=) d k ?es]\<rparr>" "chain_update (=) d k ?es"] that
    by (simp add: chain_update_bindings here)
  have del: "htable (h\<lparr>htable := (htable h)[?i := chain_unlink (=) k ?es]\<rparr>) \<noteq> [] \<and>
      strhash_bindings (h\<lparr>htable := (htable h)[?i := chain_unlink (=) k ?es]\<rparr>) =
        (strhash_bindings h)(k := tl (strhash_bindings h k))"
    using change [of "h\<lparr>htable := (htable h)[?i := chain_unlink (=) k ?es]\<rparr>" "chain_unlink (=) k ?es"]
    by (simp add: chain_unlink_bindings here)
  have same: "(strhash_bindings h)(k := []) = strhash_bindings h" if "strhash_bindings h k = []"
    using that by (simp add: fun_eq_iff)
  show ?thesis
  proof (intro conjI)
    show "strhash_get h k = Inr (newest (strhash_bindings h k))"
      by (simp add: strhash_get_def tab_get_def slot strcmp_eq_iff find)
    show "\<exists>h'. strhash_add h d k = Inr h' \<and> htable h' \<noteq> [] \<and>
      strhash_bindings h' = (strhash_bindings h)(k := d # strhash_bindings h k)"
      using link by (simp add: strhash_add_def tab_add_def slot)
  next
    show "\<exists>h'. strhash_check_and_add h d k = Inr (newest (strhash_bindings h k), h') \<and> htable h' \<noteq> [] \<and>
      strhash_bindings h' = (if strhash_bindings h k = [] then (strhash_bindings h)(k := [d]) else strhash_bindings h)"
      using link none assms by (cases "newest (strhash_bindings h k)")
        (simp_all add: strhash_check_and_add_def tab_check_and_add_def slot strcmp_eq_iff find)
  next
    show "\<exists>h'. strhash_update h d k = Inr (newest (strhash_bindings h k), h') \<and> htable h' \<noteq> [] \<and>
      strhash_bindings h' = (if strhash_bindings h k = [] then strhash_bindings h
        else (strhash_bindings h)(k := d # tl (strhash_bindings h k)))"
      using upd none assms by (cases "newest (strhash_bindings h k)")
        (simp_all add: strhash_update_def tab_update_def slot strcmp_eq_iff find)
  next
    show "\<exists>h'. strhash_update_or_add h d k = Inr (newest (strhash_bindings h k), h') \<and> htable h' \<noteq> [] \<and>
      strhash_bindings h' = (strhash_bindings h)(k := d # tl (strhash_bindings h k))"
      using upd link none by (cases "newest (strhash_bindings h k)")
        (simp_all add: strhash_update_or_add_def tab_update_or_add_def slot strcmp_eq_iff find)
  next
    show "\<exists>h'. strhash_del h k = Inr (newest (strhash_bindings h k), h') \<and> htable h' \<noteq> [] \<and>
      strhash_bindings h' = (strhash_bindings h)(k := tl (strhash_bindings h k))"
      using del none assms same by (cases "newest (strhash_bindings h k)")
        (simp_all add: strhash_del_def tab_del_def slot strcmp_eq_iff find)
  qed
qed

theorem strhash_is_a_map_witness:
  "\<exists>h' h''. strhash_add (new_strhash 2) (7 :: nat) [65] = Inr h' \<and> strhash_get h' [65] = Inr (Some 7) \<and>
     strhash_del h' [65] = Inr (Some 7, h'') \<and> strhash_get h'' [65] = Inr None"
proof -
  have h: "htable (new_strhash 2 :: nat strhash) \<noteq> []" "strhash_bindings (new_strhash 2 :: nat strhash) k = []" for k
    by (simp_all add: new_strhash_def tab_new_def strhash_bindings_def chain_bindings_def)
  from strhash_is_a_map [OF h(1), of "[65]" "7 :: nat"] h(2) obtain h' where h': "strhash_add (new_strhash 2) (7 :: nat) [65] = Inr h'"
    "htable h' \<noteq> []" "strhash_bindings h' [65] = [7]" by (auto simp: fun_upd_def)
  from strhash_is_a_map [OF h'(2), of "[65]" 0] h'(3) obtain h'' where "strhash_get h' [65] = Inr (Some 7)"
    "strhash_del h' [65] = Inr (Some 7, h'')" "htable h'' \<noteq> []" "strhash_bindings h'' [65] = []" by (auto simp: newest_def)
  moreover from strhash_is_a_map [OF this(3), of "[65]" 0] this(4) have "strhash_get h'' [65] = Inr None" by (simp add: newest_def)
  ultimately show ?thesis using h'(1) by blast
qed

text \<open>
  The element count of a table does not survive a deletion.  Adding a key and
  deleting it again gives the chains back but leaves the count one too high, and an array of
  the elements then has an entry that nothing was written to.
\<close>

lemma strhash_count_drifts:
  assumes "htable h \<noteq> []" and "int (length (tab_elements h)) = elmts h"
    and "strhash_add h d k = Inr h'"
  shows "strhash_del h' k = Inr (Some d, h\<lparr>elmts := elmts h + 1\<rparr>) \<and>
    strhash_to_array h = Inr (map (Some \<circ> snd) (tab_elements h)) \<and>
    strhash_to_array (h\<lparr>elmts := elmts h + 1\<rparr>) = Inr (map (Some \<circ> snd) (tab_elements h) @ [None])"
proof -
  from strings.del_add [OF assms(1), of d k h'] assms(3)
  have "strhash_del h' k = Inr (Some d, h\<lparr>elmts := elmts h + 1\<rparr>)"
    by (simp add: strhash_add_def strhash_del_def)
  moreover have "nat (elmts h + 1) - length (tab_elements h) = 1" using assms(2) by simp
  ultimately show ?thesis
    using assms(2) by (simp add: strhash_to_array_def tab_to_array_def tab_elements_def Let_def)
qed

lemma strhash_count_drifts_witness:
  "\<exists>h' :: nat strhash. strhash_add (new_strhash 1) 7 [65] = Inr h' \<and>
     strhash_del h' [65] = Inr (Some 7, (new_strhash 1)\<lparr>elmts := 1\<rparr>) \<and>
     strhash_to_array ((new_strhash 1)\<lparr>elmts := 1\<rparr> :: nat strhash) = Inr [None]"
proof -
  let ?h = "new_strhash 1 :: nat strhash"
  have "\<exists>h'. strhash_add ?h 7 [65] = Inr h'"
    by (simp add: strhash_add_def tab_add_def tab_slot_def new_strhash_def tab_new_def)
  then obtain h' where h': "strhash_add ?h 7 [65] = Inr h'" by blast
  have "htable ?h \<noteq> []" "int (length (tab_elements ?h)) = elmts ?h" "elmts ?h = 0" "tab_elements ?h = []"
    by (simp_all add: new_strhash_def tab_new_def tab_elements_def)
  with strhash_count_drifts [OF _ _ h'] h' show ?thesis by auto
qed

text \<open>
  Resizing a table loses elements or never returns.  It returns exactly when the
  first elements of the old chains go to different chains of the new table, and then the new
  table holds these first elements alone: all other elements are lost.
\<close>

lemma hash_resize_loses:
  assumes "\<forall>a \<in> set (firsts olds). code a < newsize"
  shows "hash_resize code olds nxt newsize =
    (if distinct (map code (firsts olds))
     then Some (foldl (put_first code) (replicate newsize None) (firsts olds),
                \<lambda>a. if a \<in> set (firsts olds) then None else nxt a)
     else None)"
  unfolding hash_resize_def
  by (subst resize_chains_result) (use assms in auto)

lemma hash_resize_loses_witness:
  "hash_resize (\<lambda>a. a mod 2) [Some 0, Some 1] ((\<lambda>_. None)(0 := Some 3)) 2 =
     Some ([Some 0, Some 1], \<lambda>_. None) \<and>
   hash_resize (\<lambda>a. 0) [Some 0, Some 1] (\<lambda>_. None) 2 = None"
proof (intro conjI)
  show "hash_resize (\<lambda>a. a mod 2) [Some 0, Some 1] ((\<lambda>_. None)(0 := Some 3)) 2 =
     Some ([Some 0, Some 1], \<lambda>_. None)"
    by (subst hash_resize_loses) (auto simp: put_first_def numeral_2_eq_2)
  show "hash_resize (\<lambda>a. 0) [Some 0, Some 1] (\<lambda>_. None) 2 = None"
    by (subst hash_resize_loses) auto
qed

end
