(* ===== verification/Sharedvars_Laws.thy ===== *)
theory Sharedvars_Laws
  imports Sharedvars Builtins_Laws Hash_Table_Laws
begin

text \<open>
  The shared variables are a map from names to values: what the three functions do to it, and that no other bytecode
  changes it.  The addresses in the table are of variables that cannot be freed, so the safety of the machine protects them.
\<close>

section \<open>The map\<close>

definition keys_once :: "'v strhash \<Rightarrow> bool" where
  "keys_once h \<longleftrightarrow> (\<forall>es \<in> set (htable h). distinct (map fst es))"

definition vars_ok :: "nat strhash \<Rightarrow> ovm \<Rightarrow> bool" where
  "vars_ok h m \<longleftrightarrow> htable h \<noteq> [] \<and> keys_once h \<and>
     (\<forall>k a. strhash_get h k = Inr (Some a) \<longrightarrow> (\<exists>v. heap m a = Some v \<and> \<not> can_free_var v)) \<and>
     (\<forall>j k a. strhash_get h j = Inr (Some a) \<longrightarrow> strhash_get h k = Inr (Some a) \<longrightarrow> j = k)"

definition shared_ok :: "sharedvars_config \<Rightarrow> ovm \<Rightarrow> bool" where
  "shared_ok cfg m \<longleftrightarrow> vm_ok m \<and> (\<exists>h. vars_hash cfg = Some h \<and> vars_ok h m)"

definition shared_map :: "sharedvars_config \<Rightarrow> ovm \<Rightarrow> byte list \<Rightarrow> ovm_data option" where
  "shared_map cfg m k = (case vars_hash cfg of None \<Rightarrow> None | Some h \<Rightarrow>
     (case strhash_get h k of Inr (Some a) \<Rightarrow> map_option vdata (heap m a) | _ \<Rightarrow> None))"

text \<open>What is on the stack.\<close>

definition on_stack :: "nat \<Rightarrow> ovm \<Rightarrow> ovm_data option" where
  "on_stack i m = (case stack_list (ovm_stack m) ! i of None \<Rightarrow> None | Some a \<Rightarrow>
     if i < length (stack_list (ovm_stack m)) then map_option vdata (heap m a) else None)"

definition name_on :: "ovm \<Rightarrow> byte list option" where
  "name_on m = (case on_stack 0 m of Some (VStr s) \<Rightarrow> Some (c_str s) | _ \<Rightarrow> None)"

lemma clone_data: "issdl_clone d = Inr (Some w) \<Longrightarrow> vdata w = d"
  by (cases d) (auto simp: int_clone_def uint_clone_def bstr_clone_def vbstr_clone_def string_clone_def vstr_clone_def
      ctime_clone_def ipv4_clone_def timeval_clone_def counter_clone_def temp_from_def)

lemma shared_evolves:
  assumes "shared_ok cfg m" "evolves m m'"
  shows "shared_ok cfg m' \<and> shared_map cfg m' = shared_map cfg m"
proof -
  from assms(1) obtain h where h: "vars_hash cfg = Some h" "vars_ok h m" "vm_ok m" by (auto simp: shared_ok_def)
  have keep: "\<exists>v'. heap m' a = Some v' \<and> vdata v' = vdata v \<and> \<not> can_free_var v'" if "heap m a = Some v" "\<not> can_free_var v" for a v
    using assms(2) h(3) that by (auto simp: evolves_def)
  have "vars_ok h m'" using h(2) keep unfolding vars_ok_def by metis
  moreover have "shared_map cfg m' k = shared_map cfg m k" for k
  proof (cases "\<exists>a. strhash_get h k = Inr (Some a)")
    case True
    then obtain a where a: "strhash_get h k = Inr (Some a)" by blast
    with h(2) obtain v where "heap m a = Some v" "\<not> can_free_var v" unfolding vars_ok_def by blast
    with keep [OF this] a h(1) show ?thesis by (auto simp: shared_map_def)
  next
    case False
    then show ?thesis using h(1) by (auto simp: shared_map_def split: sum.split option.split)
  qed
  ultimately show ?thesis using assms(2) h by (auto simp: shared_ok_def evolves_def)
qed

lemma pop_top:
  assumes "vm_ok m" "pop m = (p, m1)"
  shows "heap m1 = heap m" "fresh m1 = fresh m" "stack_ok (ovm_stack m1)" "vm_ok m1"
    "stack_list (ovm_stack m) = [] \<and> p = None \<or> stack_list (ovm_stack m) = p # stack_list (ovm_stack m1)"
proof -
  show h: "heap m1 = heap m" "fresh m1 = fresh m" using assms(2) by (auto simp: pop_def split: prod.splits)
  have s: "stack_ok (ovm_stack m)" using assms(1) by (simp add: vm_ok_def)
  obtain s' where s': "stack_pop (ovm_stack m) = (case stack_list (ovm_stack m) of [] \<Rightarrow> None | x # _ \<Rightarrow> x, s')"
    "stack_ok s'" "stack_list s' = tl (stack_list (ovm_stack m))" by (rule lst.pop_general [OF s])
  then have p: "p = (case stack_list (ovm_stack m) of [] \<Rightarrow> None | x # _ \<Rightarrow> x)" "ovm_stack m1 = s'"
    using assms(2) by (auto simp: pop_def)
  then show "stack_ok (ovm_stack m1)" using s'(2) by simp
  with h assms(1) show "vm_ok m1" by (simp add: vm_ok_def)
  show "stack_list (ovm_stack m) = [] \<and> p = None \<or> stack_list (ovm_stack m) = p # stack_list (ovm_stack m1)"
    using p s'(3) by (cases "stack_list (ovm_stack m)") auto
qed

lemma on_stack_pop:
  assumes "vm_ok m" "pop m = (p, m1)" "deref m1 p = Inr v"
  shows "on_stack 0 m = Some (vdata v)" "on_stack (Suc i) m = on_stack i m1"
proof -
  note top = pop_top [OF assms(1,2)]
  from assms(3) obtain a where a: "p = Some a" "heap m1 a = Some v" using deref_SomeD by blast
  with top(5) have s: "stack_list (ovm_stack m) = Some a # stack_list (ovm_stack m1)" by auto
  with a top(1) show "on_stack 0 m = Some (vdata v)" "on_stack (Suc i) m = on_stack i m1"
    by (auto simp: on_stack_def split: option.split)
qed

lemma push_return_evolves: "with_cfg cfg (push_return_true c m) = Inr (cfg', m') \<Longrightarrow> cfg' = cfg \<and> evolves m m'"
  "with_cfg cfg (push_return_false c m) = Inr (cfg', m') \<Longrightarrow> cfg' = cfg \<and> evolves m m'"
  by (auto simp: with_cfg_def dest: evolves_push_return)

section \<open>Setting a variable\<close>

lemma distinct_update: "distinct (map fst es) \<Longrightarrow> distinct (map fst (chain_update eq d k es))"
proof -
  have "map fst (chain_update eq d k es) = map fst es" by (induction eq d k es rule: chain_update.induct) auto
  then show "distinct (map fst es) \<Longrightarrow> distinct (map fst (chain_update eq d k es))" by simp
qed

lemma set_unlink: "set (chain_unlink eq k es) \<subseteq> set es"
  by (induction eq k es rule: chain_unlink.induct) auto

lemma distinct_unlink: "distinct (map fst es) \<Longrightarrow> distinct (map fst (chain_unlink eq k es))"
proof (induction eq k es rule: chain_unlink.induct)
  case (2 eq k j d es)
  then show ?case using set_unlink [of eq k es] by auto
qed simp

lemma find_unlink: "distinct (map fst es) \<Longrightarrow> chain_find (=) k (chain_unlink (=) k es) = None"
proof (induction es)
  case (Cons e es)
  have "chain_find (=) k es = None" if "k \<notin> fst ` set es" for es :: "('a \<times> 'b) list"
    using that by (induction es) auto
  with Cons show ?case by (cases e) auto
qed simp

lemma find_None: "chain_find (=) k es = None \<Longrightarrow> k \<notin> fst ` set es"
  by (induction es) (force split: if_splits)+

lemma keys_once_upd: "keys_once h \<Longrightarrow> distinct (map fst es) \<Longrightarrow> htable h' = (htable h)[i := es] \<Longrightarrow> keys_once h'"
  by (auto simp: keys_once_def dest!: subsetD [OF set_update_subset_insert])

lemma keys_once_update_or_add:
  assumes "keys_once h" "strhash_update_or_add h d k = Inr (r, h')"
  shows "keys_once h'"
proof -
  from assms(2) obtain i where i: "tab_slot strhash_djb h k = Inr i" by (auto simp: strhash_update_or_add_def tab_update_or_add_def)
  then have l: "i < length (htable h)" by (auto simp: tab_slot_def split: if_splits)
  then have dist: "distinct (map fst (htable h ! i))" using assms(1) by (simp add: keys_once_def)
  show ?thesis
  proof (cases "chain_find (=) k (htable h ! i)")
    case None
    then have "h' = link_front i k d h" using assms(2) i by (simp add: strhash_update_or_add_def tab_update_or_add_def strcmp_eq_iff)
    with keys_once_upd [OF assms(1), of "(k, d) # htable h ! i" h' i] dist find_None [OF None] show ?thesis
      by (auto simp: link_front_def)
  next
    case (Some o')
    then have "htable h' = (htable h)[i := chain_update (=) d k (htable h ! i)]"
      using assms(2) i by (auto simp: strhash_update_or_add_def tab_update_or_add_def strcmp_eq_iff)
    from keys_once_upd [OF assms(1) distinct_update [OF dist] this] show ?thesis .
  qed
qed

lemma strhash_del_once:
  assumes "htable h \<noteq> []" "keys_once h" "strhash_del h k = Inr (r, h')"
  shows "strhash_get h k = Inr r \<and> keys_once h' \<and> htable h' \<noteq> [] \<and>
    strhash_get h' j = (if j = k then Inr None else strhash_get h j)"
proof -
  from assms(3) obtain i where i: "tab_slot strhash_djb h k = Inr i" by (auto simp: strhash_del_def tab_del_def)
  then have l: "i < length (htable h)" by (auto simp: tab_slot_def split: if_splits)
  then have dist: "distinct (map fst (htable h ! i))" using assms(2) by (simp add: keys_once_def)
  have other: "strhash_get h' j = strhash_get h j" if "j \<noteq> k"
    using strings.del_law [OF assms(1), of k r h' j] assms(3) that by (simp add: strhash_get_def strhash_del_def strcmp_eq_iff)
  show ?thesis
  proof (cases "chain_find (=) k (htable h ! i)")
    case None
    then have "r = None" "h' = h" using assms(3) i by (simp_all add: strhash_del_def tab_del_def strcmp_eq_iff)
    with None i assms other show ?thesis by (auto simp: strhash_get_def tab_get_def strcmp_eq_iff)
  next
    case (Some d)
    then have h': "htable h' = (htable h)[i := chain_unlink (=) k (htable h ! i)]" "r = Some d"
      using assms(3) i by (auto simp: strhash_del_def tab_del_def strcmp_eq_iff)
    have s: "tab_slot strhash_djb h' k = Inr i" using i h' by (simp add: tab_slot_def split: if_splits)
    have "strhash_get h' k = Inr None"
      using s h' l find_unlink [OF dist] by (simp add: strhash_get_def tab_get_def strcmp_eq_iff)
    moreover have "strhash_get h k = Inr r" using Some h' i by (simp add: strhash_get_def tab_get_def strcmp_eq_iff)
    moreover have "keys_once h'" using keys_once_upd [OF assms(2) distinct_unlink [OF dist] h'(1)] .
    ultimately show ?thesis using other h'(1) assms(1) by (auto simp: h')
  qed
qed

lemma deref_alive: "heap m a = Some v \<Longrightarrow> free_var (Some a) m = Inr (m\<lparr>heap := (heap m)(a := None)\<rparr>)"
  by (simp add: free_var_def)

lemma vars_ok_set:
  assumes "vars_ok h m" "strhash_update_or_add h a k = Inr (old, h')" "heap m a = None"
    and "heap m' = (heap m)(a \<mapsto> w)" "\<not> can_free_var w" "free_var old m' = Inr m''"
  shows "vars_ok h' m'' \<and> (\<forall>j b. strhash_get h' j = Inr (Some b) \<longrightarrow>
    heap m'' b = (if j = k then Some w else heap m b)) \<and>
    (\<forall>j. j \<noteq> k \<longrightarrow> strhash_get h' j = strhash_get h j) \<and> strhash_get h' k = Inr (Some a)"
proof -
  have h: "htable h \<noteq> []" "keys_once h" "\<And>k a. strhash_get h k = Inr (Some a) \<Longrightarrow> \<exists>v. heap m a = Some v \<and> \<not> can_free_var v"
    "\<And>j k a. strhash_get h j = Inr (Some a) \<Longrightarrow> strhash_get h k = Inr (Some a) \<Longrightarrow> j = k"
    using assms(1) unfolding vars_ok_def by blast+
  note upd = strings.get_update_or_add [OF h(1) assms(2) [unfolded strhash_update_or_add_def]]
  then have old: "strhash_get h k = Inr old" "htable h' \<noteq> []" unfolding strhash_get_def by blast+
  have get: "strhash_get h' j = (if j = k then Inr (Some a) else strhash_get h j)" for j
    using upd [of j] by (simp only: strhash_get_def strcmp_eq_iff)
  have keys: "keys_once h'" by (rule keys_once_update_or_add [OF h(2) assms(2)])
  have fresh: "b \<noteq> a" if "strhash_get h j = Inr (Some b)" for j b using h(3) [OF that] assms(3) by auto
  have heap: "heap m'' b = heap m b" if "strhash_get h j = Inr (Some b)" "j \<noteq> k" for j b
  proof (cases old)
    case None
    with assms(4,6) fresh [OF that(1)] show ?thesis by (simp add: free_var_def)
  next
    case (Some o')
    with old(1) h(4) [OF that(1), of k] that(2) have "b \<noteq> o'" by auto
    with Some assms(4,6) fresh [OF that(1)] show ?thesis by (auto simp: free_var_def split: option.splits)
  qed
  have new: "heap m'' a = Some w"
  proof (cases old)
    case None
    with assms(4,6) show ?thesis by (simp add: free_var_def)
  next
    case (Some o')
    with fresh [of k o'] old(1) have "o' \<noteq> a" by simp
    with Some assms(4,6) show ?thesis by (auto simp: free_var_def split: option.splits)
  qed
  have "\<exists>v. heap m'' b = Some v \<and> \<not> can_free_var v" if "strhash_get h' j = Inr (Some b)" for j b
    using that new assms(5) heap [of j b] h(3) [of j b] by (auto simp: get split: if_splits)
  moreover have "i = j" if "strhash_get h' i = Inr (Some b)" "strhash_get h' j = Inr (Some b)" for i j b
    using that fresh [of i b] fresh [of j b] h(4) [of i b j] by (auto simp: get split: if_splits)
  ultimately have "vars_ok h' m''" unfolding vars_ok_def using old(2) keys by blast
  moreover have "heap m'' b = (if j = k then Some w else heap m b)" if "strhash_get h' j = Inr (Some b)" for j b
    using that new heap [of j b] by (auto simp: get split: if_splits)
  ultimately show ?thesis by (simp add: get)
qed

lemma clear_canfree: "\<not> can_free_var (w\<lparr>vflags := vflags w AND NOT TYPE_CANFREE\<rparr>)"
  by (simp add: can_free_var_def and.assoc)

lemma set_shared_var:
  assumes ok: "shared_ok cfg m" and run: "issdl_set_shared_var c (cfg, m) = Inr (cfg', m')"
  shows "shared_ok cfg' m' \<and> (case name_on m of None \<Rightarrow> shared_map cfg' m' = shared_map cfg m
    | Some k \<Rightarrow> (\<exists>d. on_stack 1 m = Some d \<and> shared_map cfg' m' = (shared_map cfg m)(k \<mapsto> d)))"
proof -
  from ok obtain h where h: "vm_ok m" "vars_hash cfg = Some h" "vars_ok h m" by (auto simp: shared_ok_def)
  obtain p m1 where p: "pop m = (p, m1)" by (cases "pop m")
  note t1 = pop_top [OF h(1) p]
  obtain v where v: "deref m1 p = Inr v"
    using run p by (cases "deref m1 p") (simp_all add: issdl_set_shared_var_def del: bnd_eq_Inr)
  note s1 = on_stack_pop [OF h(1) p v]
  have ev1: "evolves m m1" by (rule evolves_pop [OF p])
  show ?thesis
  proof (cases "\<exists>s. vdata v = VStr s")
    case False
    then have "with_cfg cfg (push_return_false c m1) = Inr (cfg', m')"
      using run p v by (cases "vdata v") (simp_all add: issdl_set_shared_var_def del: bnd_eq_Inr)
    from push_return_evolves(2) [OF this] have e: "cfg' = cfg" "evolves m m'" using evolves_trans [OF ev1] by blast+
    moreover have "name_on m = None" using s1(1) False by (cases "vdata v") (simp_all add: name_on_def)
    ultimately show ?thesis using shared_evolves [OF ok e(2)] by simp
  next
    case True
    then obtain s where s: "vdata v = VStr s" by blast
    obtain q m2 where q: "pop m1 = (q, m2)" by (cases "pop m1")
    note t2 = pop_top [OF t1(4) q]
    define store where "store = (\<lambda>w. let (a, m) = alloc (w\<lparr>vflags := vflags w AND NOT TYPE_CANFREE\<rparr>) m2 in
      bnd (the_vars cfg) (\<lambda>h. bnd (strhash_update_or_add h (the a) (c_str s)) (\<lambda>(old, h).
      bnd (free_var old m) (\<lambda>m. with_cfg (cfg\<lparr>vars_hash := Some h\<rparr>) (push_return_true c m)))))"
    have "bnd (deref m2 q) (\<lambda>v. bnd (issdl_clone (vdata v)) (\<lambda>w. case w of None \<Rightarrow> Inl NullDeref | Some w \<Rightarrow> store w)) = Inr (cfg', m')"
      unfolding store_def Let_def using run by (simp add: issdl_set_shared_var_def p v s q del: bnd_eq_Inr)
    then obtain u wo where u': "deref m2 q = Inr u" "issdl_clone (vdata u) = Inr wo"
      "(case wo of None \<Rightarrow> Inl NullDeref | Some w \<Rightarrow> store w) = Inr (cfg', m')" unfolding bnd_eq_Inr by blast
    then obtain w where wo: "wo = Some w" by (cases wo) auto
    have u: "deref m2 q = Inr u" "issdl_clone (vdata u) = Inr (Some w)" "store w = Inr (cfg', m')" using u' wo by simp_all
    let ?w = "w\<lparr>vflags := vflags w AND NOT TYPE_CANFREE\<rparr>" and ?a = "fresh m2"
    let ?m3 = "m2\<lparr>heap := (heap m2)(?a \<mapsto> ?w), fresh := Suc ?a\<rparr>"
    have "bnd (strhash_update_or_add h ?a (c_str s)) (\<lambda>(old, h).
      bnd (free_var old ?m3) (\<lambda>m. with_cfg (cfg\<lparr>vars_hash := Some h\<rparr>) (push_return_true c m))) = Inr (cfg', m')"
      using u(3) by (simp add: store_def alloc_def the_vars_def h(2) del: bnd_eq_Inr)
    then obtain old h' m4 where
      set: "strhash_update_or_add h ?a (c_str s) = Inr (old, h')" and free: "free_var old ?m3 = Inr m4"
      and ret: "with_cfg (cfg\<lparr>vars_hash := Some h'\<rparr>) (push_return_true c m4) = Inr (cfg', m')"
      by auto
    have vok: "vars_ok h m2" using h(3) t1(1) t2(1) by (simp add: vars_ok_def)
    have fr: "heap m2 ?a = None" using t2(4) by (simp add: vm_ok_def)
    note set' = vars_ok_set [OF vok set fr _ clear_canfree [of w] free]
    have "vm_ok ?m3" using t2(4) by (simp add: vm_ok_def)
    then have "vm_ok m4" using free by (auto simp: free_var_def vm_ok_def split: option.splits)
    moreover have "vars_ok h' m4" using set' by simp
    ultimately have ok4: "shared_ok (cfg\<lparr>vars_hash := Some h'\<rparr>) m4" by (simp add: shared_ok_def)
    have "shared_map (cfg\<lparr>vars_hash := Some h'\<rparr>) m4 j = ((shared_map cfg m)(c_str s \<mapsto> vdata u)) j" for j
    proof (cases "j = c_str s")
      case True
      then show ?thesis using set' clone_data [OF u(2)] by (auto simp: shared_map_def)
    next
      case False
      then have g: "strhash_get h' j = strhash_get h j" using set' by simp
      then have "heap m4 b = heap m2 b" if "strhash_get h j = Inr (Some b)" for b using set' that False by auto
      with g False show ?thesis using h(2) t1(1) t2(1)
        by (simp add: shared_map_def split: sum.split option.split)
    qed
    then have map4: "shared_map (cfg\<lparr>vars_hash := Some h'\<rparr>) m4 = (shared_map cfg m)(c_str s \<mapsto> vdata u)" by (rule ext)
    from push_return_evolves(1) [OF ret] shared_evolves [OF ok4, of m'] have
      "shared_ok cfg' m'" "shared_map cfg' m' = (shared_map cfg m)(c_str s \<mapsto> vdata u)" by (auto simp: map4)
    moreover have "name_on m = Some (c_str s)" using s1(1) s by (simp add: name_on_def)
    moreover have "on_stack 1 m = Some (vdata u)" using s1(2) [of 0] on_stack_pop(1) [OF t1(4) q u(1)] by simp
    ultimately show ?thesis by simp
  qed
qed

section \<open>Deleting and getting\<close>

lemma del_shared_var:
  assumes ok: "shared_ok cfg m" and run: "issdl_del_shared_var c (cfg, m) = Inr (cfg', m')"
  shows "shared_ok cfg' m' \<and>
    shared_map cfg' m' = (case name_on m of None \<Rightarrow> shared_map cfg m | Some k \<Rightarrow> (shared_map cfg m)(k := None))"
proof -
  from ok obtain h where h: "vm_ok m" "vars_hash cfg = Some h" "vars_ok h m" by (auto simp: shared_ok_def)
  obtain p m1 where p: "pop m = (p, m1)" by (cases "pop m")
  note t1 = pop_top [OF h(1) p]
  obtain v where v: "deref m1 p = Inr v"
    using run p by (cases "deref m1 p") (simp_all add: issdl_del_shared_var_def del: bnd_eq_Inr)
  note s1 = on_stack_pop [OF h(1) p v]
  show ?thesis
  proof (cases "\<exists>s. vdata v = VStr s")
    case False
    then have "cfg' = cfg" "m' = m1" using run p v
      by (cases "vdata v"; simp add: issdl_del_shared_var_def del: bnd_eq_Inr)+
    moreover have "name_on m = None" using s1(1) False by (cases "vdata v") (simp_all add: name_on_def)
    ultimately show ?thesis using shared_evolves [OF ok evolves_pop [OF p]] by simp
  next
    case True
    then obtain s where s: "vdata v = VStr s" by blast
    from run p v s h(2) obtain old h' m4 where
      del: "strhash_del h (c_str s) = Inr (old, h')" and free: "free_var old m1 = Inr m4"
      and ret: "with_cfg (cfg\<lparr>vars_hash := Some h'\<rparr>) (push_return_true c m4) = Inr (cfg', m')"
      by (auto simp: issdl_del_shared_var_def Let_def the_vars_def)
    have hh: "htable h \<noteq> []" "keys_once h" "\<And>k a. strhash_get h k = Inr (Some a) \<Longrightarrow> \<exists>v. heap m a = Some v \<and> \<not> can_free_var v"
      "\<And>j k a. strhash_get h j = Inr (Some a) \<Longrightarrow> strhash_get h k = Inr (Some a) \<Longrightarrow> j = k"
      using h(3) unfolding vars_ok_def by blast+
    note d = strhash_del_once [OF hh(1,2) del]
    have keep: "heap m4 b = heap m b" if "strhash_get h j = Inr (Some b)" "j \<noteq> c_str s" for j b
    proof (cases old)
      case (Some o')
      with d hh(4) [OF that(1), of "c_str s"] that(2) have "b \<noteq> o'" by auto
      with Some free t1(1) show ?thesis by (auto simp: free_var_def split: option.splits)
    qed (use free t1(1) in \<open>simp add: free_var_def\<close>)
    have "vm_ok m4" using free t1(4) by (auto simp: free_var_def vm_ok_def split: option.splits)
    moreover have "vars_ok h' m4" unfolding vars_ok_def
    proof (intro conjI allI impI)
      show "htable h' \<noteq> []" "keys_once h'" using d by blast+
      show "\<exists>v. heap m4 b = Some v \<and> \<not> can_free_var v" if "strhash_get h' j = Inr (Some b)" for j b
        using that d [of j] keep [of j b] hh(3) [of j b] by (auto split: if_splits)
      show "i = j" if "strhash_get h' i = Inr (Some b)" "strhash_get h' j = Inr (Some b)" for i j b
        using that d [of i] d [of j] hh(4) [of i b j] by (auto split: if_splits)
    qed
    ultimately have ok4: "shared_ok (cfg\<lparr>vars_hash := Some h'\<rparr>) m4" by (simp add: shared_ok_def)
    have "shared_map (cfg\<lparr>vars_hash := Some h'\<rparr>) m4 j = ((shared_map cfg m)(c_str s := None)) j" for j
      using d [of j] keep [of j] h(2) by (auto simp: shared_map_def split: sum.split option.split)
    then have map4: "shared_map (cfg\<lparr>vars_hash := Some h'\<rparr>) m4 = (shared_map cfg m)(c_str s := None)" by (rule ext)
    from push_return_evolves(1) [OF ret] shared_evolves [OF ok4, of m'] s1(1) s show ?thesis
      by (auto simp: map4 name_on_def)
  qed
qed

lemma push_new_top:
  assumes "vm_ok m" "push_new w m = Inr m'"
  shows "on_stack 0 m' = Some (vdata w)"
proof -
  let ?m = "m\<lparr>heap := (heap m)(fresh m \<mapsto> w), fresh := Suc (fresh m)\<rparr>"
  have "stack_ok (ovm_stack m)" using assms(1) by (simp add: vm_ok_def)
  from lst.push_elems [OF this, of "Some (fresh m)"] obtain s' where
    "stack_push (ovm_stack m) (Some (fresh m)) = Inr s'" "stack_list s' = Some (fresh m) # stack_list (ovm_stack m)" by blast
  then show ?thesis using assms(2) by (auto simp: push_new_def alloc_def push_def on_stack_def)
qed

lemma get_shared_var:
  assumes ok: "shared_ok cfg m" and run: "issdl_get_shared_var c (cfg, m) = Inr (cfg', m')"
  shows "cfg' = cfg \<and> evolves m m' \<and> (case name_on m of None \<Rightarrow> True
    | Some k \<Rightarrow> (\<forall>d. shared_map cfg m k = Some d \<longrightarrow> on_stack 0 m' = Some d))"
proof -
  from ok obtain h where h: "vm_ok m" "vars_hash cfg = Some h" "vars_ok h m" by (auto simp: shared_ok_def)
  obtain p m1 where p: "pop m = (p, m1)" by (cases "pop m")
  note t1 = pop_top [OF h(1) p]
  obtain v where v: "deref m1 p = Inr v"
    using run p by (cases "deref m1 p") (simp_all add: issdl_get_shared_var_def del: bnd_eq_Inr)
  note s1 = on_stack_pop [OF h(1) p v]
  have ev1: "evolves m m1" by (rule evolves_pop [OF p])
  show ?thesis
  proof (cases "\<exists>s. vdata v = VStr s")
    case False
    then have "with_cfg cfg (push_return_false c m1) = Inr (cfg', m')"
      using run p v by (cases "vdata v") (simp_all add: issdl_get_shared_var_def del: bnd_eq_Inr)
    from push_return_evolves(2) [OF this] have e: "cfg' = cfg" "evolves m m'" using evolves_trans [OF ev1] by blast+
    moreover have "name_on m = None" using s1(1) False by (cases "vdata v") (simp_all add: name_on_def)
    ultimately show ?thesis by simp
  next
    case True
    then obtain s where s: "vdata v = VStr s" by blast
    have n: "name_on m = Some (c_str s)" using s1(1) s by (simp add: name_on_def)
    show ?thesis
    proof (cases "\<exists>a. strhash_get h (c_str s) = Inr (Some a)")
      case True
      then obtain a where a: "strhash_get h (c_str s) = Inr (Some a)" by blast
      from run p v s h(2) a obtain u w where u: "deref m1 (Some a) = Inr u" "issdl_clone (vdata u) = Inr (Some w)"
        "with_cfg cfg (push_new (w\<lparr>vflags := vflags w OR temp_flags\<rparr>) m1) = Inr (cfg', m')"
        by (auto simp: issdl_get_shared_var_def the_vars_def split: option.splits)
      then have push: "cfg' = cfg" "push_new (w\<lparr>vflags := vflags w OR temp_flags\<rparr>) m1 = Inr m'" by (auto simp: with_cfg_def)
      have "shared_map cfg m (c_str s) = Some (vdata w)"
        using a h(2) u(1) t1(1) clone_data [OF u(2)] by (auto simp: shared_map_def dest: deref_SomeD)
      with push_new_top [OF t1(4) push(2)] n push evolves_trans [OF ev1 evolves_push_new [OF push(2)]] show ?thesis by simp
    next
      case False
      with run p v s h(2) have "with_cfg cfg (push_return_false c m1) = Inr (cfg', m')"
        by (auto simp: issdl_get_shared_var_def the_vars_def split: option.splits)
      from push_return_evolves(2) [OF this] have e: "cfg' = cfg" "evolves m m'" using evolves_trans [OF ev1] by blast+
      moreover have "shared_map cfg m (c_str s) = None" using False h(2) by (auto simp: shared_map_def split: sum.split option.split)
      ultimately show ?thesis using n by simp
    qed
  qed
qed

section \<open>The contract\<close>

lemma new_vars_get: "n \<noteq> 0 \<Longrightarrow> strhash_get (new_strhash n) k = Inr None"
  by (simp add: new_strhash_def tab_new_def strhash_get_def tab_get_def tab_slot_def)

lemma new_vars_ok: "n \<noteq> 0 \<Longrightarrow> vars_ok (new_strhash n) m"
  by (simp add: vars_ok_def new_vars_get) (simp add: keys_once_def new_strhash_def tab_new_def)

text \<open>
  Claim C22.  The shared variables are one map from names to values.  A call of \<open>set_shared_var\<close> that returns binds the name
  on the stack to the value under it, whatever it was bound to; \<open>del_shared_var\<close> removes the name;
  \<open>get_shared_var\<close> changes nothing and pushes the value that the name is bound to.  Any bytecode that runs in between,
  of whatever rule, leaves the map as it is.  The map is empty after the configuration, unless the table has no chains.
\<close>

theorem shared_variables_are_a_map:
  assumes "shared_ok cfg m"
  shows "(\<forall>cfg' m'. issdl_set_shared_var c (cfg, m) = Inr (cfg', m') \<longrightarrow> shared_ok cfg' m' \<and>
      (case name_on m of None \<Rightarrow> shared_map cfg' m' = shared_map cfg m
       | Some k \<Rightarrow> \<exists>d. on_stack 1 m = Some d \<and> shared_map cfg' m' = (shared_map cfg m)(k \<mapsto> d))) \<and>
    (\<forall>cfg' m'. issdl_del_shared_var c (cfg, m) = Inr (cfg', m') \<longrightarrow> shared_ok cfg' m' \<and>
      shared_map cfg' m' = (case name_on m of None \<Rightarrow> shared_map cfg m | Some k \<Rightarrow> (shared_map cfg m)(k := None))) \<and>
    (\<forall>cfg' m'. issdl_get_shared_var c (cfg, m) = Inr (cfg', m') \<longrightarrow> shared_ok cfg' m' \<and> shared_map cfg' m' = shared_map cfg m \<and>
      (\<forall>k d. name_on m = Some k \<longrightarrow> shared_map cfg m k = Some d \<longrightarrow> on_stack 0 m' = Some d)) \<and>
    (\<forall>fuel code ret m'. (\<forall>f \<in> set (vm_func_tbl c). well_behaved f) \<longrightarrow> ovm_exec fuel c code m = Some (Inr (ret, m')) \<longrightarrow>
      shared_ok cfg m' \<and> shared_map cfg m' = shared_map cfg m) \<and>
    (hash_size cfg0 \<noteq> 0 \<longrightarrow> shared_ok (sharedvars_postconfig cfg0) m \<and> shared_map (sharedvars_postconfig cfg0) m = Map.empty)"
proof (intro conjI allI impI)
  fix cfg' m' assume run: "issdl_set_shared_var c (cfg, m) = Inr (cfg', m')"
  from set_shared_var [OF assms run] show "shared_ok cfg' m'"
    "case name_on m of None \<Rightarrow> shared_map cfg' m' = shared_map cfg m
     | Some k \<Rightarrow> \<exists>d. on_stack 1 m = Some d \<and> shared_map cfg' m' = (shared_map cfg m)(k \<mapsto> d)" by blast+
next
  fix cfg' m' assume run: "issdl_del_shared_var c (cfg, m) = Inr (cfg', m')"
  from del_shared_var [OF assms run] show "shared_ok cfg' m'"
    "shared_map cfg' m' = (case name_on m of None \<Rightarrow> shared_map cfg m | Some k \<Rightarrow> (shared_map cfg m)(k := None))" by blast+
next
  fix cfg' m' assume run: "issdl_get_shared_var c (cfg, m) = Inr (cfg', m')"
  note get = get_shared_var [OF assms run]
  then have "cfg' = cfg" "evolves m m'" by blast+
  with shared_evolves [OF assms] show "shared_ok cfg' m'" "shared_map cfg' m' = shared_map cfg m" by blast+
  fix k d assume "name_on m = Some k" "shared_map cfg m k = Some d"
  with get show "on_stack 0 m' = Some d" by simp
next
  fix fuel code ret m' assume "\<forall>f \<in> set (vm_func_tbl c). well_behaved f" "ovm_exec fuel c code m = Some (Inr (ret, m'))"
  then have "evolves m m'" by (intro exec_evolves)
  with shared_evolves [OF assms] show "shared_ok cfg m'" "shared_map cfg m' = shared_map cfg m" by blast+
next
  assume "hash_size cfg0 \<noteq> 0"
  have "unat (scast (hash_size cfg0) :: culong) \<noteq> 0"
  proof
    assume "unat (scast (hash_size cfg0) :: culong) = 0"
    then have "(scast (hash_size cfg0) :: culong) = 0" by (simp add: unat_eq_0)
    then have "sint (scast (hash_size cfg0) :: 64 word) = 0" by simp
    then have "sint (hash_size cfg0) = 0" by (simp add: sint_up_scast is_up)
    with \<open>hash_size cfg0 \<noteq> 0\<close> show False by (simp add: signed_eq_0_iff)
  qed
  then show "shared_ok (sharedvars_postconfig cfg0) m" "shared_map (sharedvars_postconfig cfg0) m = Map.empty"
    using assms by (auto simp: shared_ok_def sharedvars_postconfig_def shared_map_def fun_eq_iff new_vars_ok new_vars_get)
qed

text \<open>The name is on top of the stack, the value under it.\<close>

definition shared_vm :: ovm where
  "shared_vm = (idle_vm (bool_vars @ [\<lparr>vdata = VInt 7, vflags = 0\<rparr>, \<lparr>vdata = VStr [120], vflags = 0\<rparr>]) [])
     \<lparr>ovm_stack := \<lparr>stk_pos = 1, stk_size = 4, stk_grow = 4, stk_data = [Some 3, Some 4, None, None]\<rparr>\<rparr>"

definition shared_cfg :: sharedvars_config where
  "shared_cfg = \<lparr>hash_size = 1, vars_hash = Some (new_strhash 1)\<rparr>"

lemma shared_vm_facts: "shared_ok shared_cfg shared_vm" "name_on shared_vm = Some [120]" "on_stack 1 shared_vm = Some (VInt 7)"
proof -
  have "vm_ok shared_vm" by (simp add: vm_ok_def shared_vm_def idle_vm_def bool_vars_def stack_ok_def)
  then show "shared_ok shared_cfg shared_vm" by (simp add: shared_ok_def shared_cfg_def new_vars_ok)
  show "name_on shared_vm = Some [120]" "on_stack 1 shared_vm = Some (VInt 7)"
    by (simp_all add: name_on_def on_stack_def shared_vm_def idle_vm_def bool_vars_def stack_list_def c_str_def nth_append)
qed

lemma shared_vm_runs: "\<exists>cfg' m'. issdl_set_shared_var idle_ctx (shared_cfg, shared_vm) = Inr (cfg', m')"
  by (simp add: issdl_set_shared_var_def shared_cfg_def shared_vm_def run_simps int_clone_def temp_from_def ovm_int_new_def
      the_vars_def strhash_update_or_add_def tab_update_or_add_def tab_slot_def new_strhash_def tab_new_def alloc_def
      free_var_def with_cfg_def push_return_true_def TRUE_VAR_def link_front_def nth_append del: bnd_eq_Inr)

theorem shared_variables_are_a_map_witness:
  "\<exists>cfg' m'. issdl_set_shared_var idle_ctx (shared_cfg, shared_vm) = Inr (cfg', m') \<and> shared_map cfg' m' [120] = Some (VInt 7)"
proof -
  from shared_vm_runs obtain cfg' m' where run: "issdl_set_shared_var idle_ctx (shared_cfg, shared_vm) = Inr (cfg', m')" by blast
  with shared_variables_are_a_map [OF shared_vm_facts(1), of idle_ctx shared_cfg] shared_vm_facts(2,3)
  have "shared_map cfg' m' [120] = Some (VInt 7)" by auto
  with run show ?thesis by blast
qed

end
