(* ===== verification/Compiler.thy ===== *)
theory Compiler
  imports Ovm
begin

text \<open>
  \<open>src/rule_compiler.c\<close> and \<open>src/rule_compiler.h\<close>: the generation of bytecode from the
  abstract syntax tree of a rule, with labels that are resolved when the code is complete.
  The buffer has room for \<open>BYTECODE_BUF_SZ\<close> words and \<open>MAX_FIELDS\<close> field numbers; a store
  behind one of these arrays is the fault \<open>OutOfBounds\<close>, and \<open>exit(EXIT_FAILURE)\<close> is the fault
  \<open>ExitFailure\<close>.
\<close>

section \<open>The abstract syntax tree\<close>

text \<open>
  The resource number of a symbol is the only part of it that the code generator reads.  The
  left side of an assignment and the destinations of a split are variables.  An absent
  parameter list is an empty one.
\<close>

datatype node_expr =
  NODE_UNKNOWN
| NODE_BINOP nat node_expr node_expr
| NODE_COND nat node_expr node_expr
| NODE_FIELD nat
| NODE_VARIABLE nat
| NODE_CONST nat
| NODE_CALL nat "node_expr list"
| NODE_ASSOC nat node_expr
| NODE_REGSPLIT node_expr nat "nat list"
| NODE_IFSTMT node_expr "node_expr list" "node_expr list option"

text \<open>The part of the compiler context that the generator reads, with the token numbers that
  the parser generator gives to \<open>&&\<close> and \<open>||\<close>.\<close>

record cctx =
  tok_ANDAND :: nat
  tok_OROR :: nat
  static_1 :: nat
  static_0 :: nat

section \<open>The code buffer\<close>

definition BYTECODE_BUF_SZ :: nat where "BYTECODE_BUF_SZ = 1024"
definition MAX_FIELDS :: nat where "MAX_FIELDS = 16"
definition LABEL_GROW :: nat where "LABEL_GROW = 256"

record code_buf =
  bytecode :: "culong list"
  used_fields :: "nat list"
  have_pushfield :: bool
  labels_nb :: nat
  labels :: "nat list"
  toset :: "nat list"

abbreviation "code_pos b \<equiv> length (bytecode b)"

text \<open>\<open>INIT_LABELS\<close> reserves label \<open>0\<close>.\<close>

definition init_buf :: code_buf where
  "init_buf = \<lparr>bytecode = [], used_fields = [], have_pushfield = False, labels_nb = 1,
     labels = replicate LABEL_GROW 0, toset = []\<rparr>"

definition emit :: "nat \<Rightarrow> code_buf \<Rightarrow> fault + code_buf" where
  "emit w b = (if code_pos b < BYTECODE_BUF_SZ
     then Inr (b\<lparr>bytecode := bytecode b @ [of_nat w]\<rparr>) else Inl OutOfBounds)"

definition exit_if_full :: "nat \<Rightarrow> code_buf \<Rightarrow> fault + code_buf" where
  "exit_if_full x b =
     (if int (code_pos b) \<ge> (int BYTECODE_BUF_SZ - int x) mod 2 ^ 64 then Inl ExitFailure
      else Inr b)"

definition NEW_LABEL :: "code_buf \<Rightarrow> nat \<times> code_buf" where
  "NEW_LABEL b = (labels_nb b, b\<lparr>labels_nb := labels_nb b + 1\<rparr>)"

text \<open>\<open>SET_LABEL\<close> grows the array at most once, by \<open>LABEL_GROW\<close> entries.\<close>

definition SET_LABEL :: "nat \<Rightarrow> code_buf \<Rightarrow> fault + code_buf" where
  "SET_LABEL l b =
     (let ls = (if labels_nb b \<ge> length (labels b) then labels b @ replicate LABEL_GROW 0
                else labels b)
      in if l < length ls then Inr (b\<lparr>labels := ls[l := code_pos b]\<rparr>) else Inl OutOfBounds)"

definition PUT_LABEL :: "nat \<Rightarrow> code_buf \<Rightarrow> fault + code_buf" where
  "PUT_LABEL l b = bnd (emit l b) (\<lambda>b'. Inr (b'\<lparr>toset := toset b @ [code_pos b]\<rparr>))"

definition use_field :: "nat \<Rightarrow> code_buf \<Rightarrow> fault + code_buf" where
  "use_field i b = (if length (used_fields b) < MAX_FIELDS
     then Inr (b\<lparr>used_fields := used_fields b @ [i], have_pushfield := True\<rparr>)
     else Inl OutOfBounds)"

fun emits :: "nat list \<Rightarrow> code_buf \<Rightarrow> fault + code_buf" where
  "emits [] b = Inr b"
| "emits (w # ws) b = bnd (emit w b) (emits ws)"

section \<open>Expressions and conditions\<close>

text \<open>\<open>OP_CEQ\<close>, \<open>\<dots>\<close>, \<open>OP_CGE\<close> are the opcodes for which \<open>compile_bytecode_cond\<close> and
  \<open>compile_bytecode_expr\<close> have a case.\<close>

definition comparison_op :: "nat \<Rightarrow> bool" where
  "comparison_op op \<longleftrightarrow> op \<in> {OP_CEQ, OP_CNEQ, OP_CRM, OP_CNRM, OP_CGT, OP_CLT, OP_CGE, OP_CLE}"

fun is_comparison :: "node_expr \<Rightarrow> bool" where
  "is_comparison (NODE_COND op _ _) = comparison_op op"
| "is_comparison _ = False"

text \<open>\<open>OP_POPCJMP\<close> to one label and \<open>OP_JMP\<close> to another.\<close>

definition jump_pair :: "nat \<Rightarrow> nat \<Rightarrow> code_buf \<Rightarrow> fault + code_buf" where
  "jump_pair lthen lelse b =
     bnd (emit OP_POPCJMP b) (\<lambda>b. bnd (PUT_LABEL lthen b) (\<lambda>b.
     bnd (emit OP_JMP b) (PUT_LABEL lelse)))"

text \<open>The end of a condition that is used as a value: push \<open>1\<close>, jump to the end, push
  \<open>0\<close>.\<close>

definition push_bool :: "cctx \<Rightarrow> nat \<Rightarrow> nat \<Rightarrow> code_buf \<Rightarrow> fault + code_buf" where
  "push_bool c lelse lend b =
     bnd (emits [OP_PUSHSTATIC, static_1 c, OP_JMP] b) (\<lambda>b. bnd (PUT_LABEL lend b) (\<lambda>b.
     bnd (SET_LABEL lelse b) (\<lambda>b.
     bnd (emits [OP_PUSHSTATIC, static_0 c] b) (SET_LABEL lend))))"

text \<open>The parameters of a call are compiled from the last to the first.\<close>

function (sequential)
  compile_bytecode_expr :: "cctx \<Rightarrow> node_expr \<Rightarrow> code_buf \<Rightarrow> fault + code_buf" and
  compile_params :: "cctx \<Rightarrow> node_expr list \<Rightarrow> code_buf \<Rightarrow> fault + code_buf" and
  compile_bytecode_cond ::
    "cctx \<Rightarrow> node_expr \<Rightarrow> nat \<Rightarrow> nat \<Rightarrow> code_buf \<Rightarrow> fault + code_buf" where
  "compile_bytecode_expr c (NODE_ASSOC v e) b =
     bnd (compile_bytecode_expr c e b) (emits [OP_POP, v, OP_PUSH, v])"
| "compile_bytecode_expr c (NODE_BINOP op l r) b =
     bnd (compile_bytecode_expr c l b) (\<lambda>b.
     bnd (compile_bytecode_expr c r b) (emit op))"
| "compile_bytecode_expr c (NODE_COND op l r) b =
     (let (label_i, b) = NEW_LABEL b; (label_then, b) = NEW_LABEL b;
          (label_else, b) = NEW_LABEL b; (label_end, b) = NEW_LABEL b
      in if op = tok_ANDAND c then
           bnd (compile_bytecode_cond c l label_i label_else b) (\<lambda>b.
           bnd (SET_LABEL label_i b) (\<lambda>b.
           bnd (compile_bytecode_cond c r label_then label_else b) (\<lambda>b.
           bnd (SET_LABEL label_then b) (push_bool c label_else label_end))))
         else if op = tok_OROR c then
           bnd (compile_bytecode_cond c l label_then label_i b) (\<lambda>b.
           bnd (SET_LABEL label_i b) (\<lambda>b.
           bnd (compile_bytecode_cond c r label_then label_else b) (\<lambda>b.
           bnd (SET_LABEL label_then b) (push_bool c label_else label_end))))
         else if comparison_op op then
           bnd (compile_bytecode_cond c (NODE_COND op l r) label_then label_else b) (\<lambda>b.
           bnd (SET_LABEL label_then b) (push_bool c label_else label_end))
         else Inr b)"
| "compile_bytecode_expr c (NODE_FIELD i) b =
     bnd (exit_if_full 2 b) (\<lambda>b. bnd (emits [OP_PUSHFIELD, i] b) (use_field i))"
| "compile_bytecode_expr c (NODE_VARIABLE i) b =
     bnd (exit_if_full 2 b) (emits [OP_PUSH, i])"
| "compile_bytecode_expr c (NODE_CONST i) b =
     bnd (exit_if_full 2 b) (emits [OP_PUSHSTATIC, i])"
| "compile_bytecode_expr c (NODE_CALL f ps) b =
     bnd (compile_params c ps b) (\<lambda>b. bnd (exit_if_full 2 b) (emits [OP_CALL, f]))"
| "compile_bytecode_expr c _ b = Inr b"
| "compile_params c [] b = Inr b"
| "compile_params c (e # es) b =
     bnd (compile_params c es b) (compile_bytecode_expr c e)"
| "compile_bytecode_cond c (NODE_COND op l r) lthen lelse b =
     (if comparison_op op then
        bnd (compile_bytecode_expr c l b) (\<lambda>b.
        bnd (compile_bytecode_expr c r b) (\<lambda>b.
        bnd (emit op b) (jump_pair lthen lelse)))
      else bnd (compile_bytecode_expr c (NODE_COND op l r) b) (jump_pair lthen lelse))"
| "compile_bytecode_cond c (NODE_IFSTMT _ _ _) lthen lelse b = Inr b"
| "compile_bytecode_cond c NODE_UNKNOWN lthen lelse b = Inr b"
| "compile_bytecode_cond c e lthen lelse b =
     bnd (compile_bytecode_expr c e b) (jump_pair lthen lelse)"
  by pat_completeness auto
termination
  by (relation "measure (\<lambda>x. case x of
        Inl (c, e, b) \<Rightarrow> 3 * size e + (if is_comparison e then 1 else 0)
      | Inr (Inl (c, es, b)) \<Rightarrow> 3 * size_list size es
      | Inr (Inr (c, e, lt, le, b)) \<Rightarrow> 3 * size e + (if is_comparison e then 0 else 1))")
    auto

declare compile_bytecode_expr.simps [simp del] compile_bytecode_cond.simps [simp del]

section \<open>Statements\<close>

fun emit_pops :: "nat list \<Rightarrow> code_buf \<Rightarrow> fault + code_buf" where
  "emit_pops [] b = Inr b"
| "emit_pops (v # vs) b = bnd (emits [OP_POP, v] b) (emit_pops vs)"

fun compile_bytecode_stmt :: "cctx \<Rightarrow> node_expr \<Rightarrow> code_buf \<Rightarrow> fault + code_buf"
  and compile_stmts :: "cctx \<Rightarrow> node_expr list \<Rightarrow> code_buf \<Rightarrow> fault + code_buf" where
  "compile_bytecode_stmt c (NODE_ASSOC v e) b =
     bnd (compile_bytecode_expr c e b) (emits [OP_POP, v])"
| "compile_bytecode_stmt c (NODE_BINOP op l r) b =
     bnd (compile_bytecode_stmt c l b) (\<lambda>b.
     bnd (compile_bytecode_stmt c r b) (emit op))"
| "compile_bytecode_stmt c (NODE_CALL f ps) b =
     bnd (compile_bytecode_expr c (NODE_CALL f ps) b) (\<lambda>b.
     bnd (exit_if_full 2 b) (emit OP_TRASH))"
| "compile_bytecode_stmt c (NODE_COND op l r) b =
     bnd (compile_bytecode_stmt c l b) (\<lambda>b.
     bnd (compile_bytecode_stmt c r b) (emit op))"
| "compile_bytecode_stmt c (NODE_REGSPLIT e pat vs) b =
     bnd (exit_if_full (5 + 2 * length vs) b) (\<lambda>b.
     bnd (compile_bytecode_expr c e b) (\<lambda>b.
     bnd (emits [OP_PUSHSTATIC, pat, OP_REGSPLIT] b) (emit_pops vs)))"
| "compile_bytecode_stmt c (NODE_IFSTMT e th el) b =
     (let (label_then, b) = NEW_LABEL b; (label_else, b) = NEW_LABEL b;
          (label_end, b) = NEW_LABEL b
      in bnd (compile_bytecode_cond c e label_then label_else b) (\<lambda>b.
         bnd (SET_LABEL label_then b) (\<lambda>b.
         bnd (bnd (compile_stmts c th b) (exit_if_full 2)) (\<lambda>b.
         bnd (emit OP_JMP b) (\<lambda>b. bnd (PUT_LABEL label_end b) (\<lambda>b.
         bnd (SET_LABEL label_else b) (\<lambda>b.
         bnd (case el of None \<Rightarrow> Inr b
              | Some ss \<Rightarrow> bnd (compile_stmts c ss b) (exit_if_full 2))
           (SET_LABEL label_end))))))))"
| "compile_bytecode_stmt c e b =
     bnd (compile_bytecode_expr c e b) (\<lambda>b. bnd (exit_if_full 2 b) (emit OP_TRASH))"
| "compile_stmts c [] b = Inr b"
| "compile_stmts c (e # es) b = bnd (compile_bytecode_stmt c e b) (compile_stmts c es)"

definition compile_actions_bytecode ::
  "cctx \<Rightarrow> node_expr list \<Rightarrow> code_buf \<Rightarrow> fault + code_buf" where
  "compile_actions_bytecode c es b = bnd (compile_stmts c es b) (exit_if_full 2)"

section \<open>Labels and complete programs\<close>

text \<open>\<open>int lbl_pos = labels[bytecode[code_pos]]; bytecode[code_pos] = lbl_pos - code_pos - 1\<close>:
  the displacement is a negative \<open>int\<close> for a jump backwards, and is sign-extended.\<close>

fun compile_set_labels :: "nat list \<Rightarrow> nat list \<Rightarrow> culong list \<Rightarrow> fault + culong list" where
  "compile_set_labels ls [] code = Inr code"
| "compile_set_labels ls (p # ps) code =
     bnd (at code p) (\<lambda>w. bnd (at ls (unat w)) (\<lambda>l.
     compile_set_labels ls ps (code[p := word_of_int (int l - int p - 1)])))"

text \<open>The action of a state: the statements, \<open>OP_END\<close>, and then the labels.\<close>

definition compile_actions_ast :: "cctx \<Rightarrow> node_expr list \<Rightarrow> fault + culong list \<times> bool" where
  "compile_actions_ast c es =
     bnd (compile_actions_bytecode c es init_buf) (\<lambda>b.
     bnd (emit OP_END b) (\<lambda>b.
     bnd (compile_set_labels (labels b) (toset b) (bytecode b)) (\<lambda>code.
     Inr (code, have_pushfield b))))"

text \<open>The condition of a transition: its code and the fields that it needs.\<close>

definition compile_trans_bytecode :: "cctx \<Rightarrow> node_expr \<Rightarrow> fault + culong list \<times> nat list" where
  "compile_trans_bytecode c e =
     bnd (compile_bytecode_expr c e init_buf) (\<lambda>b.
     bnd (compile_set_labels (labels b) (toset b) (bytecode b)) (\<lambda>code.
     if int (length code) \<ge> int BYTECODE_BUF_SZ - 2 then Inl ExitFailure
     else Inr (code @ [of_nat OP_END], used_fields b)))"

end
