(* ===== verification/Rule_Builder.thy ===== *)
theory Rule_Builder
  imports Compiler Hash_Table
begin

text \<open>
  \<open>src/rule_compiler.c\<close>: what the actions of the grammar \<open>src/issdl.y\<close> do.  The compiler
  context holds the names that are known, the constants and variables of the rule that is
  being read, and the finished rules.  The building functions make the nodes of the abstract
  syntax tree; \<open>compile_and_add_rule_ast\<close> turns the tree of a rule into states and transitions
  with bytecode.  State nodes are shared and changed after they are built, so they live in a
  list and are referred to by their index.  Floating point constants and the date of the rule
  file are not modelled.
\<close>

section \<open>Nodes\<close>

text \<open>The lists of nodes all have the same shape; \<open>size\<close> is the room of the array.\<close>

record 'a nodelist =
  nl_items :: "'a list"
  nl_size :: nat
  nl_grow :: nat

definition nodelist_build :: "nat \<Rightarrow> 'a \<Rightarrow> 'a nodelist" where
  "nodelist_build n x = \<lparr>nl_items = [x], nl_size = n, nl_grow = n\<rparr>"

definition nodelist_add :: "'a nodelist \<Rightarrow> 'a \<Rightarrow> fault + 'a nodelist" where
  "nodelist_add l x =
     (let size = (if length (nl_items l) = nl_size l then nl_size l + nl_grow l else nl_size l)
      in if length (nl_items l) < size
         then Inr (l\<lparr>nl_items := nl_items l @ [x], nl_size := size\<rparr>) else Inl OutOfBounds)"

definition build_paramlist :: "node_expr \<Rightarrow> node_expr nodelist" where
  "build_paramlist = nodelist_build 8"
definition paramlist_add :: "node_expr nodelist \<Rightarrow> node_expr \<Rightarrow> fault + node_expr nodelist" where
  "paramlist_add = nodelist_add"
definition build_varlist :: "nat \<Rightarrow> nat nodelist" where "build_varlist = nodelist_build 8"
definition varlist_add :: "nat nodelist \<Rightarrow> nat \<Rightarrow> fault + nat nodelist" where
  "varlist_add = nodelist_add"
definition build_syncvarlist :: "byte list \<Rightarrow> byte list nodelist" where
  "build_syncvarlist = nodelist_build 8"
definition syncvarlist_add :: "byte list nodelist \<Rightarrow> byte list \<Rightarrow> fault + byte list nodelist" where
  "syncvarlist_add = nodelist_add"
definition build_actionlist :: "node_expr \<Rightarrow> node_expr nodelist" where
  "build_actionlist = nodelist_build 16"
definition actionlist_add :: "node_expr nodelist \<Rightarrow> node_expr \<Rightarrow> fault + node_expr nodelist" where
  "actionlist_add = nodelist_add"

record node_trans =
  nt_cond :: "node_expr option"
  nt_dest :: "byte list option"
  nt_sub :: "nat option"

definition build_direct_transition :: "node_expr option \<Rightarrow> byte list \<Rightarrow> node_trans" where
  "build_direct_transition cond dest = \<lparr>nt_cond = cond, nt_dest = Some dest, nt_sub = None\<rparr>"
definition build_indirect_transition :: "node_expr \<Rightarrow> nat \<Rightarrow> node_trans" where
  "build_indirect_transition cond substate = \<lparr>nt_cond = Some cond, nt_dest = None, nt_sub = Some substate\<rparr>"
definition build_unconditional_transition_test :: "byte list \<Rightarrow> node_trans" where
  "build_unconditional_transition_test dest = build_direct_transition None dest"
definition build_transitionlist :: "node_trans \<Rightarrow> node_trans nodelist" where
  "build_transitionlist = nodelist_build 16"
definition transitionlist_add :: "node_trans nodelist \<Rightarrow> node_trans \<Rightarrow> fault + node_trans nodelist" where
  "transitionlist_add = nodelist_add"
definition build_unconditional_transition :: "byte list \<Rightarrow> node_trans nodelist" where
  "build_unconditional_transition dest = build_transitionlist (build_direct_transition None dest)"

record symbol_token =
  sym_name :: "byte list"
  sym_line :: int

record node_state =
  ns_id :: nat
  ns_line :: int
  ns_name :: "byte list option"
  ns_actions :: "node_expr nodelist option"
  ns_trans :: "node_trans nodelist option"
  ns_flags :: cint

record node_rule =
  nr_name :: "byte list"
  nr_line :: int
  nr_init :: "nat option"
  nr_states :: "nat nodelist option"
  nr_sync :: "byte list nodelist option"

definition build_rule ::
  "symbol_token \<Rightarrow> nat option \<Rightarrow> nat nodelist option \<Rightarrow> byte list nodelist option \<Rightarrow> node_rule" where
  "build_rule tok init states sync =
     \<lparr>nr_name = sym_name tok, nr_line = sym_line tok, nr_init = init, nr_states = states, nr_sync = sync\<rparr>"

section \<open>Rules\<close>

text \<open>The destination of a transition is the number of a state of the rule, \<open>None\<close> for
  \<open>NULL\<close>.\<close>

record transition_t =
  tr_dest :: "nat option"
  required_fields :: "nat list"
  eval_code :: "culong list option"
  tr_id :: nat
  global_id :: nat

record state_t =
  st_name :: "byte list option"
  st_line :: int
  st_action :: "culong list option"
  st_trans :: "transition_t list"
  st_flags :: cint
  st_id :: nat

record rule_t =
  rule_name :: "byte list"
  lineno :: int
  rule_states :: "state_t list"
  rule_static_env :: "ovm_var list"
  dynamic_env_sz :: int
  var_name :: "byte list list"
  sync_vars :: "nat list option"
  rule_id :: nat

section \<open>The compiler context\<close>

definition STATICS_SZ :: nat where "STATICS_SZ = 16"

record rule_compiler =
  fields_hash :: "nat strhash"
  functions_hash :: "nat strhash"
  rulenames_hash :: "nat strhash"
  statenames_hash :: "nat strhash"
  rule_env :: "nat strhash"
  statics :: "ovm_var list"
  statics_sz :: nat
  dyn_var_name :: "byte list list"
  dyn_var_name_sz :: nat
  node_states :: "node_state list"
  rule_list :: "rule_t list"
  rules :: nat
  sid_1 :: nat
  sid_0 :: nat
  sid_null :: nat
  sid_param_error :: nat
  sid_regex_error :: nat

definition statics_add :: "ovm_var \<Rightarrow> rule_compiler \<Rightarrow> fault + rule_compiler" where
  "statics_add data ctx =
     (let sz = (if length (statics ctx) = statics_sz ctx then statics_sz ctx + STATICS_SZ
                else statics_sz ctx)
      in if length (statics ctx) < sz
         then Inr (ctx\<lparr>statics := statics ctx @ [data], statics_sz := sz\<rparr>) else Inl OutOfBounds)"

definition dynamic_add :: "byte list \<Rightarrow> rule_compiler \<Rightarrow> fault + rule_compiler" where
  "dynamic_add name ctx =
     (let sz = (if length (dyn_var_name ctx) = dyn_var_name_sz ctx
                then dyn_var_name_sz ctx + STATICS_SZ else dyn_var_name_sz ctx)
      in if length (dyn_var_name ctx) < sz
         then Inr (ctx\<lparr>dyn_var_name := dyn_var_name ctx @ [name], dyn_var_name_sz := sz\<rparr>)
         else Inl OutOfBounds)"

definition const_var :: "ovm_var \<Rightarrow> ovm_var" where
  "const_var v = v\<lparr>vflags := vflags v OR TYPE_CONST\<rparr>"

definition empty_compiler :: rule_compiler where
  "empty_compiler = \<lparr>fields_hash = new_strhash 1021, functions_hash = new_strhash 1021,
     rulenames_hash = new_strhash 251, statenames_hash = new_strhash 251,
     rule_env = new_strhash 251, statics = [], statics_sz = 0, dyn_var_name = [],
     dyn_var_name_sz = 0, node_states = [], rule_list = [], rules = 0, sid_1 = 0, sid_0 = 0,
     sid_null = 0, sid_param_error = 0, sid_regex_error = 0\<rparr>"

definition new_rule_compiler_ctx :: "fault + rule_compiler" where
  "new_rule_compiler_ctx =
     (let c = empty_compiler in
      bnd (statics_add (const_var \<lparr>vdata = VInt 1, vflags = 0\<rparr>) (c\<lparr>sid_1 := length (statics c)\<rparr>)) (\<lambda>c.
      bnd (statics_add (const_var \<lparr>vdata = VInt 0, vflags = 0\<rparr>) (c\<lparr>sid_0 := length (statics c)\<rparr>)) (\<lambda>c.
      bnd (statics_add (const_var ovm_null_new) (c\<lparr>sid_null := length (statics c)\<rparr>)) (\<lambda>c.
      bnd (statics_add (const_var \<lparr>vdata = VNull ERRNO_PARAMETER_ERROR, vflags = 0\<rparr>)
             (c\<lparr>sid_param_error := length (statics c)\<rparr>)) (\<lambda>c.
      statics_add (const_var \<lparr>vdata = VNull ERRNO_REGEX_ERROR, vflags = 0\<rparr>)
             (c\<lparr>sid_regex_error := length (statics c)\<rparr>))))))"

definition compiler_reset :: "rule_compiler \<Rightarrow> rule_compiler" where
  "compiler_reset ctx = ctx\<lparr>statenames_hash := clear_strhash (statenames_hash ctx),
     rule_env := clear_strhash (rule_env ctx), statics := take 5 (statics ctx), dyn_var_name := []\<rparr>"

text \<open>The names of the fields and of the functions are entered before the first rule.  The
  functions stop at the first name that is there already.\<close>

fun build_fields_hash :: "nat \<Rightarrow> byte list list \<Rightarrow> nat strhash \<Rightarrow> fault + nat strhash" where
  "build_fields_hash f [] h = Inr h"
| "build_fields_hash f (n # ns) h = bnd (strhash_add h f n) (build_fields_hash (f + 1) ns)"

fun build_functions_hash :: "nat \<Rightarrow> byte list list \<Rightarrow> nat strhash \<Rightarrow> fault + nat strhash" where
  "build_functions_hash f [] h = Inr h"
| "build_functions_hash f (n # ns) h =
     bnd (strhash_get h n) (\<lambda>r. if r \<noteq> None then Inr h
     else bnd (strhash_add h f n) (build_functions_hash (f + 1) ns))"

section \<open>Expressions\<close>

definition build_expr_binop :: "nat \<Rightarrow> node_expr \<Rightarrow> node_expr \<Rightarrow> node_expr" where
  "build_expr_binop op l r = NODE_BINOP op l r"
definition build_expr_cond :: "nat \<Rightarrow> node_expr \<Rightarrow> node_expr \<Rightarrow> node_expr" where
  "build_expr_cond op l r = NODE_COND op l r"
definition build_expr_ifstmt ::
  "node_expr \<Rightarrow> node_expr nodelist \<Rightarrow> node_expr nodelist option \<Rightarrow> node_expr" where
  "build_expr_ifstmt cond th els = NODE_IFSTMT cond (nl_items th) (map_option nl_items els)"

text \<open>A variable gets the next free number when its name is new.\<close>

definition var_res_id :: "byte list \<Rightarrow> rule_compiler \<Rightarrow> fault + nat \<times> rule_compiler" where
  "var_res_id name ctx =
     bnd (strhash_get (rule_env ctx) name) (\<lambda>r. case r of
       Some i \<Rightarrow> Inr (i, ctx)
     | None \<Rightarrow>
         (let i = nat (elmts (rule_env ctx)) in
          bnd (strhash_add (rule_env ctx) i name) (\<lambda>h.
          bnd (dynamic_add name (ctx\<lparr>rule_env := h\<rparr>)) (\<lambda>ctx. Inr (i, ctx)))))"

definition build_varname :: "byte list \<Rightarrow> rule_compiler \<Rightarrow> fault + node_expr \<times> rule_compiler" where
  "build_varname name ctx = bnd (var_res_id name ctx) (\<lambda>(i, ctx). Inr (NODE_VARIABLE i, ctx))"

definition build_assoc ::
  "byte list \<Rightarrow> node_expr \<Rightarrow> rule_compiler \<Rightarrow> fault + node_expr \<times> rule_compiler" where
  "build_assoc name e ctx = bnd (var_res_id name ctx) (\<lambda>(i, ctx). Inr (NODE_ASSOC i e, ctx))"

definition build_function_call ::
  "byte list \<Rightarrow> node_expr nodelist option \<Rightarrow> rule_compiler \<Rightarrow> fault + node_expr" where
  "build_function_call name params ctx =
     bnd (strhash_get (functions_hash ctx) name) (\<lambda>r. case r of
       None \<Rightarrow> Inl ExitFailure
     | Some f \<Rightarrow> Inr (NODE_CALL f (case params of None \<Rightarrow> [] | Some ps \<Rightarrow> nl_items ps)))"

definition build_fieldname :: "byte list \<Rightarrow> rule_compiler \<Rightarrow> fault + node_expr" where
  "build_fieldname name ctx =
     bnd (strhash_get (fields_hash ctx) name) (\<lambda>r. case r of
       None \<Rightarrow> Inl ExitFailure | Some f \<Rightarrow> Inr (NODE_FIELD f))"

definition build_const :: "ovm_var \<Rightarrow> rule_compiler \<Rightarrow> fault + node_expr \<times> rule_compiler" where
  "build_const v ctx = bnd (statics_add v ctx) (\<lambda>ctx'. Inr (NODE_CONST (length (statics ctx)), ctx'))"

definition build_integer :: "cint \<Rightarrow> rule_compiler \<Rightarrow> fault + node_expr \<times> rule_compiler" where
  "build_integer i = build_const (const_var (ovm_int_new\<lparr>vdata := VInt (scast i)\<rparr>))"
definition build_string :: "byte list \<Rightarrow> rule_compiler \<Rightarrow> fault + node_expr \<times> rule_compiler" where
  "build_string s = build_const (const_var ((ovm_str_new (length s))\<lparr>vdata := VStr s\<rparr>))"

text \<open>\<open>gethostbyname\<close> and \<open>regcomp\<close> are parameters: the address of a host, and the compiled
  expression.\<close>

definition build_ipv4 ::
  "(byte list \<Rightarrow> cint option) \<Rightarrow> byte list \<Rightarrow> rule_compiler \<Rightarrow> fault + node_expr \<times> rule_compiler" where
  "build_ipv4 gethostbyname host ctx = (case gethostbyname host of None \<Rightarrow> Inl ExitFailure
     | Some a \<Rightarrow> build_const (const_var (ovm_ipv4_new\<lparr>vdata := VIPv4 a\<rparr>)) ctx)"
definition build_ctime_from_int :: "clong \<Rightarrow> rule_compiler \<Rightarrow> fault + node_expr \<times> rule_compiler" where
  "build_ctime_from_int t = build_const (const_var (ovm_ctime_new\<lparr>vdata := VCTime t\<rparr>))"
definition build_ctime_from_string ::
  "byte list \<Rightarrow> rule_compiler \<Rightarrow> fault + node_expr \<times> rule_compiler" where
  "build_ctime_from_string date = build_const (const_var (ovm_ctime_new\<lparr>vdata := VCTime 0\<rparr>))"
definition build_timeval_from_int ::
  "clong \<Rightarrow> clong \<Rightarrow> rule_compiler \<Rightarrow> fault + node_expr \<times> rule_compiler" where
  "build_timeval_from_int sec usec = build_const (ovm_timeval_new\<lparr>vdata := VTimeval sec usec\<rparr>)"
definition build_timeval_from_string ::
  "byte list \<Rightarrow> clong \<Rightarrow> rule_compiler \<Rightarrow> fault + node_expr \<times> rule_compiler" where
  "build_timeval_from_string date usec = build_const (ovm_timeval_new\<lparr>vdata := VTimeval 0 usec\<rparr>)"
definition build_counter :: "clong \<Rightarrow> rule_compiler \<Rightarrow> fault + node_expr \<times> rule_compiler" where
  "build_counter n = build_const
     (ovm_counter_new\<lparr>vdata := VCounter n, vflags := vflags ovm_counter_new OR TYPE_MONO\<rparr>)"
definition build_split_regex ::
  "(byte list \<Rightarrow> culong option) \<Rightarrow> byte list \<Rightarrow> rule_compiler \<Rightarrow> fault + node_expr \<times> rule_compiler" where
  "build_split_regex regcomp s ctx = (case regcomp s of None \<Rightarrow> Inl ExitFailure
     | Some p \<Rightarrow> build_const (const_var \<lparr>vdata = VSRegex p s 0, vflags = 0\<rparr>) ctx)"
definition build_regex ::
  "(byte list \<Rightarrow> culong option) \<Rightarrow> byte list \<Rightarrow> rule_compiler \<Rightarrow> fault + node_expr \<times> rule_compiler" where
  "build_regex regcomp s ctx = (case regcomp s of None \<Rightarrow> Inl ExitFailure
     | Some p \<Rightarrow> build_const (const_var \<lparr>vdata = VRegex p s, vflags = 0\<rparr>) ctx)"

text \<open>A split stores the number of its variables in the constant of its pattern.\<close>

definition build_string_split ::
  "node_expr \<Rightarrow> nat \<Rightarrow> nat nodelist \<Rightarrow> rule_compiler \<Rightarrow> fault + node_expr \<times> rule_compiler" where
  "build_string_split source pattern dests ctx =
     bnd (at (statics ctx) pattern) (\<lambda>v. case vdata v of
       VSRegex p s _ \<Rightarrow> Inr (NODE_REGSPLIT source pattern (nl_items dests),
         ctx\<lparr>statics := (statics ctx)[pattern :=
           v\<lparr>vdata := VSRegex p s (of_nat (length (nl_items dests)))\<rparr>]\<rparr>)
     | _ \<Rightarrow> Inl OutOfBounds)"

definition build_concat_string :: "byte list \<Rightarrow> byte list \<Rightarrow> byte list" where
  "build_concat_string a b = a @ b"

section \<open>States\<close>

definition build_state ::
  "node_expr nodelist option \<Rightarrow> node_trans nodelist option \<Rightarrow> rule_compiler \<Rightarrow> nat \<times> rule_compiler" where
  "build_state actions transitions ctx =
     (length (node_states ctx),
      ctx\<lparr>node_states := node_states ctx @ [\<lparr>ns_id = 0, ns_line = 0, ns_name = None,
        ns_actions = actions, ns_trans = transitions, ns_flags = 0\<rparr>]\<rparr>)"

definition change_state :: "nat \<Rightarrow> (node_state \<Rightarrow> node_state) \<Rightarrow> rule_compiler \<Rightarrow> fault + rule_compiler" where
  "change_state a f ctx = bnd (at (node_states ctx) a) (\<lambda>s.
     Inr (ctx\<lparr>node_states := (node_states ctx)[a := f s]\<rparr>))"

definition set_state_label ::
  "nat \<Rightarrow> symbol_token \<Rightarrow> cint \<Rightarrow> rule_compiler \<Rightarrow> fault + rule_compiler" where
  "set_state_label a tok flags ctx =
     bnd (change_state a (\<lambda>s. s\<lparr>ns_name := Some (sym_name tok), ns_line := sym_line tok,
       ns_flags := flags\<rparr>) ctx) (\<lambda>ctx.
     bnd (strhash_get (statenames_hash ctx) (sym_name tok)) (\<lambda>r.
     if r \<noteq> None then Inl ExitFailure
     else bnd (strhash_add (statenames_hash ctx) a (sym_name tok)) (\<lambda>h.
       Inr (ctx\<lparr>statenames_hash := h\<rparr>))))"

definition build_statelist :: "nat \<Rightarrow> rule_compiler \<Rightarrow> fault + nat nodelist \<times> rule_compiler" where
  "build_statelist a ctx = bnd (change_state a (\<lambda>s. s\<lparr>ns_id := 1\<rparr>) ctx) (\<lambda>ctx.
     Inr (nodelist_build 16 a, ctx))"

definition statelist_add ::
  "nat nodelist \<Rightarrow> nat \<Rightarrow> rule_compiler \<Rightarrow> fault + nat nodelist \<times> rule_compiler" where
  "statelist_add l a ctx =
     bnd (change_state a (\<lambda>s. s\<lparr>ns_id := length (nl_items l) + 1\<rparr>) ctx) (\<lambda>ctx.
     bnd (nodelist_add l a) (\<lambda>l. Inr (l, ctx)))"

section \<open>Compilation of a rule\<close>

definition code_ctx :: "nat \<Rightarrow> nat \<Rightarrow> rule_compiler \<Rightarrow> cctx" where
  "code_ctx andand oror ctx =
     \<lparr>tok_ANDAND = andand, tok_OROR = oror, static_1 = sid_1 ctx, static_0 = sid_0 ctx\<rparr>"

definition resolve_dest :: "rule_compiler \<Rightarrow> byte list option \<Rightarrow> fault + nat" where
  "resolve_dest ctx dest = (case dest of None \<Rightarrow> Inl NullDeref
     | Some name \<Rightarrow> bnd (strhash_get (statenames_hash ctx) name) (\<lambda>r. case r of
         None \<Rightarrow> Inl ExitFailure
       | Some a \<Rightarrow> bnd (at (node_states ctx) a) (\<lambda>s. Inr (ns_id s))))"

definition compile_transition ::
  "cctx \<Rightarrow> rule_compiler \<Rightarrow> nat \<Rightarrow> node_trans \<Rightarrow> fault + transition_t" where
  "compile_transition cc ctx i t = (case nt_cond t of
     Some e \<Rightarrow>
       bnd (case nt_sub t of Some _ \<Rightarrow> Inr None
            | None \<Rightarrow> bnd (resolve_dest ctx (nt_dest t)) (\<lambda>d. Inr (Some d))) (\<lambda>d.
       bnd (compile_trans_bytecode cc e) (\<lambda>(code, fields).
       Inr \<lparr>tr_dest = d, required_fields = fields, eval_code = Some code, tr_id = i, global_id = 0\<rparr>))
   | None \<Rightarrow>
       bnd (resolve_dest ctx (nt_dest t)) (\<lambda>d.
       Inr \<lparr>tr_dest = Some d, required_fields = [], eval_code = None, tr_id = i, global_id = 0\<rparr>))"

fun compile_transitions ::
  "cctx \<Rightarrow> rule_compiler \<Rightarrow> nat \<Rightarrow> node_trans list \<Rightarrow> fault + transition_t list" where
  "compile_transitions cc ctx i [] = Inr []"
| "compile_transitions cc ctx i (t # ts) =
     bnd (compile_transition cc ctx i t) (\<lambda>tr.
     bnd (compile_transitions cc ctx (i + 1) ts) (\<lambda>trs. Inr (tr # trs)))"

definition compile_transitions_ast ::
  "cctx \<Rightarrow> rule_compiler \<Rightarrow> node_trans nodelist option \<Rightarrow> fault + transition_t list" where
  "compile_transitions_ast cc ctx l =
     (case l of None \<Rightarrow> Inr [] | Some ts \<Rightarrow> compile_transitions cc ctx 0 (nl_items ts))"

definition BYTECODE_HAVE_PUSHFIELD :: cint where "BYTECODE_HAVE_PUSHFIELD = 1"

definition compile_state_ast :: "cctx \<Rightarrow> rule_compiler \<Rightarrow> nat \<Rightarrow> nat \<Rightarrow> fault + state_t" where
  "compile_state_ast cc ctx i a =
     bnd (at (node_states ctx) a) (\<lambda>n.
     bnd (case ns_actions n of None \<Rightarrow> Inr (None, False)
          | Some l \<Rightarrow> bnd (compile_actions_ast cc (nl_items l)) (\<lambda>(code, push). Inr (Some code, push)))
       (\<lambda>(action, push).
     bnd (compile_transitions_ast cc ctx (ns_trans n)) (\<lambda>trans.
     Inr \<lparr>st_name = ns_name n, st_line = ns_line n, st_action = action, st_trans = trans,
          st_flags = (if push then ns_flags n OR BYTECODE_HAVE_PUSHFIELD else ns_flags n), st_id = i\<rparr>)))"

fun compile_states :: "cctx \<Rightarrow> rule_compiler \<Rightarrow> nat \<Rightarrow> nat list \<Rightarrow> fault + state_t list" where
  "compile_states cc ctx i [] = Inr []"
| "compile_states cc ctx i (a # as) =
     bnd (compile_state_ast cc ctx i a) (\<lambda>s.
     bnd (compile_states cc ctx (i + 1) as) (\<lambda>ss. Inr (s # ss)))"

text \<open>The numbers of the transitions in the rule.\<close>

fun number_transitions :: "nat \<Rightarrow> state_t list \<Rightarrow> state_t list" where
  "number_transitions tid [] = []"
| "number_transitions tid (s # ss) =
     s\<lparr>st_trans := map2 (\<lambda>t i. t\<lparr>global_id := tid + i\<rparr>) (st_trans s) [0..<length (st_trans s)]\<rparr> #
     number_transitions (tid + length (st_trans s)) ss"

fun sync_array :: "rule_compiler \<Rightarrow> byte list list \<Rightarrow> fault + nat list" where
  "sync_array ctx [] = Inr []"
| "sync_array ctx (v # vs) =
     bnd (strhash_get (rule_env ctx) v) (\<lambda>r. case r of None \<Rightarrow> Inl ExitFailure
     | Some i \<Rightarrow> bnd (sync_array ctx vs) (\<lambda>is. Inr (i # is)))"

fun first_names :: "nat \<Rightarrow> byte list list \<Rightarrow> fault + byte list list" where
  "first_names 0 ns = Inr []"
| "first_names (Suc n) [] = Inl OutOfBounds"
| "first_names (Suc n) (x # xs) = bnd (first_names n xs) (\<lambda>ys. Inr (x # ys))"

definition compile_and_add_rule_ast ::
  "nat \<Rightarrow> nat \<Rightarrow> node_rule \<Rightarrow> rule_compiler \<Rightarrow> fault + rule_compiler" where
  "compile_and_add_rule_ast andand oror nr ctx =
     bnd (strhash_get (rulenames_hash ctx) (nr_name nr)) (\<lambda>r.
     if r \<noteq> None then Inl ExitFailure
     else bnd (first_names (nat (elmts (rule_env ctx))) (dyn_var_name ctx)) (\<lambda>vars.
     bnd (case nr_sync nr of None \<Rightarrow> Inr None
          | Some l \<Rightarrow> bnd (sync_array ctx (nl_items l)) (\<lambda>vs. Inr (Some vs))) (\<lambda>sync.
     case nr_init nr of None \<Rightarrow> Inr ctx
     | Some a \<Rightarrow>
         bnd (compile_states (code_ctx andand oror ctx) ctx 0
               (a # (case nr_states nr of None \<Rightarrow> [] | Some l \<Rightarrow> nl_items l))) (\<lambda>ss.
         bnd (strhash_add (rulenames_hash ctx) (rules ctx) (nr_name nr)) (\<lambda>h.
         Inr (ctx\<lparr>rulenames_hash := h, rules := rules ctx + 1,
           rule_list := rule_list ctx @ [\<lparr>rule_name = nr_name nr, lineno = nr_line nr,
             rule_states = number_transitions 0 ss, rule_static_env = statics ctx,
             dynamic_env_sz = elmts (rule_env ctx), var_name = vars, sync_vars = sync,
             rule_id = rules ctx\<rparr>]\<rparr>))))))"

section \<open>The grammar of a rule\<close>

text \<open>
  The rules of \<open>src/issdl.y\<close> as trees, and the building functions in the order in which the
  parser calls them.  An empty list of actions, of transitions or of parameters is \<open>NULL\<close>.
  The lists that the grammar does not allow to be empty have their first element apart.
\<close>

datatype src_param = PNumber cint | PString "byte list" | PVariable "byte list" | PField "byte list"

datatype src_expr =
  SAssoc "byte list" src_expr
| SBinop nat src_expr src_expr
| SCond nat src_expr src_expr
| SString "byte list"
| SNumber cint
| SVariable "byte list"
| SField "byte list"
| SCtime cint
| SCtimeString "byte list"
| SIpv4 "byte list"
| STimeval cint cint
| STimevalString "byte list" cint
| SCounter cint
| SRegex "byte list"
| SCall "byte list" "src_param list"

datatype src_action =
  SExpr src_expr
| SSplit "byte list" "byte list" "byte list" "byte list list"
| SIf src_expr src_action "src_action list" "src_action list"

datatype src_trans =
  SGoto src_expr "byte list"
| SSub src_expr src_body
| SJump "byte list"
and src_body = Body "src_action list" "src_trans list"

record libc =
  gethostbyname :: "byte list \<Rightarrow> cint option"
  regcomp :: "byte list \<Rightarrow> culong option"

definition parse_param :: "src_param \<Rightarrow> rule_compiler \<Rightarrow> fault + node_expr \<times> rule_compiler" where
  "parse_param p ctx = (case p of PNumber i \<Rightarrow> build_integer i ctx | PString s \<Rightarrow> build_string s ctx
     | PVariable n \<Rightarrow> build_varname n ctx
     | PField n \<Rightarrow> bnd (build_fieldname n ctx) (\<lambda>e. Inr (e, ctx)))"

text \<open>A left-recursive list: the first element builds the list, the others are added.\<close>

fun parse_rest ::
  "('s \<Rightarrow> 'c \<Rightarrow> fault + 'n \<times> 'c) \<Rightarrow> 'n nodelist \<Rightarrow> 's list \<Rightarrow> 'c \<Rightarrow> fault + 'n nodelist \<times> 'c" where
  "parse_rest parse l [] ctx = Inr (l, ctx)"
| "parse_rest parse l (x # xs) ctx =
     bnd (parse x ctx) (\<lambda>(n, ctx). bnd (nodelist_add l n) (\<lambda>l. parse_rest parse l xs ctx))"

definition parse_list ::
  "nat \<Rightarrow> ('s \<Rightarrow> 'c \<Rightarrow> fault + 'n \<times> 'c) \<Rightarrow> 's list \<Rightarrow> 'c \<Rightarrow> fault + 'n nodelist option \<times> 'c" where
  "parse_list room parse xs ctx = (case xs of [] \<Rightarrow> Inr (None, ctx)
     | x # xs \<Rightarrow> bnd (parse x ctx) (\<lambda>(n, ctx).
         bnd (parse_rest parse (nodelist_build room n) xs ctx) (\<lambda>(l, ctx). Inr (Some l, ctx))))"

fun parse_expr :: "libc \<Rightarrow> src_expr \<Rightarrow> rule_compiler \<Rightarrow> fault + node_expr \<times> rule_compiler" where
  "parse_expr c (SAssoc v e) ctx = bnd (parse_expr c e ctx) (\<lambda>(n, ctx). build_assoc v n ctx)"
| "parse_expr c (SBinop op l r) ctx =
     bnd (parse_expr c l ctx) (\<lambda>(m, ctx). bnd (parse_expr c r ctx) (\<lambda>(n, ctx).
     Inr (build_expr_binop op m n, ctx)))"
| "parse_expr c (SCond op l r) ctx =
     bnd (parse_expr c l ctx) (\<lambda>(m, ctx). bnd (parse_expr c r ctx) (\<lambda>(n, ctx).
     Inr (build_expr_cond op m n, ctx)))"
| "parse_expr c (SString s) ctx = build_string s ctx"
| "parse_expr c (SNumber i) ctx = build_integer i ctx"
| "parse_expr c (SVariable v) ctx = build_varname v ctx"
| "parse_expr c (SField f) ctx = bnd (build_fieldname f ctx) (\<lambda>e. Inr (e, ctx))"
| "parse_expr c (SCtime i) ctx = build_ctime_from_int (scast i) ctx"
| "parse_expr c (SCtimeString s) ctx = build_ctime_from_string s ctx"
| "parse_expr c (SIpv4 h) ctx = build_ipv4 (gethostbyname c) h ctx"
| "parse_expr c (STimeval s u) ctx = build_timeval_from_int (scast s) (scast u) ctx"
| "parse_expr c (STimevalString d u) ctx = build_timeval_from_string d (scast u) ctx"
| "parse_expr c (SCounter i) ctx = build_counter (scast i) ctx"
| "parse_expr c (SRegex s) ctx = build_regex (regcomp c) s ctx"
| "parse_expr c (SCall f ps) ctx =
     bnd (parse_list 8 parse_param ps ctx) (\<lambda>(l, ctx).
     bnd (build_function_call f l ctx) (\<lambda>n. Inr (n, ctx)))"

text \<open>The resource number of a variable or of a constant.\<close>

fun res_id :: "node_expr \<Rightarrow> nat" where
  "res_id (NODE_VARIABLE i) = i"
| "res_id (NODE_CONST i) = i"
| "res_id _ = 0"

definition parse_var :: "byte list \<Rightarrow> rule_compiler \<Rightarrow> fault + nat \<times> rule_compiler" where
  "parse_var v ctx = bnd (build_varname v ctx) (\<lambda>(n, ctx). Inr (res_id n, ctx))"

definition parse_split ::
  "libc \<Rightarrow> byte list \<Rightarrow> byte list \<Rightarrow> byte list \<Rightarrow> byte list list \<Rightarrow> rule_compiler \<Rightarrow>
   fault + node_expr \<times> rule_compiler" where
  "parse_split c v pat v1 vs ctx =
     bnd (build_varname v ctx) (\<lambda>(src, ctx).
     bnd (build_split_regex (regcomp c) pat ctx) (\<lambda>(p, ctx).
     bnd (parse_var v1 ctx) (\<lambda>(i, ctx).
     bnd (parse_rest parse_var (build_varlist i) vs ctx) (\<lambda>(l, ctx).
     build_string_split src (res_id p) l ctx))))"

fun parse_action :: "libc \<Rightarrow> src_action \<Rightarrow> rule_compiler \<Rightarrow> fault + node_expr \<times> rule_compiler"
  and parse_actions ::
    "libc \<Rightarrow> node_expr nodelist \<Rightarrow> src_action list \<Rightarrow> rule_compiler \<Rightarrow>
     fault + node_expr nodelist \<times> rule_compiler" where
  "parse_action c (SExpr e) ctx = parse_expr c e ctx"
| "parse_action c (SSplit v pat v1 vs) ctx = parse_split c v pat v1 vs ctx"
| "parse_action c (SIf e a as els) ctx =
     bnd (parse_expr c e ctx) (\<lambda>(n, ctx).
     bnd (parse_action c a ctx) (\<lambda>(n1, ctx).
     bnd (parse_actions c (build_actionlist n1) as ctx) (\<lambda>(th, ctx).
     case els of [] \<Rightarrow> Inr (build_expr_ifstmt n th None, ctx)
     | b # bs \<Rightarrow>
         bnd (parse_action c b ctx) (\<lambda>(n2, ctx).
         bnd (parse_actions c (build_actionlist n2) bs ctx) (\<lambda>(el, ctx).
         Inr (build_expr_ifstmt n th (Some el), ctx))))))"
| "parse_actions c l [] ctx = Inr (l, ctx)"
| "parse_actions c l (a # as) ctx =
     bnd (parse_action c a ctx) (\<lambda>(n, ctx).
     bnd (actionlist_add l n) (\<lambda>l. parse_actions c l as ctx))"

definition parse_actionlist ::
  "libc \<Rightarrow> src_action list \<Rightarrow> rule_compiler \<Rightarrow> fault + node_expr nodelist option \<times> rule_compiler" where
  "parse_actionlist c as ctx = (case as of [] \<Rightarrow> Inr (None, ctx)
     | a # as \<Rightarrow> bnd (parse_action c a ctx) (\<lambda>(n, ctx).
         bnd (parse_actions c (build_actionlist n) as ctx) (\<lambda>(l, ctx). Inr (Some l, ctx))))"

fun parse_trans :: "libc \<Rightarrow> src_trans \<Rightarrow> rule_compiler \<Rightarrow> fault + node_trans \<times> rule_compiler"
  and parse_transs ::
    "libc \<Rightarrow> node_trans nodelist \<Rightarrow> src_trans list \<Rightarrow> rule_compiler \<Rightarrow>
     fault + node_trans nodelist \<times> rule_compiler"
  and parse_body :: "libc \<Rightarrow> src_body \<Rightarrow> rule_compiler \<Rightarrow> fault + nat \<times> rule_compiler" where
  "parse_trans c (SGoto e d) ctx =
     bnd (parse_expr c e ctx) (\<lambda>(n, ctx). Inr (build_direct_transition (Some n) d, ctx))"
| "parse_trans c (SSub e b) ctx =
     bnd (parse_expr c e ctx) (\<lambda>(n, ctx). bnd (parse_body c b ctx) (\<lambda>(a, ctx).
     Inr (build_indirect_transition n a, ctx)))"
| "parse_trans c (SJump d) ctx = Inr (build_unconditional_transition_test d, ctx)"
| "parse_transs c l [] ctx = Inr (l, ctx)"
| "parse_transs c l (t # ts) ctx =
     bnd (parse_trans c t ctx) (\<lambda>(n, ctx).
     bnd (transitionlist_add l n) (\<lambda>l. parse_transs c l ts ctx))"
| "parse_body c (Body as ts) ctx =
     bnd (parse_actionlist c as ctx) (\<lambda>(actions, ctx).
     case ts of [] \<Rightarrow> Inr (build_state actions None ctx)
     | t # ts \<Rightarrow>
         bnd (parse_trans c t ctx) (\<lambda>(n, ctx).
         bnd (parse_transs c (build_transitionlist n) ts ctx) (\<lambda>(l, ctx).
         Inr (build_state actions (Some l) ctx))))"

record src_state =
  src_sym :: symbol_token
  src_body :: src_body

definition parse_state :: "libc \<Rightarrow> src_state \<Rightarrow> rule_compiler \<Rightarrow> fault + nat \<times> rule_compiler" where
  "parse_state c d ctx = bnd (parse_body c (src_body d) ctx) (\<lambda>(a, ctx).
     bnd (set_state_label a (src_sym d) 0 ctx) (\<lambda>ctx. Inr (a, ctx)))"

fun parse_more ::
  "libc \<Rightarrow> nat nodelist \<Rightarrow> src_state list \<Rightarrow> rule_compiler \<Rightarrow> fault + nat nodelist \<times> rule_compiler" where
  "parse_more c l [] ctx = Inr (l, ctx)"
| "parse_more c l (d # ds) ctx =
     bnd (parse_state c d ctx) (\<lambda>(a, ctx). bnd (statelist_add l a ctx) (\<lambda>(l, ctx).
     parse_more c l ds ctx))"

definition parse_states ::
  "libc \<Rightarrow> src_state list \<Rightarrow> rule_compiler \<Rightarrow> fault + nat nodelist option \<times> rule_compiler" where
  "parse_states c ds ctx = (case ds of [] \<Rightarrow> Inr (None, ctx)
     | d # ds \<Rightarrow> bnd (parse_state c d ctx) (\<lambda>(a, ctx). bnd (build_statelist a ctx) (\<lambda>(l, ctx).
         bnd (parse_more c l ds ctx) (\<lambda>(l, ctx). Inr (Some l, ctx)))))"

record src_rule =
  src_name :: symbol_token
  src_sync :: "byte list list"
  src_init :: src_state
  src_states :: "src_state list"

fun parse_sync :: "byte list nodelist \<Rightarrow> byte list list \<Rightarrow> fault + byte list nodelist" where
  "parse_sync l [] = Inr l"
| "parse_sync l (v # vs) = bnd (syncvarlist_add l v) (\<lambda>l. parse_sync l vs)"

text \<open>The production \<open>rule\<close> and the action of \<open>rulelist\<close>.  The numbers of the tokens \<open>&&\<close>
  and \<open>||\<close> are chosen by the parser generator.\<close>

definition parse_rule_node ::
  "libc \<Rightarrow> src_rule \<Rightarrow> rule_compiler \<Rightarrow> fault + node_rule \<times> rule_compiler" where
  "parse_rule_node c r ctx =
     bnd (case src_sync r of [] \<Rightarrow> Inr None
          | v # vs \<Rightarrow> bnd (parse_sync (build_syncvarlist v) vs) (\<lambda>l. Inr (Some l))) (\<lambda>sync.
     bnd (parse_state c (src_init r) ctx) (\<lambda>(a, ctx).
     bnd (parse_states c (src_states r) ctx) (\<lambda>(l, ctx).
     Inr (build_rule (src_name r) (Some a) l sync, ctx))))"

definition parse_rule ::
  "libc \<Rightarrow> nat \<Rightarrow> nat \<Rightarrow> src_rule \<Rightarrow> rule_compiler \<Rightarrow> fault + rule_compiler" where
  "parse_rule c andand oror r ctx =
     bnd (parse_rule_node c r ctx) (\<lambda>(n, ctx).
     bnd (compile_and_add_rule_ast andand oror n ctx) (\<lambda>ctx. Inr (compiler_reset ctx)))"

fun parse_rules ::
  "libc \<Rightarrow> nat \<Rightarrow> nat \<Rightarrow> src_rule list \<Rightarrow> rule_compiler \<Rightarrow> fault + rule_compiler" where
  "parse_rules c andand oror [] ctx = Inr ctx"
| "parse_rules c andand oror (r # rs) ctx =
     bnd (parse_rule c andand oror r ctx) (parse_rules c andand oror rs)"

end
