(* ===== verification/Engine.thy ===== *)
theory Engine
  imports Rule_Builder
begin

text \<open>
  \<open>src/engine.c\<close>: the rule engine.  Threads, state instances, rule instances and active events
  are blocks that refer to each other by pointers; each kind has a store of its own, and a
  block that is freed is \<open>None\<close>.  Addresses are not reused.  The variables and the stack of
  the virtual machine are the machine state of \<open>Ovm\<close>.  \<open>NoReturn\<close> stands for a bytecode, a
  walk or a recursion for which the fuel is not enough.
\<close>

section \<open>State\<close>

record wait_thread =
  t_next :: "nat option"
  t_trans :: transition_t
  t_inst :: nat
  t_bump :: bool
  t_onlyonce :: bool
  t_killed :: bool
  t_pass :: nat
  t_next_in_inst :: "nat option"
  t_timeout :: clong

record state_instance =
  si_state :: nat
  si_rule :: nat
  si_first_child :: "nat option"
  si_next_sibling :: "nat option"
  si_parent :: "nat option"
  si_event :: "nat option"
  si_inherit :: "nat option list option"
  si_current :: "nat option list option"
  si_retrig_next :: "nat option"
  si_depth :: nat
  si_threads :: "nat option"

record rule_instance =
  ri_rule :: nat
  ri_first_state :: nat
  ri_next :: "nat option"
  ri_state_list :: "nat option"
  ri_threads :: int
  ri_killed :: bool
  ri_inuse :: bool
  ri_created :: clong
  ri_locks :: "nat list"

type_synonym event = "(nat \<times> nat option) list"

record active_event =
  ae_event :: event
  ae_next :: "nat option"
  ae_prev :: "nat option"
  ae_refs :: int

record engine =
  en_fresh :: nat
  threads_st :: "nat \<Rightarrow> wait_thread option"
  insts_st :: "nat \<Rightarrow> state_instance option"
  rinsts_st :: "nat \<Rightarrow> rule_instance option"
  aevents_st :: "nat \<Rightarrow> active_event option"
  vm :: ovm
  global_fields :: "nat option list"
  sync_locks :: "nat \<Rightarrow> (nat, nat) htab"
  rule_uses :: "nat \<Rightarrow> int"
  first_rule_instance :: "nat option"
  current_tail :: "nat option"
  cur_retrig_qh :: "nat option"
  cur_retrig_qt :: "nat option"
  new_qh :: "nat option"
  new_qt :: "nat option"
  retrig_qh :: "nat option"
  retrig_qt :: "nat option"
  active_event_head :: "nat option"
  active_event_tail :: "nat option"
  active_event_cur :: "nat option"
  en_events :: int
  active_events :: int
  rule_instances :: int
  state_instances :: int
  en_threads :: int

text \<open>
  What does not change while an event is injected: the rules with the pointers of their static
  environments, the machine context, the time, the hooks, and the fuel.
\<close>

record engine_cfg =
  cfg_rules :: "rule_t list"
  cfg_statics :: "nat option list list"
  cfg_vm :: ovm_ctx
  cfg_time :: clong
  cfg_pre_hook :: "event \<Rightarrow> engine \<Rightarrow> fault + engine"
  cfg_post_hook :: "event \<Rightarrow> engine \<Rightarrow> fault + engine"
  cfg_fuel :: nat

section \<open>Access to the stores\<close>

definition lookup :: "(nat \<Rightarrow> 'a option) \<Rightarrow> nat option \<Rightarrow> fault + 'a" where
  "lookup st p = (case p of None \<Rightarrow> Inl NullDeref | Some a \<Rightarrow>
     (case st a of None \<Rightarrow> Inl DeadAccess | Some x \<Rightarrow> Inr x))"

definition thread_at :: "nat \<Rightarrow> engine \<Rightarrow> fault + wait_thread" where
  "thread_at t s = lookup (threads_st s) (Some t)"
definition inst_at :: "nat \<Rightarrow> engine \<Rightarrow> fault + state_instance" where
  "inst_at a s = lookup (insts_st s) (Some a)"
definition rinst_at :: "nat \<Rightarrow> engine \<Rightarrow> fault + rule_instance" where
  "rinst_at r s = lookup (rinsts_st s) (Some r)"
definition aevent_at :: "nat \<Rightarrow> engine \<Rightarrow> fault + active_event" where
  "aevent_at e s = lookup (aevents_st s) (Some e)"

definition upd_thread :: "nat \<Rightarrow> (wait_thread \<Rightarrow> wait_thread) \<Rightarrow> engine \<Rightarrow> fault + engine" where
  "upd_thread t f s = bnd (thread_at t s) (\<lambda>x. Inr (s\<lparr>threads_st := (threads_st s)(t \<mapsto> f x)\<rparr>))"
definition upd_inst :: "nat \<Rightarrow> (state_instance \<Rightarrow> state_instance) \<Rightarrow> engine \<Rightarrow> fault + engine" where
  "upd_inst a f s = bnd (inst_at a s) (\<lambda>x. Inr (s\<lparr>insts_st := (insts_st s)(a \<mapsto> f x)\<rparr>))"
definition upd_rinst :: "nat \<Rightarrow> (rule_instance \<Rightarrow> rule_instance) \<Rightarrow> engine \<Rightarrow> fault + engine" where
  "upd_rinst r f s = bnd (rinst_at r s) (\<lambda>x. Inr (s\<lparr>rinsts_st := (rinsts_st s)(r \<mapsto> f x)\<rparr>))"
definition upd_aevent :: "nat \<Rightarrow> (active_event \<Rightarrow> active_event) \<Rightarrow> engine \<Rightarrow> fault + engine" where
  "upd_aevent e f s = bnd (aevent_at e s) (\<lambda>x. Inr (s\<lparr>aevents_st := (aevents_st s)(e \<mapsto> f x)\<rparr>))"

text \<open>A pointer that may be \<open>NULL\<close> is changed only when it is not.\<close>

definition when_some :: "nat option \<Rightarrow> (nat \<Rightarrow> engine \<Rightarrow> fault + engine) \<Rightarrow> engine \<Rightarrow> fault + engine" where
  "when_some p f s = (case p of None \<Rightarrow> Inr s | Some a \<Rightarrow> f a s)"

text \<open>The blocks of a list that is linked by the field \<open>nxt\<close>.\<close>

fun chain :: "nat \<Rightarrow> (nat \<Rightarrow> 'a option) \<Rightarrow> ('a \<Rightarrow> nat option) \<Rightarrow> nat option \<Rightarrow> fault + nat list" where
  "chain n st nxt None = Inr []"
| "chain 0 st nxt (Some a) = Inl NoReturn"
| "chain (Suc n) st nxt (Some a) = bnd (lookup st (Some a)) (\<lambda>x.
     bnd (chain n st nxt (nxt x)) (\<lambda>as. Inr (a # as)))"

text \<open>The rule of a state instance.\<close>

definition rule_at :: "engine_cfg \<Rightarrow> nat \<Rightarrow> engine \<Rightarrow> fault + rule_t" where
  "rule_at cfg r s = bnd (rinst_at r s) (\<lambda>ri. at (cfg_rules cfg) (ri_rule ri))"

definition state_of :: "engine_cfg \<Rightarrow> nat \<Rightarrow> engine \<Rightarrow> fault + state_t" where
  "state_of cfg a s = bnd (inst_at a s) (\<lambda>i. bnd (rule_at cfg (si_rule i) s) (\<lambda>r.
     at (rule_states r) (si_state i)))"

text \<open>\<open>ovm_exec\<close> for a state instance.\<close>

definition exec_in :: "engine_cfg \<Rightarrow> nat \<Rightarrow> culong list \<Rightarrow> engine \<Rightarrow> fault + int \<times> engine" where
  "exec_in cfg a code s =
     bnd (inst_at a s) (\<lambda>i. bnd (rinst_at (si_rule i) s) (\<lambda>r.
     bnd (at (cfg_statics cfg) (ri_rule r)) (\<lambda>statics.
     case ovm_exec (cfg_fuel cfg)
         ((cfg_vm cfg)\<lparr>static_env := statics, field_vals := global_fields s\<rparr>) code
         ((vm s)\<lparr>current_env := si_current i, inherit_env := si_inherit i\<rparr>) of
       None \<Rightarrow> Inl NoReturn
     | Some res \<Rightarrow> bnd res (\<lambda>(ret, m). Inr (ret, s\<lparr>vm := m,
         insts_st := (insts_st s)(a \<mapsto> i\<lparr>si_current := current_env m\<rparr>)\<rparr>)))))"

section \<open>Synchronisation\<close>

text \<open>The value of a variable in a state instance: its own, or the inherited one.\<close>

definition env_entry :: "nat option list option \<Rightarrow> nat \<Rightarrow> fault + nat option" where
  "env_entry env v = (case env of None \<Rightarrow> Inl NullDeref | Some e \<Rightarrow> at e v)"

definition env_value :: "state_instance \<Rightarrow> nat \<Rightarrow> fault + nat option" where
  "env_value i v = bnd (env_entry (si_current i) v) (\<lambda>p. if p \<noteq> None then Inr p else env_entry (si_inherit i) v)"

definition sync_list :: "rule_t \<Rightarrow> nat list" where
  "sync_list r = (case sync_vars r of None \<Rightarrow> [] | Some vs \<Rightarrow> vs)"

fun all_defined :: "state_instance \<Rightarrow> nat list \<Rightarrow> fault + bool" where
  "all_defined i [] = Inr True"
| "all_defined i (v # vs) = bnd (env_value i v) (\<lambda>p. if p = None then Inr False else all_defined i vs)"

definition sync_var_env_is_defined :: "engine_cfg \<Rightarrow> nat \<Rightarrow> engine \<Rightarrow> fault + bool" where
  "sync_var_env_is_defined cfg a s =
     bnd (inst_at a s) (\<lambda>i. bnd (rule_at cfg (si_rule i) s) (\<lambda>r. all_defined i (sync_list r)))"

text \<open>\<open>datahash_pjw\<close> continues a hash code over a block; characters are signed.\<close>

definition datahash_step :: "culong \<Rightarrow> byte \<Rightarrow> culong" where
  "datahash_step h b =
     (let h = push_bit 4 h + scast b; g = h AND 0xF0000000
      in if g \<noteq> 0 then xor (xor h (drop_bit 28 g)) g else h)"

definition datahash_pjw :: "culong \<Rightarrow> byte list \<Rightarrow> culong" where
  "datahash_pjw h bs = foldl datahash_step h bs"

text \<open>The number of the variable, the number of its type and its data.\<close>

definition hash_sync_var :: "culong \<Rightarrow> nat \<Rightarrow> ovm_data \<Rightarrow> culong" where
  "hash_sync_var h v d =
     datahash_pjw (datahash_pjw (datahash_pjw h (bytes_le 4 (of_nat v :: cint)))
       (bytes_le 4 (word_of_int (type_id d) :: cint)))
       (case issdl_get_data d of None \<Rightarrow> [] | Some bs \<Rightarrow> bs)"

fun hash_sync :: "ovm \<Rightarrow> state_instance \<Rightarrow> culong \<Rightarrow> nat list \<Rightarrow> fault + culong" where
  "hash_sync m i h [] = Inr h"
| "hash_sync m i h (v # vs) =
     bnd (env_value i v) (\<lambda>p. bnd (deref m p) (\<lambda>x. hash_sync m i (hash_sync_var h v (vdata x)) vs))"

definition objhash_rule_instance :: "engine_cfg \<Rightarrow> nat \<Rightarrow> engine \<Rightarrow> fault + culong" where
  "objhash_rule_instance cfg a s = bnd (inst_at a s) (\<lambda>i. bnd (rule_at cfg (si_rule i) s) (\<lambda>r.
     hash_sync (vm s) i 0 (sync_list r)))"

fun cmp_sync :: "ovm \<Rightarrow> state_instance \<Rightarrow> state_instance \<Rightarrow> nat list \<Rightarrow> fault + bool" where
  "cmp_sync m i j [] = Inr True"
| "cmp_sync m i j (v # vs) =
     bnd (env_value i v) (\<lambda>p. bnd (env_value j v) (\<lambda>q.
     bnd (deref m p) (\<lambda>x. bnd (deref m q) (\<lambda>y.
     bnd (issdl_cmp (vdata x) (vdata y)) (\<lambda>c. if c \<noteq> 0 then Inr False else cmp_sync m i j vs)))))"

definition objhash_rule_instance_cmp :: "engine_cfg \<Rightarrow> nat \<Rightarrow> nat \<Rightarrow> engine \<Rightarrow> fault + bool" where
  "objhash_rule_instance_cmp cfg a b s =
     bnd (inst_at a s) (\<lambda>i. bnd (inst_at b s) (\<lambda>j. bnd (rule_at cfg (si_rule i) s) (\<lambda>r.
     cmp_sync (vm s) i j (sync_list r))))"

text \<open>The operations on the lock table of a rule, with this hash function and comparison.\<close>

fun find_lock :: "engine_cfg \<Rightarrow> nat \<Rightarrow> (nat \<times> nat) list \<Rightarrow> engine \<Rightarrow> fault + nat option" where
  "find_lock cfg a [] s = Inr None"
| "find_lock cfg a ((k, d) # es) s =
     bnd (objhash_rule_instance_cmp cfg a k s) (\<lambda>eq. if eq then Inr (Some d) else find_lock cfg a es s)"

definition lock_slot :: "engine_cfg \<Rightarrow> nat \<Rightarrow> (nat, nat) htab \<Rightarrow> engine \<Rightarrow> fault + nat" where
  "lock_slot cfg a tbl s = bnd (objhash_rule_instance cfg a s) (\<lambda>h. tab_slot (\<lambda>_. h) tbl a)"

definition lock_get :: "engine_cfg \<Rightarrow> nat \<Rightarrow> nat \<Rightarrow> engine \<Rightarrow> fault + nat option" where
  "lock_get cfg rule a s = bnd (lock_slot cfg a (sync_locks s rule) s) (\<lambda>i.
     find_lock cfg a (htable (sync_locks s rule) ! i) s)"

definition lock_add :: "engine_cfg \<Rightarrow> nat \<Rightarrow> nat \<Rightarrow> engine \<Rightarrow> fault + engine" where
  "lock_add cfg rule a s = bnd (lock_slot cfg a (sync_locks s rule) s) (\<lambda>i.
     Inr (s\<lparr>sync_locks := (sync_locks s)(rule := link_front i a a (sync_locks s rule))\<rparr>))"

fun unlink_lock :: "engine_cfg \<Rightarrow> nat \<Rightarrow> (nat \<times> nat) list \<Rightarrow> engine \<Rightarrow> fault + (nat \<times> nat) list" where
  "unlink_lock cfg a [] s = Inr []"
| "unlink_lock cfg a ((k, d) # es) s =
     bnd (objhash_rule_instance_cmp cfg a k s) (\<lambda>eq. if eq then Inr es
     else bnd (unlink_lock cfg a es s) (\<lambda>es'. Inr ((k, d) # es')))"

definition lock_del :: "engine_cfg \<Rightarrow> nat \<Rightarrow> nat \<Rightarrow> engine \<Rightarrow> fault + engine" where
  "lock_del cfg rule a s = bnd (lock_slot cfg a (sync_locks s rule) s) (\<lambda>i.
     bnd (unlink_lock cfg a (htable (sync_locks s rule) ! i) s) (\<lambda>es.
     Inr (s\<lparr>sync_locks := (sync_locks s)(rule :=
       (sync_locks s rule)\<lparr>htable := (htable (sync_locks s rule))[i := es]\<rparr>)\<rparr>)))"

section \<open>Creation of instances\<close>

text \<open>The environment that a child inherits: the own value of the parent, or its inherited one.\<close>

fun inherit_from :: "nat option list option \<Rightarrow> nat option list option \<Rightarrow> nat \<Rightarrow> nat \<Rightarrow> fault + nat option list" where
  "inherit_from cur inh i 0 = Inr []"
| "inherit_from cur inh i (Suc n) =
     (case cur of None \<Rightarrow> Inl NullDeref | Some c \<Rightarrow>
        bnd (at c i) (\<lambda>p.
        bnd (if p \<noteq> None then Inr p else case inh of None \<Rightarrow> Inl NullDeref | Some e \<Rightarrow> at e i) (\<lambda>p.
        bnd (inherit_from cur inh (i + 1) n) (\<lambda>ps. Inr (p # ps)))))"

definition create_state_instance :: "engine_cfg \<Rightarrow> nat \<Rightarrow> nat \<Rightarrow> engine \<Rightarrow> fault + nat \<times> engine" where
  "create_state_instance cfg st parent s =
     bnd (inst_at parent s) (\<lambda>p. bnd (rule_at cfg (si_rule p) s) (\<lambda>r.
     let n = nat (dynamic_env_sz r) in
     bnd (inherit_from (si_current p) (si_inherit p) 0 n) (\<lambda>inh.
     let a = en_fresh s in
     Inr (a, s\<lparr>en_fresh := Suc a, state_instances := state_instances s + 1,
       insts_st := (insts_st s)(a \<mapsto>
         \<lparr>si_state = st, si_rule = si_rule p, si_first_child = None, si_next_sibling = None,
          si_parent = None, si_event = None, si_inherit = (if n = 0 then None else Some inh),
          si_current = (if n = 0 then None else Some (replicate n None)), si_retrig_next = None,
          si_depth = si_depth p + 1, si_threads = None\<rparr>)\<rparr>))))"

text \<open>The first state of a rule; \<open>new_rule\<close> will be the address of the rule instance.\<close>

definition create_init_state_instance :: "rule_t \<Rightarrow> nat \<Rightarrow> engine \<Rightarrow> nat \<times> engine" where
  "create_init_state_instance r new_rule s =
     (let n = nat (dynamic_env_sz r); a = en_fresh s; env = (if n = 0 then None else Some (replicate n None))
      in (a, s\<lparr>en_fresh := Suc a, state_instances := state_instances s + 1,
       insts_st := (insts_st s)(a \<mapsto>
         \<lparr>si_state = 0, si_rule = new_rule, si_first_child = None, si_next_sibling = None,
          si_parent = None, si_event = None, si_inherit = env, si_current = env,
          si_retrig_next = None, si_depth = 0, si_threads = None\<rparr>)\<rparr>))"

text \<open>A new state instance becomes a child of its parent and the head of the list of the
  rule instance.\<close>

definition link_state :: "nat \<Rightarrow> nat \<Rightarrow> engine \<Rightarrow> fault + engine" where
  "link_state a parent s =
     bnd (inst_at parent s) (\<lambda>p.
     bnd (upd_inst a (\<lambda>x. x\<lparr>si_next_sibling := si_first_child p, si_parent := Some parent\<rparr>) s) (\<lambda>s.
     bnd (upd_inst parent (\<lambda>x. x\<lparr>si_first_child := Some a\<rparr>) s) (\<lambda>s.
     bnd (rinst_at (si_rule p) s) (\<lambda>r.
     bnd (upd_inst a (\<lambda>x. x\<lparr>si_retrig_next := ri_state_list r\<rparr>) s) (\<lambda>s.
     upd_rinst (si_rule p) (\<lambda>x. x\<lparr>ri_state_list := Some a\<rparr>) s)))))"

section \<open>Killing threads\<close>

text \<open>The threads of a list whose state instance belongs to the rule instance are marked.\<close>

fun kill_threads :: "nat \<Rightarrow> nat list \<Rightarrow> engine \<Rightarrow> fault + engine" where
  "kill_threads r [] s = Inr s"
| "kill_threads r (t # ts) s =
     bnd (thread_at t s) (\<lambda>x. bnd (inst_at (t_inst x) s) (\<lambda>i.
     bnd (if si_rule i = r then upd_thread t (\<lambda>x. x\<lparr>t_killed := True\<rparr>) s else Inr s) (\<lambda>s.
     kill_threads r ts s)))"

definition kill_queue :: "nat \<Rightarrow> nat option \<Rightarrow> engine \<Rightarrow> fault + engine" where
  "kill_queue r p s = bnd (chain (en_fresh s) (threads_st s) t_next p) (\<lambda>ts. kill_threads r ts s)"

text \<open>The walk over the new threads reads them and only reports.\<close>

fun look_at_threads :: "nat list \<Rightarrow> engine \<Rightarrow> fault + engine" where
  "look_at_threads [] s = Inr s"
| "look_at_threads (t # ts) s =
     bnd (thread_at t s) (\<lambda>x. bnd (inst_at (t_inst x) s) (\<lambda>_. look_at_threads ts s))"

definition mark_dead_rule :: "nat \<Rightarrow> engine \<Rightarrow> fault + engine" where
  "mark_dead_rule r s =
     bnd (kill_queue r (cur_retrig_qh s) s) (\<lambda>s. bnd (kill_queue r (retrig_qh s) s) (\<lambda>s.
     bnd (kill_queue r (current_tail s) s) (\<lambda>s.
     bnd (bnd (chain (en_fresh s) (threads_st s) t_next (new_qh s)) (\<lambda>ts. look_at_threads ts s)) (\<lambda>s.
     upd_rinst r (\<lambda>x. x\<lparr>ri_killed := True\<rparr>) s))))"

section \<open>Simulation of a state\<close>

definition DEFAULT_TIMEOUT :: clong where "DEFAULT_TIMEOUT = 600"

text \<open>A new thread waits at the end of the queue of new threads.\<close>

definition new_thread :: "engine_cfg \<Rightarrow> nat \<Rightarrow> transition_t \<Rightarrow> bool \<Rightarrow> engine \<Rightarrow> fault + engine" where
  "new_thread cfg a tr once s =
     bnd (inst_at a s) (\<lambda>i.
     bnd (upd_rinst (si_rule i) (\<lambda>r. r\<lparr>ri_threads := ri_threads r + 1\<rparr>) s) (\<lambda>s.
     let t = en_fresh s;
         s = s\<lparr>en_fresh := Suc t, en_threads := en_threads s + 1,
           threads_st := (threads_st s)(t \<mapsto>
             \<lparr>t_next = None, t_trans = tr, t_inst = a, t_bump = False, t_onlyonce = once,
              t_killed = False, t_pass = 0, t_next_in_inst = (if once then None else si_threads i),
              t_timeout = cfg_time cfg + DEFAULT_TIMEOUT\<rparr>)\<rparr>
     in bnd (if once then Inr s else upd_inst a (\<lambda>x. x\<lparr>si_threads := Some t\<rparr>) s) (\<lambda>s.
        case new_qt s of
          Some q \<Rightarrow> bnd (upd_thread q (\<lambda>x. x\<lparr>t_next := Some t\<rparr>) s) (\<lambda>s. Inr (s\<lparr>new_qt := Some t\<rparr>))
        | None \<Rightarrow> Inr (s\<lparr>new_qh := Some t, new_qt := Some t\<rparr>))))"

text \<open>The lock of the synchronisation variables: \<open>False\<close> when another rule instance has it.\<close>

definition check_sync :: "engine_cfg \<Rightarrow> nat \<Rightarrow> bool \<Rightarrow> engine \<Rightarrow> fault + bool \<times> engine" where
  "check_sync cfg a once s =
     bnd (inst_at a s) (\<lambda>i. bnd (rinst_at (si_rule i) s) (\<lambda>r. bnd (rule_at cfg (si_rule i) s) (\<lambda>rule.
     if sync_vars rule = None then Inr (True, s) else
     bnd (sync_var_env_is_defined cfg a s) (\<lambda>def. if \<not> def then Inr (True, s) else
     bnd (lock_get cfg (ri_rule r) a s) (\<lambda>lock. case lock of
       Some b \<Rightarrow> bnd (inst_at b s) (\<lambda>j. Inr (si_rule j = si_rule i, s))
     | None \<Rightarrow> if once then Inr (True, s) else
         bnd (lock_add cfg (ri_rule r) a s) (\<lambda>s.
         bnd (upd_rinst (si_rule i) (\<lambda>r. r\<lparr>ri_locks := a # ri_locks r\<rparr>) s) (\<lambda>s. Inr (True, s))))))))"

function (sequential)
  simulate_state_and_create_threads ::
    "nat \<Rightarrow> engine_cfg \<Rightarrow> nat \<Rightarrow> bool \<Rightarrow> engine \<Rightarrow> fault + int \<times> engine" and
  simulate_transitions ::
    "nat \<Rightarrow> engine_cfg \<Rightarrow> nat \<Rightarrow> bool \<Rightarrow> transition_t list \<Rightarrow> int \<Rightarrow> engine \<Rightarrow> fault + int \<times> engine" where
  "simulate_state_and_create_threads 0 cfg a once s = Inl NoReturn"
| "simulate_state_and_create_threads (Suc n) cfg a once s =
     bnd (state_of cfg a s) (\<lambda>st.
     bnd (case st_action st of None \<Rightarrow> Inr s
          | Some code \<Rightarrow> bnd (exec_in cfg a code s) (\<lambda>(_, s). Inr s)) (\<lambda>s.
     if st_trans st = [] then
       bnd (inst_at a s) (\<lambda>i. bnd (mark_dead_rule (si_rule i) s) (\<lambda>s. Inr (-1, s)))
     else
       bnd (check_sync cfg a once s) (\<lambda>(go, s). if \<not> go then Inr (-1, s)
       else simulate_transitions n cfg a once (st_trans st) 0 s)))"
| "simulate_transitions n cfg a once [] created s = Inr (created, s)"
| "simulate_transitions n cfg a once (tr # trs) created s =
     (if required_fields tr = [] then
        bnd (case eval_code tr of None \<Rightarrow> Inr (0, s) | Some code \<Rightarrow> exec_in cfg a code s) (\<lambda>(vmret, s).
        if vmret = 0 then
          (case tr_dest tr of None \<Rightarrow> Inl NullDeref | Some d \<Rightarrow>
             bnd (create_state_instance cfg d a s) (\<lambda>(b, s). bnd (link_state b a s) (\<lambda>s.
             bnd (simulate_state_and_create_threads n cfg b once s) (\<lambda>(ret, s).
             if ret < 0 then Inr (- created + ret, s)
             else simulate_transitions n cfg a once trs (created + ret) s))))
        else simulate_transitions n cfg a once trs created s)
      else bnd (new_thread cfg a tr once s) (simulate_transitions n cfg a once trs (created + 1)))"
  by pat_completeness auto
termination
  by (relation "measures [\<lambda>x. case x of Inl (n, _) \<Rightarrow> n | Inr (n, _) \<Rightarrow> n,
        \<lambda>x. case x of Inl _ \<Rightarrow> 0 | Inr (_, _, _, _, trs, _) \<Rightarrow> Suc (length trs)]") auto

section \<open>Releasing a rule instance\<close>

fun delete_locks :: "engine_cfg \<Rightarrow> nat \<Rightarrow> nat list \<Rightarrow> engine \<Rightarrow> fault + engine" where
  "delete_locks cfg rule [] s = Inr s"
| "delete_locks cfg rule (a # as) s = bnd (lock_del cfg rule a s) (delete_locks cfg rule as)"

text \<open>The variables of an environment that the engine may free.\<close>

fun free_env :: "nat option list \<Rightarrow> engine \<Rightarrow> fault + engine" where
  "free_env [] s = Inr s"
| "free_env (None # ps) s = free_env ps s"
| "free_env (Some p # ps) s =
     bnd (deref (vm s) (Some p)) (\<lambda>v.
     bnd (if can_free_var v then free_var (Some p) (vm s) else Inr (vm s)) (\<lambda>m.
     free_env ps (s\<lparr>vm := m\<rparr>)))"

definition free_instance :: "nat \<Rightarrow> engine \<Rightarrow> fault + engine" where
  "free_instance a s = bnd (inst_at a s) (\<lambda>i.
     bnd (case si_current i of None \<Rightarrow> Inr s | Some env \<Rightarrow> free_env env s) (\<lambda>s.
     Inr (s\<lparr>insts_st := (insts_st s)(a := None), state_instances := state_instances s - 1\<rparr>)))"

text \<open>\<open>free_event\<close> of \<open>src/orchids_api.c\<close>: the values of an event and its records.\<close>

fun free_event :: "event \<Rightarrow> engine \<Rightarrow> fault + engine" where
  "free_event [] s = Inr s"
| "free_event ((f, p) # es) s = bnd (free_var p (vm s)) (\<lambda>m. free_event es (s\<lparr>vm := m\<rparr>))"

text \<open>An active event leaves the list.\<close>

definition unlink_active_event :: "nat \<Rightarrow> engine \<Rightarrow> fault + engine" where
  "unlink_active_event e s =
     bnd (aevent_at e s) (\<lambda>x. case (ae_prev x, ae_next x) of
       (None, None) \<Rightarrow> Inr (s\<lparr>active_event_head := None, active_event_tail := None\<rparr>)
     | (None, Some n) \<Rightarrow>
         bnd (upd_aevent n (\<lambda>y. y\<lparr>ae_prev := None\<rparr>) (s\<lparr>active_event_head := Some n\<rparr>)) Inr
     | (Some p, None) \<Rightarrow>
         bnd (upd_aevent p (\<lambda>y. y\<lparr>ae_next := None\<rparr>) s) (\<lambda>s. Inr (s\<lparr>active_event_tail := Some p\<rparr>))
     | (Some p, Some n) \<Rightarrow>
         bnd (upd_aevent p (\<lambda>y. y\<lparr>ae_next := Some n\<rparr>) s) (upd_aevent n (\<lambda>y. y\<lparr>ae_prev := Some p\<rparr>)))"

text \<open>A state instance gives its reference to the event back; a past event without
  references is freed.\<close>

definition release_event :: "nat \<Rightarrow> engine \<Rightarrow> fault + engine" where
  "release_event e s =
     bnd (upd_aevent e (\<lambda>x. x\<lparr>ae_refs := ae_refs x - 1\<rparr>) s) (\<lambda>s.
     bnd (aevent_at e s) (\<lambda>x.
     if ae_refs x \<le> 0 \<and> Some e \<noteq> active_event_cur s then
       bnd (free_event (ae_event x) s) (\<lambda>s.
       bnd (upd_aevent e (\<lambda>x. x\<lparr>ae_event := []\<rparr>) (s\<lparr>active_events := active_events s - 1\<rparr>)) (\<lambda>s.
       bnd (unlink_active_event e s) (\<lambda>s.
       Inr (s\<lparr>aevents_st := (aevents_st s)(e := None)\<rparr>))))
     else Inr s))"

text \<open>The list of the state instances: each is left with its environment, its event and then
  its block.\<close>

fun free_state_list :: "nat \<Rightarrow> nat option \<Rightarrow> engine \<Rightarrow> fault + engine" where
  "free_state_list n None s = Inr s"
| "free_state_list 0 (Some a) s = Inl NoReturn"
| "free_state_list (Suc n) (Some a) s =
     bnd (inst_at a s) (\<lambda>i.
     bnd (case si_current i of None \<Rightarrow> Inr s | Some env \<Rightarrow> free_env env s) (\<lambda>s.
     bnd (when_some (si_event i) release_event s) (\<lambda>s.
     free_state_list n (si_retrig_next i)
       (s\<lparr>insts_st := (insts_st s)(a := None), state_instances := state_instances s - 1\<rparr>))))"

definition free_rule_instance :: "engine_cfg \<Rightarrow> nat \<Rightarrow> engine \<Rightarrow> fault + engine" where
  "free_rule_instance cfg r s =
     bnd (rinst_at r s) (\<lambda>ri.
     bnd (delete_locks cfg (ri_rule ri) (ri_locks ri) s) (\<lambda>s.
     bnd (free_instance (ri_first_state ri) s) (\<lambda>s.
     bnd (free_state_list (en_fresh s) (ri_state_list ri) s) (\<lambda>s.
     let s = (if ri_created ri \<noteq> 0 then s\<lparr>rule_uses := (rule_uses s)(ri_rule ri := rule_uses s (ri_rule ri) - 1),
                rule_instances := rule_instances s - 1\<rparr> else s)
     in Inr (s\<lparr>rinsts_st := (rinsts_st s)(r := None)\<rparr>)))))"

text \<open>The rule instance leaves the global list before it is freed.\<close>

fun reap_from :: "nat \<Rightarrow> engine_cfg \<Rightarrow> nat option \<Rightarrow> nat option \<Rightarrow> nat \<Rightarrow> engine \<Rightarrow> fault + engine" where
  "reap_from n cfg prev None rule s = Inr s"
| "reap_from 0 cfg prev (Some r) rule s = Inl NoReturn"
| "reap_from (Suc n) cfg prev (Some r) rule s =
     bnd (rinst_at r s) (\<lambda>x.
     if r = rule then
       bnd (case prev of Some p \<Rightarrow> upd_rinst p (\<lambda>y. y\<lparr>ri_next := ri_next x\<rparr>) s
            | None \<Rightarrow> Inr (s\<lparr>first_rule_instance := ri_next x\<rparr>)) (free_rule_instance cfg r)
     else reap_from n cfg (Some r) (ri_next x) rule s)"

definition reap_dead_rule :: "engine_cfg \<Rightarrow> nat \<Rightarrow> engine \<Rightarrow> fault + engine" where
  "reap_dead_rule cfg rule s = reap_from (en_fresh s) cfg None (first_rule_instance s) rule s"

text \<open>A thread leaves the list of its state instance.\<close>

fun unlink_from :: "nat \<Rightarrow> nat \<Rightarrow> nat option \<Rightarrow> nat option \<Rightarrow> nat \<Rightarrow> engine \<Rightarrow> fault + engine" where
  "unlink_from n a prev None t s = Inr s"
| "unlink_from 0 a prev (Some u) t s = Inl NoReturn"
| "unlink_from (Suc n) a prev (Some u) t s =
     bnd (thread_at u s) (\<lambda>x.
     if u = t then
       (case prev of Some p \<Rightarrow> upd_thread p (\<lambda>y. y\<lparr>t_next_in_inst := t_next_in_inst x\<rparr>) s
        | None \<Rightarrow> upd_inst a (\<lambda>i. i\<lparr>si_threads := t_next_in_inst x\<rparr>) s)
     else unlink_from n a (Some u) (t_next_in_inst x) t s)"

definition unlink_thread_in_state_instance_list :: "nat \<Rightarrow> engine \<Rightarrow> fault + engine" where
  "unlink_thread_in_state_instance_list t s =
     bnd (thread_at t s) (\<lambda>x. bnd (inst_at (t_inst x) s) (\<lambda>i.
     unlink_from (en_fresh s) (t_inst x) None (si_threads i) t s))"

section \<open>The initial threads\<close>

definition bump_new_tail :: "engine \<Rightarrow> fault + engine" where
  "bump_new_tail s = when_some (new_qt s) (\<lambda>t. upd_thread t (\<lambda>x. x\<lparr>t_bump := True\<rparr>)) s"

definition initial_threads_of :: "engine_cfg \<Rightarrow> nat \<Rightarrow> rule_t \<Rightarrow> engine \<Rightarrow> fault + engine" where
  "initial_threads_of cfg k r s =
     (let r_addr = Suc (en_fresh s); (init, s) = create_init_state_instance r r_addr s;
          s = s\<lparr>en_fresh := Suc r_addr, rinsts_st := (rinsts_st s)(r_addr \<mapsto>
            \<lparr>ri_rule = k, ri_first_state = init, ri_next = None, ri_state_list = None, ri_threads = 0,
             ri_killed = False, ri_inuse = False, ri_created = 0, ri_locks = []\<rparr>)\<rparr>
      in bnd (simulate_state_and_create_threads (cfg_fuel cfg) cfg init True s) (\<lambda>(ret, s).
         if ret \<le> 0 then free_rule_instance cfg r_addr s
         else bnd (upd_rinst r_addr (\<lambda>x. x\<lparr>ri_threads := ret, ri_next := first_rule_instance s\<rparr>) s) (\<lambda>s.
              bump_new_tail (s\<lparr>first_rule_instance := Some r_addr\<rparr>))))"

fun initial_threads :: "engine_cfg \<Rightarrow> nat \<Rightarrow> rule_t list \<Rightarrow> engine \<Rightarrow> fault + engine" where
  "initial_threads cfg k [] s = Inr s"
| "initial_threads cfg k (r # rs) s = bnd (initial_threads_of cfg k r s) (initial_threads cfg (k + 1) rs)"

text \<open>\<open>q_cur = q_new @ q_retrig\<close>\<close>

definition merge_queues :: "engine \<Rightarrow> fault + engine" where
  "merge_queues s =
     bnd (case new_qh s of
            Some h \<Rightarrow> (case new_qt s of None \<Rightarrow> Inl NullDeref | Some t \<Rightarrow>
              bnd (upd_thread t (\<lambda>x. x\<lparr>t_next := retrig_qh s\<rparr>) s) (\<lambda>s'.
              Inr (s'\<lparr>cur_retrig_qh := Some h,
                cur_retrig_qt := (if retrig_qt s \<noteq> None then retrig_qt s else Some t),
                new_qh := None, new_qt := None\<rparr>)))
          | None \<Rightarrow> Inr (s\<lparr>cur_retrig_qh := retrig_qh s, cur_retrig_qt := retrig_qt s\<rparr>))
       (\<lambda>s. Inr (s\<lparr>retrig_qh := None, retrig_qt := None\<rparr>))"

definition create_rule_initial_threads :: "engine_cfg \<Rightarrow> engine \<Rightarrow> fault + engine" where
  "create_rule_initial_threads cfg s = bnd (initial_threads cfg 0 (cfg_rules cfg) s) merge_queues"

section \<open>Injection of an event\<close>

text \<open>The destination of a transition blocks and reads no field.\<close>

definition backtrack_is_not_needed :: "engine_cfg \<Rightarrow> nat \<Rightarrow> engine \<Rightarrow> fault + bool" where
  "backtrack_is_not_needed cfg t s =
     bnd (thread_at t s) (\<lambda>x. bnd (inst_at (t_inst x) s) (\<lambda>i. bnd (rule_at cfg (si_rule i) s) (\<lambda>r.
     case tr_dest (t_trans x) of None \<Rightarrow> Inl NullDeref | Some d \<Rightarrow>
       bnd (at (rule_states r) d) (\<lambda>st.
       Inr (st_trans st \<noteq> [] \<and> st_flags st AND BYTECODE_HAVE_PUSHFIELD = 0)))))"

text \<open>\<open>q_new = q_new @ q_retrig\<close>\<close>

definition commit_queues :: "engine \<Rightarrow> fault + engine" where
  "commit_queues s =
     bnd (when_some (retrig_qt s) (\<lambda>t. upd_thread t (\<lambda>x. x\<lparr>t_bump := True\<rparr>)) s) (\<lambda>s.
     bnd (case new_qh s of
            Some _ \<Rightarrow> (case new_qt s of None \<Rightarrow> Inl NullDeref | Some t \<Rightarrow>
              bnd (upd_thread t (\<lambda>x. x\<lparr>t_bump := True, t_next := retrig_qh s\<rparr>) s) (\<lambda>s.
              Inr (if retrig_qt s \<noteq> None then s\<lparr>new_qt := retrig_qt s\<rparr> else s)))
          | None \<Rightarrow> Inr (s\<lparr>new_qh := retrig_qh s, new_qt := retrig_qt s\<rparr>))
       (\<lambda>s. Inr (s\<lparr>retrig_qh := None, retrig_qt := None\<rparr>)))"

text \<open>A thread is taken out for good, and with the last one its rule instance.\<close>

definition leave_rule_instance :: "engine_cfg \<Rightarrow> nat \<Rightarrow> engine \<Rightarrow> fault + engine" where
  "leave_rule_instance cfg t s =
     bnd (thread_at t s) (\<lambda>x. bnd (inst_at (t_inst x) s) (\<lambda>i.
     bnd (upd_rinst (si_rule i) (\<lambda>r. r\<lparr>ri_threads := ri_threads r - 1\<rparr>) s) (\<lambda>s.
     bnd (rinst_at (si_rule i) s) (\<lambda>r.
     if ri_threads r = 0 then
       bnd (upd_rinst (si_rule i) (\<lambda>r. r\<lparr>ri_killed := True\<rparr>) (s\<lparr>en_threads := en_threads s - 1\<rparr>))
         (reap_dead_rule cfg (si_rule i))
     else unlink_thread_in_state_instance_list t (s\<lparr>en_threads := en_threads s - 1\<rparr>)))))"

definition reap_thread :: "engine_cfg \<Rightarrow> nat \<Rightarrow> nat option \<Rightarrow> engine \<Rightarrow> fault + engine" where
  "reap_thread cfg t next s =
     bnd (leave_rule_instance cfg t s) (\<lambda>s.
     let s = (if Some t = cur_retrig_qh s then s\<lparr>cur_retrig_qh := next\<rparr> else s)
     in bnd (when_some (cur_retrig_qt s) (\<lambda>q. upd_thread q (\<lambda>y. y\<lparr>t_next := None\<rparr>)) s) (\<lambda>s.
        Inr (s\<lparr>current_tail := None, threads_st := (threads_st s)(t := None)\<rparr>)))"

text \<open>The transition of a thread has matched.\<close>

definition pass_thread :: "engine_cfg \<Rightarrow> nat \<Rightarrow> nat \<Rightarrow> engine \<Rightarrow> fault + engine" where
  "pass_thread cfg ev t s =
     bnd (upd_thread t (\<lambda>x. x\<lparr>t_pass := t_pass x + 1\<rparr>) s) (\<lambda>s.
     bnd (thread_at t s) (\<lambda>x. bnd (inst_at (t_inst x) s) (\<lambda>i.
     bnd (if \<not> t_onlyonce x then Inr s else
          bnd (upd_rinst (si_rule i) (\<lambda>r. r\<lparr>ri_created := cfg_time cfg, ri_inuse := True\<rparr>) s) (\<lambda>s.
          bnd (rinst_at (si_rule i) s) (\<lambda>r.
          Inr (s\<lparr>rule_uses := (rule_uses s)(ri_rule r := rule_uses s (ri_rule r) + 1),
            rule_instances := rule_instances s + 1\<rparr>)))) (\<lambda>s.
     case tr_dest (t_trans x) of None \<Rightarrow> Inl NullDeref | Some d \<Rightarrow>
       bnd (create_state_instance cfg d (t_inst x) s) (\<lambda>(b, s).
       bnd (upd_inst b (\<lambda>y. y\<lparr>si_event := Some ev\<rparr>) s) (\<lambda>s.
       bnd (upd_aevent ev (\<lambda>y. y\<lparr>ae_refs := ae_refs y + 1\<rparr>) s) (\<lambda>s.
       bnd (link_state b (t_inst x) s) (\<lambda>s.
       bnd (simulate_state_and_create_threads (cfg_fuel cfg) cfg b False s) (\<lambda>(_, s).
       bnd (backtrack_is_not_needed cfg t s) (\<lambda>cut.
       if cut then upd_thread t (\<lambda>x. x\<lparr>t_killed := True\<rparr>) s else Inr s)))))))))) "

text \<open>A thread that goes on waiting is put at the end of the queue of the next event.\<close>

definition retrig_thread :: "nat \<Rightarrow> engine \<Rightarrow> fault + engine" where
  "retrig_thread t s =
     bnd (case retrig_qh s of
            Some _ \<Rightarrow> (case retrig_qt s of None \<Rightarrow> Inl NullDeref | Some q \<Rightarrow>
              bnd (upd_thread q (\<lambda>x. x\<lparr>t_next := Some t\<rparr>) s) (\<lambda>s. Inr (s\<lparr>retrig_qt := Some t\<rparr>)))
          | None \<Rightarrow> Inr (s\<lparr>retrig_qh := Some t, retrig_qt := Some t\<rparr>))
       (upd_thread t (\<lambda>x. x\<lparr>t_next := None\<rparr>))"

definition evt_step :: "engine_cfg \<Rightarrow> nat \<Rightarrow> nat \<Rightarrow> nat option \<Rightarrow> engine \<Rightarrow> fault + engine" where
  "evt_step cfg ev t next s =
     (let s = s\<lparr>current_tail := Some t\<rparr> in
      bnd (thread_at t s) (\<lambda>x.
      let dead = \<not> t_onlyonce x \<and> t_timeout x \<le>s cfg_time cfg \<or> t_killed x in
      if dead then bnd (upd_thread t (\<lambda>x. x\<lparr>t_killed := True\<rparr>) s) (reap_thread cfg t next)
      else
        bnd (case eval_code (t_trans x) of None \<Rightarrow> Inl NullDeref | Some code \<Rightarrow> exec_in cfg (t_inst x) code s) (\<lambda>(vmret, s).
        bnd (if vmret = 0 then pass_thread cfg ev t s else Inr s) (\<lambda>s.
        bnd (thread_at t s) (\<lambda>x.
        if t_onlyonce x then
          bnd (upd_thread t (\<lambda>x. x\<lparr>t_killed := True\<rparr>) s) (\<lambda>s.
          bnd (if t_bump x then commit_queues s else Inr s) (reap_thread cfg t next))
        else
          bnd (retrig_thread t s) (\<lambda>s. if t_bump x then commit_queues s else Inr s))))))"

fun evt_loop :: "nat \<Rightarrow> engine_cfg \<Rightarrow> nat \<Rightarrow> nat option \<Rightarrow> engine \<Rightarrow> fault + engine" where
  "evt_loop n cfg ev None s = Inr s"
| "evt_loop 0 cfg ev (Some t) s = Inl NoReturn"
| "evt_loop (Suc n) cfg ev (Some t) s =
     bnd (thread_at t s) (\<lambda>x. bnd (evt_step cfg ev t (t_next x) s) (evt_loop n cfg ev (t_next x)))"

text \<open>The values of the event in the global table of fields.\<close>

fun set_fields :: "event \<Rightarrow> nat option list \<Rightarrow> fault + nat option list" where
  "set_fields [] fs = Inr fs"
| "set_fields ((f, p) # es) fs = (if f < length fs then set_fields es (fs[f := p]) else Inl OutOfBounds)"

definition clear_fields :: "event \<Rightarrow> nat option list \<Rightarrow> fault + nat option list" where
  "clear_fields ev = set_fields (map (\<lambda>(f, _). (f, None)) ev)"

text \<open>At the end the event is freed when no state refers to it, and kept otherwise.\<close>

definition finish_event :: "nat \<Rightarrow> engine \<Rightarrow> fault + engine" where
  "finish_event e s =
     bnd (aevent_at e s) (\<lambda>x.
     if ae_refs x = 0 then
       bnd (free_event (ae_event x) s) (\<lambda>s. Inr (s\<lparr>aevents_st := (aevents_st s)(e := None)\<rparr>))
     else
       bnd (case active_event_head s of
              None \<Rightarrow> Inr (s\<lparr>active_event_head := Some e, active_event_tail := Some e\<rparr>)
            | Some _ \<Rightarrow>
                bnd (upd_aevent e (\<lambda>y. y\<lparr>ae_prev := active_event_tail s\<rparr>) s) (\<lambda>s.
                case active_event_tail s of None \<Rightarrow> Inl NullDeref | Some q \<Rightarrow>
                  bnd (upd_aevent q (\<lambda>y. y\<lparr>ae_next := Some e\<rparr>) s) (\<lambda>s.
                  Inr (s\<lparr>active_event_tail := Some e\<rparr>))))
         (\<lambda>s. Inr (s\<lparr>active_events := active_events s + 1\<rparr>)))"

definition inject_event :: "engine_cfg \<Rightarrow> event \<Rightarrow> engine \<Rightarrow> fault + engine" where
  "inject_event cfg ev s =
     (let e = en_fresh s;
          s = s\<lparr>en_events := en_events s + 1, en_fresh := Suc e, active_event_cur := Some e,
            aevents_st := (aevents_st s)(e \<mapsto> \<lparr>ae_event = ev, ae_next = None, ae_prev = None, ae_refs = 0\<rparr>)\<rparr>
      in bnd (cfg_pre_hook cfg ev s) (\<lambda>s.
         bnd (set_fields ev (global_fields s)) (\<lambda>fs.
         bnd (create_rule_initial_threads cfg (s\<lparr>global_fields := fs\<rparr>)) (\<lambda>s.
         bnd (evt_loop (en_fresh s) cfg e (cur_retrig_qh s) s) (\<lambda>s.
         bnd (cfg_post_hook cfg ev s) (\<lambda>s.
         bnd (clear_fields ev (global_fields s)) (\<lambda>fs.
         finish_event e (s\<lparr>global_fields := fs\<rparr>))))))))"

end
