(* ===== verification/Input.thy ===== *)
theory Input
  imports Engine Text_Tools
begin

text \<open>
  \<open>src/orchids_api.c\<close> and \<open>src/mod_mgr.c\<close>: the modules, their fields, the dissectors that take
  an event apart, the descriptors that the event manager watches, and the way of an event from a
  module to the engine.  A \<open>mod_entry_t *\<close> is the index in the table of modules.  The functions that
  a module registers are numbers; the tables of \<open>input_cfg\<close> say what they do.
\<close>

section \<open>Data\<close>

record field_def =
  fd_name :: "byte list"
  fd_type :: int
  fd_desc :: "byte list"

record field_record =
  fr_active :: bool
  fr_name :: "byte list"
  fr_type :: int
  fr_desc :: "byte list"
  fr_id :: int

record cond_dissector =
  cd_dissect :: nat
  cd_mod :: nat
  cd_data :: "nat option"

record input_module =
  im_magic :: cint
  im_version :: cint
  im_name :: "byte list option"
  im_deps :: "byte list list"
  im_cmds :: "(byte list option \<times> nat option) list option"
  im_pre_config :: "nat option"

record mod_entry =
  me_num_fields :: nat
  me_first_field :: nat
  me_config :: "nat option"
  me_sub :: "cond_dissector hash option"
  me_dissect :: "nat option"
  me_dissect_mod :: nat
  me_data :: "nat option"
  me_mod :: "input_module option"
  me_posts :: culong
  me_id :: nat
  me_handle :: "nat option"

record realtime_input =
  rt_fd :: int
  rt_cb :: nat
  rt_mod :: nat
  rt_data :: "nat option"

record polled_input =
  pi_cb :: nat
  pi_mod :: nat
  pi_data :: "nat option"

text \<open>The part of the context that the modules work on; the values of the fields are in the engine.\<close>

record orchids =
  o_mods :: "mod_entry list"
  loaded_modules :: nat
  o_fields :: "field_record list"
  o_engine :: engine
  realtime_handlers :: "realtime_input list"
  poll_handlers :: "polled_input list"
  o_fds :: "int set"
  o_maxfd :: int
  pre_hooks :: "(nat \<times> nat) list"
  post_hooks :: "(nat \<times> nat) list"

text \<open>
  The engine, what the registered functions do, and the contents of memory that is not initialised.
  A dissector gets \<open>post_event\<close>, its module, the event and its data.
\<close>

record 'o input_cfg =
  ic_engine :: engine_cfg
  ic_dissect :: "nat \<Rightarrow> (nat \<Rightarrow> event \<Rightarrow> 'o \<Rightarrow> fault + 'o) \<Rightarrow> nat \<Rightarrow> event \<Rightarrow> nat option \<Rightarrow> 'o \<Rightarrow> fault + int \<times> 'o"
  ic_hook :: "nat \<Rightarrow> nat \<Rightarrow> event \<Rightarrow> engine \<Rightarrow> fault + engine"
  ic_pre_config :: "nat \<Rightarrow> nat \<Rightarrow> 'o \<Rightarrow> fault + nat option \<times> 'o"
  ic_junk :: "nat \<Rightarrow> nat option"

section \<open>Modules\<close>

definition MOD_MAGIC :: cint where "MOD_MAGIC = 0x4F524348"
definition ORCHIDS_VERSION :: cint where "ORCHIDS_VERSION = 0 OR 1"
definition MAX_MODULES :: nat where "MAX_MODULES = 256"

text \<open>\<open>strcmp(m->mod->name, name) == 0\<close>\<close>

definition has_name :: "byte list \<Rightarrow> mod_entry \<Rightarrow> fault + bool" where
  "has_name name m = (case me_mod m of None \<Rightarrow> Inl NullDeref | Some d \<Rightarrow>
     (case im_name d of None \<Rightarrow> Inl NullDeref | Some n \<Rightarrow> Inr (strcmp_eq n name)))"

fun find_from :: "nat \<Rightarrow> nat \<Rightarrow> mod_entry list \<Rightarrow> byte list \<Rightarrow> fault + nat option" where
  "find_from i 0 ms name = Inr None"
| "find_from i (Suc n) [] name = Inl OutOfBounds"
| "find_from i (Suc n) (m # ms) name =
     bnd (has_name name m) (\<lambda>eq. if eq then Inr (Some i) else find_from (i + 1) n ms name)"

definition find_module_entry :: "byte list \<Rightarrow> 'a orchids_scheme \<Rightarrow> fault + nat option" where
  "find_module_entry name s = find_from 0 (loaded_modules s) (o_mods s) name"

definition find_module :: "byte list \<Rightarrow> 'a orchids_scheme \<Rightarrow> fault + input_module option" where
  "find_module name s = bnd (find_module_entry name s) (\<lambda>i. case i of None \<Rightarrow> Inr None
     | Some i \<Rightarrow> bnd (at (o_mods s) i) (\<lambda>m. Inr (me_mod m)))"

definition find_module_id :: "byte list \<Rightarrow> 'a orchids_scheme \<Rightarrow> fault + int" where
  "find_module_id name s = bnd (find_module_entry name s) (\<lambda>i. Inr (case i of None \<Rightarrow> -1 | Some i \<Rightarrow> int i))"

definition upd_mod :: "nat \<Rightarrow> (mod_entry \<Rightarrow> mod_entry) \<Rightarrow> 'a orchids_scheme \<Rightarrow> fault + 'a orchids_scheme" where
  "upd_mod i f s = bnd (at (o_mods s) i) (\<lambda>m. Inr (s\<lparr>o_mods := (o_mods s)[i := f m]\<rparr>))"

fun check_deps :: "byte list list \<Rightarrow> 'a orchids_scheme \<Rightarrow> fault + unit" where
  "check_deps [] s = Inr ()"
| "check_deps (d # ds) s =
     bnd (find_module d s) (\<lambda>m. if m = None then Inl ExitFailure else check_deps ds s)"

text \<open>The configuration of the module runs before the module counts as loaded.\<close>

definition add_module ::
  "'a orchids_scheme input_cfg \<Rightarrow> input_module \<Rightarrow> nat option \<Rightarrow> 'a orchids_scheme \<Rightarrow> fault + int \<times> 'a orchids_scheme" where
  "add_module cfg d handle s =
     (if MAX_MODULES \<le> loaded_modules s then Inl ExitFailure
      else if im_magic d \<noteq> MOD_MAGIC \<or> im_version d \<noteq> ORCHIDS_VERSION then Inr (-1, s)
      else case im_name d of None \<Rightarrow> Inr (-1, s) | Some name \<Rightarrow>
        bnd (find_module name s) (\<lambda>old. if old \<noteq> None then Inr (-1, s) else
        bnd (check_deps (im_deps d) s) (\<lambda>_.
        let i = loaded_modules s in
        bnd (upd_mod i (\<lambda>m. m\<lparr>me_id := i, me_mod := Some d, me_handle := handle\<rparr>) s) (\<lambda>s.
        bnd (case im_pre_config d of None \<Rightarrow> Inr s | Some f \<Rightarrow>
               bnd (ic_pre_config cfg f i s) (\<lambda>(c, s). upd_mod i (\<lambda>m. m\<lparr>me_config := c\<rparr>) s)) (\<lambda>s.
        Inr (int i, s\<lparr>loaded_modules := loaded_modules s + 1\<rparr>))))))"

fun directive_from :: "(byte list option \<times> nat option) list \<Rightarrow> byte list \<Rightarrow> fault + nat option" where
  "directive_from [] dir = Inl OutOfBounds"
| "directive_from ((n, cmd) # cs) dir = (case n of None \<Rightarrow> Inr cmd
     | Some n \<Rightarrow> if strcmp_eq n dir then Inr cmd else directive_from cs dir)"

definition dir_handler_lookup :: "input_module \<Rightarrow> byte list \<Rightarrow> fault + nat option" where
  "dir_handler_lookup d dir = (case im_cmds d of None \<Rightarrow> Inr None | Some cs \<Rightarrow> directive_from cs dir)"

section \<open>Descriptors\<close>

definition add_polled_input_callback ::
  "nat \<Rightarrow> nat \<Rightarrow> nat option \<Rightarrow> 'a orchids_scheme \<Rightarrow> 'a orchids_scheme" where
  "add_polled_input_callback m cb data s =
     s\<lparr>poll_handlers := \<lparr>pi_cb = cb, pi_mod = m, pi_data = data\<rparr> # poll_handlers s\<rparr>"

text \<open>\<open>FD_SET\<close> and \<open>FD_CLR\<close> on a descriptor outside of the set.\<close>

definition FD_SETSIZE :: int where "FD_SETSIZE = 1024"

definition fd_set :: "int \<Rightarrow> 'a orchids_scheme \<Rightarrow> fault + 'a orchids_scheme" where
  "fd_set fd s = (if 0 \<le> fd \<and> fd < FD_SETSIZE then Inr (s\<lparr>o_fds := insert fd (o_fds s)\<rparr>) else Inl OutOfBounds)"

definition fd_clr :: "int \<Rightarrow> 'a orchids_scheme \<Rightarrow> fault + 'a orchids_scheme" where
  "fd_clr fd s = (if 0 \<le> fd \<and> fd < FD_SETSIZE then Inr (s\<lparr>o_fds := o_fds s - {fd}\<rparr>) else Inl OutOfBounds)"

fun unlink_fd :: "int \<Rightarrow> realtime_input list \<Rightarrow> realtime_input list option" where
  "unlink_fd fd [] = None"
| "unlink_fd fd (r # rs) = (if rt_fd r = fd then Some rs else map_option (Cons r) (unlink_fd fd rs))"

definition del_input_descriptor :: "int \<Rightarrow> 'a orchids_scheme \<Rightarrow> fault + 'a orchids_scheme" where
  "del_input_descriptor fd s = (case unlink_fd fd (realtime_handlers s) of None \<Rightarrow> Inr s
     | Some rs \<Rightarrow> fd_clr fd (s\<lparr>realtime_handlers := rs\<rparr>))"

definition add_input_descriptor ::
  "nat \<Rightarrow> nat \<Rightarrow> int \<Rightarrow> nat option \<Rightarrow> 'a orchids_scheme \<Rightarrow> fault + 'a orchids_scheme" where
  "add_input_descriptor m cb fd data s =
     bnd (at (o_mods s) m) (\<lambda>e.
     fd_set fd (s\<lparr>realtime_handlers := \<lparr>rt_fd = fd, rt_cb = cb, rt_mod = me_id e, rt_data = data\<rparr> # realtime_handlers s,
       o_maxfd := (if o_maxfd s < fd then fd else o_maxfd s)\<rparr>))"

definition substitute_fd :: "int \<Rightarrow> int \<Rightarrow> 'a orchids_scheme \<Rightarrow> 'a orchids_scheme" where
  "substitute_fd oldfd newfd s = (if oldfd = newfd then s else
     s\<lparr>realtime_handlers := map (\<lambda>r. if rt_fd r = oldfd then r\<lparr>rt_fd := newfd\<rparr> else r) (realtime_handlers s)\<rparr>)"

definition reincarnate_fd :: "int \<Rightarrow> int \<Rightarrow> 'a orchids_scheme \<Rightarrow> fault + 'a orchids_scheme" where
  "reincarnate_fd oldfd newfd s = fd_set newfd (substitute_fd oldfd newfd s)"

section \<open>Registration\<close>

text \<open>A parent module has one unconditional dissector or a table of conditional ones.\<close>

definition register_dissector ::
  "nat \<Rightarrow> byte list \<Rightarrow> nat \<Rightarrow> nat option \<Rightarrow> 'a orchids_scheme \<Rightarrow> fault + 'a orchids_scheme" where
  "register_dissector m parent dissect data s =
     bnd (find_module_entry parent s) (\<lambda>i. case i of None \<Rightarrow> Inl ExitFailure | Some i \<Rightarrow>
     bnd (at (o_mods s) i) (\<lambda>p.
     if me_sub p \<noteq> None then Inl ExitFailure
     else if me_dissect p \<noteq> None then Inl ExitFailure
     else upd_mod i (\<lambda>p. p\<lparr>me_dissect := Some dissect, me_dissect_mod := m, me_data := data\<rparr>) s))"

definition register_conditional_dissector ::
  "nat \<Rightarrow> byte list \<Rightarrow> byte list \<Rightarrow> nat \<Rightarrow> nat option \<Rightarrow> 'a orchids_scheme \<Rightarrow> fault + 'a orchids_scheme" where
  "register_conditional_dissector m parent key dissect data s =
     bnd (find_module_entry parent s) (\<lambda>i. case i of None \<Rightarrow> Inl ExitFailure | Some i \<Rightarrow>
     bnd (at (o_mods s) i) (\<lambda>p.
     if me_dissect p \<noteq> None then Inl ExitFailure
     else bnd (case me_sub p of None \<Rightarrow> Inr (new_hash 31)
               | Some h \<Rightarrow> bnd (hash_get h key) (\<lambda>old. if old \<noteq> None then Inl ExitFailure else Inr h)) (\<lambda>h.
          bnd (hash_add h \<lparr>cd_dissect = dissect, cd_mod = m, cd_data = data\<rparr> key) (\<lambda>h.
          upd_mod i (\<lambda>p. p\<lparr>me_sub := Some h\<rparr>) s))))"

definition register_pre_inject_hook :: "nat \<Rightarrow> nat \<Rightarrow> 'a orchids_scheme \<Rightarrow> 'a orchids_scheme" where
  "register_pre_inject_hook m cb s = s\<lparr>pre_hooks := (cb, m) # pre_hooks s\<rparr>"

definition register_post_inject_hook :: "nat \<Rightarrow> nat \<Rightarrow> 'a orchids_scheme \<Rightarrow> 'a orchids_scheme" where
  "register_post_inject_hook m cb s = s\<lparr>post_hooks := (cb, m) # post_hooks s\<rparr>"

definition DEFAULT_FIELD_ACTIVATION :: bool where "DEFAULT_FIELD_ACTIVATION = True"

text \<open>The records are allocated with \<open>Xmalloc\<close> or \<open>Xrealloc\<close>, and \<open>val\<close> is not set.\<close>

definition register_fields ::
  "'o input_cfg \<Rightarrow> nat \<Rightarrow> field_def list \<Rightarrow> 'a orchids_scheme \<Rightarrow> fault + 'a orchids_scheme" where
  "register_fields cfg m tab s =
     (let n = length (o_fields s); sz = length tab;
          new = map (\<lambda>i. \<lparr>fr_active = DEFAULT_FIELD_ACTIVATION, fr_name = fd_name (tab ! i),
             fr_type = fd_type (tab ! i), fr_desc = fd_desc (tab ! i), fr_id = int (n + i)\<rparr>) [0..<sz]
      in bnd (upd_mod m (\<lambda>e. e\<lparr>me_first_field := n, me_num_fields := sz\<rparr>) s) (\<lambda>s.
         Inr (s\<lparr>o_fields := o_fields s @ new,
           o_engine := (o_engine s)\<lparr>global_fields := global_fields (o_engine s) @ map (\<lambda>i. ic_junk cfg (n + i)) [0..<sz]\<rparr>\<rparr>)))"

section \<open>Events\<close>

text \<open>An entry of a table of new fields: \<open>NULL\<close>, \<open>F_NOT_NEEDED\<close> or a variable.\<close>

datatype slot = NoVar | NotNeeded | Value nat

fun free_fields :: "slot list \<Rightarrow> 'a orchids_scheme \<Rightarrow> fault + 'a orchids_scheme" where
  "free_fields [] s = Inr s"
| "free_fields (Value a # ts) s =
     bnd (free_var (Some a) (vm (o_engine s))) (\<lambda>m. free_fields ts (s\<lparr>o_engine := (o_engine s)\<lparr>vm := m\<rparr>\<rparr>))"
| "free_fields (t # ts) s = free_fields ts s"

fun add_fields_from ::
  "nat \<Rightarrow> slot list \<Rightarrow> event \<Rightarrow> 'a orchids_scheme \<Rightarrow> fault + event \<times> 'a orchids_scheme" where
  "add_fields_from i [] ev s = Inr (ev, s)"
| "add_fields_from i (Value a # ts) ev s =
     bnd (at (o_fields s) i) (\<lambda>f.
     if fr_active f then add_fields_from (i + 1) ts ((i, Some a) # ev) s
     else bnd (free_var (Some a) (vm (o_engine s))) (\<lambda>m.
          add_fields_from (i + 1) ts ev (s\<lparr>o_engine := (o_engine s)\<lparr>vm := m\<rparr>\<rparr>)))"
| "add_fields_from i (t # ts) ev s = add_fields_from (i + 1) ts ev s"

definition add_fields_to_event_stride ::
  "nat \<Rightarrow> event \<Rightarrow> slot list \<Rightarrow> nat \<Rightarrow> nat \<Rightarrow> 'a orchids_scheme \<Rightarrow> fault + event \<times> 'a orchids_scheme" where
  "add_fields_to_event_stride m ev tbl from to s =
     bnd (at (o_mods s) m) (\<lambda>e.
     if to - from \<le> length tbl then add_fields_from (me_first_field e + from) (take (to - from) tbl) ev s
     else Inl OutOfBounds)"

definition add_fields_to_event ::
  "nat \<Rightarrow> event \<Rightarrow> slot list \<Rightarrow> nat \<Rightarrow> 'a orchids_scheme \<Rightarrow> fault + event \<times> 'a orchids_scheme" where
  "add_fields_to_event m ev tbl sz s = add_fields_to_event_stride m ev tbl 0 sz s"

text \<open>\<open>execute_pre_inject_hooks\<close> and \<open>execute_post_inject_hooks\<close>\<close>

fun execute_hooks ::
  "(nat \<Rightarrow> nat \<Rightarrow> event \<Rightarrow> engine \<Rightarrow> fault + engine) \<Rightarrow> (nat \<times> nat) list \<Rightarrow> event \<Rightarrow> engine \<Rightarrow> fault + engine" where
  "execute_hooks tbl [] ev s = Inr s"
| "execute_hooks tbl ((cb, m) # hs) ev s = bnd (tbl cb m ev s) (execute_hooks tbl hs ev)"

definition with_hooks :: "'o input_cfg \<Rightarrow> 'a orchids_scheme \<Rightarrow> engine_cfg" where
  "with_hooks cfg s = (ic_engine cfg)\<lparr>cfg_pre_hook := execute_hooks (ic_hook cfg) (pre_hooks s),
     cfg_post_hook := execute_hooks (ic_hook cfg) (post_hooks s)\<rparr>"

definition inject_into :: "'o input_cfg \<Rightarrow> event \<Rightarrow> 'a orchids_scheme \<Rightarrow> fault + 'a orchids_scheme" where
  "inject_into cfg ev s =
     bnd (inject_event (with_hooks cfg s) ev (o_engine s)) (\<lambda>e. Inr (s\<lparr>o_engine := e\<rparr>))"

text \<open>The key of a conditional dissector is the data of the second field of the event.\<close>

definition event_key :: "event \<Rightarrow> 'a orchids_scheme \<Rightarrow> fault + byte list" where
  "event_key ev s = (case ev of
       e1 # (f, p) # es \<Rightarrow> bnd (deref (vm (o_engine s)) p) (\<lambda>v.
         Inr (case issdl_get_data (vdata v) of None \<Rightarrow> [] | Some bs \<Rightarrow> bs))
     | _ \<Rightarrow> Inl NullDeref)"

definition find_dissector :: "nat \<Rightarrow> event \<Rightarrow> 'a orchids_scheme \<Rightarrow> fault + (nat \<times> nat \<times> nat option) option" where
  "find_dissector sender ev s =
     bnd (at (o_mods s) sender) (\<lambda>m. case me_dissect m of
       Some d \<Rightarrow> Inr (Some (d, me_dissect_mod m, None))
     | None \<Rightarrow> (case me_sub m of None \<Rightarrow> Inr None | Some h \<Rightarrow>
         bnd (event_key ev s) (\<lambda>key. bnd (hash_get h key) (\<lambda>c.
         Inr (map_option (\<lambda>c. (cd_dissect c, cd_mod c, cd_data c)) c)))))"

text \<open>
  The dissectors of a chain of modules call \<open>post_event\<close> in turn; the first argument bounds the
  length of the chain.  An event that is not taken apart is injected.
\<close>

primrec post_event ::
  "nat \<Rightarrow> 'a orchids_scheme input_cfg \<Rightarrow> nat \<Rightarrow> event \<Rightarrow> 'a orchids_scheme \<Rightarrow> fault + 'a orchids_scheme" where
  "post_event 0 cfg sender ev s = Inl NoReturn"
| "post_event (Suc n) cfg sender ev s =
     bnd (upd_mod sender (\<lambda>m. m\<lparr>me_posts := me_posts m + 1\<rparr>) s) (\<lambda>s.
     bnd (find_dissector sender ev s) (\<lambda>d. case d of
       None \<Rightarrow> inject_into cfg ev s
     | Some (d, m, data) \<Rightarrow>
         bnd (ic_dissect cfg d (post_event n cfg) m ev data s) (\<lambda>(ret, s).
         if ret \<noteq> 0 then inject_into cfg ev s else Inr s)))"

section \<open>The fields of an event\<close>

text \<open>The variables that a module makes for its fields, in the order of their numbers.\<close>

definition vstr :: "byte list \<Rightarrow> ovm_var" where
  "vstr bs = ovm_vstr_new\<lparr>vdata := VVStr bs\<rparr>"

definition int_var :: "clong \<Rightarrow> ovm_var" where
  "int_var i = ovm_int_new\<lparr>vdata := VInt i\<rparr>"

fun alloc_attrs :: "ovm_var option list \<Rightarrow> ovm \<Rightarrow> slot list \<times> ovm" where
  "alloc_attrs [] m = ([], m)"
| "alloc_attrs (None # vs) m = (let (ts, m) = alloc_attrs vs m in (NoVar # ts, m))"
| "alloc_attrs (Some v # vs) m =
     (let a = fresh m; (ts, m) = alloc_attrs vs (snd (alloc v m)) in (Value a # ts, m))"

end
