(* ===== verification/Auditd.thy ===== *)
theory Auditd
  imports Input
begin

text \<open>
  \<open>src/modules/mod_auditd.c\<close>: the dissector for lines of the Linux audit daemon.  A tree of characters
  recognises the keywords; each has a reader for the value behind it, which makes the fields of the event.
  The readers for strings write terminators and decoded characters into the line itself.  A pointer
  into the line is an offset, and the functions that read a number or a string get the bytes from
  their pointer to the end of the block and give the number of bytes they have passed.
\<close>

section \<open>Keywords\<close>

definition ACTION_AUDIT :: nat where "ACTION_AUDIT = 1"
definition ACTION_INT :: nat where "ACTION_INT = 2"
definition ACTION_HEX :: nat where "ACTION_HEX = 3"
definition ACTION_STRING :: nat where "ACTION_STRING = 4"
definition ACTION_ID :: nat where "ACTION_ID = ACTION_STRING"
definition ACTION_SUBJ :: nat where "ACTION_SUBJ = ACTION_STRING"
definition ACTION_DEV :: nat where "ACTION_DEV = 5"
definition F_AUDITD_TIME :: nat where "F_AUDITD_TIME = 2"
definition AUDITD_FIELDS :: nat where "AUDITD_FIELDS = 39"

text \<open>The numbers \<open>F_AUDITD_*\<close> are written out.\<close>

definition actions :: "(string \<times> nat \<times> nat) list" where
  "actions =
    [(''node='', 0, ACTION_STRING), (''type='', 1, ACTION_STRING), (''audit('', 0, ACTION_AUDIT), (''msg=audit('', 0, ACTION_AUDIT),
     (''arch='', 4, ACTION_INT), (''syscall='', 5, ACTION_INT), (''success='', 6, ACTION_STRING), (''exit='', 7, ACTION_INT),
     (''a0='', 8, ACTION_HEX), (''a1='', 9, ACTION_HEX), (''a2='', 10, ACTION_HEX), (''a3='', 11, ACTION_HEX),
     (''items='', 12, ACTION_INT), (''ppid='', 13, ACTION_INT), (''pid='', 14, ACTION_INT), (''auid='', 15, ACTION_INT),
     (''uid='', 16, ACTION_INT), (''gid='', 17, ACTION_INT), (''euid='', 18, ACTION_INT), (''suid='', 19, ACTION_INT),
     (''fsuid='', 20, ACTION_INT), (''egid='', 21, ACTION_INT), (''sgid='', 22, ACTION_INT), (''fsgid='', 23, ACTION_INT),
     (''tty='', 24, ACTION_ID), (''ses='', 25, ACTION_INT), (''comm='', 26, ACTION_STRING), (''exe='', 27, ACTION_STRING),
     (''subj='', 28, ACTION_SUBJ), (''key='', 29, ACTION_STRING), (''item='', 30, ACTION_INT), (''name='', 31, ACTION_STRING),
     (''inode='', 32, ACTION_INT), (''mode='', 33, ACTION_INT), (''dev='', 34, ACTION_DEV), (''ouid='', 35, ACTION_INT),
     (''ogid='', 36, ACTION_INT), (''rdev='', 37, ACTION_DEV), (''cwd='', 38, ACTION_STRING)]"

text \<open>A node of the tree has a table for the next character, or the code and the field of a keyword that ends here.\<close>

datatype action_tree = Proceed "byte \<Rightarrow> action_tree option" | Found nat nat

definition empty_node :: action_tree where "empty_node = Proceed (\<lambda>_. None)"

text \<open>A leaf is allocated without its table.\<close>

fun action_insert :: "byte list \<Rightarrow> nat \<Rightarrow> nat \<Rightarrow> action_tree \<Rightarrow> fault + action_tree" where
  "action_insert [] code n t = Inr (Found code n)"
| "action_insert (c # cs) code n (Found _ _) = Inl OutOfBounds"
| "action_insert (c # cs) code n (Proceed f) =
     bnd (action_insert cs code n (case f c of None \<Rightarrow> empty_node | Some t \<Rightarrow> t)) (\<lambda>t. Inr (Proceed (f(c := Some t))))"

fun insert_actions :: "(string \<times> nat \<times> nat) list \<Rightarrow> action_tree \<Rightarrow> fault + action_tree" where
  "insert_actions [] t = Inr t"
| "insert_actions ((w, n, code) # ws) t = bnd (action_insert (chars w) code n t) (insert_actions ws)"

definition action_init :: "fault + action_tree" where
  "action_init = insert_actions actions empty_node"

section \<open>Numbers\<close>

definition isspace :: "byte \<Rightarrow> bool" where
  "isspace b \<longleftrightarrow> b = 32 \<or> 9 \<le> unat b \<and> unat b \<le> 13"

definition isxdigit :: "byte \<Rightarrow> bool" where
  "isxdigit b \<longleftrightarrow> is_digit b \<or> 65 \<le> unat b \<and> unat b \<le> 70 \<or> 97 \<le> unat b \<and> unat b \<le> 102"

definition is_octal :: "byte \<Rightarrow> bool" where
  "is_octal b \<longleftrightarrow> is_digit b \<and> unat b < 56"

definition dec_value :: "byte \<Rightarrow> cint" where
  "dec_value b = ucast b - 48"

definition hex_value :: "byte \<Rightarrow> cint" where
  "hex_value b = (if is_digit b then dec_value b else (ucast b - 65 + 10) AND 0x1f)"

fun num_from :: "(byte \<Rightarrow> bool) \<Rightarrow> (byte \<Rightarrow> cint) \<Rightarrow> cint \<Rightarrow> nat \<Rightarrow> cint \<Rightarrow> byte list \<Rightarrow> fault + nat \<times> cint" where
  "num_from good val base k i [] = Inl OutOfBounds"
| "num_from good val base k i (b # bs) =
     (if good b then num_from good val base (k + 1) (base * i + val b) bs else Inr (k, i))"

definition action_atoi_hex :: "byte list \<Rightarrow> fault + nat \<times> cint" where
  "action_atoi_hex s = num_from isxdigit hex_value 16 0 0 s"

definition action_atoi_unsigned :: "byte list \<Rightarrow> fault + nat \<times> cint" where
  "action_atoi_unsigned s =
     bnd (at s 0) (\<lambda>c. if c = 48 then
       bnd (at s 1) (\<lambda>c. if c = 120 then num_from isxdigit hex_value 16 2 0 (drop 2 s)
         else num_from is_octal dec_value 8 1 0 (drop 1 s))
     else num_from is_digit dec_value 10 0 0 s)"

definition action_atoi_signed :: "byte list \<Rightarrow> fault + nat \<times> cint" where
  "action_atoi_signed s =
     bnd (at s 0) (\<lambda>c. if c = 45 then bnd (action_atoi_unsigned (drop 1 s)) (\<lambda>(k, i). Inr (k + 1, - i))
       else action_atoi_unsigned s)"

section \<open>Strings\<close>

fun id_from :: "nat \<Rightarrow> byte list \<Rightarrow> fault + nat \<times> byte" where
  "id_from k [] = Inl OutOfBounds"
| "id_from k (b # bs) = (if b = 0 \<or> isspace b then Inr (k, b) else id_from (k + 1) bs)"

definition octal_digit :: "byte \<Rightarrow> byte" where
  "octal_digit b = b - 48"

definition escaped :: "byte \<Rightarrow> byte" where
  "escaped d = (if d = 110 then 10 else if d = 114 then 13 else if d = 116 then 9 else d)"

text \<open>The characters of a quoted string from behind the quote: how many are passed, and what is written over them.
  What is written stays behind what is read.\<close>

fun unquote :: "nat \<Rightarrow> byte list \<Rightarrow> byte list \<Rightarrow> fault + nat \<times> byte list" where
  "unquote k out [] = Inl OutOfBounds"
| "unquote k out (c # cs) =
     (if c = 0 then Inr (k, out)
      else if c = 34 then Inr (k + 1, out)
      else if c = 92 then (case cs of [] \<Rightarrow> Inl OutOfBounds | d # ds \<Rightarrow>
        if d = 0 \<or> d = 34 then Inr (k + 2, out)
        else if is_octal d then (case ds of [] \<Rightarrow> Inl OutOfBounds | e # es \<Rightarrow>
          if is_octal e then (case es of [] \<Rightarrow> Inl OutOfBounds | f # fs \<Rightarrow>
            if is_octal f then unquote (k + 4) (out @ [8 * (8 * octal_digit d + octal_digit e) + octal_digit f]) fs
            else unquote (k + 3) (out @ [8 * octal_digit d + octal_digit e]) es)
          else unquote (k + 2) (out @ [octal_digit d]) ds)
        else unquote (k + 2) (out @ [escaped d]) ds)
      else unquote (k + 1) (out @ [c]) cs)"

section \<open>Readers\<close>

text \<open>A reader gets the offset of the value, the number of the field and the line; it gives the offset
  behind the value, the line, the number of the first field it has made, and the fields.\<close>

type_synonym reading = "fault + nat \<times> byte list \<times> nat \<times> ovm_var list"

text \<open>\<open>strtod\<close> gives the number of characters that it has read, and the number as seconds and microseconds.
  Without the character behind it the time is not initialised.\<close>

record clock_env =
  ck_strtod :: "byte list \<Rightarrow> nat \<times> clong \<times> clong"
  ck_junk :: "clong \<times> clong"

definition time_convert :: "clock_env \<Rightarrow> nat \<Rightarrow> byte list \<Rightarrow> fault + nat \<times> byte list \<times> clong \<times> clong" where
  "time_convert env s buf =
     (let (k, time) = ck_strtod env (drop s buf) in
      bnd (at buf (s + k)) (\<lambda>c.
      if c = 58 \<or> c = 41 then Inr (s + k + 1, buf[s + k := 0], time)
      else if s + k = 0 then Inl OutOfBounds else Inr (s + k - 1, buf, ck_junk env)))"

definition action_doer_audit :: "clock_env \<Rightarrow> nat \<Rightarrow> nat \<Rightarrow> byte list \<Rightarrow> reading" where
  "action_doer_audit env s n buf =
     bnd (time_convert env s buf) (\<lambda>(t, buf, sec, usec).
     bnd (at buf t) (\<lambda>c.
     bnd (if c \<noteq> 0 then
            bnd (action_atoi_unsigned (drop (t + 1) buf)) (\<lambda>(k, serial).
            bnd (at buf (t + 1 + k)) (\<lambda>d. Inr (if d = 41 then t + 1 + k + 1 else t + 1 + k, serial)))
          else Inr (t, 0)) (\<lambda>(t, serial).
     Inr (t, buf, F_AUDITD_TIME,
       [ovm_timeval_new\<lparr>vdata := VTimeval sec usec, vflags := TYPE_MONO\<rparr>,
        (int_var (scast serial))\<lparr>vflags := vflags (int_var (scast serial)) OR TYPE_MONO\<rparr>]))))"

definition number_reader :: "(byte list \<Rightarrow> fault + nat \<times> cint) \<Rightarrow> nat \<Rightarrow> nat \<Rightarrow> byte list \<Rightarrow> reading" where
  "number_reader atoi s n buf = bnd (atoi (drop s buf)) (\<lambda>(k, i). Inr (s + k, buf, n, [int_var (scast i)]))"

definition action_doer_int :: "nat \<Rightarrow> nat \<Rightarrow> byte list \<Rightarrow> reading" where
  "action_doer_int = number_reader action_atoi_signed"

definition action_doer_unsigned_int :: "nat \<Rightarrow> nat \<Rightarrow> byte list \<Rightarrow> reading" where
  "action_doer_unsigned_int = number_reader action_atoi_unsigned"

definition action_doer_hex :: "nat \<Rightarrow> nat \<Rightarrow> byte list \<Rightarrow> reading" where
  "action_doer_hex = number_reader action_atoi_hex"

text \<open>The number that is put together from both parts is overwritten by one that is read behind them.\<close>

definition action_doer_dev :: "nat \<Rightarrow> nat \<Rightarrow> byte list \<Rightarrow> reading" where
  "action_doer_dev s n buf =
     bnd (num_from is_digit dec_value 10 0 0 (drop s buf)) (\<lambda>(k, major).
     bnd (at buf (s + k)) (\<lambda>c.
     bnd (if c = 58 then bnd (num_from is_digit dec_value 10 0 0 (drop (s + k + 1) buf)) (\<lambda>(l, minor).
            Inr (s + k + 1 + l, push_bit 6 major OR minor))
          else Inr (s + k, push_bit 6 major OR 0)) (\<lambda>(t, i).
     bnd (action_atoi_unsigned (drop t buf)) (\<lambda>(l, i). Inr (t + l, buf, n, [int_var (scast i)])))))"

definition action_doer_id :: "nat \<Rightarrow> nat \<Rightarrow> byte list \<Rightarrow> reading" where
  "action_doer_id s n buf =
     bnd (id_from 0 (drop s buf)) (\<lambda>(k, c).
     Inr (if c \<noteq> 0 then s + k + 1 else s + k, if c \<noteq> 0 then buf[s + k := 0] else buf, n, [vstr (take k (drop s buf))]))"

definition action_doer_string :: "nat \<Rightarrow> nat \<Rightarrow> byte list \<Rightarrow> reading" where
  "action_doer_string s n buf =
     bnd (at buf s) (\<lambda>c. if c \<noteq> 34 then action_doer_id s n buf else
     bnd (unquote 0 [] (drop (s + 1) buf)) (\<lambda>(k, out).
     Inr (s + 1 + k, take s buf @ out @ 0 # drop (s + length out + 1) buf, n, [vstr out])))"

text \<open>\<open>(*actx->action_doer[code])\<close>; \<open>action_doer_unsigned_int\<close> is not in the table, and a code without an entry is a \<open>NULL\<close> pointer.\<close>

definition action_doer :: "clock_env \<Rightarrow> nat \<Rightarrow> nat \<Rightarrow> nat \<Rightarrow> byte list \<Rightarrow> reading" where
  "action_doer env code s n buf =
     (if code = ACTION_AUDIT then action_doer_audit env s n buf
      else if code = ACTION_INT then action_doer_int s n buf
      else if code = ACTION_HEX then action_doer_hex s n buf
      else if code = ACTION_STRING then action_doer_string s n buf
      else if code = ACTION_DEV then action_doer_dev s n buf
      else Inl NullDeref)"

section \<open>The dissector\<close>

text \<open>\<open>FILL_EVENT\<close>\<close>

definition fill_event ::
  "nat \<Rightarrow> nat \<Rightarrow> ovm_var list \<Rightarrow> event \<times> 'a orchids_scheme \<Rightarrow> fault + event \<times> 'a orchids_scheme" where
  "fill_event m n vs st =
     (let (ev, s) = st; (tbl, mem) = alloc_attrs (map Some vs) (vm (o_engine s)) in
      add_fields_to_event_stride m ev tbl n (n + length vs) (s\<lparr>o_engine := (o_engine s)\<lparr>vm := mem\<rparr>\<rparr>))"

text \<open>\<open>mid\<close>: some characters of a keyword are read, and spaces count.  The first argument bounds the number of turns.\<close>

fun parse_from :: "clock_env \<Rightarrow> (nat \<Rightarrow> ovm_var list \<Rightarrow> 's \<Rightarrow> fault + 's) \<Rightarrow> action_tree \<Rightarrow> nat \<Rightarrow> bool \<Rightarrow> action_tree \<Rightarrow>
  nat \<Rightarrow> byte list \<Rightarrow> 's \<Rightarrow> fault + byte list \<times> 's" where
  "parse_from env fill root 0 mid atp s buf st = Inl NoReturn"
| "parse_from env fill root (Suc k) mid atp s buf st =
     bnd (at buf s) (\<lambda>c.
     if c = 0 then Inr (buf, st)
     else if \<not> mid \<and> isspace c then parse_from env fill root k mid atp (s + 1) buf st
     else case atp of Found _ _ \<Rightarrow> Inl OutOfBounds | Proceed f \<Rightarrow> (case f c of
         None \<Rightarrow> parse_from env fill root k False root (s + 1) buf st
       | Some (Found code n) \<Rightarrow>
           bnd (action_doer env code (s + 1) n buf) (\<lambda>(s, buf, from, vs).
           bnd (fill from vs st) (\<lambda>st. parse_from env fill root k False root s buf st))
       | Some (Proceed g) \<Rightarrow> parse_from env fill root k True (Proceed g) (s + 1) buf st))"

definition action_parse_event ::
  "clock_env \<Rightarrow> (nat \<Rightarrow> ovm_var list \<Rightarrow> 's \<Rightarrow> fault + 's) \<Rightarrow> action_tree option \<Rightarrow> byte list \<Rightarrow> 's \<Rightarrow> fault + byte list \<times> 's" where
  "action_parse_event env fill tree buf st = (case tree of None \<Rightarrow> Inr (buf, st)
     | Some root \<Rightarrow> parse_from env fill root (length buf) False root 0 buf st)"

text \<open>\<open>STR(event->value)\<close> is read and written for every type of value; only the types of strings that own their
  characters have them there.  Zero bytes follow the characters.\<close>

definition str_block :: "ovm_data \<Rightarrow> fault + byte list \<times> (byte list \<Rightarrow> ovm_data)" where
  "str_block d = (case d of
       VStr s \<Rightarrow> Inr (s @ replicate 5 0, \<lambda>buf. VStr (take (length s) buf))
     | VBStr s \<Rightarrow> Inr (s @ replicate 4 0, \<lambda>buf. VBStr (take (length s) buf))
     | _ \<Rightarrow> Inl OutOfBounds)"

definition dissect_auditd ::
  "clock_env \<Rightarrow> action_tree option \<Rightarrow> (nat \<Rightarrow> event \<Rightarrow> 'a orchids_scheme \<Rightarrow> fault + 'a orchids_scheme) \<Rightarrow>
   nat \<Rightarrow> event \<Rightarrow> nat option \<Rightarrow> 'a orchids_scheme \<Rightarrow> fault + int \<times> 'a orchids_scheme" where
  "dissect_auditd env tree post m ev data s =
     (case ev of [] \<Rightarrow> Inl NullDeref | (f, p) # es \<Rightarrow>
     bnd (deref (vm (o_engine s)) p) (\<lambda>v. bnd (str_block (vdata v)) (\<lambda>(buf, put).
     bnd (action_parse_event env (fill_event m) tree buf (ev, s)) (\<lambda>(buf, ev, s).
     let mem = vm (o_engine s);
       s = s\<lparr>o_engine := (o_engine s)\<lparr>vm := mem\<lparr>heap := (heap mem)(the p \<mapsto> v\<lparr>vdata := put buf\<rparr>)\<rparr>\<rparr>\<rparr> in
     bnd (post m ev s) (\<lambda>s. Inr (0, s))))))"

definition auditd_fields :: "field_def list" where
  "auditd_fields = map (\<lambda>(n, t, d). \<lparr>fd_name = chars n, fd_type = t, fd_desc = chars d\<rparr>)
    [(''auditd.node'', 6, ''auditd node''), (''auditd.type'', 6, ''type of auditd event''),
     (''auditd.time'', 11, ''auditd event time''), (''auditd.serial'', 2, ''event serial number''),
     (''auditd.arch'', 2, ''the elf architecture flags''), (''auditd.syscall'', 2, ''syscall number''),
     (''auditd.success'', 6, ''syscall success''), (''auditd.exit'', 2, ''exit value''),
     (''auditd.varzero'', 2, ''syscall argument''), (''auditd.varone'', 2, ''syscall argument''),
     (''auditd.vartwo'', 2, ''syscall argument''), (''auditd.varthree'', 2, ''syscall argument''),
     (''auditd.items'', 2, ''number of path records in the event''), (''auditd.ppid'', 2, ''parent pid''),
     (''auditd.pid'', 2, ''process id''), (''auditd.auid'', 2, ''process auid''), (''auditd.uid'', 2, ''user id''),
     (''auditd.gid'', 2, ''group id''), (''auditd.euid'', 2, ''effective user id''), (''auditd.suid'', 2, ''set user id''),
     (''auditd.fsuid'', 2, ''file system user id''), (''auditd.egid'', 2, ''effective group id''),
     (''auditd.sgid'', 2, ''set group id''), (''auditd.fsgid'', 2, ''file system group id''),
     (''auditd.tty'', 6, ''tty interface''), (''auditd.ses'', 2, [CHR ''u'', CHR ''s'', CHR ''e'', CHR ''r'', CHR 0x27, CHR ''s''] @ '' SE Linux user account''),
     (''auditd.comm'', 6, ''command line program name''), (''auditd.exe'', 6, ''executable name''),
     (''auditd.subj'', 6, ''lspp subject'' @ [CHR 0x27] @ ''s context string''), (''auditd.key'', 6, ''tty interface''),
     (''auditd.item'', 2, ''file path: item''), (''auditd.name'', 2, ''file path: name''),
     (''auditd.inode'', 2, ''file path: inode''), (''auditd.mode'', 2, ''file path: mode''),
     (''auditd.dev'', 2, ''file path: device (major and minor)''), (''auditd.ouid'', 2, ''file path: originator uid''),
     (''auditd.ogid'', 2, ''file path: originator gid''), (''auditd.rdev'', 2, ''file path: real device (major, minor)''),
     (''auditd.cwd'', 6, ''file cwd: the current working directory'')]"

text \<open>The tree is the configuration of the module.\<close>

definition auditd_preconfig ::
  "'o input_cfg \<Rightarrow> nat \<Rightarrow> 'a orchids_scheme \<Rightarrow> fault + action_tree \<times> 'a orchids_scheme" where
  "auditd_preconfig cfg m s =
     bnd (register_fields cfg m auditd_fields s) (\<lambda>s. bnd action_init (\<lambda>t. Inr (t, s)))"

end
