(* ===== verification/Syslog.thy ===== *)
theory Syslog
  imports Input
begin

text \<open>
  \<open>src/modules/mod_syslog.c\<close>: the dissector that takes a line of syslog apart into eight
  fields.  \<open>txt_line\<close> is the list of the bytes from the pointer to the end of the block of the
  event's value, \<open>txt_len\<close> an \<open>int\<close> of its own.  The stages of \<open>dissect_syslog\<close> follow its text; a
  stage that ends in \<open>return (1)\<close> gives \<open>None\<close>.  The variables of a dissection that fails are
  allocated and released again by the code; here they are allocated when the dissection has succeeded.
\<close>

section \<open>Dates\<close>

text \<open>The static \<open>struct tm\<close> of \<open>syslog_getdate\<close>, which \<open>mktime\<close> normalises in place.\<close>

record tm =
  tm_year :: int
  tm_mon :: int
  tm_mday :: int
  tm_hour :: int
  tm_min :: int
  tm_sec :: int
  tm_isdst :: int

text \<open>\<open>Some None\<close> for a month of which only the first letter is known: \<open>tm_mon\<close> is not assigned.\<close>

definition syslog_month :: "byte list \<Rightarrow> fault + int option option" where
  "syslog_month d =
     bnd (at d 0) (\<lambda>c0.
     if c0 = 65 then bnd (at d 1) (\<lambda>c1.
       Inr (Some (if c1 = 117 then Some 7 else if c1 = 118 then Some 3 else None)))
     else if c0 = 68 then Inr (Some (Some 11))
     else if c0 = 70 then Inr (Some (Some 1))
     else if c0 = 74 then bnd (at d 1) (\<lambda>c1.
       if c1 = 97 then Inr (Some (Some 0))
       else if c1 = 117 then bnd (at d 2) (\<lambda>c2.
         Inr (Some (if c2 = 108 then Some 6 else if c2 = 110 then Some 5 else None)))
       else Inr (Some None))
     else if c0 = 77 then bnd (at d 2) (\<lambda>c2.
       Inr (Some (if c2 = 114 then Some 2 else if c2 = 121 then Some 4 else None)))
     else if c0 = 78 then Inr (Some (Some 10))
     else if c0 = 79 then Inr (Some (Some 9))
     else if c0 = 83 then Inr (Some (Some 8))
     else Inr None)"

text \<open>\<open>date[i] - '0'\<close>, with signed characters.\<close>

definition digit_at :: "byte list \<Rightarrow> nat \<Rightarrow> fault + int" where
  "digit_at d i = bnd (at d i) (\<lambda>b. Inr (sint b - 48))"

definition two_digits :: "byte list \<Rightarrow> nat \<Rightarrow> fault + int" where
  "two_digits d i = bnd (digit_at d i) (\<lambda>a. bnd (digit_at d (i + 1)) (\<lambda>b. Inr (a * 10 + b)))"

definition syslog_day :: "byte list \<Rightarrow> fault + int" where
  "syslog_day d = bnd (at d 4) (\<lambda>c.
     bnd (if c \<noteq> 32 then bnd (digit_at d 4) (\<lambda>a. Inr (a * 10)) else Inr 0) (\<lambda>day.
     bnd (digit_at d 5) (\<lambda>b. Inr (day + b))))"

text \<open>The result tells whether the function returned the structure or \<open>NULL\<close>.\<close>

definition syslog_getdate :: "byte list \<Rightarrow> tm \<Rightarrow> fault + bool \<times> tm" where
  "syslog_getdate d t =
     (let t = t\<lparr>tm_year := 107\<rparr> in
      bnd (syslog_month d) (\<lambda>mon. case mon of None \<Rightarrow> Inr (False, t) | Some mon \<Rightarrow>
      let t = (case mon of None \<Rightarrow> t | Some k \<Rightarrow> t\<lparr>tm_mon := k\<rparr>) in
      bnd (syslog_day d) (\<lambda>day. bnd (two_digits d 7) (\<lambda>h. bnd (two_digits d 10) (\<lambda>m. bnd (two_digits d 13) (\<lambda>sec.
      Inr (True, t\<lparr>tm_mday := day, tm_hour := h, tm_min := m, tm_sec := sec\<rparr>)))))))"

section \<open>The stages of the dissector\<close>

text \<open>An \<open>int\<close> that is passed as a \<open>size_t\<close>.\<close>

definition as_size :: "cint \<Rightarrow> nat" where
  "as_size len = unat (scast len :: culong)"

definition skip :: "nat \<Rightarrow> byte list \<times> cint \<Rightarrow> byte list \<times> cint" where
  "skip n p = (drop n (fst p), snd p - of_nat n)"

text \<open>Which characters are at which places; the first one that differs ends the comparison.\<close>

fun chars_at :: "byte list \<Rightarrow> (nat \<times> byte) list \<Rightarrow> fault + bool" where
  "chars_at txt [] = Inr True"
| "chars_at txt ((i, c) # cs) = bnd (at txt i) (\<lambda>b. if b = c then chars_at txt cs else Inr False)"

definition starts_with :: "byte list \<Rightarrow> byte list \<Rightarrow> fault + bool" where
  "starts_with lit txt = bnd (memcmp lit txt) (\<lambda>c. Inr (c = 0))"

definition syslog_severity_g :: "byte list list" where
  "syslog_severity_g = map chars
    [''(0) Emergency: system is unusable'', ''(1) Alert: action must be taken immediately'',
     ''(2) Critical: critical conditions'', ''(3) Error: error conditions'', ''(4) Warning: warning conditions'',
     ''(5) Notice: normal but significant condition'', ''(6) Informational: informational messages'',
     ''(7) Debug: debug-level messages'']"

definition syslog_facility_g :: "byte list list" where
  "syslog_facility_g = map chars
    [''(0) kernel messages'', ''(1) user-level messages'', ''(2) mail system'', ''(3) system daemons'',
     ''(4) security/authorization messages'', ''(5) messages generated internally by syslogd'',
     ''(6) line printer subsystem'', ''(7) network news subsystem'', ''(8) UUCP subsystem'',
     ''(9) clock daemon (and cron/at)'', ''(10) security/authorization messages'', ''(11) FTP daemon'',
     ''(12) NTP subsystem'', ''(13) log audit '', ''(14) log alert '', ''(15) clock daemon'',
     ''(16) local use 0  (local0)'', ''(17) local use 1  (local1)'', ''(18) local use 2  (local2)'',
     ''(19) local use 3  (local3)'', ''(20) local use 4  (local4)'', ''(21) local use 5  (local5)'',
     ''(22) local use 6  (local6)'', ''(23) local use 7  (local7)'']"

text \<open>\<open>table[i]\<close> with an index that may be negative.\<close>

definition at_int :: "'a list \<Rightarrow> int \<Rightarrow> fault + 'a" where
  "at_int xs i = (if i < 0 then Inl OutOfBounds else at xs (nat i))"

text \<open>\<open><priority>\<close>: the facility and the severity.\<close>

definition read_priority ::
  "byte list \<times> cint \<Rightarrow> fault + (ovm_var option \<times> ovm_var option \<times> byte list \<times> cint) option" where
  "read_priority p =
     bnd (at (fst p) 0) (\<lambda>c. if c \<noteq> 60 then Inr (Some (None, None, p)) else
     bnd (get_next_int (drop 1 (fst p)) (as_size (snd p))) (\<lambda>(sz, prio).
     if 191 <s prio then Inr None else
     bnd (at_int syslog_facility_g (sint prio div 8)) (\<lambda>fac.
     bnd (at_int syslog_severity_g (sint prio mod 8)) (\<lambda>sev.
     Inr (Some (Some (vstr fac), Some (vstr sev), skip (sz + 2) p))))))"

definition date_is_here :: "byte list \<times> cint \<Rightarrow> fault + bool" where
  "date_is_here p = (if 15 <s snd p
     then chars_at (fst p) [(3, 32), (6, 32), (9, 58), (12, 58), (15, 32)] else Inr False)"

definition read_time ::
  "(tm \<Rightarrow> tm \<times> clong) \<Rightarrow> tm \<Rightarrow> byte list \<times> cint \<Rightarrow> fault + tm \<times> (ovm_var option \<times> byte list \<times> cint) option" where
  "read_time mktime t p =
     bnd (date_is_here p) (\<lambda>here. if \<not> here then Inr (t, Some (None, p)) else
     bnd (syslog_getdate (fst p) t) (\<lambda>(ok, t). if \<not> ok then Inr (t, None) else
     let (t, time) = mktime t in
     Inr (t, Some (Some (ovm_ctime_new\<lparr>vdata := VCTime time, vflags := TYPE_MONO\<rparr>), skip 16 p))))"

text \<open>The name of the host ends at a space that is not followed by a parenthesis.\<close>

definition read_host ::
  "byte list \<times> cint \<Rightarrow> fault + (ovm_var option \<times> byte list \<times> cint) option" where
  "read_host p =
     bnd (my_strspn (fst p) (chars '' [:'') (as_size (snd p))) (\<lambda>sz.
     bnd (at (fst p) sz) (\<lambda>c.
     bnd (if c = 32 then bnd (at (fst p) (sz + 1)) (\<lambda>d. Inr (d \<noteq> 40)) else Inr False) (\<lambda>host.
     if \<not> host then Inr (Some (None, p))
     else if snd (skip (sz + 1) p) \<le>s 0 then Inr None
     else Inr (Some (Some (vstr (take sz (fst p))), skip (sz + 1) p)))))"

text \<open>\<open>last message repeated\<close>: the message, the count, and \<open>syslog\<close> as the program.\<close>

definition read_repeat ::
  "byte list \<times> cint \<Rightarrow> fault + (ovm_var \<times> ovm_var \<times> ovm_var) option" where
  "read_repeat p =
     bnd (starts_with (chars ''last message repeated '') (fst p)) (\<lambda>b. if \<not> b then Inr None else
     bnd (my_strspn (fst p) [13, 10] (as_size (snd p))) (\<lambda>sz.
     bnd (get_next_int (fst (skip 22 p)) (as_size (snd (skip 22 p)))) (\<lambda>(_, count).
     Inr (Some (vstr (take sz (fst p)), int_var count, (ovm_str_new 6)\<lparr>vdata := VStr (chars ''syslog'')\<rparr>)))))"

definition read_prog ::
  "byte list \<times> cint \<Rightarrow> fault + (ovm_var \<times> byte list \<times> cint) option" where
  "read_prog p =
     bnd (my_strspn (fst p) (chars ''[:'') (as_size (snd p))) (\<lambda>sz.
     bnd (starts_with (chars ''gconfd'') (fst p)) (\<lambda>g.
     if snd (skip sz p) \<le>s 0 then Inr None
     else Inr (Some (vstr (take (if g then 6 else sz) (fst p)), skip sz p))))"

text \<open>The number of the process; what follows it is compared, and skipped in any case.\<close>

definition read_pid ::
  "byte list \<times> cint \<Rightarrow> fault + (ovm_var option \<times> byte list \<times> cint) option" where
  "read_pid p =
     bnd (at (fst p) 0) (\<lambda>c.
     bnd (if c = 91 then
            bnd (get_next_int (drop 1 (fst p)) (as_size (snd p))) (\<lambda>(sz, pid).
            bnd (starts_with (chars '']: '') (drop (sz + 1) (fst p))) (\<lambda>_.
            Inr (Some (int_var pid), skip (sz + 4) p)))
          else if c = 58 then Inr (None, skip 2 p)
          else Inr (None, p)) (\<lambda>(pid, q).
     if snd q \<le>s 0 then Inr None else Inr (Some (pid, q))))"

definition read_msg :: "byte list \<times> cint \<Rightarrow> fault + ovm_var" where
  "read_msg p = bnd (my_strspn (fst p) [13, 10] (as_size (snd p))) (\<lambda>sz. Inr (vstr (take sz (fst p))))"

section \<open>The dissector\<close>

text \<open>A stage that may fail, and what follows it.\<close>

definition ok :: "fault + 'a option \<Rightarrow> ('a \<Rightarrow> fault + 'b option) \<Rightarrow> fault + 'b option" where
  "ok m f = bnd m (\<lambda>r. case r of None \<Rightarrow> Inr None | Some x \<Rightarrow> f x)"

text \<open>What follows the date.\<close>

definition syslog_tail ::
  "ovm_var option list \<Rightarrow> byte list \<times> cint \<Rightarrow> fault + ovm_var option list option" where
  "syslog_tail attr p =
     (if snd p \<le>s 0 then Inr None else
      ok (read_host p) (\<lambda>(host, p).
      bnd (read_repeat p) (\<lambda>r. case r of
        Some (msg, count, prog) \<Rightarrow> Inr (Some (attr @ [host, Some count, None, Some prog, Some msg]))
      | None \<Rightarrow>
          ok (read_prog p) (\<lambda>(prog, p).
          ok (read_pid p) (\<lambda>(pid, p).
          bnd (read_msg p) (\<lambda>msg.
          Inr (Some (attr @ [host, None, pid, Some prog, Some msg]))))))))"

text \<open>The eight fields of a line, in the order of their numbers.\<close>

definition syslog_attrs ::
  "(tm \<Rightarrow> tm \<times> clong) \<Rightarrow> tm \<Rightarrow> byte list \<times> cint \<Rightarrow> fault + tm \<times> ovm_var option list option" where
  "syslog_attrs mktime t p =
     bnd (read_priority p) (\<lambda>r. case r of None \<Rightarrow> Inr (t, None) | Some (fac, sev, p) \<Rightarrow>
     bnd (read_time mktime t p) (\<lambda>(t, r). case r of None \<Rightarrow> Inr (t, None) | Some (time, p) \<Rightarrow>
     bnd (syslog_tail [fac, sev, time] p) (\<lambda>attrs. Inr (t, attrs))))"

record syslog_orchids = orchids +
  sl_tm :: tm

definition SYSLOG_FIELDS :: nat where "SYSLOG_FIELDS = 8"

definition syslog_fields :: "field_def list" where
  "syslog_fields = map (\<lambda>(n, t, d). \<lparr>fd_name = chars n, fd_type = t, fd_desc = chars d\<rparr>)
    [(''syslog.facility'', 6, ''source of the message''), (''syslog.severity'', 6, ''severity of the message''),
     (''syslog.time'', 9, ''date of the event''), (''syslog.host'', 6, ''host''),
     (''syslog.repeat'', 2, ''message repetition''), (''syslog.pid'', 2, ''process id of the event source''),
     (''syslog.prog'', 6, ''program name''), (''syslog.msg'', 6, ''the message'')]"

definition syslog_preconfig ::
  "'o input_cfg \<Rightarrow> nat \<Rightarrow> 'a orchids_scheme \<Rightarrow> fault + nat option \<times> 'a orchids_scheme" where
  "syslog_preconfig cfg m s = bnd (register_fields cfg m syslog_fields s) (\<lambda>s. Inr (None, s))"

text \<open>The line is the text of the first field of the event: a \<open>T_STR\<close>, which has five zero
  bytes behind its characters, or a \<open>T_BSTR\<close>, which has four.\<close>

definition line_of :: "ovm_data \<Rightarrow> fault + byte list \<times> cint" where
  "line_of d = (case d of
       VStr s \<Rightarrow> Inr (s @ replicate 5 0, of_nat (length s))
     | VBStr s \<Rightarrow> Inr (s @ replicate 4 0, of_nat (length s))
     | _ \<Rightarrow> Inl OutOfBounds)"

definition dissect_syslog ::
  "(tm \<Rightarrow> tm \<times> clong) \<Rightarrow> (nat \<Rightarrow> event \<Rightarrow> 'a syslog_orchids_scheme \<Rightarrow> fault + 'a syslog_orchids_scheme) \<Rightarrow>
   nat \<Rightarrow> event \<Rightarrow> nat option \<Rightarrow> 'a syslog_orchids_scheme \<Rightarrow> fault + int \<times> 'a syslog_orchids_scheme" where
  "dissect_syslog mktime post m ev data s =
     (case ev of [] \<Rightarrow> Inl NullDeref | (f, p) # es \<Rightarrow>
     bnd (deref (vm (o_engine s)) p) (\<lambda>v. bnd (line_of (vdata v)) (\<lambda>line.
     bnd (syslog_attrs mktime (sl_tm s) line) (\<lambda>(t, attrs).
     let s = s\<lparr>sl_tm := t\<rparr> in
     case attrs of None \<Rightarrow> Inr (1, s) | Some attrs \<Rightarrow>
       let (tbl, mem) = alloc_attrs attrs (vm (o_engine s)) in
       bnd (add_fields_to_event m ev tbl SYSLOG_FIELDS (s\<lparr>o_engine := (o_engine s)\<lparr>vm := mem\<rparr>\<rparr>)) (\<lambda>(ev, s).
       bnd (post m ev s) (\<lambda>s. Inr (0, s)))))))"

end
