(* ===== verification/Engine_Counts.thy ===== *)
theory Engine_Counts
  imports Engine
begin

text \<open>
  The bookkeeping of the engine.  \<open>same_core\<close> says that the blocks, the events they refer to and
  the counters are the same; most operations keep it.  \<open>counts\<close> is the invariant: the counters
  are the numbers of the blocks, the references of an event are the state instances that refer
  to it, and no event is kept without a reference.
\<close>

section \<open>Operations that only change the contents of blocks\<close>

definition event_of :: "engine \<Rightarrow> nat \<Rightarrow> nat option option" where
  "event_of s = (\<lambda>a. map_option si_event (insts_st s a))"

definition refs_of :: "engine \<Rightarrow> nat \<Rightarrow> int option" where
  "refs_of s = (\<lambda>e. map_option ae_refs (aevents_st s e))"

definition first_of :: "engine \<Rightarrow> nat \<Rightarrow> nat option" where
  "first_of s = (\<lambda>r. map_option ri_first_state (rinsts_st s r))"

definition same_core :: "engine \<Rightarrow> engine \<Rightarrow> bool" where
  "same_core s s' \<longleftrightarrow> dom (threads_st s') = dom (threads_st s) \<and> event_of s' = event_of s \<and>
     refs_of s' = refs_of s \<and> first_of s' = first_of s \<and> en_fresh s' = en_fresh s \<and> en_threads s' = en_threads s \<and>
     state_instances s' = state_instances s \<and> active_events s' = active_events s \<and>
     active_event_cur s' = active_event_cur s"

lemma same_core_refl [simp]: "same_core s s"
  by (simp add: same_core_def)

lemma same_core_trans: "same_core a b \<Longrightarrow> same_core b c \<Longrightarrow> same_core a c"
  by (simp add: same_core_def)

lemma lookup_Inr [simp]: "lookup st p = Inr x \<longleftrightarrow> (\<exists>a. p = Some a \<and> st a = Some x)"
  by (auto simp: lookup_def split: option.splits)

lemma lookup_Some_Inr: "st a = Some x \<Longrightarrow> lookup st (Some a) = Inr x"
  by simp

lemmas access_defs = thread_at_def inst_at_def rinst_at_def aevent_at_def

lemma core_upd_thread: "upd_thread t f s = Inr s' \<Longrightarrow> same_core s s'"
  by (auto simp: upd_thread_def access_defs same_core_def event_of_def refs_of_def first_of_def split: if_splits)

lemma core_upd_rinst:
  assumes f: "\<And>x. ri_first_state (f x) = ri_first_state x" and u: "upd_rinst r f s = Inr s'"
  shows "same_core s s'"
proof -
  from u obtain x where "rinsts_st s r = Some x" "s' = s\<lparr>rinsts_st := (rinsts_st s)(r \<mapsto> f x)\<rparr>"
    by (auto simp: upd_rinst_def access_defs)
  then show ?thesis by (simp add: same_core_def event_of_def refs_of_def first_of_def fun_eq_iff f)
qed

lemma core_upd_inst:
  assumes f: "\<And>x. si_event (f x) = si_event x" and u: "upd_inst a f s = Inr s'"
  shows "same_core s s'"
proof -
  from u obtain x where "insts_st s a = Some x" "s' = s\<lparr>insts_st := (insts_st s)(a \<mapsto> f x)\<rparr>"
    by (auto simp: upd_inst_def access_defs)
  then show ?thesis by (simp add: same_core_def event_of_def refs_of_def first_of_def fun_eq_iff f)
qed

lemma core_upd_aevent:
  assumes f: "\<And>x. ae_refs (f x) = ae_refs x" and u: "upd_aevent a f s = Inr s'"
  shows "same_core s s'"
proof -
  from u obtain x where "aevents_st s a = Some x" "s' = s\<lparr>aevents_st := (aevents_st s)(a \<mapsto> f x)\<rparr>"
    by (auto simp: upd_aevent_def access_defs)
  then show ?thesis by (simp add: same_core_def event_of_def refs_of_def first_of_def fun_eq_iff f)
qed

lemma core_fields [simp]:
  "same_core s (x\<lparr>vm := v1\<rparr>) = same_core s x" "same_core (x\<lparr>vm := v1\<rparr>) s = same_core x s"
  "same_core s (x\<lparr>global_fields := v2\<rparr>) = same_core s x" "same_core (x\<lparr>global_fields := v2\<rparr>) s = same_core x s"
  "same_core s (x\<lparr>sync_locks := v3\<rparr>) = same_core s x" "same_core (x\<lparr>sync_locks := v3\<rparr>) s = same_core x s"
  "same_core s (x\<lparr>rule_uses := v4\<rparr>) = same_core s x" "same_core (x\<lparr>rule_uses := v4\<rparr>) s = same_core x s"
  "same_core s (x\<lparr>first_rule_instance := v6\<rparr>) = same_core s x" "same_core (x\<lparr>first_rule_instance := v6\<rparr>) s = same_core x s"
  "same_core s (x\<lparr>current_tail := v7\<rparr>) = same_core s x" "same_core (x\<lparr>current_tail := v7\<rparr>) s = same_core x s"
  "same_core s (x\<lparr>cur_retrig_qh := v8\<rparr>) = same_core s x" "same_core (x\<lparr>cur_retrig_qh := v8\<rparr>) s = same_core x s"
  "same_core s (x\<lparr>cur_retrig_qt := v9\<rparr>) = same_core s x" "same_core (x\<lparr>cur_retrig_qt := v9\<rparr>) s = same_core x s"
  "same_core s (x\<lparr>new_qh := v10\<rparr>) = same_core s x" "same_core (x\<lparr>new_qh := v10\<rparr>) s = same_core x s"
  "same_core s (x\<lparr>new_qt := v11\<rparr>) = same_core s x" "same_core (x\<lparr>new_qt := v11\<rparr>) s = same_core x s"
  "same_core s (x\<lparr>retrig_qh := v12\<rparr>) = same_core s x" "same_core (x\<lparr>retrig_qh := v12\<rparr>) s = same_core x s"
  "same_core s (x\<lparr>retrig_qt := v13\<rparr>) = same_core s x" "same_core (x\<lparr>retrig_qt := v13\<rparr>) s = same_core x s"
  "same_core s (x\<lparr>active_event_head := v14\<rparr>) = same_core s x" "same_core (x\<lparr>active_event_head := v14\<rparr>) s = same_core x s"
  "same_core s (x\<lparr>active_event_tail := v15\<rparr>) = same_core s x" "same_core (x\<lparr>active_event_tail := v15\<rparr>) s = same_core x s"
  "same_core s (x\<lparr>en_events := v16\<rparr>) = same_core s x" "same_core (x\<lparr>en_events := v16\<rparr>) s = same_core x s"
  "same_core s (x\<lparr>rule_instances := v17\<rparr>) = same_core s x" "same_core (x\<lparr>rule_instances := v17\<rparr>) s = same_core x s"
  by (simp_all add: same_core_def event_of_def refs_of_def first_of_def)

lemma core_exec: "exec_in cfg a code s = Inr (ret, s') \<Longrightarrow> same_core s s'"
  by (auto simp: exec_in_def access_defs same_core_def event_of_def refs_of_def first_of_def fun_eq_iff split: option.splits)

lemma core_kill_threads: "kill_threads r ts s = Inr s' \<Longrightarrow> same_core s s'"
proof (induction ts arbitrary: s)
  case (Cons t ts)
  then show ?case by (fastforce split: if_splits intro: same_core_trans core_upd_thread)
qed simp

lemma core_kill_queue: "kill_queue r p s = Inr s' \<Longrightarrow> same_core s s'"
  by (auto simp: kill_queue_def dest: core_kill_threads)

lemma look_at_same: "look_at_threads ts s = Inr s' \<Longrightarrow> s' = s"
  by (induction ts s rule: look_at_threads.induct) auto

lemma core_mark_dead: "mark_dead_rule r s = Inr s' \<Longrightarrow> same_core s s'"
  by (auto simp: mark_dead_rule_def dest!: core_kill_queue core_upd_rinst [rotated] look_at_same intro: same_core_trans)

lemma core_link_state: "link_state a p s = Inr s' \<Longrightarrow> same_core s s'"
  by (auto simp: link_state_def dest!: core_upd_rinst [rotated] core_upd_inst [rotated] intro: same_core_trans)

lemma core_lock_add: "lock_add cfg r a s = Inr s' \<Longrightarrow> same_core s s'"
  by (auto simp: lock_add_def)

lemma core_lock_del: "lock_del cfg r a s = Inr s' \<Longrightarrow> same_core s s'"
  by (auto simp: lock_del_def)

lemma core_delete_locks: "delete_locks cfg r as s = Inr s' \<Longrightarrow> same_core s s'"
  by (induction as arbitrary: s) (auto dest!: core_lock_del intro: same_core_trans)

lemma core_check_sync: "check_sync cfg a once s = Inr (go, s') \<Longrightarrow> same_core s s'"
  by (auto simp: check_sync_def split: if_splits option.splits dest!: core_lock_add core_upd_rinst [rotated]
      intro: same_core_trans)

lemma core_free_env: "free_env ps s = Inr s' \<Longrightarrow> same_core s s'"
proof (induction ps arbitrary: s)
  case (Cons p ps)
  show ?case using Cons.prems by (cases p) (auto dest!: Cons.IH)
qed simp

lemma core_free_event: "free_event es s = Inr s' \<Longrightarrow> same_core s s'"
proof (induction es arbitrary: s)
  case (Cons e es)
  show ?case using Cons.prems by (cases e) (auto dest!: Cons.IH)
qed simp

lemma core_unlink_active: "unlink_active_event e s = Inr s' \<Longrightarrow> same_core s s'"
  by (auto simp: unlink_active_event_def split: option.splits
      dest!: core_upd_aevent [rotated] intro: same_core_trans)

lemma core_unlink_from: "unlink_from n a prev p t s = Inr s' \<Longrightarrow> same_core s s'"
  by (induction n a prev p t s rule: unlink_from.induct)
    (auto split: if_splits option.splits dest!: core_upd_thread core_upd_inst [rotated])

lemma core_unlink_thread: "unlink_thread_in_state_instance_list t s = Inr s' \<Longrightarrow> same_core s s'"
  by (auto simp: unlink_thread_in_state_instance_list_def dest!: core_unlink_from)

lemma core_when_thread: "when_some p (\<lambda>t. upd_thread t f) s = Inr s' \<Longrightarrow> same_core s s'"
  by (auto simp: when_some_def split: option.splits dest!: core_upd_thread)

lemma core_bump: "bump_new_tail s = Inr s' \<Longrightarrow> same_core s s'"
  by (auto simp: bump_new_tail_def dest!: core_when_thread)

lemma core_merge: "merge_queues s = Inr s' \<Longrightarrow> same_core s s'"
  by (auto simp: merge_queues_def split: option.splits dest!: core_upd_thread intro: same_core_trans)

lemma core_commit:
  assumes "commit_queues s = Inr s'"
  shows "same_core s s'"
proof -
  from assms obtain s1 where s1: "when_some (retrig_qt s) (\<lambda>t. upd_thread t (\<lambda>x. x\<lparr>t_bump := True\<rparr>)) s = Inr s1"
    by (auto simp: commit_queues_def)
  note c1 = core_when_thread [OF s1]
  show ?thesis
  proof (cases "new_qh s1")
    case None
    with assms s1 c1 show ?thesis by (auto simp: commit_queues_def)
  next
    case (Some h)
    with assms s1 obtain t s2 where s2: "upd_thread t (\<lambda>x. x\<lparr>t_bump := True, t_next := retrig_qh s1\<rparr>) s1 = Inr s2"
      "s' = (if retrig_qt s2 \<noteq> None then s2\<lparr>new_qt := retrig_qt s2\<rparr> else s2)\<lparr>retrig_qh := None, retrig_qt := None\<rparr>"
      by (auto simp: commit_queues_def split: option.splits)
    from same_core_trans [OF c1 core_upd_thread [OF s2(1)]] show ?thesis by (simp add: s2(2))
  qed
qed

lemma core_retrig: "retrig_thread t s = Inr s' \<Longrightarrow> same_core s s'"
  by (auto simp: retrig_thread_def split: option.splits dest!: core_upd_thread intro: same_core_trans)

section \<open>The invariant\<close>

text \<open>\<open>E\<close> is the event that is being injected, which may have no references yet.  \<open>k\<close> threads
  have left the count but not yet the store.\<close>

definition referrers :: "engine \<Rightarrow> nat \<Rightarrow> nat set" where
  "referrers s e = {a. event_of s a = Some (Some e)}"

definition counts :: "int \<Rightarrow> nat option \<Rightarrow> engine \<Rightarrow> bool" where
  "counts k E s \<longleftrightarrow>
     finite (dom (threads_st s)) \<and> finite (dom (event_of s)) \<and> finite (dom (refs_of s)) \<and>
     (\<forall>a \<ge> en_fresh s. threads_st s a = None \<and> event_of s a = None \<and> refs_of s a = None) \<and>
     en_threads s + k = int (card (dom (threads_st s))) \<and>
     state_instances s = int (card (dom (event_of s))) \<and>
     active_events s = int (card (dom (refs_of s) - set_option E)) \<and>
     (\<forall>e n. refs_of s e = Some n \<longrightarrow> n = int (card (referrers s e)) \<and> (Some e \<noteq> E \<longrightarrow> 0 < n)) \<and>
     (\<forall>a e. event_of s a = Some (Some e) \<longrightarrow> e \<in> dom (refs_of s)) \<and>
     (\<forall>r a. first_of s r = Some a \<longrightarrow> a < en_fresh s \<and> (\<forall>e. event_of s a \<noteq> Some (Some e))) \<and>
     (\<forall>e. E = Some e \<longrightarrow> active_event_cur s = E \<and> e \<in> dom (refs_of s))"

lemma countsI:
  assumes "finite (dom (threads_st s))"
    and "finite (dom (event_of s))"
    and "finite (dom (refs_of s))"
    and "\<And>a. en_fresh s \<le> a \<Longrightarrow> threads_st s a = None"
    and "\<And>a. en_fresh s \<le> a \<Longrightarrow> event_of s a = None"
    and "\<And>a. en_fresh s \<le> a \<Longrightarrow> refs_of s a = None"
    and "en_threads s + k = int (card (dom (threads_st s)))"
    and "state_instances s = int (card (dom (event_of s)))"
    and "active_events s = int (card (dom (refs_of s) - set_option E))"
    and "\<And>e n. refs_of s e = Some n \<Longrightarrow> n = int (card (referrers s e))"
    and "\<And>e n. refs_of s e = Some n \<Longrightarrow> Some e \<noteq> E \<Longrightarrow> 0 < n"
    and "\<And>a e. event_of s a = Some (Some e) \<Longrightarrow> e \<in> dom (refs_of s)"
    and "\<And>r a. first_of s r = Some a \<Longrightarrow> a < en_fresh s"
    and "\<And>r a e. first_of s r = Some a \<Longrightarrow> event_of s a \<noteq> Some (Some e)"
    and "\<And>e. E = Some e \<Longrightarrow> active_event_cur s = E"
    and "\<And>e. E = Some e \<Longrightarrow> e \<in> dom (refs_of s)"
  shows "counts k E s"
  unfolding counts_def using assms by blast

lemma countsD:
  assumes "counts k E s"
  shows "finite (dom (threads_st s))"
    "finite (dom (event_of s))"
    "finite (dom (refs_of s))"
    "en_fresh s \<le> a \<Longrightarrow> threads_st s a = None"
    "en_fresh s \<le> a \<Longrightarrow> event_of s a = None"
    "en_fresh s \<le> a \<Longrightarrow> refs_of s a = None"
    "en_threads s + k = int (card (dom (threads_st s)))"
    "state_instances s = int (card (dom (event_of s)))"
    "active_events s = int (card (dom (refs_of s) - set_option E))"
    "refs_of s e = Some n \<Longrightarrow> n = int (card (referrers s e))"
    "refs_of s e = Some n \<Longrightarrow> Some e \<noteq> E \<Longrightarrow> 0 < n"
    "event_of s a = Some (Some e) \<Longrightarrow> e \<in> dom (refs_of s)"
    "first_of s r = Some a \<Longrightarrow> a < en_fresh s"
    "first_of s r = Some a \<Longrightarrow> event_of s a \<noteq> Some (Some e)"
    "E = Some e \<Longrightarrow> active_event_cur s = E"
    "E = Some e \<Longrightarrow> e \<in> dom (refs_of s)"
  using assms unfolding counts_def by blast+

lemma counts_core: "same_core s s' \<Longrightarrow> counts k E s \<Longrightarrow> counts k E s'"
  unfolding counts_def same_core_def referrers_def by (auto simp: domIff) (metis domIff)+

lemma finite_referrers: "counts k E s \<Longrightarrow> finite (referrers s e)"
  by (rule finite_subset [of _ "dom (event_of s)"]) (auto simp: counts_def referrers_def)

text \<open>A new thread, a new state instance, a reference.\<close>

lemma counts_add_thread:
  assumes "counts k E s" and "t = en_fresh s"
  shows "counts k E (s\<lparr>en_fresh := Suc t, en_threads := en_threads s + 1, threads_st := (threads_st s)(t \<mapsto> x)\<rparr>)"
proof -
  let ?s = "s\<lparr>en_fresh := Suc t, en_threads := en_threads s + 1, threads_st := (threads_st s)(t \<mapsto> x)\<rparr>"
  have "t \<notin> dom (threads_st s)" using assms by (auto simp: counts_def)
  moreover have "event_of ?s = event_of s" "refs_of ?s = refs_of s" "referrers ?s = referrers s" "first_of ?s = first_of s"
    by (simp_all add: event_of_def refs_of_def first_of_def first_of_def referrers_def fun_eq_iff)
  ultimately show ?thesis using countsD [OF assms(1)] assms(2)
    by (intro countsI) (simp_all add: less_SucI)
qed

lemma counts_add_inst:
  assumes "counts k E s" and "a = en_fresh s" and "si_event x = None"
  shows "counts k E (s\<lparr>en_fresh := Suc a, state_instances := state_instances s + 1, insts_st := (insts_st s)(a \<mapsto> x)\<rparr>)"
proof -
  let ?s = "s\<lparr>en_fresh := Suc a, state_instances := state_instances s + 1, insts_st := (insts_st s)(a \<mapsto> x)\<rparr>"
  have a: "a \<notin> dom (event_of s)" using assms by (auto simp: counts_def)
  have ev: "event_of ?s = (event_of s)(a \<mapsto> None)" "refs_of ?s = refs_of s" "first_of ?s = first_of s"
    by (simp_all add: event_of_def refs_of_def first_of_def fun_eq_iff assms(3))
  have "referrers ?s = referrers s" using a by (auto simp: referrers_def ev domIff fun_eq_iff)
  with a ev show ?thesis using countsD [OF assms(1)] assms(2)
    by (intro countsI) (auto simp: less_SucI split: if_splits)
qed

lemma counts_add_rinst:
  assumes "counts k E s" and "event_of s (ri_first_state x) = Some None" and "ri_first_state x < en_fresh s"
    and that: "en_fresh s \<le> Suc n"
  shows "counts k E (s\<lparr>en_fresh := Suc n, rinsts_st := (rinsts_st s)(r \<mapsto> x)\<rparr>)"
proof -
  let ?s = "s\<lparr>en_fresh := Suc n, rinsts_st := (rinsts_st s)(r \<mapsto> x)\<rparr>"
  have "event_of ?s = event_of s" "refs_of ?s = refs_of s" "referrers ?s = referrers s"
    "first_of ?s = (first_of s)(r \<mapsto> ri_first_state x)"
    by (simp_all add: event_of_def refs_of_def first_of_def referrers_def fun_eq_iff)
  moreover have "a < Suc n" if "first_of s r' = Some a" for r' a
    using countsD(13) [OF assms(1) that] assms(4) by simp
  ultimately show ?thesis using countsD [OF assms(1)] assms(2-4)
    by (intro countsI) (auto split: if_splits)
qed

text \<open>A state instance that was just made refers to the current event.\<close>

lemma counts_reference:
  assumes c: "counts k (Some e) s" and b: "event_of s b = Some None" "\<And>r. first_of s r \<noteq> Some b"
    and u: "upd_inst b (\<lambda>y. y\<lparr>si_event := Some e\<rparr>) s = Inr s1"
      "upd_aevent e (\<lambda>y. y\<lparr>ae_refs := ae_refs y + 1\<rparr>) s1 = Inr s2"
  shows "counts k (Some e) s2"
proof -
  from u have s2: "event_of s2 = (event_of s)(b \<mapsto> Some e)" "first_of s2 = first_of s"
    "refs_of s2 = (refs_of s)(e := map_option (\<lambda>n. n + 1) (refs_of s e))"
    "threads_st s2 = threads_st s" "en_fresh s2 = en_fresh s" "en_threads s2 = en_threads s"
    "state_instances s2 = state_instances s" "active_events s2 = active_events s"
    "active_event_cur s2 = active_event_cur s"
    by (auto simp: upd_inst_def upd_aevent_def access_defs event_of_def refs_of_def first_of_def fun_eq_iff)
  note d = countsD [OF c]
  have ref: "referrers s2 e' = (if e' = e then insert b (referrers s e) else referrers s e')" for e'
    using b(1) by (auto simp: referrers_def s2)
  have "b \<notin> referrers s e" using b(1) by (simp add: referrers_def)
  then have card: "card (referrers s2 e') = card (referrers s e') + (if e' = e then 1 else 0)" for e'
    using finite_referrers [OF c] by (simp add: ref)
  have dom: "dom (event_of s2) = dom (event_of s)" "dom (refs_of s2) = dom (refs_of s)"
    using b(1) by (auto simp: s2(1,3) dom_def)
  have ne: "e \<in> dom (refs_of s)" using d(16) by simp
  have bd: "insert b (dom (event_of s)) = dom (event_of s)" using b(1) by auto
  show ?thesis
  proof (rule countsI)
    fix e' n assume "refs_of s2 e' = Some n"
    then obtain m where m: "refs_of s e' = Some m" "n = m + (if e' = e then 1 else 0)"
      by (auto simp: s2(3) split: if_splits)
    show "n = int (card (referrers s2 e'))" using d(10) [OF m(1)] m(2) by (simp add: card)
    show "0 < n" if "Some e' \<noteq> Some e" using d(11) [OF m(1)] m(2) that by simp
  qed (use d b ne in \<open>auto simp: dom s2 card bd split: if_splits\<close>)
qed

section \<open>Simulation\<close>

lemma counts_new_thread:
  assumes c: "counts k E s" and n: "new_thread cfg a tr once s = Inr s'"
  shows "counts k E s'"
proof -
  from n obtain i s1 where s1: "upd_rinst (si_rule i) (\<lambda>r. r\<lparr>ri_threads := ri_threads r + 1\<rparr>) s = Inr s1"
    and "insts_st s a = Some i" by (auto simp: new_thread_def access_defs)
  let ?x = "\<lparr>t_next = None, t_trans = tr, t_inst = a, t_bump = False, t_onlyonce = once,
              t_killed = False, t_pass = 0, t_next_in_inst = (if once then None else si_threads i),
              t_timeout = cfg_time cfg + DEFAULT_TIMEOUT\<rparr>"
  let ?s = "s1\<lparr>en_fresh := Suc (en_fresh s1), en_threads := en_threads s1 + 1,
           threads_st := (threads_st s1)(en_fresh s1 \<mapsto> ?x)\<rparr>"
  from n s1 \<open>insts_st s a = Some i\<close> obtain s2 where
    s2: "(if once then Inr ?s else upd_inst a (\<lambda>x. x\<lparr>si_threads := Some (en_fresh s1)\<rparr>) ?s) = Inr s2"
    "(case new_qt s2 of
          Some q \<Rightarrow> bnd (upd_thread q (\<lambda>x. x\<lparr>t_next := Some (en_fresh s1)\<rparr>) s2) (\<lambda>s. Inr (s\<lparr>new_qt := Some (en_fresh s1)\<rparr>))
        | None \<Rightarrow> Inr (s2\<lparr>new_qh := Some (en_fresh s1), new_qt := Some (en_fresh s1)\<rparr>)) = Inr s'"
    by (auto simp: new_thread_def access_defs Let_def)
  have "counts k E s1" using counts_core [OF core_upd_rinst [OF _ s1] c] by simp
  from counts_add_thread [OF this refl] have "counts k E ?s" .
  moreover have "same_core ?s s2" using s2(1) by (auto split: if_splits dest!: core_upd_inst [rotated])
  moreover have "same_core s2 s'" using s2(2) by (auto split: option.splits dest!: core_upd_thread)
  ultimately show ?thesis by (blast intro: counts_core)
qed

lemma create_instance_Inr:
  assumes "create_state_instance cfg d p s = Inr (b, s')"
  shows "\<exists>x. b = en_fresh s \<and> si_event x = None \<and>
    s' = s\<lparr>en_fresh := Suc b, state_instances := state_instances s + 1, insts_st := (insts_st s)(b \<mapsto> x)\<rparr>"
  using assms by (intro exI [of _ "the (insts_st s' b)"]) (auto simp: create_state_instance_def Let_def)

lemma counts_create:
  assumes "counts k E s" and "create_state_instance cfg d p s = Inr (b, s')"
  shows "counts k E s' \<and> event_of s' b = Some None \<and> (\<forall>r. first_of s' r \<noteq> Some b)"
proof -
  from assms(2) obtain x where x: "b = en_fresh s" "si_event x = None"
    "s' = s\<lparr>en_fresh := Suc b, state_instances := state_instances s + 1, insts_st := (insts_st s)(b \<mapsto> x)\<rparr>"
    using create_instance_Inr by blast
  from counts_add_inst [OF assms(1) x(1,2)] x(3) have "counts k E s'" by simp
  moreover have "first_of s' = first_of s" "event_of s' b = Some None"
    by (simp_all add: x first_of_def event_of_def)
  moreover have "first_of s r \<noteq> Some b" for r using countsD(13) [OF assms(1), of r b] x(1) by auto
  ultimately show ?thesis by simp
qed

lemma counts_simulate:
  "simulate_state_and_create_threads n cfg a once s = Inr (ret, s') \<Longrightarrow> counts k E s \<Longrightarrow> counts k E s'"
  "simulate_transitions n cfg a once trs created s = Inr (ret, s') \<Longrightarrow> counts k E s \<Longrightarrow> counts k E s'"
proof (induction n cfg a once s and n cfg a once trs created s arbitrary: ret s' and ret s'
    rule: simulate_state_and_create_threads_simulate_transitions.induct)
  case (1 cfg a once s) then show ?case by simp
next
  case (2 n cfg a once s)
  from "2.prems"(1) obtain st s1 where st: "state_of cfg a s = Inr st"
    and s1: "(case st_action st of None \<Rightarrow> Inr s | Some code \<Rightarrow> bnd (exec_in cfg a code s) (\<lambda>(_, s). Inr s)) = Inr s1"
    by auto
  have c1: "counts k E s1" using s1 "2.prems"(2) by (auto split: option.splits intro: counts_core core_exec)
  show ?case
  proof (cases "st_trans st = []")
    case True
    with "2.prems"(1) st s1 show ?thesis by (auto intro: counts_core [OF core_mark_dead c1])
  next
    case False
    with "2.prems"(1) st s1 obtain go s2 where s2: "check_sync cfg a once s1 = Inr (go, s2)"
      "(if \<not> go then Inr (-1, s2) else simulate_transitions n cfg a once (st_trans st) 0 s2) = Inr (ret, s')"
      by auto
    have "counts k E s2" by (rule counts_core [OF core_check_sync [OF s2(1)] c1])
    with s2(2) "2.IH" [OF st s1 False s2(1)] show ?thesis by (auto split: if_splits)
  qed
next
  case (3 n cfg a once created s) then show ?case by simp
next
  case (4 n cfg a once tr trs created s)
  show ?case
  proof (cases "required_fields tr = []")
    case False
    with "4.prems"(1) obtain s1 where s1: "new_thread cfg a tr once s = Inr s1"
      "simulate_transitions n cfg a once trs (created + 1) s1 = Inr (ret, s')" by auto
    from "4.IH"(4) [OF False s1(1)] s1(2) counts_new_thread [OF "4.prems"(2) s1(1)] show ?thesis by auto
  next
    case True
    with "4.prems"(1) obtain vmret s1 where
      s1: "(case eval_code tr of None \<Rightarrow> Inr (0, s) | Some code \<Rightarrow> exec_in cfg a code s) = Inr (vmret, s1)"
      by auto
    have c1: "counts k E s1" using s1 "4.prems"(2) by (auto split: option.splits intro: counts_core core_exec)
    show ?thesis
    proof (cases "vmret = 0")
      case False
      with True "4.prems"(1) s1 "4.IH"(3) [OF True s1 refl False] c1 show ?thesis by auto
    next
      case v: True
      with True "4.prems"(1) s1 obtain d b s2 s3 r s4 where
        d: "tr_dest tr = Some d" "create_state_instance cfg d a s1 = Inr (b, s2)" "link_state b a s2 = Inr s3"
        "simulate_state_and_create_threads n cfg b once s3 = Inr (r, s4)"
        and s4: "(if r < 0 then Inr (- created + r, s4) else simulate_transitions n cfg a once trs (created + r) s4) = Inr (ret, s')"
        by (auto split: option.splits)
      have "counts k E s3" using counts_create [OF c1 d(2)] counts_core [OF core_link_state [OF d(3)]] by blast
      with "4.IH"(1) [OF True s1 refl v d(1,2) refl d(3)] d(4) have c4: "counts k E s4" by blast
      show ?thesis
      proof (cases "r < 0")
        case True with s4 c4 show ?thesis by simp
      next
        case nn: False
        with s4 have "simulate_transitions n cfg a once trs (created + r) s4 = Inr (ret, s')" by simp
        with "4.IH"(2) [OF True s1 refl v d(1,2) refl d(3,4) refl nn] c4 show ?thesis by blast
      qed
    qed
  qed
qed

section \<open>Release\<close>

lemma counts_remove_inst:
  assumes c: "counts k E s" and a: "event_of s a = Some None"
    and s': "s' = s\<lparr>insts_st := (insts_st s)(a := None), state_instances := state_instances s - 1\<rparr>"
  shows "counts k E s'"
proof -
  have ev: "event_of s' = (event_of s)(a := None)" "refs_of s' = refs_of s" "first_of s' = first_of s"
    "threads_st s' = threads_st s" "en_fresh s' = en_fresh s" "en_threads s' = en_threads s"
    "state_instances s' = state_instances s - 1" "active_events s' = active_events s"
    "active_event_cur s' = active_event_cur s"
    by (simp_all add: s' event_of_def refs_of_def first_of_def fun_eq_iff)
  have ref: "referrers s' = referrers s" using a by (auto simp: referrers_def ev fun_eq_iff)
  note d = countsD [OF c]
  have "card (dom (event_of s)) = Suc (card (dom (event_of s) - {a}))"
    using d(2) a by (metis card.remove domI)
  then show ?thesis using d by (intro countsI) (auto simp: ev ref split: if_splits)
qed

text \<open>Everything but the references and the number of the active events.\<close>

definition same_rest :: "engine \<Rightarrow> engine \<Rightarrow> bool" where
  "same_rest s s' \<longleftrightarrow> dom (threads_st s') = dom (threads_st s) \<and> event_of s' = event_of s \<and>
     first_of s' = first_of s \<and> en_fresh s' = en_fresh s \<and> en_threads s' = en_threads s \<and>
     state_instances s' = state_instances s \<and> active_event_cur s' = active_event_cur s"

lemma core_rest: "same_core s s' \<Longrightarrow> same_rest s s' \<and> refs_of s' = refs_of s \<and> active_events s' = active_events s"
  by (simp add: same_core_def same_rest_def)

lemma same_rest_trans: "same_rest a b \<Longrightarrow> same_rest b c \<Longrightarrow> same_rest a c"
  by (simp add: same_rest_def)

lemma upd_refs:
  assumes "upd_aevent e (\<lambda>x. x\<lparr>ae_refs := ae_refs x - 1\<rparr>) s = Inr s'"
  shows "\<exists>n. refs_of s e = Some n \<and> same_rest s s' \<and> refs_of s' = (refs_of s)(e \<mapsto> n - 1) \<and>
    active_events s' = active_events s"
  using assms by (auto simp: upd_aevent_def access_defs same_rest_def refs_of_def event_of_def first_of_def fun_eq_iff)

lemma release_result:
  assumes r: "release_event e s = Inr s'"
  shows "\<exists>n. refs_of s e = Some n \<and> same_rest s s' \<and>
    (if n - 1 \<le> 0 \<and> Some e \<noteq> active_event_cur s
     then refs_of s' = (refs_of s)(e := None) \<and> active_events s' = active_events s - 1
     else refs_of s' = (refs_of s)(e \<mapsto> n - 1) \<and> active_events s' = active_events s)"
proof -
  from r obtain s1 x where s1: "upd_aevent e (\<lambda>x. x\<lparr>ae_refs := ae_refs x - 1\<rparr>) s = Inr s1"
    and x: "aevents_st s1 e = Some x"
    by (auto simp: release_event_def access_defs)
  from upd_refs [OF s1] obtain n where n: "refs_of s e = Some n" "same_rest s s1"
    "refs_of s1 = (refs_of s)(e \<mapsto> n - 1)" "active_events s1 = active_events s" by blast
  have nx: "ae_refs x = n - 1" using x fun_cong [OF n(3), of e] by (simp add: refs_of_def)
  have cur: "active_event_cur s1 = active_event_cur s" using n(2) by (simp add: same_rest_def)
  show ?thesis
  proof (cases "n - 1 \<le> 0 \<and> Some e \<noteq> active_event_cur s")
    case False
    with r s1 x nx cur have "s' = s1" by (auto simp: release_event_def access_defs)
    with n False show ?thesis by auto
  next
    case True
    with r s1 x nx cur obtain s2 s3 s4 where s2: "free_event (ae_event x) s1 = Inr s2"
      "upd_aevent e (\<lambda>x. x\<lparr>ae_event := []\<rparr>) (s2\<lparr>active_events := active_events s2 - 1\<rparr>) = Inr s3"
      "unlink_active_event e s3 = Inr s4" "s' = s4\<lparr>aevents_st := (aevents_st s4)(e := None)\<rparr>"
      by (auto simp: release_event_def access_defs)
    let ?s2 = "s2\<lparr>active_events := active_events s2 - 1\<rparr>"
    have c: "same_core s1 s2" "same_core ?s2 s3" "same_core s3 s4"
      using core_free_event [OF s2(1)] core_upd_aevent [OF _ s2(2)] core_unlink_active [OF s2(3)] by simp_all
    have r2: "same_rest s2 ?s2" "refs_of ?s2 = refs_of s2"
      by (simp_all add: same_rest_def event_of_def first_of_def refs_of_def)
    have r4: "same_rest s4 s'" "refs_of s' = (refs_of s4)(e := None)" "active_events s' = active_events s4"
      by (simp_all add: s2(4) same_rest_def event_of_def first_of_def refs_of_def fun_eq_iff)
    note rests = core_rest [OF c(1)] core_rest [OF c(2)] core_rest [OF c(3)]
    have "same_rest s s'" using n(2) rests r2(1) r4(1) by (blast intro: same_rest_trans)
    moreover have "refs_of s' = (refs_of s)(e := None)" using rests r2(2) r4(2) n(3) by simp
    moreover have "active_events s' = active_events s - 1" using rests r4(3) n(4) by simp
    ultimately show ?thesis using n(1) True by simp
  qed
qed

lemma counts_drop_ref:
  assumes c: "counts k (Some E) s" and a: "event_of s a = Some (Some e)" and r: "release_event e s = Inr s1"
    and s': "s' = s1\<lparr>insts_st := (insts_st s1)(a := None), state_instances := state_instances s1 - 1\<rparr>"
  shows "counts k (Some E) s'"
proof -
  from release_result [OF r] obtain n where n: "refs_of s e = Some n" "same_rest s s1"
    and res: "if n - 1 \<le> 0 \<and> Some e \<noteq> active_event_cur s
     then refs_of s1 = (refs_of s)(e := None) \<and> active_events s1 = active_events s - 1
     else refs_of s1 = (refs_of s)(e \<mapsto> n - 1) \<and> active_events s1 = active_events s" by blast
  note d = countsD [OF c]
  have ev: "event_of s' = (event_of s)(a := None)" "refs_of s' = refs_of s1" "first_of s' = first_of s"
    "dom (threads_st s') = dom (threads_st s)" "en_fresh s' = en_fresh s" "en_threads s' = en_threads s"
    "state_instances s' = state_instances s - 1" "active_events s' = active_events s1"
    "active_event_cur s' = Some E"
    using n(2) d(15) by (simp_all add: s' same_rest_def event_of_def refs_of_def first_of_def fun_eq_iff)
  have cur: "active_event_cur s = Some E" "E \<in> dom (refs_of s)" using d(15,16) by simp_all
  have ref: "referrers s' e' = (if e' = e then referrers s e - {a} else referrers s e')" for e'
    using a by (auto simp: referrers_def ev)
  have ain: "a \<in> referrers s e" using a by (simp add: referrers_def)
  have card: "card (referrers s e) = Suc (card (referrers s' e))"
    using card.remove [OF finite_referrers [OF c] ain] by (simp add: ref)
  have nn: "n = int (card (referrers s e))" by (rule d(10) [OF n(1)])
  have ci: "card (dom (event_of s)) = Suc (card (dom (event_of s) - {a}))"
    using d(2) a by (metis card.remove domI)
  have th: "threads_st s' b = None" if "en_fresh s \<le> b" for b
  proof -
    from d(4) [OF that] have "b \<notin> dom (threads_st s)" by (simp add: domIff)
    then have "b \<notin> dom (threads_st s')" unfolding ev(4) .
    then show ?thesis by (simp add: domIff)
  qed
  show ?thesis
  proof (cases "n - 1 \<le> 0 \<and> Some e \<noteq> active_event_cur s")
    case True
    with res have r1: "refs_of s1 = (refs_of s)(e := None)" "active_events s1 = active_events s - 1" by auto
    have empty: "referrers s' e = {}" using True nn card finite_referrers [OF c, of e] by (simp add: ref)
    have eE: "e \<noteq> E" using True cur by simp
    have "e \<in> dom (refs_of s) - {E}" using n(1) eE by auto
    then have ca: "card (dom (refs_of s) - {E}) = Suc (card (dom (refs_of s) - {E} - {e}))"
      using d(3) by (intro card.remove) simp_all
    have dm: "dom (refs_of s') = dom (refs_of s) - {e}" by (simp add: ev r1)
    have act: "active_events s' = int (card (dom (refs_of s') - set_option (Some E)))"
      using d(9) ca ev(8) r1(2) by (simp add: dm Diff_insert2 [symmetric] insert_commute)
    show ?thesis
    proof (rule countsI)
      fix b e' assume b': "event_of s' b = Some (Some e')"
      then have b: "b \<noteq> a" "event_of s b = Some (Some e')" by (auto simp: ev split: if_splits)
      from b' have "b \<in> referrers s' e'" by (simp add: referrers_def)
      with empty have "e' \<noteq> e" by auto
      then show "e' \<in> dom (refs_of s')" using d(12) [OF b(2)] by (simp add: ev r1)
    next
      fix e' m assume "refs_of s' e' = Some m"
      then have m: "e' \<noteq> e" "refs_of s e' = Some m" by (auto simp: ev r1 split: if_splits)
      show "m = int (card (referrers s' e'))" using d(10) [OF m(2)] m(1) by (simp add: ref)
      show "0 < m" if "Some e' \<noteq> Some E" by (rule d(11) [OF m(2) that])
    next
      show "active_events s' = int (card (dom (refs_of s') - set_option (Some E)))" by (rule act)
    next
      show "finite (dom (refs_of s'))" unfolding dm using d(3) by simp
    next
      fix e' assume "Some E = Some e'"
      then show "e' \<in> dom (refs_of s')" unfolding dm using cur eE by simp
    next
      fix b assume "en_fresh s' \<le> b"
      then show "refs_of s' b = None" using d(6) [of b] ev(5) by (simp add: ev(2) r1(1))
    qed (use d ci cur th in \<open>auto simp: ev(1,3-7,9) split: if_splits\<close>)
  next
    case False
    with res have r1: "refs_of s1 = (refs_of s)(e \<mapsto> n - 1)" "active_events s1 = active_events s" by auto
    have dm: "dom (refs_of s') = dom (refs_of s)" using n(1) by (auto simp: ev r1)
    show ?thesis
    proof (rule countsI)
      fix e' m assume "refs_of s' e' = Some m"
      then have m: "if e' = e then m = n - 1 else refs_of s e' = Some m" by (auto simp: ev r1 split: if_splits)
      show "m = int (card (referrers s' e'))"
        using m nn card d(10) [of e' m] by (cases "e' = e") (simp_all add: ref)
      show "0 < m" if "Some e' \<noteq> Some E"
        using m False cur that d(11) [of e' m] by (cases "e' = e") auto
    next
      fix b e' assume "event_of s' b = Some (Some e')"
      then have "event_of s b = Some (Some e')" by (auto simp: ev split: if_splits)
      then show "e' \<in> dom (refs_of s')" using d(12) dm by blast
    next
      show "active_events s' = int (card (dom (refs_of s') - set_option (Some E)))"
        unfolding dm using d(9) ev(8) r1(2) by simp
    next
      show "finite (dom (refs_of s'))" unfolding dm by (rule d(3))
    next
      fix e' assume "Some E = Some e'"
      then show "e' \<in> dom (refs_of s')" unfolding dm using cur by simp
    next
      fix b assume "en_fresh s' \<le> b"
      then show "refs_of s' b = None" using d(6) [of b] n(1) ev(5) by (auto simp: ev(2) r1(1))
    qed (use d ci cur th in \<open>auto simp: ev(1,3-7,9) split: if_splits\<close>)
  qed
qed

lemma counts_free_list:
  "free_state_list n p s = Inr s' \<Longrightarrow> counts k (Some E) s \<Longrightarrow> counts k (Some E) s'"
proof (induction n p s rule: free_state_list.induct)
  case (3 n a s)
  from "3.prems"(1) obtain i s1 s2 where i: "inst_at a s = Inr i"
    and s1: "(case si_current i of None \<Rightarrow> Inr s | Some env \<Rightarrow> free_env env s) = Inr s1"
    and s2: "when_some (si_event i) release_event s1 = Inr s2"
    and r: "free_state_list n (si_retrig_next i)
       (s2\<lparr>insts_st := (insts_st s2)(a := None), state_instances := state_instances s2 - 1\<rparr>) = Inr s'"
    by auto
  have core: "same_core s s1" using s1 by (auto split: option.splits dest!: core_free_env)
  have c1: "counts k (Some E) s1" by (rule counts_core [OF core "3.prems"(2)])
  have "event_of s a = Some (si_event i)" using i by (auto simp: access_defs event_of_def)
  with core have ev: "event_of s1 a = Some (si_event i)" by (simp add: same_core_def)
  have "counts k (Some E) (s2\<lparr>insts_st := (insts_st s2)(a := None), state_instances := state_instances s2 - 1\<rparr>)"
  proof (cases "si_event i")
    case None
    with s2 have "s2 = s1" by (simp add: when_some_def)
    with counts_remove_inst [OF c1 _ refl, of a] ev None show ?thesis by simp
  next
    case (Some e)
    with s2 have "release_event e s1 = Inr s2" by (simp add: when_some_def)
    from counts_drop_ref [OF c1 _ this refl] ev Some show ?thesis by simp
  qed
  from "3.IH" [OF i s1 s2 r this] show ?case .
qed simp_all

lemma counts_free_instance:
  assumes c: "counts k E s" and a: "\<And>e. event_of s a \<noteq> Some (Some e)" and f: "free_instance a s = Inr s'"
  shows "counts k E s'"
proof -
  from f obtain i s1 where i: "inst_at a s = Inr i"
    and s1: "(case si_current i of None \<Rightarrow> Inr s | Some env \<Rightarrow> free_env env s) = Inr s1"
    and s': "s' = s1\<lparr>insts_st := (insts_st s1)(a := None), state_instances := state_instances s1 - 1\<rparr>"
    by (auto simp: free_instance_def)
  have core: "same_core s s1" using s1 by (auto split: option.splits dest!: core_free_env)
  from i have "event_of s a = Some (si_event i)" by (auto simp: access_defs event_of_def)
  with a have "event_of s a = Some None" by (cases "si_event i") auto
  with core have "event_of s1 a = Some None" by (simp add: same_core_def)
  from counts_remove_inst [OF counts_core [OF core c] this s'] show ?thesis .
qed

lemma counts_drop_rinst:
  assumes c: "counts k E s"
  shows "counts k E (s\<lparr>rinsts_st := (rinsts_st s)(r := None)\<rparr>)"
proof -
  let ?s = "s\<lparr>rinsts_st := (rinsts_st s)(r := None)\<rparr>"
  have "event_of ?s = event_of s" "refs_of ?s = refs_of s" "referrers ?s = referrers s"
    "first_of ?s = (first_of s)(r := None)"
    by (simp_all add: event_of_def refs_of_def first_of_def referrers_def fun_eq_iff)
  then show ?thesis using countsD [OF c] by (intro countsI) (auto split: if_splits)
qed

lemma counts_free_rule:
  assumes c: "counts k (Some E) s" and f: "free_rule_instance cfg r s = Inr s'"
  shows "counts k (Some E) s'"
proof -
  from f obtain ri s1 s2 s3 where ri: "rinsts_st s r = Some ri"
    and s1: "delete_locks cfg (ri_rule ri) (ri_locks ri) s = Inr s1"
    and s2: "free_instance (ri_first_state ri) s1 = Inr s2"
    and s3: "free_state_list (en_fresh s2) (ri_state_list ri) s2 = Inr s3"
    and s': "s' = (if ri_created ri \<noteq> 0 then s3\<lparr>rule_uses := (rule_uses s3)(ri_rule ri := rule_uses s3 (ri_rule ri) - 1),
                rule_instances := rule_instances s3 - 1\<rparr> else s3)\<lparr>rinsts_st :=
        (rinsts_st (if ri_created ri \<noteq> 0 then s3\<lparr>rule_uses := (rule_uses s3)(ri_rule ri := rule_uses s3 (ri_rule ri) - 1),
                rule_instances := rule_instances s3 - 1\<rparr> else s3))(r := None)\<rparr>"
    by (auto simp: free_rule_instance_def access_defs Let_def)
  have core: "same_core s s1" by (rule core_delete_locks [OF s1])
  have c1: "counts k (Some E) s1" by (rule counts_core [OF core c])
  have "first_of s1 r = Some (ri_first_state ri)" using core ri by (simp add: same_core_def first_of_def)
  from countsD(14) [OF c1 this] have "counts k (Some E) s2" by (intro counts_free_instance [OF c1 _ s2]) auto
  from counts_free_list [OF s3 this] have c3: "counts k (Some E) s3" .
  show ?thesis unfolding s' by (rule counts_drop_rinst, rule counts_core [OF _ c3]) simp
qed

lemma counts_reap_from:
  "reap_from n cfg prev p rule s = Inr s' \<Longrightarrow> counts k (Some E) s \<Longrightarrow> counts k (Some E) s'"
proof (induction n cfg prev p rule s rule: reap_from.induct)
  case (3 n cfg prev r rule s)
  from "3.prems"(1) obtain x where x: "rinst_at r s = Inr x" by auto
  show ?case
  proof (cases "r = rule")
    case True
    with "3.prems"(1) x obtain s1 where s1: "(case prev of Some p \<Rightarrow> upd_rinst p (\<lambda>y. y\<lparr>ri_next := ri_next x\<rparr>) s
            | None \<Rightarrow> Inr (s\<lparr>first_rule_instance := ri_next x\<rparr>)) = Inr s1" "free_rule_instance cfg r s1 = Inr s'"
      by auto
    have "same_core s s1" using s1(1) by (auto split: option.splits dest!: core_upd_rinst [rotated])
    from counts_free_rule [OF counts_core [OF this "3.prems"(2)] s1(2)] show ?thesis .
  next
    case False
    with "3.IH" [OF x False] "3.prems" x show ?thesis by simp
  qed
qed simp_all

section \<open>The steps of the loop\<close>

lemma counts_leave: "counts k E s \<Longrightarrow> counts (k + 1) E (s\<lparr>en_threads := en_threads s - 1\<rparr>)"
proof -
  assume c: "counts k E s"
  let ?s = "s\<lparr>en_threads := en_threads s - 1\<rparr>"
  have "event_of ?s = event_of s" "refs_of ?s = refs_of s" "referrers ?s = referrers s" "first_of ?s = first_of s"
    by (simp_all add: event_of_def refs_of_def first_of_def referrers_def fun_eq_iff)
  then show ?thesis using countsD [OF c] by (intro countsI) simp_all
qed

lemma counts_del_thread:
  assumes c: "counts (k + 1) E s" and t: "t \<in> dom (threads_st s)"
  shows "counts k E (s\<lparr>current_tail := p, threads_st := (threads_st s)(t := None)\<rparr>)"
proof -
  let ?s = "s\<lparr>current_tail := p, threads_st := (threads_st s)(t := None)\<rparr>"
  have "event_of ?s = event_of s" "refs_of ?s = refs_of s" "referrers ?s = referrers s" "first_of ?s = first_of s"
    by (simp_all add: event_of_def refs_of_def first_of_def referrers_def fun_eq_iff)
  moreover have "card (dom (threads_st s)) = Suc (card (dom (threads_st s) - {t}))"
    using countsD(1) [OF c] t by (rule card.remove)
  ultimately show ?thesis using countsD [OF c] by (intro countsI) (auto split: if_splits)
qed

text \<open>Releasing a rule instance leaves the threads where they are.\<close>

definition same_threads :: "engine \<Rightarrow> engine \<Rightarrow> bool" where
  "same_threads s s' \<longleftrightarrow> dom (threads_st s') = dom (threads_st s)"

lemma same_threads_fields [simp]:
  "same_threads s (x\<lparr>insts_st := i\<rparr>) = same_threads s x" "same_threads (x\<lparr>insts_st := i\<rparr>) s = same_threads x s"
  "same_threads s (x\<lparr>rinsts_st := j\<rparr>) = same_threads s x"
  "same_threads s (x\<lparr>state_instances := m\<rparr>) = same_threads s x"
  "same_threads (x\<lparr>state_instances := m\<rparr>) s = same_threads x s"
  "same_threads s (x\<lparr>rule_uses := u\<rparr>) = same_threads s x"
  "same_threads s (x\<lparr>rule_instances := n\<rparr>) = same_threads s x"
  "same_threads (x\<lparr>first_rule_instance := p\<rparr>) s = same_threads x s"
  by (simp_all add: same_threads_def)

lemma same_threads_refl [simp]: "same_threads s s"
  by (simp add: same_threads_def)

lemma same_threads_trans: "same_threads a b \<Longrightarrow> same_threads b c \<Longrightarrow> same_threads a c"
  by (simp add: same_threads_def)

lemma core_threads: "same_core s s' \<Longrightarrow> same_threads s s'"
  by (simp add: same_core_def same_threads_def)

lemma rest_threads: "same_rest s s' \<Longrightarrow> same_threads s s'"
  by (simp add: same_rest_def same_threads_def)

lemma threads_free_instance: "free_instance a s = Inr s' \<Longrightarrow> same_threads s s'"
  by (auto simp: free_instance_def split: option.splits dest!: core_free_env core_threads)

lemma threads_free_list: "free_state_list n p s = Inr s' \<Longrightarrow> same_threads s s'"
proof (induction n p s rule: free_state_list.induct)
  case (3 n a s)
  from "3.prems"(1) obtain i s1 s2 where i: "inst_at a s = Inr i"
    and s1: "(case si_current i of None \<Rightarrow> Inr s | Some env \<Rightarrow> free_env env s) = Inr s1"
    and s2: "when_some (si_event i) release_event s1 = Inr s2"
    and r: "free_state_list n (si_retrig_next i)
       (s2\<lparr>insts_st := (insts_st s2)(a := None), state_instances := state_instances s2 - 1\<rparr>) = Inr s'"
    by auto
  have "same_threads s s1" using s1 by (auto split: option.splits dest!: core_free_env core_threads)
  moreover have "same_threads s1 s2" using s2
    by (auto simp: when_some_def split: option.splits dest!: release_result rest_threads)
  ultimately show ?case using "3.IH" [OF i s1 s2 r] by (auto intro: same_threads_trans)
qed simp_all

lemma threads_free_rule: "free_rule_instance cfg r s = Inr s' \<Longrightarrow> same_threads s s'"
  by (auto simp: free_rule_instance_def Let_def split: if_splits
      dest!: core_delete_locks core_threads threads_free_instance threads_free_list
      intro: same_threads_trans)

lemma threads_reap_from: "reap_from n cfg prev p rule s = Inr s' \<Longrightarrow> same_threads s s'"
proof (induction n cfg prev p rule s rule: reap_from.induct)
  case (3 n cfg prev r rule s)
  then show ?case
    by (auto split: if_splits option.splits dest!: threads_free_rule core_upd_rinst [rotated] core_threads
        intro: same_threads_trans)
qed simp_all

lemma counts_leave_rule:
  assumes c: "counts 0 (Some E) s" and r: "leave_rule_instance cfg t s = Inr s'"
  shows "counts (0 + 1) (Some E) s' \<and> t \<in> dom (threads_st s')"
proof -
  from r obtain x i where x: "threads_st s t = Some x" and i: "inst_at (t_inst x) s = Inr i"
    by (auto simp: leave_rule_instance_def thread_at_def)
  from r x i obtain s1 where s1: "upd_rinst (si_rule i) (\<lambda>r. r\<lparr>ri_threads := ri_threads r - 1\<rparr>) s = Inr s1"
    by (auto simp: leave_rule_instance_def thread_at_def)
  from r x i s1 obtain ri where ri: "rinst_at (si_rule i) s1 = Inr ri"
    by (auto simp: leave_rule_instance_def thread_at_def)
  have th: "thread_at t s = Inr x" using x by (simp add: thread_at_def)
  have s': "(if ri_threads ri = 0 then
       bnd (upd_rinst (si_rule i) (\<lambda>r. r\<lparr>ri_killed := True\<rparr>) (s1\<lparr>en_threads := en_threads s1 - 1\<rparr>))
         (reap_dead_rule cfg (si_rule i))
     else unlink_thread_in_state_instance_list t (s1\<lparr>en_threads := en_threads s1 - 1\<rparr>)) = Inr s'"
    using r by (simp only: leave_rule_instance_def th i s1 ri bnd_Inr)
  let ?s1 = "s1\<lparr>en_threads := en_threads s1 - 1\<rparr>"
  have core1: "same_core s s1" by (rule core_upd_rinst [OF _ s1]) simp
  have c1: "counts (0 + 1) (Some E) ?s1" by (rule counts_leave [OF counts_core [OF core1 c]])
  have t1: "t \<in> dom (threads_st ?s1)" using x core_threads [OF core1] by (auto simp: same_threads_def)
  have "counts (0 + 1) (Some E) s' \<and> same_threads ?s1 s'"
  proof (cases "ri_threads ri = 0")
    case True
    with s' obtain s2 where s2: "upd_rinst (si_rule i) (\<lambda>r. r\<lparr>ri_killed := True\<rparr>) ?s1 = Inr s2"
      "reap_from (en_fresh s2) cfg None (first_rule_instance s2) (si_rule i) s2 = Inr s'"
      by (auto simp: reap_dead_rule_def)
    have core2: "same_core ?s1 s2" by (rule core_upd_rinst [OF _ s2(1)]) simp
    from counts_reap_from [OF s2(2) counts_core [OF core2 c1]] threads_reap_from [OF s2(2)]
      core_threads [OF core2] show ?thesis by (blast intro: same_threads_trans)
  next
    case False
    with s' have "unlink_thread_in_state_instance_list t ?s1 = Inr s'" by simp
    from core_unlink_thread [OF this] show ?thesis using counts_core [OF _ c1] core_threads by blast
  qed
  with t1 show ?thesis by (auto simp: same_threads_def)
qed

lemma counts_reap_thread:
  assumes c: "counts 0 (Some E) s" and r: "reap_thread cfg t next s = Inr s'"
  shows "counts 0 (Some E) s'"
proof -
  from r obtain s2 where s2: "leave_rule_instance cfg t s = Inr s2" by (auto simp: reap_thread_def)
  let ?s2 = "if Some t = cur_retrig_qh s2 then s2\<lparr>cur_retrig_qh := next\<rparr> else s2"
  from r s2 obtain s3 where s3: "when_some (cur_retrig_qt ?s2) (\<lambda>q. upd_thread q (\<lambda>y. y\<lparr>t_next := None\<rparr>)) ?s2 = Inr s3"
    "s' = s3\<lparr>current_tail := None, threads_st := (threads_st s3)(t := None)\<rparr>"
    by (auto simp: reap_thread_def Let_def)
  have core3: "same_core s2 s3" using core_when_thread [OF s3(1)] by (auto split: if_splits)
  note c2 = counts_leave_rule [OF c s2]
  have "t \<in> dom (threads_st s3)" using c2 core_threads [OF core3] by (simp add: same_threads_def)
  then show ?thesis unfolding s3(2)
    by (intro counts_del_thread counts_core [OF core3]) (use c2 in simp_all)
qed

lemma counts_pass_thread:
  assumes c: "counts k (Some ev) s" and p: "pass_thread cfg ev t s = Inr s'"
  shows "counts k (Some ev) s'"
proof -
  from p obtain s1 x i where s1: "upd_thread t (\<lambda>x. x\<lparr>t_pass := t_pass x + 1\<rparr>) s = Inr s1"
    and x: "thread_at t s1 = Inr x" and i: "inst_at (t_inst x) s1 = Inr i" by (auto simp: pass_thread_def)
  note p1 = p [unfolded pass_thread_def s1 bnd_Inr x i]
  from p1 obtain s2 where s2: "(if \<not> t_onlyonce x then Inr s1 else
          bnd (upd_rinst (si_rule i) (\<lambda>r. r\<lparr>ri_created := cfg_time cfg, ri_inuse := True\<rparr>) s1) (\<lambda>s.
          bnd (rinst_at (si_rule i) s) (\<lambda>r.
          Inr (s\<lparr>rule_uses := (rule_uses s)(ri_rule r := rule_uses s (ri_rule r) + 1),
            rule_instances := rule_instances s + 1\<rparr>)))) = Inr s2" by (auto simp: bnd_eq_Inr)
  note p2 = p1 [unfolded s2 bnd_Inr]
  from p2 obtain d b s3 where d: "tr_dest (t_trans x) = Some d"
    and s3: "create_state_instance cfg d (t_inst x) s2 = Inr (b, s3)" by (auto split: option.splits)
  note p3 = p2 [unfolded d option.case s3 bnd_Inr prod.case]
  from p3 obtain s4 s5 s6 where s4: "upd_inst b (\<lambda>y. y\<lparr>si_event := Some ev\<rparr>) s3 = Inr s4"
    "upd_aevent ev (\<lambda>y. y\<lparr>ae_refs := ae_refs y + 1\<rparr>) s4 = Inr s5" "link_state b (t_inst x) s5 = Inr s6" by auto
  note p4 = p3 [unfolded s4 bnd_Inr]
  from p4 obtain n s7 where s7: "simulate_state_and_create_threads (cfg_fuel cfg) cfg b False s6 = Inr (n, s7)" by auto
  note p5 = p4 [unfolded s7 bnd_Inr prod.case]
  from p5 obtain cut where cut: "(if cut then upd_thread t (\<lambda>x. x\<lparr>t_killed := True\<rparr>) s7 else Inr s7) = Inr s'" by auto
  have "same_core s s1" by (rule core_upd_thread [OF s1])
  moreover have "same_core s1 s2" using s2 by (auto split: if_splits dest!: core_upd_rinst [rotated])
  ultimately have c2: "counts k (Some ev) s2" using c by (blast intro: counts_core)
  note c3 = counts_create [OF c2 s3]
  have c5: "counts k (Some ev) s5"
    using c3 by (intro counts_reference [OF _ _ _ s4(1,2)]) auto
  have c6: "counts k (Some ev) s6" by (rule counts_core [OF core_link_state [OF s4(3)] c5])
  have "counts k (Some ev) s7" by (rule counts_simulate(1) [OF s7 c6])
  moreover have "same_core s7 s'" using cut by (auto split: if_splits dest!: core_upd_thread)
  ultimately show ?thesis by (blast intro: counts_core)
qed

lemma counts_evt_step:
  assumes c: "counts 0 (Some ev) s" and e: "evt_step cfg ev t next s = Inr s'"
  shows "counts 0 (Some ev) s'"
proof -
  let ?s = "s\<lparr>current_tail := Some t\<rparr>"
  have c0: "counts 0 (Some ev) ?s" by (rule counts_core [OF _ c]) simp
  from e obtain x where x: "thread_at t ?s = Inr x" by (auto simp: evt_step_def Let_def)
  note e1 = e [unfolded evt_step_def Let_def x bnd_Inr]
  show ?thesis
  proof (cases "\<not> t_onlyonce x \<and> t_timeout x \<le>s cfg_time cfg \<or> t_killed x")
    case True
    from e1 [unfolded if_P [OF True]] obtain s1 where s1: "upd_thread t (\<lambda>x. x\<lparr>t_killed := True\<rparr>) ?s = Inr s1"
      "reap_thread cfg t next s1 = Inr s'" by auto
    from counts_reap_thread [OF counts_core [OF core_upd_thread [OF s1(1)] c0] s1(2)] show ?thesis .
  next
    case False
    note e2 = e1 [unfolded if_not_P [OF False]]
    from e2 obtain code r s1 where code: "eval_code (t_trans x) = Some code"
      and s1: "exec_in cfg (t_inst x) code ?s = Inr (r, s1)" by (auto split: option.splits)
    note e3 = e2 [unfolded code option.case s1 bnd_Inr prod.case]
    have c1: "counts 0 (Some ev) s1" by (rule counts_core [OF core_exec [OF s1] c0])
    from e3 obtain s2 where s2: "(if r = 0 then pass_thread cfg ev t s1 else Inr s1) = Inr s2" by auto
    note e4 = e3 [unfolded s2 bnd_Inr]
    have c2: "counts 0 (Some ev) s2" using s2 c1 by (auto split: if_splits dest: counts_pass_thread)
    from e4 obtain y where y: "thread_at t s2 = Inr y" by auto
    note e5 = e4 [unfolded y bnd_Inr]
    show ?thesis
    proof (cases "t_onlyonce y")
      case True
      from e5 [unfolded if_P [OF True]] obtain s3 s4 where
        s3: "upd_thread t (\<lambda>x. x\<lparr>t_killed := True\<rparr>) s2 = Inr s3"
        "(if t_bump y then commit_queues s3 else Inr s3) = Inr s4" "reap_thread cfg t next s4 = Inr s'" by auto
      have "same_core s3 s4" using s3(2) by (auto split: if_splits dest: core_commit)
      with core_upd_thread [OF s3(1)] c2 have "counts 0 (Some ev) s4" by (blast intro: counts_core)
      from counts_reap_thread [OF this s3(3)] show ?thesis .
    next
      case False
      from e5 [unfolded if_not_P [OF False]] obtain s3 where
        s3: "retrig_thread t s2 = Inr s3" "(if t_bump y then commit_queues s3 else Inr s3) = Inr s'" by auto
      have "same_core s3 s'" using s3(2) by (auto split: if_splits dest: core_commit)
      with core_retrig [OF s3(1)] c2 show ?thesis by (blast intro: counts_core)
    qed
  qed
qed

lemma counts_evt_loop: "evt_loop n cfg ev p s = Inr s' \<Longrightarrow> counts 0 (Some ev) s \<Longrightarrow> counts 0 (Some ev) s'"
proof (induction n cfg ev p s rule: evt_loop.induct)
  case (3 n cfg ev t s)
  from "3.prems"(1) obtain x s1 where x: "thread_at t s = Inr x" "evt_step cfg ev t (t_next x) s = Inr s1"
    "evt_loop n cfg ev (t_next x) s1 = Inr s'" by auto
  from "3.IH" [OF x] counts_evt_step [OF "3.prems"(2) x(2)] show ?case by blast
qed simp_all

lemma counts_initial_of:
  assumes c: "counts k (Some E) s" and i: "initial_threads_of cfg n r s = Inr s'"
  shows "counts k (Some E) s'"
proof -
  obtain a s1 where a: "create_init_state_instance r (Suc (en_fresh s)) s = (a, s1)" by fastforce
  define x where "x = the (insts_st s1 a)"
  have x: "a = en_fresh s" "si_event x = None"
    "s1 = s\<lparr>en_fresh := Suc a, state_instances := state_instances s + 1, insts_st := (insts_st s)(a \<mapsto> x)\<rparr>"
    using a by (auto simp: create_init_state_instance_def Let_def x_def)
  let ?ri = "\<lparr>ri_rule = n, ri_first_state = a, ri_next = None, ri_state_list = None, ri_threads = 0,
             ri_killed = False, ri_inuse = False, ri_created = 0, ri_locks = []\<rparr>"
  let ?s2 = "s1\<lparr>en_fresh := Suc (Suc (en_fresh s)), rinsts_st := (rinsts_st s1)(Suc (en_fresh s) \<mapsto> ?ri)\<rparr>"
  have "counts k (Some E) s1" unfolding x(3) by (rule counts_add_inst [OF c x(1,2)])
  then have c2: "counts k (Some E) ?s2"
    by (rule counts_add_rinst) (simp_all add: x event_of_def)
  from i a obtain ret s3 where s3: "simulate_state_and_create_threads (cfg_fuel cfg) cfg a True ?s2 = Inr (ret, s3)"
    and rest: "(if ret \<le> 0 then free_rule_instance cfg (Suc (en_fresh s)) s3
         else bnd (upd_rinst (Suc (en_fresh s)) (\<lambda>x. x\<lparr>ri_threads := ret, ri_next := first_rule_instance s3\<rparr>) s3) (\<lambda>s'.
              bump_new_tail (s'\<lparr>first_rule_instance := Some (Suc (en_fresh s))\<rparr>))) = Inr s'"
    by (auto simp: initial_threads_of_def Let_def)
  have c3: "counts k (Some E) s3" by (rule counts_simulate(1) [OF s3 c2])
  show ?thesis
  proof (cases "ret \<le> 0")
    case True with rest counts_free_rule [OF c3] show ?thesis by simp
  next
    case False
    with rest obtain s4 where s4: "upd_rinst (Suc (en_fresh s)) (\<lambda>x. x\<lparr>ri_threads := ret, ri_next := first_rule_instance s3\<rparr>) s3 = Inr s4"
      "bump_new_tail (s4\<lparr>first_rule_instance := Some (Suc (en_fresh s))\<rparr>) = Inr s'" by auto
    have "same_core s3 s4" by (rule core_upd_rinst [OF _ s4(1)]) simp
    moreover have "same_core s4 s'" using core_bump [OF s4(2)] by simp
    ultimately show ?thesis using c3 by (blast intro: counts_core)
  qed
qed

lemma counts_initial: "initial_threads cfg n rs s = Inr s' \<Longrightarrow> counts k (Some E) s \<Longrightarrow> counts k (Some E) s'"
proof (induction rs arbitrary: n s)
  case (Cons r rs)
  from Cons.prems(1) obtain s1 where "initial_threads_of cfg n r s = Inr s1" "initial_threads cfg (n + 1) rs s1 = Inr s'"
    by auto
  with Cons.IH counts_initial_of [OF Cons.prems(2)] show ?case by blast
qed simp

section \<open>A whole event\<close>

text \<open>Hooks may change the variables, but not the blocks of the engine.\<close>

definition hook_ok :: "(event \<Rightarrow> engine \<Rightarrow> fault + engine) \<Rightarrow> bool" where
  "hook_ok h \<longleftrightarrow> (\<forall>ev s s'. h ev s = Inr s' \<longrightarrow> same_core s s')"

lemma counts_new_event:
  assumes c: "counts 0 None s" and e: "e = en_fresh s"
    and eq: "event_of z = event_of s" "refs_of z = (refs_of s)(e \<mapsto> 0)" "first_of z = first_of s"
      "dom (threads_st z) = dom (threads_st s)" "en_fresh z = Suc e" "en_threads z = en_threads s"
      "state_instances z = state_instances s" "active_events z = active_events s" "active_event_cur z = Some e"
  shows "counts 0 (Some e) z"
proof -
  note d = countsD [OF c]
  have ref: "referrers z = referrers s" by (simp add: referrers_def fun_eq_iff eq)
  have e_new: "e \<notin> dom (refs_of s)" using d(6) [of e] e by auto
  have none: "referrers s e = {}" using d(12) e_new by (auto simp: referrers_def)
  have act: "dom (refs_of z) - {e} = dom (refs_of s)" using e_new by (auto simp: eq(2))
  have fr: "a < Suc e" if "first_of s r = Some a" for r a using d(13) [OF that] e by simp
  have th: "threads_st z a = None" if "Suc e \<le> a" for a
    using d(4) [of a] that e eq(4) by (metis domIff Suc_leD)
  have fin: "finite (dom (refs_of z))" using d(3) by (simp add: eq(2))
  have no_refs: "refs_of z a = None" if "Suc e \<le> a" for a using d(6) [of a] that e by (simp add: eq(2))
  show ?thesis
  proof (rule countsI)
    fix e' n assume r: "refs_of z e' = Some n"
    show "n = int (card (referrers z e'))"
      using r none d(10) [of e' n] by (cases "e' = e") (simp_all add: eq(2) ref)
    show "0 < n" if "Some e' \<noteq> Some e" using r that d(11) [of e' n] by (simp add: eq(2))
  next
    fix a e' assume "event_of z a = Some (Some e')"
    with d(12) [of a e'] show "e' \<in> dom (refs_of z)" by (simp add: eq(1,2))
  next
    show "active_events z = int (card (dom (refs_of z) - set_option (Some e)))"
      using d(9) by (simp add: eq(8) act)
  qed (use d(1,2,5,7,8,14) fin th no_refs fr e in \<open>simp_all add: eq(1,3-9)\<close>, simp add: eq(2))
qed

lemma counts_finish:
  assumes c: "counts 0 (Some e) s" and f: "finish_event e s = Inr s'"
  shows "counts 0 None s'"
proof -
  note d = countsD [OF c]
  from f obtain x where x: "aevents_st s e = Some x" by (auto simp: finish_event_def access_defs)
  have n: "refs_of s e = Some (ae_refs x)" using x by (simp add: refs_of_def)
  show ?thesis
  proof (cases "ae_refs x = 0")
    case True
    with f x obtain s1 where s1: "free_event (ae_event x) s = Inr s1" "s' = s1\<lparr>aevents_st := (aevents_st s1)(e := None)\<rparr>"
      by (auto simp: finish_event_def access_defs)
    note c1 = counts_core [OF core_free_event [OF s1(1)] c]
    note d1 = countsD [OF c1]
    have n1: "refs_of s1 e = Some 0" using core_free_event [OF s1(1)] n True by (simp add: same_core_def)
    have eq: "event_of s' = event_of s1" "refs_of s' = (refs_of s1)(e := None)" "referrers s' = referrers s1"
      "first_of s' = first_of s1" "threads_st s' = threads_st s1" "en_fresh s' = en_fresh s1"
      "en_threads s' = en_threads s1" "state_instances s' = state_instances s1" "active_events s' = active_events s1"
      by (simp_all add: s1(2) event_of_def refs_of_def first_of_def referrers_def fun_eq_iff)
    have none: "referrers s1 e = {}" using d1(10) [OF n1] finite_referrers [OF c1, of e] by simp
    show ?thesis
    proof (rule countsI)
      fix a e' assume a: "event_of s' a = Some (Some e')"
      then have "e' \<noteq> e" using none by (auto simp: eq referrers_def)
      with a d1(12) [of a e'] show "e' \<in> dom (refs_of s')" by (simp add: eq)
    qed (use d1 in \<open>auto simp: eq split: if_splits\<close>)
  next
    case False
    from f x obtain s1 where s1: "s' = s1\<lparr>active_events := active_events s1 + 1\<rparr>"
      and link: "(case active_event_head s of
              None \<Rightarrow> Inr (s\<lparr>active_event_head := Some e, active_event_tail := Some e\<rparr>)
            | Some _ \<Rightarrow>
                bnd (upd_aevent e (\<lambda>y. y\<lparr>ae_prev := active_event_tail s\<rparr>) s) (\<lambda>s.
                case active_event_tail s of None \<Rightarrow> Inl NullDeref | Some q \<Rightarrow>
                  bnd (upd_aevent q (\<lambda>y. y\<lparr>ae_next := Some e\<rparr>) s) (\<lambda>s.
                  Inr (s\<lparr>active_event_tail := Some e\<rparr>)))) = Inr s1"
      unfolding finish_event_def aevent_at_def lookup_Some_Inr [of "aevents_st s", OF x] bnd_Inr if_not_P [OF False]
      by (auto simp only: bnd_eq_Inr sum.inject)
    have core: "same_core s s1"
      using link by (auto split: option.splits dest!: core_upd_aevent [rotated]) (erule (1) same_core_trans)
    note c1 = counts_core [OF core c]
    note d1 = countsD [OF c1]
    have n1: "refs_of s1 e = Some (ae_refs x)" using core n by (simp add: same_core_def)
    have pos: "0 < ae_refs x" using d1(10) [OF n1] False by simp
    have eq: "event_of s' = event_of s1" "refs_of s' = refs_of s1" "referrers s' = referrers s1"
      "first_of s' = first_of s1" "threads_st s' = threads_st s1" "en_fresh s' = en_fresh s1"
      "en_threads s' = en_threads s1" "state_instances s' = state_instances s1"
      "active_events s' = active_events s1 + 1"
      by (simp_all add: s1 event_of_def refs_of_def first_of_def referrers_def fun_eq_iff)
    have act: "int (card (dom (refs_of s1) - {e})) + 1 = int (card (dom (refs_of s1)))"
    proof -
      have "e \<in> dom (refs_of s1)" using n1 by blast
      from card_Suc_Diff1 [OF d1(3) this] show ?thesis by linarith
    qed
    show ?thesis
    proof (rule countsI)
      fix e' m assume r: "refs_of s' e' = Some m"
      show "0 < m" using r pos n1 d1(11) [of e' m] by (cases "e' = e") (simp_all add: eq)
    next
      show "active_events s' = int (card (dom (refs_of s') - set_option None))"
        using d1(9) act by (simp add: eq)
    qed (use d1 in \<open>auto simp: eq\<close>)
  qed
qed

text \<open>The stages of \<open>inject_event\<close>.\<close>

lemma inject_stages:
  assumes "inject_event cfg ev s = Inr s'"
  obtains s1 fs s2 s3 s4 s5 gs where
    "cfg_pre_hook cfg ev (s\<lparr>en_events := en_events s + 1, en_fresh := Suc (en_fresh s), active_event_cur := Some (en_fresh s),
       aevents_st := (aevents_st s)(en_fresh s \<mapsto> \<lparr>ae_event = ev, ae_next = None, ae_prev = None, ae_refs = 0\<rparr>)\<rparr>) = Inr s1"
    and "initial_threads cfg 0 (cfg_rules cfg) (s1\<lparr>global_fields := fs\<rparr>) = Inr s2" and "merge_queues s2 = Inr s3"
    and "evt_loop (en_fresh s3) cfg (en_fresh s) (cur_retrig_qh s3) s3 = Inr s4"
    and "cfg_post_hook cfg ev s4 = Inr s5" and "finish_event (en_fresh s) (s5\<lparr>global_fields := gs\<rparr>) = Inr s'"
proof -
  note i0 = assms [unfolded inject_event_def Let_def]
  from i0 obtain s1 where s1: "cfg_pre_hook cfg ev (s\<lparr>en_events := en_events s + 1, en_fresh := Suc (en_fresh s), active_event_cur := Some (en_fresh s),
       aevents_st := (aevents_st s)(en_fresh s \<mapsto> \<lparr>ae_event = ev, ae_next = None, ae_prev = None, ae_refs = 0\<rparr>)\<rparr>) = Inr s1" by auto
  note i1 = i0 [unfolded s1 bnd_Inr]
  from i1 obtain fs where fs: "set_fields ev (global_fields s1) = Inr fs" by auto
  note i2 = i1 [unfolded fs bnd_Inr]
  from i2 obtain s2 s3 where s2: "initial_threads cfg 0 (cfg_rules cfg) (s1\<lparr>global_fields := fs\<rparr>) = Inr s2"
    "merge_queues s2 = Inr s3" by (auto simp: create_rule_initial_threads_def)
  then have "create_rule_initial_threads cfg (s1\<lparr>global_fields := fs\<rparr>) = Inr s3"
    by (simp add: create_rule_initial_threads_def)
  note i3 = i2 [unfolded this bnd_Inr]
  from i3 obtain s4 where s4: "evt_loop (en_fresh s3) cfg (en_fresh s) (cur_retrig_qh s3) s3 = Inr s4" by auto
  note i4 = i3 [unfolded s4 bnd_Inr]
  from i4 obtain s5 gs where "cfg_post_hook cfg ev s4 = Inr s5" "finish_event (en_fresh s) (s5\<lparr>global_fields := gs\<rparr>) = Inr s'"
    by auto
  with that s1 s2 s4 show ?thesis by blast
qed

lemma counts_inject:
  assumes c: "counts 0 None s" and h: "hook_ok (cfg_pre_hook cfg)" "hook_ok (cfg_post_hook cfg)"
    and i: "inject_event cfg ev s = Inr s'"
  shows "counts 0 None s'"
  using i
proof (rule inject_stages)
  let ?e = "en_fresh s"
  let ?s = "s\<lparr>en_events := en_events s + 1, en_fresh := Suc ?e, active_event_cur := Some ?e,
    aevents_st := (aevents_st s)(?e \<mapsto> \<lparr>ae_event = ev, ae_next = None, ae_prev = None, ae_refs = 0\<rparr>)\<rparr>"
  fix s1 fs s2 s3 s4 s5 gs
  assume s1: "cfg_pre_hook cfg ev ?s = Inr s1"
    and s2: "initial_threads cfg 0 (cfg_rules cfg) (s1\<lparr>global_fields := fs\<rparr>) = Inr s2" "merge_queues s2 = Inr s3"
    and s4: "evt_loop (en_fresh s3) cfg ?e (cur_retrig_qh s3) s3 = Inr s4"
    and s5: "cfg_post_hook cfg ev s4 = Inr s5" "finish_event ?e (s5\<lparr>global_fields := gs\<rparr>) = Inr s'"
  have "counts 0 (Some ?e) ?s"
    by (rule counts_new_event [OF c refl]) (simp_all add: event_of_def refs_of_def first_of_def fun_eq_iff)
  moreover have "same_core ?s s1" using h(1) s1 unfolding hook_ok_def by blast
  ultimately have "counts 0 (Some ?e) s1" by (blast intro: counts_core)
  then have "counts 0 (Some ?e) (s1\<lparr>global_fields := fs\<rparr>)" by (rule counts_core [rotated]) simp
  from counts_initial [OF s2(1) this] have "counts 0 (Some ?e) s3" by (rule counts_core [OF core_merge [OF s2(2)]])
  from counts_evt_loop [OF s4 this] have "counts 0 (Some ?e) s4" .
  moreover have "same_core s4 s5" using h(2) s5(1) by (simp add: hook_ok_def)
  ultimately have "counts 0 (Some ?e) s5" by (blast intro: counts_core)
  then have "counts 0 (Some ?e) (s5\<lparr>global_fields := gs\<rparr>)" by (rule counts_core [rotated]) simp
  from counts_finish [OF this s5(2)] show "counts 0 None s'" .
qed

end
