(* ===== verification/Linked.thy ===== *)
theory Linked
  imports Prelude
begin

text \<open>
  Singly linked lists as sequences: \<open>linked nx p ts q\<close> says that the pointer \<open>p\<close> leads through
  the blocks \<open>ts\<close> to the pointer \<open>q\<close>, where \<open>nx\<close> is the field that links them.  The queues of the
  engine and the containers use it.  Nothing here models a line of the program.
\<close>

fun linked :: "(nat \<Rightarrow> nat option option) \<Rightarrow> nat option \<Rightarrow> nat list \<Rightarrow> nat option \<Rightarrow> bool" where
  "linked nx p [] q \<longleftrightarrow> p = q"
| "linked nx p (t # ts) q \<longleftrightarrow> p = Some t \<and> (case nx t of None \<Rightarrow> False | Some p' \<Rightarrow> linked nx p' ts q)"

lemma linked_frame: "linked nx p ts q \<Longrightarrow> (\<And>t. t \<in> set ts \<Longrightarrow> nx' t = nx t) \<Longrightarrow> linked nx' p ts q"
  by (induction ts arbitrary: p) (auto split: option.splits)

lemma linked_upd [simp]: "t \<notin> set ts \<Longrightarrow> linked (nx(t := v)) p ts q \<longleftrightarrow> linked nx p ts q"
  by (induction ts arbitrary: p) (auto split: option.splits)

lemma linked_append: "linked nx p (xs @ ys) q \<longleftrightarrow> (\<exists>r. linked nx p xs r \<and> linked nx r ys q)"
  by (induction xs arbitrary: p) (auto split: option.splits)

lemma linked_last: "linked nx p xs r \<Longrightarrow> xs \<noteq> [] \<Longrightarrow> nx (last xs) = Some r"
  by (induction xs arbitrary: p) (auto split: option.splits if_splits)

lemma linked_in_dom: "linked nx p xs q \<Longrightarrow> set xs \<subseteq> dom nx"
  by (induction xs arbitrary: p) (auto split: option.splits)

lemma linked_relink:
  assumes "linked nx p xs r" and "xs \<noteq> []" and "distinct xs"
  shows "linked (nx(last xs \<mapsto> r')) p xs r'"
proof -
  obtain ys y where xs: "xs = ys @ [y]" using assms(2) by (metis append_butlast_last_id)
  from assms show ?thesis by (auto simp: xs linked_append split: option.splits)
qed

lemma linked_concat:
  assumes "linked nx p xs None" and "linked nx q ys None" and "xs \<noteq> []" and "distinct (xs @ ys)"
  shows "linked (nx(last xs \<mapsto> q)) p (xs @ ys) None"
proof -
  have "last xs \<notin> set ys" using assms(4) last_in_set [OF assms(3)] by (metis disjoint_iff distinct_append)
  then have "linked (nx(last xs \<mapsto> q)) q ys None" using assms(2) by simp
  with linked_relink [OF assms(1,3), of q] assms(4) show ?thesis by (auto simp: linked_append)
qed

end
