(* ===== verification/Engine_Queues.thy ===== *)
theory Engine_Queues
  imports Engine_Counts Linked
begin

text \<open>
  The queues of the engine as sequences.  \<open>linked\<close> reads a list through its \<open>next\<close> pointers and
  \<open>is_queue\<close> adds the pointer to the last element.  \<open>waiting\<close> is the invariant of the loop over an
  event: the threads that are left in the current queue, the new threads and the threads for the
  next event are three disjoint queues, and together they are all the threads.
\<close>

section \<open>Linked lists\<close>

definition nexts :: "engine \<Rightarrow> nat \<Rightarrow> nat option option" where
  "nexts s = (\<lambda>t. map_option t_next (threads_st s t))"

definition is_queue :: "(nat \<Rightarrow> nat option option) \<Rightarrow> nat option \<Rightarrow> nat option \<Rightarrow> nat list \<Rightarrow> bool" where
  "is_queue nx h t ts \<longleftrightarrow> linked nx h ts None \<and> t = (if ts = [] then None else Some (last ts))"

text \<open>The walk of the code returns the sequence, when its fuel is not smaller than it.\<close>

lemma linked_chain: "linked (nexts s) p ts None \<Longrightarrow> length ts \<le> n \<Longrightarrow> chain n (threads_st s) t_next p = Inr ts"
proof (induction ts arbitrary: n p)
  case Nil then show ?case by simp
next
  case (Cons t ts)
  from Cons.prems obtain m where n: "n = Suc m" by (cases n) auto
  from Cons.prems obtain x where x: "p = Some t" "threads_st s t = Some x" "linked (nexts s) (t_next x) ts None"
    by (auto simp: nexts_def split: option.splits)
  from Cons.IH [OF x(3), of m] Cons.prems(2) n x show ?case by (simp add: lookup_Some_Inr)
qed

section \<open>Operations that leave the queues alone\<close>

definition same_queues :: "engine \<Rightarrow> engine \<Rightarrow> bool" where
  "same_queues s s' \<longleftrightarrow> nexts s' = nexts s \<and> cur_retrig_qt s' = cur_retrig_qt s \<and>
     new_qh s' = new_qh s \<and> new_qt s' = new_qt s \<and> retrig_qh s' = retrig_qh s \<and> retrig_qt s' = retrig_qt s \<and>
     en_fresh s \<le> en_fresh s'"

lemma same_queues_refl [simp]: "same_queues s s"
  by (simp add: same_queues_def)

lemma same_queues_trans [trans]: "same_queues a b \<Longrightarrow> same_queues b c \<Longrightarrow> same_queues a c"
  by (auto simp: same_queues_def)

lemma queues_upd_thread:
  assumes f: "\<And>x. t_next (f x) = t_next x" and u: "upd_thread t f s = Inr s'"
  shows "same_queues s s'"
proof -
  from u obtain x where "threads_st s t = Some x" "s' = s\<lparr>threads_st := (threads_st s)(t \<mapsto> f x)\<rparr>"
    by (auto simp: upd_thread_def access_defs)
  then show ?thesis by (simp add: same_queues_def nexts_def fun_eq_iff f)
qed

lemma queues_upd:
  "upd_inst a f s = Inr s' \<Longrightarrow> same_queues s s'"
  "upd_rinst r g s = Inr s' \<Longrightarrow> same_queues s s'"
  "upd_aevent e h s = Inr s' \<Longrightarrow> same_queues s s'"
  by (auto simp: upd_inst_def upd_rinst_def upd_aevent_def same_queues_def nexts_def)

lemma queues_fields [simp]:
  "same_queues s (x\<lparr>vm := v0\<rparr>) = same_queues s x" "same_queues (x\<lparr>vm := v0\<rparr>) s = same_queues x s"
  "same_queues s (x\<lparr>sync_locks := v1\<rparr>) = same_queues s x" "same_queues (x\<lparr>sync_locks := v1\<rparr>) s = same_queues x s"
  "same_queues s (x\<lparr>rule_uses := v2\<rparr>) = same_queues s x" "same_queues (x\<lparr>rule_uses := v2\<rparr>) s = same_queues x s"
  "same_queues s (x\<lparr>first_rule_instance := v3\<rparr>) = same_queues s x" "same_queues (x\<lparr>first_rule_instance := v3\<rparr>) s = same_queues x s"
  "same_queues s (x\<lparr>active_event_head := v4\<rparr>) = same_queues s x" "same_queues (x\<lparr>active_event_head := v4\<rparr>) s = same_queues x s"
  "same_queues s (x\<lparr>active_event_tail := v5\<rparr>) = same_queues s x" "same_queues (x\<lparr>active_event_tail := v5\<rparr>) s = same_queues x s"
  "same_queues s (x\<lparr>active_event_cur := v6\<rparr>) = same_queues s x" "same_queues (x\<lparr>active_event_cur := v6\<rparr>) s = same_queues x s"
  "same_queues s (x\<lparr>active_events := v7\<rparr>) = same_queues s x" "same_queues (x\<lparr>active_events := v7\<rparr>) s = same_queues x s"
  "same_queues s (x\<lparr>rule_instances := v8\<rparr>) = same_queues s x" "same_queues (x\<lparr>rule_instances := v8\<rparr>) s = same_queues x s"
  "same_queues s (x\<lparr>state_instances := v9\<rparr>) = same_queues s x" "same_queues (x\<lparr>state_instances := v9\<rparr>) s = same_queues x s"
  "same_queues s (x\<lparr>en_threads := v10\<rparr>) = same_queues s x" "same_queues (x\<lparr>en_threads := v10\<rparr>) s = same_queues x s"
  "same_queues s (x\<lparr>en_events := v11\<rparr>) = same_queues s x" "same_queues (x\<lparr>en_events := v11\<rparr>) s = same_queues x s"
  "same_queues s (x\<lparr>insts_st := v12\<rparr>) = same_queues s x" "same_queues (x\<lparr>insts_st := v12\<rparr>) s = same_queues x s"
  "same_queues s (x\<lparr>rinsts_st := v13\<rparr>) = same_queues s x" "same_queues (x\<lparr>rinsts_st := v13\<rparr>) s = same_queues x s"
  "same_queues s (x\<lparr>aevents_st := v14\<rparr>) = same_queues s x" "same_queues (x\<lparr>aevents_st := v14\<rparr>) s = same_queues x s"
  "same_queues s (x\<lparr>global_fields := v15\<rparr>) = same_queues s x" "same_queues (x\<lparr>global_fields := v15\<rparr>) s = same_queues x s"
  "same_queues s (x\<lparr>current_tail := v16\<rparr>) = same_queues s x" "same_queues (x\<lparr>current_tail := v16\<rparr>) s = same_queues x s"
  "same_queues s (x\<lparr>cur_retrig_qh := v17\<rparr>) = same_queues s x" "same_queues (x\<lparr>cur_retrig_qh := v17\<rparr>) s = same_queues x s"
  by (simp_all add: same_queues_def nexts_def)

lemma queues_exec: "exec_in cfg a code s = Inr (ret, s') \<Longrightarrow> same_queues s s'"
  by (auto simp: exec_in_def split: option.splits)

lemma queues_kill_threads: "kill_threads r ts s = Inr s' \<Longrightarrow> same_queues s s'"
proof (induction ts arbitrary: s)
  case (Cons t ts)
  then show ?case by (fastforce split: if_splits intro: same_queues_trans queues_upd_thread [rotated])
qed simp

lemma queues_mark_dead: "mark_dead_rule r s = Inr s' \<Longrightarrow> same_queues s s'"
  by (auto simp: mark_dead_rule_def kill_queue_def dest!: queues_kill_threads queues_upd look_at_same
      intro: same_queues_trans)

lemma queues_link_state: "link_state a p s = Inr s' \<Longrightarrow> same_queues s s'"
  by (auto simp: link_state_def dest!: queues_upd intro: same_queues_trans)

lemma queues_lock_del: "lock_del cfg r a s = Inr s' \<Longrightarrow> same_queues s s'"
  by (auto simp: lock_del_def)

lemma queues_delete_locks: "delete_locks cfg r as s = Inr s' \<Longrightarrow> same_queues s s'"
  by (induction as arbitrary: s) (auto dest!: queues_lock_del intro: same_queues_trans)

lemma queues_check_sync: "check_sync cfg a once s = Inr (go, s') \<Longrightarrow> same_queues s s'"
  by (auto simp: check_sync_def lock_add_def split: if_splits option.splits dest!: queues_upd intro: same_queues_trans)

lemma queues_free_env: "free_env ps s = Inr s' \<Longrightarrow> same_queues s s'"
proof (induction ps arbitrary: s)
  case (Cons p ps)
  show ?case using Cons.prems by (cases p) (auto dest!: Cons.IH)
qed simp

lemma queues_free_event: "free_event es s = Inr s' \<Longrightarrow> same_queues s s'"
proof (induction es arbitrary: s)
  case (Cons e es)
  show ?case using Cons.prems by (cases e) (auto dest!: Cons.IH)
qed simp

lemma queues_unlink_active: "unlink_active_event e s = Inr s' \<Longrightarrow> same_queues s s'"
  by (auto simp: unlink_active_event_def split: option.splits dest!: queues_upd intro: same_queues_trans)

lemma queues_release:
  assumes "release_event e s = Inr s'"
  shows "same_queues s s'"
proof -
  from assms obtain s1 x where s1: "upd_aevent e (\<lambda>x. x\<lparr>ae_refs := ae_refs x - 1\<rparr>) s = Inr s1"
    "aevent_at e s1 = Inr x" by (auto simp: release_event_def)
  note r = assms [unfolded release_event_def s1 bnd_Inr]
  have "same_queues s1 s'"
    using r by (auto split: if_splits dest!: queues_free_event queues_upd queues_unlink_active)
      (blast intro: same_queues_trans)
  with queues_upd(3) [OF s1(1)] show ?thesis by (rule same_queues_trans)
qed

lemma queues_free_instance: "free_instance a s = Inr s' \<Longrightarrow> same_queues s s'"
  by (auto simp: free_instance_def split: option.splits dest!: queues_free_env)

lemma queues_free_list: "free_state_list n p s = Inr s' \<Longrightarrow> same_queues s s'"
proof (induction n p s rule: free_state_list.induct)
  case (3 n a s)
  from "3.prems"(1) obtain i s1 s2 where i: "inst_at a s = Inr i"
    and s1: "(case si_current i of None \<Rightarrow> Inr s | Some env \<Rightarrow> free_env env s) = Inr s1"
    and s2: "when_some (si_event i) release_event s1 = Inr s2"
    and r: "free_state_list n (si_retrig_next i)
       (s2\<lparr>insts_st := (insts_st s2)(a := None), state_instances := state_instances s2 - 1\<rparr>) = Inr s'"
    by auto
  have "same_queues s s1" using s1 by (auto split: option.splits dest!: queues_free_env)
  moreover have "same_queues s1 s2" using s2
    by (auto simp: when_some_def split: option.splits dest!: queues_release)
  ultimately show ?case using "3.IH" [OF i s1 s2 r] by (auto intro: same_queues_trans)
qed simp_all

lemma queues_free_rule: "free_rule_instance cfg r s = Inr s' \<Longrightarrow> same_queues s s'"
  by (auto simp: free_rule_instance_def Let_def split: if_splits
      dest!: queues_delete_locks queues_free_instance queues_free_list intro: same_queues_trans)

lemma queues_reap_from: "reap_from n cfg prev p rule s = Inr s' \<Longrightarrow> same_queues s s'"
proof (induction n cfg prev p rule s rule: reap_from.induct)
  case (3 n cfg prev r rule s)
  then show ?case
    by (auto split: if_splits option.splits dest!: queues_free_rule queues_upd intro: same_queues_trans)
qed simp_all

lemma queues_unlink_from: "unlink_from n a prev p t s = Inr s' \<Longrightarrow> same_queues s s'"
  by (induction n a prev p t s rule: unlink_from.induct)
    (auto split: if_splits option.splits dest!: queues_upd queues_upd_thread [rotated])

lemma queues_leave_rule:
  assumes "leave_rule_instance cfg t s = Inr s'"
  shows "same_queues s s'"
proof -
  from assms obtain x i s1 r where x: "thread_at t s = Inr x" "inst_at (t_inst x) s = Inr i"
    and s1: "upd_rinst (si_rule i) (\<lambda>r. r\<lparr>ri_threads := ri_threads r - 1\<rparr>) s = Inr s1"
    and r: "rinst_at (si_rule i) s1 = Inr r" by (auto simp: leave_rule_instance_def)
  have "same_queues s1 s'"
    using assms [unfolded leave_rule_instance_def x s1 r bnd_Inr]
    by (auto simp: reap_dead_rule_def unlink_thread_in_state_instance_list_def split: if_splits
        dest!: queues_upd queues_reap_from queues_unlink_from intro: same_queues_trans)
  with queues_upd(2) [OF s1] show ?thesis by (rule same_queues_trans)
qed

lemma queues_create:
  assumes "create_state_instance cfg d p s = Inr (b, s')"
  shows "same_queues s s'"
proof -
  from create_instance_Inr [OF assms] obtain x where "b = en_fresh s"
    "s' = s\<lparr>en_fresh := Suc b, state_instances := state_instances s + 1, insts_st := (insts_st s)(b \<mapsto> x)\<rparr>" by blast
  then show ?thesis by (simp add: same_queues_def nexts_def)
qed

lemma queues_create_init: "create_init_state_instance r n s = (a, s') \<Longrightarrow> same_queues s s'"
  by (auto simp: create_init_state_instance_def Let_def same_queues_def nexts_def)

section \<open>The three queues\<close>

definition waiting :: "nat option \<Rightarrow> nat list \<Rightarrow> nat list \<Rightarrow> nat list \<Rightarrow> engine \<Rightarrow> bool" where
  "waiting p cur ns rs s \<longleftrightarrow>
     linked (nexts s) p cur None \<and> (cur \<noteq> [] \<longrightarrow> cur_retrig_qt s = Some (last cur)) \<and>
     is_queue (nexts s) (new_qh s) (new_qt s) ns \<and> is_queue (nexts s) (retrig_qh s) (retrig_qt s) rs \<and>
     distinct (cur @ ns @ rs) \<and> dom (nexts s) = set (cur @ ns @ rs) \<and> (\<forall>t \<ge> en_fresh s. nexts s t = None)"

lemma waitingI:
  assumes "linked (nexts s) p cur None" and "cur \<noteq> [] \<Longrightarrow> cur_retrig_qt s = Some (last cur)"
    and "is_queue (nexts s) (new_qh s) (new_qt s) ns" and "is_queue (nexts s) (retrig_qh s) (retrig_qt s) rs"
    and "distinct (cur @ ns @ rs)" and "dom (nexts s) = set (cur @ ns @ rs)"
    and "\<And>t. en_fresh s \<le> t \<Longrightarrow> nexts s t = None"
  shows "waiting p cur ns rs s"
  using assms by (simp add: waiting_def)

lemma waitingD:
  assumes "waiting p cur ns rs s"
  shows "linked (nexts s) p cur None" "cur \<noteq> [] \<Longrightarrow> cur_retrig_qt s = Some (last cur)"
    "is_queue (nexts s) (new_qh s) (new_qt s) ns" "is_queue (nexts s) (retrig_qh s) (retrig_qt s) rs"
    "distinct (cur @ ns @ rs)" "dom (nexts s) = set (cur @ ns @ rs)"
    "en_fresh s \<le> t \<Longrightarrow> nexts s t = None"
  using assms by (simp_all add: waiting_def)

lemma is_queue_frame: "is_queue nx h q ts \<Longrightarrow> (\<And>t. t \<in> set ts \<Longrightarrow> nx' t = nx t) \<Longrightarrow> is_queue nx' h q ts"
  by (auto simp: is_queue_def intro: linked_frame)

lemma waiting_same: "same_queues s s' \<Longrightarrow> waiting p cur ns rs s \<Longrightarrow> waiting p cur ns rs s'"
  by (simp add: waiting_def same_queues_def)

lemma nexts_upd:
  assumes "upd_thread t f s = Inr s'"
  shows "\<exists>x. threads_st s t = Some x \<and> nexts s' = (nexts s)(t \<mapsto> t_next (f x)) \<and>
    s' = s\<lparr>threads_st := (threads_st s)(t \<mapsto> f x)\<rparr>"
  using assms by (auto simp: upd_thread_def access_defs nexts_def fun_eq_iff)

text \<open>A thread is put at the end of a queue.\<close>

lemma queue_snoc:
  assumes "is_queue nx h q ts" and "t \<notin> set ts" and "nx' = (case q of None \<Rightarrow> nx | Some y \<Rightarrow> nx(y \<mapsto> Some t))(t \<mapsto> None)"
    and "distinct ts" and "h' = (if ts = [] then Some t else h)"
  shows "is_queue nx' h' (Some t) (ts @ [t])"
proof (cases "ts = []")
  case False
  with assms(1) have q: "q = Some (last ts)" "linked nx h ts None" by (auto simp: is_queue_def)
  have l: "last ts \<noteq> t" using False assms(2) last_in_set by metis
  from linked_relink [OF q(2) False assms(4), of "Some t"] assms False l show ?thesis
    by (auto simp: is_queue_def linked_append q)
qed (use assms in \<open>auto simp: is_queue_def\<close>)

lemma waiting_new_thread:
  assumes w: "waiting p cur ns rs s" and n: "new_thread cfg a tr once s = Inr s'"
  shows "\<exists>t. waiting p cur (ns @ [t]) rs s'"
proof -
  from n obtain i s1 where s1: "upd_rinst (si_rule i) (\<lambda>r. r\<lparr>ri_threads := ri_threads r + 1\<rparr>) s = Inr s1"
    and i: "insts_st s a = Some i" by (auto simp: new_thread_def access_defs)
  let ?t = "en_fresh s1"
  let ?x = "\<lparr>t_next = None, t_trans = tr, t_inst = a, t_bump = False, t_onlyonce = once,
              t_killed = False, t_pass = 0, t_next_in_inst = (if once then None else si_threads i),
              t_timeout = cfg_time cfg + DEFAULT_TIMEOUT\<rparr>"
  let ?s = "s1\<lparr>en_fresh := Suc ?t, en_threads := en_threads s1 + 1, threads_st := (threads_st s1)(?t \<mapsto> ?x)\<rparr>"
  from n s1 i obtain s2 where
    s2: "(if once then Inr ?s else upd_inst a (\<lambda>x. x\<lparr>si_threads := Some ?t\<rparr>) ?s) = Inr s2"
    "(case new_qt s2 of
          Some q \<Rightarrow> bnd (upd_thread q (\<lambda>x. x\<lparr>t_next := Some ?t\<rparr>) s2) (\<lambda>s. Inr (s\<lparr>new_qt := Some ?t\<rparr>))
        | None \<Rightarrow> Inr (s2\<lparr>new_qh := Some ?t, new_qt := Some ?t\<rparr>)) = Inr s'"
    by (auto simp: new_thread_def access_defs Let_def)
  have w1: "waiting p cur ns rs s1" by (rule waiting_same [OF queues_upd(2) [OF s1] w])
  note d = waitingD [OF w1]
  have fr: "?t \<notin> set (cur @ ns @ rs)" using d(6) d(7) [of ?t] by auto
  have sq: "same_queues ?s s2" using s2(1) by (auto split: if_splits dest!: queues_upd)
  have e: "nexts s2 = (nexts s1)(?t \<mapsto> None)" "new_qt s2 = new_qt s1" "new_qh s2 = new_qh s1"
      "retrig_qh s2 = retrig_qh s1" "retrig_qt s2 = retrig_qt s1" "cur_retrig_qt s2 = cur_retrig_qt s1"
      "Suc ?t \<le> en_fresh s2"
    using sq by (auto simp: same_queues_def nexts_def fun_eq_iff)
  have qt: "new_qt s1 = (if ns = [] then None else Some (last ns))" using d(3) by (simp add: is_queue_def)
  have l: "ns \<noteq> [] \<Longrightarrow> last ns \<noteq> ?t" using fr last_in_set by force
  have e': "nexts s' = (case new_qt s1 of None \<Rightarrow> nexts s1 | Some y \<Rightarrow> (nexts s1)(y \<mapsto> Some ?t))(?t \<mapsto> None)
      \<and> new_qh s' = (if ns = [] then Some ?t else new_qh s1) \<and> new_qt s' = Some ?t \<and>
      retrig_qh s' = retrig_qh s1 \<and> retrig_qt s' = retrig_qt s1 \<and> cur_retrig_qt s' = cur_retrig_qt s1 \<and>
      en_fresh s' = en_fresh s2"
  proof (cases "ns = []")
    case True
    with s2(2) e qt show ?thesis by (auto simp: nexts_def)
  next
    case False
    with s2(2) e(2) qt obtain s3 where s3: "upd_thread (last ns) (\<lambda>x. x\<lparr>t_next := Some ?t\<rparr>) s2 = Inr s3"
      "s' = s3\<lparr>new_qt := Some ?t\<rparr>" by auto
    have "nexts s' = nexts s3" by (simp add: s3(2) nexts_def)
    with nexts_upd [OF s3(1)] e s3(2) False qt l show ?thesis by (auto simp: fun_upd_twist)
  qed
  have same: "nexts s' t = nexts s1 t" if "t \<in> set (cur @ rs)" for t
  proof -
    have "t \<noteq> ?t" using that fr by auto
    moreover have "t \<notin> set ns" using that d(5) by auto
    then have "ns \<noteq> [] \<Longrightarrow> t \<noteq> last ns" using last_in_set by metis
    ultimately show ?thesis using e' qt by auto
  qed
  have "waiting p cur (ns @ [?t]) rs s'"
  proof (rule waitingI)
    show "linked (nexts s') p cur None" by (rule linked_frame [OF d(1)]) (use same in simp)
    show "is_queue (nexts s') (new_qh s') (new_qt s') (ns @ [?t])"
      using queue_snoc [OF d(3), of ?t "nexts s'" "new_qh s'"] fr d(5) e' by simp
    show "is_queue (nexts s') (retrig_qh s') (retrig_qt s') rs"
      using is_queue_frame [OF d(4), of "nexts s'"] same e' by simp
    show "dom (nexts s') = set (cur @ (ns @ [?t]) @ rs)"
    proof (cases "ns = []")
      case False
      then have "last ns \<in> dom (nexts s1)" using d(6) by simp
      with False d(6) e' qt show ?thesis by auto
    qed (use d(6) e' qt in auto)
    show "nexts s' t = None" if "en_fresh s' \<le> t" for t
    proof -
      have t: "Suc ?t \<le> t" using that e' e(7) by simp
      have "ns \<noteq> [] \<Longrightarrow> last ns \<in> dom (nexts s1)" using d(6) by simp
      then have "ns \<noteq> [] \<Longrightarrow> t \<noteq> last ns" using d(7) [of t] t by auto
      with t d(7) [of t] e' qt show ?thesis by auto
    qed
  qed (use d(2,5) fr e' in auto)
  then show ?thesis ..
qed

lemma waiting_simulate:
  "simulate_state_and_create_threads n cfg a once s = Inr (ret, s') \<Longrightarrow> waiting p cur ns rs s \<Longrightarrow>
     \<exists>ts. waiting p cur (ns @ ts) rs s'"
  "simulate_transitions n cfg a once trs created s = Inr (ret, s') \<Longrightarrow> waiting p cur ns rs s \<Longrightarrow>
     \<exists>ts. waiting p cur (ns @ ts) rs s'"
proof (induction n cfg a once s and n cfg a once trs created s arbitrary: ret s' ns and ret s' ns
    rule: simulate_state_and_create_threads_simulate_transitions.induct)
  case (1 cfg a once s) then show ?case by simp
next
  case (2 n cfg a once s)
  from "2.prems"(1) obtain st s1 where st: "state_of cfg a s = Inr st"
    and s1: "(case st_action st of None \<Rightarrow> Inr s | Some code \<Rightarrow> bnd (exec_in cfg a code s) (\<lambda>(_, s). Inr s)) = Inr s1"
    by auto
  have "same_queues s s1" using s1 by (auto split: option.splits dest!: queues_exec)
  then have w1: "waiting p cur ns rs s1" using "2.prems"(2) by (rule waiting_same)
  show ?case
  proof (cases "st_trans st = []")
    case True
    with "2.prems"(1) st s1 have "\<exists>r. mark_dead_rule r s1 = Inr s'" by auto
    then show ?thesis using waiting_same [OF queues_mark_dead w1] by (metis append_Nil2)
  next
    case False
    with "2.prems"(1) st s1 obtain go s2 where s2: "check_sync cfg a once s1 = Inr (go, s2)"
      "(if \<not> go then Inr (-1, s2) else simulate_transitions n cfg a once (st_trans st) 0 s2) = Inr (ret, s')"
      by auto
    have w2: "waiting p cur ns rs s2" by (rule waiting_same [OF queues_check_sync [OF s2(1)] w1])
    show ?thesis
    proof (cases go)
      case True
      with s2(2) "2.IH" [OF st s1 False s2(1) refl] w2 show ?thesis by simp
    next
      case False
      with s2(2) w2 show ?thesis by (metis append_Nil2 Pair_inject sum.inject(2))
    qed
  qed
next
  case (3 n cfg a once created s) then show ?case by (metis append_Nil2 Pair_inject sum.inject(2) simulate_transitions.simps(1))
next
  case (4 n cfg a once tr trs created s)
  show ?case
  proof (cases "required_fields tr = []")
    case False
    with "4.prems"(1) obtain s1 where s1: "new_thread cfg a tr once s = Inr s1"
      "simulate_transitions n cfg a once trs (created + 1) s1 = Inr (ret, s')" by auto
    from waiting_new_thread [OF "4.prems"(2) s1(1)] obtain t where "waiting p cur (ns @ [t]) rs s1" ..
    from "4.IH"(4) [OF False s1 this] show ?thesis by auto
  next
    case True
    with "4.prems"(1) obtain vmret s1 where
      s1: "(case eval_code tr of None \<Rightarrow> Inr (0, s) | Some code \<Rightarrow> exec_in cfg a code s) = Inr (vmret, s1)"
      by auto
    have "same_queues s s1" using s1 by (auto split: option.splits dest!: queues_exec)
    then have w1: "waiting p cur ns rs s1" using "4.prems"(2) by (rule waiting_same)
    show ?thesis
    proof (cases "vmret = 0")
      case False
      with True "4.prems"(1) s1 "4.IH"(3) [OF True s1 refl False _ w1] show ?thesis by auto
    next
      case v: True
      with True "4.prems"(1) s1 obtain d b s2 s3 r s4 where
        d: "tr_dest tr = Some d" "create_state_instance cfg d a s1 = Inr (b, s2)" "link_state b a s2 = Inr s3"
        "simulate_state_and_create_threads n cfg b once s3 = Inr (r, s4)"
        and s4: "(if r < 0 then Inr (- created + r, s4) else simulate_transitions n cfg a once trs (created + r) s4) = Inr (ret, s')"
        by (auto split: option.splits)
      have "waiting p cur ns rs s3"
        by (rule waiting_same [OF same_queues_trans [OF queues_create [OF d(2)] queues_link_state [OF d(3)]] w1])
      from "4.IH"(1) [OF True s1 refl v d(1,2) refl d(3,4) this]
      obtain ts where w4: "waiting p cur (ns @ ts) rs s4" ..
      show ?thesis
      proof (cases "r < 0")
        case True
        with s4 w4 show ?thesis by auto
      next
        case False
        with s4 "4.IH"(2) [OF True s1 refl v d(1,2) refl d(3,4) refl False _ w4] show ?thesis by auto
      qed
    qed
  qed
qed

section \<open>The operations of the loop\<close>

lemma waiting_pass_thread:
  assumes w: "waiting q cur ns rs s" and p: "pass_thread cfg ev t s = Inr s'"
  shows "\<exists>ts. waiting q cur (ns @ ts) rs s'"
proof -
  from p obtain s1 x i where s1: "upd_thread t (\<lambda>x. x\<lparr>t_pass := t_pass x + 1\<rparr>) s = Inr s1"
    and x: "thread_at t s1 = Inr x" and i: "inst_at (t_inst x) s1 = Inr i" by (auto simp: pass_thread_def)
  note p1 = p [unfolded pass_thread_def s1 bnd_Inr x i]
  from p1 obtain s2 where s2: "(if \<not> t_onlyonce x then Inr s1 else
          bnd (upd_rinst (si_rule i) (\<lambda>r. r\<lparr>ri_created := cfg_time cfg, ri_inuse := True\<rparr>) s1) (\<lambda>s.
          bnd (rinst_at (si_rule i) s) (\<lambda>r.
          Inr (s\<lparr>rule_uses := (rule_uses s)(ri_rule r := rule_uses s (ri_rule r) + 1),
            rule_instances := rule_instances s + 1\<rparr>)))) = Inr s2" by (auto simp: bnd_eq_Inr)
  note p2 = p1 [unfolded s2 bnd_Inr]
  from p2 obtain d b s3 where d: "tr_dest (t_trans x) = Some d"
    and s3: "create_state_instance cfg d (t_inst x) s2 = Inr (b, s3)" by (auto split: option.splits)
  note p3 = p2 [unfolded d option.case s3 bnd_Inr prod.case]
  from p3 obtain s4 s5 s6 where s4: "upd_inst b (\<lambda>y. y\<lparr>si_event := Some ev\<rparr>) s3 = Inr s4"
    "upd_aevent ev (\<lambda>y. y\<lparr>ae_refs := ae_refs y + 1\<rparr>) s4 = Inr s5" "link_state b (t_inst x) s5 = Inr s6" by auto
  note p4 = p3 [unfolded s4 bnd_Inr]
  from p4 obtain n s7 where s7: "simulate_state_and_create_threads (cfg_fuel cfg) cfg b False s6 = Inr (n, s7)" by auto
  note p5 = p4 [unfolded s7 bnd_Inr prod.case]
  from p5 obtain cut where cut: "(if cut then upd_thread t (\<lambda>x. x\<lparr>t_killed := True\<rparr>) s7 else Inr s7) = Inr s'" by auto
  have "same_queues s s1" by (rule queues_upd_thread [OF _ s1]) simp
  also have "same_queues s1 s2" using s2 by (auto split: if_splits dest!: queues_upd)
  also note queues_create [OF s3]
  also note queues_upd(1) [OF s4(1)]
  also note queues_upd(3) [OF s4(2)]
  also note queues_link_state [OF s4(3)]
  finally have "waiting q cur ns rs s6" using w by (rule waiting_same)
  from waiting_simulate(1) [OF s7 this] obtain ts where "waiting q cur (ns @ ts) rs s7" ..
  moreover have "same_queues s7 s'" using cut by (auto split: if_splits dest!: queues_upd_thread [rotated])
  ultimately have "waiting q cur (ns @ ts) rs s'" by (metis waiting_same)
  then show ?thesis ..
qed

text \<open>\<open>commit_queues\<close> appends the queue of the next event to the new threads.\<close>

lemma waiting_commit:
  assumes w: "waiting p cur ns rs s" and c: "commit_queues s = Inr s'"
  shows "waiting p cur (ns @ rs) [] s'"
proof -
  from c obtain s1 where s1: "when_some (retrig_qt s) (\<lambda>t. upd_thread t (\<lambda>x. x\<lparr>t_bump := True\<rparr>)) s = Inr s1"
    by (auto simp: commit_queues_def)
  have "same_queues s s1" using s1 by (auto simp: when_some_def split: option.splits dest!: queues_upd_thread [rotated])
  then have w1: "waiting p cur ns rs s1" using w by (rule waiting_same)
  note d = waitingD [OF w1]
  show ?thesis
  proof (cases "ns = []")
    case True
    with c s1 d(3) have "s' = s1\<lparr>new_qh := retrig_qh s1, new_qt := retrig_qt s1, retrig_qh := None, retrig_qt := None\<rparr>"
      by (auto simp: commit_queues_def is_queue_def)
    then show ?thesis using d True by (simp add: waiting_def nexts_def is_queue_def)
  next
    case False
    with d(3) have q: "linked (nexts s1) (new_qh s1) ns None" "new_qt s1 = Some (last ns)" "new_qh s1 \<noteq> None"
      by (auto simp: is_queue_def) (cases ns; simp)
    with c s1 obtain s2 where s2: "upd_thread (last ns) (\<lambda>x. x\<lparr>t_bump := True, t_next := retrig_qh s1\<rparr>) s1 = Inr s2"
      "s' = (if retrig_qt s2 \<noteq> None then s2\<lparr>new_qt := retrig_qt s2\<rparr> else s2)\<lparr>retrig_qh := None, retrig_qt := None\<rparr>"
      by (auto simp: commit_queues_def split: option.splits)
    from nexts_upd [OF s2(1)] have n2: "nexts s2 = (nexts s1)(last ns \<mapsto> retrig_qh s1)"
      "new_qh s2 = new_qh s1" "new_qt s2 = new_qt s1" "retrig_qt s2 = retrig_qt s1" "en_fresh s2 = en_fresh s1"
      "cur_retrig_qt s2 = cur_retrig_qt s1" by auto
    have e: "nexts s' = (nexts s1)(last ns \<mapsto> retrig_qh s1)" "new_qh s' = new_qh s1"
      "new_qt s' = (if retrig_qt s1 \<noteq> None then retrig_qt s1 else new_qt s1)" "retrig_qh s' = None" "retrig_qt s' = None"
      "en_fresh s' = en_fresh s1" "cur_retrig_qt s' = cur_retrig_qt s1"
      using n2 by (simp_all add: s2(2) nexts_def)
    have r: "linked (nexts s1) (retrig_qh s1) rs None" "retrig_qt s1 = (if rs = [] then None else Some (last rs))"
      using d(4) by (auto simp: is_queue_def)
    have l: "last ns \<in> set ns" using False by simp
    have l': "last ns \<notin> set cur" using d(5) l by auto
    show ?thesis
    proof (rule waitingI)
      show "linked (nexts s') p cur None"
        using d(1) l' by (simp add: e)
      show "is_queue (nexts s') (new_qh s') (new_qt s') (ns @ rs)"
        using linked_concat [OF q(1) r(1) False] d(5) False r(2) q(2) by (auto simp: is_queue_def e)
      show "dom (nexts s') = set (cur @ (ns @ rs) @ [])" using d(6) l by (auto simp: e)
      show "nexts s' t = None" if "en_fresh s' \<le> t" for t
        using d(6) d(7) [of t] that l by (auto simp: e)
    qed (use d(2,5) in \<open>auto simp: e is_queue_def\<close>)
  qed
qed

text \<open>The thread that was examined goes on waiting for the next event.\<close>

lemma waiting_retrig:
  assumes w: "waiting (Some t) (t # cur) ns rs s" and r: "retrig_thread t s = Inr s'"
    and p: "nexts s t = Some p"
  shows "waiting p cur ns (rs @ [t]) s'"
proof -
  note d = waitingD [OF w]
  have t: "t \<notin> set (cur @ ns @ rs)" using d(5) by auto
  have q: "retrig_qt s = (if rs = [] then None else Some (last rs))" "retrig_qh s = None \<longleftrightarrow> rs = []"
    using d(4) by (auto simp: is_queue_def) (cases rs; simp)+
  have e: "nexts s' = (case retrig_qt s of None \<Rightarrow> nexts s | Some y \<Rightarrow> (nexts s)(y \<mapsto> Some t))(t \<mapsto> None) \<and>
    retrig_qh s' = (if rs = [] then Some t else retrig_qh s) \<and> retrig_qt s' = Some t \<and>
    new_qh s' = new_qh s \<and> new_qt s' = new_qt s \<and> cur_retrig_qt s' = cur_retrig_qt s \<and> en_fresh s' = en_fresh s"
  proof (cases "rs = []")
    case True
    with q r have "upd_thread t (\<lambda>x. x\<lparr>t_next := None\<rparr>) (s\<lparr>retrig_qh := Some t, retrig_qt := Some t\<rparr>) = Inr s'"
      by (simp add: retrig_thread_def)
    from nexts_upd [OF this] q True show ?thesis by (auto simp: nexts_def)
  next
    case False
    with q r obtain s1 where s1: "upd_thread (last rs) (\<lambda>x. x\<lparr>t_next := Some t\<rparr>) s = Inr s1"
      "upd_thread t (\<lambda>x. x\<lparr>t_next := None\<rparr>) (s1\<lparr>retrig_qt := Some t\<rparr>) = Inr s'"
      by (auto simp: retrig_thread_def)
    have "nexts (s1\<lparr>retrig_qt := Some t\<rparr>) = nexts s1" by (simp add: nexts_def)
    with nexts_upd [OF s1(1)] nexts_upd [OF s1(2)] q False show ?thesis by auto
  qed
  have same: "nexts s' x = nexts s x" if "x \<in> set (cur @ ns)" for x
  proof -
    have "x \<notin> set rs" "x \<noteq> t" using that t d(5) by auto
    then have "rs \<noteq> [] \<Longrightarrow> x \<noteq> last rs" using last_in_set by metis
    with \<open>x \<noteq> t\<close> show ?thesis using e q(1) by auto
  qed
  have l: "rs \<noteq> [] \<Longrightarrow> last rs \<in> dom (nexts s)" using d(6) by simp
  show ?thesis
  proof (rule waitingI)
    show "linked (nexts s') p cur None"
      by (rule linked_frame [of "nexts s"]) (use d(1) p same in simp_all)
    show "is_queue (nexts s') (new_qh s') (new_qt s') ns"
      using is_queue_frame [OF d(3), of "nexts s'"] same e by simp
    show "is_queue (nexts s') (retrig_qh s') (retrig_qt s') (rs @ [t])"
      using queue_snoc [OF d(4), of t "nexts s'" "retrig_qh s'"] t d(5) e by simp
    show "dom (nexts s') = set (cur @ ns @ (rs @ [t]))"
    proof (cases "rs = []")
      case False with l e q(1) d(6) show ?thesis by auto
    qed (use e q(1) d(6) in auto)
    show "nexts s' x = None" if "en_fresh s' \<le> x" for x
    proof -
      have x: "nexts s x = None" using that e d(7) by simp
      have "t \<in> dom (nexts s)" using d(6) by simp
      then have "x \<noteq> t" "rs \<noteq> [] \<Longrightarrow> x \<noteq> last rs" using x l by auto
      with x e q(1) show ?thesis by auto
    qed
  qed (use d(2,5) t e in auto)
qed

definition head_of :: "nat list \<Rightarrow> nat option" where
  "head_of ts = (case ts of [] \<Rightarrow> None | t # _ \<Rightarrow> Some t)"

lemma linked_head: "linked nx p ts None \<Longrightarrow> p = head_of ts"
  by (cases ts) (simp_all add: head_of_def)

lemma waiting_head: "waiting p cur ns rs s \<Longrightarrow> p = head_of cur"
  by (rule linked_head [OF waitingD(1)])

lemma waiting_next: "waiting p (t # cur) ns rs s \<Longrightarrow> nexts s t = Some (head_of cur)"
  by (auto dest!: waitingD(1) split: option.splits dest: linked_head)

text \<open>A thread that is taken out leaves the other threads where they are.\<close>

lemma waiting_reap:
  assumes w: "waiting p (t # cur) ns rs s" and r: "reap_thread cfg t next s = Inr s'"
  shows "waiting (head_of cur) cur ns rs s'"
proof -
  from r obtain s2 where s2: "leave_rule_instance cfg t s = Inr s2" by (auto simp: reap_thread_def)
  let ?s2 = "if Some t = cur_retrig_qh s2 then s2\<lparr>cur_retrig_qh := next\<rparr> else s2"
  have w2: "waiting p (t # cur) ns rs ?s2"
    by (rule waiting_same [OF _ w]) (use queues_leave_rule [OF s2] in simp)
  note d = waitingD [OF w2]
  note r1 = r [unfolded reap_thread_def s2 bnd_Inr Let_def]
  have qt: "cur_retrig_qt ?s2 = Some (last (t # cur))" using d(2) by simp
  from r1 obtain s3 where s3: "upd_thread (last (t # cur)) (\<lambda>y. y\<lparr>t_next := None\<rparr>) ?s2 = Inr s3"
    "s' = s3\<lparr>current_tail := None, threads_st := (threads_st s3)(t := None)\<rparr>"
    unfolding qt when_some_def by auto
  have "nexts ?s2 (last (t # cur)) = Some None" using linked_last [OF d(1)] by simp
  then have "nexts s3 = nexts ?s2" using nexts_upd [OF s3(1)] by (auto simp: fun_eq_iff)
  then have n: "nexts s' = (nexts ?s2)(t := None)" by (simp add: s3(2) nexts_def fun_eq_iff)
  have e: "cur_retrig_qt s' = cur_retrig_qt ?s2" "new_qh s' = new_qh ?s2" "new_qt s' = new_qt ?s2"
    "retrig_qh s' = retrig_qh ?s2" "retrig_qt s' = retrig_qt ?s2" "en_fresh s' = en_fresh ?s2"
    using nexts_upd [OF s3(1)] by (auto simp: s3(2))
  have t: "t \<notin> set (cur @ ns @ rs)" using d(5) by simp
  have nt: "nexts ?s2 t = Some (head_of cur)" by (rule waiting_next [OF w2])
  show ?thesis
  proof (rule waitingI)
    show "linked (nexts s') (head_of cur) cur None" using d(1) t nt by (simp add: n)
    show "is_queue (nexts s') (new_qh s') (new_qt s') ns"
      unfolding e by (rule is_queue_frame [OF d(3)]) (use t in \<open>auto simp: n\<close>)
    show "is_queue (nexts s') (retrig_qh s') (retrig_qt s') rs"
      unfolding e by (rule is_queue_frame [OF d(4)]) (use t in \<open>auto simp: n\<close>)
    show "dom (nexts s') = set (cur @ ns @ rs)" using d(6) t by (auto simp: n)
    show "nexts s' x = None" if "en_fresh s' \<le> x" for x using d(7) [of x] that by (simp add: n e)
    show "cur \<noteq> [] \<Longrightarrow> cur_retrig_qt s' = Some (last cur)" using d(2) by (simp add: e)
  qed (use d(5) in simp)
qed

lemma waiting_step:
  assumes w: "waiting p (t # cur) ns rs s" and e: "evt_step cfg ev t (head_of cur) s = Inr s'"
  shows "\<exists>ns' rs'. waiting (head_of cur) cur ns' rs' s'"
proof -
  let ?s = "s\<lparr>current_tail := Some t\<rparr>"
  have w0: "waiting p (t # cur) ns rs ?s" by (rule waiting_same [OF _ w]) simp
  from e obtain x where x: "thread_at t ?s = Inr x" by (auto simp: evt_step_def Let_def)
  note e1 = e [unfolded evt_step_def Let_def x bnd_Inr]
  show ?thesis
  proof (cases "\<not> t_onlyonce x \<and> t_timeout x \<le>s cfg_time cfg \<or> t_killed x")
    case True
    from e1 [unfolded if_P [OF True]] obtain s1 where s1: "upd_thread t (\<lambda>x. x\<lparr>t_killed := True\<rparr>) ?s = Inr s1"
      "reap_thread cfg t (head_of cur) s1 = Inr s'" by auto
    have "waiting p (t # cur) ns rs s1" by (rule waiting_same [OF queues_upd_thread [OF _ s1(1)] w0]) simp
    from waiting_reap [OF this s1(2)] show ?thesis by blast
  next
    case False
    note e2 = e1 [unfolded if_not_P [OF False]]
    from e2 obtain code r s1 where code: "eval_code (t_trans x) = Some code"
      and s1: "exec_in cfg (t_inst x) code ?s = Inr (r, s1)" by (auto split: option.splits)
    note e3 = e2 [unfolded code option.case s1 bnd_Inr prod.case]
    have w1: "waiting p (t # cur) ns rs s1" by (rule waiting_same [OF queues_exec [OF s1] w0])
    from e3 obtain s2 where s2: "(if r = 0 then pass_thread cfg ev t s1 else Inr s1) = Inr s2" by auto
    note e4 = e3 [unfolded s2 bnd_Inr]
    obtain ts where w2: "waiting p (t # cur) (ns @ ts) rs s2"
      using s2 w1 waiting_pass_thread [OF w1, of cfg ev t s2] by (cases "r = 0") (auto intro: that [of "[]"])
    from e4 obtain y where y: "thread_at t s2 = Inr y" by auto
    note e5 = e4 [unfolded y bnd_Inr]
    show ?thesis
    proof (cases "t_onlyonce y")
      case True
      from e5 [unfolded if_P [OF True]] obtain s3 s4 where
        s3: "upd_thread t (\<lambda>x. x\<lparr>t_killed := True\<rparr>) s2 = Inr s3"
        "(if t_bump y then commit_queues s3 else Inr s3) = Inr s4" "reap_thread cfg t (head_of cur) s4 = Inr s'" by auto
      have w3: "waiting p (t # cur) (ns @ ts) rs s3"
        by (rule waiting_same [OF queues_upd_thread [OF _ s3(1)] w2]) simp
      then obtain ns' rs' where "waiting p (t # cur) ns' rs' s4"
        using s3(2) waiting_commit [OF w3] by (cases "t_bump y") auto
      from waiting_reap [OF this s3(3)] show ?thesis by blast
    next
      case False
      from e5 [unfolded if_not_P [OF False]] obtain s3 where
        s3: "retrig_thread t s2 = Inr s3" "(if t_bump y then commit_queues s3 else Inr s3) = Inr s'" by auto
      have "p = Some t" using waiting_head [OF w2] by (simp add: head_of_def)
      with w2 have w3: "waiting (head_of cur) cur (ns @ ts) (rs @ [t]) s3"
        by (intro waiting_retrig [OF _ s3(1) waiting_next [OF w2]]) simp
      then show ?thesis using s3(2) waiting_commit [OF w3] by (cases "t_bump y") auto
    qed
  qed
qed

lemma waiting_loop:
  "evt_loop n cfg ev p s = Inr s' \<Longrightarrow> waiting p cur ns rs s \<Longrightarrow> \<exists>ns' rs'. waiting None [] ns' rs' s'"
proof (induction cur arbitrary: n p ns rs s)
  case Nil
  then have "p = None" by (simp add: waiting_def)
  with Nil show ?case by auto
next
  case (Cons t cur)
  have p: "p = Some t" using waiting_head [OF Cons.prems(2)] by (simp add: head_of_def)
  with Cons.prems(1) obtain m where n: "n = Suc m" by (cases n) auto
  with Cons.prems(1) p obtain x s1 where x: "thread_at t s = Inr x" "evt_step cfg ev t (t_next x) s = Inr s1"
    "evt_loop m cfg ev (t_next x) s1 = Inr s'" by auto
  have "t_next x = head_of cur" using waiting_next [OF Cons.prems(2)] x(1) by (auto simp: nexts_def access_defs)
  with waiting_step [OF Cons.prems(2)] x Cons.IH show ?case by metis
qed

section \<open>A whole event\<close>

lemma queues_bump: "bump_new_tail s = Inr s' \<Longrightarrow> same_queues s s'"
  by (auto simp: bump_new_tail_def when_some_def split: option.splits dest!: queues_upd_thread [rotated])

lemma waiting_initial_of:
  assumes w: "waiting p cur ns rs s" and i: "initial_threads_of cfg n r s = Inr s'"
  shows "\<exists>ts. waiting p cur (ns @ ts) rs s'"
proof -
  obtain a s1 where a: "create_init_state_instance r (Suc (en_fresh s)) s = (a, s1)" by fastforce
  let ?ri = "\<lparr>ri_rule = n, ri_first_state = a, ri_next = None, ri_state_list = None, ri_threads = 0,
             ri_killed = False, ri_inuse = False, ri_created = 0, ri_locks = []\<rparr>"
  let ?s2 = "s1\<lparr>en_fresh := Suc (Suc (en_fresh s)), rinsts_st := (rinsts_st s1)(Suc (en_fresh s) \<mapsto> ?ri)\<rparr>"
  have "same_queues s ?s2"
    using a by (auto simp: create_init_state_instance_def Let_def same_queues_def nexts_def)
  then have w2: "waiting p cur ns rs ?s2" using w by (rule waiting_same)
  from i a obtain ret s3 where s3: "simulate_state_and_create_threads (cfg_fuel cfg) cfg a True ?s2 = Inr (ret, s3)"
    and rest: "(if ret \<le> 0 then free_rule_instance cfg (Suc (en_fresh s)) s3
         else bnd (upd_rinst (Suc (en_fresh s)) (\<lambda>x. x\<lparr>ri_threads := ret, ri_next := first_rule_instance s3\<rparr>) s3) (\<lambda>s'.
              bump_new_tail (s'\<lparr>first_rule_instance := Some (Suc (en_fresh s))\<rparr>))) = Inr s'"
    by (auto simp: initial_threads_of_def Let_def)
  from waiting_simulate(1) [OF s3 w2] obtain ts where w3: "waiting p cur (ns @ ts) rs s3" ..
  have "same_queues s3 s'"
    using rest by (auto split: if_splits dest!: queues_free_rule queues_upd queues_bump intro: same_queues_trans)
  from waiting_same [OF this w3] show ?thesis ..
qed

lemma waiting_initial:
  "initial_threads cfg n rl s = Inr s' \<Longrightarrow> waiting p cur ns rs s \<Longrightarrow> \<exists>ts. waiting p cur (ns @ ts) rs s'"
proof (induction rl arbitrary: n s ns)
  case Nil
  then show ?case by (auto intro: exI [of _ "[]"])
next
  case (Cons r rl)
  from Cons.prems(1) obtain s1 where s1: "initial_threads_of cfg n r s = Inr s1" "initial_threads cfg (n + 1) rl s1 = Inr s'"
    by auto
  from waiting_initial_of [OF Cons.prems(2) s1(1)] obtain ts where "waiting p cur (ns @ ts) rs s1" ..
  from Cons.IH [OF s1(2) this] show ?case by auto
qed

text \<open>The current queue of an event: the new threads, then the threads of the last event.\<close>

lemma waiting_merge:
  assumes w: "waiting p [] ns rs s" and m: "merge_queues s = Inr s'"
  shows "waiting (cur_retrig_qh s') (ns @ rs) [] [] s'"
proof -
  note d = waitingD [OF w]
  show ?thesis
  proof (cases "ns = []")
    case True
    with m d(3) have "s' = s\<lparr>cur_retrig_qh := retrig_qh s, cur_retrig_qt := retrig_qt s, retrig_qh := None, retrig_qt := None\<rparr>"
      by (auto simp: merge_queues_def is_queue_def)
    then show ?thesis using d True by (simp add: waiting_def nexts_def is_queue_def)
  next
    case False
    with d(3) have q: "linked (nexts s) (new_qh s) ns None" "new_qt s = Some (last ns)" "new_qh s \<noteq> None"
      by (auto simp: is_queue_def) (cases ns; simp)
    with m obtain s1 where s1: "upd_thread (last ns) (\<lambda>x. x\<lparr>t_next := retrig_qh s\<rparr>) s = Inr s1"
      "s' = s1\<lparr>cur_retrig_qh := new_qh s, cur_retrig_qt := (if retrig_qt s \<noteq> None then retrig_qt s else Some (last ns)),
                new_qh := None, new_qt := None, retrig_qh := None, retrig_qt := None\<rparr>"
      by (auto simp: merge_queues_def)
    from nexts_upd [OF s1(1)] have e: "nexts s' = (nexts s)(last ns \<mapsto> retrig_qh s)" "en_fresh s' = en_fresh s"
      by (auto simp: s1(2) nexts_def)
    have r: "linked (nexts s) (retrig_qh s) rs None" "retrig_qt s = (if rs = [] then None else Some (last rs))"
      using d(4) by (auto simp: is_queue_def)
    have l: "last ns \<in> set ns" using False by simp
    show ?thesis
    proof (rule waitingI)
      show "linked (nexts s') (cur_retrig_qh s') (ns @ rs) None"
        using linked_concat [OF q(1) r(1) False] d(5) by (simp add: e) (simp add: s1(2))
      show "cur_retrig_qt s' = Some (last (ns @ rs))" using False r(2) by (simp add: s1(2))
      show "dom (nexts s') = set ((ns @ rs) @ [] @ [])" using d(6) l by (auto simp: e)
      show "nexts s' t = None" if "en_fresh s' \<le> t" for t
        using d(6) d(7) [of t] that l by (auto simp: e)
    qed (use d(5) in \<open>simp_all add: is_queue_def s1(2)\<close>)
  qed
qed

lemma queues_finish: "finish_event e s = Inr s' \<Longrightarrow> same_queues s s'"
  by (auto simp: finish_event_def split: if_splits option.splits dest!: queues_free_event queues_upd
      intro: same_queues_trans) (blast intro: same_queues_trans)+

text \<open>Hooks may change the variables, but not the blocks and the queues of the engine.\<close>

definition hook_quiet :: "(event \<Rightarrow> engine \<Rightarrow> fault + engine) \<Rightarrow> bool" where
  "hook_quiet h \<longleftrightarrow> (\<forall>ev s s'. h ev s = Inr s' \<longrightarrow> same_queues s s')"

lemma waiting_inject:
  assumes w: "waiting None [] ns rs s" and h: "hook_quiet (cfg_pre_hook cfg)" "hook_quiet (cfg_post_hook cfg)"
    and i: "inject_event cfg ev s = Inr s'"
  shows "\<exists>ns' rs'. waiting None [] ns' rs' s'"
  using i
proof (rule inject_stages)
  let ?s = "s\<lparr>en_events := en_events s + 1, en_fresh := Suc (en_fresh s), active_event_cur := Some (en_fresh s),
       aevents_st := (aevents_st s)(en_fresh s \<mapsto> \<lparr>ae_event = ev, ae_next = None, ae_prev = None, ae_refs = 0\<rparr>)\<rparr>"
  fix s1 fs s2 s3 s4 s5 gs
  assume s1: "cfg_pre_hook cfg ev ?s = Inr s1"
    and s2: "initial_threads cfg 0 (cfg_rules cfg) (s1\<lparr>global_fields := fs\<rparr>) = Inr s2" and s3: "merge_queues s2 = Inr s3"
    and s4: "evt_loop (en_fresh s3) cfg (en_fresh s) (cur_retrig_qh s3) s3 = Inr s4"
    and s5: "cfg_post_hook cfg ev s4 = Inr s5" "finish_event (en_fresh s) (s5\<lparr>global_fields := gs\<rparr>) = Inr s'"
  have "same_queues s ?s" by (simp add: same_queues_def nexts_def)
  also have "same_queues ?s s1" using h(1) s1 unfolding hook_quiet_def by blast
  finally have "waiting None [] ns rs (s1\<lparr>global_fields := fs\<rparr>)" using w by (intro waiting_same [OF _ w]) simp
  from waiting_initial [OF s2 this] obtain ts where "waiting None [] (ns @ ts) rs s2" ..
  from waiting_loop [OF s4 waiting_merge [OF this s3]] obtain ns' rs' where w4: "waiting None [] ns' rs' s4" by blast
  have "same_queues s4 s5" using h(2) s5(1) by (simp add: hook_quiet_def)
  moreover have "same_queues s5 s'" using queues_finish [OF s5(2)] by simp
  ultimately have "same_queues s4 s'" by (rule same_queues_trans)
  from waiting_same [OF this w4] show ?thesis by blast
qed

text \<open>The addresses below \<open>en_fresh\<close> are enough fuel for every walk over a queue.\<close>

lemma waiting_length: "waiting p cur ns rs s \<Longrightarrow> length (cur @ ns @ rs) \<le> en_fresh s"
proof -
  assume w: "waiting p cur ns rs s"
  note d = waitingD [OF w]
  have "set (cur @ ns @ rs) \<subseteq> {..< en_fresh s}" using d(6) d(7) by (force simp: not_less [symmetric])
  then have "card (set (cur @ ns @ rs)) \<le> en_fresh s" using card_mono [of "{..< en_fresh s}"] by force
  with distinct_card [OF d(5)] show ?thesis by simp
qed

end
