(* ===== verification/Engine_Laws.thy ===== *)
theory Engine_Laws
  imports Engine_Queues
begin

text \<open>
  The properties of the engine: the books are kept, no thread is lost, the loop ends, the
  environments are inherited, a dead rule is marked, and the case in which a state is used
  after it was released.
\<close>

section \<open>Runs from a new engine\<close>

fun inject_all :: "engine_cfg \<Rightarrow> event list \<Rightarrow> engine \<Rightarrow> fault + engine" where
  "inject_all cfg [] s = Inr s"
| "inject_all cfg (ev # evs) s = bnd (inject_event cfg ev s) (inject_all cfg evs)"

text \<open>One turn of the loop for each thread of a list, in order; each turn knows the thread after it.\<close>

fun turns :: "engine_cfg \<Rightarrow> nat \<Rightarrow> nat list \<Rightarrow> engine \<Rightarrow> fault + engine" where
  "turns cfg e [] s = Inr s"
| "turns cfg e (t # ts) s = bnd (evt_step cfg e t (case ts of [] \<Rightarrow> None | u # _ \<Rightarrow> Some u) s) (turns cfg e ts)"

lemma loop_turns:
  "waiting p cur ns rs s \<Longrightarrow> length cur \<le> n \<Longrightarrow> evt_loop n cfg e p s = turns cfg e cur s"
proof (induction cur arbitrary: n p ns rs s)
  case Nil
  then have "p = None" by (simp add: waiting_def)
  then show ?case by simp
next
  case (Cons t cur)
  have p: "p = Some t" using waiting_head [OF Cons.prems(1)] by (simp add: head_of_def)
  from Cons.prems obtain m where n: "n = Suc m" by (cases n) auto
  from waiting_next [OF Cons.prems(1)] obtain x where x: "thread_at t s = Inr x" "t_next x = head_of cur"
    by (auto simp: nexts_def access_defs)
  show ?case
  proof (cases "evt_step cfg e t (head_of cur) s")
    case step: (Inr s1)
    from waiting_step [OF Cons.prems(1) step] obtain ns' rs' where "waiting (head_of cur) cur ns' rs' s1" by blast
    from Cons.IH [OF this, of m] Cons.prems(2) n x step p show ?thesis by (simp add: head_of_def)
  qed (simp add: n p x head_of_def)
qed

text \<open>An engine as \<open>new_orchids\<close> makes it: the structure is allocated with zeros.\<close>

definition new_engine :: "ovm \<Rightarrow> nat option list \<Rightarrow> (nat \<Rightarrow> (nat, nat) htab) \<Rightarrow> engine" where
  "new_engine m fs locks =
     \<lparr>en_fresh = 0, threads_st = (\<lambda>_. None), insts_st = (\<lambda>_. None), rinsts_st = (\<lambda>_. None),
      aevents_st = (\<lambda>_. None), vm = m, global_fields = fs, sync_locks = locks,
      rule_uses = (\<lambda>_. 0), first_rule_instance = None, current_tail = None, cur_retrig_qh = None,
      cur_retrig_qt = None, new_qh = None, new_qt = None, retrig_qh = None, retrig_qt = None,
      active_event_head = None, active_event_tail = None, active_event_cur = None, en_events = 0,
      active_events = 0, rule_instances = 0, state_instances = 0, en_threads = 0\<rparr>"

lemma new_engine_counts: "counts 0 None (new_engine m fs ls)"
  by (rule countsI) (simp_all add: new_engine_def event_of_def refs_of_def first_of_def)

lemma new_engine_waiting: "waiting None [] [] [] (new_engine m fs ls)"
  by (simp add: waiting_def new_engine_def nexts_def is_queue_def)

definition hooks_ok :: "engine_cfg \<Rightarrow> bool" where
  "hooks_ok cfg \<longleftrightarrow> hook_ok (cfg_pre_hook cfg) \<and> hook_ok (cfg_post_hook cfg) \<and>
     hook_quiet (cfg_pre_hook cfg) \<and> hook_quiet (cfg_post_hook cfg)"

lemma counts_run: "inject_all cfg evs s = Inr s' \<Longrightarrow> hooks_ok cfg \<Longrightarrow> counts 0 None s \<Longrightarrow> counts 0 None s'"
proof (induction evs arbitrary: s)
  case (Cons ev evs)
  from Cons.prems(1) obtain s1 where s1: "inject_event cfg ev s = Inr s1" "inject_all cfg evs s1 = Inr s'" by auto
  with Cons.prems(2,3) have "counts 0 None s1" by (auto simp: hooks_ok_def intro: counts_inject)
  with Cons.IH s1(2) Cons.prems(2) show ?case by blast
qed simp

lemma waiting_run:
  "inject_all cfg evs s = Inr s' \<Longrightarrow> hooks_ok cfg \<Longrightarrow> waiting None [] ns rs s \<Longrightarrow> \<exists>ns' rs'. waiting None [] ns' rs' s'"
proof (induction evs arbitrary: s ns rs)
  case Nil
  then show ?case by auto
next
  case (Cons ev evs)
  from Cons.prems(1) obtain s1 where s1: "inject_event cfg ev s = Inr s1" "inject_all cfg evs s1 = Inr s'" by auto
  from waiting_inject [OF Cons.prems(3) _ _ s1(1)] Cons.prems(2) obtain ns' rs' where "waiting None [] ns' rs' s1"
    by (auto simp: hooks_ok_def)
  from Cons.IH [OF s1(2) Cons.prems(2) this] show ?case .
qed

section \<open>Environments\<close>

lemma inherit_from_nth:
  "inherit_from cur inh k n = Inr ps \<Longrightarrow> length ps = n \<and>
     (\<forall>j < n. bnd (env_entry cur (k + j)) (\<lambda>p. if p \<noteq> None then Inr p else env_entry inh (k + j)) = Inr (ps ! j))"
proof (induction n arbitrary: k ps)
  case (Suc n)
  from Suc.prems obtain c where c: "cur = Some c" by (auto split: option.splits)
  note s = Suc.prems [unfolded inherit_from.simps c option.case, folded env_entry_def]
  from s obtain p q qs where p: "at c k = Inr p" "(if p \<noteq> None then Inr p else env_entry inh k) = Inr q"
    "inherit_from (Some c) inh (k + 1) n = Inr qs" "ps = q # qs" by (auto simp only: bnd_eq_Inr sum.inject)
  note ih = Suc.IH [unfolded c, OF p(3)]
  have "bnd (env_entry (Some c) (k + j)) (\<lambda>p. if p \<noteq> None then Inr p else env_entry inh (k + j)) = Inr (ps ! j)"
    if "j < Suc n" for j
  proof (cases j)
    case 0
    with p show ?thesis by (cases p) (auto simp: env_entry_def)
  next
    case (Suc i)
    have kj: "k + 1 + i = k + Suc i" by simp
    have "bnd (env_entry (Some c) (k + 1 + i)) (\<lambda>p. if p \<noteq> None then Inr p else env_entry inh (k + 1 + i)) = Inr (qs ! i)"
      using ih that Suc by blast
    then show ?thesis unfolding kj by (simp only: p(4) Suc nth_Cons_Suc)
  qed
  with ih p(4) show ?case by (simp add: c del: bnd_eq_Inr)
qed simp

section \<open>Marking\<close>

definition belongs :: "nat \<Rightarrow> engine \<Rightarrow> wait_thread \<Rightarrow> bool" where
  "belongs r s x \<longleftrightarrow> (case insts_st s (t_inst x) of None \<Rightarrow> False | Some i \<Rightarrow> si_rule i = r)"

definition marked :: "nat \<Rightarrow> nat list \<Rightarrow> engine \<Rightarrow> nat \<Rightarrow> wait_thread option" where
  "marked r ts s = (\<lambda>t. map_option (\<lambda>x. if t \<in> set ts \<and> belongs r s x then x\<lparr>t_killed := True\<rparr> else x) (threads_st s t))"

lemma marked_Nil: "marked r [] s = threads_st s"
  by (simp add: marked_def fun_eq_iff option.map_ident)

lemma kill_threads_result: "kill_threads r ts s = Inr s' \<Longrightarrow> s' = s\<lparr>threads_st := marked r ts s\<rparr>"
proof (induction ts arbitrary: s)
  case Nil
  then show ?case by (simp add: marked_Nil)
next
  case (Cons t ts)
  from Cons.prems obtain x i s1 where x: "threads_st s t = Some x" "insts_st s (t_inst x) = Some i"
    and s1: "(if si_rule i = r then upd_thread t (\<lambda>x. x\<lparr>t_killed := True\<rparr>) s else Inr s) = Inr s1"
    and r: "kill_threads r ts s1 = Inr s'" by (auto simp: access_defs)
  from s1 x have s1': "s1 = s\<lparr>threads_st := (if si_rule i = r then (threads_st s)(t \<mapsto> x\<lparr>t_killed := True\<rparr>) else threads_st s)\<rparr>"
    by (auto simp: upd_thread_def access_defs split: if_splits)
  have "marked r ts s1 u = marked r (t # ts) s u" for u
    using x by (cases "u = t"; cases "threads_st s u") (auto simp: marked_def s1' belongs_def)
  then have "marked r ts s1 = marked r (t # ts) s" by blast
  with Cons.IH [OF r] s1' show ?case by simp
qed

lemma chain_cong:
  "(\<And>t. map_option nxt (st t) = map_option nxt (st' t)) \<Longrightarrow> chain n st nxt p = chain n st' nxt p"
proof (induction n arbitrary: p)
  case 0
  show ?case by (cases p) simp_all
next
  case (Suc n)
  then show ?case using Suc.prems [of "the p"] by (cases p; cases "st (the p)"; cases "st' (the p)") (auto simp: lookup_def)
qed

lemma kill_queue_result:
  assumes "kill_queue r p s = Inr s'"
  shows "\<exists>ts. chain (en_fresh s) (threads_st s) t_next p = Inr ts \<and> s' = s\<lparr>threads_st := marked r ts s\<rparr>"
  using assms by (auto simp: kill_queue_def dest: kill_threads_result)

lemma marked_next: "map_option t_next (marked r ts s t) = map_option t_next (threads_st s t)"
  by (cases "threads_st s t") (simp_all add: marked_def)

lemma marked_marked: "marked r us (s\<lparr>threads_st := marked r ts s\<rparr>) = marked r (ts @ us) s"
  by (auto simp: marked_def belongs_def fun_eq_iff map_option_case split: option.splits)

text \<open>The rule of one state, and an event of one field.\<close>

section \<open>Samples\<close>

definition tr_to :: "nat \<Rightarrow> transition_t" where
  "tr_to d = \<lparr>tr_dest = Some d, required_fields = [0], eval_code = Some [4, 0, 0], tr_id = 0, global_id = 0\<rparr>"

definition epsilon_to :: "nat \<Rightarrow> transition_t" where
  "epsilon_to d = \<lparr>tr_dest = Some d, required_fields = [], eval_code = None, tr_id = 1, global_id = 1\<rparr>"

definition st_with :: "nat \<Rightarrow> transition_t list \<Rightarrow> state_t" where
  "st_with i trs = \<lparr>st_name = None, st_line = 0, st_action = None, st_trans = trs, st_flags = 0, st_id = i\<rparr>"

definition rule_with :: "state_t list \<Rightarrow> rule_t" where
  "rule_with sts = \<lparr>rule_name = [], lineno = 0, rule_states = sts, rule_static_env = [],
     dynamic_env_sz = 0, var_name = [], sync_vars = None, rule_id = 0\<rparr>"

definition two_steps :: rule_t where
  "two_steps = rule_with [st_with 0 [tr_to 1], st_with 1 [tr_to 2], st_with 2 []]"

definition sample_cfg :: "rule_t list \<Rightarrow> engine_cfg" where
  "sample_cfg rs = \<lparr>cfg_rules = rs, cfg_statics = map (\<lambda>_. [Some 0]) rs,
     cfg_vm = \<lparr>static_env = [], field_vals = [], static_1_res_id = 0, static_0_res_id = 0, static_null_res_id = 0,
       static_param_error_res_id = 0, static_regex_error_res_id = 0, vm_func_tbl = [], regexec = (\<lambda>_ _. RegNoMatch)\<rparr>,
     cfg_time = 1, cfg_pre_hook = (\<lambda>_. Inr), cfg_post_hook = (\<lambda>_. Inr), cfg_fuel = Suc (Suc (Suc (Suc 0)))\<rparr>"

definition sample_vm :: ovm where
  "sample_vm = \<lparr>heap = [0 \<mapsto> \<lparr>vdata = VInt 1, vflags = TYPE_CONST\<rparr>, 1 \<mapsto> \<lparr>vdata = VInt 5, vflags = TYPE_MONO\<rparr>],
     fresh = 2, ovm_stack = new_stack 4 4, current_env = None, inherit_env = None\<rparr>"

definition sample_engine :: engine where
  "sample_engine = new_engine sample_vm [None] (\<lambda>_. \<lparr>htable = [], elmts = 0\<rparr>)"

lemmas engine_eval = inject_event_def create_rule_initial_threads_def initial_threads_of_def
  create_init_state_instance_def merge_queues_def evt_step_def pass_thread_def reap_thread_def leave_rule_instance_def
  retrig_thread_def commit_queues_def finish_event_def clear_fields_def backtrack_is_not_needed_def
  create_state_instance_def link_state_def mark_dead_rule_def kill_queue_def new_thread_def check_sync_def
  reap_dead_rule_def free_rule_instance_def free_instance_def release_event_def bump_new_tail_def when_some_def
  unlink_thread_in_state_instance_list_def state_of_def rule_at_def exec_in_def lookup_def
  thread_at_def inst_at_def rinst_at_def aevent_at_def upd_thread_def upd_inst_def upd_rinst_def upd_aevent_def

lemmas engine_sample_eval = tr_to_def epsilon_to_def st_with_def rule_with_def two_steps_def sample_cfg_def sample_vm_def
  sample_engine_def new_engine_def

lemmas vm_eval = ovm_exec_def ovm_insn_def ops_g_def OPCODE_NUM_def ovm_pushstatic_def operand_def pop_def push_def
  new_stack_def stack_push_def stack_pop_def ovm_flush.simps at_def data_of_def deref_def

lemma sample_hooks: "hooks_ok (sample_cfg rs)"
  by (simp add: hooks_ok_def hook_ok_def hook_quiet_def sample_cfg_def)

text \<open>An event after which the rule waits in its second state.\<close>

lemma sample_run: "\<exists>s'. inject_event (sample_cfg [two_steps]) [(0, Some 1)] sample_engine = Inr s' \<and> active_events s' = 1
   \<and> card (dom (threads_st s')) = 1"
  by (simp add: engine_eval engine_sample_eval vm_eval Let_def)

section \<open>Properties\<close>

text \<open>
  Claim C8.  The books of the engine are right after every sequence of events: the counters are
  the numbers of the threads, the state instances and the kept events; every state instance that
  refers to an event refers to one that is kept, the reference count of a kept event is the
  number of the state instances that refer to it, and no event is kept without a reference.
\<close>

theorem engine_keeps_count:
  assumes "hooks_ok cfg" and "inject_all cfg evs (new_engine m fs ls) = Inr s"
  shows "en_threads s = int (card (dom (threads_st s))) \<and> state_instances s = int (card (dom (insts_st s))) \<and>
    active_events s = int (card (dom (aevents_st s))) \<and>
    (\<forall>a i e. insts_st s a = Some i \<and> si_event i = Some e \<longrightarrow> e \<in> dom (aevents_st s)) \<and>
    (\<forall>e x. aevents_st s e = Some x \<longrightarrow> 0 < ae_refs x \<and>
       ae_refs x = int (card {a. \<exists>i. insts_st s a = Some i \<and> si_event i = Some e}))"
proof -
  note d = countsD [OF counts_run [OF assms(2,1) new_engine_counts]]
  have dom: "dom (event_of s) = dom (insts_st s)" "dom (refs_of s) = dom (aevents_st s)"
    by (auto simp: event_of_def refs_of_def)
  have ref: "referrers s e = {a. \<exists>i. insts_st s a = Some i \<and> si_event i = Some e}" for e
    by (auto simp: referrers_def event_of_def)
  show ?thesis
  proof (intro conjI allI impI)
    fix e x assume "aevents_st s e = Some x"
    then have r: "refs_of s e = Some (ae_refs x)" by (simp add: refs_of_def)
    from d(11) [OF r] show "0 < ae_refs x" by simp
    from d(10) [OF r] show "ae_refs x = int (card {a. \<exists>i. insts_st s a = Some i \<and> si_event i = Some e})"
      by (simp add: ref)
  next
    fix a i e assume "insts_st s a = Some i \<and> si_event i = Some e"
    then have "event_of s a = Some (Some e)" by (simp add: event_of_def)
    from d(12) [OF this] show "e \<in> dom (aevents_st s)" by (simp add: dom)
  qed (use d(7,8,9) in \<open>simp_all add: dom\<close>)
qed

theorem engine_keeps_count_witness:
  "\<exists>s'. inject_all (sample_cfg [two_steps]) [[(0, Some 1)]] sample_engine = Inr s' \<and> active_events s' = 1 \<and>
     card (dom (aevents_st s')) = 1"
proof -
  from sample_run obtain s' where s': "inject_all (sample_cfg [two_steps]) [[(0, Some 1)]] sample_engine = Inr s'"
    "active_events s' = 1" by auto
  from engine_keeps_count [OF sample_hooks s'(1) [unfolded sample_engine_def]] s' show ?thesis by auto
qed

text \<open>
  Claim C9.  No thread is lost and none is queued twice.  After every sequence of events, the
  queue of the new threads followed by the queue of the threads for the next event lists
  every thread block of the engine exactly once.
\<close>

theorem no_thread_is_lost:
  assumes "hooks_ok cfg" and "inject_all cfg evs (new_engine m fs ls) = Inr s"
  shows "\<exists>ns rs. chain (en_fresh s) (threads_st s) t_next (new_qh s) = Inr ns \<and>
    chain (en_fresh s) (threads_st s) t_next (retrig_qh s) = Inr rs \<and>
    distinct (ns @ rs) \<and> set (ns @ rs) = dom (threads_st s)"
proof -
  obtain ns rs where w: "waiting None [] ns rs s" using waiting_run [OF assms(2,1) new_engine_waiting] by blast
  note d = waitingD [OF w]
  have dom: "dom (nexts s) = dom (threads_st s)" by (auto simp: nexts_def)
  have len: "length (ns @ rs) \<le> en_fresh s" using waiting_length [OF w] by simp
  have "chain (en_fresh s) (threads_st s) t_next (new_qh s) = Inr ns"
    using d(3) len by (intro linked_chain) (simp_all add: is_queue_def)
  moreover have "chain (en_fresh s) (threads_st s) t_next (retrig_qh s) = Inr rs"
    using d(4) len by (intro linked_chain) (simp_all add: is_queue_def)
  ultimately show ?thesis using d(5,6) dom by auto
qed

theorem no_thread_is_lost_witness:
  "\<exists>s' ns rs. inject_all (sample_cfg [two_steps]) [[(0, Some 1)]] sample_engine = Inr s' \<and>
     card (dom (threads_st s')) = 1 \<and> length (ns @ rs) = 1 \<and> set (ns @ rs) = dom (threads_st s')"
proof -
  from sample_run obtain s' where s': "inject_all (sample_cfg [two_steps]) [[(0, Some 1)]] sample_engine = Inr s'"
    "card (dom (threads_st s')) = 1" by auto
  from no_thread_is_lost [OF sample_hooks s'(1) [unfolded sample_engine_def]]
  obtain ns rs where "distinct (ns @ rs)" "set (ns @ rs) = dom (threads_st s')" by blast
  with s' distinct_card [of "ns @ rs"] show ?thesis by fastforce
qed

text \<open>
  Claim C10.  The loop over an event is one turn for each thread: the queue of the current threads holds every thread
  block exactly once, and whatever the transitions do, the loop does what \<open>evt_step\<close> does for these threads, one after
  the other and once each; no thread that a turn creates or queues is looked at again in the same loop.  As many turns
  as there were threads are enough, and more fuel changes nothing.  What a turn itself does is \<open>evt_step\<close>: a state whose
  unconditional transitions go in circles still makes it return \<open>NoReturn\<close>.
\<close>

theorem event_loop_ends:
  assumes "hooks_ok cfg" and "inject_all cfg evs (new_engine m fs ls) = Inr s"
    and "create_rule_initial_threads cfg s = Inr s'"
  shows "\<exists>ts. chain (en_fresh s') (threads_st s') t_next (cur_retrig_qh s') = Inr ts \<and> distinct ts \<and>
    set ts = dom (threads_st s') \<and> length ts \<le> en_fresh s' \<and>
    (\<forall>n \<ge> length ts. evt_loop n cfg e (cur_retrig_qh s') s' = turns cfg e ts s')"
proof -
  obtain ns rs where w: "waiting None [] ns rs s" using waiting_run [OF assms(2,1) new_engine_waiting] by blast
  from assms(3) obtain s1 where s1: "initial_threads cfg 0 (cfg_rules cfg) s = Inr s1" "merge_queues s1 = Inr s'"
    by (auto simp: create_rule_initial_threads_def)
  from waiting_initial [OF s1(1) w] obtain ts where "waiting None [] (ns @ ts) rs s1" ..
  from waiting_merge [OF this s1(2)] have w': "waiting (cur_retrig_qh s') ((ns @ ts) @ rs) [] [] s'" .
  let ?ts = "(ns @ ts) @ rs"
  note d = waitingD [OF w']
  have len: "length ?ts \<le> en_fresh s'" using waiting_length [OF w'] by simp
  have "chain (en_fresh s') (threads_st s') t_next (cur_retrig_qh s') = Inr ?ts" using d(1) len by (rule linked_chain)
  moreover have "distinct ?ts" "set ?ts = dom (threads_st s')" using d(5,6) by (auto simp: nexts_def dom_map_option)
  moreover have "\<forall>n \<ge> length ?ts. evt_loop n cfg e (cur_retrig_qh s') s' = turns cfg e ?ts s'"
    using loop_turns [OF w'] by blast
  ultimately show ?thesis using len by blast
qed

theorem event_loop_ends_witness:
  "\<exists>s s' ts. inject_all (sample_cfg [two_steps]) [[(0, Some 1)]] sample_engine = Inr s \<and>
     create_rule_initial_threads (sample_cfg [two_steps]) s = Inr s' \<and> length ts = 2 \<and> distinct ts \<and>
     evt_loop 2 (sample_cfg [two_steps]) 0 (cur_retrig_qh s') s' = turns (sample_cfg [two_steps]) 0 ts s'"
proof -
  have "\<exists>s s'. inject_all (sample_cfg [two_steps]) [[(0, Some 1)]] sample_engine = Inr s \<and>
     create_rule_initial_threads (sample_cfg [two_steps]) s = Inr s' \<and> card (dom (threads_st s')) = 2"
    by (simp add: engine_eval engine_sample_eval vm_eval Let_def)
  then obtain s s' where s: "inject_all (sample_cfg [two_steps]) [[(0, Some 1)]] sample_engine = Inr s"
    "create_rule_initial_threads (sample_cfg [two_steps]) s = Inr s'" "card (dom (threads_st s')) = 2" by blast
  from event_loop_ends [OF sample_hooks s(1) [unfolded sample_engine_def] s(2), of 0] obtain ts where
    ts: "distinct ts" "set ts = dom (threads_st s')"
    "\<forall>n \<ge> length ts. evt_loop n (sample_cfg [two_steps]) 0 (cur_retrig_qh s') s' = turns (sample_cfg [two_steps]) 0 ts s'" by blast
  moreover have "length ts = 2" using s(3) ts(1,2) distinct_card [of ts] by simp
  ultimately show ?thesis using s(1,2) by (intro exI [of _ s] exI [of _ s'] exI [of _ ts]) simp
qed

text \<open>
  Claim C11.  A state instance sees the variables of its parent: right after it was created, every
  variable of the rule has in the child the value that it has in the parent, whether the parent
  bound it itself or inherited it; its own environment is empty, it belongs to the same rule
  instance, one level deeper, and is linked to nothing.  Besides the new block, only the counter of the state
  instances and the allocator change: threads, queues, rule instances, the machine and all other state instances stay.
\<close>

theorem child_inherits:
  assumes "create_state_instance cfg d p s = Inr (b, s')" and "inst_at p s = Inr i" and "rule_at cfg (si_rule i) s = Inr r"
  shows "\<exists>j. b = en_fresh s \<and> s' = s\<lparr>en_fresh := Suc b, state_instances := state_instances s + 1, insts_st := (insts_st s)(b \<mapsto> j)\<rparr> \<and>
    (\<forall>v < nat (dynamic_env_sz r). env_value j v = env_value i v \<and> env_entry (si_current j) v = Inr None) \<and>
    si_rule j = si_rule i \<and> si_depth j = si_depth i + 1 \<and> si_state j = d \<and>
    si_parent j = None \<and> si_first_child j = None \<and> si_next_sibling j = None \<and> si_event j = None \<and> si_threads j = None"
proof -
  let ?n = "nat (dynamic_env_sz r)"
  note c = assms(1) [unfolded create_state_instance_def Let_def assms(2,3) bnd_Inr]
  from c obtain inh where inh: "inherit_from (si_current i) (si_inherit i) 0 ?n = Inr inh" by auto
  note c1 = c [unfolded inh bnd_Inr]
  from inherit_from_nth [OF inh, unfolded add_0]
  have len: "length inh = ?n" and vals: "v < ?n \<Longrightarrow> env_value i v = Inr (inh ! v)" for v
    by (simp_all add: env_value_def del: bnd_eq_Inr)
  let ?j = "\<lparr>si_state = d, si_rule = si_rule i, si_first_child = None, si_next_sibling = None,
          si_parent = None, si_event = None, si_inherit = (if ?n = 0 then None else Some inh),
          si_current = (if ?n = 0 then None else Some (replicate ?n None)),
          si_retrig_next = None, si_depth = si_depth i + 1, si_threads = None\<rparr>"
  from c1 have s': "b = en_fresh s" "s' = s\<lparr>en_fresh := Suc (en_fresh s), state_instances := state_instances s + 1,
      insts_st := (insts_st s)(en_fresh s \<mapsto> ?j)\<rparr>" by auto
  have "env_value ?j v = env_value i v \<and> env_entry (si_current ?j) v = Inr None" if "v < ?n" for v
    using that len vals [OF that] by (auto simp: env_value_def env_entry_def)
  with s' show ?thesis by (intro exI [of _ ?j]) simp
qed

definition one_var_rule :: rule_t where
  "one_var_rule = (rule_with [st_with 0 [tr_to 1], st_with 1 []])\<lparr>dynamic_env_sz := 1\<rparr>"

definition parent_engine :: engine where
  "parent_engine = sample_engine\<lparr>en_fresh := 2,
     insts_st := [0 \<mapsto> \<lparr>si_state = 0, si_rule = 1, si_first_child = None, si_next_sibling = None, si_parent = None,
       si_event = None, si_inherit = Some [Some 7], si_current = Some [None], si_retrig_next = None, si_depth = 0,
       si_threads = None\<rparr>],
     rinsts_st := [1 \<mapsto> \<lparr>ri_rule = 0, ri_first_state = 0, ri_next = None, ri_state_list = None, ri_threads = 0,
       ri_killed = False, ri_inuse = False, ri_created = 0, ri_locks = []\<rparr>]\<rparr>"

theorem child_inherits_witness:
  "\<exists>b s' j. create_state_instance (sample_cfg [one_var_rule]) 1 0 parent_engine = Inr (b, s') \<and>
     insts_st s' b = Some j \<and> env_value j 0 = Inr (Some 7)"
proof -
  let ?i = "the (insts_st parent_engine 0)"
  have "\<exists>b s'. create_state_instance (sample_cfg [one_var_rule]) 1 0 parent_engine = Inr (b, s')"
    by (simp add: engine_eval engine_sample_eval parent_engine_def one_var_rule_def Let_def numeral_eq_Suc)
  then obtain b s' where b: "create_state_instance (sample_cfg [one_var_rule]) 1 0 parent_engine = Inr (b, s')" by blast
  have i: "inst_at 0 parent_engine = Inr ?i" "rule_at (sample_cfg [one_var_rule]) (si_rule ?i) parent_engine = Inr one_var_rule"
    "0 < nat (dynamic_env_sz one_var_rule)" "env_value ?i 0 = Inr (Some 7)"
    by (simp_all add: parent_engine_def inst_at_def rule_at_def rinst_at_def sample_cfg_def one_var_rule_def
        env_value_def env_entry_def)
  from child_inherits [OF b i(1,2)] obtain j where "s' = parent_engine\<lparr>en_fresh := Suc b,
      state_instances := state_instances parent_engine + 1, insts_st := (insts_st parent_engine)(b \<mapsto> j)\<rparr>"
    "env_value j 0 = env_value ?i 0" using i(3) by blast
  with b i(4) show ?thesis by (intro exI [of _ b] exI [of _ s'] exI [of _ j]) simp
qed



text \<open>
  Claim C13.  A rule whose first state has a transition that waits for an event, followed by an
  unconditional transition to a terminal state, uses a state after it was released.  The
  simulation of the first state gives a negative number, the rule instance and its states are
  freed, but the waiting thread stays in the queue; the loop over the same event executes its
  test in the state that is gone.
\<close>

theorem pruned_rule_used_after_free:
  assumes rule: "cfg_rules cfg = [r]" "rule_states r = st # sts" "st_action st = None" "st_trans st = b # e # trs"
      "sync_vars r = None" "dynamic_env_sz r \<le> 0"
    and wait: "required_fields b \<noteq> []" "eval_code b = Some code"
    and epsilon: "required_fields e = []" "eval_code e = None" "tr_dest e = Some d"
    and terminal: "d < length (rule_states r)" "st_action (rule_states r ! d) = None" "st_trans (rule_states r ! d) = []"
    and fuel: "cfg_fuel cfg = Suc (Suc (Suc n))"
    and hook: "cfg_pre_hook cfg ev = Inr" and fields: "set_fields ev (global_fields s) = Inr fs"
    and idle: "cur_retrig_qh s = None" "retrig_qh s = None" "current_tail s = None" "new_qh s = None" "new_qt s = None"
  shows "inject_event cfg ev s = Inl DeadAccess"
  using assms by (simp add: engine_eval Let_def at_def)

definition pruned_rule :: rule_t where
  "pruned_rule = rule_with [st_with 0 [tr_to 1, epsilon_to 1], st_with 1 []]"

theorem pruned_rule_used_after_free_witness:
  "inject_event (sample_cfg [pruned_rule]) [(0, Some 1)] sample_engine = Inl DeadAccess"
  by (rule pruned_rule_used_after_free [of _ pruned_rule "st_with 0 [tr_to 1, epsilon_to 1]" _ "tr_to 1" "epsilon_to 1" "[]"
        "[4, 0, 0]" 1 1])
    (simp_all add: engine_sample_eval pruned_rule_def)

end
