(* ===== verification/Syslog_Laws.thy ===== *)
theory Syslog_Laws
  imports Syslog Engine_Laws
begin

text \<open>
  What the dissector of syslog lines guarantees: it stays inside the block of the line, it finds the
  fields of a line that is written in the usual format, and every line reaches the engine once.
\<close>

section \<open>Inside the line\<close>

lemma cint_range: "- (2 ^ 31) \<le> sint (x :: cint)" "sint x < 2 ^ 31"
  using sint_ge [of x] sint_lt [of x] by simp_all

lemma as_size_pos: "0 \<le> sint len \<Longrightarrow> int (as_size len) = sint len"
proof -
  assume a: "0 \<le> sint len"
  have "(scast len :: culong) = word_of_int (sint len)" by (rule scast_eq)
  then have "uint (scast len :: culong) = take_bit 64 (sint len)" by (simp only: uint_word_of_int_eq) simp
  also have "\<dots> = sint len" using a cint_range(2) [of len] by (intro take_bit_int_eq_self) simp_all
  finally show ?thesis by (simp only: as_size_def uint_nat)
qed

lemma sint_sub_nat:
  assumes "0 \<le> sint (len :: cint)" "int n \<le> 2 ^ 31 + sint len"
  shows "sint (len - of_nat n) = sint len - int n"
proof -
  have r: "- (2 ^ 31) \<le> sint len - int n" "sint len - int n < 2 ^ 31"
    using assms cint_range(2) [of len] by simp_all
  have "len - of_nat n = (word_of_int (sint len - int n) :: cint)" by simp
  then have "sint (len - of_nat n) = signed_take_bit 31 (sint len - int n)" by (simp only: sint_sbintrunc') simp
  with r show ?thesis by (simp only: signed_take_bit_int_eq_self)
qed

text \<open>As long as there is text left, a terminator follows it.\<close>

definition fits :: "byte list \<times> cint \<Rightarrow> bool" where
  "fits p \<longleftrightarrow> (0 < sint (snd p) \<longrightarrow> (\<exists>us zs. fst p = us @ 0 # zs \<and> int (length us) = sint (snd p)))"

lemma fits_skip:
  assumes "fits p" "0 < sint (snd p)" "int n \<le> 2 ^ 31 + sint (snd p)"
  shows "fits (skip n p)"
proof -
  from assms obtain us zs where us: "fst p = us @ 0 # zs" "int (length us) = sint (snd p)" by (auto simp: fits_def)
  have n: "sint (snd (skip n p)) = sint (snd p) - int n"
    using sint_sub_nat [of "snd p" n] assms(2,3) by (simp add: skip_def)
  show ?thesis
  proof (cases "n \<le> length us")
    case True
    then have "fst (skip n p) = drop n us @ 0 # zs" "int (length (drop n us)) = sint (snd (skip n p))"
      using us n by (auto simp: skip_def)
    then show ?thesis by (auto simp: fits_def)
  next
    case False
    then show ?thesis using us by (auto simp: fits_def n)
  qed
qed

lemma memcmp_in_bounds: "0 \<notin> set lit \<Longrightarrow> 0 \<in> set bs \<Longrightarrow> \<exists>c. memcmp lit bs = Inr c"
proof (induction lit arbitrary: bs)
  case (Cons x lit)
  then show ?case by (cases bs) auto
qed simp

lemma memcmp_prefix: "memcmp lit (lit @ rest) = Inr 0"
  by (induction lit) auto

lemma starts_with_in_bounds: "0 \<notin> set lit \<Longrightarrow> 0 \<in> set bs \<Longrightarrow> \<exists>b. starts_with lit bs = Inr b"
  using memcmp_in_bounds [of lit bs] by (auto simp: starts_with_def)

text \<open>What holds where there is text left.\<close>

lemma fits_text:
  assumes "fits p" "0 < sint (snd p)"
  obtains us zs where "fst p = us @ 0 # zs" "length us = as_size (snd p)" "us \<noteq> []" "0 \<in> set (fst p)"
    "length us < 2 ^ 31"
proof -
  from assms obtain us zs where us: "fst p = us @ 0 # zs" "int (length us) = sint (snd p)" by (auto simp: fits_def)
  moreover have "length us = as_size (snd p)" using as_size_pos [of "snd p"] us(2) assms(2) by linarith
  moreover have "us \<noteq> []" using us(2) assms(2) by auto
  moreover have "int (length us) < 2 ^ 31" using us(2) cint_range(2) [of "snd p"] by linarith
  then have "length us < 2 ^ 31" by simp
  ultimately show ?thesis using that by auto
qed

lemma read_host_in_bounds:
  assumes "fits p" "0 < sint (snd p)"
  shows "\<exists>r. read_host p = Inr r \<and> (\<forall>h q. r = Some (h, q) \<longrightarrow> fits q \<and> 0 < sint (snd q))"
proof -
  from fits_text [OF assms] obtain us zs where us: "fst p = us @ 0 # zs" "length us = as_size (snd p)" "length us < 2 ^ 31"
    by metis
  from my_strspn_in_bounds [of "as_size (snd p)" "fst p" "chars '' [:''"] us obtain sz where
    sz: "my_strspn (fst p) (chars '' [:'') (as_size (snd p)) = Inr sz" "sz \<le> length us" by auto
  have c: "at (fst p) sz = Inr (fst p ! sz)" using us sz by simp
  show ?thesis
  proof (cases "fst p ! sz = 32")
    case True
    with us sz have "sz < length us" by (cases "sz = length us") (auto simp: nth_append)
    then have d: "at (fst p) (sz + 1) = Inr (fst p ! (sz + 1))" using us(1) by simp
    have "fits (skip (sz + 1) p)" using fits_skip [OF assms, of "sz + 1"] us(3) sz(2) assms(2) by simp
    then show ?thesis using sz(1) c d True assms by (auto simp: read_host_def word_sless_alt word_sle_eq not_le)
  next
    case False
    with sz(1) c assms show ?thesis by (cases p) (simp add: read_host_def)
  qed
qed

lemma zero_in_skip: "fits p \<Longrightarrow> 0 < sint (snd p) \<Longrightarrow> n \<le> as_size (snd p) \<Longrightarrow> 0 \<in> set (drop n (fst p))"
  by (rule fits_text) auto

lemma memcmp_zero_prefix: "memcmp lit bs = Inr 0 \<Longrightarrow> \<exists>rest. bs = lit @ rest"
proof (induction lit arbitrary: bs)
  case (Cons x lit)
  show ?case
  proof (cases bs)
    case Nil
    with Cons.prems show ?thesis by simp
  next
    case bs: (Cons y ys)
    have "x = y" using Cons.prems bs by (auto split: if_splits simp: word_uint_eq_iff)
    with Cons.prems Cons.IH [of ys] bs show ?thesis by auto
  qed
qed simp

lemma chars_no_zero: "list_all (\<lambda>c. c \<noteq> 0) (chars s) \<Longrightarrow> 0 \<notin> set (chars s)"
  by (auto simp: list_all_iff)

definition last_message :: "byte list" where "last_message = chars ''last message repeated ''"

lemma last_message_facts: "0 \<notin> set last_message" "length last_message = 22"
  by code_simp+

lemma gconfd_facts: "0 \<notin> set (chars ''gconfd'')" "0 \<notin> set (chars '']: '')"
  by code_simp+

lemma read_repeat_in_bounds:
  assumes "fits p" "0 < sint (snd p)"
  shows "\<exists>r. read_repeat p = Inr r"
proof -
  from fits_text [OF assms] obtain us zs where us: "fst p = us @ 0 # zs" "length us = as_size (snd p)" "0 \<in> set (fst p)"
    by metis
  obtain c where c: "memcmp last_message (fst p) = Inr c"
    using memcmp_in_bounds [OF last_message_facts(1) us(3)] by blast
  show ?thesis
  proof (cases "c = 0")
    case True
    from memcmp_zero_prefix c True obtain rest where rest: "fst p = last_message @ rest" by blast
    with us(3) last_message_facts(1) obtain vs ws where "rest = vs @ 0 # ws" by (auto simp: in_set_conv_decomp)
    with rest last_message_facts(2) have "fst (skip 22 p) = vs @ 0 # ws" by (simp add: skip_def)
    with get_next_int_in_bounds [of vs ws] obtain k i where
      i: "get_next_int (fst (skip 22 p)) (as_size (snd (skip 22 p))) = Inr (k, i)" by metis
    from my_strspn_in_bounds [of "as_size (snd p)" "fst p" "[13, 10]"] us obtain sz where
      "my_strspn (fst p) [13, 10] (as_size (snd p)) = Inr sz" by auto
    with c True i show ?thesis by (simp add: read_repeat_def starts_with_def last_message_def)
  next
    case False
    with c show ?thesis by (simp add: read_repeat_def starts_with_def last_message_def)
  qed
qed

lemma read_prog_in_bounds:
  assumes "fits p" "0 < sint (snd p)"
  shows "\<exists>r. read_prog p = Inr r \<and> (\<forall>g q. r = Some (g, q) \<longrightarrow> fits q \<and> 0 < sint (snd q))"
proof -
  from fits_text [OF assms] obtain us zs where us: "fst p = us @ 0 # zs" "length us = as_size (snd p)" "0 \<in> set (fst p)"
    "length us < 2 ^ 31" by metis
  from my_strspn_in_bounds [of "as_size (snd p)" "fst p" "chars ''[:''"] us obtain sz where
    sz: "my_strspn (fst p) (chars ''[:'') (as_size (snd p)) = Inr sz" "sz \<le> length us" by auto
  obtain g where "starts_with (chars ''gconfd'') (fst p) = Inr g"
    using starts_with_in_bounds [OF gconfd_facts(1) us(3)] by blast
  moreover have "fits (skip sz p)" using fits_skip [OF assms, of sz] us(4) sz(2) assms(2) by simp
  ultimately show ?thesis using sz(1) by (auto simp: read_prog_def word_sle_eq not_le)
qed

lemma read_pid_in_bounds:
  assumes "fits p" "0 < sint (snd p)"
  shows "\<exists>r. read_pid p = Inr r \<and> (\<forall>g q. r = Some (g, q) \<longrightarrow> fits q \<and> 0 < sint (snd q))"
proof -
  from fits_text [OF assms] obtain us zs where us: "fst p = us @ 0 # zs" "length us = as_size (snd p)" "us \<noteq> []"
    "length us < 2 ^ 31" by metis
  then obtain u vs where vs: "us = u # vs" by (cases us) auto
  with us(1) have d: "drop 1 (fst p) = vs @ 0 # zs" "at (fst p) 0 = Inr u" by (simp_all add: at_def)
  obtain k i where k: "get_next_int (vs @ 0 # zs) (as_size (snd p)) = Inr (k, i)" "k \<le> length vs"
    using get_next_int_in_bounds by blast
  have z: "0 \<in> set (drop (k + 1) (fst p))" using us(1) vs k(2) by simp
  obtain b where b: "starts_with (chars '']: '') (drop (k + 1) (fst p)) = Inr b"
    using starts_with_in_bounds [OF gconfd_facts(2) z] by blast
  have "int (length us) = sint (snd p)" using us(2) as_size_pos [of "snd p"] assms(2) by simp
  then have "fits (skip (k + 4) p)" "fits (skip 2 p)"
    using fits_skip [OF assms, of "k + 4"] fits_skip [OF assms, of 2] k(2) vs assms(2) by auto
  moreover obtain pid q where q: "(pid, q) = (if u = 91 then (Some (int_var i), skip (k + 4) p) else if u = 58 then (None, skip 2 p) else (None, p))"
    by (cases "u = 91"; cases "u = 58") auto
  ultimately have "fits q" using assms(1) by (auto split: if_splits)
  moreover have "read_pid p = (if snd q \<le>s 0 then Inr None else Inr (Some (pid, q)))"
    using d k(1) b q by (cases "u = 91"; cases "u = 58") (simp_all add: read_pid_def case_prod_beta del: bnd_eq_Inr)
  ultimately show ?thesis by (cases q) (auto simp: word_sle_eq not_le)
qed

lemma read_msg_in_bounds: "fits p \<Longrightarrow> 0 < sint (snd p) \<Longrightarrow> \<exists>r. read_msg p = Inr r"
proof -
  assume "fits p" "0 < sint (snd p)"
  then have "as_size (snd p) \<le> length (fst p)" by (rule fits_text) simp
  from my_strspn_in_bounds [OF this] show ?thesis by (metis bnd_Inr read_msg_def)
qed

lemma ok_in_bounds:
  "\<exists>r. m = Inr r \<and> (\<forall>g q. r = Some (g, q) \<longrightarrow> P q) \<Longrightarrow> (\<And>g q. P q \<Longrightarrow> \<exists>r. f (g, q) = Inr r) \<Longrightarrow> \<exists>r. ok m f = Inr r"
  by (force simp: ok_def split: option.split)

lemma syslog_tail_in_bounds:
  assumes "fits p"
  shows "\<exists>r. syslog_tail attr p = Inr r"
proof (cases "snd p \<le>s 0")
  case False
  then have pos: "0 < sint (snd p)" by (simp add: word_sle_eq)
  have pid: "\<exists>r. ok (read_pid q) (\<lambda>(pid, p). bnd (read_msg p) (\<lambda>msg. Inr (Some (f pid msg)))) = Inr r"
    if "fits q \<and> 0 < sint (snd q)" for q and f :: "ovm_var option \<Rightarrow> ovm_var \<Rightarrow> ovm_var option list"
    by (rule ok_in_bounds [OF read_pid_in_bounds]) (use that read_msg_in_bounds in auto)
  have prog: "\<exists>r. ok (read_prog q) (\<lambda>(prog, p). ok (read_pid p) (\<lambda>(pid, p). bnd (read_msg p) (\<lambda>msg.
      Inr (Some (f prog pid msg))))) = Inr r"
    if "fits q \<and> 0 < sint (snd q)" for q and f :: "ovm_var \<Rightarrow> ovm_var option \<Rightarrow> ovm_var \<Rightarrow> ovm_var option list"
    by (rule ok_in_bounds [OF read_prog_in_bounds]) (use that pid in auto)
  have "\<exists>r. bnd (read_repeat q) (\<lambda>r. case r of
      Some (msg, count, prog) \<Rightarrow> Inr (Some (attr @ [h, Some count, None, Some prog, Some msg]))
    | None \<Rightarrow> ok (read_prog q) (\<lambda>(prog, p). ok (read_pid p) (\<lambda>(pid, p). bnd (read_msg p) (\<lambda>msg.
        Inr (Some (attr @ [h, None, pid, Some prog, Some msg])))))) = Inr r"
    if q: "fits q \<and> 0 < sint (snd q)" for h q
  proof -
    from read_repeat_in_bounds q obtain r where r: "read_repeat q = Inr r" by blast
    show ?thesis
    proof (cases r)
      case None
      with r prog [OF q, of "\<lambda>prog pid msg. attr @ [h, None, pid, Some prog, Some msg]"] show ?thesis by simp
    next
      case (Some x)
      with r show ?thesis by (cases x) simp
    qed
  qed
  then have "\<exists>r. ok (read_host p) (\<lambda>(host, p). bnd (read_repeat p) (\<lambda>r. case r of
      Some (msg, count, prog) \<Rightarrow> Inr (Some (attr @ [host, Some count, None, Some prog, Some msg]))
    | None \<Rightarrow> ok (read_prog p) (\<lambda>(prog, p). ok (read_pid p) (\<lambda>(pid, p). bnd (read_msg p) (\<lambda>msg.
        Inr (Some (attr @ [host, None, pid, Some prog, Some msg]))))))) = Inr r"
    by (intro ok_in_bounds [OF read_host_in_bounds [OF assms pos]]) simp
  with False show ?thesis by (simp add: syslog_tail_def)
qed (simp add: syslog_tail_def)

lemma ex_Inr_if: "(\<exists>m. (if b then x else y) = Inr m) \<longleftrightarrow> (if b then \<exists>m. x = Inr m else \<exists>m. y = Inr m)"
  by simp

lemma syslog_getdate_in_bounds: "14 < length d \<Longrightarrow> \<exists>b t'. syslog_getdate d t = Inr (b, t')"
proof -
  assume len: "14 < length d"
  then have "at d 0 = Inr (d ! 0)" "at d 1 = Inr (d ! 1)" "at d 2 = Inr (d ! 2)" by (auto simp: at_def)
  then have "\<exists>m. syslog_month d = Inr m" by (simp add: syslog_month_def ex_Inr_if del: bnd_eq_Inr)
  then obtain m where m: "syslog_month d = Inr m" by blast
  have "\<exists>day. syslog_day d = Inr day" using len by (cases "d ! 4 = 32") (simp_all add: syslog_day_def digit_at_def del: bnd_eq_Inr)
  then obtain day where "syslog_day d = Inr day" by blast
  moreover have "two_digits d i = Inr ((sint (d ! i) - 48) * 10 + (sint (d ! (i + 1)) - 48))" if "i + 1 \<le> 14" for i
    using len that by (simp add: two_digits_def digit_at_def)
  ultimately show ?thesis using m by (cases m) (auto simp: syslog_getdate_def Let_def)
qed

lemma read_time_in_bounds:
  assumes "fits p"
  shows "\<exists>t' r. read_time mktime t p = Inr (t', r) \<and> (\<forall>time q. r = Some (time, q) \<longrightarrow> fits q)"
proof (cases "15 <s snd p")
  case True
  then have pos: "15 < sint (snd p)" by (simp add: word_sless_alt)
  then have "int (as_size (snd p)) = sint (snd p)" by (intro as_size_pos) simp
  moreover obtain us zs where us: "fst p = us @ 0 # zs" "length us = as_size (snd p)"
    using fits_text [OF assms] pos by (metis less_trans zero_less_numeral)
  ultimately have len: "15 < length (fst p)" using pos by simp
  then have "\<exists>here. date_is_here p = Inr here" using True by (auto simp: date_is_here_def ex_Inr_if simp del: bnd_eq_Inr)
  then obtain here where here: "date_is_here p = Inr here" by blast
  obtain b t' where d: "syslog_getdate (fst p) t = Inr (b, t')"
    using syslog_getdate_in_bounds [of "fst p" t] len by auto
  have "fits (skip 16 p)" using fits_skip [OF assms, of 16] pos by simp
  with here d assms show ?thesis
    by (cases p; cases "mktime t'") (auto simp: read_time_def split: if_splits)
next
  case False
  with assms show ?thesis by (cases p) (simp add: read_time_def date_is_here_def)
qed

text \<open>The number behind \<open><\<close> is read as a \<open>long\<close>; a number that is too large comes out negative.\<close>

definition negative_priority :: "byte list \<times> cint \<Rightarrow> bool" where
  "negative_priority p = (case fst p of [] \<Rightarrow> False | b # bs \<Rightarrow> b = 60 \<and>
     (case get_next_int bs (as_size (snd p)) of Inl _ \<Rightarrow> False | Inr (k, i) \<Rightarrow> sint i < 0))"

lemma sint_of_length: "n < 2 ^ 31 \<Longrightarrow> sint (of_nat n :: cint) = int n"
proof -
  assume "n < 2 ^ 31"
  then have "int n < 2 ^ 31" by simp
  moreover have "sint (of_nat n :: cint) = signed_take_bit 31 (int n)"
    using sint_sbintrunc' [of "int n", where 'a = 32] by simp
  ultimately show ?thesis by (simp add: signed_take_bit_int_eq_self)
qed

lemma fits_line: "length s < 2 ^ 31 \<Longrightarrow> fits (s @ 0 # zs, of_nat (length s))"
  by (auto simp: fits_def sint_of_length)

lemma table_lengths: "length syslog_facility_g = 24" "length syslog_severity_g = 8"
  by (simp_all add: syslog_facility_g_def syslog_severity_g_def)

lemma read_priority_in_bounds:
  assumes "length s < 2 ^ 31" and p: "p = (s @ 0 # zs, of_nat (length s))"
  shows "if negative_priority p then read_priority p = Inl OutOfBounds
     else \<exists>r. read_priority p = Inr r \<and> (\<forall>f sv q. r = Some (f, sv, q) \<longrightarrow> fits q)"
proof (cases "s \<noteq> [] \<and> hd s = 60")
  case True
  then obtain vs where vs: "s = 60 # vs" by (cases s) auto
  obtain k i where k: "get_next_int (vs @ 0 # zs) (as_size (snd p)) = Inr (k, i)" "k \<le> length vs"
    using get_next_int_in_bounds by blast
  have "sint (snd p) = int (length s)" using sint_of_length [OF assms(1)] by (simp only: p snd_conv)
  moreover from this have "0 < sint (snd p)" by (simp add: vs)
  moreover have "int (k + 2) \<le> 2 ^ 31 + int (length s)" using k(2) vs assms(1) by simp
  ultimately have f: "fits (skip (k + 2) p)" using fits_skip fits_line [OF assms(1), of zs] by (simp only: p)
  have neg: "negative_priority p \<longleftrightarrow> sint i < 0" using k by (simp add: negative_priority_def p vs)
  have step: "read_priority p = (if 191 <s i then Inr None else
     bnd (at_int syslog_facility_g (sint i div 8)) (\<lambda>fac. bnd (at_int syslog_severity_g (sint i mod 8)) (\<lambda>sev.
     Inr (Some (Some (vstr fac), Some (vstr sev), skip (k + 2) p)))))"
    using k(1) by (simp add: read_priority_def p vs del: bnd_eq_Inr)
  show ?thesis
  proof (cases "sint i < 0")
    case True
    then show ?thesis using neg by (simp add: step at_int_def word_sless_alt)
  next
    case False
    show ?thesis
    proof (cases "191 <s i")
      case False
      then have "sint i \<le> 191" by (simp add: word_sless_alt)
      then have "nat (sint i div 8) < 24" "nat (sint i mod 8) < 8" "0 \<le> sint i mod 8" by (simp_all add: nat_less_iff)
      with \<open>\<not> sint i < 0\<close> neg f False show ?thesis
        by (auto simp: step at_int_def table_lengths pos_imp_zdiv_neg_iff)
    qed (use neg \<open>\<not> sint i < 0\<close> step in simp)
  qed
next
  case False
  have h: "at (fst p) 0 = Inr (hd (s @ [0]))" by (cases s) (simp_all add: p at_def)
  have "\<not> negative_priority p" "hd (s @ [0]) \<noteq> 60" using False by (cases s; simp add: negative_priority_def p)+
  with h fits_line [OF assms(1), of zs] show ?thesis by (simp add: read_priority_def p)
qed

text \<open>Claim C27 (bounds).  The dissector reads a line, given with its terminator, without a fault of any
  kind, whatever the line is, but for one exception: a line that begins with \<open><\<close> and a number that
  does not fit into a \<open>long\<close> and comes out negative is used as an index before the table of facilities.\<close>

theorem syslog_stays_inside:
  assumes "length s < 2 ^ 31" and "0 < z"
  shows "(\<exists>r. syslog_attrs mktime t (s @ replicate z 0, of_nat (length s)) = Inr r) \<longleftrightarrow>
    \<not> negative_priority (s @ replicate z 0, of_nat (length s))"
proof -
  obtain zs where zs: "replicate z (0 :: byte) = 0 # zs" using assms(2) by (cases z) auto
  let ?p = "(s @ 0 # zs, of_nat (length s) :: cint)"
  note pri = read_priority_in_bounds [OF assms(1) refl, of zs]
  have "\<exists>r. syslog_attrs mktime t ?p = Inr r" if "\<not> negative_priority ?p"
  proof -
    from pri that obtain r where r: "read_priority ?p = Inr r" "\<And>f sv q. r = Some (f, sv, q) \<Longrightarrow> fits q"
      by auto
    show ?thesis
    proof (cases r)
      case None
      with r show ?thesis by (simp add: syslog_attrs_def)
    next
      case (Some x)
      then obtain f sv q where q: "r = Some (f, sv, q)" by (cases x) auto
      from read_time_in_bounds [OF r(2) [OF q], of mktime t] obtain t' r2 where
        r2: "read_time mktime t q = Inr (t', r2)" "\<And>time q'. r2 = Some (time, q') \<Longrightarrow> fits q'" by blast
      show ?thesis
      proof (cases r2)
        case None
        with r(1) q r2(1) show ?thesis by (simp add: syslog_attrs_def)
      next
        case (Some y)
        then obtain time q' where q': "r2 = Some (time, q')" by (cases y) auto
        from syslog_tail_in_bounds [OF r2(2) [OF q']] obtain a where "syslog_tail [f, sv, time] q' = Inr a" by blast
        with r(1) q r2(1) q' show ?thesis by (simp add: syslog_attrs_def)
      qed
    qed
  qed
  moreover have "syslog_attrs mktime t ?p = Inl OutOfBounds" if "negative_priority ?p"
    using pri that by (simp add: syslog_attrs_def)
  ultimately show ?thesis unfolding zs by auto
qed

section \<open>A line in the usual format\<close>

record log_line =
  ll_priority :: "nat option"
  ll_mon :: nat
  ll_day :: nat
  ll_hour :: nat
  ll_min :: nat
  ll_sec :: nat
  ll_host :: "byte list"
  ll_prog :: "byte list"
  ll_pid :: "nat option"
  ll_msg :: "byte list"

definition month_names :: "byte list list" where
  "month_names = map chars [''Jan'', ''Feb'', ''Mar'', ''Apr'', ''May'', ''Jun'', ''Jul'', ''Aug'', ''Sep'', ''Oct'', ''Nov'', ''Dec'']"

definition d2 :: "nat \<Rightarrow> byte list" where
  "d2 n = [of_nat (48 + n div 10), of_nat (48 + n mod 10)]"

definition write_day :: "nat \<Rightarrow> byte list" where
  "write_day n = (if n < 10 then [32, of_nat (48 + n)] else d2 n)"

definition write_date :: "log_line \<Rightarrow> byte list" where
  "write_date l = month_names ! ll_mon l @ 32 # write_day (ll_day l) @ 32 # d2 (ll_hour l) @ 58 # d2 (ll_min l) @ 58 # d2 (ll_sec l)"

definition write_priority :: "nat option \<Rightarrow> byte list" where
  "write_priority n = (case n of None \<Rightarrow> [] | Some n \<Rightarrow> 60 # dec_digits n @ [62])"

definition write_pid :: "nat option \<Rightarrow> byte list" where
  "write_pid n = (case n of None \<Rightarrow> [58, 32] | Some n \<Rightarrow> 91 # dec_digits n @ [93, 58, 32])"

definition write_line :: "log_line \<Rightarrow> byte list" where
  "write_line l = write_priority (ll_priority l) @ write_date l @ 32 # ll_host l @ 32 # ll_prog l @
     write_pid (ll_pid l) @ ll_msg l"

definition good_line :: "log_line \<Rightarrow> bool" where
  "good_line l \<longleftrightarrow> (case ll_priority l of None \<Rightarrow> True | Some n \<Rightarrow> n \<le> 191) \<and> ll_mon l < 12 \<and> ll_day l < 100 \<and>
     ll_hour l < 100 \<and> ll_min l < 100 \<and> ll_sec l < 100 \<and> set (ll_host l) \<inter> {32, 91, 58} = {} \<and>
     ll_prog l \<noteq> [] \<and> hd (ll_prog l) \<noteq> 40 \<and> set (ll_prog l) \<inter> {32, 91, 58} = {} \<and>
     take 6 (ll_prog l) \<noteq> chars ''gconfd'' \<and> ll_msg l \<noteq> [] \<and> set (ll_msg l) \<inter> {13, 10} = {} \<and>
     length (write_line l) < 2 ^ 31"

text \<open>A text with the terminator behind it, and what is left of it.\<close>

definition whole :: "byte list \<Rightarrow> byte list \<Rightarrow> byte list \<times> cint" where
  "whole us zs = (us @ 0 # zs, of_nat (length us))"

lemma whole_simps [simp]: "fst (whole us zs) = us @ 0 # zs" "snd (whole us zs) = of_nat (length us)"
  by (simp_all add: whole_def)

lemma skip_whole: "n \<le> length us \<Longrightarrow> skip n (whole us zs) = whole (drop n us) zs"
  by (simp add: skip_def whole_def of_nat_diff)

lemma skip_front: "skip (length us) (whole (us @ vs) zs) = whole vs zs"
  by (simp add: skip_whole)

lemma as_size_length: "n < 2 ^ 31 \<Longrightarrow> as_size (of_nat n) = n"
  using as_size_pos [of "of_nat n"] sint_of_length [of n] by simp

lemma length_positive: "n < 2 ^ 31 \<Longrightarrow> (of_nat n :: cint) \<le>s 0 \<longleftrightarrow> n = 0"
  using sint_of_length [of n] by (simp add: word_sle_eq)

text \<open>The priority.\<close>

lemma not_digit: "\<not> is_digit 62" "\<not> is_digit 93" "\<not> is_digit 0"
  by (simp_all add: is_digit_def)

lemma sint_long: "n < 2 ^ 63 \<Longrightarrow> sint (of_nat n :: clong) = int n"
proof -
  assume "n < 2 ^ 63"
  then have "int n < 2 ^ 63" by simp
  moreover have "sint (of_nat n :: clong) = signed_take_bit 63 (int n)"
    using sint_sbintrunc' [of "int n", where 'a = 64] by simp
  ultimately show ?thesis by (simp add: signed_take_bit_int_eq_self)
qed

lemma read_priority_none: "us = [] \<or> hd us \<noteq> 60 \<Longrightarrow> read_priority (whole us zs) = Inr (Some (None, None, whole us zs))"
  by (cases us) (simp_all add: read_priority_def at_def)

lemma at_int_nat: "k < length xs \<Longrightarrow> at_int xs (int k) = Inr (xs ! k)"
  by (simp add: at_int_def)

lemma read_priority_written:
  assumes "n \<le> 191" "length (60 # dec_digits n @ 62 # rest) < 2 ^ 31"
  shows "read_priority (whole (60 # dec_digits n @ 62 # rest) zs) =
    Inr (Some (Some (vstr (syslog_facility_g ! (n div 8))), Some (vstr (syslog_severity_g ! (n mod 8))), whole rest zs))"
proof -
  let ?us = "60 # dec_digits n @ 62 # rest"
  have "get_next_int (drop 1 (fst (whole ?us zs))) (as_size (snd (whole ?us zs))) = Inr (length (dec_digits n), of_nat n)"
    using get_next_int_found [OF not_digit(1), of n "length ?us" "rest @ 0 # zs"] as_size_length [OF assms(2)] by simp
  moreover have "skip (length (dec_digits n) + 2) (whole ?us zs) = whole rest zs" by (simp add: skip_whole)
  moreover have "sint (of_nat n :: clong) = int n" using assms(1) by (intro sint_long) simp
  moreover from this have "\<not> 191 <s (of_nat n :: clong)" using assms(1) by (simp add: word_sless_alt)
  moreover have "at_int syslog_facility_g (int n div 8) = Inr (syslog_facility_g ! (n div 8))"
    "at_int syslog_severity_g (int n mod 8) = Inr (syslog_severity_g ! (n mod 8))"
    using assms(1) at_int_nat [of "n div 8" syslog_facility_g] at_int_nat [of "n mod 8" syslog_severity_g]
    by (simp_all add: table_lengths zdiv_int zmod_int)
  ultimately show ?thesis by (simp add: read_priority_def del: bnd_eq_Inr)
qed

text \<open>The date.  Nothing assigns the month of a line of April.\<close>

definition date_read :: "log_line \<Rightarrow> tm \<Rightarrow> tm" where
  "date_read l t = t\<lparr>tm_year := 107, tm_mon := (if ll_mon l = 3 then tm_mon t else int (ll_mon l)),
     tm_mday := int (ll_day l), tm_hour := int (ll_hour l), tm_min := int (ll_min l), tm_sec := int (ll_sec l)\<rparr>"

lemma sint_digit: "d < 10 \<Longrightarrow> sint (of_nat (48 + d) :: byte) = 48 + int d"
proof -
  assume "d < 10"
  then have "signed_take_bit 7 (int (48 + d)) = int (48 + d)" by (intro signed_take_bit_int_eq_self) simp_all
  then show ?thesis using sint_sbintrunc' [of "int (48 + d)", where 'a = 8] by simp
qed

lemma two_decimals: "int (n div 10) * 10 + int (n mod 10) = int n"
  using div_mult_mod_eq [of n 10] by (metis of_nat_add of_nat_mult of_nat_numeral)

lemma two_digits_d2: "n < 100 \<Longrightarrow> two_digits (us @ d2 n @ vs) (length us) = Inr (int n)"
proof -
  assume "n < 100"
  then have n: "n div 10 < 10" "n mod 10 < 10" by auto
  have "at (us @ d2 n @ vs) (length us) = Inr (of_nat (48 + n div 10))"
    "at (us @ d2 n @ vs) (length us + 1) = Inr (of_nat (48 + n mod 10))"
    by (simp_all add: at_def d2_def nth_append)
  then show ?thesis using sint_digit [OF n(1)] sint_digit [OF n(2)]
    by (simp add: two_digits_def digit_at_def two_decimals del: bnd_eq_Inr of_nat_add)
qed

lemma digit_not_space: "d < 10 \<Longrightarrow> (of_nat (48 + d) :: byte) \<noteq> 32"
proof
  assume "d < 10" "(of_nat (48 + d) :: byte) = 32"
  then have "unat (32 :: byte) = 48 + d" using unat_digit [of d] by metis
  then show False by simp
qed

lemma syslog_day_written:
  assumes "n < 100" "length us = 4"
  shows "syslog_day (us @ write_day n @ vs) = Inr (int n)"
proof (cases "n < 10")
  case True
  have "at (us @ write_day n @ vs) 4 = Inr 32" "at (us @ write_day n @ vs) 5 = Inr (of_nat (48 + n))"
    using assms(2) True by (simp_all add: at_def write_day_def nth_append)
  then show ?thesis using sint_digit [OF True] by (simp add: syslog_day_def digit_at_def del: bnd_eq_Inr of_nat_add)
next
  case False
  then have n: "n div 10 < 10" "n mod 10 < 10" using assms(1) by auto
  have "at (us @ write_day n @ vs) 4 = Inr (of_nat (48 + n div 10))" "at (us @ write_day n @ vs) 5 = Inr (of_nat (48 + n mod 10))"
    using assms(2) False by (simp_all add: at_def write_day_def d2_def nth_append)
  then show ?thesis using sint_digit [OF n(1)] sint_digit [OF n(2)] digit_not_space [OF n(1)]
    by (simp add: syslog_day_def digit_at_def two_decimals del: bnd_eq_Inr of_nat_add)
qed

lemma month_cases: "m < 12 \<Longrightarrow> m \<in> {0, 1, 2, 3, 4, 5, 6, 7, 8, 9, 10, 11 :: nat}"
  by simp presburger

lemma month_bytes: "month_names = [[74, 97, 110], [70, 101, 98], [77, 97, 114], [65, 112, 114], [77, 97, 121], [74, 117, 110], [74, 117, 108], [65, 117, 103], [83, 101, 112], [79, 99, 116], [78, 111, 118], [68, 101, 99]]"
  by (simp add: month_names_def chars_def)

lemma length_month: "m < 12 \<Longrightarrow> length (month_names ! m) = 3"
  using month_cases [of m] by (auto simp: month_bytes)

lemma syslog_month_bytes:
  "syslog_month (a # b # c # rest) = Inr (
     if a = 65 then Some (if b = 117 then Some 7 else if b = 118 then Some 3 else None)
     else if a = 68 then Some (Some 11) else if a = 70 then Some (Some 1)
     else if a = 74 then (if b = 97 then Some (Some 0)
       else if b = 117 then Some (if c = 108 then Some 6 else if c = 110 then Some 5 else None) else Some None)
     else if a = 77 then Some (if c = 114 then Some 2 else if c = 121 then Some 4 else None)
     else if a = 78 then Some (Some 10) else if a = 79 then Some (Some 9) else if a = 83 then Some (Some 8) else None)"
proof -
  have "at (a # b # c # rest) 0 = Inr a" "at (a # b # c # rest) 1 = Inr b" "at (a # b # c # rest) 2 = Inr c"
    by (simp_all add: at_def)
  then show ?thesis by (simp add: syslog_month_def del: bnd_eq_Inr)
qed

lemma syslog_month_written:
  assumes "m < 12"
  shows "syslog_month ((month_names ! m) @ rest) = Inr (Some (if m = 3 then None else Some (int m)))"
  using month_cases [OF assms]
  by (elim insertE emptyE; simp only: month_bytes; simp add: syslog_month_bytes)

lemma write_date_facts:
  assumes "ll_mon l < 12"
  shows "length (write_date l) = 15" "write_date l ! 3 = 32" "write_date l ! 6 = 32" "write_date l ! 9 = 58"
    "write_date l ! 12 = 58" "hd (write_date l) \<noteq> 60"
proof -
  obtain a b c where m: "month_names ! ll_mon l = [a, b, c]"
    using length_month [OF assms] by (auto simp: length_Suc_conv numeral_3_eq_3)
  moreover obtain x y where "write_day (ll_day l) = [x, y]"
    by (cases "ll_day l < 10") (simp_all add: write_day_def d2_def)
  ultimately show "length (write_date l) = 15" "write_date l ! 3 = 32" "write_date l ! 6 = 32" "write_date l ! 9 = 58"
    "write_date l ! 12 = 58" by (simp_all add: write_date_def d2_def)
  have "hd (month_names ! ll_mon l) \<noteq> 60"
    using month_cases [OF assms] by (auto simp: month_bytes)
  with m show "hd (write_date l) \<noteq> 60" by (simp add: write_date_def)
qed

lemma syslog_getdate_written:
  assumes "ll_mon l < 12" "ll_day l < 100" "ll_hour l < 100" "ll_min l < 100" "ll_sec l < 100"
  shows "syslog_getdate (write_date l @ rest) t = Inr (True, date_read l t)"
proof -
  let ?m = "month_names ! ll_mon l" and ?d = "write_date l @ rest"
  note m = length_month [OF assms(1)]
  have w: "length (write_day (ll_day l)) = 2" by (simp add: write_day_def d2_def)
  have "syslog_month ?d = Inr (Some (if ll_mon l = 3 then None else Some (int (ll_mon l))))"
    using syslog_month_written [OF assms(1)] by (simp add: write_date_def)
  moreover have "syslog_day ?d = Inr (int (ll_day l))"
    using syslog_day_written [OF assms(2), of "?m @ [32]"] m by (simp add: write_date_def)
  moreover have "two_digits ?d 7 = Inr (int (ll_hour l))"
    using two_digits_d2 [OF assms(3), of "?m @ 32 # write_day (ll_day l) @ [32]"] m w by (simp add: write_date_def)
  moreover have "two_digits ?d 10 = Inr (int (ll_min l))"
    using two_digits_d2 [OF assms(4), of "?m @ 32 # write_day (ll_day l) @ 32 # d2 (ll_hour l) @ [58]"] m w
    by (simp add: write_date_def d2_def)
  moreover have "two_digits ?d 13 = Inr (int (ll_sec l))"
    using two_digits_d2 [OF assms(5), of "?m @ 32 # write_day (ll_day l) @ 32 # d2 (ll_hour l) @ 58 # d2 (ll_min l) @ [58]"] m w
    by (simp add: write_date_def d2_def)
  ultimately show ?thesis by (simp add: syslog_getdate_def date_read_def Let_def del: bnd_eq_Inr)
qed

lemma read_time_written:
  assumes "ll_mon l < 12" "ll_day l < 100" "ll_hour l < 100" "ll_min l < 100" "ll_sec l < 100"
    and "length (write_date l @ 32 # rest) < 2 ^ 31"
  shows "read_time mktime t (whole (write_date l @ 32 # rest) zs) =
    Inr (fst (mktime (date_read l t)), Some (Some (ovm_ctime_new\<lparr>vdata := VCTime (snd (mktime (date_read l t))), vflags := TYPE_MONO\<rparr>), whole rest zs))"
proof -
  let ?p = "whole (write_date l @ 32 # rest) zs"
  note w = write_date_facts [OF assms(1)]
  have "sint (snd ?p) = int (length (write_date l @ 32 # rest))" using sint_of_length [OF assms(6)] by (simp only: whole_simps)
  then have "15 <s snd ?p" using w(1) by (simp add: word_sless_alt)
  moreover have "at (fst ?p) 3 = Inr 32" "at (fst ?p) 6 = Inr 32" "at (fst ?p) 9 = Inr 58" "at (fst ?p) 12 = Inr 58" "at (fst ?p) 15 = Inr 32"
    using w by (simp_all add: at_def nth_append)
  ultimately have "date_is_here ?p = Inr True" by (simp add: date_is_here_def del: bnd_eq_Inr)
  moreover have "syslog_getdate (fst ?p) t = Inr (True, date_read l t)"
    using syslog_getdate_written [OF assms(1-5), of "32 # rest @ 0 # zs" t] by simp
  moreover have "skip 16 ?p = whole rest zs" using skip_front [of "write_date l @ [32]" rest zs] w(1) by simp
  ultimately show ?thesis by (simp add: read_time_def case_prod_beta del: bnd_eq_Inr)
qed

text \<open>The names of the host and of the program.\<close>

lemma separators: "chars '' [:'' = [32, 91, 58]" "chars ''[:'' = [91, 58]"
  by (simp_all add: chars_def)

lemma read_host_written:
  assumes "set host \<inter> {32, 91, 58} = {}" "c \<noteq> 40" "length (host @ 32 # c # rest) < 2 ^ 31"
  shows "read_host (whole (host @ 32 # c # rest) zs) = Inr (Some (Some (vstr host), whole (c # rest) zs))"
proof -
  let ?p = "whole (host @ 32 # c # rest) zs"
  have "as_size (snd ?p) = length (host @ 32 # c # rest)" using as_size_length [OF assms(3)] by (simp only: whole_simps)
  then have "my_strspn (fst ?p) (chars '' [:'') (as_size (snd ?p)) = Inr (length host)"
    using my_strspn_found [of host "chars '' [:''" 32 "as_size (snd ?p)" "c # rest @ 0 # zs"] assms(1)
    by (simp add: separators)
  moreover have "at (fst ?p) (length host) = Inr 32" "at (fst ?p) (length host + 1) = Inr c"
    by (simp_all add: at_def nth_append)
  moreover have s: "skip (length host + 1) ?p = whole (c # rest) zs"
    using skip_front [of "host @ [32]" "c # rest" zs] by simp
  moreover have "\<not> snd (whole (c # rest) zs) \<le>s 0"
    using length_positive [of "length (c # rest)"] assms(3) by (simp only: whole_simps) simp
  ultimately show ?thesis using assms(2) by (simp add: read_host_def del: bnd_eq_Inr whole_simps(2))
qed

lemma memcmp_stops:
  assumes "memcmp lit (prog @ c # rest) = Inr 0" "c \<notin> set lit"
  shows "\<exists>r. prog = lit @ r"
proof -
  from memcmp_zero_prefix [OF assms(1)] obtain r where "prog @ c # rest = lit @ r" by blast
  with assms(2) show ?thesis by (auto simp: append_eq_append_conv2 Cons_eq_append_conv)
qed

lemma last_message_bytes: "32 \<in> set last_message" "91 \<notin> set last_message" "58 \<notin> set last_message"
  by code_simp+

lemma read_repeat_written:
  assumes "32 \<notin> set prog" "c \<in> {91, 58}"
  shows "read_repeat (whole (prog @ c # rest) zs) = Inr None"
proof -
  let ?bs = "prog @ c # rest @ 0 # zs"
  obtain k where k: "memcmp last_message ?bs = Inr k"
    using memcmp_in_bounds [OF last_message_facts(1), of ?bs] by auto
  have "k \<noteq> 0" using memcmp_stops [of last_message prog c "rest @ 0 # zs"] k assms last_message_bytes by auto
  with k show ?thesis by (simp add: read_repeat_def starts_with_def last_message_def)
qed

lemma gconfd_bytes: "91 \<notin> set (chars ''gconfd'')" "58 \<notin> set (chars ''gconfd'')" "length (chars ''gconfd'') = 6"
  by code_simp+

lemma read_prog_written:
  assumes "set prog \<inter> {91, 58} = {}" "take 6 prog \<noteq> chars ''gconfd''" "c \<in> {91, 58}" "length (prog @ c # rest) < 2 ^ 31"
  shows "read_prog (whole (prog @ c # rest) zs) = Inr (Some (vstr prog, whole (c # rest) zs))"
proof -
  let ?p = "whole (prog @ c # rest) zs"
  have "as_size (snd ?p) = length (prog @ c # rest)" using as_size_length [OF assms(4)] by (simp only: whole_simps)
  then have "my_strspn (fst ?p) (chars ''[:'') (as_size (snd ?p)) = Inr (length prog)"
    using my_strspn_found [of prog "chars ''[:''" c "as_size (snd ?p)" "rest @ 0 # zs"] assms(1,3)
    by (simp add: separators)
  moreover obtain k where k: "memcmp (chars ''gconfd'') (fst ?p) = Inr k"
    using memcmp_in_bounds [OF gconfd_facts(1), of "fst ?p"] by auto
  moreover have "k \<noteq> 0" using memcmp_stops [of "chars ''gconfd''" prog c "rest @ 0 # zs"] k assms(2,3) gconfd_bytes by auto
  moreover have "skip (length prog) ?p = whole (c # rest) zs" by (rule skip_front)
  moreover have "\<not> snd (whole (c # rest) zs) \<le>s 0"
    using length_positive [of "length (c # rest)"] assms(4) by (simp only: whole_simps) simp
  ultimately show ?thesis by (simp add: read_prog_def starts_with_def del: bnd_eq_Inr whole_simps(2))
qed

lemma read_pid_written:
  assumes "msg \<noteq> []" "length (write_pid n @ msg) < 2 ^ 31"
  shows "read_pid (whole (write_pid n @ msg) zs) = Inr (Some (map_option (\<lambda>k. int_var (of_nat k)) n, whole msg zs))"
proof -
  let ?p = "whole (write_pid n @ msg) zs"
  have left: "\<not> snd (whole msg zs) \<le>s 0"
    using length_positive [of "length msg"] assms by (simp only: whole_simps) simp
  show ?thesis
  proof (cases n)
    case None
    have "at (fst ?p) 0 = Inr 58" "skip 2 ?p = whole msg zs"
      using skip_front [of "[58, 32]" msg zs] by (simp_all add: None write_pid_def at_def numeral_2_eq_2)
    with left show ?thesis by (simp add: read_pid_def None del: bnd_eq_Inr whole_simps(2))
  next
    case (Some k)
    let ?d = "length (dec_digits k)"
    have size: "as_size (snd ?p) = length (write_pid n @ msg)" using as_size_length [OF assms(2)] by (simp only: whole_simps)
    have "get_next_int (drop 1 (fst ?p)) (as_size (snd ?p)) = Inr (?d, of_nat k)"
      using get_next_int_found [OF not_digit(2), of k "as_size (snd ?p)" "58 # 32 # msg @ 0 # zs"] size
      by (simp add: Some write_pid_def)
    moreover have "drop (?d + 1) (fst ?p) = chars '']: '' @ msg @ 0 # zs" by (simp add: Some write_pid_def chars_def)
    then have "starts_with (chars '']: '') (drop (?d + 1) (fst ?p)) = Inr True"
      by (simp only: starts_with_def memcmp_prefix bnd_Inr) simp
    moreover have "at (fst ?p) 0 = Inr 91" by (simp add: Some write_pid_def at_def)
    moreover have "skip (?d + 4) ?p = whole msg zs"
      using skip_front [of "91 # dec_digits k @ [93, 58, 32]" msg zs] by (simp add: Some write_pid_def eval_nat_numeral)
    ultimately show ?thesis using left by (simp add: read_pid_def Some del: bnd_eq_Inr whole_simps)
  qed
qed

lemma read_msg_written:
  assumes "set msg \<inter> {13, 10} = {}" "length msg < 2 ^ 31"
  shows "read_msg (whole msg zs) = Inr (vstr msg)"
  using my_strspn_all [of msg "[13, 10]" "as_size (snd (whole msg zs))" "0 # zs"] as_size_length [OF assms(2)] assms(1)
  by (simp add: read_msg_def)

lemma syslog_attrs_written:
  assumes "good_line l" and "0 < z"
  shows "syslog_attrs mktime t (write_line l @ replicate z 0, of_nat (length (write_line l))) =
    (let (t', time) = mktime (date_read l t) in
     Inr (t', Some
       [map_option (\<lambda>n. vstr (syslog_facility_g ! (n div 8))) (ll_priority l),
        map_option (\<lambda>n. vstr (syslog_severity_g ! (n mod 8))) (ll_priority l),
        Some (ovm_ctime_new\<lparr>vdata := VCTime time, vflags := TYPE_MONO\<rparr>),
        Some (vstr (ll_host l)), None, map_option (\<lambda>n. int_var (of_nat n)) (ll_pid l),
        Some (vstr (ll_prog l)), Some (vstr (ll_msg l))]))"
proof -
  obtain zs where zs: "replicate z (0 :: byte) = 0 # zs" using assms(2) by (cases z) auto
  obtain c ps where prog: "ll_prog l = c # ps" "c \<noteq> 40" using assms(1) by (cases "ll_prog l") (auto simp: good_line_def)
  obtain e es where pid: "write_pid (ll_pid l) = e # es" "e \<in> {91, 58}"
    by (cases "ll_pid l") (auto simp: write_pid_def)
  let ?tail = "ll_host l @ 32 # ll_prog l @ write_pid (ll_pid l) @ ll_msg l"
  let ?date = "write_date l @ 32 # ?tail"
  note g = assms(1) [unfolded good_line_def]
  have len: "length ?date \<le> length (write_line l)" "length (write_line l) < 2 ^ 31" using g by (simp_all add: write_line_def)
  note w = write_date_facts [of l]
  have p: "read_priority (whole (write_line l) zs) = Inr (Some
      (map_option (\<lambda>n. vstr (syslog_facility_g ! (n div 8))) (ll_priority l),
       map_option (\<lambda>n. vstr (syslog_severity_g ! (n mod 8))) (ll_priority l), whole ?date zs))"
  proof (cases "ll_priority l")
    case None
    then have "write_line l = ?date" by (simp add: write_line_def write_priority_def)
    moreover have "hd ?date \<noteq> 60" using w g by (cases "write_date l") auto
    ultimately show ?thesis using read_priority_none [of ?date zs] None by simp
  next
    case (Some n)
    then have "write_line l = 60 # dec_digits n @ 62 # ?date" by (simp add: write_line_def write_priority_def)
    moreover have "n \<le> 191" using g Some by simp
    ultimately show ?thesis using read_priority_written [of n ?date zs] len(2) Some by simp
  qed
  have time: "read_time mktime t (whole ?date zs) = Inr (fst (mktime (date_read l t)),
      Some (Some (ovm_ctime_new\<lparr>vdata := VCTime (snd (mktime (date_read l t))), vflags := TYPE_MONO\<rparr>), whole ?tail zs))"
    using g len by (intro read_time_written) auto
  have tl: "length ?tail < 2 ^ 31" using len by simp
  have host: "read_host (whole ?tail zs) = Inr (Some (Some (vstr (ll_host l)), whole (ll_prog l @ write_pid (ll_pid l) @ ll_msg l) zs))"
    using read_host_written [of "ll_host l" c "ps @ write_pid (ll_pid l) @ ll_msg l" zs] g tl prog by simp
  have rep: "read_repeat (whole (ll_prog l @ write_pid (ll_pid l) @ ll_msg l) zs) = Inr None"
    using read_repeat_written [of "ll_prog l" e "es @ ll_msg l" zs] g pid by simp
  have pr: "read_prog (whole (ll_prog l @ write_pid (ll_pid l) @ ll_msg l) zs) =
      Inr (Some (vstr (ll_prog l), whole (write_pid (ll_pid l) @ ll_msg l) zs))"
    using read_prog_written [of "ll_prog l" e "es @ ll_msg l" zs] g pid tl by simp
  have pd: "read_pid (whole (write_pid (ll_pid l) @ ll_msg l) zs) =
      Inr (Some (map_option (\<lambda>n. int_var (of_nat n)) (ll_pid l), whole (ll_msg l) zs))"
    using g tl by (intro read_pid_written) auto
  have msg: "read_msg (whole (ll_msg l) zs) = Inr (vstr (ll_msg l))"
    using g tl by (intro read_msg_written) auto
  have "\<not> snd (whole ?tail zs) \<le>s 0" using length_positive [OF tl] by (simp only: whole_simps) simp
  with host rep pr pd msg have "syslog_tail attr (whole ?tail zs) = Inr (Some (attr @
      [Some (vstr (ll_host l)), None, map_option (\<lambda>n. int_var (of_nat n)) (ll_pid l), Some (vstr (ll_prog l)), Some (vstr (ll_msg l))]))" for attr
    by (simp add: syslog_tail_def ok_def del: bnd_eq_Inr whole_simps(2))
  with p time show ?thesis
    unfolding zs whole_def [symmetric] by (simp add: syslog_attrs_def case_prod_beta Let_def del: bnd_eq_Inr)
qed

text \<open>Claim C26 (roundtrip).  A line in the usual format, with or without a priority and a process number, comes
  back as its fields: the texts of the facility and the severity, the date, the host, the program, the process
  and the message.  Only the date is not what was written: the year is always 2007, and in April the month
  is the one that the last line left behind.\<close>

theorem syslog_line_round_trip:
  assumes "good_line l" and "0 < z"
  shows "syslog_attrs mktime t (write_line l @ replicate z 0, of_nat (length (write_line l))) =
    (let (t', time) = mktime (date_read l t) in
     Inr (t', Some
       [map_option (\<lambda>n. vstr (syslog_facility_g ! (n div 8))) (ll_priority l),
        map_option (\<lambda>n. vstr (syslog_severity_g ! (n mod 8))) (ll_priority l),
        Some (ovm_ctime_new\<lparr>vdata := VCTime time, vflags := TYPE_MONO\<rparr>),
        Some (vstr (ll_host l)), None, map_option (\<lambda>n. int_var (of_nat n)) (ll_pid l),
        Some (vstr (ll_prog l)), Some (vstr (ll_msg l))]))"
  using assms by (rule syslog_attrs_written)

section \<open>From the line to the engine\<close>

lemma alloc_attrs_values:
  "alloc_attrs vs m = (tbl, m') \<Longrightarrow> length tbl = length vs \<and> fresh m \<le> fresh m' \<and>
   (\<forall>a < fresh m. heap m' a = heap m a) \<and>
   (\<forall>i < length vs. case vs ! i of None \<Rightarrow> tbl ! i = NoVar | Some v \<Rightarrow> \<exists>a. tbl ! i = Value a \<and> heap m' a = Some v)"
proof (induction vs m arbitrary: tbl m' rule: alloc_attrs.induct)
  case (2 vs m)
  then obtain ts where "alloc_attrs vs m = (ts, m')" "tbl = NoVar # ts" by (auto split: prod.splits)
  with "2.IH" [of ts m'] show ?case by (auto simp: less_Suc_eq_0_disj split: option.split)
next
  case (3 v vs m)
  then obtain ts where ts: "alloc_attrs vs (snd (alloc v m)) = (ts, m')" "tbl = Value (fresh m) # ts"
    by (auto simp: Let_def split: prod.splits)
  note ih = "3.IH" [OF refl ts(1)]
  then have "heap m' (fresh m) = Some v" by (simp add: alloc_def)
  moreover have "\<forall>a < fresh m. heap m' a = heap m a" using ih by (simp add: alloc_def)
  moreover have "fresh m \<le> fresh m'" using ih by (simp add: alloc_def)
  ultimately show ?case using ih ts(2) by (auto simp: less_Suc_eq_0_disj split: option.split)
qed simp

fun slot_fields :: "nat \<Rightarrow> slot list \<Rightarrow> event" where
  "slot_fields i [] = []"
| "slot_fields i (Value a # ts) = (i, Some a) # slot_fields (i + 1) ts"
| "slot_fields i (t # ts) = slot_fields (i + 1) ts"

definition active_from :: "nat \<Rightarrow> nat \<Rightarrow> field_record list \<Rightarrow> bool" where
  "active_from i n fs \<longleftrightarrow> i + n \<le> length fs \<and> (\<forall>j. i \<le> j \<and> j < i + n \<longrightarrow> fr_active (fs ! j))"

lemma add_fields_active:
  "active_from i (length ts) (o_fields s) \<Longrightarrow> add_fields_from i ts ev s = Inr (rev (slot_fields i ts) @ ev, s)"
proof (induction i ts arbitrary: ev rule: slot_fields.induct)
  case (2 i a ts)
  then have "active_from (i + 1) (length ts) (o_fields s)" "at (o_fields s) i = Inr (o_fields s ! i)" "fr_active (o_fields s ! i)"
    by (auto simp: active_from_def)
  with "2.IH" show ?case by simp
qed (simp_all add: active_from_def)

text \<open>One more post of a module.\<close>

definition posted :: "nat \<Rightarrow> 'a orchids_scheme \<Rightarrow> 'a orchids_scheme" where
  "posted i s = s\<lparr>o_mods := (o_mods s)[i := (o_mods s ! i)\<lparr>me_posts := me_posts (o_mods s ! i) + 1\<rparr>]\<rparr>"

lemma upd_mod_posted: "i < length (o_mods s) \<Longrightarrow> upd_mod i (\<lambda>m. m\<lparr>me_posts := me_posts m + 1\<rparr>) s = Inr (posted i s)"
  by (simp add: upd_mod_def posted_def)

definition no_dissector :: "mod_entry \<Rightarrow> bool" where
  "no_dissector m \<longleftrightarrow> me_dissect m = None \<and> me_sub m = None"

lemma post_event_leaf:
  assumes "i < length (o_mods s)" "no_dissector (o_mods s ! i)"
  shows "post_event (Suc n) cfg i ev s = inject_into cfg ev (posted i s)"
proof -
  have "find_dissector i ev (posted i s) = Inr None"
    using assms by (simp add: find_dissector_def posted_def no_dissector_def del: bnd_eq_Inr)
  then show ?thesis by (simp add: upd_mod_posted [OF assms(1)])
qed

lemma post_event_dissects:
  assumes "i < length (o_mods s)" "me_dissect (o_mods s ! i) = Some d" "me_dissect_mod (o_mods s ! i) = m"
  shows "post_event (Suc n) cfg i ev s =
    bnd (ic_dissect cfg d (post_event n cfg) m ev None (posted i s)) (\<lambda>(ret, s).
      if ret \<noteq> 0 then inject_into cfg ev s else Inr s)"
proof -
  have "find_dissector i ev (posted i s) = Inr (Some (d, m, None))"
    using assms by (simp add: find_dissector_def posted_def del: bnd_eq_Inr)
  then show ?thesis by (simp add: upd_mod_posted [OF assms(1)])
qed

lemma syslog_tail_length: "syslog_tail attr p = Inr (Some vs) \<Longrightarrow> length vs = length attr + 5"
  by (auto simp: syslog_tail_def ok_def split: if_splits option.splits prod.splits)

lemma syslog_attrs_length: "syslog_attrs mktime t p = Inr (t', Some vs) \<Longrightarrow> length vs = 8"
  by (auto simp: syslog_attrs_def dest!: syslog_tail_length split: option.splits prod.splits)

text \<open>The module of the dissector: it is another one than the sender, nothing takes its events apart, and
  its eight fields are registered and active.\<close>

definition syslog_ready :: "nat \<Rightarrow> nat \<Rightarrow> 'a orchids_scheme \<Rightarrow> bool" where
  "syslog_ready u m s \<longleftrightarrow> u < length (o_mods s) \<and> m < length (o_mods s) \<and> u \<noteq> m \<and>
     (\<exists>d. me_dissect (o_mods s ! u) = Some d) \<and> me_dissect_mod (o_mods s ! u) = m \<and> no_dissector (o_mods s ! m) \<and>
     active_from (me_first_field (o_mods s ! m)) 8 (o_fields s)"

text \<open>The parts that were found, with the numbers of their fields.\<close>

definition found_parts :: "nat \<Rightarrow> ovm_var option list \<Rightarrow> (nat \<times> ovm_var) list" where
  "found_parts n vs = [(i, x). (i, Some x) \<leftarrow> enumerate n vs]"

lemma found_parts_simps [simp]:
  "found_parts n [] = []" "found_parts n (None # vs) = found_parts (Suc n) vs"
  "found_parts n (Some x # vs) = (n, x) # found_parts (Suc n) vs"
  by (simp_all add: found_parts_def)

lemma alloc_attrs_keeps: "alloc_attrs vs m = (tbl, m') \<Longrightarrow> a < fresh m \<Longrightarrow> heap m' a = heap m a"
  using alloc_attrs_values by blast

lemma alloc_attrs_fields:
  "alloc_attrs vs m = (tbl, m') \<Longrightarrow>
   map (\<lambda>(f, p). (f, deref m' p)) (slot_fields n tbl) = map (\<lambda>(f, x). (f, Inr x)) (found_parts n vs)"
proof (induction vs m arbitrary: tbl m' n rule: alloc_attrs.induct)
  case (2 vs m)
  then obtain ts where "alloc_attrs vs m = (ts, m')" "tbl = NoVar # ts" by (auto split: prod.splits)
  with "2.IH" [of ts m'] show ?case by simp
next
  case (3 v vs m)
  then obtain ts where ts: "alloc_attrs vs (snd (alloc v m)) = (ts, m')" "tbl = Value (fresh m) # ts"
    by (auto simp: Let_def split: prod.splits)
  have "fresh m < fresh (snd (alloc v m))" "heap (snd (alloc v m)) (fresh m) = Some v" by (simp_all add: alloc_def)
  with alloc_attrs_keeps [OF ts(1)] have "heap m' (fresh m) = Some v" by simp
  with "3.IH" [OF refl ts(1)] ts(2) show ?case by (simp add: deref_def)
qed simp

text \<open>
  Claim C14 (safety).  A line reaches the engine exactly once.  The event that an input module posts is handed to
  the syslog dissector.  If the line can be taken apart, the event that is injected is the old one with exactly one
  field in front of it for each part that was found: the numbers and the values of the new fields are those of the parts,
  the last part first, and a part that was not found has no field.  If the line cannot be taken apart, the event is
  injected as it was.  Besides that, the two modules count a posted event each, and the machine keeps what it had.
\<close>

theorem syslog_event_injected_once:
  assumes ready: "syslog_ready u m s"
    and diss: "ic_dissect cfg (the (me_dissect (o_mods s ! u))) = dissect_syslog mktime"
    and ev: "ev = (f, Some a) # es" "heap (vm (o_engine s)) a = Some v" "line_of (vdata v) = Inr line"
    and attrs: "syslog_attrs mktime (sl_tm s) line = Inr (t, attrs)"
  shows "case attrs of
       None \<Rightarrow> post_event (Suc (Suc n)) cfg u ev s = inject_into cfg ev (posted u s\<lparr>sl_tm := t\<rparr>)
     | Some vs \<Rightarrow> \<exists>new mem.
         post_event (Suc (Suc n)) cfg u ev s =
           inject_into cfg (new @ ev) (posted m (posted u s\<lparr>sl_tm := t, o_engine := (o_engine s)\<lparr>vm := mem\<rparr>\<rparr>)) \<and>
         map (\<lambda>(f, p). (f, deref mem p)) new = rev (map (\<lambda>(f, x). (f, Inr x)) (found_parts (me_first_field (o_mods s ! m)) vs)) \<and>
         (\<forall>b < fresh (vm (o_engine s)). heap mem b = heap (vm (o_engine s)) b)"
proof -
  note r = ready [unfolded syslog_ready_def]
  then obtain d where d: "me_dissect (o_mods s ! u) = Some d" by blast
  let ?s = "posted u s"
  let ?b = "me_first_field (o_mods s ! m)"
  have eng: "o_engine ?s = o_engine s" "sl_tm ?s = sl_tm s" "o_mods ?s ! m = o_mods s ! m" "o_fields ?s = o_fields s"
    "length (o_mods ?s) = length (o_mods s)" using r by (simp_all add: posted_def)
  have post: "post_event (Suc (Suc n)) cfg u ev s =
      bnd (dissect_syslog mktime (post_event (Suc n) cfg) m ev None ?s) (\<lambda>(ret, s).
        if ret \<noteq> 0 then inject_into cfg ev s else Inr s)"
    using post_event_dissects [of u s d m "Suc n" cfg ev] r d diss by simp
  have deref: "deref (vm (o_engine ?s)) (Some a) = Inr v" using ev(2) by (simp add: eng deref_def)
  show ?thesis
  proof (cases attrs)
    case None
    then have "dissect_syslog mktime (post_event (Suc n) cfg) m ev None ?s = Inr (1, ?s\<lparr>sl_tm := t\<rparr>)"
      using deref ev attrs by (simp add: dissect_syslog_def eng Let_def del: bnd_eq_Inr)
    with None post show ?thesis by (simp del: bnd_eq_Inr post_event.simps)
  next
    case (Some vs)
    with syslog_attrs_length attrs have len: "length vs = 8" by blast
    obtain tbl mem where tbl: "alloc_attrs vs (vm (o_engine s)) = (tbl, mem)" by (cases "alloc_attrs vs (vm (o_engine s))") blast
    note al = alloc_attrs_values [OF tbl]
    let ?s2 = "?s\<lparr>sl_tm := t, o_engine := (o_engine s)\<lparr>vm := mem\<rparr>\<rparr>"
    let ?new = "rev (slot_fields ?b tbl)"
    have "add_fields_to_event m ev tbl SYSLOG_FIELDS ?s2 = Inr (?new @ ev, ?s2)"
      using add_fields_active [of ?b tbl ?s2 ev] al len r
      by (simp add: add_fields_to_event_def add_fields_to_event_stride_def SYSLOG_FIELDS_def eng del: bnd_eq_Inr)
    moreover have "post_event (Suc n) cfg m (?new @ ev) ?s2 = inject_into cfg (?new @ ev) (posted m ?s2)"
      using r by (intro post_event_leaf) (simp_all add: eng)
    ultimately have "dissect_syslog mktime (post_event (Suc n) cfg) m ev None ?s =
        bnd (inject_into cfg (?new @ ev) (posted m ?s2)) (\<lambda>s. Inr (0, s))"
      using deref ev attrs Some tbl by (simp add: dissect_syslog_def eng Let_def del: bnd_eq_Inr post_event.simps)
    then have run: "post_event (Suc (Suc n)) cfg u ev s = inject_into cfg (?new @ ev) (posted m ?s2)"
      using post by (simp add: bnd_assoc) (simp add: bnd_def split: sum.split)
    have "map (\<lambda>(f, p). (f, deref mem p)) ?new = rev (map (\<lambda>(f, x). (f, Inr x)) (found_parts ?b vs))"
      by (simp only: rev_map [symmetric] alloc_attrs_fields [OF tbl])
    moreover have "\<forall>b < fresh (vm (o_engine s)). heap mem b = heap (vm (o_engine s)) b" using al by blast
    ultimately show ?thesis unfolding Some option.case using run by blast
  qed
qed


section \<open>Examples\<close>

definition zero_tm :: tm where
  "zero_tm = \<lparr>tm_year = 0, tm_mon = 0, tm_mday = 0, tm_hour = 0, tm_min = 0, tm_sec = 0, tm_isdst = 0\<rparr>"

definition sample_mktime :: "tm \<Rightarrow> tm \<times> clong" where
  "sample_mktime t = (t, of_int (((tm_mday t * 24 + tm_hour t) * 60 + tm_min t) * 60 + tm_sec t))"

text \<open>\<open>192 = 24 * 8\<close> is refused, \<open>9300000000000000000\<close> is more than \<open>2 ^ 63\<close>.\<close>

definition bad_number :: "byte list" where "bad_number = chars ''<9300000000000000000>a''"
definition refused_number :: "byte list" where "refused_number = chars ''<192>a''"

theorem syslog_stays_inside_witness:
  "\<not> (\<exists>r. syslog_attrs sample_mktime zero_tm (bad_number @ replicate 5 0, of_nat (length bad_number)) = Inr r) \<and>
   (\<exists>r. syslog_attrs sample_mktime zero_tm (refused_number @ replicate 5 0, of_nat (length refused_number)) = Inr r)"
proof -
  have "negative_priority (bad_number @ replicate 5 0, of_nat (length bad_number))"
    "\<not> negative_priority (refused_number @ replicate 5 0, of_nat (length refused_number))"
    by code_simp+
  moreover have "length bad_number < 2 ^ 31" "length refused_number < 2 ^ 31"
    by (simp_all add: bad_number_def refused_number_def chars_def)
  ultimately show ?thesis
    using syslog_stays_inside [of bad_number 5 sample_mktime zero_tm] syslog_stays_inside [of refused_number 5 sample_mktime zero_tm]
    by simp
qed

definition sample_line :: log_line where
  "sample_line = \<lparr>ll_priority = Some 38, ll_mon = 3, ll_day = 7, ll_hour = 22, ll_min = 14, ll_sec = 5,
     ll_host = chars ''mx1'', ll_prog = chars ''sshd'', ll_pid = Some 412, ll_msg = chars ''Failed password''\<rparr>"

lemma sample_line_text: "write_line sample_line = chars ''<38>Apr  7 22:14:05 mx1 sshd[412]: Failed password''"
  by code_simp

lemma sample_line_good: "good_line sample_line"
proof -
  have "length (write_line sample_line) < 2 ^ 31" by (simp add: sample_line_text chars_def)
  then show ?thesis by (simp add: good_line_def sample_line_def chars_def)
qed

definition sample_attrs :: "ovm_var option list" where
  "sample_attrs = [Some (vstr (chars ''(4) security/authorization messages'')), Some (vstr (chars ''(6) Informational: informational messages'')),
     Some (ovm_ctime_new\<lparr>vdata := VCTime 684845, vflags := TYPE_MONO\<rparr>), Some (vstr (chars ''mx1'')), None,
     Some (int_var 412), Some (vstr (chars ''sshd'')), Some (vstr (chars ''Failed password''))]"

lemma sample_line_facts:
  "date_read sample_line zero_tm = zero_tm\<lparr>tm_year := 107, tm_mon := 0, tm_mday := 7, tm_hour := 22, tm_min := 14, tm_sec := 5\<rparr>"
  "ll_priority sample_line = Some 38" "ll_host sample_line = chars ''mx1''" "ll_pid sample_line = Some 412"
  "ll_prog sample_line = chars ''sshd''" "ll_msg sample_line = chars ''Failed password''"
  by (simp_all add: date_read_def sample_line_def zero_tm_def)

lemma sample_time: "sample_mktime (date_read sample_line zero_tm) = (date_read sample_line zero_tm, 684845)"
  by (simp add: sample_line_facts sample_mktime_def)

lemma sample_tables:
  "syslog_facility_g ! (38 div 8) = chars ''(4) security/authorization messages''"
  "syslog_severity_g ! (38 mod 8) = chars ''(6) Informational: informational messages''"
  by (simp_all only: syslog_facility_g_def syslog_severity_g_def) simp_all

lemmas sample_read = sample_time sample_line_facts(2-6) option.map sample_tables sample_attrs_def prod.case Let_def

lemma sample_line_read:
  "syslog_attrs sample_mktime zero_tm (write_line sample_line @ replicate 5 0, of_nat (length (write_line sample_line))) =
     Inr (date_read sample_line zero_tm, Some sample_attrs)"
  using syslog_attrs_written [OF sample_line_good, of 5 sample_mktime zero_tm] unfolding sample_read by simp

text \<open>A line of April, read after nothing else, is a line of January.\<close>

theorem syslog_line_round_trip_witness:
  "good_line sample_line \<and>
   syslog_attrs sample_mktime zero_tm (write_line sample_line @ replicate 5 0, of_nat (length (write_line sample_line))) =
     Inr (zero_tm\<lparr>tm_year := 107, tm_mon := 0, tm_mday := 7, tm_hour := 22, tm_min := 14, tm_sec := 5\<rparr>, Some sample_attrs)"
  using syslog_line_round_trip [OF sample_line_good, of 5 sample_mktime zero_tm] sample_line_good
  unfolding sample_read by (simp add: sample_line_facts(1))

text \<open>An input module with one field, and the syslog module behind it.\<close>

definition input_mod :: mod_entry where
  "input_mod = \<lparr>me_num_fields = 1, me_first_field = 0, me_config = None, me_sub = None, me_dissect = Some 0,
     me_dissect_mod = 1, me_data = None, me_mod = None, me_posts = 0, me_id = 0, me_handle = None\<rparr>"

definition syslog_mod :: mod_entry where
  "syslog_mod = \<lparr>me_num_fields = 8, me_first_field = 1, me_config = None, me_sub = None, me_dissect = None,
     me_dissect_mod = 0, me_data = None, me_mod = None, me_posts = 0, me_id = 1, me_handle = None\<rparr>"

definition sample_input :: syslog_orchids where
  "sample_input = \<lparr>o_mods = [input_mod, syslog_mod], loaded_modules = 2,
     o_fields = replicate 9 \<lparr>fr_active = True, fr_name = [], fr_type = 6, fr_desc = [], fr_id = 0\<rparr>,
     o_engine = new_engine (sample_vm\<lparr>heap := [0 \<mapsto> \<lparr>vdata = VStr (write_line sample_line), vflags = 0\<rparr>], fresh := 1\<rparr>)
       (replicate 9 None) (\<lambda>_. \<lparr>htable = [], elmts = 0\<rparr>),
     realtime_handlers = [], poll_handlers = [], o_fds = {}, o_maxfd = 0, pre_hooks = [], post_hooks = [], sl_tm = zero_tm\<rparr>"

definition sample_input_cfg :: "syslog_orchids input_cfg" where
  "sample_input_cfg = \<lparr>ic_engine = sample_cfg [], ic_dissect = (\<lambda>_. dissect_syslog sample_mktime),
     ic_hook = (\<lambda>_ _ _. Inr), ic_pre_config = (\<lambda>_ _ s. Inr (None, s)), ic_junk = (\<lambda>_. None)\<rparr>"

lemma sample_input_ready: "syslog_ready 0 1 sample_input"
  by (auto simp: syslog_ready_def sample_input_def input_mod_def syslog_mod_def no_dissector_def active_from_def nth_Cons')

theorem syslog_event_injected_once_witness:
  "\<exists>new s' mem. post_event (Suc (Suc 0)) sample_input_cfg 0 [(0, Some 0)] sample_input =
       inject_into sample_input_cfg (new @ [(0, Some 0)]) s' \<and> o_engine s' = (o_engine sample_input)\<lparr>vm := mem\<rparr> \<and>
     map fst new = [8, 7, 6, 4, 3, 2, 1] \<and> (\<exists>p. hd new = (8, p) \<and> deref mem p = Inr (vstr (chars ''Failed password'')))"
proof -
  let ?v = "\<lparr>vdata = VStr (write_line sample_line), vflags = 0\<rparr>"
  have d: "ic_dissect sample_input_cfg (the (me_dissect (o_mods sample_input ! 0))) = dissect_syslog sample_mktime"
    by (simp add: sample_input_cfg_def)
  have h: "heap (vm (o_engine sample_input)) 0 = Some ?v" by (simp add: sample_input_def new_engine_def)
  have l: "line_of (vdata ?v) = Inr (write_line sample_line @ replicate 5 0, of_nat (length (write_line sample_line)))"
    by (simp add: line_of_def)
  have "sl_tm sample_input = zero_tm" by (simp add: sample_input_def)
  then have a: "syslog_attrs sample_mktime (sl_tm sample_input)
      (write_line sample_line @ replicate 5 0, of_nat (length (write_line sample_line))) =
      Inr (date_read sample_line zero_tm, Some sample_attrs)" using sample_line_read by simp
  from syslog_event_injected_once [OF sample_input_ready d refl h l a, where n = 0 and f = 0 and es = "[]"] obtain new mem where
    post: "post_event (Suc (Suc 0)) sample_input_cfg 0 [(0, Some 0)] sample_input =
      inject_into sample_input_cfg (new @ [(0, Some 0)])
        (posted 1 (posted 0 sample_input\<lparr>sl_tm := date_read sample_line zero_tm, o_engine := (o_engine sample_input)\<lparr>vm := mem\<rparr>\<rparr>))"
    and new: "map (\<lambda>(f, p). (f, deref mem p)) new = rev (map (\<lambda>(f, x). (f, Inr x)) (found_parts (me_first_field (o_mods sample_input ! 1)) sample_attrs))"
    unfolding option.case by blast
  have "me_first_field (o_mods sample_input ! 1) = 1" by (simp add: sample_input_def syslog_mod_def)
  then have fields: "map (\<lambda>(f, p). (f, deref mem p)) new = rev (map (\<lambda>(f, x). (f, Inr x)) (found_parts 1 sample_attrs))"
    using new by simp
  have "map fst new = map fst (map (\<lambda>(f, p). (f, deref mem p)) new)" by (simp add: comp_def case_prod_beta)
  also have "\<dots> = [8, 7, 6, 4, 3, 2, 1]" unfolding fields by (simp add: sample_attrs_def)
  finally have f: "map fst new = [8, 7, 6, 4, 3, 2, 1]" .
  then obtain p rest where np: "new = (8, p) # rest" by auto
  with fields have "deref mem p = Inr (vstr (chars ''Failed password''))" by (simp add: sample_attrs_def)
  with post f np show ?thesis by (fastforce simp: posted_def simp del: post_event.simps)
qed

end
