(* ===== verification/Auditd_Laws.thy ===== *)
theory Auditd_Laws
  imports Auditd Syslog_Laws "HOL-Library.Sublist"
begin

text \<open>
  What the dissector of audit lines guarantees: the tree recognises the keywords of its table, the readers
  stay inside the line, and which fields a line of the daemon becomes, right and wrong ones.
\<close>

section \<open>The tree\<close>

fun walk :: "action_tree \<Rightarrow> byte list \<Rightarrow> action_tree option" where
  "walk t [] = Some t"
| "walk (Found _ _) (c # cs) = None"
| "walk (Proceed f) (c # cs) = (case f c of None \<Rightarrow> None | Some t \<Rightarrow> walk t cs)"

definition found :: "action_tree \<Rightarrow> byte list \<Rightarrow> (nat \<times> nat) option" where
  "found t w = (case walk t w of Some (Found code n) \<Rightarrow> Some (n, code) | _ \<Rightarrow> None)"

lemma walk_empty: "walk empty_node w = (if w = [] then Some empty_node else None)"
  by (cases w) (simp_all add: empty_node_def)

lemma found_empty [simp]: "found empty_node w = None"
  by (simp add: found_def walk_empty) (simp add: empty_node_def)

lemma found_Proceed: "found (Proceed f) (c # cs) = (case f c of None \<Rightarrow> None | Some t \<Rightarrow> found t cs)"
  by (simp add: found_def split: option.split)

lemma found_Found: "found (Found code n) w = (if w = [] then Some (n, code) else None)"
  by (cases w) (simp_all add: found_def)

lemma found_Nil: "found (Proceed f) [] = None"
  by (simp add: found_def)

lemma action_insert_found:
  assumes "\<And>v. strict_prefix v w \<Longrightarrow> found t v = None"
  shows "\<exists>t'. action_insert w code n t = Inr t' \<and>
    (\<forall>v. found t' v = (if v = w then Some (n, code) else if prefix w v then None else found t v))"
  using assms
proof (induction w arbitrary: t)
  case Nil
  then show ?case by (auto simp: found_Found)
next
  case (Cons c cs)
  obtain f where f: "t = Proceed f" using Cons.prems [of "[]"] by (cases t) (simp_all add: found_Found)
  define u where "u = (case f c of None \<Rightarrow> empty_node | Some t \<Rightarrow> t)"
  have u: "found u v = found t (c # v)" for v by (simp add: u_def f found_Proceed split: option.split)
  obtain t' where t': "action_insert cs code n u = Inr t'"
    "\<And>v. found t' v = (if v = cs then Some (n, code) else if prefix cs v then None else found u v)"
    using Cons.IH [of u] Cons.prems u by (metis Cons_prefix_Cons strict_prefix_def list.inject)
  have r: "found (Proceed (f(c := Some t'))) v = (if v = c # cs then Some (n, code) else if prefix (c # cs) v then None else found t v)" for v
    by (cases v) (auto simp: f found_Nil found_Proceed t'(2) u)
  show ?case using t'(1) r by (intro exI [of _ "Proceed (f(c := Some t'))"]) (simp add: f u_def [symmetric])
qed

text \<open>No keyword is a prefix of another.\<close>

definition prefix_free :: "byte list list \<Rightarrow> bool" where
  "prefix_free ws \<longleftrightarrow> distinct ws \<and> (\<forall>w \<in> set ws. \<forall>v \<in> set ws. prefix w v \<longrightarrow> w = v)"

lemma insert_actions_found:
  assumes "prefix_free (map (chars \<circ> fst) ws @ ks)" and "\<And>v. found t v \<noteq> None \<Longrightarrow> v \<in> set ks"
  shows "\<exists>t'. insert_actions ws t = Inr t' \<and>
    (\<forall>v. found t' v = (case map_of (map (\<lambda>(w, a). (chars w, a)) ws) v of None \<Rightarrow> found t v | Some a \<Rightarrow> Some a))"
  using assms
proof (induction ws arbitrary: t ks)
  case Nil
  then show ?case by simp
next
  case (Cons x ws)
  obtain w n code where x: "x = (w, n, code)" by (cases x) auto
  from Cons.prems(1) have pf: "prefix_free (chars w # map (chars \<circ> fst) ws @ ks)" by (simp add: x comp_def)
  have "found t v = None" if "strict_prefix v (chars w)" for v
  proof (rule ccontr)
    assume "found t v \<noteq> None"
    then have "v \<in> set ks" by (rule Cons.prems(2))
    with pf that show False by (auto simp: prefix_free_def strict_prefix_def)
  qed
  from action_insert_found [OF this] obtain u where u: "action_insert (chars w) code n t = Inr u"
    "\<And>v. found u v = (if v = chars w then Some (n, code) else if prefix (chars w) v then None else found t v)" by blast
  have keep: "found t v = None" if "prefix (chars w) v" for v
  proof (rule ccontr)
    assume "found t v \<noteq> None"
    then have "v \<in> set ks" by (rule Cons.prems(2))
    with pf that show False by (auto simp: prefix_free_def)
  qed
  have "prefix_free (map (chars \<circ> fst) ws @ chars w # ks)" using pf by (auto simp: prefix_free_def)
  moreover have "v \<in> set (chars w # ks)" if "found u v \<noteq> None" for v
    using that Cons.prems(2) [of v] by (auto simp: u(2) split: if_splits)
  ultimately obtain t' where t': "insert_actions ws u = Inr t'"
    "\<And>v. found t' v = (case map_of (map (\<lambda>(w, a). (chars w, a)) ws) v of None \<Rightarrow> found u v | Some a \<Rightarrow> Some a)"
    using Cons.IH [of "chars w # ks" u] by metis
  have "map_of (map (\<lambda>(w, a). (chars w, a)) ws) (chars w) = None"
    using pf by (auto simp: map_of_eq_None_iff prefix_free_def image_iff split_def)
  with t' u(1) keep show ?case by (intro exI [of _ t']) (auto simp: x u(2) split: option.split)
qed

text \<open>The table of the module.\<close>

definition audit_words :: "(byte list \<times> nat \<times> nat) list" where
  "audit_words = map (\<lambda>(w, a). (chars w, a)) actions"

definition keyword_ok :: "byte list \<Rightarrow> bool" where
  "keyword_ok w \<longleftrightarrow> w \<noteq> [] \<and> \<not> isspace (hd w) \<and> hd w \<noteq> 58 \<and> 0 \<notin> set w"

lemma keywords_prefix_free: "prefix_free (map fst audit_words)"
  by code_simp

lemma keywords_ok: "list_all (\<lambda>(w, n, code). keyword_ok w \<and> n < 39 \<and> code \<in> {1 .. 5}) audit_words"
  by code_simp

lemma actions_prefix_free: "prefix_free (map (chars \<circ> fst) actions @ [])"
proof -
  have "map (chars \<circ> fst) actions @ [] = map fst audit_words" by (simp add: audit_words_def split_def)
  then show ?thesis by (simp only: keywords_prefix_free)
qed

lemma action_init_found: "\<exists>root. action_init = Inr root \<and> found root = map_of audit_words"
proof -
  obtain root where r: "insert_actions actions empty_node = Inr root" and
    "\<And>v. found root v = (case map_of (map (\<lambda>(w, a). (chars w, a)) actions) v of None \<Rightarrow> found empty_node v | Some a \<Rightarrow> Some a)"
    using insert_actions_found [OF actions_prefix_free, of empty_node] by auto
  then have "found root = map_of audit_words" by (auto simp: audit_words_def fun_eq_iff split: option.split)
  with r show ?thesis by (simp add: action_init_def)
qed

section \<open>Inside the line\<close>

text \<open>A reader starts and stops at most one byte behind the first terminator that follows the line.\<close>

lemma num_from_in_bounds:
  "\<not> good 0 \<Longrightarrow> \<exists>j i'. num_from good val base k i (us @ 0 # zs) = Inr (k + j, i') \<and> j \<le> length us"
proof (induction us arbitrary: k i)
  case (Cons u us)
  show ?case
  proof (cases "good u")
    case True
    from Cons.IH [OF Cons.prems, of "k + 1" "base * i + val u"] obtain j i' where
      "num_from good val base (k + 1) (base * i + val u) (us @ 0 # zs) = Inr (k + 1 + j, i')" "j \<le> length us" by blast
    with True show ?thesis by (intro exI [of _ "Suc j"]) auto
  next
    case False
    then show ?thesis by (auto intro: exI [of _ "0 :: nat"])
  qed
qed auto

lemma zero_no_digit: "\<not> is_digit 0" "\<not> isxdigit 0" "\<not> is_octal 0"
  by (simp_all add: is_digit_def isxdigit_def is_octal_def)

lemma atoi_unsigned_in_bounds: "\<exists>k i. action_atoi_unsigned (us @ 0 # zs) = Inr (k, i) \<and> k \<le> length us"
proof (cases us)
  case (Cons u vs)
  have dec: "\<exists>k i. num_from is_digit dec_value 10 0 0 (us @ 0 # zs) = Inr (k, i) \<and> k \<le> length us"
    using num_from_in_bounds [of is_digit dec_value 10 0 0 us zs] zero_no_digit by auto
  have oct: "\<exists>k i. num_from is_octal dec_value 8 1 0 (vs @ 0 # zs) = Inr (k, i) \<and> k \<le> length us"
    using num_from_in_bounds [of is_octal dec_value 8 1 0 vs zs] zero_no_digit Cons by auto
  show ?thesis
  proof (cases "u = 48 \<and> (\<exists>ws. vs = 120 # ws)")
    case True
    then obtain ws where "vs = 120 # ws" "u = 48" by blast
    then show ?thesis using num_from_in_bounds [of isxdigit hex_value 16 2 0 ws zs] zero_no_digit Cons
      by (auto simp: action_atoi_unsigned_def at_def)
  next
    case False
    then show ?thesis using dec oct Cons by (cases vs) (auto simp: action_atoi_unsigned_def at_def)
  qed
qed (use num_from_in_bounds [of is_digit dec_value 10 0 0 "[]" zs] zero_no_digit in
    \<open>auto simp: action_atoi_unsigned_def at_def\<close>)

lemma atoi_signed_in_bounds: "\<exists>k i. action_atoi_signed (us @ 0 # zs) = Inr (k, i) \<and> k \<le> length us"
proof (cases "\<exists>vs. us = 45 # vs")
  case True
  then obtain vs where vs: "us = 45 # vs" by blast
  from atoi_unsigned_in_bounds [of vs zs] obtain k i where
    "action_atoi_unsigned (vs @ 0 # zs) = Inr (k, i)" "k \<le> length vs" by blast
  then show ?thesis by (simp add: action_atoi_signed_def at_def vs)
next
  case False
  then have "\<exists>c. at (us @ 0 # zs) 0 = Inr c \<and> c \<noteq> 45" by (cases us) (auto simp: at_def)
  then show ?thesis using atoi_unsigned_in_bounds [of us zs] by (auto simp: action_atoi_signed_def)
qed

lemma id_from_in_bounds:
  "\<exists>j c. id_from k (us @ 0 # zs) = Inr (k + j, c) \<and> j \<le> length us \<and> c = (us @ [0]) ! j \<and> (j = length us \<longrightarrow> c = 0)"
proof (induction us arbitrary: k)
  case (Cons u us)
  show ?case
  proof (cases "u = 0 \<or> isspace u")
    case True
    then show ?thesis by (auto intro: exI [of _ "0 :: nat"])
  next
    case False
    from Cons.IH [of "k + 1"] obtain j c where
      "id_from (k + 1) (us @ 0 # zs) = Inr (k + 1 + j, c)" "j \<le> length us" "c = (us @ [0]) ! j" "j = length us \<longrightarrow> c = 0" by blast
    with False show ?thesis by (intro exI [of _ "Suc j"] exI [of _ c]) auto
  qed
qed auto

text \<open>A backslash before the terminator is the case in which the terminator is passed.\<close>

lemma unquote_in_bounds:
  "\<exists>k' out'. unquote k out (us @ 0 # z # zs) = Inr (k', out') \<and> k \<le> k' \<and> k' \<le> k + length us + 1 \<and>
     length out' \<le> length out + length us"
proof (induction "length us" arbitrary: us k out rule: less_induct)
  case less
  have step: "\<exists>k' out'. unquote (k + n) (out @ [x]) (vs @ 0 # z # zs) = Inr (k', out') \<and> k \<le> k' \<and> k' \<le> k + length us + 1 \<and>
      length out' \<le> length out + length us" if "length us = n + length vs" "0 < n" for vs n x
  proof -
    from that have "length vs < length us" by simp
    from less [OF this, of "k + n" "out @ [x]"] obtain k' out' where
      "unquote (k + n) (out @ [x]) (vs @ 0 # z # zs) = Inr (k', out')" "k + n \<le> k'" "k' \<le> k + n + length vs + 1"
      "length out' \<le> length out + 1 + length vs" by auto
    with that show ?thesis by auto
  qed
  show ?case
  proof (cases us)
    case us: (Cons c cs)
    show ?thesis
    proof (cases "c = 92")
      case False
      then show ?thesis using step [of 1 cs c] us by auto
    next
      case c: True
      show ?thesis
      proof (cases cs)
        case cs: (Cons d ds)
        show ?thesis
        proof (cases "is_octal d")
          case False
          then show ?thesis using step [of 2 ds "escaped d"] us cs c by auto
        next
          case d: True
          then have d0: "d \<noteq> 0" "d \<noteq> 34" by (auto simp: is_octal_def is_digit_def)
          show ?thesis
          proof (cases ds)
            case Nil
            then show ?thesis using step [of 2 ds "octal_digit d"] us cs c d d0 zero_no_digit by auto
          next
            case ds: (Cons e es)
            show ?thesis
            proof (cases "is_octal e")
              case False
              then show ?thesis using step [of 2 ds "octal_digit d"] us cs c d d0 ds by auto
            next
              case e: True
              show ?thesis
              proof (cases es)
                case Nil
                then show ?thesis
                  using step [of 3 es "8 * octal_digit d + octal_digit e"] us cs c d d0 ds e zero_no_digit by auto
              next
                case (Cons f fs)
                then show ?thesis
                  using step [of 3 es "8 * octal_digit d + octal_digit e"] us cs c d d0 ds e
                    step [of 4 fs "8 * (8 * octal_digit d + octal_digit e) + octal_digit f"] by (cases "is_octal f") auto
              qed
            qed
          qed
        qed
      qed (use us c in simp)
    qed
  qed simp
qed

text \<open>The line with its terminators; \<open>reads\<close>: what a reader leaves.\<close>

definition block :: "nat \<Rightarrow> nat \<Rightarrow> byte list \<Rightarrow> bool" where
  "block L z buf \<longleftrightarrow> (\<exists>us. length us = L \<and> buf = us @ 0 # 0 # replicate z 0)"

definition reads :: "nat \<Rightarrow> nat \<Rightarrow> nat \<Rightarrow> reading \<Rightarrow> bool" where
  "reads L z s r \<longleftrightarrow> (\<exists>t buf from vs. r = Inr (t, buf, from, vs) \<and> block L z buf \<and> s \<le> t \<and> t \<le> L + 1 \<and>
     from + length vs \<le> AUDITD_FIELDS)"

lemma readsI: "r = Inr (t, buf, from, vs) \<Longrightarrow> block L z buf \<Longrightarrow> s \<le> t \<Longrightarrow> t \<le> L + 1 \<Longrightarrow> from + length vs \<le> AUDITD_FIELDS \<Longrightarrow>
  reads L z s r"
  by (auto simp: reads_def)

lemma block_drop: "block L z buf \<Longrightarrow> s \<le> L \<Longrightarrow> \<exists>us. length us = L - s \<and> drop s buf = us @ 0 # 0 # replicate z 0"
  by (auto simp: block_def)

lemma block_at: "block L z buf \<Longrightarrow> i \<le> L + 1 \<Longrightarrow> at buf i = Inr (buf ! i)"
  by (auto simp: block_def at_def)

lemma block_end: "block L z buf \<Longrightarrow> i = L \<or> i = L + 1 \<Longrightarrow> buf ! i = 0"
  by (auto simp: block_def nth_append)

lemma block_upd: "block L z buf \<Longrightarrow> i < L \<Longrightarrow> block L z (buf[i := b])"
  by (auto simp: block_def list_update_append)

lemma block_put:
  assumes "block L z buf" "s + length out < L"
  shows "block L z (take s buf @ out @ 0 # drop (s + length out + 1) buf)"
proof -
  from assms(1) obtain us where "length us = L" "buf = us @ 0 # 0 # replicate z 0" by (auto simp: block_def)
  with assms(2) have "length (take s us @ out @ 0 # drop (s + length out + 1) us) = L"
    "take s buf @ out @ 0 # drop (s + length out + 1) buf = (take s us @ out @ 0 # drop (s + length out + 1) us) @ 0 # 0 # replicate z 0"
    by auto
  then show ?thesis unfolding block_def by blast
qed

lemma number_reader_reads:
  assumes "block L z buf" "s \<le> L" "n < AUDITD_FIELDS"
    and "\<And>us zs. \<exists>k i. atoi (us @ 0 # zs) = Inr (k, i) \<and> k \<le> length us"
  shows "reads L z s (number_reader atoi s n buf)"
proof -
  from block_drop [OF assms(1,2)] obtain us where us: "length us = L - s" "drop s buf = us @ 0 # 0 # replicate z 0" by blast
  from assms(4) [of us "0 # replicate z 0"] obtain k i where "atoi (us @ 0 # 0 # replicate z 0) = Inr (k, i)" "k \<le> length us" by blast
  with us assms show ?thesis by (intro readsI [of _ "s + k" buf n]) (auto simp: number_reader_def)
qed

lemma action_doer_id_reads:
  assumes "block L z buf" "s \<le> L" "n < AUDITD_FIELDS"
  shows "reads L z s (action_doer_id s n buf)"
proof -
  from block_drop [OF assms(1,2)] obtain us where us: "length us = L - s" "drop s buf = us @ 0 # 0 # replicate z 0" by blast
  from id_from_in_bounds [of 0 us "0 # replicate z 0"] obtain j c where
    j: "id_from 0 (us @ 0 # 0 # replicate z 0) = Inr (j, c)" "j \<le> length us" "j = length us \<longrightarrow> c = 0" by auto
  have "block L z (if c \<noteq> 0 then buf[s + j := 0] else buf)" using j us assms block_upd [OF assms(1), of "s + j" 0] by auto
  then show ?thesis using j us assms(2,3)
    by (intro readsI [of _ "if c \<noteq> 0 then s + j + 1 else s + j" "if c \<noteq> 0 then buf[s + j := 0] else buf" n])
      (auto simp: action_doer_id_def)
qed

lemma action_doer_string_reads:
  assumes "block L z buf" "s \<le> L" "n < AUDITD_FIELDS"
  shows "reads L z s (action_doer_string s n buf)"
proof (cases "buf ! s = 34")
  case False
  then show ?thesis using action_doer_id_reads [OF assms] block_at [OF assms(1), of s] assms(2)
    by (simp add: action_doer_string_def)
next
  case True
  with block_end [OF assms(1), of s] assms(2) have s: "s < L" by (cases "s = L") auto
  then have "s + 1 \<le> L" by simp
  from block_drop [OF assms(1) this] obtain us where us: "length us = L - (s + 1)" "drop (s + 1) buf = us @ 0 # 0 # replicate z 0"
    by blast
  from unquote_in_bounds [of 0 "[]" us 0 "replicate z 0"] obtain k out where
    k: "unquote 0 [] (us @ 0 # 0 # replicate z 0) = Inr (k, out)" "k \<le> length us + 1" "length out \<le> length us" by auto
  have "block L z (take s buf @ out @ 0 # drop (s + length out + 1) buf)"
    using block_put [OF assms(1), of s out] k(3) us(1) s by simp
  then show ?thesis using k us s True assms block_at [OF assms(1), of s]
    by (intro readsI [of _ "s + 1 + k" "take s buf @ out @ 0 # drop (s + length out + 1) buf" n])
      (auto simp: action_doer_string_def)
qed

lemma num_dec_in_bounds: "\<exists>k i. num_from is_digit dec_value 10 0 0 (us @ 0 # zs) = Inr (k, i) \<and> k \<le> length us"
  using num_from_in_bounds [of is_digit dec_value 10 0 0 us zs] zero_no_digit by auto

lemma drop_block_num:
  assumes "block L z buf" "s \<le> L" and "\<And>us zs. \<exists>k i. atoi (us @ 0 # zs) = Inr (k, i) \<and> k \<le> length us"
  shows "\<exists>k i. atoi (drop s buf) = Inr (k, i) \<and> s + k \<le> L"
proof -
  from block_drop [OF assms(1,2)] obtain us where us: "length us = L - s" "drop s buf = us @ 0 # 0 # replicate z 0" by blast
  with assms(3) [of us "0 # replicate z 0"] assms(2) show ?thesis by auto
qed

lemma action_doer_dev_reads:
  assumes "block L z buf" "s \<le> L" "n < AUDITD_FIELDS"
  shows "reads L z s (action_doer_dev s n buf)"
proof -
  from drop_block_num [OF assms(1,2) num_dec_in_bounds] obtain k major where
    k: "num_from is_digit dec_value 10 0 0 (drop s buf) = Inr (k, major)" "s + k \<le> L" by blast
  define step where "step = (if buf ! (s + k) = 58 then
      bnd (num_from is_digit dec_value 10 0 0 (drop (s + k + 1) buf)) (\<lambda>(l, minor). Inr (s + k + 1 + l, push_bit 6 major OR minor))
    else (Inr (s + k, push_bit 6 major OR 0) :: fault + nat \<times> cint))"
  have "\<exists>t i. step = Inr (t, i) \<and> s \<le> t \<and> t \<le> L"
  proof (cases "buf ! (s + k) = 58")
    case True
    with block_end [OF assms(1), of "s + k"] k(2) have "s + k + 1 \<le> L" by (cases "s + k = L") auto
    from drop_block_num [OF assms(1) this num_dec_in_bounds] True show ?thesis by (auto simp: step_def)
  qed (use k in \<open>simp add: step_def\<close>)
  then obtain t i where t: "step = Inr (t, i)" "s \<le> t" "t \<le> L" by blast
  from drop_block_num [OF assms(1) t(3) atoi_unsigned_in_bounds] obtain l j where
    l: "action_atoi_unsigned (drop t buf) = Inr (l, j)" "t + l \<le> L" by blast
  have "action_doer_dev s n buf = bnd step (\<lambda>(t, i). bnd (action_atoi_unsigned (drop t buf)) (\<lambda>(l, i). Inr (t + l, buf, n, [int_var (scast i)])))"
    using k(1) block_at [OF assms(1), of "s + k"] k(2) by (simp add: action_doer_dev_def step_def del: bnd_eq_Inr)
  then have "action_doer_dev s n buf = Inr (t + l, buf, n, [int_var (scast j)])" using t(1) l(1) by simp
  then show ?thesis by (rule readsI) (use t l assms in simp_all)
qed

text \<open>\<open>strtod\<close> reads characters of the string.\<close>

definition strtod_ok :: "clock_env \<Rightarrow> bool" where
  "strtod_ok env \<longleftrightarrow> (\<forall>us zs. 0 \<notin> set us \<longrightarrow> fst (ck_strtod env (us @ 0 # zs)) \<le> length us)"

lemma strtod_stops:
  assumes "strtod_ok env" "block L z buf" "s \<le> L" "ck_strtod env (drop s buf) = (k, time)"
  shows "s + k \<le> L" "0 < k \<Longrightarrow> buf ! (s + k - 1) \<noteq> 0"
proof -
  from block_drop [OF assms(2,3)] obtain us where us: "length us = L - s" "drop s buf = us @ 0 # 0 # replicate z 0" by blast
  then have "0 \<in> set (drop s buf)" by simp
  then obtain vs ws where vs: "drop s buf = vs @ 0 # ws" "0 \<notin> set vs" by (metis split_list_first)
  have k: "k \<le> length vs" using assms(1,4) vs unfolding strtod_ok_def by (metis fst_conv)
  have "length vs \<le> length us"
  proof (rule ccontr)
    assume "\<not> length vs \<le> length us"
    then have "(vs @ 0 # ws) ! length us = vs ! length us" "vs ! length us \<in> set vs" by (simp_all add: nth_append)
    moreover have "(us @ 0 # 0 # replicate z 0) ! length us = 0" by simp
    ultimately show False using us(2) vs by simp
  qed
  with k us(1) assms(3) show "s + k \<le> L" by simp
  show "buf ! (s + k - 1) \<noteq> 0" if "0 < k"
  proof -
    have "s \<le> length buf" using assms(2,3) by (auto simp: block_def)
    then have "buf ! (s + k - 1) = drop s buf ! (k - 1)" using that by (simp add: nth_drop)
    also have "\<dots> = vs ! (k - 1)" using k that vs(1) nth_append_left [of "k - 1" vs "0 # ws"] by simp
    also have "\<dots> \<in> set vs" using k that by simp
    finally show ?thesis using vs(2) by auto
  qed
qed

lemma time_convert_reads:
  assumes "strtod_ok env" "block L z buf" "0 < s" "s \<le> L" "buf ! (s - 1) \<noteq> 0"
  shows "\<exists>t buf' time. time_convert env s buf = Inr (t, buf', time) \<and> block L z buf' \<and> t \<le> L \<and> s \<le> t + 1 \<and>
    (buf' ! t = 0 \<longrightarrow> s \<le> t)"
proof -
  obtain k time where k: "ck_strtod env (drop s buf) = (k, time)" by (cases "ck_strtod env (drop s buf)") auto
  note stops = strtod_stops [OF assms(1,2,4) k]
  have at: "at buf (s + k) = Inr (buf ! (s + k))" using block_at [OF assms(2)] stops(1) by simp
  show ?thesis
  proof (cases "buf ! (s + k) = 58 \<or> buf ! (s + k) = 41")
    case True
    with block_end [OF assms(2), of "s + k"] stops(1) have l: "s + k < L" by (cases "s + k = L") auto
    with block_upd [OF assms(2) this, of 0] at True k show ?thesis by (auto simp: time_convert_def)
  next
    case False
    have "buf ! (s + k - 1) \<noteq> 0" using stops(2) assms(5) by (cases "k = 0") simp_all
    with False at k assms(2,3) stops(1) show ?thesis by (auto simp: time_convert_def)
  qed
qed

lemma action_doer_audit_reads:
  assumes "strtod_ok env" "block L z buf" "0 < s" "s \<le> L" "buf ! (s - 1) \<noteq> 0"
  shows "reads L z s (action_doer_audit env s n buf)"
proof -
  obtain t buf' time where t: "time_convert env s buf = Inr (t, buf', time)" "block L z buf'" "t \<le> L" "s \<le> t + 1"
    "buf' ! t = 0 \<longrightarrow> s \<le> t" using time_convert_reads [OF assms] by blast
  obtain sec usec where time: "time = (sec, usec)" by (cases time)
  define fin where "fin = (if buf' ! t \<noteq> 0 then
      bnd (action_atoi_unsigned (drop (t + 1) buf')) (\<lambda>(k, serial).
      bnd (at buf' (t + 1 + k)) (\<lambda>d. Inr (if d = 41 then t + 1 + k + 1 else t + 1 + k, serial)))
    else (Inr (t, 0) :: fault + nat \<times> cint))"
  have "\<exists>u i. fin = Inr (u, i) \<and> s \<le> u \<and> u \<le> L"
  proof (cases "buf' ! t = 0")
    case False
    with block_end [OF t(2), of t] t(3) have t1: "t + 1 \<le> L" by (cases "t = L") auto
    from drop_block_num [OF t(2) t1 atoi_unsigned_in_bounds] obtain k i where
      k: "action_atoi_unsigned (drop (t + 1) buf') = Inr (k, i)" "t + 1 + k \<le> L" by blast
    have at: "at buf' (Suc (t + k)) = Inr (buf' ! (Suc (t + k)))" using block_at [OF t(2), of "t + 1 + k"] k(2) by simp
    have "t + 1 + k + 1 \<le> L" if "buf' ! (Suc (t + k)) = 41"
      using block_end [OF t(2), of "t + 1 + k"] k(2) that by (cases "t + 1 + k = L") auto
    with False k at t(4) show ?thesis by (auto simp: fin_def)
  qed (use t in \<open>simp add: fin_def\<close>)
  then obtain u i where u: "fin = Inr (u, i)" "s \<le> u" "u \<le> L" by blast
  have "at buf' t = Inr (buf' ! t)" using block_at [OF t(2)] t(3) by simp
  then have "action_doer_audit env s n buf = bnd fin (\<lambda>(t, serial). Inr (t, buf', F_AUDITD_TIME,
       [ovm_timeval_new\<lparr>vdata := VTimeval sec usec, vflags := TYPE_MONO\<rparr>,
        (int_var (scast serial))\<lparr>vflags := vflags (int_var (scast serial)) OR TYPE_MONO\<rparr>]))"
    using t(1) by (simp add: action_doer_audit_def fin_def time del: bnd_eq_Inr)
  also have "\<dots> = Inr (u, buf', F_AUDITD_TIME,
       [ovm_timeval_new\<lparr>vdata := VTimeval sec usec, vflags := TYPE_MONO\<rparr>,
        (int_var (scast i))\<lparr>vflags := vflags (int_var (scast i)) OR TYPE_MONO\<rparr>])" by (simp add: u(1))
  finally show ?thesis by (rule readsI) (use u t(2) in \<open>simp_all add: F_AUDITD_TIME_def AUDITD_FIELDS_def\<close>)
qed

lemma action_doer_reads:
  assumes "strtod_ok env" "block L z buf" "0 < s" "s \<le> L" "buf ! (s - 1) \<noteq> 0" "n < AUDITD_FIELDS" "code \<in> {1 .. 5}"
  shows "reads L z s (action_doer env code s n buf)"
proof -
  have "reads L z s (action_doer_int s n buf)" "reads L z s (action_doer_hex s n buf)"
    unfolding action_doer_int_def action_doer_hex_def
  proof -
    show "reads L z s (number_reader action_atoi_signed s n buf)"
      by (rule number_reader_reads [OF assms(2,4,6) atoi_signed_in_bounds])
    have "\<exists>k i. action_atoi_hex (us @ 0 # zs) = Inr (k, i) \<and> k \<le> length us" for us zs
      using num_from_in_bounds [of isxdigit hex_value 16 0 0 us zs] zero_no_digit by (auto simp: action_atoi_hex_def)
    then show "reads L z s (number_reader action_atoi_hex s n buf)" by (rule number_reader_reads [OF assms(2,4,6)])
  qed
  with action_doer_audit_reads [OF assms(1-5)] action_doer_string_reads [OF assms(2,4,6)] action_doer_dev_reads [OF assms(2,4,6)]
    assms(7) show ?thesis
    by (auto simp: action_doer_def ACTION_AUDIT_def ACTION_INT_def ACTION_HEX_def ACTION_STRING_def ACTION_DEV_def)
qed

section \<open>The loop\<close>

text \<open>Every keyword of the tree has a reader and a field.\<close>

definition tree_ok :: "action_tree \<Rightarrow> bool" where
  "tree_ok root \<longleftrightarrow> (\<forall>w n code. found root w = Some (n, code) \<longrightarrow> w \<noteq> [] \<and> n < AUDITD_FIELDS \<and> code \<in> {1 .. 5})"

lemma walk_snoc: "walk root w = Some (Proceed f) \<Longrightarrow> walk root (w @ [c]) = f c"
proof (induction root w rule: walk.induct)
  case (1 t)
  then show ?case by (simp split: option.split)
qed (auto split: option.splits)

lemma tree_ok_root: "tree_ok root \<Longrightarrow> \<exists>f. root = Proceed f"
  by (cases root) (simp, force simp: tree_ok_def found_Found)

lemma parse_from_in_bounds:
  assumes "strtod_ok env" "tree_ok root"
    and fill: "\<And>from vs st. from + length vs \<le> AUDITD_FIELDS \<Longrightarrow> I st \<Longrightarrow> \<exists>st'. fill from vs st = Inr st' \<and> I st'"
  shows "block L z buf \<Longrightarrow> s \<le> L + 1 \<Longrightarrow> L + 2 \<le> s + k \<Longrightarrow> walk root w = Some (Proceed f) \<Longrightarrow> (\<not> mid \<longrightarrow> w = []) \<Longrightarrow> I st \<Longrightarrow>
    \<exists>buf' st'. parse_from env fill root k mid (Proceed f) s buf st = Inr (buf', st') \<and> block L z buf' \<and> I st'"
proof (induction k arbitrary: s buf st w f mid)
  case (Suc k)
  have at: "at buf s = Inr (buf ! s)" using block_at Suc.prems(1,2) by simp
  show ?case
  proof (cases "buf ! s = 0")
    case True
    with at Suc.prems show ?thesis by simp
  next
    case False
    with block_end [OF Suc.prems(1), of s] Suc.prems(2) have s: "s < L" by (cases "s = L"; cases "s = L + 1") auto
    obtain g where g: "root = Proceed g" using tree_ok_root [OF assms(2)] by blast
    have step: "s + 1 \<le> L + 1" "L + 2 \<le> s + 1 + k" using s Suc.prems(3) by simp_all
    show ?thesis
    proof (cases "\<not> mid \<and> isspace (buf ! s)")
      case True
      with Suc.IH [OF Suc.prems(1) step Suc.prems(4,5,6)] at False show ?thesis by simp
    next
      case ns: False
      show ?thesis
      proof (cases "f (buf ! s)")
        case None
        have "walk root [] = Some (Proceed g)" by (simp add: g)
        from Suc.IH [OF Suc.prems(1) step this, of False] Suc.prems(6) at False ns None g show ?thesis by (cases mid) simp_all
      next
        case (Some t)
        have wt: "walk root (w @ [buf ! s]) = Some t" using walk_snoc [OF Suc.prems(4)] Some by simp
        show ?thesis
        proof (cases t)
          case (Proceed h)
          with wt have "walk root (w @ [buf ! s]) = Some (Proceed h)" by simp
          from Suc.IH [OF Suc.prems(1) step this, of True] Suc.prems(6) at False ns Some Proceed show ?thesis by (cases mid) simp_all
        next
          case (Found code n)
          with wt have "found root (w @ [buf ! s]) = Some (n, code)" by (simp add: found_def)
          with assms(2) have n: "n < AUDITD_FIELDS" "code \<in> {1 .. 5}" by (auto simp: tree_ok_def)
          have "reads L z (s + 1) (action_doer env code (s + 1) n buf)"
            using action_doer_reads [OF assms(1) Suc.prems(1) _ _ _ n, of "s + 1"] s False by simp
          then obtain u buf' n' vs where u: "action_doer env code (s + 1) n buf = Inr (u, buf', n', vs)" "block L z buf'"
            "s + 1 \<le> u" "u \<le> L + 1" "n' + length vs \<le> AUDITD_FIELDS" by (auto simp: reads_def)
          obtain st' where st': "fill n' vs st = Inr st'" "I st'" using fill [OF u(5) Suc.prems(6)] by blast
          have "walk root [] = Some (Proceed g)" by (simp add: g)
          from Suc.IH [OF u(2,4) _ this _ st'(2), of False] u(3) step(2) obtain buf'' st'' where
            "parse_from env fill root k False root u buf' st' = Inr (buf'', st'')" "block L z buf''" "I st''" by (auto simp: g)
          with at False ns Some Found u(1) st'(1) show ?thesis by (cases mid) simp_all
        qed
      qed
    qed
  qed
qed simp

lemma action_init_ok: "action_init = Inr root \<Longrightarrow> tree_ok root"
proof -
  assume "action_init = Inr root"
  with action_init_found have f: "found root = map_of audit_words" by (metis sum.inject(2))
  have "w \<noteq> [] \<and> n < AUDITD_FIELDS \<and> code \<in> {1 .. 5}" if "map_of audit_words w = Some (n, code)" for w n code
    using keywords_ok map_of_SomeD [OF that] by (auto simp: list_all_iff keyword_ok_def AUDITD_FIELDS_def)
  with f show ?thesis by (simp add: tree_ok_def)
qed

section \<open>The fields\<close>

text \<open>The fields that readers give, one after the other.\<close>

fun fills :: "(nat \<Rightarrow> ovm_var list \<Rightarrow> 's \<Rightarrow> fault + 's) \<Rightarrow> (nat \<times> ovm_var list) list \<Rightarrow> 's \<Rightarrow> fault + 's" where
  "fills fill [] st = Inr st"
| "fills fill ((n, vs) # rs) st = bnd (fill n vs st) (fills fill rs)"

definition numbered :: "(nat \<times> ovm_var list) list \<Rightarrow> (nat \<times> ovm_var) list" where
  "numbered rs = concat (map (\<lambda>(n, vs). zip [n..<n + length vs] vs) rs)"

fun alloc_all :: "ovm_var list \<Rightarrow> ovm \<Rightarrow> ovm" where
  "alloc_all [] m = m"
| "alloc_all (v # vs) m = alloc_all vs (snd (alloc v m))"

lemma alloc_all_append: "alloc_all (vs @ ws) m = alloc_all ws (alloc_all vs m)"
  by (induction vs arbitrary: m) auto

lemma fresh_alloc_all [simp]: "fresh (alloc_all vs m) = fresh m + length vs"
  by (induction vs arbitrary: m) (auto simp: alloc_def)

lemma heap_alloc_all:
  "heap (alloc_all vs m) a = (if fresh m \<le> a \<and> a < fresh m + length vs then Some (vs ! (a - fresh m)) else heap m a)"
proof (induction vs arbitrary: m)
  case (Cons v vs)
  show ?case unfolding alloc_all.simps Cons.IH
    by (auto simp: alloc_def nth_Cons' Suc_le_eq)
qed auto

lemma alloc_attrs_all: "alloc_attrs (map Some vs) m = (map Value [fresh m..<fresh m + length vs], alloc_all vs m)"
proof (induction vs arbitrary: m)
  case (Cons v vs)
  have "[fresh m..<fresh m + length (v # vs)] = fresh m # [Suc (fresh m)..<Suc (fresh m) + length vs]"
    by (simp del: upt_Suc add: upt_rec [of "fresh m"])
  then show ?case using Cons.IH [of "snd (alloc v m)"] by (simp add: alloc_def)
qed simp

lemma slot_fields_zip: "slot_fields i (map Value as) = zip [i..<i + length as] (map Some as)"
proof (induction as arbitrary: i)
  case (Cons a as)
  have "[i..<i + length (a # as)] = i # [i + 1..<i + 1 + length as]" by (simp del: upt_Suc add: upt_rec [of i])
  then show ?case using Cons.IH [of "i + 1"] by simp
qed simp

text \<open>The module has its fields, and they are active.\<close>

definition auditd_ready :: "nat \<Rightarrow> 'a orchids_scheme \<Rightarrow> bool" where
  "auditd_ready m s \<longleftrightarrow> m < length (o_mods s) \<and> active_from (me_first_field (o_mods s ! m)) AUDITD_FIELDS (o_fields s)"

definition with_vars :: "ovm_var list \<Rightarrow> 'a orchids_scheme \<Rightarrow> 'a orchids_scheme" where
  "with_vars vs s = s\<lparr>o_engine := (o_engine s)\<lparr>vm := alloc_all vs (vm (o_engine s))\<rparr>\<rparr>"

lemma fill_event_ready:
  assumes "auditd_ready m s" "n + length vs \<le> AUDITD_FIELDS"
  shows "fill_event m n vs (ev, s) =
    Inr (rev (zip [me_first_field (o_mods s ! m) + n..<me_first_field (o_mods s ! m) + n + length vs]
      (map Some [fresh (vm (o_engine s))..<fresh (vm (o_engine s)) + length vs])) @ ev, with_vars vs s)"
proof -
  let ?f = "me_first_field (o_mods s ! m)"
  let ?tbl = "map Value [fresh (vm (o_engine s))..<fresh (vm (o_engine s)) + length vs]"
  have "active_from (?f + n) (length ?tbl) (o_fields (with_vars vs s))"
    using assms by (auto simp: auditd_ready_def active_from_def with_vars_def)
  from add_fields_active [OF this, of ev] assms(1) show ?thesis
    by (simp add: fill_event_def alloc_attrs_all add_fields_to_event_stride_def auditd_ready_def with_vars_def slot_fields_zip
        del: bnd_eq_Inr)
qed

lemma with_vars_ready: "auditd_ready m (with_vars vs s) = auditd_ready m s" "o_mods (with_vars vs s) = o_mods s"
  by (simp_all add: auditd_ready_def with_vars_def)

definition new_fields :: "nat \<Rightarrow> nat \<Rightarrow> (nat \<times> ovm_var) list \<Rightarrow> event" where
  "new_fields first a nvs = rev (zip (map (\<lambda>(n, v). first + n) nvs) (map Some [a..<a + length nvs]))"

lemma new_fields_append: "new_fields first a (xs @ ys) = new_fields first (a + length xs) ys @ new_fields first a xs"
proof -
  have u: "[a..<a + length (xs @ ys)] = [a..<a + length xs] @ [a + length xs..<a + length xs + length ys]"
    using upt_add_eq_append [of a "a + length xs" "length ys"] by (simp add: add.assoc)
  have "zip (map (\<lambda>(n, v). first + n) (xs @ ys)) (map Some [a..<a + length (xs @ ys)]) =
      zip (map (\<lambda>(n, v). first + n) xs) (map Some [a..<a + length xs]) @
      zip (map (\<lambda>(n, v). first + n) ys) (map Some [a + length xs..<a + length xs + length ys])"
    unfolding u map_append by (rule zip_append) simp
  then show ?thesis by (simp only: new_fields_def rev_append)
qed

lemma new_fields_zip: "new_fields first a (zip [n..<n + length vs] vs) =
  rev (zip [first + n..<first + n + length vs] (map Some [a..<a + length vs]))"
proof -
  have "map (\<lambda>(n, v). first + n) (zip [n..<n + length vs] vs) = map ((+) first) (map fst (zip [n..<n + length vs] vs))"
    by (simp only: map_map comp_def split_def)
  also have "\<dots> = map ((+) first) [n..<n + length vs]" by simp
  also have "\<dots> = [first + n..<first + n + length vs]"
    by (rule nth_equalityI) auto
  finally show ?thesis by (simp add: new_fields_def)
qed

lemma fills_event:
  assumes "auditd_ready m s" "\<forall>(n, vs) \<in> set rs. n + length vs \<le> AUDITD_FIELDS"
  shows "fills (fill_event m) rs (ev, s) =
    Inr (new_fields (me_first_field (o_mods s ! m)) (fresh (vm (o_engine s))) (numbered rs) @ ev, with_vars (map snd (numbered rs)) s)"
  using assms
proof (induction rs arbitrary: ev s)
  case Nil
  then show ?case by (simp add: numbered_def new_fields_def with_vars_def)
next
  case (Cons x rs)
  obtain n vs where x: "x = (n, vs)" by (cases x)
  have num: "numbered (x # rs) = zip [n..<n + length vs] vs @ numbered rs" by (simp add: numbered_def x)
  have "with_vars (map snd (numbered rs)) (with_vars vs s) = with_vars (map snd (numbered (x # rs))) s"
    by (simp add: num with_vars_def alloc_all_append)
  moreover have "fill_event m n vs (ev, s) =
      Inr (new_fields (me_first_field (o_mods s ! m)) (fresh (vm (o_engine s))) (zip [n..<n + length vs] vs) @ ev, with_vars vs s)"
    using fill_event_ready [OF Cons.prems(1), of n vs ev] Cons.prems(2) by (simp add: x new_fields_zip)
  ultimately show ?case using Cons.IH [of "with_vars vs s"] Cons.prems
    by (simp add: x with_vars_ready num [unfolded x] new_fields_append del: bnd_eq_Inr) (simp add: with_vars_def)
qed

section \<open>Values and what is read for them\<close>

text \<open>
  The values of a line: numbers, hexadecimal numbers, words, quoted strings, the major and minor number of a device,
  and a stamp, which has the seconds, the first digit of the serial number and the other digits.
\<close>

datatype audit_value = Number int | Hexa nat | Bare "byte list" | Quoted "byte list" | Device nat nat | Stamp "byte list" nat "nat list"

fun hex_digits :: "nat \<Rightarrow> byte list" where
  "hex_digits n = (if n < 16 then [of_nat (if n < 10 then 48 + n else 87 + n)]
     else hex_digits (n div 16) @ [of_nat (if n mod 16 < 10 then 48 + n mod 16 else 87 + n mod 16)])"

declare hex_digits.simps [simp del]

definition write_int :: "int \<Rightarrow> byte list" where
  "write_int i = (if i < 0 then 45 # dec_digits (nat (- i)) else dec_digits (nat i))"

definition quote_byte :: "byte \<Rightarrow> byte list" where
  "quote_byte b = (if b = 92 then [92, 92] else if b = 10 then [92, 110] else [b])"

fun write_value :: "audit_value \<Rightarrow> byte list" where
  "write_value (Number i) = write_int i"
| "write_value (Hexa n) = hex_digits n"
| "write_value (Bare w) = w"
| "write_value (Quoted w) = 34 # concat (map quote_byte w) @ [34]"
| "write_value (Device major minor) = dec_digits major @ 58 # dec_digits minor"
| "write_value (Stamp secs d ks) = secs @ 58 # of_nat (48 + d) # map (\<lambda>k. of_nat (48 + k)) ks @ [41, 58]"

definition stamp_time :: "clock_env \<Rightarrow> byte list \<Rightarrow> clong \<times> clong" where
  "stamp_time env secs = snd (ck_strtod env (secs @ [58]))"

text \<open>A serial number is read from its second digit on, and is octal if that is a zero.\<close>

definition serial_base :: "nat list \<Rightarrow> nat" where
  "serial_base ks = (case ks of 0 # _ \<Rightarrow> 8 | _ \<Rightarrow> 10)"

definition serial_value :: "nat list \<Rightarrow> nat" where
  "serial_value ks = foldl (\<lambda>i k. serial_base ks * i + k) 0 ks"

fun fits_code :: "clock_env \<Rightarrow> nat \<Rightarrow> audit_value \<Rightarrow> bool" where
  "fits_code env code (Number i) \<longleftrightarrow> code = ACTION_INT \<and> - (2 ^ 31) \<le> i \<and> i < 2 ^ 31"
| "fits_code env code (Hexa n) \<longleftrightarrow> code = ACTION_HEX \<and> n < 2 ^ 32"
| "fits_code env code (Bare w) \<longleftrightarrow> code = ACTION_STRING \<and> (\<forall>b \<in> set w. b \<noteq> 0 \<and> \<not> isspace b) \<and> (w = [] \<or> hd w \<noteq> 34)"
| "fits_code env code (Quoted w) \<longleftrightarrow> code = ACTION_STRING \<and> 0 \<notin> set w \<and> 34 \<notin> set w"
| "fits_code env code (Device major minor) \<longleftrightarrow> code = ACTION_DEV"
| "fits_code env code (Stamp secs d ks) \<longleftrightarrow> code = ACTION_AUDIT \<and> d < 10 \<and>
     (\<forall>k \<in> set ks. k < serial_base ks) \<and> serial_value ks < 2 ^ 31 \<and>
     (\<forall>x. ck_strtod env (secs @ 58 # x) = (length secs, stamp_time env secs))"

text \<open>The field at which the variables begin, and the variables.  A hexadecimal number is read into 32 bits with a sign,
  the device is zero, and the serial number has lost its first digit.\<close>

definition time_var :: "clong \<times> clong \<Rightarrow> ovm_var" where
  "time_var t = ovm_timeval_new\<lparr>vdata := VTimeval (fst t) (snd t), vflags := TYPE_MONO\<rparr>"

fun value_reading :: "clock_env \<Rightarrow> nat \<Rightarrow> audit_value \<Rightarrow> nat \<times> ovm_var list" where
  "value_reading env n (Number i) = (n, [int_var (word_of_int i)])"
| "value_reading env n (Hexa k) = (n, [int_var (word_of_int (if k < 2 ^ 31 then int k else int k - 2 ^ 32))])"
| "value_reading env n (Bare w) = (n, [vstr w])"
| "value_reading env n (Quoted w) = (n, [vstr w])"
| "value_reading env n (Device major minor) = (n, [int_var 0])"
| "value_reading env n (Stamp secs d ks) =
     (F_AUDITD_TIME, [time_var (stamp_time env secs), (int_var (of_nat (serial_value ks)))\<lparr>vflags := TYPE_MONO\<rparr>])"

lemma num_from_found:
  "list_all good ds \<Longrightarrow> \<not> good b \<Longrightarrow>
   num_from good val base k i (ds @ b # rest) = Inr (k + length ds, foldl (\<lambda>i b. base * i + val b) i ds)"
  by (induction ds arbitrary: k i) auto

lemma small_digit: "d < 10 \<Longrightarrow> d \<in> {0, 1, 2, 3, 4, 5, 6, 7, 8, 9 :: nat}"
  by auto

lemma dec_value_digit: "d < 10 \<Longrightarrow> dec_value (of_nat (48 + d)) = of_nat d"
  by (drule small_digit) (auto simp: dec_value_def)

lemma dec_digits_word: "foldl (\<lambda>i b. 10 * i + dec_value b) 0 (dec_digits n) = of_nat n"
proof (induction n rule: dec_digits.induct)
  case (1 n)
  show ?case
  proof (cases "n < 10")
    case True
    then show ?thesis by (subst dec_digits.simps) (simp add: dec_value_digit del: of_nat_add)
  next
    case False
    have "foldl (\<lambda>i b. 10 * i + dec_value b) 0 (dec_digits n) = 10 * of_nat (n div 10) + of_nat (n mod 10)"
      using False 1 by (subst dec_digits.simps) (simp add: dec_value_digit del: of_nat_add)
    also have "\<dots> = of_nat (10 * (n div 10) + n mod 10)" by (simp only: of_nat_add of_nat_mult of_nat_numeral)
    also have "10 * (n div 10) + n mod 10 = n" by simp
    finally show ?thesis .
  qed
qed

lemma hex_digit_facts:
  assumes "d < 16"
  shows "isxdigit (of_nat (if d < 10 then 48 + d else 87 + d)) \<and> hex_value (of_nat (if d < 10 then 48 + d else 87 + d)) = of_nat d"
proof -
  have "list_all (\<lambda>d. isxdigit (of_nat (if d < 10 then 48 + d else 87 + d)) \<and>
      hex_value (of_nat (if d < 10 then 48 + d else 87 + d)) = of_nat d) [0..<16]" by code_simp
  with assms show ?thesis by (simp add: list_all_iff)
qed

lemma hex_digits_word: "list_all isxdigit (hex_digits n) \<and> foldl (\<lambda>i b. 16 * i + hex_value b) 0 (hex_digits n) = of_nat n"
proof (induction n rule: hex_digits.induct)
  case (1 n)
  show ?case
  proof (cases "n < 16")
    case True
    then show ?thesis using hex_digit_facts [of n] by (subst (1 2) hex_digits.simps) simp
  next
    case False
    have "foldl (\<lambda>i b. 16 * i + hex_value b) 0 (hex_digits n) = 16 * of_nat (n div 16) + of_nat (n mod 16)"
      using False 1 hex_digit_facts [of "n mod 16"] by (subst hex_digits.simps) simp
    also have "\<dots> = of_nat (16 * (n div 16) + n mod 16)" by (simp only: of_nat_add of_nat_mult of_nat_numeral)
    also have "16 * (n div 16) + n mod 16 = n" by simp
    finally have "foldl (\<lambda>i b. 16 * i + hex_value b) 0 (hex_digits n) = of_nat n" .
    moreover have "list_all isxdigit (hex_digits n)"
      using False 1 hex_digit_facts [of "n mod 16"] by (subst hex_digits.simps) simp
    ultimately show ?thesis by blast
  qed
qed

lemma dec_digits_first: "0 < n \<Longrightarrow> \<exists>b bs. dec_digits n = b # bs \<and> b \<noteq> 48 \<and> b \<noteq> 45"
proof (induction n rule: dec_digits.induct)
  case (1 n)
  show ?case
  proof (cases "n < 10")
    case True
    with 1 show ?thesis by (subst dec_digits.simps) (drule small_digit, auto)
  next
    case False
    with 1 have "\<exists>b bs. dec_digits (n div 10) = b # bs \<and> b \<noteq> 48 \<and> b \<noteq> 45" by simp
    with False show ?thesis by (subst dec_digits.simps) auto
  qed
qed

lemma dec_digits_zero: "dec_digits 0 = [48]"
  by (simp add: dec_digits.simps)

lemma atoi_unsigned_dec:
  assumes "\<not> is_digit b" "b \<noteq> 120"
  shows "action_atoi_unsigned (dec_digits n @ b # rest) = Inr (length (dec_digits n), of_nat n)"
proof (cases "n = 0")
  case True
  have "is_octal 48" "dec_value 48 = 0" by (simp_all add: is_octal_def is_digit_def dec_value_def)
  moreover have "\<not> is_octal b" using assms(1) by (simp add: is_octal_def)
  ultimately show ?thesis using True assms(2) by (simp add: action_atoi_unsigned_def dec_digits_zero at_def)
next
  case False
  then obtain c cs where "dec_digits n = c # cs" "c \<noteq> 48" using dec_digits_first by blast
  then have "action_atoi_unsigned (dec_digits n @ b # rest) = num_from is_digit dec_value 10 0 0 (dec_digits n @ b # rest)"
    by (simp add: action_atoi_unsigned_def at_def)
  then show ?thesis using num_from_found [OF dec_digits_digits assms(1), of dec_value 10 0 0 n rest] dec_digits_word [of n] by simp
qed

lemma atoi_signed_int:
  assumes "\<not> is_digit b" "b \<noteq> 120"
  shows "action_atoi_signed (write_int i @ b # rest) = Inr (length (write_int i), word_of_int i)"
proof (cases "i < 0")
  case True
  have "- (of_nat (nat (- i)) :: cint) = word_of_int i" using True by simp
  with True atoi_unsigned_dec [OF assms, of "nat (- i)" rest] show ?thesis
    by (simp add: action_atoi_signed_def write_int_def at_def)
next
  case False
  have "(of_nat (nat i) :: cint) = word_of_int i" using False by simp
  moreover have "\<exists>c. at (dec_digits (nat i) @ b # rest) 0 = Inr c \<and> c \<noteq> 45"
    using dec_digits_first [of "nat i"] by (cases "nat i = 0") (auto simp: dec_digits_zero at_def)
  ultimately show ?thesis using False atoi_unsigned_dec [OF assms, of "nat i" rest]
    by (auto simp: action_atoi_signed_def write_int_def)
qed

lemma id_from_found:
  "\<forall>b \<in> set w. b \<noteq> 0 \<and> \<not> isspace b \<Longrightarrow> c = 0 \<or> isspace c \<Longrightarrow> id_from k (w @ c # rest) = Inr (k + length w, c)"
  by (induction w arbitrary: k) auto

lemma unquote_found:
  "0 \<notin> set w \<Longrightarrow> 34 \<notin> set w \<Longrightarrow>
   unquote k out (concat (map quote_byte w) @ 34 # rest) = Inr (k + length (concat (map quote_byte w)) + 1, out @ w)"
proof (induction w arbitrary: k out)
  case (Cons c w)
  consider "c = 92" | "c = 10" | "c \<noteq> 92" "c \<noteq> 10" by blast
  then show ?case
  proof cases
    case 1
    then show ?thesis using Cons.IH [of "k + 2" "out @ [92]"] Cons.prems
      by (simp add: quote_byte_def is_octal_def is_digit_def escaped_def)
  next
    case 2
    then show ?thesis using Cons.IH [of "k + 2" "out @ [10]"] Cons.prems
      by (simp add: quote_byte_def is_octal_def is_digit_def escaped_def)
  next
    case 3
    then show ?thesis using Cons.IH [of "k + 1" "out @ [c]"] Cons.prems by (simp add: quote_byte_def)
  qed
qed simp

section \<open>A value in its line\<close>

lemma drop_at: "drop s buf = c # cs \<Longrightarrow> at buf s = Inr c"
  by (metis at_def drop_eq_Nil2 hd_drop_conv_nth list.distinct(1) list.sel(1) not_le)

lemma drop_skip: "drop s buf = us @ vs \<Longrightarrow> drop (s + length us) buf = vs"
  by (metis add.commute append_eq_conv_conj drop_drop)

lemma drop_update: "drop s buf = us @ vs \<Longrightarrow> i < length us \<Longrightarrow> drop (s + length us) (buf[s + i := b]) = vs"
  using drop_skip [of s buf us vs] by simp

lemma number_reader_found:
  assumes "drop s buf = ds @ b # rest" "atoi (ds @ b # rest) = Inr (length ds, i)"
  shows "number_reader atoi s n buf = Inr (s + length ds, buf, n, [int_var (scast i)])" and "drop (s + length ds) buf = b # rest"
  using assms drop_skip [OF assms(1)] by (simp_all add: number_reader_def)

text \<open>Where the loop goes on: at the separator, behind it, or, after a stamp, at a colon.\<close>

definition goes_on :: "bool \<Rightarrow> byte \<Rightarrow> byte list \<Rightarrow> byte list \<Rightarrow> bool" where
  "goes_on colon b rest bs \<longleftrightarrow> bs = b # rest \<or> b = 32 \<and> bs = rest \<or> colon \<and> bs = 58 # b # rest"

fun is_stamp :: "audit_value \<Rightarrow> bool" where
  "is_stamp (Stamp _ _ _) = True"
| "is_stamp _ = False"

lemma separator: "b = 0 \<or> b = 32 \<Longrightarrow> \<not> is_digit b \<and> \<not> isxdigit b \<and> b \<noteq> 120 \<and> b \<noteq> 58 \<and> (b = 0 \<or> isspace b)"
  by (auto simp: is_digit_def isxdigit_def isspace_def)

lemma scast_int: "- (2 ^ 31) \<le> i \<Longrightarrow> i < 2 ^ 31 \<Longrightarrow> (scast (word_of_int i :: cint) :: clong) = word_of_int i"
proof -
  assume "- (2 ^ 31) \<le> i" "i < 2 ^ 31"
  then have "sint (word_of_int i :: cint) = i" by (simp add: sint_sbintrunc' signed_take_bit_int_eq_self)
  then show ?thesis by (simp only: scast_eq)
qed

lemma digits_value:
  "\<forall>k \<in> set ks. k < 10 \<Longrightarrow>
   foldl (\<lambda>i b. of_nat base * i + dec_value b) (of_nat i) (map (\<lambda>k. of_nat (48 + k)) ks) =
     of_nat (foldl (\<lambda>i k. base * i + k) i ks)"
proof (induction ks arbitrary: i)
  case (Cons k ks)
  then have "of_nat base * of_nat i + dec_value (of_nat (48 + k)) = of_nat (base * i + k)"
    by (simp add: dec_value_digit del: of_nat_add) simp
  with Cons show ?case by (simp del: of_nat_add of_nat_mult)
qed simp

lemma digit_facts:
  assumes "k < 10"
  shows "is_digit (of_nat (48 + k)) \<and> is_octal (of_nat (48 + k)) = (k < 8) \<and> ((of_nat (48 + k) :: byte) = 48) = (k = 0) \<and>
    (of_nat (48 + k) :: byte) \<noteq> 120"
proof -
  have "list_all (\<lambda>k. is_digit (of_nat (48 + k)) \<and> is_octal (of_nat (48 + k)) = (k < 8) \<and>
      ((of_nat (48 + k) :: byte) = 48) = (k = 0) \<and> (of_nat (48 + k) :: byte) \<noteq> 120) [0..<10]" by code_simp
  with assms show ?thesis by (simp add: list_all_iff)
qed

lemma atoi_unsigned_serial:
  assumes "\<forall>k \<in> set ks. k < serial_base ks" and "\<not> is_digit b" "b \<noteq> 120" "b \<noteq> 48"
  shows "action_atoi_unsigned (map (\<lambda>k. of_nat (48 + k)) ks @ b # rest) = Inr (length ks, of_nat (serial_value ks))"
proof -
  let ?ds = "map (\<lambda>k. of_nat (48 + k) :: byte) ks"
  have small: "\<forall>k \<in> set ks. k < 10" using assms(1) by (fastforce simp: serial_base_def split: list.splits nat.splits)
  have b: "\<not> is_octal b" using assms(2) by (simp add: is_octal_def)
  show ?thesis
  proof (cases "\<exists>us. ks = 0 # us")
    case True
    then obtain us where ks: "ks = 0 # us" by blast
    have "\<exists>c. at (?ds @ b # rest) 1 = Inr c \<and> c \<noteq> 120"
      using digit_facts small assms(3) by (cases us) (auto simp: ks at_def simp del: of_nat_add)
    moreover have "at (?ds @ b # rest) 0 = Inr 48" by (simp add: ks at_def)
    moreover have "list_all is_octal (map (\<lambda>k. of_nat (48 + k)) us)"
      using digit_facts small assms(1) by (auto simp: ks serial_base_def list_all_iff simp del: of_nat_add)
    note num_from_found [OF this b, of dec_value 8 1 0 rest]
    moreover have "foldl (\<lambda>i b. 8 * i + dec_value b) 0 (map (\<lambda>k. of_nat (48 + k)) us) = of_nat (serial_value ks)"
      using digits_value [of us 8 0] small by (simp add: ks serial_value_def serial_base_def)
    ultimately show ?thesis by (auto simp: action_atoi_unsigned_def ks)
  next
    case False
    then have base: "serial_base ks = 10" by (auto simp: serial_base_def split: list.splits nat.splits)
    have "\<exists>c. at (?ds @ b # rest) 0 = Inr c \<and> c \<noteq> 48"
      using False digit_facts small assms(4) by (cases ks) (auto simp: at_def simp del: of_nat_add)
    moreover have "list_all is_digit ?ds" using digit_facts small by (auto simp: list_all_iff simp del: of_nat_add)
    note num_from_found [OF this assms(2), of dec_value 10 0 0 rest]
    moreover have "foldl (\<lambda>i b. 10 * i + dec_value b) 0 ?ds = of_nat (serial_value ks)"
      using digits_value [of ks 10 0] small by (simp add: serial_value_def base)
    ultimately show ?thesis by (auto simp: action_atoi_unsigned_def)
  qed
qed

lemma hexa_extended:
  assumes "k < 2 ^ 32"
  shows "(scast (of_nat k :: cint) :: clong) = word_of_int (if k < 2 ^ 31 then int k else int k - 2 ^ 32)"
proof -
  have "sint (of_nat k :: cint) = signed_take_bit 31 (int k)" by (simp add: signed_of_nat)
  also have "\<dots> = (if k < 2 ^ 31 then int k else int k - 2 ^ 32)"
  proof (cases "k < 2 ^ 31")
    case True
    then show ?thesis by (simp add: signed_take_bit_int_eq_self)
  next
    case False
    have "signed_take_bit 31 (int k) = signed_take_bit 31 (int k - 2 ^ 32)"
      by (rule signed_take_bit_eq_iff_take_bit_eq [THEN iffD2]) (simp add: take_bit_eq_mod flip: mod_diff_right_eq)
    also have "\<dots> = int k - 2 ^ 32" using False assms by (intro signed_take_bit_int_eq_self) simp_all
    finally show ?thesis using False by simp
  qed
  finally show ?thesis by (simp add: scast_eq)
qed

lemma read_bare:
  assumes "drop s buf = w @ b # rest" "b = 0 \<or> b = 32" "\<forall>b \<in> set w. b \<noteq> 0 \<and> \<not> isspace b"
  shows "\<exists>t buf'. action_doer_id s n buf = Inr (t, buf', n, [vstr w]) \<and> goes_on False b rest (drop t buf')"
proof -
  have "id_from 0 (drop s buf) = Inr (length w, b)" using id_from_found [OF assms(3)] separator [OF assms(2)] assms(1) by simp
  moreover have "drop (s + length w) buf = b # rest" using drop_skip [OF assms(1)] .
  moreover have "drop (s + length (w @ [b])) (buf[s + length w := 0]) = rest"
    by (rule drop_update) (use assms(1) in simp_all)
  ultimately show ?thesis using assms(1,2) by (auto simp: action_doer_id_def goes_on_def)
qed

lemma read_quoted:
  assumes "drop s buf = 34 # concat (map quote_byte w) @ 34 # b # rest" "0 \<notin> set w" "34 \<notin> set w" "s \<le> length buf"
  shows "\<exists>t buf'. action_doer_string s n buf = Inr (t, buf', n, [vstr w]) \<and> goes_on False b rest (drop t buf')"
proof -
  let ?q = "concat (map quote_byte w)"
  have q: "length w \<le> length ?q" by (induction w) (auto simp: quote_byte_def)
  have s1: "drop (s + 1) buf = ?q @ 34 # b # rest" using drop_skip [of s buf "[34]"] assms(1) by simp
  have u: "unquote 0 [] (drop (s + 1) buf) = Inr (length ?q + 1, w)" using unquote_found [OF assms(2,3)] s1 by simp
  have a: "at buf s = Inr 34" by (rule drop_at [OF assms(1)])
  let ?buf = "take s buf @ w @ 0 # drop (s + length w + 1) buf"
  have "drop (s + 1 + (length ?q + 1)) ?buf = drop (length ?q + 1 - length w) (drop (s + length w + 1) buf)"
  proof -
    have "?buf = (take s buf @ w @ [0]) @ drop (s + length w + 1) buf" by simp
    moreover have "length (take s buf @ w @ [0]) = s + length w + 1" using assms(4) by simp
    ultimately show ?thesis using q by (simp only: drop_append) simp
  qed
  also have "\<dots> = drop (s + 1 + (length ?q + 1)) buf" using q by (simp add: add.commute add.left_commute)
  also have "\<dots> = b # rest" using drop_skip [of "s + 1" buf "?q @ [34]"] s1 by simp
  finally have d: "drop (s + 1 + (length ?q + 1)) ?buf = b # rest" .
  have "action_doer_string s n buf = Inr (s + 1 + (length ?q + 1), ?buf, n, [vstr w])"
    using a u by (simp add: action_doer_string_def)
  with d show ?thesis unfolding goes_on_def by blast
qed

lemma read_device:
  assumes "drop s buf = dec_digits major @ 58 # dec_digits minor @ b # rest" "b = 0 \<or> b = 32"
  shows "\<exists>t. action_doer_dev s n buf = Inr (t, buf, n, [int_var 0]) \<and> goes_on False b rest (drop t buf)"
proof -
  have c: "\<not> is_digit 58" by (simp add: is_digit_def)
  have s1: "drop (s + length (dec_digits major)) buf = 58 # dec_digits minor @ b # rest" using drop_skip [OF assms(1)] .
  then have s2: "drop (s + length (dec_digits major) + 1) buf = dec_digits minor @ b # rest"
    using drop_skip [of "s + length (dec_digits major)" buf "[58]"] by simp
  then have s3: "drop (s + length (dec_digits major) + 1 + length (dec_digits minor)) buf = b # rest"
    by (rule drop_skip)
  have u: "action_atoi_unsigned (b # rest) = Inr (0, 0)"
    using assms(2) by (auto simp: action_atoi_unsigned_def at_def is_digit_def)
  show ?thesis
    using num_from_found [OF dec_digits_digits c] num_from_found [OF dec_digits_digits, of b] separator [OF assms(2)]
      drop_at [OF s1] s1 s2 s3 u assms(1)
    by (intro exI [of _ "s + length (dec_digits major) + 1 + length (dec_digits minor)"])
      (simp add: action_doer_dev_def goes_on_def)
qed

lemma read_stamp:
  assumes "drop s buf = secs @ 58 # c # map (\<lambda>k. of_nat (48 + k)) ks @ 41 # 58 # rest" "c \<noteq> 0" "\<forall>k \<in> set ks. k < serial_base ks" "serial_value ks < 2 ^ 31"
    and "\<forall>x. ck_strtod env (secs @ 58 # x) = (length secs, stamp_time env secs)"
  shows "\<exists>t buf'. action_doer_audit env s n buf = Inr (t, buf', value_reading env n (Stamp secs d ks)) \<and> drop t buf' = 58 # rest"
proof -
  let ?ks = "map (\<lambda>k. of_nat (48 + k) :: byte) ks"
  let ?t = "s + length secs" and ?buf = "buf[s + length secs := 0]"
  have s0: "drop ?t buf = 58 # c # ?ks @ 41 # 58 # rest" using drop_skip [OF assms(1)] .
  have s1: "drop (?t + 1) ?buf = c # ?ks @ 41 # 58 # rest"
    using drop_update [of ?t buf "[58]" _ 0 0] s0 by simp
  have s2: "drop (?t + 1 + 1) ?buf = ?ks @ 41 # 58 # rest"
    using drop_skip [of "?t + 1" ?buf "[c]"] s1 by simp
  have s3: "drop (?t + 1 + 1 + length ks) ?buf = 41 # 58 # rest" using drop_skip [OF s2] by simp
  have s4: "drop (?t + 1 + 1 + length ks + 1) ?buf = 58 # rest"
    using drop_skip [of "?t + 1 + 1 + length ks" ?buf "[41]"] s3 by simp
  have tc: "time_convert env s buf = Inr (?t + 1, ?buf, stamp_time env secs)"
    using assms(5) drop_at [OF s0] by (simp add: time_convert_def assms(1))
  have u: "action_atoi_unsigned (drop (?t + 1 + 1) ?buf) = Inr (length ks, of_nat (serial_value ks))"
    unfolding s2 using atoi_unsigned_serial [OF assms(3), of 41 "58 # rest"] by (simp add: is_digit_def)
  have sc: "(scast (of_nat (serial_value ks) :: cint) :: clong) = of_nat (serial_value ks)" using scast_int [of "int (serial_value ks)"] assms(4) by simp
  obtain sec usec where time: "stamp_time env secs = (sec, usec)" by (cases "stamp_time env secs")
  have v: "vflags (int_var x) OR y = y" for x y by (simp add: int_var_def ovm_int_new_def)
  show ?thesis
    using drop_at [OF s1] assms(2) u drop_at [OF s3] s4
    by (simp add: action_doer_audit_def tc [unfolded time] time time_var_def v sc)
qed

lemma read_value:
  assumes "drop s buf = write_value v @ b # rest" "b = 0 \<or> b = 32" "fits_code env code v" "s \<le> length buf"
  shows "\<exists>t buf'. action_doer env code s n buf = Inr (t, buf', value_reading env n v) \<and> goes_on (is_stamp v) b rest (drop t buf')"
proof (cases v)
  case (Number i)
  note sep = separator [OF assms(2)]
  have "action_atoi_signed (write_int i @ b # rest) = Inr (length (write_int i), word_of_int i)"
    using atoi_signed_int [of b i rest] sep by simp
  note num = number_reader_found [of s buf "write_int i" b rest action_atoi_signed, OF _ this]
  from num(1) [of n] num(2) assms(1) have
    "action_doer_int s n buf = Inr (s + length (write_int i), buf, n, [int_var (scast (word_of_int i :: cint))])"
    "drop (s + length (write_int i)) buf = b # rest" by (simp_all add: Number action_doer_int_def)
  then show ?thesis using assms(3)
    by (simp add: Number action_doer_def goes_on_def scast_int ACTION_AUDIT_def ACTION_INT_def)
next
  case (Hexa k)
  note sep = separator [OF assms(2)]
  have "action_atoi_hex (hex_digits k @ b # rest) = Inr (length (hex_digits k), of_nat k)"
    using num_from_found [of isxdigit "hex_digits k" b hex_value 16 0 0 rest] hex_digits_word [of k] sep
    by (simp add: action_atoi_hex_def)
  note num = number_reader_found [of s buf "hex_digits k" b rest action_atoi_hex, OF _ this]
  from num(1) [of n] num(2) assms(1) have
    "action_doer_hex s n buf = Inr (s + length (hex_digits k), buf, n, [int_var (scast (of_nat k :: cint))])"
    "drop (s + length (hex_digits k)) buf = b # rest" by (simp_all add: Hexa action_doer_hex_def)
  then show ?thesis using assms(3)
    using hexa_extended [of k] by (simp add: Hexa action_doer_def goes_on_def ACTION_AUDIT_def ACTION_INT_def ACTION_HEX_def)
next
  case (Bare w)
  have w: "\<forall>b \<in> set w. b \<noteq> 0 \<and> \<not> isspace b" "w = [] \<or> hd w \<noteq> 34" "code = ACTION_STRING" using assms(3) by (simp_all add: Bare)
  have "\<exists>c cs. drop s buf = c # cs \<and> c \<noteq> 34" using assms(1,2) w(2) by (cases w) (auto simp: Bare)
  then obtain c cs where c: "drop s buf = c # cs" "c \<noteq> 34" by blast
  have "action_doer_string s n buf = action_doer_id s n buf" using c drop_at [OF c(1)] by (simp add: action_doer_string_def)
  with read_bare [OF _ assms(2) w(1), of s buf rest n] assms(1) w(3) show ?thesis
    by (auto simp: Bare action_doer_def ACTION_AUDIT_def ACTION_INT_def ACTION_HEX_def ACTION_STRING_def)
next
  case (Quoted w)
  with read_quoted [of s buf w b rest n] assms show ?thesis
    by (auto simp: action_doer_def ACTION_AUDIT_def ACTION_INT_def ACTION_HEX_def ACTION_STRING_def)
next
  case (Device major minor)
  with read_device [OF _ assms(2), of s buf major minor rest n] assms(1,3) show ?thesis
    by (auto simp: action_doer_def ACTION_AUDIT_def ACTION_INT_def ACTION_HEX_def ACTION_STRING_def ACTION_DEV_def)
next
  case (Stamp secs d ks)
  have "(of_nat (48 + d) :: byte) \<noteq> 0" if "d < 10"
    using unat_digit [OF that] by (metis add_is_0 unat_0 zero_neq_numeral)
  with Stamp read_stamp [of s buf secs "of_nat (48 + d)" ks "b # rest" env n d] assms show ?thesis
    by (auto simp: action_doer_def goes_on_def simp del: value_reading.simps)
qed

section \<open>A line\<close>

fun write_rest :: "(string \<times> audit_value) list \<Rightarrow> byte list" where
  "write_rest [] = []"
| "write_rest ((w, v) # xs) = 32 # chars w @ write_value v @ write_rest xs"

text \<open>The items of a line, separated by spaces.\<close>

definition write_items :: "(string \<times> audit_value) list \<Rightarrow> byte list" where
  "write_items xs = drop 1 (write_rest xs)"

definition item_ok :: "clock_env \<Rightarrow> string \<times> audit_value \<Rightarrow> bool" where
  "item_ok env x \<longleftrightarrow> (\<exists>n code. map_of actions (fst x) = Some (n, code) \<and> fits_code env code (snd x))"

definition item_reading :: "clock_env \<Rightarrow> string \<times> audit_value \<Rightarrow> nat \<times> ovm_var list" where
  "item_reading env x = value_reading env (fst (the (map_of actions (fst x)))) (snd x)"

lemma map_of_audit_words: "map_of actions w = Some (n, code) \<Longrightarrow> map_of audit_words (chars w) = Some (n, code)"
proof -
  assume "map_of actions w = Some (n, code)"
  then have "(w, n, code) \<in> set actions" by (rule map_of_SomeD)
  then have "(chars w, n, code) \<in> set audit_words" by (force simp: audit_words_def)
  moreover have "distinct (map fst audit_words)" using keywords_prefix_free by (simp add: prefix_free_def)
  ultimately show ?thesis by simp
qed

text \<open>No keyword begins with a colon, so the root has no entry for it.\<close>

lemma insert_first:
  "action_insert w code n (Proceed f) = Inr (Proceed g) \<Longrightarrow> w \<noteq> [] \<Longrightarrow> hd w \<noteq> c \<Longrightarrow> f c = None \<Longrightarrow> g c = None"
  by (cases w) auto

lemma insert_Proceed: "action_insert w code n t = Inr t' \<Longrightarrow> w \<noteq> [] \<Longrightarrow> (\<exists>f. t = Proceed f) \<and> (\<exists>g. t' = Proceed g)"
  by (cases w; cases t) auto

lemma insert_actions_first:
  "insert_actions ws t = Inr (Proceed g) \<Longrightarrow> t = Proceed f \<Longrightarrow> list_all (\<lambda>(w, a). chars w \<noteq> [] \<and> hd (chars w) \<noteq> c) ws \<Longrightarrow>
   f c = None \<Longrightarrow> g c = None"
proof (induction ws arbitrary: t f)
  case (Cons x ws)
  obtain w n code where x: "x = (w, n, code)" by (cases x) auto
  from Cons.prems(1) obtain u where u: "action_insert (chars w) code n t = Inr u" "insert_actions ws u = Inr (Proceed g)"
    by (auto simp: x)
  have w: "chars w \<noteq> []" "hd (chars w) \<noteq> c" using Cons.prems(3) by (simp_all add: x)
  from insert_Proceed [OF u(1) w(1)] obtain h where h: "u = Proceed h" by blast
  have "h c = None" using insert_first [OF u(1) [unfolded h Cons.prems(2)] w Cons.prems(4)] .
  with Cons.IH [OF u(2) h] Cons.prems(3) show ?case by simp
qed simp

lemma action_init_colon: "action_init = Inr (Proceed g) \<Longrightarrow> g 58 = None"
proof -
  assume a: "action_init = Inr (Proceed g)"
  have "list_all (\<lambda>(w, a). chars w \<noteq> [] \<and> hd (chars w) \<noteq> 58) actions" by code_simp
  then show "g 58 = None" by (rule insert_actions_first [OF a [unfolded action_init_def] empty_node_def]) simp
qed

lemma walk_step: "walk atp (c # w) = Some (Found code n) \<Longrightarrow> \<exists>f t. atp = Proceed f \<and> f c = Some t \<and> walk t w = Some (Found code n)"
  by (cases atp) (auto split: option.splits)

lemma parse_keyword:
  assumes "walk atp w = Some (Found code n)" "drop s buf = w @ rest" "0 \<notin> set w" "w \<noteq> []" "\<not> mid \<longrightarrow> \<not> isspace (hd w)"
  shows "parse_from env fill root (length w + k) mid atp s buf st =
    bnd (action_doer env code (s + length w) n buf) (\<lambda>(s, buf, n, vs).
    bnd (fill n vs st) (\<lambda>st. parse_from env fill root k False root s buf st))"
  using assms
proof (induction w arbitrary: atp s mid)
  case (Cons c w)
  have at: "at buf s = Inr c" using drop_at Cons.prems(2) by simp
  obtain f t where f: "atp = Proceed f" "f c = Some t" "walk t w = Some (Found code n)" using walk_step [OF Cons.prems(1)] by blast
  have sp: "(\<not> mid \<and> isspace c) = False" "c \<noteq> 0" using Cons.prems(3,5) by auto
  show ?case
  proof (cases w)
    case Nil
    with f(3) have "t = Found code n" by simp
    with at f sp Nil show ?thesis by (cases mid) simp_all
  next
    case (Cons d v)
    with f(3) obtain g where g: "t = Proceed g" by (cases t) auto
    have "drop (s + 1) buf = w @ rest" using drop_skip [of s buf "[c]"] Cons.prems(2) by simp
    from Cons.IH [OF f(3) this, of True] Cons.prems(3) Cons at f sp g show ?thesis by (cases mid) simp_all
  qed
qed simp

lemma parse_skip:
  assumes "root = Proceed g" "g 58 = None" "drop s buf = pre @ rest" "set pre \<subseteq> {32, 58}"
  shows "parse_from env fill root (length pre + k) False root s buf st = parse_from env fill root k False root (s + length pre) buf st"
  using assms(3,4)
proof (induction pre arbitrary: s)
  case (Cons c pre)
  have "drop (s + 1) buf = pre @ rest" using drop_skip [of s buf "[c]"] Cons.prems(1) by simp
  with Cons.IH [OF this] Cons.prems drop_at [of s buf c] assms(1,2) show ?case by (auto simp: isspace_def)
qed simp

lemma write_rest_items: "write_rest xs = (if xs = [] then [] else 32 # write_items xs)"
  by (cases xs) (auto simp: write_items_def)

lemma item_word:
  assumes "item_ok env (w, v)" "found root = map_of audit_words"
  obtains n code where "map_of actions w = Some (n, code)" "walk root (chars w) = Some (Found code n)" "fits_code env code v"
    "chars w \<noteq> []" "\<not> isspace (hd (chars w))" "0 \<notin> set (chars w)"
proof -
  from assms(1) obtain n code where n: "map_of actions w = Some (n, code)" "fits_code env code v" by (auto simp: item_ok_def)
  then have m: "map_of audit_words (chars w) = Some (n, code)" by (intro map_of_audit_words)
  then have "keyword_ok (chars w)" using keywords_ok map_of_SomeD [OF m] by (auto simp: list_all_iff)
  moreover from m assms(2) have "found root (chars w) = Some (n, code)" by simp
  then have "walk root (chars w) = Some (Found code n)" by (auto simp: found_def split: option.splits action_tree.splits)
  ultimately show ?thesis using n that by (auto simp: keyword_ok_def)
qed

lemma parse_items:
  assumes root: "root = Proceed g" "found root = map_of audit_words" "g 58 = None"
  shows "list_all (item_ok env) xs \<Longrightarrow> drop s buf = pre @ write_items xs @ 0 # zs \<Longrightarrow> set pre \<subseteq> {32, 58} \<Longrightarrow>
    length (drop s buf) \<le> k \<Longrightarrow>
    \<exists>buf'. \<forall>st. parse_from env fill root k False root s buf st = bnd (fills fill (map (item_reading env) xs) st) (\<lambda>st. Inr (buf', st))"
proof (induction xs arbitrary: s buf pre k)
  case Nil
  define j where "j = k - length pre - 1"
  have "length pre < k" using Nil.prems(4) unfolding Nil.prems(2) by (simp add: write_items_def)
  then have k: "k = length pre + Suc j" by (simp add: j_def)
  have "at buf (s + length pre) = Inr 0"
    using drop_at [of "s + length pre" buf 0 zs] drop_skip [OF Nil.prems(2)] by (simp add: write_items_def)
  then have "parse_from env fill root k False root s buf st = Inr (buf, st)" for st
    unfolding k parse_skip [OF root(1,3) Nil.prems(2,3)] by simp
  then show ?case by (intro exI [of _ buf]) simp
next
  case (Cons x xs)
  obtain w v where x: "x = (w, v)" by (cases x)
  from Cons.prems(1) have "item_ok env (w, v)" by (simp add: x)
  from item_word [OF this root(2)] obtain n code where n: "map_of actions w = Some (n, code)"
    "walk root (chars w) = Some (Found code n)" "fits_code env code v" "chars w \<noteq> []" "\<not> isspace (hd (chars w))"
    "0 \<notin> set (chars w)" .
  obtain b rest where b: "write_rest xs @ 0 # zs = b # rest" "b = 0 \<or> b = 32" "b = 32 \<longrightarrow> rest = write_items xs @ 0 # zs \<or> xs = []"
    by (cases "xs = []") (auto simp: write_rest_items)
  have whole_line: "drop s buf = pre @ chars w @ write_value v @ b # rest"
    using Cons.prems(2) b(1) by (simp add: x write_items_def)
  then have s1: "drop (s + length pre) buf = chars w @ write_value v @ b # rest" by (rule drop_skip)
  then have s2: "drop (s + length pre + length (chars w)) buf = write_value v @ b # rest" by (rule drop_skip)
  have "s + length pre + length (chars w) \<le> length buf"
    using s2 by (metis Nil_is_append_conv drop_all linorder_le_cases list.distinct(1))
  from read_value [OF s2 b(2) n(3) this, of n] obtain t buf' where
    t: "action_doer env code (s + length pre + length (chars w)) n buf = Inr (t, buf', value_reading env n v)"
    "goes_on (is_stamp v) b rest (drop t buf')" by blast
  have r: "item_reading env x = value_reading env n v" by (simp add: item_reading_def x n(1))
  define k2 where "k2 = k - length pre - length (chars w)"
  have len: "length (drop s buf) = length pre + length (chars w) + length (write_value v) + length (b # rest)"
    unfolding whole_line by simp
  then have k: "k = length pre + (length (chars w) + k2)" using Cons.prems(4) by (simp add: k2_def)
  have "is_stamp v \<Longrightarrow> 1 \<le> length (write_value v)" by (cases v) auto
  then have k2: "length (drop t buf') \<le> k2" using t(2) len Cons.prems(4) k by (auto simp: goes_on_def simp del: length_drop)
  have "\<exists>pre'. drop t buf' = pre' @ write_items xs @ 0 # zs \<and> set pre' \<subseteq> {32, 58}"
  proof (cases "xs = []")
    case True
    with b(1) have "b = 0" "rest = zs" by simp_all
    with t(2) show ?thesis
      by (auto simp: goes_on_def True write_items_def intro: exI [of _ "[]"] exI [of _ "[58]"])
  next
    case False
    with b(1) have "b = 32" "rest = write_items xs @ 0 # zs" by (simp_all add: write_rest_items)
    with t(2) show ?thesis
      by (auto simp: goes_on_def intro: exI [of _ "[]"] exI [of _ "[32]"] exI [of _ "[58, 32]"])
  qed
  then obtain pre' where pre': "drop t buf' = pre' @ write_items xs @ 0 # zs" "set pre' \<subseteq> {32, 58}" by blast
  from Cons.IH [OF _ pre' k2] Cons.prems(1) obtain buf'' where
    "\<And>st. parse_from env fill root k2 False root t buf' st = bnd (fills fill (map (item_reading env) xs) st) (\<lambda>st. Inr (buf'', st))"
    by auto
  then have ih: "parse_from env fill root k2 False root t buf' = (\<lambda>st. bnd (fills fill (map (item_reading env) xs) st) (\<lambda>st. Inr (buf'', st)))"
    by (rule ext)
  have "parse_from env fill root k False root s buf st = bnd (fills fill (map (item_reading env) (x # xs)) st) (\<lambda>st. Inr (buf'', st))" for st
  proof -
    obtain m vs where m: "value_reading env n v = (m, vs)" by (cases "value_reading env n v")
    have "parse_from env fill root k False root s buf st =
        bnd (action_doer env code (s + length pre + length (chars w)) n buf) (\<lambda>(s, buf, n, vs).
        bnd (fill n vs st) (\<lambda>st. parse_from env fill root k2 False root s buf st))"
      unfolding k parse_skip [OF root(1,3) whole_line Cons.prems(3)]
      using parse_keyword [OF n(2) s1 n(6,4), of False] n(5) by simp
    then show ?thesis by (simp add: t(1) m r ih bnd_assoc del: bnd_eq_Inr)
  qed
  then show ?case by blast
qed

section \<open>What the dissector does\<close>

text \<open>The event's own value has another text.\<close>

definition with_line :: "nat \<Rightarrow> ovm_var \<Rightarrow> 'a orchids_scheme \<Rightarrow> 'a orchids_scheme" where
  "with_line p v s = s\<lparr>o_engine := (o_engine s)\<lparr>vm := (vm (o_engine s))\<lparr>heap := (heap (vm (o_engine s)))(p \<mapsto> v)\<rparr>\<rparr>\<rparr>"


text \<open>
  Claim C28.  The dissector stays inside the line.  Whatever the characters of a line are, terminators and backslashes
  included, the readers find the end of it, no byte outside of the block is read or written, the line keeps its length and its
  terminators, and the event is posted with more fields; the stop of the dissector can only come from what it posts to.
\<close>

theorem audit_stays_inside:
  assumes "action_init = Inr root" and "strtod_ok env" and "auditd_ready m s"
    and "heap (vm (o_engine s)) p = Some v" and "vdata v = VStr us \<or> vdata v = VBStr us"
  shows "\<exists>us' vs new. length us' = length us \<and>
    dissect_auditd env (Some root) post m ((f, Some p) # es) data s =
      bnd (post m (new @ (f, Some p) # es)
        (with_line p (v\<lparr>vdata := (case vdata v of VStr _ \<Rightarrow> VStr us' | _ \<Rightarrow> VBStr us')\<rparr>) (with_vars vs s))) (\<lambda>s. Inr (0, s))"
proof -
  let ?I = "\<lambda>(ev, s'). \<exists>vs new. s' = with_vars vs s \<and> ev = new @ (f, Some p) # es"
  have ok: "tree_ok root" using action_init_ok [OF assms(1)] .
  then obtain g where g: "root = Proceed g" using tree_ok_root by blast
  have fill: "\<exists>st'. fill_event m n vs st = Inr st' \<and> ?I st'" if n: "n + length vs \<le> AUDITD_FIELDS" and st: "?I st" for n vs st
  proof -
    from st obtain ws new where ws: "st = (new @ (f, Some p) # es, with_vars ws s)" by (cases st) auto
    have "auditd_ready m (with_vars ws s)" using assms(3) by (simp add: with_vars_ready)
    from fill_event_ready [OF this n, of "new @ (f, Some p) # es"] obtain new' where
      "fill_event m n vs st = Inr (new' @ new @ (f, Some p) # es, with_vars vs (with_vars ws s))" using ws by blast
    moreover have "with_vars vs (with_vars ws s) = with_vars (ws @ vs) s" by (simp add: with_vars_def alloc_all_append)
    ultimately show ?thesis by (metis (mono_tags, lifting) append.assoc case_prodI)
  qed
  have start: "?I ((f, Some p) # es, s)" by (auto simp: with_vars_def intro: exI [of _ "[]"])
  have run: "\<exists>buf' st'. parse_from env (fill_event m) root k False (Proceed g) 0 buf ((f, Some p) # es, s) = Inr (buf', st') \<and>
      block L z buf' \<and> ?I st'" if "block L z buf" "L + 2 \<le> k" for L z buf k
    by (rule parse_from_in_bounds [OF assms(2) ok, where w = "[]"]) (use fill that start g in simp_all)
  have deref: "deref (vm (o_engine s)) (Some p) = Inr v" using assms(4) by (simp add: deref_def)
  have shape: "\<exists>us' vs new. length us' = length us \<and> parse_from env (fill_event m) root (length (us @ replicate (Suc (Suc z)) 0)) False root 0
      (us @ replicate (Suc (Suc z)) 0) ((f, Some p) # es, s) =
      Inr (us' @ replicate (Suc (Suc z)) 0, new @ (f, Some p) # es, with_vars vs s)" for z
  proof -
    have "block (length us) z (us @ replicate (Suc (Suc z)) 0)" by (auto simp: block_def)
    from run [OF this, of "length (us @ replicate (Suc (Suc z)) 0)"] show ?thesis by (fastforce simp: g block_def)
  qed
  have five: "replicate 5 (0 :: byte) = replicate (Suc (Suc 3)) 0" "replicate 4 (0 :: byte) = replicate (Suc (Suc 2)) 0"
    by (simp_all add: numeral_eq_Suc)
  from assms(5) show ?thesis
  proof
    assume v: "vdata v = VStr us"
    from shape [of 3] obtain us' vs new where r: "length us' = length us"
      "parse_from env (fill_event m) root (length (us @ replicate 5 0)) False root 0 (us @ replicate 5 0) ((f, Some p) # es, s) =
       Inr (us' @ replicate 5 0, new @ (f, Some p) # es, with_vars vs s)" unfolding five by blast
    then show ?thesis
      by (intro exI [of _ us'] exI [of _ vs] exI [of _ new])
        (simp add: dissect_auditd_def deref v str_block_def action_parse_event_def Let_def with_line_def del: bnd_eq_Inr)
  next
    assume v: "vdata v = VBStr us"
    from shape [of 2] obtain us' vs new where r: "length us' = length us"
      "parse_from env (fill_event m) root (length (us @ replicate 4 0)) False root 0 (us @ replicate 4 0) ((f, Some p) # es, s) =
       Inr (us' @ replicate 4 0, new @ (f, Some p) # es, with_vars vs s)" unfolding five by blast
    then show ?thesis
      by (intro exI [of _ us'] exI [of _ vs] exI [of _ new])
        (simp add: dissect_auditd_def deref v str_block_def action_parse_event_def Let_def with_line_def del: bnd_eq_Inr)
  qed
qed

section \<open>Examples\<close>

text \<open>A \<open>strtod\<close> for numbers with a point; every time is one and a half seconds.\<close>

definition sample_clock :: clock_env where
  "sample_clock = \<lparr>ck_strtod = (\<lambda>bs. (length (takeWhile (\<lambda>b. is_digit b \<or> b = 46) bs), 1, 500000)), ck_junk = (0, 0)\<rparr>"

definition sample_items :: "(string \<times> audit_value) list" where
  "sample_items = [(''type='', Bare (chars ''PATH'')), (''msg=audit('', Stamp (chars ''1.5'') 4 [2, 7]), (''exit='', Number (- 13)),
     (''a0='', Hexa 255), (''name='', Quoted [97, 92, 98]), (''dev='', Device 8 1)]"

lemma sample_items_text: "write_items sample_items =
  chars ''type=PATH msg=audit(1.5:427): exit=-13 a0=ff name='' @ [34, 97, 92, 92, 98, 34] @ chars '' dev=8:1''"
  by code_simp

definition audit_input :: "byte list \<Rightarrow> orchids" where
  "audit_input line = \<lparr>o_mods = [syslog_mod], loaded_modules = 1,
     o_fields = replicate 40 \<lparr>fr_active = True, fr_name = [], fr_type = 6, fr_desc = [], fr_id = 0\<rparr>,
     o_engine = new_engine (sample_vm\<lparr>heap := [0 \<mapsto> \<lparr>vdata = VStr line, vflags = 0\<rparr>], fresh := 1\<rparr>)
       (replicate 40 None) (\<lambda>_. \<lparr>htable = [], elmts = 0\<rparr>),
     realtime_handlers = [], poll_handlers = [], o_fds = {}, o_maxfd = 0, pre_hooks = [], post_hooks = []\<rparr>"

lemma audit_input_facts: "auditd_ready 0 (audit_input line)" "heap (vm (o_engine (audit_input line))) 0 = Some \<lparr>vdata = VStr line, vflags = 0\<rparr>"
  "fresh (vm (o_engine (audit_input line))) = 1" "me_first_field (o_mods (audit_input line) ! 0) = 1"
  by (simp_all add: auditd_ready_def audit_input_def new_engine_def active_from_def syslog_mod_def AUDITD_FIELDS_def)

lemma sample_stamp: "fits_code sample_clock ACTION_AUDIT (Stamp (chars ''1.5'') 4 [2, 7])" "stamp_time sample_clock (chars ''1.5'') = (1, 500000)"
  by (simp_all add: sample_clock_def stamp_time_def is_digit_def chars_def serial_base_def serial_value_def)

lemma sample_items_ok: "list_all (item_ok sample_clock) sample_items"
  using sample_stamp
  by (simp add: sample_items_def item_ok_def actions_def ACTION_AUDIT_def ACTION_INT_def ACTION_HEX_def ACTION_STRING_def
      ACTION_DEV_def ACTION_ID_def ACTION_SUBJ_def isspace_def chars_def)

lemma sample_serial: "serial_value [2, 7] = 27"
  by (simp add: serial_value_def serial_base_def)

lemma sample_fields: "numbered (map (item_reading sample_clock) sample_items) =
  [(1, vstr (chars ''PATH'')), (2, time_var (1, 500000)), (3, (int_var 27)\<lparr>vflags := TYPE_MONO\<rparr>), (7, int_var (- 13)),
   (8, int_var 255), (31, vstr [97, 92, 98]), (34, int_var 0)]"
  by (simp add: sample_items_def item_reading_def actions_def numbered_def sample_stamp sample_serial F_AUDITD_TIME_def)


text \<open>A line that ends in a quoted string whose last character is a backslash.\<close>

definition cut_line :: "byte list" where
  "cut_line = chars ''exe='' @ [34, 97, 92]"

theorem audit_stays_inside_witness:
  "\<exists>root us s'. action_init = Inr root \<and> length us = 7 \<and>
     dissect_auditd sample_clock (Some root) (\<lambda>m ev. Inr) 0 [(0, Some 0)] None (audit_input cut_line) = Inr (0, s') \<and>
     heap (vm (o_engine s')) 0 = Some \<lparr>vdata = VStr us, vflags = 0\<rparr>"
proof -
  obtain root where root: "action_init = Inr root" using action_init_found by blast
  have clock: "strtod_ok sample_clock"
  proof -
    have "length (takeWhile P (us @ 0 # zs)) \<le> length us" if "\<not> P 0" for P us and zs :: "byte list"
      using that by (induction us) auto
    then show ?thesis by (auto simp: strtod_ok_def sample_clock_def is_digit_def)
  qed
  note facts = audit_input_facts [of cut_line]
  from audit_stays_inside [OF root clock facts(1,2), of cut_line "\<lambda>m ev. Inr" 0 "[]" None] obtain us vs where
    us: "length us = length cut_line"
    "dissect_auditd sample_clock (Some root) (\<lambda>m ev. Inr) 0 [(0, Some 0)] None (audit_input cut_line) =
      Inr (0, with_line 0 \<lparr>vdata = VStr us, vflags = 0\<rparr> (with_vars vs (audit_input cut_line)))" by auto
  have "length cut_line = 7" by (simp add: cut_line_def chars_def)
  with us root show ?thesis
    by (intro exI [of _ root] exI [of _ us] exI [of _ "with_line 0 \<lparr>vdata = VStr us, vflags = 0\<rparr> (with_vars vs (audit_input cut_line))"])
      (simp add: with_line_def)
qed

end
