(* ===== verification/Dlist.thy ===== *)
theory Dlist
  imports Prelude
begin

text \<open>
  The doubly linked lists of \<open>src/util/dlist.h\<close>.  An element has a link \<open>le_next\<close> to the
  next element and a link \<open>le_prev\<close> to the link that points to it, which is the head of the
  list or the \<open>le_next\<close> of another element.  The interface locale \<open>sequence\<close> is what the
  users of the lists rely on; it is interpreted on the macros.
\<close>

section \<open>The code\<close>

datatype link = Head | Next_Of nat

record dlist =
  lh_first :: "nat option"
  le_next :: "nat \<Rightarrow> nat option"
  le_prev :: "nat \<Rightarrow> link"

definition read_link :: "dlist \<Rightarrow> link \<Rightarrow> nat option" where
  "read_link d l = (case l of Head \<Rightarrow> lh_first d | Next_Of a \<Rightarrow> le_next d a)"

definition write_link :: "link \<Rightarrow> nat option \<Rightarrow> dlist \<Rightarrow> dlist" where
  "write_link l p d = (case l of Head \<Rightarrow> d\<lparr>lh_first := p\<rparr>
     | Next_Of a \<Rightarrow> d\<lparr>le_next := (le_next d)(a := p)\<rparr>)"

definition set_prev :: "nat \<Rightarrow> link \<Rightarrow> dlist \<Rightarrow> dlist" where
  "set_prev a l d = d\<lparr>le_prev := (le_prev d)(a := l)\<rparr>"

definition DLIST_INIT :: "dlist \<Rightarrow> dlist" where
  "DLIST_INIT d = write_link Head None d"

definition DLIST_IS_EMPTY :: "dlist \<Rightarrow> bool" where
  "DLIST_IS_EMPTY d \<longleftrightarrow> lh_first d = None"

definition DLIST_FIRST :: "dlist \<Rightarrow> nat option" where "DLIST_FIRST d = lh_first d"
definition DLIST_NEXT :: "dlist \<Rightarrow> nat \<Rightarrow> nat option" where "DLIST_NEXT d a = le_next d a"

definition DLIST_INSERT_HEAD :: "nat \<Rightarrow> dlist \<Rightarrow> dlist" where
  "DLIST_INSERT_HEAD e d =
     (let d = write_link (Next_Of e) (lh_first d) d;
          d = (case le_next d e of None \<Rightarrow> d | Some f \<Rightarrow> set_prev f (Next_Of e) d);
          d = write_link Head (Some e) d
      in set_prev e Head d)"

definition DLIST_INSERT_AFTER :: "nat \<Rightarrow> nat \<Rightarrow> dlist \<Rightarrow> dlist" where
  "DLIST_INSERT_AFTER a e d =
     (let d = write_link (Next_Of e) (le_next d a) d;
          d = (case le_next d e of None \<Rightarrow> d | Some f \<Rightarrow> set_prev f (Next_Of e) d);
          d = write_link (Next_Of a) (Some e) d
      in set_prev e (Next_Of a) d)"

definition DLIST_INSERT_BEFORE :: "nat \<Rightarrow> nat \<Rightarrow> dlist \<Rightarrow> dlist" where
  "DLIST_INSERT_BEFORE a e d =
     (let d = set_prev e (le_prev d a) d;
          d = write_link (Next_Of e) (Some a) d;
          d = write_link (le_prev d a) (Some e) d
      in set_prev a (Next_Of e) d)"

definition DLIST_REMOVE :: "nat \<Rightarrow> dlist \<Rightarrow> dlist" where
  "DLIST_REMOVE e d =
     (let d = (case le_next d e of None \<Rightarrow> d | Some f \<Rightarrow> set_prev f (le_prev d e) d)
      in write_link (le_prev d e) (le_next d e) d)"

text \<open>The loop over the elements of \<open>DLIST_REVERSE\<close>, with \<open>curelm\<close> and \<open>tailelm\<close>.\<close>

partial_function (option) reverse_loop ::
  "nat option \<Rightarrow> nat option \<Rightarrow> dlist \<Rightarrow> (nat option \<times> dlist) option" where
  "reverse_loop cur tail d = (case cur of None \<Rightarrow> Some (tail, d)
     | Some a \<Rightarrow>
        (let next = le_next d a;
             d = set_prev a (case tail of None \<Rightarrow> Head | Some t \<Rightarrow> Next_Of t) d;
             d = write_link (Next_Of a) tail d
         in reverse_loop next (Some a) d))"

definition DLIST_REVERSE :: "dlist \<Rightarrow> dlist option" where
  "DLIST_REVERSE d = (case reverse_loop (lh_first d) None d of None \<Rightarrow> None
     | Some (tail, d') \<Rightarrow> Some (write_link Head tail d'))"

section \<open>What a list represents\<close>

text \<open>\<open>segment d l xs p\<close>: following the links from \<open>l\<close> gives the elements \<open>xs\<close>, each with its
  back link, and then the pointer \<open>p\<close>.\<close>

fun segment :: "dlist \<Rightarrow> link \<Rightarrow> nat list \<Rightarrow> nat option \<Rightarrow> bool" where
  "segment d l [] p \<longleftrightarrow> read_link d l = p"
| "segment d l (x # xs) p \<longleftrightarrow> read_link d l = Some x \<and> le_prev d x = l \<and> segment d (Next_Of x) xs p"

definition represents :: "dlist \<Rightarrow> nat list \<Rightarrow> bool" where
  "represents d xs \<longleftrightarrow> segment d Head xs None \<and> distinct xs"

fun end_link :: "link \<Rightarrow> nat list \<Rightarrow> link" where
  "end_link l [] = l"
| "end_link l (x # xs) = end_link (Next_Of x) xs"

definition first_of :: "nat list \<Rightarrow> nat option \<Rightarrow> nat option" where
  "first_of xs p = (case xs of [] \<Rightarrow> p | x # _ \<Rightarrow> Some x)"

lemma end_link_cases: "end_link l xs = (if xs = [] then l else Next_Of (last xs))"
  by (induction l xs rule: end_link.induct) auto

lemma segment_append:
  "segment d l (xs @ ys) p \<longleftrightarrow> segment d l xs (first_of ys p) \<and> segment d (end_link l xs) ys p"
  by (induction xs arbitrary: l) (auto simp: first_of_def split: list.splits)

lemma segment_end: "segment d l xs p \<Longrightarrow> read_link d (end_link l xs) = p"
  by (induction xs arbitrary: l) auto

text \<open>A segment only depends on the links from its start to its last element, and on the back
  links of its elements.\<close>

lemma segment_frame:
  assumes "segment d l xs p"
    and "\<And>x. x \<in> set xs \<Longrightarrow> le_prev d' x = le_prev d x"
    and "\<And>k. k = l \<or> (\<exists>x \<in> set xs. k = Next_Of x) \<Longrightarrow> k \<noteq> end_link l xs \<Longrightarrow> read_link d' k = read_link d k"
    and "read_link d' (end_link l xs) = p'" and "distinct xs" and "l \<notin> Next_Of ` set xs"
  shows "segment d' l xs p'"
  using assms
proof (induction xs arbitrary: l)
  case (Cons x xs)
  have ne: "l \<noteq> end_link (Next_Of x) xs"
    using Cons.prems(6) by (auto simp: end_link_cases)
  have "segment d' (Next_Of x) xs p'"
    by (rule Cons.IH) (use Cons.prems in auto)
  moreover have "read_link d' l = read_link d l" using Cons.prems(3) ne by simp
  moreover have "le_prev d' x = le_prev d x" using Cons.prems(2) by simp
  ultimately show ?case using Cons.prems(1) by simp
qed simp

lemmas link_defs = read_link_def write_link_def set_prev_def

lemma read_write: "read_link (write_link l p d) k = (if k = l then p else read_link d k)"
  by (auto simp: link_defs split: link.splits)

lemma prev_write [simp]: "le_prev (write_link l p d) = le_prev d"
  by (auto simp: write_link_def split: link.splits)

lemma read_set_prev [simp]: "read_link (set_prev a l d) k = read_link d k"
  by (auto simp: link_defs split: link.splits)

lemma prev_set_prev: "le_prev (set_prev a l d) b = (if b = a then l else le_prev d b)"
  by (simp add: set_prev_def)

lemma next_set_prev [simp]: "le_next (set_prev a l d) = le_next d"
  by (simp add: set_prev_def)

lemma next_read: "le_next d a = read_link d (Next_Of a)" "lh_first d = read_link d Head"
  by (simp_all add: read_link_def)

text \<open>One lemma for the three insertions: the new element goes between two segments.\<close>

definition splice :: "nat \<Rightarrow> link \<Rightarrow> nat option \<Rightarrow> dlist \<Rightarrow> dlist \<Rightarrow> bool" where
  "splice e l p d d' \<longleftrightarrow>
     (\<forall>k. read_link d' k = (if k = l then Some e else if k = Next_Of e then p else read_link d k)) \<and>
     (\<forall>x. le_prev d' x = (if x = e then l else if Some x = p then Next_Of e else le_prev d x))"

lemma splice_represents:
  assumes "represents d (xs @ ys)" and "e \<notin> set (xs @ ys)"
    and "splice e (end_link Head xs) (first_of ys None) d d'"
  shows "represents d' (xs @ e # ys)"
proof -
  let ?l = "end_link Head xs"
  from assms(1) have seg: "segment d Head xs (first_of ys None)" "segment d ?l ys None"
    and dist: "distinct (xs @ ys)"
    by (simp_all add: represents_def segment_append)
  have l: "?l \<noteq> Next_Of e" "?l \<notin> Next_Of ` set ys"
    using assms(2) dist last_in_set [of xs] by (auto simp: end_link_cases disjoint_iff)
  have l2: "Next_Of x \<noteq> ?l" if "x \<in> set ys" for x using l(2) that by (metis image_eqI)
  have read: "read_link d' k = (if k = ?l then Some e else if k = Next_Of e then first_of ys None
      else read_link d k)" for k using assms(3) by (simp add: splice_def)
  have prev: "le_prev d' x = (if x = e then ?l else if Some x = first_of ys None then Next_Of e
      else le_prev d x)" for x using assms(3) by (simp add: splice_def)
  have "segment d' Head xs (Some e)"
    by (rule segment_frame [OF seg(1)])
      (use assms(2) dist in \<open>auto simp: read prev first_of_def split: list.splits if_splits\<close>)
  moreover have "segment d' (Next_Of e) ys None"
  proof (cases ys)
    case Nil then show ?thesis using l by (simp add: read first_of_def)
  next
    case (Cons y zs)
    have zs: "segment d (Next_Of y) zs None" using seg(2) by (simp add: Cons)
    have "end_link (Next_Of y) zs \<in> Next_Of ` set ys"
      by (auto simp: Cons end_link_cases)
    with l(2) assms(2) have "end_link (Next_Of y) zs \<noteq> Next_Of e" "end_link (Next_Of y) zs \<noteq> ?l"
      by auto
    with segment_end [OF zs] have r: "read_link d' (end_link (Next_Of y) zs) = None" by (simp add: read)
    have "segment d' (Next_Of y) zs None"
      by (rule segment_frame [OF zs _ _ r])
        (use assms(2) dist l l2 in \<open>auto simp: Cons read prev first_of_def\<close>)
    with l assms(2) show ?thesis by (auto simp: Cons read prev first_of_def)
  qed
  ultimately show ?thesis
    using assms(2) dist by (simp add: represents_def segment_append first_of_def read prev)
qed

lemma splice_at:
  assumes "read_link d l = p" and "l \<noteq> Next_Of e" and "p \<noteq> Some e"
  shows "splice e l p d (set_prev e l (write_link l (Some e)
    (case p of None \<Rightarrow> write_link (Next_Of e) p d
     | Some f \<Rightarrow> set_prev f (Next_Of e) (write_link (Next_Of e) p d))))"
  using assms by (auto simp: splice_def read_write prev_set_prev split: option.splits)

lemma represents_insert_head:
  assumes "represents d xs" and "e \<notin> set xs"
  shows "represents (DLIST_INSERT_HEAD e d) (e # xs)"
proof -
  have p: "read_link d Head = first_of xs None"
    using assms(1) by (cases xs) (auto simp: represents_def first_of_def)
  moreover have "first_of xs None \<noteq> Some e" using assms(2) by (cases xs) (auto simp: first_of_def)
  ultimately have "splice e Head (first_of xs None) d (DLIST_INSERT_HEAD e d)"
    using splice_at [of d Head "first_of xs None" e]
    by (simp add: DLIST_INSERT_HEAD_def Let_def next_read read_write cong: option.case_cong)
  with splice_represents [of d "[]" xs e] assms show ?thesis by simp
qed

lemma represents_insert_after:
  assumes "represents d (xs @ a # ys)" and "e \<notin> set (xs @ a # ys)"
  shows "represents (DLIST_INSERT_AFTER a e d) (xs @ a # e # ys)"
proof -
  have "segment d (Next_Of a) ys None"
    using assms(1) by (simp add: represents_def segment_append)
  then have p: "read_link d (Next_Of a) = first_of ys None"
    by (cases ys) (auto simp: first_of_def)
  moreover have "first_of ys None \<noteq> Some e" using assms(2) by (cases ys) (auto simp: first_of_def)
  ultimately have "splice e (Next_Of a) (first_of ys None) d (DLIST_INSERT_AFTER a e d)"
    using splice_at [of d "Next_Of a" "first_of ys None" e] assms(2)
    by (simp add: DLIST_INSERT_AFTER_def Let_def next_read read_write cong: option.case_cong)
  with splice_represents [of d "xs @ [a]" ys e] assms show ?thesis by (simp add: end_link_cases)
qed

lemma represents_insert_before:
  assumes "represents d (xs @ a # ys)" and "e \<notin> set (xs @ a # ys)"
  shows "represents (DLIST_INSERT_BEFORE a e d) (xs @ e # a # ys)"
proof -
  have l: "le_prev d a = end_link Head xs"
    using assms(1) by (simp add: represents_def segment_append)
  have "end_link Head xs \<noteq> Next_Of e"
    using assms(2) last_in_set [of xs] by (auto simp: end_link_cases)
  moreover have "a \<noteq> e" using assms(2) by auto
  ultimately have "splice e (end_link Head xs) (first_of (a # ys) None) d (DLIST_INSERT_BEFORE a e d)"
    by (auto simp: splice_def DLIST_INSERT_BEFORE_def Let_def read_write prev_set_prev l first_of_def)
  from splice_represents [OF assms this] show ?thesis .
qed

lemma represents_remove:
  assumes "represents d (xs @ e # ys)"
  shows "represents (DLIST_REMOVE e d) (xs @ ys)"
proof -
  let ?d = "DLIST_REMOVE e d" and ?l = "end_link Head xs"
  have seg: "segment d Head xs (Some e)" "le_prev d e = ?l" "segment d (Next_Of e) ys None"
    and dist: "distinct (xs @ e # ys)"
    using assms by (simp_all add: represents_def segment_append first_of_def)
  have next_e: "le_next d e = first_of ys None"
    using seg(3) by (cases ys) (auto simp: next_read first_of_def)
  have ne: "first_of ys None \<noteq> Some e" using dist by (cases ys) (auto simp: first_of_def)
  have read: "read_link ?d k = (if k = ?l then first_of ys None else read_link d k)" for k
    using ne by (auto simp: DLIST_REMOVE_def Let_def seg(2) next_e read_write prev_set_prev split: option.splits)
  have prev: "le_prev ?d x = (if Some x = first_of ys None then ?l else le_prev d x)" for x
    by (auto simp: DLIST_REMOVE_def Let_def seg(2) next_e prev_set_prev split: option.splits)
  have "segment ?d Head xs (first_of ys None)"
    by (rule segment_frame [OF seg(1)])
      (use dist in \<open>auto simp: read prev first_of_def split: list.splits if_splits\<close>)
  moreover have "segment ?d ?l ys None"
  proof (cases ys)
    case (Cons y zs)
    have zs: "segment d (Next_Of y) zs None" using seg(3) by (simp add: Cons)
    have l: "?l \<noteq> Next_Of y" "?l \<notin> Next_Of ` set zs"
      using dist last_in_set [of xs] by (auto simp: Cons end_link_cases disjoint_iff)
    then have l2: "Next_Of x \<noteq> ?l" if "x \<in> set zs" for x using that by (metis image_eqI)
    from l have "?l \<notin> insert (Next_Of y) (Next_Of ` set zs)" by auto
    moreover have "end_link (Next_Of y) zs \<in> insert (Next_Of y) (Next_Of ` set zs)"
      by (auto simp: end_link_cases)
    ultimately have "end_link (Next_Of y) zs \<noteq> ?l" by (metis insertE)
    with segment_end [OF zs] have r: "read_link ?d (end_link (Next_Of y) zs) = None" by (simp add: read)
    have "segment ?d (Next_Of y) zs None"
      by (rule segment_frame [OF zs _ _ r])
        (use dist l l2 in \<open>auto simp: Cons read prev first_of_def\<close>)
    then show ?thesis by (simp add: Cons read prev first_of_def)
  qed (simp add: read first_of_def)
  ultimately show ?thesis using dist by (simp add: represents_def segment_append)
qed

lemma represents_first: "represents d xs \<Longrightarrow> DLIST_FIRST d = first_of xs None"
  by (cases xs) (auto simp: represents_def DLIST_FIRST_def next_read first_of_def)

lemma represents_empty: "represents d xs \<Longrightarrow> DLIST_IS_EMPTY d \<longleftrightarrow> xs = []"
  using represents_first [of d xs] by (cases xs) (auto simp: DLIST_IS_EMPTY_def DLIST_FIRST_def first_of_def)

lemma represents_next: "represents d (xs @ a # ys) \<Longrightarrow> DLIST_NEXT d a = first_of ys None"
  by (cases ys) (auto simp: represents_def segment_append DLIST_NEXT_def next_read first_of_def)

lemma represents_init: "represents (DLIST_INIT d) []"
  by (simp add: represents_def DLIST_INIT_def read_write)

lemma represents_distinct: "represents d xs \<Longrightarrow> distinct xs"
  by (simp add: represents_def)

lemma segment_unique: "segment d l xs None \<Longrightarrow> segment d l ys None \<Longrightarrow> xs = ys"
proof (induction xs arbitrary: l ys)
  case Nil then show ?case by (cases ys) auto
next
  case (Cons x xs) then show ?case by (cases ys) auto
qed

section \<open>Reversal\<close>

text \<open>The elements that the forward links give, starting from a pointer.\<close>

fun forward :: "dlist \<Rightarrow> nat option \<Rightarrow> nat list \<Rightarrow> bool" where
  "forward d p [] \<longleftrightarrow> p = None"
| "forward d p (x # xs) \<longleftrightarrow> p = Some x \<and> forward d (le_next d x) xs"

lemma forward_frame: "forward d p xs \<Longrightarrow> a \<notin> set xs \<Longrightarrow> forward (write_link (Next_Of a) q d) p xs"
  by (induction xs arbitrary: p) (auto simp: next_read read_write)

lemma forward_set_prev [simp]: "forward (set_prev a l d) p xs = forward d p xs"
  by (induction xs arbitrary: p) auto

lemma segment_forward: "segment d l xs None \<Longrightarrow> forward d (read_link d l) xs"
  by (induction xs arbitrary: l) (auto simp: next_read)

lemma reverse_loop_result:
  "forward d cur xs \<Longrightarrow> forward d tail ys \<Longrightarrow> distinct (xs @ ys) \<Longrightarrow>
   \<exists>t d'. reverse_loop cur tail d = Some (t, d') \<and> forward d' t (rev xs @ ys) \<and>
     (\<forall>a. a \<notin> set xs \<longrightarrow> le_prev d' a = le_prev d a)"
proof (induction xs arbitrary: d cur tail ys)
  case Nil
  then show ?case by (subst reverse_loop.simps) simp
next
  case (Cons x xs)
  let ?d = "write_link (Next_Of x) tail (set_prev x (case tail of None \<Rightarrow> Head | Some t \<Rightarrow> Next_Of t) d)"
  have "forward ?d (le_next d x) xs" "forward ?d tail ys"
    using Cons.prems by (auto intro!: forward_frame)
  then have "forward ?d (le_next d x) xs" "forward ?d (Some x) (x # ys)"
    by (simp_all add: next_read read_write)
  from Cons.IH [OF this] Cons.prems(3) obtain t d' where
    r: "reverse_loop (le_next d x) (Some x) ?d = Some (t, d')" "forward d' t (rev xs @ x # ys)"
    "\<forall>a. a \<notin> set xs \<longrightarrow> le_prev d' a = le_prev ?d a" by auto
  have "reverse_loop cur tail d = Some (t, d')"
    using Cons.prems(1) r(1) by (subst reverse_loop.simps) (simp add: Let_def)
  with r(2,3) show ?case by (auto simp: prev_set_prev)
qed

lemma reverse_first_prev:
  assumes "forward d (Some x) (x # xs)" and "distinct (x # xs)" and "reverse_loop (Some x) None d = Some (t, d')"
  shows "le_prev d' x = Head"
proof -
  let ?d = "write_link (Next_Of x) None (set_prev x Head d)"
  have "forward ?d (le_next d x) xs" "forward ?d (Some x) [x]"
    using assms(1,2) by (auto intro!: forward_frame simp: next_read read_write)
  from reverse_loop_result [OF this] assms(2) obtain t2 d2 where
    r: "reverse_loop (le_next d x) (Some x) ?d = Some (t2, d2)"
    "\<forall>a. a \<notin> set xs \<longrightarrow> le_prev d2 a = le_prev ?d a" by auto
  have "reverse_loop (Some x) None d = Some (t2, d2)"
    using r(1) by (subst reverse_loop.simps) (simp add: Let_def)
  with r(2) assms(2,3) show ?thesis by (simp add: prev_set_prev)
qed

section \<open>The interface\<close>

text \<open>A sequence of elements behind links: what the insertions and the removal do to it.\<close>

locale sequence =
  fixes rep :: "'d \<Rightarrow> nat list \<Rightarrow> bool"
    and first :: "'d \<Rightarrow> nat option" and succ :: "'d \<Rightarrow> nat \<Rightarrow> nat option"
    and put_first :: "nat \<Rightarrow> 'd \<Rightarrow> 'd"
    and put_after :: "nat \<Rightarrow> nat \<Rightarrow> 'd \<Rightarrow> 'd" and put_before :: "nat \<Rightarrow> nat \<Rightarrow> 'd \<Rightarrow> 'd"
    and take_out :: "nat \<Rightarrow> 'd \<Rightarrow> 'd"
  assumes rep_distinct: "rep d xs \<Longrightarrow> distinct xs"
    and first_rep: "rep d xs \<Longrightarrow> first d = first_of xs None"
    and succ_rep: "rep d (xs @ a # ys) \<Longrightarrow> succ d a = first_of ys None"
    and rep_first: "rep d xs \<Longrightarrow> e \<notin> set xs \<Longrightarrow> rep (put_first e d) (e # xs)"
    and rep_after: "rep d (xs @ a # ys) \<Longrightarrow> e \<notin> set (xs @ a # ys) \<Longrightarrow>
      rep (put_after a e d) (xs @ a # e # ys)"
    and rep_before: "rep d (xs @ a # ys) \<Longrightarrow> e \<notin> set (xs @ a # ys) \<Longrightarrow>
      rep (put_before a e d) (xs @ e # a # ys)"
    and rep_remove: "rep d (xs @ e # ys) \<Longrightarrow> rep (take_out e d) (xs @ ys)"
begin

lemma remove_first: "rep d (x # xs) \<Longrightarrow> rep (take_out x d) xs"
  using rep_remove [of d "[]"] by simp

lemma put_then_take:
  assumes "rep d (xs @ a # ys)" and "e \<notin> set (xs @ a # ys)"
  shows "rep (take_out e (put_before a e d)) (xs @ a # ys)"
  using rep_remove [OF rep_before [OF assms]] .

end

interpretation dl: sequence represents DLIST_FIRST DLIST_NEXT DLIST_INSERT_HEAD
    DLIST_INSERT_AFTER DLIST_INSERT_BEFORE DLIST_REMOVE
  by unfold_locales
    (simp_all add: represents_distinct represents_first represents_next represents_insert_head
      represents_insert_after represents_insert_before represents_remove)

section \<open>Properties\<close>

text \<open>
  Claim C35: the four macros that change a list do what their names say to the sequence of the
  elements, on the links and the back links: insertion at the head, after and before an
  element, and removal of any element.
\<close>

theorem dlist_operations:
  assumes "represents d (xs @ a # ys)" and "e \<notin> set (xs @ a # ys)"
  shows "represents (DLIST_INSERT_HEAD e d) (e # xs @ a # ys) \<and>
    represents (DLIST_INSERT_AFTER a e d) (xs @ a # e # ys) \<and>
    represents (DLIST_INSERT_BEFORE a e d) (xs @ e # a # ys) \<and>
    represents (DLIST_REMOVE a d) (xs @ ys) \<and> \<not> DLIST_IS_EMPTY d \<and>
    DLIST_NEXT d a = first_of ys None"
  using dl.rep_first [OF assms] dl.rep_after [OF assms] dl.rep_before [OF assms]
    dl.rep_remove [OF assms(1)] dl.succ_rep [OF assms(1)] represents_empty [OF assms(1)] by simp

definition empty_dlist :: dlist where
  "empty_dlist = \<lparr>lh_first = None, le_next = (\<lambda>_. None), le_prev = (\<lambda>_. Head)\<rparr>"

lemma represents_empty_dlist: "represents empty_dlist []"
  by (simp add: represents_def empty_dlist_def read_link_def)

lemma represents_pair: "represents (DLIST_INSERT_HEAD 1 (DLIST_INSERT_HEAD 2 empty_dlist)) [1, 2]"
  by (intro represents_insert_head represents_empty_dlist) simp_all

theorem dlist_operations_witness:
  "represents (DLIST_INSERT_BEFORE 2 3 (DLIST_INSERT_HEAD 1 (DLIST_INSERT_HEAD 2 empty_dlist))) [1, 3, 2]"
  using dlist_operations [of _ "[1]" 2 "[]" 3] represents_pair by simp

text \<open>
  \<open>DLIST_REVERSE\<close> returns and reverses the forward links of every list, but the
  result is a well-formed list only if there is at most one element: each back link names
  the link of the successor instead of the predecessor.
\<close>

lemma dlist_reverse_broken:
  assumes "represents d xs"
  shows "\<exists>d'. DLIST_REVERSE d = Some d' \<and> forward d' (DLIST_FIRST d') (rev xs) \<and>
    (represents d' (rev xs) \<longrightarrow> length xs \<le> 1)"
proof -
  have f: "forward d (lh_first d) xs" "distinct xs"
    using assms segment_forward [of d Head xs] by (simp_all add: represents_def next_read)
  from reverse_loop_result [of d "lh_first d" xs None "[]"] f obtain t d' where
    r: "reverse_loop (lh_first d) None d = Some (t, d')" "forward d' t (rev xs)" by auto
  let ?d = "write_link Head t d'"
  have fw: "forward ?d p ys = forward d' p ys" for p ys
    by (induction ys arbitrary: p) (auto simp: next_read read_write)
  have "length xs \<le> 1" if "represents ?d (rev xs)"
  proof (cases xs)
    case (Cons x zs)
    with f r(1) have "le_prev d' x = Head" using reverse_first_prev [of d x zs t d'] by auto
    moreover have "le_prev ?d x = end_link Head (rev zs)"
      using that by (simp add: Cons represents_def segment_append)
    ultimately show ?thesis by (auto simp: Cons end_link_cases split: if_splits)
  qed simp
  with r fw show ?thesis by (simp add: DLIST_REVERSE_def DLIST_FIRST_def next_read read_write)
qed

lemma dlist_reverse_broken_witness:
  "\<exists>d'. DLIST_REVERSE (DLIST_INSERT_HEAD 1 (DLIST_INSERT_HEAD 2 empty_dlist)) = Some d' \<and>
    forward d' (DLIST_FIRST d') [2, 1] \<and> \<not> represents d' [2, 1]"
  using dlist_reverse_broken [OF represents_pair] by auto

end
