(* ===== verification/Rtactions.thy ===== *)
theory Rtactions
  imports Values Dlist
begin

text \<open>
  \<open>src/evt_mgr.c\<close>: the queue of real-time actions, sorted by date, and the dispatcher that
  runs the actions that are due and the callbacks of the inputs that have data.  An action is
  an address; the queue is a list of \<open>dlist.h\<close>.  What the callbacks do, and what the system
  calls return, are parameters.
\<close>

section \<open>State\<close>

type_synonym timeval = "clong \<times> clong"

text \<open>\<open>timercmp\<close> of the C library, for \<open><\<close>, \<open>>\<close> and \<open><=\<close>.\<close>

definition timercmp_le :: "timeval \<Rightarrow> timeval \<Rightarrow> bool" where
  "timercmp_le a b \<longleftrightarrow>
     (if fst a = fst b then sint (snd a) \<le> sint (snd b) else sint (fst a) \<le> sint (fst b))"

record rtaction =
  date :: timeval
  cb :: "nat option"

record 'w evt_ctx =
  rtactionlist :: dlist
  action :: "nat \<Rightarrow> rtaction"
  next_action :: nat
  cur_loop_time :: timeval
  fds :: "int set"
  realtime_handler_list :: "(nat \<times> int) list"
  world :: 'w

section \<open>The queue\<close>

text \<open>The search of \<open>register_rtaction\<close>: the first element that is later than the new action,
  or the last one.\<close>

partial_function (option) find_place ::
  "(nat \<Rightarrow> bool) \<Rightarrow> dlist \<Rightarrow> nat option \<Rightarrow> nat option option" where
  "find_place later d event = (case event of None \<Rightarrow> Some None
     | Some a \<Rightarrow> if later a \<or> DLIST_NEXT d a = None then Some (Some a)
                else find_place later d (DLIST_NEXT d a))"

definition later_than :: "'w evt_ctx \<Rightarrow> nat \<Rightarrow> nat \<Rightarrow> bool" where
  "later_than ctx e a \<longleftrightarrow> timercmp_less (date (action ctx e)) (date (action ctx a))"

definition register_rtaction :: "nat \<Rightarrow> 'w evt_ctx \<Rightarrow> (fault + 'w evt_ctx) option" where
  "register_rtaction e ctx =
     (let d = rtactionlist ctx in
      if DLIST_IS_EMPTY d then Some (Inr (ctx\<lparr>rtactionlist := DLIST_INSERT_HEAD e d\<rparr>))
      else case find_place (later_than ctx e) d (DLIST_FIRST d) of
        None \<Rightarrow> None
      | Some None \<Rightarrow> Some (Inl NullDeref)
      | Some (Some a) \<Rightarrow> Some (Inr
          (if DLIST_NEXT d a = None \<and> later_than ctx a e
           then ctx\<lparr>rtactionlist := DLIST_INSERT_AFTER a e d\<rparr>
           else ctx\<lparr>rtactionlist := DLIST_INSERT_BEFORE a e d\<rparr>)))"

definition register_rtcallback ::
  "nat option \<Rightarrow> clong \<Rightarrow> 'w evt_ctx \<Rightarrow> (fault + nat \<times> 'w evt_ctx) option" where
  "register_rtcallback f delay ctx =
     (let e = next_action ctx; now = cur_loop_time ctx;
          ctx = ctx\<lparr>next_action := e + 1,
            action := (action ctx)(e := \<lparr>date = (fst now + delay, snd now), cb = f\<rparr>)\<rparr>
      in case register_rtaction e ctx of None \<Rightarrow> None
         | Some (Inl x) \<Rightarrow> Some (Inl x)
         | Some (Inr ctx') \<Rightarrow> Some (Inr (e, ctx')))"

text \<open>\<open>e->date.tv_sec += delay; register_rtaction(ctx, e)\<close>: how a callback puts off its own
  action.\<close>

definition put_back :: "nat \<Rightarrow> clong \<Rightarrow> 'w evt_ctx \<Rightarrow> (fault + 'w evt_ctx) option" where
  "put_back e delay ctx =
     (let d = date (action ctx e)
      in register_rtaction e (ctx\<lparr>action := (action ctx)(e := (action ctx e)\<lparr>date := (fst d + delay, snd d)\<rparr>)\<rparr>))"

definition get_next_rtaction :: "'w evt_ctx \<Rightarrow> nat option \<times> 'w evt_ctx" where
  "get_next_rtaction ctx =
     (let d = rtactionlist ctx in
      case DLIST_FIRST d of None \<Rightarrow> (None, ctx)
      | Some e \<Rightarrow> (Some e, ctx\<lparr>rtactionlist := DLIST_REMOVE e d\<rparr>))"

section \<open>The dispatcher\<close>

text \<open>A callback gets the context and the action.\<close>

type_synonym 'w callbacks = "nat \<Rightarrow> nat \<Rightarrow> 'w evt_ctx \<Rightarrow> 'w evt_ctx"

definition call_cb :: "'w callbacks \<Rightarrow> nat \<Rightarrow> 'w evt_ctx \<Rightarrow> 'w evt_ctx" where
  "call_cb cbs e ctx = (case cb (action ctx e) of None \<Rightarrow> ctx | Some f \<Rightarrow> cbs f e ctx)"

text \<open>\<open>while (e && timercmp(&e->date, &cur_time, <=)) { \<dots> }\<close>; \<open>due\<close> is the comparison with
  \<open>cur_time\<close>.\<close>

definition due_at :: "timeval \<Rightarrow> timeval \<Rightarrow> bool" where
  "due_at cur_time d \<longleftrightarrow> timercmp_le d cur_time"

partial_function (option) consume_past ::
  "'w callbacks \<Rightarrow> (timeval \<Rightarrow> bool) \<Rightarrow> nat option \<Rightarrow> 'w evt_ctx \<Rightarrow>
   (nat option \<times> 'w evt_ctx) option" where
  "consume_past cbs due e ctx = (case e of None \<Rightarrow> Some (None, ctx)
     | Some a \<Rightarrow>
         if due (date (action ctx a))
         then (let (e', ctx') = get_next_rtaction (call_cb cbs a ctx)
               in consume_past cbs due e' ctx')
         else Some (Some a, ctx))"

text \<open>The wait until the action that is due next, which is no longer in the queue.\<close>

definition wait_time :: "nat option \<Rightarrow> 'w evt_ctx \<Rightarrow> timeval \<Rightarrow> timeval option" where
  "wait_time e ctx cur_time =
     (case e of None \<Rightarrow> None | Some a \<Rightarrow> Some (Timer_Sub (date (action ctx a)) cur_time))"

text \<open>The inputs whose descriptor is ready, as long as \<open>retval\<close> says that there are more.  An
  input callback that returns a positive number is no longer waited for.\<close>

fun serve_inputs ::
  "(nat \<Rightarrow> int \<Rightarrow> 'w evt_ctx \<Rightarrow> int \<times> 'w evt_ctx) \<Rightarrow> int set \<Rightarrow> (nat \<times> int) list \<Rightarrow> int \<Rightarrow>
   'w evt_ctx \<Rightarrow> 'w evt_ctx" where
  "serve_inputs inp ready [] retval ctx = ctx"
| "serve_inputs inp ready ((m, fd) # rtis) retval ctx =
     (if retval = 0 then ctx
      else if fd \<in> ready then
        (let (n, ctx') = inp m fd ctx;
             ctx' = (if n > 0 then ctx'\<lparr>fds := fds ctx' - {fd}\<rparr> else ctx')
         in serve_inputs inp ready rtis (retval - 1) ctx')
      else serve_inputs inp ready rtis retval ctx)"

text \<open>After a timeout the action that was waited for is run whatever its date is.\<close>

definition run_timeout ::
  "'w callbacks \<Rightarrow> timeval \<Rightarrow> nat option \<Rightarrow> 'w evt_ctx \<Rightarrow> (fault + nat option \<times> 'w evt_ctx) option" where
  "run_timeout cbs cur_time e ctx = (case e of None \<Rightarrow> Some (Inl NullDeref)
     | Some a \<Rightarrow>
         (let (e', ctx') = get_next_rtaction (call_cb cbs a (ctx\<lparr>cur_loop_time := cur_time\<rparr>))
          in case consume_past cbs (due_at cur_time) e' ctx' of None \<Rightarrow> None
             | Some r \<Rightarrow> Some (Inr r)))"

text \<open>One turn of \<open>event_dispatcher_main_loop\<close>.  The system gives the time, the result and the
  ready descriptors of \<open>select\<close> (which gets the descriptors and the wait time), and the time
  after a timeout.\<close>

record sys =
  sys_time :: timeval
  sys_select :: "int set \<Rightarrow> timeval option \<Rightarrow> int \<times> int set"
  sys_time_after :: timeval

definition dispatch_turn ::
  "'w callbacks \<Rightarrow> (nat \<Rightarrow> int \<Rightarrow> 'w evt_ctx \<Rightarrow> int \<times> 'w evt_ctx) \<Rightarrow> sys \<Rightarrow>
   nat option \<Rightarrow> 'w evt_ctx \<Rightarrow> (fault + nat option \<times> 'w evt_ctx) option" where
  "dispatch_turn cbs inp s e ctx =
     (case consume_past cbs (due_at (sys_time s)) e (ctx\<lparr>cur_loop_time := sys_time s\<rparr>) of
        None \<Rightarrow> None
      | Some (e, ctx) \<Rightarrow>
          (let (retval, ready) = sys_select s (fds ctx) (wait_time e ctx (sys_time s))
           in if retval \<noteq> 0
              then Some (Inr (e, serve_inputs inp ready (realtime_handler_list ctx) retval ctx))
              else run_timeout cbs (sys_time_after s) e ctx))"

text \<open>Several turns of \<open>event_dispatcher_main_loop\<close>, each with its own answers of the
  system.\<close>

fun dispatch_turns ::
  "'w callbacks \<Rightarrow> (nat \<Rightarrow> int \<Rightarrow> 'w evt_ctx \<Rightarrow> int \<times> 'w evt_ctx) \<Rightarrow> sys list \<Rightarrow>
   nat option \<Rightarrow> 'w evt_ctx \<Rightarrow> (fault + nat option \<times> 'w evt_ctx) option" where
  "dispatch_turns cbs inp [] e ctx = Some (Inr (e, ctx))"
| "dispatch_turns cbs inp (s # ss) e ctx = (case dispatch_turn cbs inp s e ctx of None \<Rightarrow> None
     | Some (Inl x) \<Rightarrow> Some (Inl x)
     | Some (Inr (e, ctx)) \<Rightarrow> dispatch_turns cbs inp ss e ctx)"

end
