(* ===== verification/Textfile.thy ===== *)
theory Textfile
  imports Input Builtins Crc32 Rtactions
begin

text \<open>
  \<open>src/modules/mod_textfile.c\<close>: the lines of sockets and files become events.  Data from a socket come in
  pieces of any size into a buffer, where \<open>read_off\<close> and \<open>write_off\<close> delimit what is not read yet; a file is
  read with \<open>fgets\<close>.  What \<open>read\<close> returns is a parameter.
\<close>

definition BUFF_SZ :: nat where "BUFF_SZ = 1024"
definition MAX_LINE_SZ :: nat where "MAX_LINE_SZ = 10000"
definition DEFAULT_MODTEXT_POLL_PERIOD :: int where "DEFAULT_MODTEXT_POLL_PERIOD = 10"

section \<open>The event of a line\<close>

definition TF_FIELDS :: nat where "TF_FIELDS = 3"

definition tf_fields :: "field_def list" where
  "tf_fields = map (\<lambda>(n, t, d). \<lparr>fd_name = chars n, fd_type = t, fd_desc = chars d\<rparr>)
    [(''textfile.line_num'', 2, ''line number''), (''textfile.file'', 6, ''source filename''),
     (''textfile.line'', 5, ''a line of a given textfile'')]"

definition text_attrs :: "cint \<Rightarrow> byte list \<Rightarrow> byte list \<Rightarrow> ovm_var option list" where
  "text_attrs line filename buf =
     [Some ((int_var (ucast line))\<lparr>vflags := vflags (int_var (ucast line)) OR TYPE_MONO\<rparr>),
      Some (vstr filename), Some ((ovm_str_new (length buf))\<lparr>vdata := VStr buf\<rparr>)]"

definition textfile_buildevent ::
  "nat \<Rightarrow> 'a orchids_scheme input_cfg \<Rightarrow> nat \<Rightarrow> byte list \<Rightarrow> cint \<Rightarrow> byte list \<Rightarrow> 'a orchids_scheme \<Rightarrow> fault + 'a orchids_scheme" where
  "textfile_buildevent n cfg m filename line buf s =
     (let (tbl, mem) = alloc_attrs (text_attrs line filename buf) (vm (o_engine s)) in
      bnd (add_fields_to_event m [] tbl TF_FIELDS (s\<lparr>o_engine := (o_engine s)\<lparr>vm := mem\<rparr>\<rparr>)) (\<lambda>(ev, s).
      post_event n cfg m ev s))"

section \<open>Sockets\<close>

text \<open>\<open>buf_sz\<close> is the length of the buffer; the flag is \<open>TEXTSOCK_LINE_TOO_LONG\<close>.\<close>

record textsock =
  ts_buf :: "byte list"
  ts_too_long :: bool
  ts_line :: cint
  ts_read :: nat
  ts_write :: nat
  ts_filename :: "byte list"
  ts_fd :: int

definition span_of :: "nat \<Rightarrow> nat \<Rightarrow> byte list \<Rightarrow> byte list" where
  "span_of i j bs = take (j - i) (drop i bs)"

definition put_at :: "nat \<Rightarrow> byte list \<Rightarrow> byte list \<Rightarrow> byte list" where
  "put_at i new bs = take i bs @ new @ drop (i + length new) bs"

text \<open>Unread data are moved to the front when the rest of the buffer has no room for a line; \<open>memcpy\<close> must not
  get blocks that overlap.\<close>

definition make_room :: "textsock \<Rightarrow> fault + textsock" where
  "make_room f = (if length (ts_buf f) - ts_read f < MAX_LINE_SZ then
     bnd (if ts_read f < ts_write f
          then if ts_write f - ts_read f \<le> ts_read f then Inr (put_at 0 (span_of (ts_read f) (ts_write f) (ts_buf f)) (ts_buf f))
               else Inl OutOfBounds
          else Inr (ts_buf f))
       (\<lambda>buf. Inr (f\<lparr>ts_buf := buf, ts_write := ts_write f - ts_read f, ts_read := 0\<rparr>))
   else Inr f)"

text \<open>The loop over the new characters; the first argument is their number, \<open>p\<close> and \<open>pstart\<close> are offsets.  A line
  that is too long is only counted.\<close>

fun scan_text :: "(cint \<Rightarrow> byte list \<Rightarrow> 's \<Rightarrow> fault + 's) \<Rightarrow> nat \<Rightarrow> nat \<Rightarrow> nat \<Rightarrow> textsock \<Rightarrow> 's \<Rightarrow>
  fault + nat \<times> textsock \<times> 's" where
  "scan_text post 0 p pstart f s = Inr (pstart, f, s)"
| "scan_text post (Suc k) p pstart f s = bnd (at (ts_buf f) p) (\<lambda>c.
     if c = 10 then
       let f = f\<lparr>ts_line := ts_line f + 1\<rparr> in
       bnd (if ts_too_long f \<or> MAX_LINE_SZ < p + 1 - pstart then Inr s
            else post (ts_line f) (span_of pstart (p + 1) (ts_buf f)) s) (\<lambda>s.
       scan_text post k (p + 1) (p + 1) (f\<lparr>ts_read := p + 1, ts_too_long := False\<rparr>) s)
     else scan_text post k (p + 1) pstart f s)"

text \<open>\<open>rd\<close> is what \<open>read\<close> gives for a size: \<open>None\<close> for an error, at most as many characters as the size.  A read of
  no characters counts as a lost connection.\<close>

definition textsocket_callback ::
  "(cint \<Rightarrow> byte list \<Rightarrow> 's \<Rightarrow> fault + 's) \<Rightarrow> ('s \<Rightarrow> fault + 's) \<Rightarrow> (nat \<Rightarrow> byte list option) \<Rightarrow> textsock \<Rightarrow> 's \<Rightarrow>
   fault + int \<times> textsock \<times> 's" where
  "textsocket_callback post lost rd f s =
     bnd (make_room f) (\<lambda>f.
     let size = length (ts_buf f) - ts_write f in
     case map_option (take size) (rd size) of
       None \<Rightarrow> Inr (-1, f, s)
     | Some bs \<Rightarrow>
         if bs = [] then bnd (lost s) (\<lambda>s. Inr (1, f, s))
         else let p = ts_write f; f = f\<lparr>ts_buf := put_at p bs (ts_buf f), ts_write := p + length bs\<rparr> in
           bnd (scan_text post (length bs) p (ts_read f) f s) (\<lambda>(pstart, f, s).
           Inr (0, if MAX_LINE_SZ < ts_write f - pstart then f\<lparr>ts_too_long := True\<rparr> else f, s)))"

text \<open>The context of the module: the core, the event manager and the configuration.  When a connection is lost a
  real-time action is registered that tries to connect again; \<open>reconnect\<close> is its callback.\<close>

record 'a text_world =
  tw_core :: "'a orchids_scheme"
  tw_evt :: "unit evt_ctx"
  tw_poll_period :: int

definition textsock_post ::
  "nat \<Rightarrow> 'a orchids_scheme input_cfg \<Rightarrow> nat \<Rightarrow> byte list \<Rightarrow> cint \<Rightarrow> byte list \<Rightarrow> 'a text_world \<Rightarrow> fault + 'a text_world" where
  "textsock_post n cfg m filename line txt w =
     bnd (textfile_buildevent n cfg m filename line txt (tw_core w)) (\<lambda>s. Inr (w\<lparr>tw_core := s\<rparr>))"

definition connection_lost :: "nat \<Rightarrow> 'a text_world \<Rightarrow> fault + 'a text_world" where
  "connection_lost reconnect w =
     (let w = (if tw_poll_period w = 0 then w\<lparr>tw_poll_period := DEFAULT_MODTEXT_POLL_PERIOD\<rparr> else w) in
      case register_rtcallback (Some reconnect) (word_of_int (tw_poll_period w)) (tw_evt w) of
        None \<Rightarrow> Inl NoReturn
      | Some (Inl e) \<Rightarrow> Inl e
      | Some (Inr (e, ctx)) \<Rightarrow> Inr (w\<lparr>tw_evt := ctx\<rparr>))"

text \<open>The action tries again a second after a refused connection, five seconds after it got no socket.  What is in
  the buffer stays there.\<close>

definition again_after :: "nat \<Rightarrow> clong \<Rightarrow> 'a text_world \<Rightarrow> fault + 'a text_world" where
  "again_after e delay w =
     (case put_back e delay (tw_evt w) of
        None \<Rightarrow> Inl NoReturn
      | Some (Inl x) \<Rightarrow> Inl x
      | Some (Inr ctx) \<Rightarrow> Inr (w\<lparr>tw_evt := ctx\<rparr>))"

definition textsocket_try_reconnect ::
  "int \<Rightarrow> bool \<Rightarrow> nat \<Rightarrow> textsock \<Rightarrow> 'a text_world \<Rightarrow> fault + int \<times> textsock \<times> 'a text_world" where
  "textsocket_try_reconnect fd connected e f w =
     (if fd < 0 then bnd (again_after e 5 w) (\<lambda>w. Inr (1, f, w))
      else if \<not> connected then bnd (again_after e 1 w) (\<lambda>w. Inr (2, f, w))
      else bnd (reincarnate_fd (ts_fd f) fd (tw_core w)) (\<lambda>s. Inr (0, f\<lparr>ts_fd := fd\<rparr>, w\<lparr>tw_core := s\<rparr>)))"

definition new_textsock :: "byte list \<Rightarrow> int \<Rightarrow> textsock" where
  "new_textsock filename fd = \<lparr>ts_buf = replicate (2 * MAX_LINE_SZ + 1) 0, ts_too_long = False, ts_line = 0,
     ts_read = 0, ts_write = 0, ts_filename = filename, ts_fd = fd\<rparr>"

section \<open>Files\<close>

record textfile =
  tf_filename :: "byte list"
  tf_stream :: stream
  tf_line :: cint
  tf_hash :: cint
  tf_eof :: bool

text \<open>\<open>fgets\<close>: \<open>None\<close> is \<open>NULL\<close>, which leaves the array as it was.\<close>

definition fgets :: "nat \<Rightarrow> stream \<Rightarrow> byte list option \<times> stream" where
  "fgets n fp = (let (l, fp) = read_line (n - 1) (st_rest fp) in (if l = [] then None else Some (c_str l), fp))"

definition last_char :: "byte list \<Rightarrow> fault + byte" where
  "last_char s = (if s = [] then Inl OutOfBounds else Inr (last s))"

text \<open>\<open>strcat\<close> into a block of \<open>sz\<close> characters.\<close>

definition strcat_within :: "cint \<Rightarrow> byte list \<Rightarrow> byte list \<Rightarrow> fault + byte list" where
  "strcat_within sz d s = (if length d + length s < unat sz then Inr (d @ s) else Inl OutOfBounds)"

text \<open>The loop over the pieces of a line that does not fit into \<open>s_buff\<close>.  A step of the first argument is a turn; at the
  end of the file \<open>s_buff\<close> does not change any more.\<close>

fun long_line :: "nat \<Rightarrow> cint \<Rightarrow> byte list \<Rightarrow> byte list \<Rightarrow> stream \<Rightarrow> fault + cint \<times> byte list \<times> stream" where
  "long_line 0 sz d s fp = Inl NoReturn"
| "long_line (Suc n) sz d s fp =
     (let sz = sz + of_nat BUFF_SZ in
      bnd (if sz < of_nat MAX_LINE_SZ then strcat_within sz d s else Inr d) (\<lambda>d.
      let (r, fp) = fgets BUFF_SZ fp; s = (case r of None \<Rightarrow> s | Some l \<Rightarrow> l) in
      bnd (last_char s) (\<lambda>c.
      if c = 10 then bnd (strcat_within (sz + of_nat BUFF_SZ) d s) (\<lambda>d. Inr (sz + of_nat BUFF_SZ, d, fp))
      else long_line n sz d s fp)))"

text \<open>The result is the flag of the end of the file.\<close>

definition process_new_lines ::
  "nat \<Rightarrow> (cint \<Rightarrow> byte list \<Rightarrow> 's \<Rightarrow> fault + 's) \<Rightarrow> textfile \<Rightarrow> 's \<Rightarrow> fault + bool \<times> textfile \<times> 's" where
  "process_new_lines n post tf s = (case fgets BUFF_SZ (tf_stream tf) of
       (None, fp) \<Rightarrow> Inr (True, tf\<lparr>tf_stream := fp, tf_eof := True\<rparr>, s)
     | (Some l, fp) \<Rightarrow>
         bnd (last_char l) (\<lambda>c.
         bnd (if c \<noteq> 10 then long_line n (of_nat BUFF_SZ) [] l fp else Inr (of_nat BUFF_SZ, l, fp)) (\<lambda>(sz, buff, fp).
         let tf = tf\<lparr>tf_stream := fp\<rparr> in
         bnd (if of_nat MAX_LINE_SZ \<le> sz then Inr (tf, s)
              else let tf = tf\<lparr>tf_line := tf_line tf + 1, tf_hash := crc32 (tf_hash tf) (Some buff)\<rparr> in
                bnd (post (tf_line tf) buff s) (\<lambda>s. Inr (tf, s)))
           (\<lambda>(tf, s). Inr (False, tf\<lparr>tf_eof := False\<rparr>, s)))))"

text \<open>\<open>textfile_postcompil\<close> reads a line of each file.\<close>

fun textfile_postcompil ::
  "nat \<Rightarrow> (byte list \<Rightarrow> cint \<Rightarrow> byte list \<Rightarrow> 's \<Rightarrow> fault + 's) \<Rightarrow> textfile list \<Rightarrow> 's \<Rightarrow> fault + textfile list \<times> 's" where
  "textfile_postcompil n post [] s = Inr ([], s)"
| "textfile_postcompil n post (tf # tfs) s =
     bnd (process_new_lines n (post (tf_filename tf)) tf s) (\<lambda>(eof, tf, s).
     bnd (textfile_postcompil n post tfs s) (\<lambda>(tfs, s). Inr (tf # tfs, s)))"

end
