(* ===== verification/Textfile_Laws.thy ===== *)
theory Textfile_Laws
  imports Textfile
begin

text \<open>
  Laws of the text inputs.  A socket posts the lines of its stream, however the stream is cut into pieces; a line
  that fills the buffer stops the socket for ever; and a file is read line by line up to a line that has no end.
\<close>

section \<open>Slices\<close>

lemma span_of_empty [simp]: "span_of i i bs = []"
  by (simp add: span_of_def)

lemma span_of_length: "i \<le> j \<Longrightarrow> j \<le> length bs \<Longrightarrow> length (span_of i j bs) = j - i"
  by (simp add: span_of_def)

lemma span_of_snoc: "i \<le> p \<Longrightarrow> p < length bs \<Longrightarrow> span_of i (p + 1) bs = span_of i p bs @ [bs ! p]"
  by (simp add: span_of_def Suc_diff_le take_Suc_conv_app_nth)

lemma span_of_Cons: "p < length bs \<Longrightarrow> span_of p (p + Suc k) bs = bs ! p # span_of (p + 1) (p + 1 + k) bs"
  by (simp add: span_of_def Cons_nth_drop_Suc flip: drop_Suc)
     (metis Cons_nth_drop_Suc take_Suc_Cons)

lemma span_of_put_before: "j \<le> p \<Longrightarrow> p \<le> length bs \<Longrightarrow> span_of i j (put_at p new bs) = span_of i j bs"
  by (simp add: span_of_def put_at_def min_def) (metis append_take_drop_id drop_take le_diff_iff' min.absorb1 take_append take_take)

lemma span_of_put: "p \<le> length bs \<Longrightarrow> span_of p (p + length new) (put_at p new bs) = new"
  by (simp add: span_of_def put_at_def)

lemma span_of_join: "i \<le> j \<Longrightarrow> j \<le> k \<Longrightarrow> span_of i j bs @ span_of j k bs = span_of i k bs"
  using take_add [of "j - i" "k - j" "drop i bs"] by (simp add: span_of_def)

lemma span_of_drop: "span_of (i + m) k bs = drop m (span_of i k bs)"
  by (simp add: span_of_def drop_take add.commute)

lemma put_length: "p + length new \<le> length bs \<Longrightarrow> length (put_at p new bs) = length bs"
  by (simp add: put_at_def)

section \<open>Lines\<close>

text \<open>The complete lines, with their ends, and the rest; \<open>acc\<close> is the beginning of the first line.\<close>

fun cut_lines :: "byte list \<Rightarrow> byte list \<Rightarrow> byte list list \<times> byte list" where
  "cut_lines acc [] = ([], acc)"
| "cut_lines acc (b # bs) =
     (if b = 10 then let (ls, r) = cut_lines [] bs in ((acc @ [b]) # ls, r) else cut_lines (acc @ [b]) bs)"

lemma cut_lines_append:
  "cut_lines acc (xs @ ys) = (let (ls, r) = cut_lines acc xs; (ls', r') = cut_lines r ys in (ls @ ls', r'))"
  by (induction acc xs rule: cut_lines.induct) (auto split: prod.splits)

lemma cut_lines_rest:
  "10 \<notin> set acc \<Longrightarrow> cut_lines acc bs = (ls, r) \<Longrightarrow> 10 \<notin> set r \<and> (ls = [] \<longrightarrow> r = acc @ bs) \<and>
    length r \<le> length acc + length bs \<and> (ls \<noteq> [] \<longrightarrow> length r < length bs)"
proof (induction acc bs arbitrary: ls r rule: cut_lines.induct)
  case (2 acc b bs)
  show ?case
  proof (cases "b = 10")
    case True
    obtain ls' r' where "cut_lines [] bs = (ls', r')" by fastforce
    with True 2 show ?thesis by auto
  next
    case False
    with 2 show ?thesis by auto
  qed
qed auto

lemma cut_lines_suffix: "cut_lines acc bs = (ls, r) \<Longrightarrow> acc @ bs = concat ls @ r"
  by (induction acc bs arbitrary: ls r rule: cut_lines.induct) (auto split: if_splits prod.splits)

lemma cut_lines_first:
  "10 \<notin> set acc \<Longrightarrow> cut_lines acc bs = (l # ls, r) \<Longrightarrow> length acc < length l"
proof (induction acc bs arbitrary: l ls r rule: cut_lines.induct)
  case (2 acc b bs)
  show ?case
  proof (cases "b = 10")
    case True
    with 2 show ?thesis by (auto split: prod.splits)
  next
    case False
    with 2 have "length (acc @ [b]) < length l" by auto
    then show ?thesis by simp
  qed
qed simp

text \<open>The lines are posted with their numbers; those that are too long are left out.\<close>

fun post_lines :: "(cint \<Rightarrow> byte list \<Rightarrow> 's \<Rightarrow> fault + 's) \<Rightarrow> cint \<Rightarrow> byte list list \<Rightarrow> 's \<Rightarrow> fault + 's" where
  "post_lines post n [] s = Inr s"
| "post_lines post n (l # ls) s =
     bnd (if length l \<le> MAX_LINE_SZ then post n l s else Inr s) (post_lines post (n + 1) ls)"

lemma post_lines_append:
  "post_lines post n (ls @ ls') s = bnd (post_lines post n ls s) (post_lines post (n + of_nat (length ls)) ls')"
proof (induction ls arbitrary: n s)
  case (Cons l ls)
  have n: "n + of_nat (length (l # ls)) = n + 1 + of_nat (length ls)" by simp
  have "post_lines post (n + 1) (ls @ ls') = (\<lambda>s. bnd (post_lines post (n + 1) ls s) (post_lines post (n + 1 + of_nat (length ls)) ls'))"
    by (rule ext) (rule Cons.IH)
  then show ?case unfolding n by (simp add: bnd_assoc)
qed simp

section \<open>The buffer of a socket\<close>

definition unread_text :: "textsock \<Rightarrow> byte list" where
  "unread_text f = span_of (ts_read f) (ts_write f) (ts_buf f)"

definition sock_ok :: "textsock \<Rightarrow> bool" where
  "sock_ok f \<longleftrightarrow> length (ts_buf f) = 2 * MAX_LINE_SZ + 1 \<and> ts_read f \<le> ts_write f \<and> ts_write f \<le> length (ts_buf f) \<and>
     10 \<notin> set (unread_text f) \<and> (ts_too_long f \<longrightarrow> MAX_LINE_SZ < length (unread_text f))"

lemma unread_text_length: "sock_ok f \<Longrightarrow> length (unread_text f) = ts_write f - ts_read f"
  by (simp add: unread_text_def sock_ok_def span_of_length)

lemma new_textsock_ok: "sock_ok (new_textsock name fd) \<and> unread_text (new_textsock name fd) = []"
  by (simp add: sock_ok_def new_textsock_def unread_text_def)

lemma make_room_ok:
  assumes "sock_ok f"
  shows "\<exists>g. make_room f = Inr g \<and> sock_ok g \<and> unread_text g = unread_text f \<and> ts_line g = ts_line f \<and>
    (length (unread_text f) < MAX_LINE_SZ \<longrightarrow> ts_write g < length (ts_buf g))"
proof (cases "length (ts_buf f) - ts_read f < MAX_LINE_SZ")
  case True
  let ?u = "unread_text f"
  have u: "length ?u = ts_write f - ts_read f" using unread_text_length [OF assms] .
  have b: "length (ts_buf f) = 2 * MAX_LINE_SZ + 1" "ts_write f \<le> length (ts_buf f)" using assms by (simp_all add: sock_ok_def)
  with True have short: "length ?u < MAX_LINE_SZ" "ts_write f - ts_read f \<le> ts_read f" unfolding u by linarith+
  let ?buf = "if ts_read f < ts_write f then put_at 0 ?u (ts_buf f) else ts_buf f"
  let ?g = "f\<lparr>ts_buf := ?buf, ts_write := ts_write f - ts_read f, ts_read := 0\<rparr>"
  have len: "length ?buf = length (ts_buf f)" using short b by (simp add: put_length)
  have g: "unread_text ?g = span_of 0 (ts_write f - ts_read f) ?buf" unfolding unread_text_def by simp
  have un: "unread_text ?g = ?u"
  proof (cases "ts_read f < ts_write f")
    case True
    then show ?thesis using span_of_put [of 0 "ts_buf f" ?u] u g True by simp
  next
    case False
    then have "?u = []" using u by simp
    with False g show ?thesis by simp
  qed
  have "make_room f = Inr ?g" using True short(2) by (auto simp: make_room_def unread_text_def)
  moreover have "sock_ok ?g" using assms un len short u b unfolding sock_ok_def un by simp
  moreover have "ts_write ?g < length (ts_buf ?g)" using short(1) b(1) u len by simp
  ultimately show ?thesis using un by (intro exI [of _ ?g]) simp
next
  case False
  then have "make_room f = Inr f" by (simp add: make_room_def)
  moreover have "ts_write f < length (ts_buf f)" if "length (unread_text f) < MAX_LINE_SZ"
    using that False assms by (simp add: unread_text_length)
  ultimately show ?thesis using assms by blast
qed

lemma scan_text_lines:
  assumes "p + k \<le> length (ts_buf f)" and "pstart \<le> p" and "ts_read f = pstart"
    and "10 \<notin> set (span_of pstart p (ts_buf f))" and "ts_too_long f \<longrightarrow> MAX_LINE_SZ < p - pstart"
    and "cut_lines (span_of pstart p (ts_buf f)) (span_of p (p + k) (ts_buf f)) = (ls, r)"
  shows "scan_text post k p pstart f s = bnd (post_lines post (ts_line f + 1) ls s) (\<lambda>s. Inr (p + k - length r,
    f\<lparr>ts_line := ts_line f + of_nat (length ls), ts_read := p + k - length r, ts_too_long := (ts_too_long f \<and> ls = [])\<rparr>, s))"
  using assms
proof (induction k arbitrary: p pstart f s ls)
  case 0
  then have "ls = []" "r = span_of pstart p (ts_buf f)" by simp_all
  with 0 show ?case by (simp add: span_of_length)
next
  case (Suc k)
  let ?b = "ts_buf f" and ?acc = "span_of pstart p (ts_buf f)"
  have p: "p < length ?b" using Suc.prems(1) by simp
  then have cut: "cut_lines ?acc (?b ! p # span_of (p + 1) (p + 1 + k) ?b) = (ls, r)"
    using Suc.prems(6) by (simp only: span_of_Cons)
  have snoc: "span_of pstart (p + 1) ?b = ?acc @ [?b ! p]" using Suc.prems(2) p by (rule span_of_snoc)
  have len: "length ?acc = p - pstart" using Suc.prems(2) p by (simp add: span_of_length)
  show ?case
  proof (cases "?b ! p = 10")
    case True
    obtain ls' where ls: "cut_lines [] (span_of (p + 1) (p + 1 + k) ?b) = (ls', r)" "ls = (?acc @ [10]) # ls'"
      using cut True by (auto split: prod.splits)
    let ?f = "f\<lparr>ts_line := ts_line f + 1, ts_read := p + 1, ts_too_long := False\<rparr>"
    have IH: "scan_text post k (p + 1) (p + 1) ?f s = bnd (post_lines post (ts_line f + 1 + 1) ls' s)
        (\<lambda>s. Inr (p + 1 + k - length r, f\<lparr>ts_line := ts_line f + 1 + of_nat (length ls'), ts_read := p + 1 + k - length r,
          ts_too_long := False\<rparr>, s))" for s
      using Suc.IH [of "p + 1" ?f "p + 1" ls' s] Suc.prems(1) ls(1) by simp
    have "(ts_too_long f \<or> MAX_LINE_SZ < p + 1 - pstart) \<longleftrightarrow> \<not> length (?acc @ [10]) \<le> MAX_LINE_SZ"
      using Suc.prems(2,5) len by auto
    then have step: "scan_text post (Suc k) p pstart f s = bnd (if length (?acc @ [10]) \<le> MAX_LINE_SZ then post (ts_line f + 1) (?acc @ [10]) s
        else Inr s) (\<lambda>s. scan_text post k (p + 1) (p + 1) ?f s)"
      using True p snoc by (simp add: Let_def)
    have n: "ts_line f + of_nat (length ((?acc @ [10]) # ls')) = ts_line f + 1 + of_nat (length ls')" by simp
    show ?thesis unfolding step IH ls(2) n post_lines.simps bnd_assoc by simp
  next
    case False
    with cut snoc have "cut_lines (span_of pstart (p + 1) ?b) (span_of (p + 1) (p + 1 + k) ?b) = (ls, r)" by simp
    with Suc.IH [of "p + 1" f pstart ls s] Suc.prems False p snoc show ?thesis by (auto simp: Suc_diff_le)
  qed
qed

text \<open>One call of the callback, with data.\<close>

lemma callback_lines:
  assumes "sock_ok f" and "make_room f = Inr g" and "length bs \<le> length (ts_buf g) - ts_write g" and "bs \<noteq> []"
    and "cut_lines (unread_text f) bs = (ls, r)"
  shows "\<exists>f'. sock_ok f' \<and> unread_text f' = r \<and> ts_line f' = ts_line f + of_nat (length ls) \<and>
    (\<forall>rd s. rd (length (ts_buf g) - ts_write g) = Some bs \<longrightarrow>
       textsocket_callback post lost rd f s = bnd (post_lines post (ts_line f + 1) ls s) (\<lambda>s. Inr (0, f', s)))"
proof -
  from make_room_ok [OF assms(1)] assms(2) have g: "sock_ok g" "unread_text g = unread_text f" "ts_line g = ts_line f" by auto
  let ?p = "ts_write g" and ?q = "ts_read g"
  let ?h = "g\<lparr>ts_buf := put_at ?p bs (ts_buf g), ts_write := ?p + length bs\<rparr>"
  have gs: "?q \<le> ?p" "?p + length bs \<le> length (ts_buf g)" "length (ts_buf g) = 2 * MAX_LINE_SZ + 1"
    using g(1) assms(3) by (auto simp: sock_ok_def)
  have old: "span_of ?q ?p (ts_buf ?h) = unread_text f" and new: "span_of ?p (?p + length bs) (ts_buf ?h) = bs"
    using gs g(2) by (simp_all add: span_of_put_before span_of_put unread_text_def)
  have len: "length (ts_buf ?h) = 2 * MAX_LINE_SZ + 1" using gs by (simp add: put_length)
  have nl: "10 \<notin> set (unread_text f)" using assms(1) by (simp add: sock_ok_def)
  note rest = cut_lines_rest [OF nl assms(5)]
  have ulen: "length (unread_text f) = ?p - ?q" using unread_text_length [OF g(1)] g(2) by simp
  let ?e = "?p + length bs - length r"
  let ?k = "g\<lparr>ts_buf := put_at ?p bs (ts_buf g), ts_write := ?p + length bs, ts_line := ts_line g + of_nat (length ls), ts_read := ?e,
      ts_too_long := (ts_too_long g \<and> ls = [])\<rparr>"
  let ?f = "if MAX_LINE_SZ < ?p + length bs - ?e then ?k\<lparr>ts_too_long := True\<rparr> else ?k"
  have scan: "scan_text post (length bs) ?p ?q ?h s = bnd (post_lines post (ts_line g + 1) ls s) (\<lambda>s. Inr (?e, ?k, s))" for s
    using scan_text_lines [of ?p "length bs" ?h ?q ls r post s] gs old new nl assms(5) len ulen g(1,2) by (simp add: sock_ok_def put_length)
  have rlen: "length r \<le> ?p - ?q + length bs" using rest ulen by simp
  then have span: "span_of ?e (?p + length bs) (ts_buf ?h) = r"
  proof -
    have "span_of ?q (?p + length bs) (ts_buf ?h) = unread_text f @ bs"
      using span_of_join [of ?q ?p "?p + length bs" "ts_buf ?h"] old new gs(1) by simp
    also have "\<dots> = concat ls @ r" by (rule cut_lines_suffix [OF assms(5)])
    finally have "span_of (?q + length (concat ls)) (?p + length bs) (ts_buf ?h) = r" by (simp add: span_of_drop)
    moreover have "?q + length (concat ls) = ?e"
      using arg_cong [OF cut_lines_suffix [OF assms(5)], of length] ulen gs(1) by simp
    ultimately show ?thesis by simp
  qed
  have un: "unread_text ?f = r" using span by (simp add: unread_text_def)
  have "sock_ok ?f"
    using gs len rest rlen un assms(1) g by (auto simp: sock_ok_def)
  moreover have "textsocket_callback post lost rd f s = bnd (post_lines post (ts_line f + 1) ls s) (\<lambda>s. Inr (0, ?f, s))"
    if "rd (length (ts_buf g) - ts_write g) = Some bs" for rd s
    using that assms(2-4) scan g(3) by (simp add: textsocket_callback_def Let_def bnd_assoc del: bnd_eq_Inr)
  ultimately show ?thesis using un g(3) by (intro exI [of _ ?f]) simp
qed

text \<open>A series of reads that take a stream apart: \<open>ms\<close> are the sizes, less one, that are ready; never more than the
  buffer has room for.\<close>

fun serve :: "(cint \<Rightarrow> byte list \<Rightarrow> 's \<Rightarrow> fault + 's) \<Rightarrow> ('s \<Rightarrow> fault + 's) \<Rightarrow> nat list \<Rightarrow> byte list \<Rightarrow> textsock \<Rightarrow> 's \<Rightarrow>
  fault + byte list \<times> textsock \<times> 's" where
  "serve post lost [] stream f s = Inr (stream, f, s)"
| "serve post lost (m # ms) stream f s = (if stream = [] then Inr ([], f, s) else
     bnd (make_room f) (\<lambda>g. let bs = take (min (Suc m) (length (ts_buf g) - ts_write g)) stream in
     bnd (textsocket_callback post lost (\<lambda>_. Some bs) f s) (\<lambda>(ret, f, s). serve post lost ms (drop (length bs) stream) f s)))"

lemma serve_lines:
  assumes "sock_ok f" and "cut_lines (unread_text f) stream = (ls, r)" and "\<forall>l \<in> set ls. length l \<le> MAX_LINE_SZ" and "length r < MAX_LINE_SZ"
    and "length stream \<le> length ms"
  shows "\<exists>f'. sock_ok f' \<and> unread_text f' = r \<and> ts_line f' = ts_line f + of_nat (length ls) \<and>
    (\<forall>s. serve post lost ms stream f s = bnd (post_lines post (ts_line f + 1) ls s) (\<lambda>s. Inr ([], f', s)))"
  using assms
proof (induction ms arbitrary: f stream ls)
  case Nil
  then show ?case by (intro exI [of _ f]) auto
next
  case (Cons m ms)
  show ?case
  proof (cases "stream = []")
    case True
    with Cons.prems show ?thesis by (intro exI [of _ f]) auto
  next
    case False
    from make_room_ok [OF Cons.prems(1)] obtain g where g: "make_room f = Inr g"
      "length (unread_text f) < MAX_LINE_SZ \<longrightarrow> ts_write g < length (ts_buf g)" by blast
    have nl: "10 \<notin> set (unread_text f)" using Cons.prems(1) by (simp add: sock_ok_def)
    have short: "length (unread_text f) < MAX_LINE_SZ"
    proof (cases ls)
      case Nil
      with cut_lines_suffix [OF Cons.prems(2)] Cons.prems(4) show ?thesis by (auto dest: arg_cong [where f = length])
    next
      case (Cons l ls')
      then have "length (unread_text f) < length l" using cut_lines_first [OF nl] Cons.prems(2) by simp
      with Cons Cons.prems(3) show ?thesis by simp
    qed
    let ?n = "min (Suc m) (length (ts_buf g) - ts_write g)" and ?rest = "\<lambda>n. drop n stream"
    let ?bs = "take ?n stream"
    obtain l1 r1 where one: "cut_lines (unread_text f) ?bs = (l1, r1)" by fastforce
    obtain l2 where two: "cut_lines r1 (drop ?n stream) = (l2, r)" "ls = l1 @ l2"
      using Cons.prems(2) cut_lines_append [of "unread_text f" ?bs "drop ?n stream"] one by (auto split: prod.splits)
    have ne: "?bs \<noteq> []" "length ?bs \<le> length (ts_buf g) - ts_write g" using False g(2) short by auto
    from callback_lines [OF Cons.prems(1) g(1) ne(2,1) one, of post lost] obtain f1 where
      f1: "sock_ok f1" "unread_text f1 = r1" "ts_line f1 = ts_line f + of_nat (length l1)"
        "\<forall>rd s. rd (length (ts_buf g) - ts_write g) = Some ?bs \<longrightarrow>
          textsocket_callback post lost rd f s = bnd (post_lines post (ts_line f + 1) l1 s) (\<lambda>s. Inr (0, f1, s))"
      by blast
    have call: "textsocket_callback post lost (\<lambda>_. Some ?bs) f s = bnd (post_lines post (ts_line f + 1) l1 s) (\<lambda>s. Inr (0, f1, s))" for s
      by (rule f1(4) [rule_format]) simp
    have drop: "drop (length (take n stream)) stream = drop n stream" for n
      by (cases "n \<le> length stream") (simp_all add: min_def)
    moreover have "length (drop ?n stream) \<le> length ms" using Cons.prems(5) ne(1) g(2) short by auto
    ultimately obtain f2 where f2: "sock_ok f2" "unread_text f2 = r" "ts_line f2 = ts_line f1 + of_nat (length l2)"
      "\<And>s. serve post lost ms (drop (length ?bs) stream) f1 s = bnd (post_lines post (ts_line f1 + 1) l2 s) (\<lambda>s. Inr ([], f2, s))"
      using Cons.IH [OF f1(1), of "drop ?n stream" l2] two f1(2) Cons.prems(3,4) unfolding drop by auto
    have "serve post lost (m # ms) stream f s = bnd (post_lines post (ts_line f + 1) ls s) (\<lambda>s. Inr ([], f2, s))" for s
      using False g(1) call f2(4) two(2) f1(3)
      by (simp add: Let_def bnd_assoc post_lines_append ac_simps del: bnd_eq_Inr)
    with f1(3) f2(1-3) two(2) show ?thesis by (intro exI [of _ f2]) (simp add: add.assoc)
  qed
qed

text \<open>Claim C15 (refinement).  A socket posts the lines of its stream.  However the stream is cut into pieces, the lines
  that are complete are posted in order, each once and with its number, what is left waits in the buffer, and the
  connection is not given up, as long as no line is longer than the limit.\<close>

theorem socket_lines_arrive:
  assumes "sock_ok f" and "cut_lines (unread_text f) stream = (ls, r)" and "\<forall>l \<in> set ls. length l \<le> MAX_LINE_SZ" and "length r < MAX_LINE_SZ"
    and "length stream \<le> length ms"
  shows "\<exists>f'. sock_ok f' \<and> unread_text f' = r \<and> ts_line f' = ts_line f + of_nat (length ls) \<and>
    (\<forall>w. serve (textsock_post n cfg m (ts_filename f)) (connection_lost rc) ms stream f w =
      bnd (post_lines (textsock_post n cfg m (ts_filename f)) (ts_line f + 1) ls w) (\<lambda>w. Inr ([], f', w)))"
  using serve_lines [OF assms] .

text \<open>What can happen to a socket: a call of its callback, and an attempt to connect again.\<close>

datatype sock_op = Callback "nat \<Rightarrow> byte list option" | Reconnect int bool nat

fun sock_run :: "(cint \<Rightarrow> byte list \<Rightarrow> 'a text_world \<Rightarrow> fault + 'a text_world) \<Rightarrow> ('a text_world \<Rightarrow> fault + 'a text_world) \<Rightarrow>
  sock_op list \<Rightarrow> textsock \<Rightarrow> 'a text_world \<Rightarrow> fault + textsock \<times> 'a text_world" where
  "sock_run post lost [] f w = Inr (f, w)"
| "sock_run post lost (Callback rd # ops) f w =
     bnd (textsocket_callback post lost rd f w) (\<lambda>(r, f, w). sock_run post lost ops f w)"
| "sock_run post lost (Reconnect fd connected e # ops) f w =
     bnd (textsocket_try_reconnect fd connected e f w) (\<lambda>(r, f, w). sock_run post lost ops f w)"

lemma scan_text_no_end:
  "\<forall>i < k. ts_buf f ! (p + i) \<noteq> 10 \<Longrightarrow> p + k \<le> length (ts_buf f) \<Longrightarrow> scan_text post k p st f s = Inr (st, f, s)"
proof (induction k arbitrary: p)
  case (Suc k)
  from Suc.prems(1) have "ts_buf f ! p \<noteq> 10" "\<forall>i < k. ts_buf f ! (p + 1 + i) \<noteq> 10" by force+
  with Suc show ?case by (simp add: at_def)
qed simp

text \<open>A piece without an end of line is put behind what is there.\<close>

lemma callback_fills:
  assumes "ts_read f = 0" "MAX_LINE_SZ \<le> length (ts_buf f)" "10 \<notin> set bs" "bs \<noteq> []" "ts_write f + length bs \<le> length (ts_buf f)"
  shows "\<exists>g. textsocket_callback post lost (\<lambda>_. Some bs) f s = Inr (0, g, s) \<and> ts_read g = 0 \<and>
    ts_write g = ts_write f + length bs \<and> length (ts_buf g) = length (ts_buf f) \<and>
    take (ts_write g) (ts_buf g) = take (ts_write f) (ts_buf f) @ bs"
proof -
  let ?buf = "put_at (ts_write f) bs (ts_buf f)"
  let ?f = "f\<lparr>ts_buf := ?buf, ts_write := ts_write f + length bs\<rparr>"
  have room: "make_room f = Inr f" using assms(1,2) by (simp add: make_room_def)
  have len: "length ?buf = length (ts_buf f)" using assms(5) by (rule put_length)
  have nth: "?buf ! (ts_write f + i) = bs ! i" if "i < length bs" for i
    using that assms(5) by (simp add: put_at_def nth_append)
  have "\<forall>i < length bs. ts_buf ?f ! (ts_write f + i) \<noteq> 10" using nth assms(3) by (auto simp: in_set_conv_nth)
  then have "scan_text post (length bs) (ts_write f) 0 ?f s = Inr (0, ?f, s)"
    by (rule scan_text_no_end) (use len assms(5) in simp)
  moreover have "take (length (ts_buf f) - ts_write f) bs = bs" using assms(5) by simp
  moreover have "ts_write f < length (ts_buf f)" using assms(4,5) by (cases bs) auto
  ultimately have "textsocket_callback post lost (\<lambda>_. Some bs) f s =
      Inr (0, if MAX_LINE_SZ < ts_write f + length bs then ?f\<lparr>ts_too_long := True\<rparr> else ?f, s)"
    using assms(1,4) by (simp add: textsocket_callback_def room Let_def del: scan_text.simps)
  moreover have "take (ts_write f + length bs) ?buf = take (ts_write f) (ts_buf f) @ bs"
    using assms(5) by (simp add: put_at_def)
  ultimately show ?thesis using len assms(1) by auto
qed

lemma fill_socket:
  assumes "ts_read f = 0" "MAX_LINE_SZ \<le> length (ts_buf f)" "10 \<notin> set (concat ps)" "[] \<notin> set ps"
    and "ts_write f + length (concat ps) = length (ts_buf f)"
  shows "\<exists>g. sock_run post lost (map (\<lambda>p. Callback (\<lambda>_. Some p)) ps) f w = Inr (g, w) \<and> ts_read g = 0 \<and>
    ts_write g = length (ts_buf g) \<and> length (ts_buf g) = length (ts_buf f) \<and> ts_buf g = take (ts_write f) (ts_buf f) @ concat ps"
  using assms
proof (induction ps arbitrary: f)
  case (Cons p ps)
  from callback_fills [OF Cons.prems(1,2), of p post lost w] Cons.prems obtain g where
    g: "textsocket_callback post lost (\<lambda>_. Some p) f w = Inr (0, g, w)" "ts_read g = 0" "ts_write g = ts_write f + length p"
      "length (ts_buf g) = length (ts_buf f)" "take (ts_write g) (ts_buf g) = take (ts_write f) (ts_buf f) @ p" by auto
  from Cons.IH [of g] g Cons.prems show ?case by simp
qed simp

text \<open>A full buffer without an end of line.\<close>

definition jammed :: "textsock \<Rightarrow> bool" where
  "jammed f \<longleftrightarrow> ts_read f = 0 \<and> ts_write f = length (ts_buf f) \<and> MAX_LINE_SZ \<le> length (ts_buf f)"

lemma callback_jammed:
  "jammed f \<Longrightarrow> textsocket_callback post lost rd f w = (if rd 0 = None then Inr (-1, f, w) else bnd (lost w) (\<lambda>w. Inr (1, f, w)))"
  by (auto simp: textsocket_callback_def jammed_def make_room_def)

definition only_fd :: "textsock \<Rightarrow> textsock \<Rightarrow> bool" where
  "only_fd f g \<longleftrightarrow> g = f\<lparr>ts_fd := ts_fd g\<rparr>"

lemma reconnect_keeps: "textsocket_try_reconnect fd c e f w = Inr (r, g, w') \<Longrightarrow> only_fd f g"
  by (auto simp: textsocket_try_reconnect_def only_fd_def split: if_splits)

lemma only_fd_refl: "only_fd f f"
  by (simp add: only_fd_def)

lemma only_fd_trans: "only_fd f g \<Longrightarrow> only_fd g h \<Longrightarrow> only_fd f h"
  by (cases f; cases g; cases h) (simp add: only_fd_def)

lemma jammed_fd: "jammed f \<Longrightarrow> only_fd f g \<Longrightarrow> jammed g"
  by (cases f; cases g) (simp add: jammed_def only_fd_def)

lemma run_jammed:
  "jammed f \<Longrightarrow> sock_run post' lost ops f w = sock_run post lost ops f w \<and>
   (\<forall>g w'. sock_run post lost ops f w = Inr (g, w') \<longrightarrow> only_fd f g)"
proof (induction ops arbitrary: f w)
  case (Cons x ops)
  show ?case
  proof (cases x)
    case (Callback rd)
    show ?thesis
    proof (cases "rd 0 = None")
      case True
      with Cons.IH [OF Cons.prems, of w] show ?thesis by (simp add: Callback callback_jammed [OF Cons.prems])
    next
      case False
      show ?thesis
      proof (cases "lost w")
        case (Inr w1)
        with Cons.IH [OF Cons.prems, of w1] False show ?thesis by (auto simp: Callback callback_jammed [OF Cons.prems])
      qed (use False in \<open>auto simp: Callback callback_jammed [OF Cons.prems]\<close>)
    qed
  next
    case (Reconnect fd c e)
    show ?thesis
    proof (cases "textsocket_try_reconnect fd c e f w")
      case (Inr y)
      obtain r g w1 where y: "y = (r, g, w1)" by (metis prod.exhaust)
      note keep = reconnect_keeps [OF Inr [unfolded y]]
      from Cons.IH [OF jammed_fd [OF Cons.prems keep], of w1] only_fd_trans [OF keep] show ?thesis
        by (simp add: Reconnect Inr y)
    qed (simp add: Reconnect)
  qed
qed (simp add: only_fd_refl)

text \<open>
  Claim C30 (error).  A line without an end stops a socket for ever.  Whatever the pieces are in which it comes, when it has
  filled the buffer of a new socket nothing was posted or taken for a lost connection.  From then on every call of the
  callback has no room to read into: unless the read fails it takes the empty result for a lost connection, and the
  socket stays as it is.  Whatever calls and attempts to connect again follow, nothing is posted any more
  (the run does not depend on \<open>post\<close>), and of the socket nothing but the descriptor changes: a new connection gets the
  full buffer.
\<close>

theorem overlong_line_jams:
  assumes "length (concat ps) = 2 * MAX_LINE_SZ + 1" and "10 \<notin> set (concat ps)" and "[] \<notin> set ps"
  shows "\<exists>f. sock_run post lost (map (\<lambda>p. Callback (\<lambda>_. Some p)) ps) (new_textsock name fd) w = Inr (f, w) \<and> ts_buf f = concat ps \<and>
    (\<forall>rd w'. textsocket_callback post lost rd f w' =
       (if rd 0 = None then Inr (-1, f, w') else bnd (lost w') (\<lambda>w'. Inr (1, f, w')))) \<and>
    (\<forall>ops w' post'. sock_run post' lost ops f w' = sock_run post lost ops f w') \<and>
    (\<forall>ops w' g w''. sock_run post lost ops f w' = Inr (g, w'') \<longrightarrow> g = f\<lparr>ts_fd := ts_fd g\<rparr>)"
proof -
  have "ts_read (new_textsock name fd) = 0" "MAX_LINE_SZ \<le> length (ts_buf (new_textsock name fd))"
    "ts_write (new_textsock name fd) + length (concat ps) = length (ts_buf (new_textsock name fd))"
    "ts_write (new_textsock name fd) = 0"
    using assms(1) by (simp_all add: new_textsock_def)
  with fill_socket [OF this(1,2) assms(2,3), of post lost w] obtain f where
    f: "sock_run post lost (map (\<lambda>p. Callback (\<lambda>_. Some p)) ps) (new_textsock name fd) w = Inr (f, w)" "jammed f" "ts_buf f = concat ps"
    by (auto simp: jammed_def)
  show ?thesis
  proof (intro exI conjI allI impI)
    fix ops w' g w''
    assume "sock_run post lost ops f w' = Inr (g, w'')"
    with run_jammed [OF f(2)] show "g = f\<lparr>ts_fd := ts_fd g\<rparr>" unfolding only_fd_def by blast
  next
    fix ops w' post'
    show "sock_run post' lost ops f w' = sock_run post lost ops f w'" using run_jammed [OF f(2)] by blast
  qed (fact f(1) f(3) callback_jammed [OF f(2)])+
qed

section \<open>Files\<close>

definition open_at :: "byte list \<Rightarrow> stream" where
  "open_at bs = \<lparr>st_rest = bs, st_eof = False\<rparr>"

lemma read_line_long: "10 \<notin> set l \<Longrightarrow> n \<le> length l \<Longrightarrow> read_line n (l @ rest) = (take n l, \<lparr>st_rest = drop n l @ rest, st_eof = False\<rparr>)"
proof (induction n l arbitrary: rest rule: read_line.induct)
  case (3 n b bs)
  then show ?case by auto
qed auto

lemma read_line_short:
  "10 \<notin> set l \<Longrightarrow> length l < n \<Longrightarrow> read_line n (l @ 10 # rest) = (l @ [10], \<lparr>st_rest = rest, st_eof = False\<rparr>)"
proof (induction n l arbitrary: rest rule: read_line.induct)
  case (2 n)
  then show ?case by simp
next
  case (3 n b bs)
  then show ?case by auto
qed auto

lemma read_line_end: "10 \<notin> set l \<Longrightarrow> length l < n \<Longrightarrow> read_line n l = (l, \<lparr>st_rest = [], st_eof = True\<rparr>)"
  by (induction n l rule: read_line.induct) auto

lemma c_str_all: "0 \<notin> set l \<Longrightarrow> c_str l = l"
  by (auto simp: c_str_def takeWhile_eq_all_conv)

lemma unat_size: "n < 2 ^ 32 \<Longrightarrow> unat (of_nat n :: cint) = n"
  by (simp add: unsigned_of_nat take_bit_nat_eq_self)

lemma fgets_long: "10 \<notin> set l \<Longrightarrow> 0 \<notin> set l \<Longrightarrow> 1023 \<le> length l \<Longrightarrow> fgets BUFF_SZ (open_at (l @ rest)) =
    (Some (take 1023 l), open_at (drop 1023 l @ rest))"
  using read_line_long [of l 1023 rest]
  by (auto simp: fgets_def BUFF_SZ_def open_at_def intro!: c_str_all dest: in_set_takeD)

lemma fgets_short: "10 \<notin> set l \<Longrightarrow> 0 \<notin> set l \<Longrightarrow> length l < 1023 \<Longrightarrow> fgets BUFF_SZ (open_at (l @ 10 # rest)) =
    (Some (l @ [10]), open_at rest)"
  using read_line_short [of l 1023 rest] by (simp add: fgets_def BUFF_SZ_def open_at_def c_str_all)

lemma strcat_fits:
  "length d + length s < n \<Longrightarrow> n < 2 ^ 32 \<Longrightarrow> strcat_within (of_nat n) d s = Inr (d @ s)"
  unfolding strcat_within_def by (simp only: unat_size if_True)

lemma size_less: "n < 2 ^ 32 \<Longrightarrow> (of_nat n :: cint) < of_nat MAX_LINE_SZ \<longleftrightarrow> n < 10000"
  by (simp only: word_less_nat_alt unat_size MAX_LINE_SZ_def) (simp add: unat_size)

lemma long_line_pieces:
  assumes "0 \<notin> set l" and "10 \<notin> set l" and "length s = 1023" and "length d = 1023 * min i 8" and "length l div 1023 < n"
    and "1024 * (i + length l div 1023 + 3) < 2 ^ 32"
  shows "\<exists>D. long_line n (of_nat (1024 * (i + 1))) d s (open_at (l @ 10 # rest)) =
      Inr (of_nat (1024 * (i + length l div 1023 + 3)), D, open_at rest) \<and> (i + length l div 1023 \<le> 6 \<longrightarrow> D = d @ s @ l @ [10])"
  using assms
proof (induction n arbitrary: i d s l)
  case (Suc n)
  let ?sz = "1024 * (i + 2)" and ?k = "length l div 1023"
  have sz: "of_nat (1024 * (i + 1)) + of_nat BUFF_SZ = (of_nat ?sz :: cint)" "of_nat ?sz + of_nat BUFF_SZ = (of_nat (1024 * (i + 3)) :: cint)"
    by (simp_all add: BUFF_SZ_def)
  define d' where "d' = (if i + 2 \<le> 9 then d @ s else d)"
  have small: "?sz < 2 ^ 32" "1024 * (i + 3) < 2 ^ 32" using Suc.prems(6) by simp_all
  have cat: "(if (of_nat ?sz :: cint) < of_nat MAX_LINE_SZ then strcat_within (of_nat ?sz) d s else Inr d) = Inr d'"
    using strcat_fits [OF _ small(1), of d s] Suc.prems(3,4) unfolding size_less [OF small(1)] d'_def by auto
  have len: "length d' = 1023 * min (i + 1) 8" using Suc.prems(3,4) by (auto simp: d'_def min_def)
  show ?case
  proof (cases "length l < 1023")
    case True
    then have "strcat_within (of_nat (1024 * (i + 3))) d' (l @ [10]) = Inr (d' @ l @ [10])"
      using len by (intro strcat_fits small(2)) auto
    then have "long_line (Suc n) (of_nat (1024 * (i + 1))) d s (open_at (l @ 10 # rest)) =
        Inr (of_nat (1024 * (i + 3)), d' @ l @ [10], open_at rest)"
      using fgets_short [OF Suc.prems(2,1) True, of rest]
      by (simp only: long_line.simps Let_def sz cat bnd_Inr prod.case option.case last_char_def) simp
    with True show ?thesis by (auto simp: d'_def)
  next
    case False
    let ?l = "drop 1023 l"
    have k: "?k = Suc (length ?l div 1023)" using False by (simp add: le_div_geq)
    have ne: "take 1023 l \<noteq> []" using False by auto
    from in_set_takeD [OF last_in_set [OF this]] have "last (take 1023 l) \<in> set l" .
    with False ne Suc.prems(2) have take: "length (take 1023 l) = 1023" "take 1023 l \<noteq> []" "last (take 1023 l) \<noteq> 10" by auto
    have step: "long_line (Suc n) (of_nat (1024 * (i + 1))) d s (open_at (l @ 10 # rest)) =
        long_line n (of_nat ?sz) d' (take 1023 l) (open_at (?l @ 10 # rest))"
      using fgets_long [OF Suc.prems(2,1), of "10 # rest"] False take
      by (simp only: long_line.simps Let_def sz cat bnd_Inr prod.case option.case last_char_def) simp
    have nz: "0 \<notin> set ?l" "10 \<notin> set ?l" using Suc.prems(1,2) by (auto dest: in_set_dropD)
    from Suc.IH [OF nz take(1) len, unfolded] k Suc.prems(5,6) obtain D where
      "long_line n (of_nat (1024 * (i + 1 + 1))) d' (take 1023 l) (open_at (?l @ 10 # rest)) =
        Inr (of_nat (1024 * (i + 1 + length ?l div 1023 + 3)), D, open_at rest)"
      "i + 1 + length ?l div 1023 \<le> 6 \<longrightarrow> D = d' @ take 1023 l @ ?l @ [10]" by auto
    then show ?thesis unfolding step k by (auto simp: d'_def)
  qed
qed simp

text \<open>Without an end of line in what is left, \<open>s_buff\<close> never ends a line.\<close>

lemma read_line_parts: "read_line n bs = (l, fp) \<Longrightarrow> set l \<subseteq> set bs \<and> set (st_rest fp) \<subseteq> set bs"
  by (induction n bs arbitrary: l fp rule: read_line.induct) (auto split: if_splits prod.splits)

lemma fgets_unended:
  assumes "0 \<notin> set (st_rest fp)" and "10 \<notin> set (st_rest fp)" and "fgets BUFF_SZ fp = (r, fq)"
  shows "0 \<notin> set (st_rest fq) \<and> 10 \<notin> set (st_rest fq) \<and> (\<forall>l. r = Some l \<longrightarrow> l \<noteq> [] \<and> last l \<noteq> 10)"
proof -
  obtain l fr where r: "read_line (BUFF_SZ - 1) (st_rest fp) = (l, fr)" by fastforce
  from read_line_parts [OF this] assms(1,2) have l: "0 \<notin> set l" "10 \<notin> set l" "0 \<notin> set (st_rest fr)" "10 \<notin> set (st_rest fr)" by auto
  moreover have "l \<noteq> [] \<Longrightarrow> last l \<noteq> 10" using l(2) by (metis last_in_set)
  ultimately show ?thesis using assms(3) r by (auto simp: fgets_def c_str_all split: if_splits)
qed

lemma long_line_stuck:
  assumes "s \<noteq> []" and "last s \<noteq> 10" and "0 \<notin> set (st_rest fp)" and "10 \<notin> set (st_rest fp)"
  shows "\<exists>e. long_line n sz d s fp = Inl e"
  using assms
proof (induction n arbitrary: sz d s fp)
  case (Suc n)
  obtain r fq where g: "fgets BUFF_SZ fp = (r, fq)" by fastforce
  note u = fgets_unended [OF Suc.prems(3,4) g]
  let ?s = "case r of None \<Rightarrow> s | Some l \<Rightarrow> l"
  have s: "?s \<noteq> []" "last ?s \<noteq> 10" using u Suc.prems(1,2) by (auto split: option.splits)
  have "\<exists>e. long_line n sz d ?s fq = Inl e" for sz d using Suc.IH [OF s] u by blast
  then show ?case using g s by (auto simp: Let_def last_char_def bnd_def split: sum.splits)
qed simp

text \<open>Claim C29 (error).  What becomes of a line of a file.  A line of at most 8184 bytes is posted, counted and added to the
  checksum; a longer one, up to four thousand million bytes, is dropped and not even counted, although the limit
  is said to be 10000; and on a line at the end of the file that is not terminated the function never returns.\<close>

theorem lines_of_files:
  assumes "0 \<notin> set l" and "10 \<notin> set l" and "length l < 4 * 10 ^ 9" and "length l < n"
  shows "(tf_stream tf = open_at (l @ 10 # rest) \<longrightarrow> process_new_lines n post tf s =
      (if length l < 8184 then
         bnd (post (tf_line tf + 1) (l @ [10]) s) (\<lambda>s. Inr (False, tf\<lparr>tf_stream := open_at rest, tf_line := tf_line tf + 1,
           tf_hash := crc32 (tf_hash tf) (Some (l @ [10])), tf_eof := False\<rparr>, s))
       else Inr (False, tf\<lparr>tf_stream := open_at rest, tf_eof := False\<rparr>, s))) \<and>
    (tf_stream tf = open_at l \<and> l \<noteq> [] \<longrightarrow> (\<forall>n. \<exists>e. process_new_lines n post tf s = Inl e))"
proof (intro conjI impI)
  assume tf: "tf_stream tf = open_at (l @ 10 # rest)"
  show "process_new_lines n post tf s = (if length l < 8184 then
         bnd (post (tf_line tf + 1) (l @ [10]) s) (\<lambda>s. Inr (False, tf\<lparr>tf_stream := open_at rest, tf_line := tf_line tf + 1,
           tf_hash := crc32 (tf_hash tf) (Some (l @ [10])), tf_eof := False\<rparr>, s))
       else Inr (False, tf\<lparr>tf_stream := open_at rest, tf_eof := False\<rparr>, s))"
  proof (cases "length l < 1023")
    case True
    have "\<not> (of_nat MAX_LINE_SZ :: cint) \<le> of_nat BUFF_SZ" using size_less [of BUFF_SZ] by (simp add: BUFF_SZ_def not_le)
    with True tf show ?thesis using fgets_short [OF assms(2,1) True, of rest]
      by (simp add: process_new_lines_def last_char_def Let_def bnd_assoc del: bnd_eq_Inr)
  next
    case False
    let ?l = "drop 1023 l"
    let ?k = "length ?l div 1023"
    have ne: "take 1023 l \<noteq> []" using False by auto
    from in_set_takeD [OF last_in_set [OF this]] have "last (take 1023 l) \<in> set l" .
    with False ne assms(2) have first: "length (take 1023 l) = 1023" "last (take 1023 l) \<noteq> 10" by auto
    have nz: "0 \<notin> set ?l" "10 \<notin> set ?l" using assms(1,2) by (auto dest: in_set_dropD)
    have size: "1024 * (?k + 3) < 2 ^ 32" using assms(3) by simp
    have fuel: "?k < n" using assms(4) by (intro le_less_trans [OF div_le_dividend]) simp
    from long_line_pieces [OF nz first(1) _ fuel, of "[]" 0 rest] size obtain D where
      D: "long_line n (of_nat BUFF_SZ) [] (take 1023 l) (open_at (?l @ 10 # rest)) = Inr (of_nat (1024 * (?k + 3)), D, open_at rest)"
        "?k \<le> 6 \<longrightarrow> D = take 1023 l @ ?l @ [10]" by (auto simp: BUFF_SZ_def)
    have "?k < 7 \<longleftrightarrow> length ?l < 7 * 1023" by (rule div_less_iff_less_mult) simp
    then have k: "?k \<le> 6 \<longleftrightarrow> length l < 8184" using False by auto
    have "1024 * (k + 3) < 10000 \<longleftrightarrow> k \<le> 6" for k :: nat by auto
    then have small: "1024 * (?k + 3) < 10000 \<longleftrightarrow> length l < 8184" using k by blast
    have lim: "(of_nat MAX_LINE_SZ :: cint) \<le> of_nat (1024 * (?k + 3)) \<longleftrightarrow> \<not> length l < 8184"
      unfolding trans [OF size_less [OF size] small, symmetric] by (rule not_less [symmetric])
    define sz :: cint where "sz = of_nat (1024 * (?k + 3))"
    have D': "long_line n (of_nat BUFF_SZ) [] (take 1023 l) (open_at (?l @ 10 # rest)) = Inr (sz, D, open_at rest)"
      "(of_nat MAX_LINE_SZ :: cint) \<le> sz \<longleftrightarrow> \<not> length l < 8184"
      using D(1) lim unfolding sz_def by blast+
    have D'': "D = l @ [10]" if "length l < 8184" using that D(2) k append_take_drop_id [of 1023 l] by simp
    have fg: "fgets BUFF_SZ (tf_stream tf) = (Some (take 1023 l), open_at (?l @ 10 # rest))"
      using fgets_long [OF assms(2,1), of "10 # rest"] False tf by simp
    show ?thesis using D' D'' ne first(2) fg
      by (cases "length l < 8184") (simp_all add: process_new_lines_def last_char_def bnd_assoc del: bnd_eq_Inr)
  qed
next
  assume l: "tf_stream tf = open_at l \<and> l \<noteq> []"
  obtain r fq where g: "fgets BUFF_SZ (tf_stream tf) = (r, fq)" by fastforce
  have "0 \<notin> set (st_rest (tf_stream tf))" "10 \<notin> set (st_rest (tf_stream tf))" using l assms(1,2) by (simp_all add: open_at_def)
  note u = fgets_unended [OF this g]
  obtain k where "r = Some k"
    using g l by (cases l) (auto simp: fgets_def open_at_def BUFF_SZ_def numeral_eq_Suc split: if_splits prod.splits)
  with g u have k: "fgets BUFF_SZ (tf_stream tf) = (Some k, fq)" "k \<noteq> []" "last k \<noteq> 10" by simp_all
  show "\<forall>n. \<exists>e. process_new_lines n post tf s = Inl e"
  proof
    fix n
    from long_line_stuck [OF k(2,3), of fq n "of_nat BUFF_SZ" "[]"] u obtain e where
      "long_line n (of_nat BUFF_SZ) [] k fq = Inl e" by blast
    with k show "\<exists>e. process_new_lines n post tf s = Inl e" by (simp add: process_new_lines_def last_char_def)
  qed
qed

section \<open>Samples\<close>

text \<open>Two lines, and the beginning of a third one, in pieces of one and two bytes; the state is the list of what is posted.\<close>

definition sample_stream :: "byte list" where
  "sample_stream = [65, 10, 66, 67, 10, 68]"

lemma sample_cut: "cut_lines [] sample_stream = ([[65, 10], [66, 67, 10]], [68])"
  by (simp add: sample_stream_def)

theorem socket_lines_arrive_witness:
  "\<forall>cfg :: orchids input_cfg. \<exists>f'. unread_text f' = [68] \<and> ts_line f' = 2 \<and>
     (\<forall>w. serve (textsock_post 1 cfg 0 [120]) (connection_lost 5) [0, 1, 0, 0, 0, 0] sample_stream (new_textsock [120] 3) w =
        bnd (textsock_post 1 cfg 0 [120] 1 [65, 10] w) (\<lambda>w. bnd (textsock_post 1 cfg 0 [120] 2 [66, 67, 10] w) (\<lambda>w. Inr ([], f', w))))"
proof
  fix cfg :: "orchids input_cfg"
  let ?f = "new_textsock [120] 3"
  have f: "sock_ok ?f" "cut_lines (unread_text ?f) sample_stream = ([[65, 10], [66, 67, 10]], [68])"
    "ts_line ?f = 0" "ts_filename ?f = [120]" using new_textsock_ok sample_cut by (simp_all add: new_textsock_def)
  have "\<forall>l \<in> set [[65, 10], [66, 67, 10 :: byte]]. length l \<le> MAX_LINE_SZ" "length [68 :: byte] < MAX_LINE_SZ"
    "length sample_stream \<le> length [0, 1, 0, 0, 0, 0 :: nat]" by (simp_all add: MAX_LINE_SZ_def sample_stream_def)
  from socket_lines_arrive [OF f(1,2) this, of 1 cfg 0 5] obtain f' where f': "unread_text f' = [68]" "ts_line f' = 2"
    "\<And>w. serve (textsock_post 1 cfg 0 [120]) (connection_lost 5) [0, 1, 0, 0, 0, 0] sample_stream ?f w =
      bnd (post_lines (textsock_post 1 cfg 0 [120]) 1 [[65, 10], [66, 67, 10]] w) (\<lambda>w. Inr ([], f', w))" by (auto simp: f(3,4))
  have "(2 :: nat) \<le> MAX_LINE_SZ" "(3 :: nat) \<le> MAX_LINE_SZ" by (simp_all add: MAX_LINE_SZ_def)
  then have "post_lines post 1 [[65, 10], [66, 67, 10]] w = bnd (post 1 [65, 10] w) (\<lambda>w. post 2 [66, 67, 10] w)" for post and w :: "unit text_world"
    by (simp add: bnd_def split: sum.splits)
  with f' show "\<exists>f'. unread_text f' = [68] \<and> ts_line f' = 2 \<and>
     (\<forall>w. serve (textsock_post 1 cfg 0 [120]) (connection_lost 5) [0, 1, 0, 0, 0, 0] sample_stream (new_textsock [120] 3) w =
        bnd (textsock_post 1 cfg 0 [120] 1 [65, 10] w) (\<lambda>w. bnd (textsock_post 1 cfg 0 [120] 2 [66, 67, 10] w) (\<lambda>w. Inr ([], f', w))))"
    by (intro exI [of _ f'] conjI allI) (simp_all only: bnd_assoc)
qed

theorem overlong_line_jams_witness:
  "\<forall>w :: unit text_world. \<exists>f. sock_run (\<lambda>n l. Inr) Inr [Callback (\<lambda>_. Some (replicate 10000 65)), Callback (\<lambda>_. Some (replicate 10001 66))]
       (new_textsock [] 3) w = Inr (f, w) \<and>
     textsocket_callback (\<lambda>n l. Inr) Inr (\<lambda>_. Some [66, 10]) f w = Inr (1, f, w)"
proof
  fix w :: "unit text_world"
  let ?ps = "[replicate 10000 65, replicate 10001 66] :: byte list list"
  have "length (concat ?ps) = 2 * MAX_LINE_SZ + 1" "10 \<notin> set (concat ?ps)" "[] \<notin> set ?ps"
    by (simp_all add: MAX_LINE_SZ_def)
  from overlong_line_jams [OF this, of "\<lambda>n l. Inr" Inr "[]" 3 w] obtain f where
    f: "sock_run (\<lambda>n l. Inr) Inr (map (\<lambda>p. Callback (\<lambda>_. Some p)) ?ps) (new_textsock [] 3) w = Inr (f, w)"
      "\<forall>rd. \<forall>w' :: unit text_world. textsocket_callback (\<lambda>n l. Inr) Inr rd f w' =
         (if rd 0 = None then Inr (-1, f, w') else bnd (Inr w') (\<lambda>w'. Inr (1, f, w')))" by (elim exE conjE) (rule that)
  then show "\<exists>f. sock_run (\<lambda>n l. Inr) Inr [Callback (\<lambda>_. Some (replicate 10000 65)), Callback (\<lambda>_. Some (replicate 10001 66))]
       (new_textsock [] 3) w = Inr (f, w) \<and>
     textsocket_callback (\<lambda>n l. Inr) Inr (\<lambda>_. Some [66, 10]) f w = Inr (1, f, w)"
    by (intro exI [of _ f] conjI) (simp_all only: list.map option.distinct if_False bnd_Inr)
qed

definition sample_textfile :: "byte list \<Rightarrow> textfile" where
  "sample_textfile bs = \<lparr>tf_filename = [], tf_stream = open_at bs, tf_line = 6, tf_hash = 0, tf_eof = False\<rparr>"

theorem lines_of_files_witness:
  "(\<exists>tf. process_new_lines 3 (\<lambda>n l s. Inr (s @ [(n, l)])) (sample_textfile [65, 66, 10, 67]) [] = Inr (False, tf, [(7, [65, 66, 10])])) \<and>
   (\<forall>n. \<exists>e. process_new_lines n (\<lambda>n l s. Inr (s @ [(n, l)])) (sample_textfile [65, 66]) [] = Inl e)"
  using lines_of_files [of "[65, 66]" 3 "sample_textfile [65, 66, 10, 67]" "[67]" "\<lambda>n l s. Inr (s @ [(n, l)])" "[]"]
    lines_of_files [of "[65, 66]" 3 "sample_textfile [65, 66]" "[]" "\<lambda>n l s. Inr (s @ [(n, l)])" "[]"]
  by (simp add: sample_textfile_def)

end
