(* ===== verification/Config.thy ===== *)
theory Config
  imports Input Builtins
begin

text \<open>
  \<open>src/orchids_cfg.c\<close>: the configuration files, the tree of directives that is built from them, and the
  directives of the core.  A C string is the list of its bytes without the terminator, a linked list of
  directives is a list; the back pointer \<open>parent\<close>, which only the parser uses, is an argument of the parser.
  What \<open>DebugLog\<close> prints is left out, but not the dereferences in its arguments.
\<close>

section \<open>Lines\<close>

definition LINE_MAX :: nat where "LINE_MAX = 2048"

definition Xfgets :: "nat \<Rightarrow> stream \<Rightarrow> byte list \<times> stream" where
  "Xfgets n fp = (let (l, fp) = read_line (n - 1) (st_rest fp) in (c_str l, fp))"

definition is_blank :: "byte \<Rightarrow> bool" where
  "is_blank b \<longleftrightarrow> b = 32 \<or> b = 9 \<or> b = 10"

definition cfg_get_next_token :: "byte list \<Rightarrow> nat \<times> nat" where
  "cfg_get_next_token s =
     (let token = dropWhile is_blank s in
      (length (takeWhile is_blank s),
       if token = [] \<or> hd token = 10 then 0 else length (takeWhile (\<lambda>b. \<not> is_blank b) token)))"

text \<open>
  \<open>strip_trailing_garbage\<close>: the arguments are the index of the character, of the last effective one, whether
  the character is escaped, and the quote that is open.  The result is the length that is left, if the
  string is cut.
\<close>

fun strip_from :: "nat \<Rightarrow> nat \<Rightarrow> bool \<Rightarrow> byte \<Rightarrow> byte list \<Rightarrow> nat option" where
  "strip_from i eff escaping quote [] = None"
| "strip_from i eff escaping quote (c # cs) =
     (if escaping then strip_from (i + 1) i False quote cs
      else if c = 35 then (if quote = 0 then Some (eff + 1) else strip_from (i + 1) i False quote cs)
      else if c = 10 then Some (eff + 1)
      else if c = 9 \<or> c = 32 then strip_from (i + 1) eff False quote cs
      else if c = 92 then strip_from (i + 1) i True quote cs
      else if c = 39 \<or> c = 34 then
        strip_from (i + 1) i False (if quote = c then 0 else if quote = 0 then c else quote) cs
      else strip_from (i + 1) i False quote cs)"

definition strip_trailing_garbage :: "byte list \<Rightarrow> byte list" where
  "strip_trailing_garbage s = (case strip_from 0 0 False 0 s of None \<Rightarrow> s | Some n \<Rightarrow> take n s)"

text \<open>\<open>None\<close> is \<open>CONFIG_IGNORE_LINE\<close>; an argument that is \<open>None\<close> is \<open>NULL\<close>.\<close>

definition ends_line :: "byte list \<Rightarrow> bool" where
  "ends_line s \<longleftrightarrow> s = [] \<or> hd s = 35 \<or> hd s = 10"

definition split_line :: "byte list \<Rightarrow> (byte list \<times> byte list option) option" where
  "split_line line =
     (let (offset, len) = cfg_get_next_token line; p = drop offset line in
      if ends_line p then None
      else let q = drop len p; arg = dropWhile is_blank q in
        Some (take len p, if ends_line arg then None else Some (strip_trailing_garbage arg)))"

section \<open>The tree\<close>

datatype directive = Directive (dir_name: "byte list") (dir_args: "byte list option")
  (dir_children: "directive list") (dir_file: "byte list") (dir_line: cint)

definition RETURN_SUCCESS :: int where "RETURN_SUCCESS = 0"
definition ERR_CFG_PEOF :: int where "ERR_CFG_PEOF = 1"
definition ERR_CFG_SECT :: int where "ERR_CFG_SECT = 2"

definition opens_section :: "byte list \<Rightarrow> bool" where
  "opens_section dir \<longleftrightarrow> take 1 dir = [60] \<and> take 2 dir \<noteq> [60, 47]"

definition closes_section :: "byte list \<Rightarrow> bool" where
  "closes_section dir \<longleftrightarrow> take 2 dir = [60, 47]"

definition section_name :: "byte list \<Rightarrow> byte list" where
  "section_name dir = (if last dir = 62 then butlast dir else dir)"

text \<open>\<open>strncmp(directive + 2, parent->directive + 1, strlen(directive) - 3)\<close>, where the length is a \<open>size_t\<close>.\<close>

definition closes :: "byte list \<Rightarrow> byte list \<Rightarrow> bool" where
  "closes dir parent = (if length dir < 3 then drop 2 dir = drop 1 parent
     else take (length dir - 3) (drop 2 dir) = take (length dir - 3) (drop 1 parent))"

text \<open>
  The parser of a section.  \<open>sect\<close> is the list that \<open>sect_root\<close> points to; the results are the error code, the
  list, the stream and the number of the line.  A step of the first argument is a line that is read.  The
  list that \<open>inc\<close> gives for the pattern of an \<open>Include\<close> is linked behind the last directive; its error code
  is not looked at.  The message about a closing tag that does not fit asks for the name of the parent, which is
  \<open>NULL\<close> outside of all sections.
\<close>

fun build_config_tree_sub ::
  "nat \<Rightarrow> (byte list option \<Rightarrow> fault + directive list) \<Rightarrow> byte list option \<Rightarrow> byte list \<Rightarrow>
   directive list \<Rightarrow> stream \<Rightarrow> cint \<Rightarrow> fault + int \<times> directive list \<times> stream \<times> cint" where
  "build_config_tree_sub 0 inc parent file sect fp line = Inl NoReturn"
| "build_config_tree_sub (Suc n) inc parent file sect fp line =
     (if st_eof fp then Inr (if parent = None then RETURN_SUCCESS else ERR_CFG_PEOF, sect, fp, line)
      else case Xfgets LINE_MAX fp of (buf, fp) \<Rightarrow>
        (case split_line buf of
           None \<Rightarrow> build_config_tree_sub n inc parent file sect fp (line + 1)
         | Some (dir, args) \<Rightarrow>
             if opens_section dir then
               bnd (build_config_tree_sub n inc (Some (section_name dir)) file [] fp (line + 1)) (\<lambda>(ret, children, fp, line').
                 let sect = sect @ [Directive (section_name dir) args children file (line + 1)] in
                 if ret \<noteq> RETURN_SUCCESS then Inr (ret, sect, fp, line')
                 else build_config_tree_sub n inc parent file sect fp line')
             else if closes_section dir then
               (case parent of None \<Rightarrow> Inl NullDeref
                | Some p \<Rightarrow> Inr (if closes dir p then RETURN_SUCCESS else ERR_CFG_SECT, sect, fp, line + 1))
             else if strcmp_eq (chars ''Include'') dir then
               bnd (inc args) (\<lambda>ds. build_config_tree_sub n inc parent file (sect @ ds) fp (line + 1))
             else build_config_tree_sub n inc parent file (sect @ [Directive dir args [] file (line + 1)]) fp (line + 1)))"

text \<open>The files of a pattern, until one of them has an error; the directives of that one are lost.\<close>

fun proceed_includes :: "(byte list \<Rightarrow> fault + int \<times> directive list) \<Rightarrow> byte list list \<Rightarrow> directive list \<Rightarrow>
  fault + int \<times> directive list" where
  "proceed_includes build [] acc = Inr (RETURN_SUCCESS, acc)"
| "proceed_includes build (path # paths) acc =
     bnd (build path) (\<lambda>(ret, ds). if ret \<noteq> 0 then Inr (ret, acc) else proceed_includes build paths (acc @ ds))"

text \<open>
  What the operating system answers: the paths of a pattern, the contents of files, shared objects and their
  symbols, limits, and addresses.  \<open>ce_command\<close> runs the function that a module has registered for one of its
  directives.
\<close>

datatype sys_call = SetRlimit culong culong | SetPriority int

record 'o config_env =
  ce_glob :: "byte list \<Rightarrow> byte list list"
  ce_open :: "byte list \<Rightarrow> byte list option"
  ce_dlopen :: "byte list \<Rightarrow> nat option"
  ce_dlsym_mod :: "nat \<Rightarrow> byte list \<Rightarrow> input_module option"
  ce_dlsym_fun :: "nat option \<Rightarrow> byte list \<Rightarrow> nat option"
  ce_getrlimit :: "sys_call list \<Rightarrow> (culong \<times> culong) option"
  ce_inet_addr :: "byte list \<Rightarrow> cint"
  ce_command :: "nat \<Rightarrow> nat \<Rightarrow> directive \<Rightarrow> 'o \<Rightarrow> fault + 'o"
  ce_input :: "'o input_cfg"

text \<open>The first argument bounds the depth of the files that include each other.\<close>

primrec build_config_tree :: "nat \<Rightarrow> 'o config_env \<Rightarrow> byte list \<Rightarrow> fault + int \<times> directive list" where
  "build_config_tree 0 env path = Inl NoReturn"
| "build_config_tree (Suc k) env path = (case ce_open env path of None \<Rightarrow> Inl ExitFailure | Some text \<Rightarrow>
     bnd (build_config_tree_sub (length text + 2)
            (\<lambda>args. case args of None \<Rightarrow> Inl NullDeref | Some pattern \<Rightarrow>
               bnd (proceed_includes (build_config_tree k env) (ce_glob env pattern) []) (\<lambda>(ret, ds). Inr ds))
            None path [] \<lparr>st_rest = text, st_eof = False\<rparr> 0)
       (\<lambda>(ret, ds, fp, line). Inr (ret, ds)))"

section \<open>The directives of the core\<close>

text \<open>The part of the context that the directives set.  The list of the files of rules is the list of the pointers to
  their names; a name that \<open>glob\<close> gave is freed by \<open>globfree\<close> when the list has taken the pointer.
  \<open>sys_calls\<close> are the calls that were made, the last one first.\<close>

datatype rule_pointer = RuleName "byte list option" | FreedName

record preproc_cmd =
  pp_suffix :: "byte list"
  pp_cmd :: "byte list"

record config_orchids = orchids +
  poll_period :: int
  rulefile_list :: "rule_pointer list"
  runtime_user :: "byte list option"
  default_preproc_cmd :: "byte list option"
  preproclist :: "preproc_cmd list"
  modules_dir :: "byte list option"
  lockfile :: "byte list option"
  resolve_ipv4 :: bool
  sys_calls :: "sys_call list"

definition with_args :: "directive \<Rightarrow> (byte list \<Rightarrow> fault + 'a) \<Rightarrow> fault + 'a" where
  "with_args dir f = (case dir_args dir of None \<Rightarrow> Inl NullDeref | Some args \<Rightarrow> f args)"

definition set_poll_period :: "directive \<Rightarrow> 'a config_orchids_scheme \<Rightarrow> fault + 'a config_orchids_scheme" where
  "set_poll_period dir s = with_args dir (\<lambda>args.
     let p = sint (c_atoi args) in Inr (s\<lparr>poll_period := (if p < 1 then 1 else p)\<rparr>))"

definition add_rule_file :: "directive \<Rightarrow> 'a config_orchids_scheme \<Rightarrow> fault + 'a config_orchids_scheme" where
  "add_rule_file dir s = Inr (s\<lparr>rulefile_list := rulefile_list s @ [RuleName (dir_args dir)]\<rparr>)"

definition add_rule_files ::
  "'o config_env \<Rightarrow> directive \<Rightarrow> 'a config_orchids_scheme \<Rightarrow> fault + 'a config_orchids_scheme" where
  "add_rule_files env dir s = with_args dir (\<lambda>args.
     Inr (s\<lparr>rulefile_list := rulefile_list s @ map (\<lambda>_. FreedName) (ce_glob env args)\<rparr>))"

text \<open>\<open>%32[a-zA-Z]\<close> into an array of \<open>MODNAME_MAX\<close> characters: the terminator of a name of 32 letters is written
  behind it.  Without a letter the array is read uninitialised.\<close>

definition MODNAME_MAX :: nat where "MODNAME_MAX = 32"

definition is_alpha :: "byte \<Rightarrow> bool" where
  "is_alpha b \<longleftrightarrow> 65 \<le> unat b \<and> unat b \<le> 90 \<or> 97 \<le> unat b \<and> unat b \<le> 122"

definition scan_modname :: "byte list \<Rightarrow> fault + byte list" where
  "scan_modname args = (let name = takeWhile is_alpha args in
     if name = [] \<or> MODNAME_MAX \<le> length name then Inl OutOfBounds else Inr name)"

definition run_command ::
  "'a orchids_scheme config_env \<Rightarrow> nat \<Rightarrow> (byte list option \<times> nat option) list \<Rightarrow> directive \<Rightarrow>
   'a orchids_scheme \<Rightarrow> fault + 'a orchids_scheme" where
  "run_command env m cmds d s = bnd (directive_from cmds (dir_name d)) (\<lambda>cmd. case cmd of
     None \<Rightarrow> Inr s | Some f \<Rightarrow> ce_command env f m d s)"

fun run_commands ::
  "'a orchids_scheme config_env \<Rightarrow> nat \<Rightarrow> (byte list option \<times> nat option) list \<Rightarrow> directive list \<Rightarrow>
   'a orchids_scheme \<Rightarrow> fault + 'a orchids_scheme" where
  "run_commands env m cmds [] s = Inr s"
| "run_commands env m cmds (d # ds) s = bnd (run_command env m cmds d s) (run_commands env m cmds ds)"

definition commands_of :: "nat \<Rightarrow> 'a orchids_scheme \<Rightarrow> fault + (byte list option \<times> nat option) list option" where
  "commands_of m s = bnd (at (o_mods s) m) (\<lambda>e. case me_mod e of None \<Rightarrow> Inl NullDeref | Some d \<Rightarrow> Inr (im_cmds d))"

definition module_config ::
  "'a orchids_scheme config_env \<Rightarrow> directive \<Rightarrow> 'a orchids_scheme \<Rightarrow> fault + 'a orchids_scheme" where
  "module_config env dir s = with_args dir (\<lambda>args. bnd (scan_modname args) (\<lambda>name.
     bnd (find_module_entry name s) (\<lambda>m. case m of None \<Rightarrow> Inr s | Some m \<Rightarrow>
     bnd (commands_of m s) (\<lambda>c. case c of None \<Rightarrow> Inr s
       | Some cmds \<Rightarrow> run_commands env m cmds (dir_children dir) s))))"

text \<open>\<open>load_add_shared_module\<close> of \<open>src/mod_mgr.c\<close>; what \<open>add_module\<close> returns is not looked at.\<close>

definition PATH_MAX :: nat where "PATH_MAX = 4096"

definition load_add_shared_module ::
  "('a config_orchids_scheme) config_env \<Rightarrow> byte list \<Rightarrow> 'a config_orchids_scheme \<Rightarrow>
   fault + input_module option \<times> 'a config_orchids_scheme" where
  "load_add_shared_module env name s = (case modules_dir s of None \<Rightarrow> Inl NullDeref | Some dir \<Rightarrow>
     (case ce_dlopen env (take (PATH_MAX - 1) (dir @ chars ''/mod_'' @ name @ chars ''.so'')) of
        None \<Rightarrow> Inr (None, s)
      | Some h \<Rightarrow> (case ce_dlsym_mod env h (take (PATH_MAX - 1) (chars ''mod_'' @ name)) of
          None \<Rightarrow> Inr (None, s)
        | Some d \<Rightarrow> bnd (add_module (ce_input env) d (Some h) s) (\<lambda>(i, s). Inr (Some d, s)))))"

definition config_load_module ::
  "('a config_orchids_scheme) config_env \<Rightarrow> directive \<Rightarrow> 'a config_orchids_scheme \<Rightarrow> fault + 'a config_orchids_scheme" where
  "config_load_module env dir s = with_args dir (\<lambda>args.
     bnd (load_add_shared_module env args s) (\<lambda>(d, s). Inr s))"

definition set_runtime_user :: "directive \<Rightarrow> 'a config_orchids_scheme \<Rightarrow> fault + 'a config_orchids_scheme" where
  "set_runtime_user dir s = Inr (s\<lparr>runtime_user := dir_args dir\<rparr>)"

definition set_default_preproc_cmd :: "directive \<Rightarrow> 'a config_orchids_scheme \<Rightarrow> fault + 'a config_orchids_scheme" where
  "set_default_preproc_cmd dir s = Inr (s\<lparr>default_preproc_cmd := dir_args dir\<rparr>)"

text \<open>\<open>sscanf\<close> with \<open>%256s %4096[^\n]\<close> into arrays of these sizes: the terminators of longer words are written
  behind them.\<close>

definition add_preproc_cmd :: "directive \<Rightarrow> 'a config_orchids_scheme \<Rightarrow> fault + 'a config_orchids_scheme" where
  "add_preproc_cmd dir s = with_args dir (\<lambda>args.
     let p = dropWhile is_space args; suffix = takeWhile (\<lambda>b. \<not> is_space b) p in
     if suffix = [] then Inr s
     else if 256 \<le> length suffix then Inl OutOfBounds
     else let cmd = takeWhile (\<lambda>b. b \<noteq> 10) (dropWhile is_space (drop (length suffix) p)) in
       if cmd = [] then Inr s
       else if 4096 \<le> length cmd then Inl OutOfBounds
       else Inr (s\<lparr>preproclist := \<lparr>pp_suffix = suffix, pp_cmd = cmd\<rparr> # preproclist s\<rparr>))"

text \<open>\<open>get_preproc_cmd\<close> of \<open>src/rule_compiler.c\<close>: the command for a file of rules.\<close>

definition has_suffix :: "byte list \<Rightarrow> byte list \<Rightarrow> bool" where
  "has_suffix suffix name \<longleftrightarrow> length suffix \<le> length name \<and>
     strcmp_eq suffix (drop (length name - length suffix) name)"

fun preproc_from :: "preproc_cmd list \<Rightarrow> byte list \<Rightarrow> byte list option \<Rightarrow> byte list option" where
  "preproc_from [] name d = d"
| "preproc_from (c # cs) name d = (if has_suffix (pp_suffix c) name then Some (pp_cmd c) else preproc_from cs name d)"

definition get_preproc_cmd :: "byte list \<Rightarrow> 'a config_orchids_scheme \<Rightarrow> byte list option" where
  "get_preproc_cmd name s = preproc_from (preproclist s) name (default_preproc_cmd s)"

text \<open>\<open>compile_rules\<close>: \<open>parse\<close> is \<open>issdlparse\<close> on what the command writes; it gives the value of the parser, the
  status of the command, and the state of the compiler.\<close>

definition preproc_line :: "byte list \<Rightarrow> 'a config_orchids_scheme \<Rightarrow> byte list" where
  "preproc_line name s = take 4095
     ((case get_preproc_cmd name s of None \<Rightarrow> chars ''(null)'' | Some cmd \<Rightarrow> cmd) @ 32 # name)"

definition compile_and_add_rulefile ::
  "(byte list \<Rightarrow> 'c \<Rightarrow> fault + int \<times> int \<times> 'c) \<Rightarrow> 'a config_orchids_scheme \<Rightarrow> rule_pointer \<Rightarrow> 'c \<Rightarrow> fault + 'c" where
  "compile_and_add_rulefile parse s rulefile c = (case rulefile of
       FreedName \<Rightarrow> Inl DeadAccess
     | RuleName None \<Rightarrow> Inl NullDeref
     | RuleName (Some name) \<Rightarrow> bnd (parse (preproc_line name s) c) (\<lambda>(ret, status, c).
         if ret > 0 then Inl ExitFailure else if status > 0 then Inl ExitFailure else Inr c))"

fun compile_rulefiles ::
  "(byte list \<Rightarrow> 'c \<Rightarrow> fault + int \<times> int \<times> 'c) \<Rightarrow> 'a config_orchids_scheme \<Rightarrow> rule_pointer list \<Rightarrow> 'c \<Rightarrow> fault + 'c" where
  "compile_rulefiles parse s [] c = Inr c"
| "compile_rulefiles parse s (f # fs) c = bnd (compile_and_add_rulefile parse s f c) (compile_rulefiles parse s fs)"

definition compile_rules ::
  "(byte list \<Rightarrow> 'c \<Rightarrow> fault + int \<times> int \<times> 'c) \<Rightarrow> 'a config_orchids_scheme \<Rightarrow> 'c \<Rightarrow> fault + 'c" where
  "compile_rules parse s c = compile_rulefiles parse s (rulefile_list s) c"

definition set_modules_dir :: "directive \<Rightarrow> 'a config_orchids_scheme \<Rightarrow> fault + 'a config_orchids_scheme" where
  "set_modules_dir dir s = Inr (s\<lparr>modules_dir := dir_args dir\<rparr>)"

definition set_lock_file :: "directive \<Rightarrow> 'a config_orchids_scheme \<Rightarrow> fault + 'a config_orchids_scheme" where
  "set_lock_file dir s = Inr (s\<lparr>lockfile := dir_args dir\<rparr>)"

text \<open>The limit is an \<open>int\<close>, which is extended with its sign when it is compared and stored.\<close>

definition RLIM_INFINITY :: culong where "RLIM_INFINITY = - 1"

definition set_max_memory_limit ::
  "'o config_env \<Rightarrow> directive \<Rightarrow> 'a config_orchids_scheme \<Rightarrow> fault + 'a config_orchids_scheme" where
  "set_max_memory_limit env dir s = with_args dir (\<lambda>args.
     let l = scast (c_atoi args) in
     case ce_getrlimit env (sys_calls s) of None \<Rightarrow> Inr s
     | Some (cur, hard) \<Rightarrow>
         if hard \<noteq> RLIM_INFINITY \<and> hard < l then Inr s
         else Inr (s\<lparr>sys_calls := SetRlimit l l # sys_calls s\<rparr>))"

definition tolower :: "byte \<Rightarrow> byte" where
  "tolower b = (if 65 \<le> unat b \<and> unat b \<le> 90 then b + 32 else b)"

definition strcasecmp_eq :: "byte list \<Rightarrow> byte list \<Rightarrow> bool" where
  "strcasecmp_eq a b = strcmp_eq (map tolower a) (map tolower b)"

definition set_resolve_ip :: "directive \<Rightarrow> 'a config_orchids_scheme \<Rightarrow> fault + 'a config_orchids_scheme" where
  "set_resolve_ip dir s = with_args dir (\<lambda>args.
     Inr (s\<lparr>resolve_ipv4 := list_ex (\<lambda>w. strcasecmp_eq w args)
       (map chars [''on'', ''1'', ''yes'', ''true'', ''enabled''])\<rparr>))"

definition set_nice :: "directive \<Rightarrow> 'a config_orchids_scheme \<Rightarrow> fault + 'a config_orchids_scheme" where
  "set_nice dir s = with_args dir (\<lambda>args.
     let v = sint (c_atoi args) in
     if v < -20 \<or> 19 < v then Inr s else Inr (s\<lparr>sys_calls := SetPriority v # sys_calls s\<rparr>))"

text \<open>The words of an argument.  The loops advance the pointer \<open>dir->args\<close> itself.\<close>

definition isblank :: "byte \<Rightarrow> bool" where
  "isblank b \<longleftrightarrow> b = 32 \<or> b = 9"

definition next_word :: "byte list \<Rightarrow> byte list \<times> byte list" where
  "next_word s = (takeWhile (\<lambda>b. \<not> isblank b) s, dropWhile isblank (dropWhile (\<lambda>b. \<not> isblank b) s))"

text \<open>The handler of the module gets the directive with the rest of the argument.  Here the table of directives
  is used without a test for \<open>NULL\<close>.\<close>

definition add_input_source ::
  "'a orchids_scheme config_env \<Rightarrow> directive \<Rightarrow> 'a orchids_scheme \<Rightarrow> fault + 'a orchids_scheme" where
  "add_input_source env dir s = with_args dir (\<lambda>args. case next_word args of (name, rest) \<Rightarrow>
     if rest = [] then Inr s
     else bnd (find_module_entry name s) (\<lambda>m. case m of None \<Rightarrow> Inr s | Some m \<Rightarrow>
       bnd (commands_of m s) (\<lambda>c. case c of None \<Rightarrow> Inl NullDeref
         | Some cmds \<Rightarrow> run_command env m cmds
             (Directive (dir_name dir) (Some rest) (dir_children dir) (dir_file dir) (dir_line dir)) s)))"

text \<open>The key of a conditional dissector, from the type of the last but one field of the module.\<close>

definition cond_param :: "'o config_env \<Rightarrow> int \<Rightarrow> byte list \<Rightarrow> byte list option" where
  "cond_param env typ str =
     (if typ = 5 \<or> typ = 6 then Some str
      else if typ = 2 \<or> typ = 16 then Some (bytes_le 4 (c_atoi str))
      else if typ = 10 then Some (bytes_le 4 (ce_inet_addr env str))
      else None)"

definition key_field_type :: "nat \<Rightarrow> 'a orchids_scheme \<Rightarrow> fault + int" where
  "key_field_type m s = bnd (at (o_mods s) m) (\<lambda>e.
     if me_first_field e + me_num_fields e < 2 then Inl OutOfBounds
     else bnd (at (o_fields s) (me_first_field e + me_num_fields e - 2)) (\<lambda>f. Inr (fr_type f)))"

definition add_cond_dissector ::
  "'a orchids_scheme config_env \<Rightarrow> directive \<Rightarrow> 'a orchids_scheme \<Rightarrow> fault + 'a orchids_scheme" where
  "add_cond_dissector env dir s = with_args dir (\<lambda>args.
     case next_word args of (dissect_name, args) \<Rightarrow>
     case next_word args of (source_name, args) \<Rightarrow>
     case next_word args of (str, args) \<Rightarrow>
     if dissect_name = [] \<or> source_name = [] \<or> str = [] then Inr s
     else bnd (find_module_entry source_name s) (\<lambda>src. case src of None \<Rightarrow> Inr s | Some src \<Rightarrow>
       bnd (find_module_entry dissect_name s) (\<lambda>m. case m of None \<Rightarrow> Inr s | Some m \<Rightarrow>
       bnd (key_field_type src s) (\<lambda>typ. case cond_param env typ str of None \<Rightarrow> Inr s | Some key \<Rightarrow>
       bnd (at (o_mods s) m) (\<lambda>e. case ce_dlsym_fun env (me_handle e) (chars ''generic_dissect'') of
           None \<Rightarrow> Inr s
         | Some f \<Rightarrow> register_conditional_dissector m source_name key f None s)))))"

definition config_dir_g ::
  "('a config_orchids_scheme) config_env \<Rightarrow>
   (byte list \<times> (directive \<Rightarrow> 'a config_orchids_scheme \<Rightarrow> fault + 'a config_orchids_scheme)) list" where
  "config_dir_g env =
    [(chars ''PollPeriod'', set_poll_period),
     (chars ''LoadModule'', config_load_module env),
     (chars ''<module'', module_config env),
     (chars ''AddRuleFile'', add_rule_file),
     (chars ''AddRuleFiles'', add_rule_files env),
     (chars ''RuntimeUser'', set_runtime_user),
     (chars ''SetDefaultPreprocessorCmd'', set_default_preproc_cmd),
     (chars ''AddPreprocessorCmd'', add_preproc_cmd),
     (chars ''SetModuleDir'', set_modules_dir),
     (chars ''SetLockFile'', set_lock_file),
     (chars ''MaxMemorySize'', set_max_memory_limit env),
     (chars ''ResolveIP'', set_resolve_ip),
     (chars ''Nice'', set_nice),
     (chars ''INPUT'', add_input_source env),
     (chars ''DISSECT'', add_cond_dissector env)]"

fun core_directive :: "(byte list \<times> 'f) list \<Rightarrow> byte list \<Rightarrow> 'f option" where
  "core_directive [] name = None"
| "core_directive ((n, f) # tab) name = (if strcmp_eq n name then Some f else core_directive tab name)"

fun proceed_config_tree ::
  "('a config_orchids_scheme) config_env \<Rightarrow> directive list \<Rightarrow> 'a config_orchids_scheme \<Rightarrow> fault + 'a config_orchids_scheme" where
  "proceed_config_tree env [] s = Inr s"
| "proceed_config_tree env (d # ds) s =
     bnd (case core_directive (config_dir_g env) (dir_name d) of None \<Rightarrow> Inr s | Some f \<Rightarrow> f d s)
       (proceed_config_tree env ds)"

text \<open>The error code of \<open>build_config_tree\<close> is not looked at.\<close>

definition proceed_pre_config ::
  "nat \<Rightarrow> ('a config_orchids_scheme) config_env \<Rightarrow> byte list \<Rightarrow> 'a config_orchids_scheme \<Rightarrow> fault + 'a config_orchids_scheme" where
  "proceed_pre_config k env config_file s =
     bnd (build_config_tree k env config_file) (\<lambda>(ret, tree). proceed_config_tree env tree s)"

end
