(* ===== verification/Config_Laws.thy ===== *)
theory Config_Laws
  imports Config Hash_Table_Laws Engine_Laws
begin

text \<open>
  Laws of the configuration files: the parser ends on every file, a tree of directives that is written as a
  file is read back, what is left of a file with an error, and what the directives of the core do.
\<close>

section \<open>The parser ends\<close>

definition unread :: "stream \<Rightarrow> nat" where
  "unread fp = length (st_rest fp) + (if st_eof fp then 0 else 1)"

lemma read_line_unread: "read_line n bs = (l, fp) \<Longrightarrow> 0 < n \<Longrightarrow> unread fp < Suc (length bs)"
proof (induction n bs arbitrary: l fp rule: read_line.induct)
  case (3 n b bs)
  show ?case
  proof (cases "b = 10 \<or> n = 0")
    case True
    with 3 show ?thesis by (auto simp: unread_def split: if_splits)
  next
    case False
    obtain l' fp' where r: "read_line n bs = (l', fp')" by fastforce
    with 3 False have "unread fp' < Suc (length bs)" "fp = fp'" by auto
    then show ?thesis by simp
  qed
qed (auto simp: unread_def)

lemma Xfgets_unread: "Xfgets LINE_MAX fp = (buf, fp') \<Longrightarrow> \<not> st_eof fp \<Longrightarrow> unread fp' < unread fp"
  using read_line_unread [of "LINE_MAX - 1" "st_rest fp"]
  by (auto simp: Xfgets_def LINE_MAX_def unread_def [of fp] split: prod.splits)

lemma section_fuel:
  assumes "unread fp < n" and "unread fp < n'"
  shows "build_config_tree_sub n inc parent file sect fp line = build_config_tree_sub n' inc parent file sect fp line \<and>
    (\<forall>ret ds fp' line'. build_config_tree_sub n inc parent file sect fp line = Inr (ret, ds, fp', line') \<longrightarrow>
       unread fp' \<le> unread fp)"
  using assms
proof (induction n arbitrary: n' parent sect fp line)
  case (Suc n)
  then obtain k where k: "n' = Suc k" by (cases n') auto
  show ?case
  proof (cases "st_eof fp")
    case False
    obtain buf fq where g: "Xfgets LINE_MAX fp = (buf, fq)" by fastforce
    from Xfgets_unread [OF g False] Suc.prems k have less: "unread fq < unread fp" "unread fq < n" "unread fq < k" by auto
    have le: "unread fr \<le> unread fq \<Longrightarrow> unread fr < n \<and> unread fr < k" for fr using less by simp
    note IH = Suc.IH [of _ k]
    show ?thesis
    proof (cases "split_line buf")
      case None
      with IH [OF less(2,3)] less(1) False g k show ?thesis by (fastforce simp del: bnd_eq_Inr)
    next
      case (Some x)
      then obtain dir args where s: "split_line buf = Some (dir, args)" by (cases x) auto
      consider (begun) "opens_section dir" | (closing) "\<not> opens_section dir" "closes_section dir"
        | (inclusion) "\<not> opens_section dir" "\<not> closes_section dir" "strcmp_eq (chars ''Include'') dir"
        | (leaf) "\<not> opens_section dir" "\<not> closes_section dir" "\<not> strcmp_eq (chars ''Include'') dir" by blast
      then show ?thesis
      proof cases
        case begun
        let ?p = "Some (section_name dir)"
        have eq: "build_config_tree_sub n inc ?p file [] fq (line + 1) = build_config_tree_sub k inc ?p file [] fq (line + 1)"
          and bound: "build_config_tree_sub n inc ?p file [] fq (line + 1) = Inr (ret, ds, fp', line') \<Longrightarrow> unread fp' \<le> unread fq"
          for ret ds fp' line' using IH [OF less(2,3), of ?p "[]" "line + 1"] by auto
        show ?thesis
        proof (cases "build_config_tree_sub n inc ?p file [] fq (line + 1)")
          case (Inl e)
          with begun False g s k eq [symmetric] show ?thesis by simp
        next
          case (Inr r)
          obtain ret cs fr line' where r: "r = (ret, cs, fr, line')" by (metis prod.exhaust)
          let ?s = "sect @ [Directive (section_name dir) args cs file (line + 1)]"
          from bound Inr r have b: "unread fr \<le> unread fq" by blast
          with IH [of fr, OF le [OF b, THEN conjunct1] le [OF b, THEN conjunct2], of parent ?s line'] less(1)
            begun False g s k eq [symmetric, unfolded Inr] Inr r
          show ?thesis by (cases "ret = RETURN_SUCCESS") (fastforce simp del: bnd_eq_Inr)+
        qed
      next
        case closing
        with less(1) False g s k show ?thesis by (cases parent) simp_all
      next
        case inclusion
        then show ?thesis
        proof (cases "inc args")
          case (Inr ds)
          with IH [OF less(2,3), of parent "sect @ ds" "line + 1"] less(1) inclusion False g s k show ?thesis
            by (fastforce simp del: bnd_eq_Inr)
        qed (use inclusion False g s k in simp)
      next
        case leaf
        with IH [OF less(2,3), of parent "sect @ [Directive dir args [] file (line + 1)]" "line + 1"] less(1) False g s k
        show ?thesis by (fastforce simp del: bnd_eq_Inr)
      qed
    qed
  qed (use k in auto)
qed simp

text \<open>The parser with enough fuel, and what it does with a line.\<close>

definition read_section ::
  "(byte list option \<Rightarrow> fault + directive list) \<Rightarrow> byte list option \<Rightarrow> byte list \<Rightarrow> directive list \<Rightarrow> stream \<Rightarrow> cint \<Rightarrow>
   fault + int \<times> directive list \<times> stream \<times> cint" where
  "read_section inc parent file sect fp line = build_config_tree_sub (Suc (unread fp)) inc parent file sect fp line"

lemma section_any_fuel:
  "unread fp < n \<Longrightarrow> build_config_tree_sub n inc parent file sect fp line = read_section inc parent file sect fp line"
  unfolding read_section_def using section_fuel [of fp n "Suc (unread fp)"] by simp

lemma read_section_unread: "read_section inc parent file sect fp line = Inr (ret, ds, fp', line') \<Longrightarrow> unread fp' \<le> unread fp"
  unfolding read_section_def using section_fuel [of fp "Suc (unread fp)" "Suc (unread fp)"] by blast

lemma read_section_eof:
  "st_eof fp \<Longrightarrow> read_section inc parent file sect fp line =
     Inr (if parent = None then RETURN_SUCCESS else ERR_CFG_PEOF, sect, fp, line)"
  by (simp add: read_section_def)

definition next_line :: "stream \<Rightarrow> byte list \<Rightarrow> stream \<Rightarrow> bool" where
  "next_line fp buf fq \<longleftrightarrow> \<not> st_eof fp \<and> Xfgets LINE_MAX fp = (buf, fq)"

lemma unread_line: "next_line fp buf fq \<Longrightarrow> unread fq < unread fp"
  using Xfgets_unread by (auto simp: next_line_def)

lemma read_ignored:
  "next_line fp buf fq \<Longrightarrow> split_line buf = None \<Longrightarrow> read_section inc parent file sect fp l = read_section inc parent file sect fq (l + 1)"
  using unread_line [of fp buf fq] by (simp add: next_line_def read_section_def [where fp = fp] section_any_fuel)

lemma read_leaf:
  "next_line fp buf fq \<Longrightarrow> split_line buf = Some (dir, args) \<Longrightarrow> \<not> opens_section dir \<Longrightarrow> \<not> closes_section dir \<Longrightarrow>
   \<not> strcmp_eq (chars ''Include'') dir \<Longrightarrow>
   read_section inc parent file sect fp l =
     read_section inc parent file (sect @ [Directive dir args [] file (l + 1)]) fq (l + 1)"
  using unread_line [of fp buf fq] by (simp add: next_line_def read_section_def [where fp = fp] section_any_fuel)

lemma read_include:
  "next_line fp buf fq \<Longrightarrow> split_line buf = Some (dir, args) \<Longrightarrow> \<not> opens_section dir \<Longrightarrow> \<not> closes_section dir \<Longrightarrow>
   strcmp_eq (chars ''Include'') dir \<Longrightarrow>
   read_section inc parent file sect fp l =
     bnd (inc args) (\<lambda>ds. read_section inc parent file (sect @ ds) fq (l + 1))"
  using unread_line [of fp buf fq] by (simp add: next_line_def read_section_def [where fp = fp] section_any_fuel)

lemma read_close:
  "next_line fp buf fq \<Longrightarrow> split_line buf = Some (dir, args) \<Longrightarrow> closes_section dir \<Longrightarrow>
   read_section inc (Some p) file sect fp l = Inr (if closes dir p then RETURN_SUCCESS else ERR_CFG_SECT, sect, fq, l + 1)"
  by (simp add: next_line_def read_section_def opens_section_def closes_section_def)

lemma read_stray:
  "next_line fp buf fq \<Longrightarrow> split_line buf = Some (dir, args) \<Longrightarrow> closes_section dir \<Longrightarrow>
   read_section inc None file sect fp l = Inl NullDeref"
  by (simp add: next_line_def read_section_def opens_section_def closes_section_def)

lemma read_open:
  assumes line: "next_line fp buf fq" and "split_line buf = Some (dir, args)" and "opens_section dir"
  shows "read_section inc parent file sect fp l =
    bnd (read_section inc (Some (section_name dir)) file [] fq (l + 1)) (\<lambda>(ret, children, fr, l').
      let sect = sect @ [Directive (section_name dir) args children file (l + 1)] in
      if ret \<noteq> RETURN_SUCCESS then Inr (ret, sect, fr, l') else read_section inc parent file sect fr l')"
proof -
  note fq = unread_line [OF line]
  show ?thesis
  proof (cases "read_section inc (Some (section_name dir)) file [] fq (l + 1)")
    case (Inl e)
    with assms fq show ?thesis by (simp add: next_line_def read_section_def [where fp = fp] section_any_fuel)
  next
    case (Inr r)
    obtain ret cs fr l' where r: "r = (ret, cs, fr, l')" by (metis prod.exhaust)
    with read_section_unread Inr fq have "unread fr < unread fp" by fastforce
    with assms fq Inr r show ?thesis
      by (simp add: next_line_def read_section_def [where fp = fp] section_any_fuel Let_def)
  qed
qed

text \<open>The lines of a stream, and the arguments of its \<open>Include\<close> lines.\<close>

inductive reads :: "stream \<Rightarrow> byte list \<Rightarrow> bool" where
  here: "next_line fp buf fq \<Longrightarrow> reads fp buf"
| later: "next_line fp b fq \<Longrightarrow> reads fq buf \<Longrightarrow> reads fp buf"

definition has_include :: "stream \<Rightarrow> byte list option \<Rightarrow> bool" where
  "has_include fp args \<longleftrightarrow> (\<exists>buf dir. reads fp buf \<and> split_line buf = Some (dir, args) \<and> strcmp_eq (chars ''Include'') dir)"

lemma has_include_later: "next_line fp b fq \<Longrightarrow> has_include fq args \<Longrightarrow> has_include fp args"
  by (auto simp: has_include_def intro: reads.later)

lemma next_line_cases:
  obtains "st_eof fp" | buf fq where "next_line fp buf fq"
  by (cases "Xfgets LINE_MAX fp") (auto simp: next_line_def)

text \<open>A closing tag outside of all sections; \<open>d\<close> is the number of the sections that are open.\<close>

inductive stray_tag :: "nat \<Rightarrow> stream \<Rightarrow> bool" where
  here: "next_line fp buf fq \<Longrightarrow> split_line buf = Some (dir, args) \<Longrightarrow> closes_section dir \<Longrightarrow> stray_tag 0 fp"
| other: "next_line fp buf fq \<Longrightarrow> split_line buf = None \<or>
     (\<exists>dir args. split_line buf = Some (dir, args) \<and> \<not> opens_section dir \<and> \<not> closes_section dir) \<Longrightarrow>
     stray_tag d fq \<Longrightarrow> stray_tag d fp"
| opens: "next_line fp buf fq \<Longrightarrow> split_line buf = Some (dir, args) \<Longrightarrow> opens_section dir \<Longrightarrow> stray_tag (Suc d) fq \<Longrightarrow> stray_tag d fp"
| closed: "next_line fp buf fq \<Longrightarrow> split_line buf = Some (dir, args) \<Longrightarrow> closes_section dir \<Longrightarrow> stray_tag d fq \<Longrightarrow> stray_tag (Suc d) fp"

text \<open>A fault of the parser is one of an inclusion or a stray tag.\<close>

definition explained ::
  "(byte list option \<Rightarrow> fault + directive list) \<Rightarrow> byte list option \<Rightarrow> stream \<Rightarrow> fault + int \<times> directive list \<times> stream \<times> cint \<Rightarrow> bool" where
  "explained inc parent fp x = (case x of
       Inl e \<Rightarrow> (\<exists>args. has_include fp args \<and> inc args = Inl e) \<or> (parent = None \<and> e = NullDeref \<and> stray_tag 0 fp)
     | Inr (ret, ds, fr, l) \<Rightarrow> (\<forall>args. has_include fr args \<longrightarrow> has_include fp args) \<and>
         (parent \<noteq> None \<and> ret = RETURN_SUCCESS \<longrightarrow> (\<forall>d. stray_tag d fr \<longrightarrow> stray_tag (Suc d) fp)))"

text \<open>A line that is passed over at the level at which the parser is.\<close>

lemma explained_later:
  assumes "next_line fp b fq" and "\<And>d. stray_tag d fq \<Longrightarrow> stray_tag d fp" and "explained inc parent fq x"
  shows "explained inc parent fp x"
  using assms(2,3) has_include_later [OF assms(1)] unfolding explained_def
  by (cases x) (auto split: prod.splits)

lemma read_section_explained: "explained inc parent fp (read_section inc parent file sect fp l)"
proof (induction "unread fp" arbitrary: fp parent sect l rule: less_induct)
  case less
  show ?case
  proof (cases fp rule: next_line_cases)
    case 1
    then show ?thesis by (auto simp: read_section_eof explained_def ERR_CFG_PEOF_def RETURN_SUCCESS_def)
  next
    case (2 buf fq)
    note IH = less.hyps [OF unread_line [OF 2]] and later = explained_later [OF 2]
    show ?thesis
    proof (cases "split_line buf")
      case None
      with stray_tag.other [OF 2] show ?thesis unfolding read_ignored [OF 2 None] by (blast intro: later IH)
    next
      case (Some x)
      then obtain dir args where s: "split_line buf = Some (dir, args)" by (cases x) auto
      consider (begun) "opens_section dir" | (closing) "closes_section dir" "\<not> opens_section dir"
        | (inclusion) "\<not> opens_section dir" "\<not> closes_section dir" "strcmp_eq (chars ''Include'') dir"
        | (leaf) "\<not> opens_section dir" "\<not> closes_section dir" "\<not> strcmp_eq (chars ''Include'') dir" by blast
      then show ?thesis
      proof cases
        case begun
        let ?p = "Some (section_name dir)"
        let ?r = "read_section inc ?p file [] fq (l + 1)"
        note inner = IH [of ?p "[]" "l + 1"]
        show ?thesis
        proof (cases ?r)
          case (Inl e)
          with inner has_include_later [OF 2] show ?thesis
            unfolding read_open [OF 2 s begun] by (auto simp: explained_def)
        next
          case (Inr r)
          obtain ret cs fr l' where r: "r = (ret, cs, fr, l')" by (metis prod.exhaust)
          let ?s = "sect @ [Directive (section_name dir) args cs file (l + 1)]"
          from Inr r have eq: "read_section inc parent file sect fp l =
            (if ret \<noteq> RETURN_SUCCESS then Inr (ret, ?s, fr, l') else read_section inc parent file ?s fr l')"
            by (simp add: read_open [OF 2 s begun])
          have up: "has_include fr a \<Longrightarrow> has_include fp a" for a
            using inner has_include_later [OF 2] Inr r by (simp add: explained_def)
          have "unread fr < unread fp" using read_section_unread Inr r unread_line [OF 2] by fastforce
          note IH2 = less.hyps [OF this, of parent ?s l']
          show ?thesis
          proof (cases "ret = RETURN_SUCCESS")
            case True
            then have "stray_tag d fr \<Longrightarrow> stray_tag d fp" for d
              using inner Inr r stray_tag.opens [OF 2 s begun] by (simp add: explained_def)
            with IH2 up show ?thesis unfolding eq explained_def
              by (cases "read_section inc parent file ?s fr l'") (use True in \<open>auto split: prod.splits\<close>)
          qed (use up in \<open>simp add: eq explained_def\<close>)
        qed
      next
        case closing
        show ?thesis
        proof (cases parent)
          case None
          with stray_tag.here [OF 2 s closing(1)] show ?thesis by (simp add: read_stray [OF 2 s closing(1)] explained_def)
        next
          case (Some p)
          with stray_tag.closed [OF 2 s closing(1)] has_include_later [OF 2] show ?thesis
            by (simp add: read_close [OF 2 s closing(1)] explained_def)
        qed
      next
        case inclusion
        have here: "has_include fp args" using 2 s inclusion(3) unfolding has_include_def by (blast intro: reads.here)
        show ?thesis
        proof (cases "inc args")
          case (Inl e)
          with here show ?thesis by (auto simp: read_include [OF 2 s inclusion] explained_def)
        next
          case (Inr ds)
          then have eq: "read_section inc parent file sect fp l = read_section inc parent file (sect @ ds) fq (l + 1)"
            by (simp add: read_include [OF 2 s inclusion])
          from s inclusion stray_tag.other [OF 2] show ?thesis unfolding eq by (blast intro: later IH)
        qed
      next
        case leaf
        from s leaf stray_tag.other [OF 2] show ?thesis unfolding read_leaf [OF 2 s leaf] by (blast intro: later IH)
      qed
    qed
  qed
qed

definition open_stream :: "byte list \<Rightarrow> stream" where
  "open_stream text = \<lparr>st_rest = text, st_eof = False\<rparr>"

definition include_of :: "nat \<Rightarrow> 'o config_env \<Rightarrow> byte list option \<Rightarrow> fault + directive list" where
  "include_of k env args = (case args of None \<Rightarrow> Inl NullDeref | Some pattern \<Rightarrow>
     bnd (proceed_includes (build_config_tree k env) (ce_glob env pattern) []) (\<lambda>(ret, ds). Inr ds))"

lemma build_config_tree_read:
  "ce_open env path = Some text \<Longrightarrow> build_config_tree (Suc k) env path =
     bnd (read_section (include_of k env) None path [] (open_stream text) 0) (\<lambda>(ret, ds, fp, line). Inr (ret, ds))"
  by (simp add: include_of_def [abs_def] open_stream_def unread_def flip: section_any_fuel [where n = "length text + 2"])

lemma proceed_includes_returns:
  "(\<And>q. q \<in> set qs \<Longrightarrow> (\<exists>r. build q = Inr r) \<or> build q = Inl e \<and> P q) \<Longrightarrow>
   (\<exists>r. proceed_includes build qs acc = Inr r) \<or> proceed_includes build qs acc = Inl e \<and> (\<exists>q \<in> set qs. P q)"
proof (induction qs arbitrary: acc)
  case (Cons q qs)
  show ?case
  proof (cases "build q")
    case (Inr r)
    then obtain ret ds where q: "build q = Inr (ret, ds)" by (cases r) auto
    show ?thesis
    proof (cases "ret = 0")
      case True
      with q Cons.IH [of "acc @ ds"] Cons.prems show ?thesis by auto
    qed (use q in simp)
  qed (use Cons.prems [of q] in auto)
qed simp

text \<open>The files that are read for a file.\<close>

inductive file_reads :: "'o config_env \<Rightarrow> byte list \<Rightarrow> byte list \<Rightarrow> bool" for env :: "'o config_env" where
  itself: "file_reads env p p"
| included: "ce_open env p = Some text \<Longrightarrow> has_include (open_stream text) (Some pattern) \<Longrightarrow> q \<in> set (ce_glob env pattern) \<Longrightarrow>
     file_reads env q r \<Longrightarrow> file_reads env p r"

text \<open>
  Claim C32 (termination).  Reading the configuration ends: when all files exist, every \<open>Include\<close> has a pattern,
  and the files that a file includes are of a lower rank, which bounds the depth, then the tree is built,
  whatever the files contain.  The one exception is a closing tag outside of all sections in one of the files that are
  read: the message about it dereferences the parent, which is \<open>NULL\<close>.
\<close>

theorem config_files_end:
  assumes all_files: "\<And>path text args. ce_open env path = Some text \<Longrightarrow> has_include (open_stream text) args \<Longrightarrow>
      \<exists>pattern. args = Some pattern \<and> (\<forall>q \<in> set (ce_glob env pattern). rank q < rank path \<and> ce_open env q \<noteq> None)"
    and "ce_open env path \<noteq> None" and "rank path < k"
  shows "(\<exists>ret tree. build_config_tree k env path = Inr (ret, tree)) \<or>
    (build_config_tree k env path = Inl NullDeref \<and>
      (\<exists>q text. file_reads env path q \<and> ce_open env q = Some text \<and> stray_tag 0 (open_stream text)))"
  using assms(2,3)
proof (induction k arbitrary: path)
  case (Suc k)
  let ?stray = "\<lambda>p. \<exists>q text. file_reads env p q \<and> ce_open env q = Some text \<and> stray_tag 0 (open_stream text)"
  from Suc.prems obtain cont where cont: "ce_open env path = Some cont" by blast
  have inc: "e = NullDeref \<and> ?stray path" if a: "has_include (open_stream cont) args" "include_of k env args = Inl e" for args e
  proof -
    from all_files [OF cont a(1)] obtain pattern where p: "args = Some pattern"
      "\<And>q. q \<in> set (ce_glob env pattern) \<Longrightarrow> rank q < rank path \<and> ce_open env q \<noteq> None" by blast
    have "(\<exists>r. proceed_includes (build_config_tree k env) (ce_glob env pattern) [] = Inr r) \<or>
      proceed_includes (build_config_tree k env) (ce_glob env pattern) [] = Inl NullDeref \<and>
      (\<exists>q \<in> set (ce_glob env pattern). ?stray q)"
    proof (rule proceed_includes_returns)
      fix q assume "q \<in> set (ce_glob env pattern)"
      from p(2) [OF this] Suc.prems(2) have "ce_open env q \<noteq> None" "rank q < k" by auto
      from Suc.IH [OF this] show "(\<exists>r. build_config_tree k env q = Inr r) \<or> build_config_tree k env q = Inl NullDeref \<and> ?stray q"
        by blast
    qed
    with a p(1) show ?thesis by (auto simp: include_of_def intro: file_reads.included [OF cont])
  qed
  from read_section_explained [of "include_of k env" None "open_stream cont" path "[]" 0] inc file_reads.itself [of env path] cont
  show ?case unfolding build_config_tree_read [OF cont]
    by (cases "read_section (include_of k env) None path [] (open_stream cont) 0") (auto simp: explained_def)
qed simp

section \<open>Lines that are written\<close>

text \<open>An argument is a sequence of plain characters, quoted strings and escaped characters; it neither begins nor
  ends with a plain blank.\<close>

datatype piece = Plain byte | Quoted byte "byte list" | Escaped byte

fun piece_text :: "piece \<Rightarrow> byte list" where
  "piece_text (Plain b) = [b]"
| "piece_text (Quoted q bs) = q # bs @ [q]"
| "piece_text (Escaped b) = [92, b]"

fun piece_ok :: "piece \<Rightarrow> bool" where
  "piece_ok (Plain b) \<longleftrightarrow> b \<notin> {0, 10, 35, 92, 39, 34}"
| "piece_ok (Quoted q bs) \<longleftrightarrow> q \<in> {39, 34} \<and> set bs \<inter> {0, 10, 92, q} = {}"
| "piece_ok (Escaped b) \<longleftrightarrow> b \<notin> {0, 10}"

fun visible :: "piece \<Rightarrow> bool" where
  "visible (Plain b) \<longleftrightarrow> \<not> is_blank b"
| "visible p \<longleftrightarrow> True"

definition arg_text :: "piece list \<Rightarrow> byte list" where
  "arg_text ps = concat (map piece_text ps)"

definition arg_ok :: "byte list \<Rightarrow> bool" where
  "arg_ok a \<longleftrightarrow> (\<exists>ps. a = arg_text ps \<and> ps \<noteq> [] \<and> list_all piece_ok ps \<and> visible (hd ps) \<and> visible (last ps))"

lemma arg_text_simps [simp]: "arg_text [] = []" "arg_text (p # ps) = piece_text p @ arg_text ps"
  by (simp_all add: arg_text_def)

lemma strip_quoted:
  "q \<in> {39, 34} \<Longrightarrow> set bs \<inter> {0, 10, 92, q} = {} \<Longrightarrow>
   strip_from i eff False q (bs @ q # rest) = strip_from (i + length bs + 1) (i + length bs) False 0 rest"
proof (induction bs arbitrary: i eff)
  case (Cons b bs)
  then have "b \<noteq> 10" "b \<noteq> 92" "b \<noteq> q" "q \<noteq> 0" by auto
  with Cons show ?case by auto
qed auto

lemma strip_piece:
  "piece_ok p \<Longrightarrow> strip_from i eff False 0 (piece_text p @ rest) =
     strip_from (i + length (piece_text p)) (if visible p then i + length (piece_text p) - 1 else eff) False 0 rest"
proof (cases p)
  case (Quoted q bs)
  assume "piece_ok p"
  with Quoted have "q \<in> {39, 34}" "set bs \<inter> {0, 10, 92, q} = {}" by auto
  moreover from this have "strip_from i eff False 0 (piece_text p @ rest) = strip_from (i + 1) i False q (bs @ q # rest)"
    using Quoted by auto
  ultimately show ?thesis using Quoted strip_quoted [of q bs "i + 1" i rest] by simp
qed (auto simp: is_blank_def)

lemma strip_pieces:
  "list_all piece_ok ps \<Longrightarrow> ps \<noteq> [] \<Longrightarrow> visible (last ps) \<Longrightarrow>
   strip_from i eff False 0 (arg_text ps @ rest) =
     strip_from (i + length (arg_text ps)) (i + length (arg_text ps) - 1) False 0 rest"
proof (induction ps arbitrary: i eff)
  case (Cons p ps)
  show ?case
  proof (cases "ps = []")
    case True
    with Cons.prems show ?thesis by (simp add: strip_piece)
  next
    case False
    with Cons.prems Cons.IH [OF _ False, of "i + length (piece_text p)"]
    show ?thesis by (simp add: strip_piece ac_simps)
  qed
qed simp

text \<open>What stands behind the argument: blanks, and then perhaps a comment.\<close>

definition tail_ok :: "byte list \<Rightarrow> bool" where
  "tail_ok post \<longleftrightarrow> 0 \<notin> set post \<and> 10 \<notin> set post \<and>
     (case dropWhile isblank post of [] \<Rightarrow> True | b # bs \<Rightarrow> b = 35 \<and> isblank (hd post))"

lemma strip_tail:
  "dropWhile isblank post = [] \<or> hd (dropWhile isblank post) = 35 \<Longrightarrow> strip_from i eff False 0 (post @ [10]) = Some (eff + 1)"
  by (induction post arbitrary: i) (auto simp: isblank_def)

lemma strip_arg:
  assumes "arg_ok a" and "tail_ok post"
  shows "strip_trailing_garbage (a @ post @ [10]) = a"
proof -
  from assms(1) obtain ps where ps: "a = arg_text ps" "ps \<noteq> []" "list_all piece_ok ps" "visible (last ps)"
    by (auto simp: arg_ok_def)
  have "a \<noteq> []" using ps(1,2) by (cases ps; cases "hd ps") auto
  moreover have "dropWhile isblank post = [] \<or> hd (dropWhile isblank post) = 35"
    using assms(2) by (auto simp: tail_ok_def split: list.splits)
  ultimately show ?thesis using strip_pieces [OF ps(3,2,4), of 0 0 "post @ [10]"] ps(1)
    by (simp add: strip_trailing_garbage_def strip_tail)
qed

lemma arg_begins: "arg_ok a \<Longrightarrow> \<exists>b bs. a = b # bs \<and> \<not> is_blank b \<and> b \<noteq> 35"
proof -
  assume "arg_ok a"
  then obtain p ps where "a = piece_text p @ arg_text ps" "piece_ok p" "visible p" unfolding arg_ok_def
    by (metis arg_text_simps(2) list.exhaust_sel list.pred_inject(2))
  then show ?thesis by (cases p) (auto simp: is_blank_def)
qed

lemma arg_chars: "arg_ok a \<Longrightarrow> 0 \<notin> set a \<and> 10 \<notin> set a"
proof -
  have "piece_ok p \<Longrightarrow> 0 \<notin> set (piece_text p) \<and> 10 \<notin> set (piece_text p)" for p by (cases p) auto
  then have "list_all piece_ok ps \<Longrightarrow> 0 \<notin> set (arg_text ps) \<and> 10 \<notin> set (arg_text ps)" for ps by (induction ps) auto
  then show "arg_ok a \<Longrightarrow> ?thesis" by (auto simp: arg_ok_def)
qed

definition token_ok :: "byte list \<Rightarrow> bool" where
  "token_ok tok \<longleftrightarrow> tok \<noteq> [] \<and> hd tok \<noteq> 35 \<and> (\<forall>b \<in> set tok. \<not> is_blank b \<and> b \<noteq> 0)"

lemma split_token:
  assumes "\<forall>b \<in> set pre. isblank b" and "token_ok tok" and "rest \<noteq> []" and "is_blank (hd rest)"
  shows "split_line (pre @ tok @ rest) = Some (tok,
    let arg = dropWhile is_blank rest in if ends_line arg then None else Some (strip_trailing_garbage arg))"
proof -
  from assms(2) obtain b bs where tok: "tok = b # bs" "\<not> is_blank b" "b \<noteq> 35" by (cases tok) (auto simp: token_ok_def)
  have blanks: "\<And>x. x \<in> set pre \<Longrightarrow> is_blank x" using assms(1) by (auto simp: is_blank_def isblank_def)
  have pre: "takeWhile is_blank (pre @ tok @ rest) = pre" "dropWhile is_blank (pre @ tok @ rest) = tok @ rest"
    using blanks tok by (simp_all add: takeWhile_append2 dropWhile_append2)
  have len: "takeWhile (\<lambda>b. \<not> is_blank b) (tok @ rest) = tok"
    using assms(2-4) by (cases rest) (auto simp: token_ok_def takeWhile_append)
  have "cfg_get_next_token (pre @ tok @ rest) = (length pre, length tok)"
    unfolding cfg_get_next_token_def pre Let_def len using tok by (simp add: is_blank_def)
  moreover have "\<not> ends_line (tok @ rest)" using tok by (auto simp: ends_line_def is_blank_def)
  ultimately show ?thesis by (simp add: split_line_def Let_def)
qed

text \<open>The lines of the layout: blanks before and a tail behind.\<close>

definition line_text :: "byte list \<Rightarrow> byte list option \<Rightarrow> byte list" where
  "line_text tok args = (case args of None \<Rightarrow> tok | Some a \<Rightarrow> tok @ 32 # a)"

definition margins_ok :: "byte list \<Rightarrow> byte list \<Rightarrow> bool" where
  "margins_ok pre post \<longleftrightarrow> (\<forall>b \<in> set pre. isblank b) \<and> tail_ok post"

lemma split_written:
  assumes "margins_ok pre post" and "token_ok tok" and "\<forall>a. args = Some a \<longrightarrow> arg_ok a"
  shows "split_line (pre @ line_text tok args @ post @ [10]) = Some (tok, args)"
proof (cases args)
  case None
  have "ends_line (dropWhile is_blank (post @ [10]))"
  proof -
    have "dropWhile isblank p = [] \<or> hd (dropWhile isblank p) = 35 \<Longrightarrow> ends_line (dropWhile is_blank (p @ [10]))" for p
      by (induction p) (auto simp: ends_line_def is_blank_def isblank_def)
    with assms(1) show ?thesis by (auto simp: margins_ok_def tail_ok_def split: list.splits)
  qed
  moreover have "is_blank (hd (post @ [10]))"
    using assms(1) by (cases post) (auto simp: margins_ok_def tail_ok_def is_blank_def isblank_def split: if_splits)
  ultimately show ?thesis using assms None split_token [of pre tok "post @ [10]"]
    by (simp add: margins_ok_def line_text_def Let_def)
next
  case (Some a)
  with assms(3) have a: "arg_ok a" by simp
  from arg_begins [OF this] obtain b bs where b: "a = b # bs" "\<not> is_blank b" "b \<noteq> 35" by blast
  then have "\<not> ends_line (a @ post @ [10])" by (auto simp: ends_line_def is_blank_def)
  moreover have "dropWhile is_blank (32 # a @ post @ [10]) = a @ post @ [10]" using b by (simp add: is_blank_def)
  ultimately show ?thesis using assms Some a split_token [of pre tok "32 # a @ post @ [10]"] strip_arg [OF a]
    by (simp add: margins_ok_def line_text_def Let_def is_blank_def)
qed

text \<open>A line of the file.\<close>

lemma read_line_found:
  "10 \<notin> set l \<Longrightarrow> length l < n \<Longrightarrow> read_line n (l @ 10 # rest) = (l @ [10], \<lparr>st_rest = rest, st_eof = False\<rparr>)"
proof (induction l arbitrary: n)
  case Nil
  then show ?case by (cases n) auto
next
  case (Cons b l)
  then show ?case by (cases n) auto
qed

lemma next_line_found:
  "0 \<notin> set l \<Longrightarrow> 10 \<notin> set l \<Longrightarrow> length l < LINE_MAX - 1 \<Longrightarrow>
   next_line (open_stream (l @ 10 # rest)) (l @ [10]) (open_stream rest)"
  by (auto simp: next_line_def open_stream_def Xfgets_def read_line_found c_str_def takeWhile_eq_all_conv)

lemma next_line_end: "next_line (open_stream []) [] \<lparr>st_rest = [], st_eof = True\<rparr>"
  by (simp add: next_line_def open_stream_def Xfgets_def c_str_def LINE_MAX_def numeral_eq_Suc)

section \<open>Trees that are written\<close>

text \<open>\<open>pre\<close> and \<open>post\<close> are the margins of all lines.  A section without an argument is closed in its line.\<close>

definition file_line :: "byte list \<Rightarrow> byte list \<Rightarrow> byte list \<Rightarrow> byte list option \<Rightarrow> byte list" where
  "file_line pre post tok args = pre @ line_text tok args @ post"

definition is_section :: "byte list \<Rightarrow> bool" where
  "is_section name \<longleftrightarrow> take 1 name = [60]"

definition section_token :: "byte list \<Rightarrow> byte list option \<Rightarrow> byte list" where
  "section_token name args = (if args = None then name @ [62] else name)"

definition closing_token :: "byte list \<Rightarrow> byte list" where
  "closing_token name = [60, 47] @ drop 1 name @ [62]"

fun write_dirs :: "byte list \<Rightarrow> byte list \<Rightarrow> directive list \<Rightarrow> byte list" where
  "write_dirs pre post [] = []"
| "write_dirs pre post (Directive name args cs file line # ds) =
     (if is_section name then
        file_line pre post (section_token name args) args @ 10 # write_dirs pre post cs @
        file_line pre post (closing_token name) None @ 10 # write_dirs pre post ds
      else file_line pre post name args @ 10 # write_dirs pre post ds)"

text \<open>The tree with the file and the numbers of the lines, and the number of the last line.\<close>

fun numbered :: "byte list \<Rightarrow> cint \<Rightarrow> directive list \<Rightarrow> directive list \<times> cint" where
  "numbered path l [] = ([], l)"
| "numbered path l (Directive name args cs file line # ds) =
     (if is_section name then
        let (cs, l') = numbered path (l + 1) cs; (ds, l'') = numbered path (l' + 1) ds in
          (Directive name args cs path (l + 1) # ds, l'')
      else let (ds, l') = numbered path (l + 1) ds in (Directive name args [] path (l + 1) # ds, l'))"

definition section_ok :: "byte list \<Rightarrow> bool" where
  "section_ok name \<longleftrightarrow> is_section name \<and> 2 \<le> length name \<and> name ! 1 \<noteq> 47 \<and> last name \<noteq> 62 \<and> token_ok name"

definition leaf_ok :: "byte list \<Rightarrow> bool" where
  "leaf_ok name \<longleftrightarrow> token_ok name \<and> hd name \<noteq> 60 \<and> name \<noteq> chars ''Include''"

definition args_ok :: "byte list option \<Rightarrow> bool" where
  "args_ok args \<longleftrightarrow> (\<forall>a. args = Some a \<longrightarrow> arg_ok a)"

definition fits_line :: "byte list \<Rightarrow> bool" where
  "fits_line l \<longleftrightarrow> length l < LINE_MAX - 1"

fun dirs_ok :: "byte list \<Rightarrow> byte list \<Rightarrow> directive list \<Rightarrow> bool" where
  "dirs_ok pre post [] \<longleftrightarrow> True"
| "dirs_ok pre post (Directive name args cs file line # ds) \<longleftrightarrow> args_ok args \<and> dirs_ok pre post ds \<and>
     (if is_section name then
        section_ok name \<and> fits_line (file_line pre post (section_token name args) args) \<and>
        fits_line (file_line pre post (closing_token name) None) \<and> dirs_ok pre post cs
      else leaf_ok name \<and> cs = [] \<and> fits_line (file_line pre post name args))"

lemma next_file_line:
  assumes "margins_ok pre post" and "token_ok tok" and "args_ok args" and "fits_line (file_line pre post tok args)"
  shows "next_line (open_stream (file_line pre post tok args @ 10 # rest)) (file_line pre post tok args @ [10]) (open_stream rest)"
proof (rule next_line_found)
  have "isblank b \<Longrightarrow> b \<noteq> 0 \<and> b \<noteq> 10" for b by (auto simp: isblank_def)
  moreover have "b \<in> set tok \<Longrightarrow> b \<noteq> 0 \<and> b \<noteq> 10" for b using assms(2) by (auto simp: token_ok_def is_blank_def)
  moreover have "args = Some a \<Longrightarrow> 0 \<notin> set a \<and> 10 \<notin> set a" for a using assms(3) arg_chars by (auto simp: args_ok_def)
  ultimately show "0 \<notin> set (file_line pre post tok args)" "10 \<notin> set (file_line pre post tok args)"
    using assms(1) by (auto simp: file_line_def line_text_def margins_ok_def tail_ok_def split: option.splits)
  show "length (file_line pre post tok args) < LINE_MAX - 1" using assms(4) by (simp add: fits_line_def)
qed

lemma split_file_line:
  "margins_ok pre post \<Longrightarrow> token_ok tok \<Longrightarrow> args_ok args \<Longrightarrow> split_line (file_line pre post tok args @ [10]) = Some (tok, args)"
  using split_written by (simp add: file_line_def args_ok_def)

text \<open>What the tokens are for the parser.\<close>

lemma section_facts:
  assumes "section_ok name"
  shows "token_ok (section_token name args)" "opens_section (section_token name args)"
    "section_name (section_token name args) = name"
    "token_ok (closing_token name)" "closes_section (closing_token name)" "closes (closing_token name) name"
proof -
  from assms obtain b m where n: "name = 60 # b # m" "b \<noteq> 47" "last (b # m) \<noteq> 62" "token_ok name"
    by (cases name; cases "tl name") (auto simp: section_ok_def is_section_def)
  then show "token_ok (section_token name args)" "token_ok (closing_token name)"
    by (auto simp: token_ok_def section_token_def closing_token_def is_blank_def)
  show "opens_section (section_token name args)" "section_name (section_token name args) = name"
    "closes_section (closing_token name)" "closes (closing_token name) name"
    using n by (auto simp: section_token_def opens_section_def section_name_def closing_token_def closes_section_def closes_def)
qed

lemma leaf_facts:
  assumes "leaf_ok name"
  shows "token_ok name" "\<not> opens_section name" "\<not> closes_section name" "\<not> strcmp_eq (chars ''Include'') name"
  using assms by (cases name; auto simp: leaf_ok_def opens_section_def closes_section_def token_ok_def strcmp_eq_iff)+

lemma read_written:
  assumes "margins_ok pre post" and "dirs_ok pre post ds"
  shows "read_section inc parent path sect (open_stream (write_dirs pre post ds @ rest)) l =
    read_section inc parent path (sect @ fst (numbered path l ds)) (open_stream rest) (snd (numbered path l ds))"
  using assms
proof (induction pre post ds arbitrary: parent sect l rest rule: dirs_ok.induct)
  case (2 pre post name args cs f0 l0 ds)
  show ?case
  proof (cases "is_section name")
    case True
    with "2.prems" have ok: "section_ok name" "args_ok args" "dirs_ok pre post ds" "dirs_ok pre post cs"
      "fits_line (file_line pre post (section_token name args) args)" "fits_line (file_line pre post (closing_token name) None)"
      by simp_all
    note sf = section_facts [OF ok(1)]
    obtain cs' l1 where n1: "numbered path (l + 1) cs = (cs', l1)" by fastforce
    obtain ds' l2 where n2: "numbered path (l1 + 1) ds = (ds', l2)" by fastforce
    let ?close = "file_line pre post (closing_token name) None" and ?more = "write_dirs pre post ds @ rest"
    have none: "args_ok None" by (simp add: args_ok_def)
    have inner: "read_section inc (Some name) path [] (open_stream (write_dirs pre post cs @ ?close @ 10 # ?more)) (l + 1) =
        Inr (RETURN_SUCCESS, cs', open_stream ?more, l1 + 1)"
      using "2.IH"(2) [OF True "2.prems"(1) ok(4), of "Some name" "[]" "?close @ 10 # ?more" "l + 1"] sf(6)
        read_close [OF next_file_line [OF "2.prems"(1) sf(4) none ok(6)] split_file_line [OF "2.prems"(1) sf(4) none] sf(5)] n1
      by simp
    have "read_section inc parent path sect (open_stream (file_line pre post (section_token name args) args @ 10 #
        write_dirs pre post cs @ ?close @ 10 # ?more)) l =
        read_section inc parent path (sect @ [Directive name args cs' path (l + 1)]) (open_stream ?more) (l1 + 1)"
      unfolding read_open [OF next_file_line [OF "2.prems"(1) sf(1) ok(2,5)] split_file_line [OF "2.prems"(1) sf(1) ok(2)] sf(2)]
        sf(3) inner by simp
    with "2.IH"(1) [OF "2.prems"(1) ok(3), of parent "sect @ [Directive name args cs' path (l + 1)]" rest "l1 + 1"] True n1 n2
    show ?thesis by simp
  next
    case False
    with "2.prems" have ok: "leaf_ok name" "args_ok args" "dirs_ok pre post ds" "fits_line (file_line pre post name args)" "cs = []"
      by simp_all
    note lf = leaf_facts [OF ok(1)]
    obtain ds' l2 where n2: "numbered path (l + 1) ds = (ds', l2)" by fastforce
    from read_leaf [OF next_file_line [OF "2.prems"(1) lf(1) ok(2,4)] split_file_line [OF "2.prems"(1) lf(1) ok(2)] lf(2-4)]
      "2.IH"(1) [OF "2.prems"(1) ok(3), of parent "sect @ [Directive name args [] path (l + 1)]" rest "l + 1"] False n2
    show ?thesis by simp
  qed
qed simp

text \<open>Claim C17 (roundtrip).  A tree of directives that is written as a file, with any margins and comments, is read
  back as that tree: sections are nested as they were, arguments keep their quoted and escaped characters, and
  each directive gets the file and the number of its line.\<close>

theorem config_round_trip:
  assumes "ce_open env path = Some (write_dirs pre post ds)" and "margins_ok pre post" and "dirs_ok pre post ds"
  shows "build_config_tree (Suc k) env path = Inr (RETURN_SUCCESS, fst (numbered path 0 ds))"
proof -
  let ?fin = "\<lparr>st_rest = [], st_eof = True\<rparr>"
  have fin: "split_line [] = None" by (simp add: split_line_def cfg_get_next_token_def ends_line_def)
  show ?thesis
    using read_written [OF assms(2,3), of "include_of k env" None path "[]" "[]" 0] read_ignored [OF next_line_end fin]
    by (simp add: build_config_tree_read [OF assms(1)] read_section_eof del: build_config_tree.simps)
qed

text \<open>A section that is not closed, and one that is closed with another name.\<close>

lemma read_unclosed:
  assumes "margins_ok pre post" "section_ok name" "args_ok args" "fits_line (file_line pre post (section_token name args) args)"
    and "dirs_ok pre post cs"
  shows "\<exists>fp l'. read_section inc parent path sect
      (open_stream (file_line pre post (section_token name args) args @ 10 # write_dirs pre post cs)) l =
    Inr (ERR_CFG_PEOF, sect @ [Directive name args (fst (numbered path (l + 1) cs)) path (l + 1)], fp, l')"
proof -
  note sf = section_facts [OF assms(2)]
  have fin: "split_line [] = None" by (simp add: split_line_def cfg_get_next_token_def ends_line_def)
  have "read_section inc (Some name) path [] (open_stream (write_dirs pre post cs)) (l + 1) =
      Inr (ERR_CFG_PEOF, fst (numbered path (l + 1) cs), \<lparr>st_rest = [], st_eof = True\<rparr>, snd (numbered path (l + 1) cs) + 1)"
    using read_written [OF assms(1,5), of inc "Some name" path "[]" "[]" "l + 1"] read_ignored [OF next_line_end fin]
    by (simp add: read_section_eof)
  then show ?thesis
    unfolding read_open [OF next_file_line [OF assms(1) sf(1) assms(3,4)] split_file_line [OF assms(1) sf(1) assms(3)] sf(2)] sf(3)
    by (simp add: ERR_CFG_PEOF_def RETURN_SUCCESS_def)
qed

lemma read_badly_closed:
  assumes "margins_ok pre post" "section_ok name" "args_ok args" "fits_line (file_line pre post (section_token name args) args)"
    and "dirs_ok pre post cs"
    and "token_ok tok" "closes_section tok" "\<not> closes tok name" "fits_line (file_line pre post tok None)"
  shows "\<exists>fp l'. read_section inc parent path sect
      (open_stream (file_line pre post (section_token name args) args @ 10 # write_dirs pre post cs @
        file_line pre post tok None @ 10 # rest)) l =
    Inr (ERR_CFG_SECT, sect @ [Directive name args (fst (numbered path (l + 1) cs)) path (l + 1)], fp, l')"
proof -
  note sf = section_facts [OF assms(2)]
  have none: "args_ok None" by (simp add: args_ok_def)
  have "\<exists>fp l'. read_section inc (Some name) path [] (open_stream (write_dirs pre post cs @ file_line pre post tok None @ 10 # rest))
      (l + 1) = Inr (ERR_CFG_SECT, fst (numbered path (l + 1) cs), fp, l')"
    using read_written [OF assms(1,5), of inc "Some name" path "[]" "file_line pre post tok None @ 10 # rest" "l + 1"]
      read_close [OF next_file_line [OF assms(1,6) none assms(9)] split_file_line [OF assms(1,6) none] assms(7)] assms(8)
    by simp
  then show ?thesis
    unfolding read_open [OF next_file_line [OF assms(1) sf(1) assms(3,4)] split_file_line [OF assms(1) sf(1) assms(3)] sf(2)] sf(3)
    by (auto simp: ERR_CFG_SECT_def RETURN_SUCCESS_def)
qed

definition with_section ::
  "byte list \<Rightarrow> directive list \<Rightarrow> byte list \<Rightarrow> byte list option \<Rightarrow> directive list \<Rightarrow> directive list" where
  "with_section path ds name args cs = (let (ds', l) = numbered path 0 ds in
     ds' @ [Directive name args (fst (numbered path (l + 1) cs)) path (l + 1)])"

text \<open>Claim C31 (error).  A configuration file with an error is used up to the error.  A section that is not closed, or
  that is closed by a tag that does not fit, is an error of \<open>build_config_tree\<close>; the tree has what was read, the
  section included, and \<open>proceed_pre_config\<close> executes it as if nothing had happened.\<close>

theorem config_errors_ignored:
  assumes "margins_ok pre post" "dirs_ok pre post ds" "section_ok name" "args_ok args" "dirs_ok pre post cs"
    "fits_line (file_line pre post (section_token name args) args)"
    and "token_ok tok" "closes_section tok" "\<not> closes tok name" "fits_line (file_line pre post tok None)"
    and "ce_open env unclosed = Some (write_dirs pre post ds @ file_line pre post (section_token name args) args @ 10 #
      write_dirs pre post cs)"
    and "ce_open env misclosed = Some (write_dirs pre post ds @ file_line pre post (section_token name args) args @ 10 #
      write_dirs pre post cs @ file_line pre post tok None @ 10 # rest)"
  shows "build_config_tree (Suc k) env unclosed = Inr (ERR_CFG_PEOF, with_section unclosed ds name args cs) \<and>
    build_config_tree (Suc k) env misclosed = Inr (ERR_CFG_SECT, with_section misclosed ds name args cs) \<and>
    proceed_pre_config (Suc k) env unclosed s = proceed_config_tree env (with_section unclosed ds name args cs) s \<and>
    proceed_pre_config (Suc k) env misclosed s = proceed_config_tree env (with_section misclosed ds name args cs) s"
proof -
  have "build_config_tree (Suc k) env unclosed = Inr (ERR_CFG_PEOF, with_section unclosed ds name args cs)"
    using read_unclosed [OF assms(1,3,4,6,5), of "include_of k env" None unclosed "fst (numbered unclosed 0 ds)" "snd (numbered unclosed 0 ds)"]
    by (auto simp: build_config_tree_read [OF assms(11)] read_written [OF assms(1,2)] with_section_def split: prod.splits
      simp del: build_config_tree.simps)
  moreover have "build_config_tree (Suc k) env misclosed = Inr (ERR_CFG_SECT, with_section misclosed ds name args cs)"
    using read_badly_closed [OF assms(1,3,4,6,5,7-10), of "include_of k env" None misclosed "fst (numbered misclosed 0 ds)" rest
        "snd (numbered misclosed 0 ds)"]
    by (auto simp: build_config_tree_read [OF assms(12)] read_written [OF assms(1,2)] with_section_def split: prod.splits
      simp del: build_config_tree.simps)
  ultimately show ?thesis by (simp add: proceed_pre_config_def del: build_config_tree.simps)
qed

section \<open>The files of rules\<close>

text \<open>The modules leave the list of the files of rules alone, and these directives run code of modules.  (No file under
  \<open>src/modules\<close> names \<open>rulefile_list\<close> or \<open>last_rulefile\<close>.)\<close>

definition modules_keep_rules :: "('a config_orchids_scheme) config_env \<Rightarrow> bool" where
  "modules_keep_rules env \<longleftrightarrow>
     (\<forall>f m d s s'. ce_command env f m d s = Inr s' \<longrightarrow> rulefile_list s' = rulefile_list s) \<and>
     (\<forall>f m s c s'. ic_pre_config (ce_input env) f m s = Inr (c, s') \<longrightarrow> rulefile_list s' = rulefile_list s)"

definition calls_module :: "directive \<Rightarrow> bool" where
  "calls_module d \<longleftrightarrow> dir_name d \<in> chars ` {''LoadModule'', ''<module'', ''INPUT''}"

text \<open>What a directive adds to the list.\<close>

definition rule_files :: "'o config_env \<Rightarrow> directive \<Rightarrow> rule_pointer list" where
  "rule_files env d = (if dir_name d = chars ''AddRuleFile'' then [RuleName (dir_args d)]
     else if dir_name d = chars ''AddRuleFiles'' then
       (case dir_args d of None \<Rightarrow> [] | Some a \<Rightarrow> replicate (length (ce_glob env a)) FreedName)
     else [])"

text \<open>The compiler gets through the list only if every name is there.\<close>

lemma compile_rulefiles_foldl:
  "compile_rulefiles parse s (map (RuleName \<circ> Some) names) c =
     foldl (\<lambda>x name. bnd x (\<lambda>c. bnd (parse (preproc_line name s) c) (\<lambda>(ret, status, c).
       if ret > 0 \<or> status > 0 then Inl ExitFailure else Inr c))) (Inr c) names"
proof (induction names arbitrary: c)
  case (Cons name names)
  have fault: "foldl (\<lambda>x name. bnd x (g name)) (Inl e) ns = Inl e" for g ns and e :: fault
    by (induction ns) simp_all
  let ?x = "bnd (parse (preproc_line name s) c) (\<lambda>(ret, status, c). if ret > 0 \<or> status > 0 then Inl ExitFailure else Inr c)"
  have one: "compile_and_add_rulefile parse s (RuleName (Some name)) c = ?x"
    unfolding compile_and_add_rulefile_def rule_pointer.case option.case
    by (rule arg_cong [where f = "bnd (parse (preproc_line name s) c)"]) (simp add: fun_eq_iff)
  show ?case
  proof (cases ?x)
    case (Inl e)
    then show ?thesis unfolding list.map foldl.simps compile_rulefiles.simps o_apply one bnd_Inr by (simp only: fault bnd_Inl)
  next
    case (Inr d)
    with Cons.IH [of d] show ?thesis unfolding list.map foldl.simps compile_rulefiles.simps o_apply one bnd_Inr by (simp only: bnd_Inr)
  qed
qed simp

lemma compile_rulefiles_named:
  "compile_rulefiles parse s fs c = Inr c' \<Longrightarrow> \<forall>f \<in> set fs. \<exists>name. f = RuleName (Some name)"
  by (induction fs arbitrary: c) (auto simp: compile_and_add_rulefile_def split: rule_pointer.splits option.splits)

lemma with_args_Inr: "with_args d f = Inr x \<longleftrightarrow> (\<exists>a. dir_args d = Some a \<and> f a = Inr x)"
  by (cases "dir_args d") (auto simp: with_args_def)

lemma upd_mod_rules: "upd_mod i f s = Inr s' \<Longrightarrow> rulefile_list s' = rulefile_list s"
  by (auto simp: upd_mod_def)

lemma run_command_rules:
  "modules_keep_rules env \<Longrightarrow> run_command env m cmds d s = Inr s' \<Longrightarrow> rulefile_list s' = rulefile_list s"
  by (auto simp: run_command_def modules_keep_rules_def split: option.splits)

lemma run_commands_rules:
  "modules_keep_rules env \<Longrightarrow> run_commands env m cmds ds s = Inr s' \<Longrightarrow> rulefile_list s' = rulefile_list s"
  by (induction env m cmds ds s rule: run_commands.induct) (auto dest: run_command_rules)

lemma add_module_rules:
  "modules_keep_rules env \<Longrightarrow> add_module (ce_input env) d h s = Inr (i, s') \<Longrightarrow> rulefile_list s' = rulefile_list s"
  by (auto simp: add_module_def Let_def modules_keep_rules_def dest!: upd_mod_rules split: if_splits option.splits)

lemma register_rules: "register_conditional_dissector m p k f x s = Inr s' \<Longrightarrow> rulefile_list s' = rulefile_list s"
  by (auto simp: register_conditional_dissector_def dest: upd_mod_rules split: if_splits option.splits)

text \<open>The handlers, but for the two that add files.\<close>

lemma set_poll_period_rules: "set_poll_period d s = Inr s' \<Longrightarrow> rulefile_list s' = rulefile_list s"
  by (auto simp: set_poll_period_def with_args_Inr Let_def split: if_splits option.splits prod.splits)

lemma set_runtime_user_rules: "set_runtime_user d s = Inr s' \<Longrightarrow> rulefile_list s' = rulefile_list s"
  by (auto simp: set_runtime_user_def with_args_Inr Let_def split: if_splits option.splits prod.splits)

lemma set_default_preproc_cmd_rules: "set_default_preproc_cmd d s = Inr s' \<Longrightarrow> rulefile_list s' = rulefile_list s"
  by (auto simp: set_default_preproc_cmd_def with_args_Inr Let_def split: if_splits option.splits prod.splits)

lemma add_preproc_cmd_rules: "add_preproc_cmd d s = Inr s' \<Longrightarrow> rulefile_list s' = rulefile_list s"
  unfolding add_preproc_cmd_def with_args_def Let_def by (cases "dir_args d"; simp only: option.case split: if_split_asm; auto)

lemma set_modules_dir_rules: "set_modules_dir d s = Inr s' \<Longrightarrow> rulefile_list s' = rulefile_list s"
  by (auto simp: set_modules_dir_def with_args_Inr Let_def split: if_splits option.splits prod.splits)

lemma set_lock_file_rules: "set_lock_file d s = Inr s' \<Longrightarrow> rulefile_list s' = rulefile_list s"
  by (auto simp: set_lock_file_def with_args_Inr Let_def split: if_splits option.splits prod.splits)

lemma set_max_memory_limit_rules: "set_max_memory_limit env d s = Inr s' \<Longrightarrow> rulefile_list s' = rulefile_list s"
  by (auto simp: set_max_memory_limit_def with_args_def Let_def split: if_splits option.splits prod.splits)

lemma set_resolve_ip_rules: "set_resolve_ip d s = Inr s' \<Longrightarrow> rulefile_list s' = rulefile_list s"
  by (auto simp: set_resolve_ip_def with_args_Inr Let_def split: if_splits option.splits prod.splits)

lemma set_nice_rules: "set_nice d s = Inr s' \<Longrightarrow> rulefile_list s' = rulefile_list s"
  by (auto simp: set_nice_def with_args_Inr Let_def split: if_splits option.splits prod.splits)

lemmas setters_keep_rules = set_poll_period_rules set_runtime_user_rules set_default_preproc_cmd_rules add_preproc_cmd_rules set_modules_dir_rules set_lock_file_rules set_resolve_ip_rules set_nice_rules

lemma module_handlers_keep_rules:
  assumes "modules_keep_rules env"
  shows "module_config env d s = Inr s' \<Longrightarrow> rulefile_list s' = rulefile_list s"
    "config_load_module env d s = Inr s' \<Longrightarrow> rulefile_list s' = rulefile_list s"
    "add_input_source env d s = Inr s' \<Longrightarrow> rulefile_list s' = rulefile_list s"
proof -
  show "module_config env d s = Inr s' \<Longrightarrow> rulefile_list s' = rulefile_list s"
    by (auto simp: module_config_def with_args_def bnd_def dest: run_commands_rules [OF assms] split: option.splits sum.splits)
  show "config_load_module env d s = Inr s' \<Longrightarrow> rulefile_list s' = rulefile_list s"
    by (auto simp: config_load_module_def load_add_shared_module_def with_args_def bnd_def dest: add_module_rules [OF assms]
        split: option.splits sum.splits)
  show "add_input_source env d s = Inr s' \<Longrightarrow> rulefile_list s' = rulefile_list s"
    by (auto simp: add_input_source_def with_args_def bnd_def dest: run_command_rules [OF assms]
        split: if_splits option.splits prod.splits sum.splits)
qed

lemma core_directive_mem: "core_directive tab n = Some f \<Longrightarrow> (n, f) \<in> set tab"
  by (induction tab n rule: core_directive.induct) (auto simp: strcmp_eq_iff split: if_splits)

lemma no_rule_files:
  "dir_name d \<noteq> chars ''AddRuleFile'' \<Longrightarrow> dir_name d \<noteq> chars ''AddRuleFiles'' \<Longrightarrow> rule_files env d = []"
  by (simp add: rule_files_def)

lemma chars_eq [simp]: "chars a = chars b \<longleftrightarrow> map (of_char :: char \<Rightarrow> byte) a = map of_char b"
  by (simp add: chars_def)

lemma directive_rules:
  assumes "calls_module d \<Longrightarrow> modules_keep_rules env" and "core_directive (config_dir_g env) (dir_name d) = Some f" and "f d s = Inr s'"
  shows "rulefile_list s' = rulefile_list s @ rule_files env d"
proof -
  have dissect: "add_cond_dissector env d s = Inr s' \<Longrightarrow> rulefile_list s' = rulefile_list s"
    by (auto simp: add_cond_dissector_def with_args_def bnd_def dest: register_rules
        split: if_splits option.splits prod.splits sum.splits)
  have mem: "(dir_name d, f) \<in> set (config_dir_g env)" by (rule core_directive_mem [OF assms(2)])
  consider (one) "dir_name d = chars ''AddRuleFile''" "f = add_rule_file"
    | (many) "dir_name d = chars ''AddRuleFiles''" "f = add_rule_files env"
    | (other) "dir_name d \<noteq> chars ''AddRuleFile''" "dir_name d \<noteq> chars ''AddRuleFiles''" "rulefile_list s' = rulefile_list s"
  proof (cases "calls_module d")
    case True
    from mem that show ?thesis
      unfolding config_dir_g_def list.set insert_iff prod.inject empty_iff
      using setters_keep_rules [where s = s and s' = s'] set_max_memory_limit_rules [of env d s s'] dissect
        module_handlers_keep_rules [OF assms(1) [OF True], where s = s and s' = s'] assms(3)
      by (elim disjE conjE) (simp_all del: bnd_eq_Inr)
  next
    case False
    with mem that show ?thesis
      unfolding config_dir_g_def list.set insert_iff prod.inject empty_iff
      using setters_keep_rules [where s = s and s' = s'] set_max_memory_limit_rules [of env d s s'] dissect assms(3)
      by (elim disjE conjE) (simp_all add: calls_module_def del: bnd_eq_Inr)
  qed
  then show ?thesis
  proof cases
    case many
    with assms(3) show ?thesis
      by (auto simp: add_rule_files_def with_args_Inr rule_files_def simp flip: map_replicate_const)
  qed (use assms(3) in \<open>auto simp: add_rule_file_def rule_files_def no_rule_files\<close>)
qed

text \<open>
  Claim C33 (functional).  The files of rules are compiled in the order of the configuration: executing a tree appends
  an entry for the file of each \<open>AddRuleFile\<close> and one for each file of each pattern of \<open>AddRuleFiles\<close>, in the order of
  the directives, whatever other directives stand between them.  The entries of \<open>AddRuleFiles\<close> are pointers
  to names that \<open>globfree\<close> has freed: when a pattern matched a file, \<open>compile_rules\<close> does not get through the list,
  whatever the parser does.  When all names are there, the parser gets the files in this order, each with its
  preprocessor.  Of the modules it is asked, for a tree that runs code of modules, that they leave the list alone.
\<close>

theorem rule_files_in_order:
  assumes "\<And>d. d \<in> set ds \<Longrightarrow> calls_module d \<Longrightarrow> modules_keep_rules env" and "proceed_config_tree env ds s = Inr s'"
  shows "rulefile_list s' = rulefile_list s @ concat (map (rule_files env) ds) \<and>
    (\<forall>d a parse c. d \<in> set ds \<longrightarrow> dir_name d = chars ''AddRuleFiles'' \<longrightarrow> dir_args d = Some a \<longrightarrow> ce_glob env a \<noteq> [] \<longrightarrow>
       (\<exists>f. compile_rules parse s' c = Inl f)) \<and>
    (\<forall>names parse. rulefile_list s' = map (RuleName \<circ> Some) names \<longrightarrow>
       compile_rules parse s' = (\<lambda>c. foldl (\<lambda>x name. bnd x (\<lambda>c. bnd (parse (preproc_line name s') c) (\<lambda>(ret, status, c).
         if ret > 0 \<or> status > 0 then Inl ExitFailure else Inr c))) (Inr c) names))"
proof (intro conjI allI impI)
  show list: "rulefile_list s' = rulefile_list s @ concat (map (rule_files env) ds)"
    using assms
  proof (induction ds arbitrary: s)
    case (Cons d ds)
    let ?f = "core_directive (config_dir_g env) (dir_name d)"
    from Cons.prems(2) obtain s1 where s1: "(case ?f of None \<Rightarrow> Inr s | Some f \<Rightarrow> f d s) = Inr s1" "proceed_config_tree env ds s1 = Inr s'"
      by auto
    have keep: "calls_module d \<Longrightarrow> modules_keep_rules env" by (rule Cons.prems(1)) simp_all
    have "rulefile_list s1 = rulefile_list s @ rule_files env d"
    proof (cases ?f)
      case None
      then have "rule_files env d = []"
        by (intro no_rule_files) (auto simp: config_dir_g_def strcmp_eq_iff)
      with None s1(1) show ?thesis by simp
    qed (use directive_rules [OF keep] s1(1) in simp)
    moreover have "rulefile_list s' = rulefile_list s1 @ concat (map (rule_files env) ds)"
      by (rule Cons.IH [OF _ s1(2)]) (rule Cons.prems(1), simp_all)
    ultimately show ?case by simp
  qed simp
  fix d a parse c
  assume d: "d \<in> set ds" "dir_name d = chars ''AddRuleFiles''" "dir_args d = Some a" "ce_glob env a \<noteq> []"
  then have "FreedName \<in> set (rule_files env d)" by (simp add: rule_files_def)
  with d(1) have "FreedName \<in> set (rulefile_list s')" by (auto simp: list)
  then show "\<exists>f. compile_rules parse s' c = Inl f"
    using compile_rulefiles_named [of parse s' "rulefile_list s'" c]
    by (cases "compile_rules parse s' c") (auto simp: compile_rules_def)
next
  fix names parse
  assume l: "rulefile_list s' = map (RuleName \<circ> Some) names"
  show "compile_rules parse s' = (\<lambda>c. foldl (\<lambda>x name. bnd x (\<lambda>c. bnd (parse (preproc_line name s') c) (\<lambda>(ret, status, c).
         if ret > 0 \<or> status > 0 then Inl ExitFailure else Inr c))) (Inr c) names)"
    unfolding compile_rules_def l by (simp add: fun_eq_iff compile_rulefiles_foldl)
qed

section \<open>Conditional dissectors\<close>

definition tables_ok :: "'a orchids_scheme \<Rightarrow> bool" where
  "tables_ok s \<longleftrightarrow> (\<forall>m \<in> set (o_mods s). \<forall>h. me_sub m = Some h \<longrightarrow> htable h \<noteq> [])"

lemma new_hash_empty: "htable (new_hash 31) \<noteq> [] \<and> hash_get (new_hash 31) k = Inr None"
  by (simp add: new_hash_def tab_new_def hash_get_def tab_get_def tab_slot_def)

lemma register_found:
  assumes "tables_ok s" and "find_module_entry parent s = Inr (Some i)"
    and "register_conditional_dissector m parent key f data s = Inr s'"
    and "event_key ev s = Inr k"
  shows "find_dissector i ev s' = (if k = key then Inr (Some (f, m, data)) else find_dissector i ev s)"
proof -
  from assms(2,3) obtain p h h' where p: "at (o_mods s) i = Inr p" "me_dissect p = None"
    and h: "(case me_sub p of None \<Rightarrow> Inr (new_hash 31)
        | Some h \<Rightarrow> bnd (hash_get h key) (\<lambda>old. if old \<noteq> None then Inl ExitFailure else Inr h)) = Inr h"
    and h': "hash_add h \<lparr>cd_dissect = f, cd_mod = m, cd_data = data\<rparr> key = Inr h'"
    and s': "upd_mod i (\<lambda>p. p\<lparr>me_sub := Some h'\<rparr>) s = Inr s'"
    by (auto simp: register_conditional_dissector_def simp del: option.case_cong split: if_splits)
  from p(1) have i: "i < length (o_mods s)" "p = o_mods s ! i" by (auto simp: at_eq_Inr)
  have ne: "htable h \<noteq> []"
    using h assms(1) i new_hash_empty by (auto simp: tables_ok_def split: option.splits if_splits)
  have old: "hash_get h k = (case me_sub p of None \<Rightarrow> Inr None | Some h \<Rightarrow> hash_get h k)"
    using h new_hash_empty by (auto split: option.splits if_splits)
  have new: "hash_get h' k = (if k = key then Inr (Some \<lparr>cd_dissect = f, cd_mod = m, cd_data = data\<rparr>) else hash_get h k)"
    using blocks.add_law [OF ne h' [unfolded hash_add_def]] by (simp add: hash_get_def hash_eq_iff)
  from s' i have "s' = s\<lparr>o_mods := (o_mods s)[i := p\<lparr>me_sub := Some h'\<rparr>]\<rparr>" by (auto simp: upd_mod_def)
  moreover have "event_key ev s' = event_key ev s"
    using calculation by (simp add: event_key_def split: list.splits)
  ultimately show ?thesis using i p(2) new old assms(4)
    by (auto simp: find_dissector_def split: option.splits)
qed

text \<open>A well-formed \<open>DISSECT\<close> line: the module \<open>m\<close>, with the function \<open>f\<close>, dissects the events of the module \<open>src\<close>
  whose last but one field, of type \<open>typ\<close>, is \<open>str\<close>.\<close>

definition dissect_line ::
  "'a orchids_scheme config_env \<Rightarrow> directive \<Rightarrow> 'a orchids_scheme \<Rightarrow> nat \<Rightarrow> nat \<Rightarrow> nat \<Rightarrow> int \<Rightarrow> byte list \<Rightarrow> bool" where
  "dissect_line env d s src m f typ str \<longleftrightarrow> (\<exists>dn sn e rest.
     dir_args d = Some (dn @ 32 # sn @ 32 # str @ rest) \<and> (\<forall>w \<in> {dn, sn, str}. w \<noteq> [] \<and> (\<forall>b \<in> set w. \<not> isblank b)) \<and>
     (rest = [] \<or> isblank (hd rest)) \<and>
     find_module_entry sn s = Inr (Some src) \<and> find_module_entry dn s = Inr (Some m) \<and>
     key_field_type src s = Inr typ \<and> at (o_mods s) m = Inr e \<and>
     ce_dlsym_fun env (me_handle e) (chars ''generic_dissect'') = Some f)"

lemma next_word_found:
  assumes "\<forall>b \<in> set w. \<not> isblank b" and "v \<noteq> [] \<Longrightarrow> \<not> isblank (hd v)"
  shows "next_word (w @ 32 # v) = (w, v)"
proof -
  have "isblank 32" by (simp add: isblank_def)
  moreover have "dropWhile isblank v = v" using assms(2) by (cases v) auto
  ultimately show ?thesis using assms(1) by (simp add: next_word_def takeWhile_append2 dropWhile_append2)
qed

lemma last_word_found:
  assumes "\<forall>b \<in> set w. \<not> isblank b" and "rest = [] \<or> isblank (hd rest)"
  shows "\<exists>v. next_word (w @ rest) = (w, v)"
  using assms by (cases rest) (auto simp: next_word_def takeWhile_append2)

text \<open>What \<open>DISSECT\<close> does for the events of the source: with a field of type string the events
  whose field is that string, and no others, go to the new dissector; with a field of type integer the key is
  the four bytes of an \<open>int\<close>, the value of an event has eight, and no event ever goes to the new dissector.\<close>

theorem dissect_directive:
  assumes "dissect_line env d s src m f typ str" and "tables_ok s" and "add_cond_dissector env d s = Inr s'"
  shows "(typ \<in> {5, 6} \<longrightarrow> (\<forall>ev k. event_key ev s = Inr k \<longrightarrow>
       find_dissector src ev s' = (if k = str then Inr (Some (f, m, None)) else find_dissector src ev s))) \<and>
    (typ \<in> {2, 16} \<longrightarrow> (\<forall>ev i. event_key ev s = Inr (bytes_le 8 (i :: clong)) \<longrightarrow> find_dissector src ev s' = find_dissector src ev s))"
proof -
  from assms(1) obtain dn sn e rest where a: "dir_args d = Some (dn @ 32 # sn @ 32 # str @ rest)"
    and w: "dn \<noteq> []" "sn \<noteq> []" "str \<noteq> []" "\<forall>b \<in> set dn. \<not> isblank b" "\<forall>b \<in> set sn. \<not> isblank b" "\<forall>b \<in> set str. \<not> isblank b"
      "rest = [] \<or> isblank (hd rest)"
    and l: "find_module_entry sn s = Inr (Some src)" "find_module_entry dn s = Inr (Some m)" "key_field_type src s = Inr typ"
      "at (o_mods s) m = Inr e" "ce_dlsym_fun env (me_handle e) (chars ''generic_dissect'') = Some f"
    unfolding dissect_line_def by auto
  from last_word_found [OF w(6,7)] obtain v where v: "next_word (str @ rest) = (str, v)" by blast
  have "\<not> isblank (hd (sn @ xs))" "\<not> isblank (hd (str @ xs))" for xs using w by (cases sn; cases str; simp)+
  then have words: "next_word (dn @ 32 # sn @ 32 # str @ rest) = (dn, sn @ 32 # str @ rest)"
    "next_word (sn @ 32 # str @ rest) = (sn, str @ rest)" using w(4,5) by (auto intro!: next_word_found)
  have reg: "\<exists>key. cond_param env typ str = Some key \<and> register_conditional_dissector m sn key f None s = Inr s'"
    if "cond_param env typ str \<noteq> None"
    using assms(3) that l w(1-3) by (auto simp: add_cond_dissector_def with_args_def a words v)
  have ints: "bytes_le 8 (i :: clong) \<noteq> bytes_le 4 (j :: cint)" for i j
    by (rule ccontr) (auto simp: bytes_le_def dest: arg_cong [where f = length])
  show ?thesis
    using reg register_found [OF assms(2) l(1)] ints by (fastforce simp: cond_param_def)
qed

section \<open>Samples\<close>

lemma plain_arg:
  "bs \<noteq> [] \<Longrightarrow> \<forall>b \<in> set bs. b \<notin> {0, 10, 35, 92, 39, 34} \<Longrightarrow> \<not> is_blank (hd bs) \<Longrightarrow> \<not> is_blank (last bs) \<Longrightarrow> arg_ok bs"
  unfolding arg_ok_def
  by (intro exI [of _ "map Plain bs"]) (auto simp: arg_text_def list_all_iff hd_map last_map comp_def)

lemma quoted_arg: "q \<in> {39, 34} \<Longrightarrow> set bs \<inter> {0, 10, 92, q} = {} \<Longrightarrow> arg_ok (q # bs @ [q])"
  unfolding arg_ok_def by (intro exI [of _ "[Quoted q bs]"]) auto

definition sample_pre :: "byte list" where "sample_pre = [32, 32]"
definition sample_post :: "byte list" where "sample_post = chars '' # x''"

definition sample_children :: "directive list" where
  "sample_children = [Directive (chars ''AddInputFile'') (Some (34 # chars ''/var/log #1'' @ [34])) [] [] 0]"

definition sample_head :: "directive list" where
  "sample_head = [Directive (chars ''AddRuleFile'') (Some (chars ''a.rule'')) [] [] 0]"

definition sample_tree :: "directive list" where
  "sample_tree = sample_head @ [Directive (chars ''<module'') (Some (chars ''textfile>'')) sample_children [] 0,
     Directive (chars ''AddRuleFiles'') (Some (chars ''*.rule'')) [] [] 0]"

lemmas sample_config_defs = sample_pre_def sample_post_def sample_children_def sample_head_def sample_tree_def

lemma sample_margins: "margins_ok sample_pre sample_post"
  by (simp add: margins_ok_def tail_ok_def sample_pre_def sample_post_def chars_def isblank_def)

lemma sample_args:
  "arg_ok (34 # chars ''/var/log #1'' @ [34])" "arg_ok (chars ''a.rule'')" "arg_ok (chars ''textfile>'')" "arg_ok (chars ''*.rule'')"
proof -
  show "arg_ok (34 # chars ''/var/log #1'' @ [34])" by (rule quoted_arg) (simp_all add: chars_def)
  show "arg_ok (chars ''a.rule'')" "arg_ok (chars ''textfile>'')" "arg_ok (chars ''*.rule'')"
    by (rule plain_arg; simp add: chars_def is_blank_def)+
qed

lemmas dirs_ok_eval = args_ok_def is_section_def section_ok_def leaf_ok_def fits_line_def file_line_def line_text_def
  section_token_def closing_token_def token_ok_def is_blank_def LINE_MAX_def

lemma sample_ok: "dirs_ok sample_pre sample_post sample_children" "dirs_ok sample_pre sample_post sample_head"
  "dirs_ok sample_pre sample_post sample_tree"
proof -
  show c: "dirs_ok sample_pre sample_post sample_children" and h: "dirs_ok sample_pre sample_post sample_head"
    using sample_args by (simp_all add: sample_config_defs dirs_ok_eval, simp_all add: chars_def)
  show "dirs_ok sample_pre sample_post sample_tree"
    using sample_args c by (simp add: sample_config_defs dirs_ok_eval) (simp add: chars_def)
qed

definition sample_section :: "byte list" where
  "sample_section = write_dirs sample_pre sample_post sample_head @
     file_line sample_pre sample_post (section_token (chars ''<module'') (Some (chars ''textfile>''))) (Some (chars ''textfile>'')) @
     10 # write_dirs sample_pre sample_post sample_children"

definition sample_env :: "config_orchids config_env" where
  "sample_env = \<lparr>ce_glob = (\<lambda>p. if p = chars ''*.rule'' then [[66], [67]] else if p = chars ''b'' then [[5]] else []),
     ce_open = [[1] \<mapsto> write_dirs sample_pre sample_post sample_tree, [2] \<mapsto> sample_section,
       [3] \<mapsto> sample_section @ file_line sample_pre sample_post (chars ''</modules>'') None @ [10]],
     ce_dlopen = (\<lambda>_. None), ce_dlsym_mod = (\<lambda>_ _. None), ce_dlsym_fun = (\<lambda>_ _. Some 9), ce_getrlimit = (\<lambda>_. None),
     ce_inet_addr = (\<lambda>_. 0), ce_command = (\<lambda>_ _ _. Inr),
     ce_input = \<lparr>ic_engine = sample_cfg [], ic_dissect = (\<lambda>_ _ _ _ _ s. Inr (1, s)), ic_hook = (\<lambda>_ _ _. Inr),
       ic_pre_config = (\<lambda>_ _ s. Inr (None, s)), ic_junk = (\<lambda>_. None)\<rparr>\<rparr>"

lemma sample_env_facts:
  "ce_glob sample_env p = (if p = chars ''*.rule'' then [[66], [67]] else if p = chars ''b'' then [[5]] else [])"
  "ce_command sample_env = (\<lambda>_ _ _. Inr)" "ce_dlsym_fun sample_env = (\<lambda>_ _. Some 9)"
  by (simp_all add: sample_env_def del: chars_eq)

theorem config_round_trip_witness:
  "build_config_tree 1 sample_env [1] = Inr (RETURN_SUCCESS,
    [Directive (chars ''AddRuleFile'') (Some (chars ''a.rule'')) [] [1] 1,
     Directive (chars ''<module'') (Some (chars ''textfile>''))
       [Directive (chars ''AddInputFile'') (Some (34 # chars ''/var/log #1'' @ [34])) [] [1] 3] [1] 2,
     Directive (chars ''AddRuleFiles'') (Some (chars ''*.rule'')) [] [1] 5])"
proof -
  have "ce_open sample_env [1] = Some (write_dirs sample_pre sample_post sample_tree)" by (simp add: sample_env_def)
  from config_round_trip [OF this sample_margins sample_ok(3), of 0] show ?thesis
    by (simp add: sample_config_defs is_section_def del: build_config_tree.simps chars_eq) (simp add: chars_def)
qed

theorem config_errors_ignored_witness:
  "build_config_tree 1 sample_env [2] = Inr (ERR_CFG_PEOF,
     with_section [2] sample_head (chars ''<module'') (Some (chars ''textfile>'')) sample_children) \<and>
   (\<forall>s. proceed_pre_config 1 sample_env [3] s = proceed_config_tree sample_env
     (with_section [3] sample_head (chars ''<module'') (Some (chars ''textfile>'')) sample_children) s)"
proof -
  let ?name = "chars ''<module''" and ?args = "Some (chars ''textfile>'')" and ?tok = "chars ''</modules>''"
  have ok: "section_ok ?name" "args_ok ?args" "fits_line (file_line sample_pre sample_post (section_token ?name ?args) ?args)"
    "token_ok ?tok" "closes_section ?tok" "\<not> closes ?tok ?name" "fits_line (file_line sample_pre sample_post ?tok None)"
    using sample_args by (simp_all add: dirs_ok_eval closes_section_def closes_def sample_config_defs)
      (simp_all add: chars_def)
  have files: "ce_open sample_env [2] = Some (write_dirs sample_pre sample_post sample_head @
      file_line sample_pre sample_post (section_token ?name ?args) ?args @ 10 # write_dirs sample_pre sample_post sample_children)"
    "ce_open sample_env [3] = Some (write_dirs sample_pre sample_post sample_head @
      file_line sample_pre sample_post (section_token ?name ?args) ?args @ 10 # write_dirs sample_pre sample_post sample_children @
      file_line sample_pre sample_post ?tok None @ 10 # [])"
    by (simp_all add: sample_env_def sample_section_def)
  from config_errors_ignored [OF sample_margins sample_ok(2) ok(1,2) sample_ok(1) ok(3-7) files, of 0]
  show ?thesis unfolding One_nat_def by blast
qed

text \<open>A file that includes another one.\<close>

definition sample_files :: "unit config_env" where
  "sample_files = \<lparr>ce_glob = (\<lambda>p. [[5]]), ce_open = [[4] \<mapsto> chars ''Include b'' @ 10 # [], [5] \<mapsto> []], ce_dlopen = (\<lambda>_. None),
     ce_dlsym_mod = (\<lambda>_ _. None), ce_dlsym_fun = (\<lambda>_ _. None), ce_getrlimit = (\<lambda>_. None),
     ce_inet_addr = (\<lambda>_. 0), ce_command = (\<lambda>_ _ _. Inr),
     ce_input = \<lparr>ic_engine = sample_cfg [], ic_dissect = (\<lambda>_ _ _ _ _ s. Inr (1, s)), ic_hook = (\<lambda>_ _ _. Inr),
       ic_pre_config = (\<lambda>_ _ s. Inr (None, s)), ic_junk = (\<lambda>_. None)\<rparr>\<rparr>"

lemma reads_line:
  "next_line fp b fq \<Longrightarrow> reads fp buf \<Longrightarrow> buf = b \<or> reads fq buf"
  by (erule reads.cases) (auto simp: next_line_def)

lemma reads_end: "reads (open_stream []) buf \<Longrightarrow> buf = []"
  by (drule reads_line [OF next_line_end]) (auto elim: reads.cases simp: next_line_def)

lemma stray_tag_line: "stray_tag d fp \<Longrightarrow> \<exists>buf dir args. reads fp buf \<and> split_line buf = Some (dir, args) \<and> closes_section dir"
  by (induction rule: stray_tag.induct) (blast intro: reads.intros)+

lemma sample_file_lines:
  assumes "ce_open sample_files p = Some cont" and "reads (open_stream cont) buf" and "split_line buf = Some (dir, args)"
  shows "p = [4] \<and> dir = chars ''Include'' \<and> args = Some (chars ''b'')"
proof -
  have blank: "split_line [] = None" by (simp add: split_line_def cfg_get_next_token_def ends_line_def)
  from assms(1) consider "p = [4]" "cont = chars ''Include b'' @ 10 # []" | "p = [5]" "cont = []"
    by (auto simp: sample_files_def split: if_splits)
  then show ?thesis
  proof cases
    case 1
    have "next_line (open_stream cont) (chars ''Include b'' @ [10]) (open_stream [])"
      unfolding 1 by (rule next_line_found) (simp_all add: chars_def LINE_MAX_def)
    note lines = reads_line [OF this assms(2)] reads_end
    have "split_line ([] @ line_text (chars ''Include'') (Some (chars ''b'')) @ [] @ [10]) = Some (chars ''Include'', Some (chars ''b''))"
    proof (rule split_written)
      have "arg_ok (chars ''b'')" by (rule plain_arg) (simp_all add: chars_def is_blank_def)
      then show "\<forall>a. Some (chars ''b'') = Some a \<longrightarrow> arg_ok a" by simp
    qed (simp_all add: margins_ok_def tail_ok_def token_ok_def chars_def is_blank_def)
    then have "split_line (chars ''Include b'' @ [10]) = Some (chars ''Include'', Some (chars ''b''))"
      by (simp add: line_text_def) (simp add: chars_def)
    moreover have "buf = chars ''Include b'' @ [10]" using lines blank assms(3) by fastforce
    ultimately show ?thesis using assms(3) 1 by simp
  qed (use reads_end assms(2,3) blank in fastforce)
qed

theorem config_files_end_witness: "\<exists>ret tree. build_config_tree 2 sample_files [4] = Inr (ret, tree)"
proof -
  let ?stray = "\<exists>q text. file_reads sample_files [4] q \<and> ce_open sample_files q = Some text \<and> stray_tag 0 (open_stream text)"
  have "(\<exists>ret tree. build_config_tree 2 sample_files [4] = Inr (ret, tree)) \<or> (build_config_tree 2 sample_files [4] = Inl NullDeref \<and> ?stray)"
  proof (rule config_files_end [where rank = "\<lambda>p. if p = [4] then 1 else 0"])
    fix path cont args
    assume o: "ce_open sample_files path = Some cont" and "has_include (open_stream cont) args"
    then obtain buf dir where "reads (open_stream cont) buf" "split_line buf = Some (dir, args)" unfolding has_include_def by blast
    from sample_file_lines [OF o this] show "\<exists>pattern. args = Some pattern \<and> (\<forall>q \<in> set (ce_glob sample_files pattern).
        (if q = [4] then 1 else 0) < (if path = [4] then 1 else (0 :: nat)) \<and> ce_open sample_files q \<noteq> None)"
      by (simp add: sample_files_def)
  qed (simp_all add: sample_files_def)
  moreover have "\<not> ?stray"
  proof (intro notI, elim exE conjE)
    fix q cont
    assume o: "ce_open sample_files q = Some cont" and "stray_tag 0 (open_stream cont)"
    with stray_tag_line obtain buf dir args where "reads (open_stream cont) buf" "split_line buf = Some (dir, args)" "closes_section dir"
      by blast
    from sample_file_lines [OF o this(1,2)] this(3) show False by (simp add: closes_section_def chars_def)
  qed
  ultimately show ?thesis by blast
qed

text \<open>A file with nothing but a closing tag.\<close>

lemma stray_tag_faults:
  "ce_open env path = Some (chars ''</a>'' @ [10]) \<Longrightarrow> build_config_tree (Suc k) env path = Inl NullDeref"
proof -
  assume o: "ce_open env path = Some (chars ''</a>'' @ [10])"
  have line: "next_line (open_stream (chars ''</a>'' @ [10])) (chars ''</a>'' @ [10]) (open_stream [])"
    using next_line_found [of "chars ''</a>''" "[]"] by (simp add: chars_def LINE_MAX_def)
  have "split_line (chars ''</a>'' @ [10]) = Some (chars ''</a>'', None)" "closes_section (chars ''</a>'')"
    by (simp_all add: split_line_def cfg_get_next_token_def ends_line_def chars_def is_blank_def closes_section_def)
  from read_stray [OF line this] show ?thesis by (simp add: build_config_tree_read [OF o] del: build_config_tree.simps)
qed

text \<open>Executing the sample, and a module whose events are dissected by an integer and by a string.\<close>

definition sample_module :: "string \<Rightarrow> nat \<Rightarrow> nat \<Rightarrow> mod_entry" where
  "sample_module name n first = \<lparr>me_num_fields = 2, me_first_field = first, me_config = None, me_sub = None, me_dissect = None,
     me_dissect_mod = 0, me_data = None, me_mod = Some \<lparr>im_magic = MOD_MAGIC, im_version = ORCHIDS_VERSION,
       im_name = Some (chars name), im_deps = [], im_cmds = Some [(None, None)], im_pre_config = None\<rparr>,
     me_posts = 0, me_id = n, me_handle = None\<rparr>"

definition sample_context :: config_orchids where
  "sample_context = \<lparr>o_mods = [sample_module ''num'' 0 0, sample_module ''txt'' 1 2, sample_module ''textfile'' 2 4], loaded_modules = 3,
     o_fields = map (\<lambda>t. \<lparr>fr_active = True, fr_name = [], fr_type = t, fr_desc = [], fr_id = 0\<rparr>) [2, 6, 6, 6, 6, 6],
     o_engine = new_engine sample_vm (replicate 6 None) (\<lambda>_. \<lparr>htable = [], elmts = 0\<rparr>),
     realtime_handlers = [], poll_handlers = [], o_fds = {}, o_maxfd = 0, pre_hooks = [], post_hooks = [],
     poll_period = 1, rulefile_list = [RuleName (Some [65])], runtime_user = None, default_preproc_cmd = Some (chars ''cat''), preproclist = [],
     modules_dir = None, lockfile = None, resolve_ipv4 = False, sys_calls = []\<rparr>"

theorem rule_files_in_order_witness:
  "\<exists>s'. proceed_config_tree sample_env sample_tree sample_context = Inr s' \<and>
     rulefile_list s' = [RuleName (Some [65]), RuleName (Some (chars ''a.rule'')), FreedName, FreedName] \<and>
     (\<exists>f. compile_rules (\<lambda>_ c. Inr (0, 0, c + 1)) s' (0 :: nat) = Inl f)"
proof -
  have keep: "modules_keep_rules sample_env" by (simp add: modules_keep_rules_def sample_env_def)
  have "\<exists>s'. proceed_config_tree sample_env sample_tree sample_context = Inr s'"
    by (simp add: sample_config_defs config_dir_g_def strcmp_eq_iff add_rule_file_def add_rule_files_def module_config_def
        with_args_def sample_context_def sample_module_def commands_of_def run_command_def scan_modname_def find_module_entry_def has_name_def
        MODNAME_MAX_def is_alpha_def sample_env_facts numeral_3_eq_3 chars_def)
  then obtain s' where s': "proceed_config_tree sample_env sample_tree sample_context = Inr s'" by blast
  note order = rule_files_in_order [OF keep s']
  have "rulefile_list s' = [RuleName (Some [65]), RuleName (Some (chars ''a.rule'')), FreedName, FreedName]"
    unfolding order [THEN conjunct1]
    by (simp add: sample_config_defs rule_files_def sample_context_def sample_env_facts numeral_2_eq_2)
  moreover define d where "d = Directive (chars ''AddRuleFiles'') (Some (chars ''*.rule'')) [] [] 0"
  then have "d \<in> set sample_tree" "dir_name d = chars ''AddRuleFiles''" "dir_args d = Some (chars ''*.rule'')"
    "ce_glob sample_env (chars ''*.rule'') \<noteq> []"
    by (simp_all add: sample_config_defs sample_env_facts)
  from order [THEN conjunct2, THEN conjunct1, rule_format, OF this]
  have "\<exists>f. compile_rules (\<lambda>_ c. Inr (0, 0, c + 1)) s' (0 :: nat) = Inl f" .
  ultimately show ?thesis using s' by blast
qed

definition sample_dissect :: "string \<Rightarrow> directive" where
  "sample_dissect src = Directive (chars ''DISSECT'') (Some (chars ''textfile'' @ 32 # chars src @ 32 # chars ''5'' @ [])) [] [] 0"

text \<open>The number \<open>5\<close> of the configuration is not the number \<open>5\<close> of the event.\<close>

theorem dissect_directive_witness:
  "\<exists>s'. add_cond_dissector sample_env (sample_dissect ''num'') sample_context = Inr s' \<and>
     find_dissector 0 [(1, Some 0), (0, Some 1)] s' = Inr None"
proof -
  let ?d = "sample_dissect ''num''"
  note eval = sample_dissect_def sample_context_def sample_module_def find_module_entry_def has_name_def strcmp_eq_iff key_field_type_def
  have src: "find_module_entry (chars ''num'') sample_context = Inr (Some 0)" "find_module_entry (chars ''textfile'') sample_context = Inr (Some 2)"
    "key_field_type 0 sample_context = Inr 2" "at (o_mods sample_context) 2 = Inr (sample_module ''textfile'' 2 4)"
    by (simp_all add: eval numeral_3_eq_3 chars_def at_def)
  have line: "dissect_line sample_env ?d sample_context 0 2 9 2 (chars ''5'')" unfolding dissect_line_def
    by (intro exI [of _ "chars ''textfile''"] exI [of _ "chars ''num''"] exI [of _ "sample_module ''textfile'' 2 4"] exI [of _ "[]"])
      (simp add: src sample_dissect_def, simp add: sample_env_facts isblank_def chars_def)
  have tables: "tables_ok sample_context" by (simp add: tables_ok_def sample_context_def sample_module_def)
  have "next_word (chars ''textfile'' @ 32 # chars ''num'' @ 32 # chars ''5'') = (chars ''textfile'', chars ''num'' @ 32 # chars ''5'')"
    "next_word (chars ''num'' @ 32 # chars ''5'') = (chars ''num'', chars ''5'')" "next_word (chars ''5'') = (chars ''5'', [])"
    by (simp_all add: next_word_def isblank_def chars_def)
  moreover have "chars ''textfile'' \<noteq> []" "chars ''num'' \<noteq> []" "chars ''5'' \<noteq> []" by (simp_all add: chars_def)
  ultimately have "add_cond_dissector sample_env ?d sample_context =
      register_conditional_dissector 2 (chars ''num'') (bytes_le 4 (c_atoi (chars ''5''))) 9 None sample_context"
    by (simp add: add_cond_dissector_def with_args_def sample_dissect_def src cond_param_def sample_env_facts)
  moreover have "\<exists>s'. register_conditional_dissector 2 (chars ''num'') key 9 None sample_context = Inr s'" for key
  proof -
    from blocks.add_total [of "new_hash 31 :: cond_dissector hash" "\<lparr>cd_dissect = 9, cd_mod = 2, cd_data = None\<rparr>" key] new_hash_empty
    obtain h' where "hash_add (new_hash 31) \<lparr>cd_dissect = 9, cd_mod = 2, cd_data = None\<rparr> key = Inr h'" by (auto simp: hash_add_def)
    moreover have "at (o_mods sample_context) 0 = Inr (sample_module ''num'' 0 0)" by (simp add: sample_context_def at_def)
    moreover have "me_sub (sample_module ''num'' 0 0) = None" "me_dissect (sample_module ''num'' 0 0) = None"
      by (simp_all add: sample_module_def)
    ultimately show ?thesis by (simp add: register_conditional_dissector_def src upd_mod_def del: bnd_eq_Inr)
  qed
  ultimately obtain s' where s': "add_cond_dissector sample_env ?d sample_context = Inr s'" by metis
  have "event_key [(1, Some 0), (0, Some 1)] sample_context = Inr (bytes_le 8 (5 :: clong))"
    by (simp add: event_key_def sample_context_def new_engine_def sample_vm_def deref_def)
  moreover have "find_dissector 0 [(1, Some 0), (0, Some 1)] sample_context = Inr None"
    by (simp add: find_dissector_def sample_context_def sample_module_def)
  ultimately show ?thesis using dissect_directive [OF line tables s'] s' by auto
qed

end
