(* ===== verification/Containers.thy ===== *)
theory Containers
  imports Linked "HOL-Library.Multiset"
begin

text \<open>
  The small containers of \<open>src/util\<close>: the queues of \<open>queue.c\<close>, on their links; the lists of
  \<open>list.c\<close>, of which nothing is shared, as sequences; and the growing arrays of \<open>array.c\<close>.  A
  \<open>void *\<close> is a number or \<open>NULL\<close>.
\<close>

section \<open>Queues\<close>

record queue_element =
  qe_next :: "nat option"
  qe_data :: "nat option"

record queue =
  elements :: int
  q_head :: "nat option"
  q_tail :: "nat option"

record qheap =
  cells :: "nat \<Rightarrow> queue_element option"
  q_fresh :: nat

definition queue_new :: queue where
  "queue_new = \<lparr>elements = 0, q_head = None, q_tail = None\<rparr>"

definition cell_at :: "nat option \<Rightarrow> qheap \<Rightarrow> fault + queue_element" where
  "cell_at p h = (case p of None \<Rightarrow> Inl NullDeref | Some a \<Rightarrow>
     (case cells h a of None \<Rightarrow> Inl DeadAccess | Some e \<Rightarrow> Inr e))"

text \<open>\<open>p->next = n\<close>\<close>

definition set_next :: "nat option \<Rightarrow> nat option \<Rightarrow> qheap \<Rightarrow> fault + qheap" where
  "set_next p n h = bnd (cell_at p h) (\<lambda>e. Inr (h\<lparr>cells := (cells h)(the p \<mapsto> e\<lparr>qe_next := n\<rparr>)\<rparr>))"

definition queue_add :: "nat option \<Rightarrow> queue \<times> qheap \<Rightarrow> fault + queue \<times> qheap" where
  "queue_add data = (\<lambda>(q, h).
     let e = q_fresh h;
         h = h\<lparr>q_fresh := Suc e, cells := (cells h)(e \<mapsto> \<lparr>qe_next = None, qe_data = data\<rparr>)\<rparr>
     in if elements q = 0
        then Inr (q\<lparr>q_head := Some e, q_tail := Some e, elements := elements q + 1\<rparr>, h)
        else bnd (set_next (q_tail q) (Some e) h) (\<lambda>h.
             Inr (q\<lparr>q_tail := Some e, elements := elements q + 1\<rparr>, h)))"

definition queue_get :: "queue \<times> qheap \<Rightarrow> fault + nat option \<times> queue \<times> qheap" where
  "queue_get = (\<lambda>(q, h).
     if elements q = 0 then Inr (None, q, h)
     else bnd (cell_at (q_head q) h) (\<lambda>e.
       Inr (qe_data e, q\<lparr>elements := elements q - 1, q_head := qe_next e\<rparr>,
         h\<lparr>cells := (cells h)(the (q_head q) := None)\<rparr>)))"

text \<open>The destination and the source are two queues; the heap is not changed.\<close>

definition queue_move :: "queue \<Rightarrow> queue \<Rightarrow> queue \<times> queue" where
  "queue_move dest src =
     (if elements dest > 0 then (dest, src) else (src, src\<lparr>elements := 0\<rparr>))"

definition queue_append :: "queue \<Rightarrow> queue \<Rightarrow> qheap \<Rightarrow> fault + queue \<times> queue \<times> qheap" where
  "queue_append dest src h =
     (if elements dest > 0 \<and> elements src > 0
      then bnd (set_next (q_tail dest) (q_head src) h) (\<lambda>h.
        Inr (dest\<lparr>q_tail := q_tail src, elements := elements dest + elements src\<rparr>, src\<lparr>elements := 0\<rparr>, h))
      else if elements dest = 0 then Inr (src, src\<lparr>elements := 0\<rparr>, h)
      else Inr (dest, src, h))"

definition queue_merge :: "queue \<Rightarrow> queue \<Rightarrow> queue \<Rightarrow> qheap \<Rightarrow> fault + queue \<times> queue \<times> queue \<times> qheap" where
  "queue_merge dest q1 q2 h =
     (if elements dest > 0 then Inr (dest, q1, q2, h)
      else let dest = dest\<lparr>elements := elements q1 + elements q2\<rparr> in
      if elements q1 > 0 \<and> elements q2 > 0
      then bnd (set_next (q_tail q1) (q_head q2) h) (\<lambda>h.
        Inr (dest\<lparr>q_head := q_head q1, q_tail := q_tail q2\<rparr>, q1\<lparr>elements := 0\<rparr>, q2\<lparr>elements := 0\<rparr>, h))
      else if elements q2 = 0
      then Inr (dest\<lparr>q_head := q_head q1, q_tail := q_tail q1\<rparr>, q1\<lparr>elements := 0\<rparr>, q2, h)
      else Inr (dest\<lparr>q_head := q_head q2, q_tail := q_tail q2\<rparr>, q1, q2\<lparr>elements := 0\<rparr>, h))"

section \<open>Lists\<close>

definition list_add :: "'a \<Rightarrow> 'a list \<Rightarrow> 'a list" where
  "list_add v l = v # l"

fun length_from :: "int \<Rightarrow> 'a list \<Rightarrow> int" where
  "length_from i [] = i"
| "length_from i (x # xs) = length_from (i + 1) xs"

definition list_length :: "'a list \<Rightarrow> int" where
  "list_length l = length_from 0 l"

fun reverse_onto :: "'a list \<Rightarrow> 'a list \<Rightarrow> 'a list" where
  "reverse_onto tail [] = tail"
| "reverse_onto tail (x # xs) = reverse_onto (x # tail) xs"

definition list_reverse :: "'a list \<Rightarrow> 'a list" where
  "list_reverse l = reverse_onto [] l"

fun at_from :: "int \<Rightarrow> 'a list \<Rightarrow> int \<Rightarrow> 'a option" where
  "at_from i [] idx = None"
| "at_from i (x # xs) idx = (if i = idx then Some x else at_from (i + 1) xs idx)"

definition list_at :: "'a list \<Rightarrow> int \<Rightarrow> 'a option" where
  "list_at l idx = at_from 0 l idx"

fun list_find_elmt :: "('a \<Rightarrow> 'b \<Rightarrow> int) \<Rightarrow> 'b \<Rightarrow> 'a list \<Rightarrow> 'a option" where
  "list_find_elmt compar ref [] = None"
| "list_find_elmt compar ref (x # xs) = (if compar x ref = 0 then Some x else list_find_elmt compar ref xs)"

text \<open>
  The inner loop of \<open>list_sort\<close>: the list is the cells before the maximum so far, the maximum, the cells
  between it and \<open>cell\<close>, and the rest.  At the end the maximum is unlinked.
\<close>

fun take_max :: "('a \<Rightarrow> 'a \<Rightarrow> int) \<Rightarrow> 'a list \<Rightarrow> 'a \<Rightarrow> 'a list \<Rightarrow> 'a list \<Rightarrow> 'a \<times> 'a list" where
  "take_max compar pre maxi mid [] = (maxi, pre @ mid)"
| "take_max compar pre maxi mid (cell # rest) =
     (if compar cell maxi > 0 then take_max compar (pre @ maxi # mid) cell [] rest
      else take_max compar pre maxi (mid @ [cell]) rest)"

lemma length_take_max: "length (snd (take_max compar pre maxi mid rest)) = length pre + length mid + length rest"
  by (induction compar pre maxi mid rest rule: take_max.induct) auto

function sort_onto :: "('a \<Rightarrow> 'a \<Rightarrow> int) \<Rightarrow> 'a list \<Rightarrow> 'a list \<Rightarrow> 'a list" where
  "sort_onto compar pc [] = pc"
| "sort_onto compar pc (x # xs) =
     sort_onto compar (fst (take_max compar [] x [] xs) # pc) (snd (take_max compar [] x [] xs))"
  by pat_completeness auto
termination
  by (relation "measure (\<lambda>(_, _, head). length head)") (auto simp: length_take_max)

definition list_sort :: "('a \<Rightarrow> 'a \<Rightarrow> int) \<Rightarrow> 'a list \<Rightarrow> 'a list" where
  "list_sort compar l = sort_onto compar [] l"

section \<open>Arrays\<close>

text \<open>The block has \<open>ar_size\<close> entries; what \<open>malloc\<close> and \<open>realloc\<close> leave in the new ones is \<open>NULL\<close>
  here, and no operation reads it.\<close>

record array =
  ar_length :: nat
  ar_size :: nat
  ar_grow :: nat
  ar_block :: "nat option list"

definition new_array :: "nat \<Rightarrow> nat \<Rightarrow> array" where
  "new_array initial grow = \<lparr>ar_length = 0, ar_size = initial, ar_grow = grow, ar_block = replicate initial None\<rparr>"

definition realloc :: "nat \<Rightarrow> array \<Rightarrow> array" where
  "realloc n a = a\<lparr>ar_size := n, ar_block := take n (ar_block a) @ replicate (n - length (ar_block a)) None\<rparr>"

definition array_add :: "nat option \<Rightarrow> array \<Rightarrow> fault + array" where
  "array_add x a =
     (let a = (if ar_length a = ar_size a then realloc (ar_size a + ar_grow a) a else a)
      in if ar_length a < length (ar_block a)
         then Inr (a\<lparr>ar_block := (ar_block a)[ar_length a := x], ar_length := ar_length a + 1\<rparr>)
         else Inl OutOfBounds)"

definition array_shrink :: "array \<Rightarrow> fault + array" where
  "array_shrink a = (if ar_grow a = 0 then Inl SigFpe
     else Inr (realloc (ar_length a - ar_length a mod ar_grow a + ar_grow a) a))"

end
