(* ===== verification/Containers_Laws.thy ===== *)
theory Containers_Laws
  imports Containers
begin

text \<open>
  The queues keep the order of their elements, also when they are appended and merged; the sort of
  the lists sorts, and turns equal elements around.  \<open>fifo\<close> is the interface of a queue.
\<close>

section \<open>The interface of a queue\<close>

fun each :: "('d \<Rightarrow> 's \<Rightarrow> fault + 's) \<Rightarrow> 'd list \<Rightarrow> 's \<Rightarrow> fault + 's" where
  "each add [] s = Inr s"
| "each add (d # ds) s = bnd (add d s) (each add ds)"

fun draw :: "('s \<Rightarrow> fault + 'd option \<times> 's) \<Rightarrow> nat \<Rightarrow> 's \<Rightarrow> fault + 'd option list \<times> 's" where
  "draw get 0 s = Inr ([], s)"
| "draw get (Suc n) s = bnd (get s) (\<lambda>(x, s). bnd (draw get n s) (\<lambda>(xs, s). Inr (x # xs, s)))"

locale fifo =
  fixes add :: "'d \<Rightarrow> 's \<Rightarrow> fault + 's"
    and get :: "'s \<Rightarrow> fault + 'd option \<times> 's"
    and items :: "'s \<Rightarrow> 'd list \<Rightarrow> bool"
  assumes add: "items s xs \<Longrightarrow> \<exists>s'. add d s = Inr s' \<and> items s' (xs @ [d])"
    and get: "items s (x # xs) \<Longrightarrow> \<exists>s'. get s = Inr (Some x, s') \<and> items s' xs"
    and get_empty: "items s [] \<Longrightarrow> get s = Inr (None, s)"
begin

lemma each_added: "items s xs \<Longrightarrow> \<exists>s'. each add ds s = Inr s' \<and> items s' (xs @ ds)"
proof (induction ds arbitrary: s xs)
  case (Cons d ds)
  from add [OF Cons.prems] obtain s1 where s1: "add d s = Inr s1" "items s1 (xs @ [d])" by blast
  from Cons.IH [OF s1(2)] s1(1) show ?case by simp
qed simp

lemma drawn: "items s (xs @ ys) \<Longrightarrow> \<exists>s'. draw get (length xs) s = Inr (map Some xs, s') \<and> items s' ys"
proof (induction xs arbitrary: s)
  case (Cons x xs)
  from get Cons.prems obtain s1 where s1: "get s = Inr (Some x, s1)" "items s1 (xs @ ys)" by fastforce
  from Cons.IH [OF s1(2)] s1(1) show ?case by fastforce
qed simp

lemma first_in_first_out:
  assumes "items s []"
  shows "\<exists>s1 s2. each add ds s = Inr s1 \<and> draw get (length ds) s1 = Inr (map Some ds, s2) \<and> items s2 []"
  using each_added [OF assms, of ds] drawn [of _ ds "[]"] by fastforce

end

section \<open>The queues on their links\<close>

definition nx :: "qheap \<Rightarrow> nat \<Rightarrow> nat option option" where
  "nx h a = map_option qe_next (cells h a)"

definition data_at :: "qheap \<Rightarrow> nat \<Rightarrow> nat option" where
  "data_at h a = (case cells h a of None \<Rightarrow> None | Some e \<Rightarrow> qe_data e)"

text \<open>A queue without elements may point anywhere.\<close>

definition holds :: "queue \<Rightarrow> qheap \<Rightarrow> nat list \<Rightarrow> bool" where
  "holds q h as \<longleftrightarrow> elements q = int (length as) \<and> distinct as \<and> (\<forall>a \<in> set as. a < q_fresh h) \<and>
     (as \<noteq> [] \<longrightarrow> linked (nx h) (q_head q) as None \<and> q_tail q = Some (last as))"

lemma holds_alive: "holds q h as \<Longrightarrow> a \<in> set as \<Longrightarrow> \<exists>e. cells h a = Some e"
  using linked_in_dom [of "nx h" "q_head q" as None] by (cases "as = []") (auto simp: holds_def nx_def dom_def)

lemma set_next_alive:
  assumes "cells h a = Some e"
  shows "\<exists>h'. set_next (Some a) n h = Inr h' \<and> nx h' = (nx h)(a \<mapsto> n) \<and> data_at h' = data_at h \<and> q_fresh h' = q_fresh h"
  using assms by (auto simp: set_next_def cell_at_def nx_def data_at_def fun_eq_iff)

lemma queue_add_holds:
  assumes "holds q h as"
  shows "\<exists>q' h'. queue_add d (q, h) = Inr (q', h') \<and> holds q' h' (as @ [q_fresh h]) \<and>
    data_at h' (q_fresh h) = d \<and> (\<forall>a \<in> set as. data_at h' a = data_at h a)"
proof -
  let ?e = "q_fresh h"
  let ?h = "h\<lparr>q_fresh := Suc ?e, cells := (cells h)(?e \<mapsto> \<lparr>qe_next = None, qe_data = d\<rparr>)\<rparr>"
  have less: "\<forall>a \<in> set as. a < ?e" using assms by (simp add: holds_def)
  have nxh: "nx ?h = (nx h)(?e \<mapsto> None)" by (auto simp: nx_def)
  have data: "data_at ?h ?e = d" "\<forall>a \<in> set as. data_at ?h a = data_at h a" using less by (auto simp: data_at_def)
  show ?thesis
  proof (cases "as = []")
    case True
    with assms data show ?thesis by (auto simp: queue_add_def holds_def Let_def nxh)
  next
    case False
    have as: "linked (nx ?h) (q_head q) as None" "q_tail q = Some (last as)" "distinct as" "elements q = int (length as)"
      using assms False less by (auto simp: holds_def nxh)
    have "\<exists>c. cells ?h (last as) = Some c" using holds_alive [OF assms last_in_set [OF False]] by auto
    then obtain h' where h': "set_next (Some (last as)) (Some ?e) ?h = Inr h'" "nx h' = (nx ?h)(last as \<mapsto> Some ?e)"
      "data_at h' = data_at ?h" "q_fresh h' = Suc ?e" using set_next_alive [of ?h "last as"] by fastforce
    have "linked (nx h') (q_head q) as (Some ?e)" using linked_relink [OF as(1) False as(3)] h'(2) by simp
    moreover have "nx h' ?e = Some None" using less last_in_set [OF False] by (auto simp: h'(2) nxh)
    ultimately have "linked (nx h') (q_head q) (as @ [?e]) None" by (auto simp: linked_append)
    then show ?thesis using as h' data less False
      by (auto simp: queue_add_def holds_def Let_def)
  qed
qed

lemma queue_get_holds:
  assumes "holds q h (a # as)"
  shows "\<exists>q' h'. queue_get (q, h) = Inr (data_at h a, q', h') \<and> holds q' h' as \<and> (\<forall>b \<in> set as. data_at h' b = data_at h b)"
proof -
  from holds_alive [OF assms] obtain e where e: "cells h a = Some e" by auto
  let ?h = "h\<lparr>cells := (cells h)(a := None)\<rparr>"
  have l: "q_head q = Some a" "linked (nx h) (qe_next e) as None" "a \<notin> set as"
    using assms e by (auto simp: holds_def nx_def)
  have "nx ?h = (nx h)(a := None)" by (auto simp: nx_def)
  then have "linked (nx ?h) (qe_next e) as None" using l(2,3) by simp
  with assms e l show ?thesis
    by (auto simp: queue_get_def cell_at_def holds_def data_at_def)
qed

lemma queue_get_none: "holds q h [] \<Longrightarrow> queue_get (q, h) = Inr (None, q, h)"
  by (simp add: queue_get_def holds_def)

text \<open>A \<open>void *\<close> that is added is not \<open>NULL\<close>, which \<open>queue_get\<close> returns for an empty queue.\<close>

definition queue_items :: "queue \<times> qheap \<Rightarrow> nat list \<Rightarrow> bool" where
  "queue_items s xs \<longleftrightarrow> (\<exists>as. holds (fst s) (snd s) as \<and> map (data_at (snd s)) as = map Some xs)"

interpretation que: fifo "\<lambda>d. queue_add (Some d)" queue_get queue_items
proof
  fix s xs d
  assume "queue_items s xs"
  then obtain as where as: "holds (fst s) (snd s) as" "map (data_at (snd s)) as = map Some xs" by (auto simp: queue_items_def)
  from queue_add_holds [OF as(1), of "Some d"] obtain q' h' where r: "queue_add (Some d) s = Inr (q', h')"
    "holds q' h' (as @ [q_fresh (snd s)])" "data_at h' (q_fresh (snd s)) = Some d" "\<forall>a \<in> set as. data_at h' a = data_at (snd s) a"
    by auto
  then have "map (data_at h') as = map (data_at (snd s)) as" by simp
  then have "map (data_at h') (as @ [q_fresh (snd s)]) = map Some (xs @ [d])" using as(2) r(3) by (simp only: map_append) simp
  with r show "\<exists>s'. queue_add (Some d) s = Inr s' \<and> queue_items s' (xs @ [d])" unfolding queue_items_def
    by (intro exI [of _ "(q', h')"]) (metis fst_conv snd_conv)
next
  fix s x xs
  assume "queue_items s (x # xs)"
  then obtain a as where as: "holds (fst s) (snd s) (a # as)" "data_at (snd s) a = Some x" "map (data_at (snd s)) as = map Some xs"
    by (auto simp: queue_items_def)
  from queue_get_holds [OF as(1)] obtain q' h' where r: "queue_get s = Inr (Some x, q', h')" "holds q' h' as"
    "\<forall>b \<in> set as. data_at h' b = data_at (snd s) b" using as(2) by auto
  then have "map (data_at h') as = map Some xs" using as(3) by (metis map_eq_conv)
  with r show "\<exists>s'. queue_get s = Inr (Some x, s') \<and> queue_items s' xs" unfolding queue_items_def
    by (intro exI [of _ "(q', h')"]) auto
next
  fix s
  assume "queue_items s []"
  then show "queue_get s = Inr (None, s)" using queue_get_none [of "fst s" "snd s"] by (auto simp: queue_items_def)
qed

section \<open>Two queues\<close>

text \<open>The elements of the second queue behind those of the first.\<close>

lemma join_holds:
  assumes "holds d h as" "holds s h bs" "set as \<inter> set bs = {}" "as \<noteq> []" "bs \<noteq> []"
  shows "\<exists>h'. set_next (q_tail d) (q_head s) h = Inr h' \<and> linked (nx h') (q_head d) (as @ bs) None \<and>
    data_at h' = data_at h \<and> q_fresh h' = q_fresh h"
proof -
  from holds_alive [OF assms(1) last_in_set [OF assms(4)]] obtain e where "cells h (last as) = Some e" by blast
  from set_next_alive [OF this, of "q_head s"] obtain h' where h': "set_next (Some (last as)) (q_head s) h = Inr h'"
    "nx h' = (nx h)(last as \<mapsto> q_head s)" "data_at h' = data_at h" "q_fresh h' = q_fresh h" by blast
  have "linked ((nx h)(last as \<mapsto> q_head s)) (q_head d) (as @ bs) None"
    using assms by (intro linked_concat) (auto simp: holds_def)
  with h' assms(1,4) show ?thesis by (auto simp: holds_def)
qed

lemma queue_append_holds:
  assumes "holds d h as" "holds s h bs" "set as \<inter> set bs = {}"
  shows "\<exists>d' s' h'. queue_append d s h = Inr (d', s', h') \<and> holds d' h' (as @ bs) \<and> holds s' h' [] \<and> data_at h' = data_at h"
proof (cases "as = [] \<or> bs = []")
  case True
  with assms show ?thesis by (auto simp: queue_append_def holds_def)
next
  case False
  with join_holds [OF assms] obtain h' where h': "set_next (q_tail d) (q_head s) h = Inr h'"
    "linked (nx h') (q_head d) (as @ bs) None" "data_at h' = data_at h" "q_fresh h' = q_fresh h" by blast
  with assms False show ?thesis by (auto simp: queue_append_def holds_def)
qed

lemma queue_merge_holds:
  assumes "holds d h []" "holds q1 h as" "holds q2 h bs" "set as \<inter> set bs = {}"
  shows "\<exists>d' q1' q2' h'. queue_merge d q1 q2 h = Inr (d', q1', q2', h') \<and> holds d' h' (as @ bs) \<and>
    holds q1' h' [] \<and> holds q2' h' [] \<and> data_at h' = data_at h"
proof (cases "as = [] \<or> bs = []")
  case True
  with assms show ?thesis by (cases "bs = []") (auto simp: queue_merge_def holds_def Let_def)
next
  case False
  with join_holds [OF assms(2-4)] obtain h' where h': "set_next (q_tail q1) (q_head q2) h = Inr h'"
    "linked (nx h') (q_head q1) (as @ bs) None" "data_at h' = data_at h" "q_fresh h' = q_fresh h" by blast
  with assms False show ?thesis by (auto simp: queue_merge_def holds_def)
qed

lemma queue_move_holds:
  "holds d h [] \<Longrightarrow> holds s h as \<Longrightarrow> holds (fst (queue_move d s)) h as \<and> holds (snd (queue_move d s)) h []"
  by (auto simp: queue_move_def holds_def)

text \<open>Two queues with different elements, and what they contain.\<close>

definition two_queues :: "queue \<Rightarrow> queue \<Rightarrow> qheap \<Rightarrow> nat list \<Rightarrow> nat list \<Rightarrow> bool" where
  "two_queues q1 q2 h xs ys \<longleftrightarrow> (\<exists>as bs. holds q1 h as \<and> holds q2 h bs \<and> set as \<inter> set bs = {} \<and>
     map (data_at h) as = map Some xs \<and> map (data_at h) bs = map Some ys)"

text \<open>Claim C36 (refinement).  The queues are sequences: the elements that are added to an empty queue come out
  in the order in which they went in, and when a queue is appended to another one, or two queues are merged into an empty
  one, the elements of the first come out before those of the second, and the sources are empty.\<close>

theorem queues_are_sequences:
  assumes "two_queues q1 q2 h xs ys" and "elements q = 0"
  shows "(\<exists>s1 s2. each (\<lambda>d. queue_add (Some d)) zs (q, h) = Inr s1 \<and> draw queue_get (length zs) s1 = Inr (map Some zs, s2)) \<and>
    (\<exists>d s h' s2. queue_append q1 q2 h = Inr (d, s, h') \<and> elements s = 0 \<and>
      draw queue_get (length (xs @ ys)) (d, h') = Inr (map Some (xs @ ys), s2) \<and> queue_items s2 []) \<and>
    (\<exists>d s s' h' s2. queue_merge q q1 q2 h = Inr (d, s, s', h') \<and> elements s = 0 \<and> elements s' = 0 \<and>
      draw queue_get (length (xs @ ys)) (d, h') = Inr (map Some (xs @ ys), s2) \<and> queue_items s2 [])"
proof -
  have q: "holds q h []" using assms(2) by (simp add: holds_def)
  then have "queue_items (q, h) []" by (simp add: queue_items_def)
  from que.first_in_first_out [OF this, of zs] have add:
    "\<exists>s1 s2. each (\<lambda>d. queue_add (Some d)) zs (q, h) = Inr s1 \<and> draw queue_get (length zs) s1 = Inr (map Some zs, s2)" by blast
  from assms(1) obtain as bs where ab: "holds q1 h as" "holds q2 h bs" "set as \<inter> set bs = {}"
    "map (data_at h) (as @ bs) = map Some (xs @ ys)" by (auto simp: two_queues_def)
  have out: "\<exists>s2. draw queue_get (length (xs @ ys)) (d, h') = Inr (map Some (xs @ ys), s2) \<and> queue_items s2 []"
    if "holds d h' (as @ bs)" "data_at h' = data_at h" for d h'
  proof -
    have "queue_items (d, h') ((xs @ ys) @ [])" unfolding queue_items_def using that ab(4) by (metis append_Nil2 fst_conv snd_conv)
    from que.drawn [OF this] show ?thesis .
  qed
  from queue_append_holds [OF ab(1-3)] obtain d s h' where ap: "queue_append q1 q2 h = Inr (d, s, h')" "holds d h' (as @ bs)"
    "elements s = 0" "data_at h' = data_at h" by (auto simp: holds_def)
  from ap(1,3) out [OF ap(2,4)] have app: "\<exists>d s h' s2. queue_append q1 q2 h = Inr (d, s, h') \<and> elements s = 0 \<and>
      draw queue_get (length (xs @ ys)) (d, h') = Inr (map Some (xs @ ys), s2) \<and> queue_items s2 []" by blast
  from queue_merge_holds [OF q ab(1-3)] obtain d s s' h' where me: "queue_merge q q1 q2 h = Inr (d, s, s', h')"
    "holds d h' (as @ bs)" "elements s = 0" "elements s' = 0" "data_at h' = data_at h" by (auto simp: holds_def)
  from me(1,3,4) out [OF me(2,5)] have mer: "\<exists>d s s' h' s2. queue_merge q q1 q2 h = Inr (d, s, s', h') \<and> elements s = 0 \<and> elements s' = 0 \<and>
      draw queue_get (length (xs @ ys)) (d, h') = Inr (map Some (xs @ ys), s2) \<and> queue_items s2 []" by blast
  from add app mer show ?thesis by blast
qed

definition sample_heap :: qheap where
  "sample_heap = \<lparr>cells = [0 \<mapsto> \<lparr>qe_next = Some 1, qe_data = Some 5\<rparr>, 1 \<mapsto> \<lparr>qe_next = None, qe_data = Some 6\<rparr>,
     2 \<mapsto> \<lparr>qe_next = None, qe_data = Some 7\<rparr>], q_fresh = 3\<rparr>"

theorem queues_are_sequences_witness:
  "(\<exists>s1 s2. each (\<lambda>d. queue_add (Some d)) [8, 9] (queue_new, sample_heap) = Inr s1 \<and> draw queue_get 2 s1 = Inr ([Some 8, Some 9], s2)) \<and>
   (\<exists>d s h' s2. queue_append \<lparr>elements = 2, q_head = Some 0, q_tail = Some 1\<rparr> \<lparr>elements = 1, q_head = Some 2, q_tail = Some 2\<rparr> sample_heap =
      Inr (d, s, h') \<and> draw queue_get 3 (d, h') = Inr ([Some 5, Some 6, Some 7], s2)) \<and>
   (\<exists>d s s' h' s2. queue_merge queue_new \<lparr>elements = 2, q_head = Some 0, q_tail = Some 1\<rparr> \<lparr>elements = 1, q_head = Some 2, q_tail = Some 2\<rparr>
      sample_heap = Inr (d, s, s', h') \<and> draw queue_get 3 (d, h') = Inr ([Some 5, Some 6, Some 7], s2))"
proof -
  let ?q1 = "\<lparr>elements = 2, q_head = Some 0, q_tail = Some 1\<rparr>" and ?q2 = "\<lparr>elements = 1, q_head = Some 2, q_tail = Some 2\<rparr>"
  have "holds ?q1 sample_heap [0, 1]" "holds ?q2 sample_heap [2]" by (simp_all add: holds_def sample_heap_def nx_def)
  moreover have "map (data_at sample_heap) [0, 1] = map Some [5, 6]" "map (data_at sample_heap) [2] = map Some [7]"
    by (simp_all add: data_at_def sample_heap_def)
  ultimately have two: "two_queues ?q1 ?q2 sample_heap [5, 6] [7]" unfolding two_queues_def
    by (intro exI [of _ "[0, 1]"] exI [of _ "[2]"]) simp
  have "elements queue_new = 0" by (simp add: queue_new_def)
  from queues_are_sequences [OF two this, of "[8, 9]"] show ?thesis by (simp add: eval_nat_numeral del: draw.simps each.simps) blast
qed

section \<open>The lists\<close>

lemma list_length_eq: "list_length l = int (length l)"
proof -
  have "length_from i l = i + int (length l)" for i by (induction l arbitrary: i) auto
  then show ?thesis by (simp add: list_length_def)
qed

lemma list_reverse_eq: "list_reverse l = rev l"
proof -
  have "reverse_onto acc l = rev l @ acc" for acc by (induction l arbitrary: acc) auto
  then show ?thesis by (simp add: list_reverse_def)
qed

lemma at_from_eq: "at_from i l idx = (if i \<le> idx \<and> idx < i + int (length l) then Some (l ! nat (idx - i)) else None)"
proof (induction l arbitrary: i)
  case (Cons x l)
  have "nat (idx - i) = Suc (nat (idx - (i + 1)))" if "i < idx" using that by linarith
  with Cons.IH [of "i + 1"] show ?case by (cases "i = idx"; cases "i < idx") simp_all
qed simp

lemma list_at_eq: "list_at l idx = (if 0 \<le> idx \<and> idx < int (length l) then Some (l ! nat idx) else None)"
  by (simp add: list_at_def at_from_eq)

text \<open>A comparison function as \<open>qsort\<close> wants it: a total preorder.\<close>

definition ordering_fun :: "('a \<Rightarrow> 'a \<Rightarrow> int) \<Rightarrow> bool" where
  "ordering_fun c \<longleftrightarrow> (\<forall>x y. c x y > 0 \<longleftrightarrow> c y x < 0) \<and> (\<forall>x y z. c x y \<le> 0 \<longrightarrow> c y z \<le> 0 \<longrightarrow> c x z \<le> 0)"

lemma ordering_flip: "ordering_fun c \<Longrightarrow> c x y > 0 \<longleftrightarrow> c y x < 0"
  by (simp add: ordering_fun_def)

lemma ordering_refl: "ordering_fun c \<Longrightarrow> c x x = 0"
  using ordering_flip [of c x x] by linarith

lemma ordering_trans: "ordering_fun c \<Longrightarrow> c x y \<le> 0 \<Longrightarrow> c y z \<le> 0 \<Longrightarrow> c x z \<le> 0"
  by (auto simp: ordering_fun_def)

lemma ordering_below: "ordering_fun c \<Longrightarrow> c p m \<le> 0 \<Longrightarrow> c x m > 0 \<Longrightarrow> c p x < 0"
  using ordering_flip [of c x p] ordering_trans [of c x p m] by force

text \<open>One round: the first one of the greatest elements is taken out.\<close>

lemma take_max_first:
  assumes "ordering_fun c" and "take_max c pre m mid xs = (m', rest)"
    and "\<forall>p \<in> set pre. c p m < 0" and "\<forall>p \<in> set mid. c p m \<le> 0"
  shows "\<exists>us vs. pre @ m # mid @ xs = us @ m' # vs \<and> rest = us @ vs \<and> (\<forall>p \<in> set us. c p m' < 0) \<and> (\<forall>p \<in> set vs. c p m' \<le> 0)"
  using assms(2-4)
proof (induction xs arbitrary: pre m mid)
  case Nil
  then show ?case by auto
next
  case (Cons x xs)
  show ?case
  proof (cases "c x m > 0")
    case True
    have "\<forall>p \<in> set (pre @ m # mid). c p m \<le> 0" using Cons.prems ordering_refl [OF assms(1), of m] by fastforce
    then have "\<forall>p \<in> set (pre @ m # mid). c p x < 0" using ordering_below [OF assms(1) _ True] by blast
    then show ?thesis using Cons.IH [of "pre @ m # mid" x "[]"] Cons.prems(1) True by simp
  next
    case False
    then show ?thesis using Cons.IH [of pre m "mid @ [x]"] Cons.prems by simp
  qed
qed

text \<open>The cells that are sorted already are not smaller than those that are left.\<close>

lemma sort_onto_sorts:
  assumes c: "ordering_fun c"
  shows "sorted_wrt (\<lambda>x y. c x y \<le> 0) pc \<Longrightarrow> \<forall>x \<in> set xs. \<forall>y \<in> set pc. c x y \<le> 0 \<Longrightarrow>
    sorted_wrt (\<lambda>x y. c x y \<le> 0) (sort_onto c pc xs) \<and> mset (sort_onto c pc xs) = mset pc + mset xs \<and>
    filter (\<lambda>y. c y z = 0) (sort_onto c pc xs) = rev (filter (\<lambda>y. c y z = 0) xs) @ filter (\<lambda>y. c y z = 0) pc"
proof (induction "length xs" arbitrary: pc xs)
  case 0
  then show ?case by simp
next
  case (Suc n)
  then obtain x ys where xs: "xs = x # ys" by (cases xs) auto
  obtain m rest where tm: "take_max c [] x [] ys = (m, rest)" by (cases "take_max c [] x [] ys") blast
  from take_max_first [OF c tm] obtain us vs where uv: "xs = us @ m # vs" "rest = us @ vs"
    "\<forall>p \<in> set us. c p m < 0" "\<forall>p \<in> set vs. c p m \<le> 0" by (auto simp: xs)
  have len: "n = length rest" using Suc.hyps(2) uv by simp
  have so: "sort_onto c pc xs = sort_onto c (m # pc) rest" by (simp add: xs tm)
  have below: "\<forall>p \<in> set rest. c p m \<le> 0" using uv(2-4) by (auto intro: less_imp_le)
  have "sorted_wrt (\<lambda>x y. c x y \<le> 0) (m # pc)" using Suc.prems uv(1) by simp
  moreover have "\<forall>x \<in> set rest. \<forall>y \<in> set (m # pc). c x y \<le> 0" using Suc.prems(2) uv(1,2) below by auto
  moreover have "filter (\<lambda>y. c y z = 0) us = []" if "c m z = 0"
  proof -
    have "c p z \<noteq> 0" if "p \<in> set us" for p
      using ordering_trans [OF c, of m z p] ordering_flip [OF c, of m p] ordering_flip [OF c, of p z]
        uv(3) that \<open>c m z = 0\<close> ordering_flip [OF c, of z p] by force
    then show ?thesis by (auto simp: filter_empty_conv)
  qed
  ultimately show ?case using Suc.hyps(1) [OF len, of "m # pc"] uv(1,2) so by auto
qed

text \<open>\<open>list_sort\<close>, with a comparison that is a total preorder, gives a list that is sorted
  in ascending order and has the same elements; the elements that compare as equal come in the opposite of
  their original order.\<close>

lemma list_sort_sorts:
  assumes "ordering_fun compar"
  shows "sorted_wrt (\<lambda>x y. compar x y \<le> 0) (list_sort compar l) \<and> mset (list_sort compar l) = mset l \<and>
    filter (\<lambda>y. compar y z = 0) (list_sort compar l) = rev (filter (\<lambda>y. compar y z = 0) l)"
  using sort_onto_sorts [OF assms, of "[]" l z] by (simp add: list_sort_def)

text \<open>Pairs by their first component.\<close>

definition by_first :: "nat \<times> nat \<Rightarrow> nat \<times> nat \<Rightarrow> int" where
  "by_first x y = int (fst x) - int (fst y)"

lemma list_sort_sorts_witness:
  "list_sort by_first [(2, 0), (1, 0), (2, 1), (1, 1)] = [(1, 1), (1, 0), (2, 1), (2, 0)] \<and>
   sorted_wrt (\<lambda>x y. by_first x y \<le> 0) (list_sort by_first [(2, 0), (1, 0), (2, 1), (1, 1)]) \<and>
   filter (\<lambda>y. by_first y (2, 0) = 0) (list_sort by_first [(2, 0), (1, 0), (2, 1), (1, 1)]) = [(2, 1), (2, 0)]"
proof -
  have "ordering_fun by_first" by (auto simp: ordering_fun_def by_first_def)
  from list_sort_sorts [OF this, of "[(2, 0), (1, 0), (2, 1), (1, 1)]" "(2, 0)"] show ?thesis
    by (simp add: list_sort_def by_first_def)
qed

section \<open>The arrays\<close>

definition array_ok :: "array \<Rightarrow> bool" where
  "array_ok a \<longleftrightarrow> length (ar_block a) = ar_size a \<and> ar_length a \<le> ar_size a \<and> 0 < ar_grow a"

definition array_list :: "array \<Rightarrow> nat option list" where
  "array_list a = take (ar_length a) (ar_block a)"

lemma new_array_ok: "0 < grow \<Longrightarrow> array_ok (new_array n grow) \<and> array_list (new_array n grow) = []"
  by (simp add: array_ok_def array_list_def new_array_def)

lemma array_add_list:
  assumes "array_ok a"
  shows "\<exists>a'. array_add x a = Inr a' \<and> array_ok a' \<and> array_list a' = array_list a @ [x]"
proof -
  let ?a = "if ar_length a = ar_size a then realloc (ar_size a + ar_grow a) a else a"
  have a: "array_ok ?a" "ar_length ?a < length (ar_block ?a)" "ar_length ?a = ar_length a" "array_list ?a = array_list a"
    using assms by (auto simp: array_ok_def realloc_def array_list_def)
  let ?b = "?a\<lparr>ar_block := (ar_block ?a)[ar_length ?a := x], ar_length := ar_length ?a + 1\<rparr>"
  have "array_add x a = Inr ?b" using a(2) by (simp add: array_add_def Let_def)
  moreover have "array_ok ?b" using a by (simp add: array_ok_def)
  moreover have "array_list ?b = array_list a @ [x]" using a(2,4) by (simp add: array_list_def take_Suc_list_update)
  ultimately show ?thesis by blast
qed

lemma array_shrink_list:
  assumes "array_ok a"
  shows "\<exists>a'. array_shrink a = Inr a' \<and> array_ok a' \<and> array_list a' = array_list a"
proof -
  have "ar_length a mod ar_grow a < ar_grow a" using assms by (simp add: array_ok_def)
  then have "ar_length a \<le> ar_length a - ar_length a mod ar_grow a + ar_grow a" by linarith
  then show ?thesis using assms by (auto simp: array_shrink_def array_ok_def realloc_def array_list_def min_def)
qed

text \<open>An array that cannot grow is overrun by the first element that does not fit.\<close>

lemma array_without_growth: "length (ar_block a) = ar_size a \<Longrightarrow> ar_length a = ar_size a \<Longrightarrow> ar_grow a = 0 \<Longrightarrow> array_add x a = Inl OutOfBounds"
  by (simp add: array_add_def realloc_def)

end
