(* ===== verification/Rule_Functions.thy ===== *)
theory Rule_Functions
  imports Builtins Engine
begin

text \<open>
  The built-in functions of \<open>src/lang.c\<close> that work on the threads of the engine: \<open>kill_threads\<close> and
  \<open>cut\<close>.  They are called by the bytecode of a state instance.  The flag \<open>SF_PRUNED\<close>, which no code
  of the repository reads, is the list of the states that get it.
\<close>

text \<open>A function of the machine that runs for a state instance.\<close>

definition in_machine :: "engine_cfg \<Rightarrow> nat \<Rightarrow> builtin \<Rightarrow> engine \<Rightarrow> fault + engine" where
  "in_machine cfg a f s =
     bnd (inst_at a s) (\<lambda>i. bnd (rinst_at (si_rule i) s) (\<lambda>r. bnd (at (cfg_statics cfg) (ri_rule r)) (\<lambda>statics.
     bnd (f ((cfg_vm cfg)\<lparr>static_env := statics, field_vals := global_fields s\<rparr>) (vm s)) (\<lambda>m. Inr (s\<lparr>vm := m\<rparr>)))))"

definition issdl_kill_threads :: "engine_cfg \<Rightarrow> nat \<Rightarrow> engine \<Rightarrow> fault + engine" where
  "issdl_kill_threads cfg a s =
     bnd (inst_at a s) (\<lambda>i. bnd (kill_queue (si_rule i) (cur_retrig_qh s) s) (in_machine cfg a push_return_true))"

section \<open>Cuts\<close>

text \<open>The threads of a state that are not limited to one event are marked.\<close>

fun cut_threads :: "nat list \<Rightarrow> engine \<Rightarrow> fault + engine" where
  "cut_threads [] s = Inr s"
| "cut_threads (t # ts) s =
     bnd (thread_at t s) (\<lambda>x.
     bnd (if \<not> t_onlyonce x then upd_thread t (\<lambda>x. x\<lparr>t_killed := True\<rparr>) s else Inr s) (cut_threads ts))"

text \<open>The result is the list of the states that get the flag; \<open>None\<close> is \<open>NULL\<close>, which the code tests before
  it calls itself.\<close>

fun do_recursive_cut :: "nat \<Rightarrow> nat option \<Rightarrow> engine \<Rightarrow> fault + nat list \<times> engine" where
  "do_recursive_cut n None s = Inr ([], s)"
| "do_recursive_cut 0 (Some a) s = Inl NoReturn"
| "do_recursive_cut (Suc n) (Some a) s =
     bnd (inst_at a s) (\<lambda>i.
     bnd (chain (en_fresh s) (threads_st s) t_next_in_inst (si_threads i)) (\<lambda>ts.
     bnd (cut_threads ts s) (\<lambda>s.
     bnd (do_recursive_cut n (si_first_child i) s) (\<lambda>(ps, s).
     bnd (do_recursive_cut n (si_next_sibling i) s) (\<lambda>(qs, s).
     Inr (a # ps @ qs, s))))))"

text \<open>The ancestor with the name, or the first state of the rule.\<close>

fun find_cut :: "nat \<Rightarrow> engine_cfg \<Rightarrow> byte list \<Rightarrow> nat \<Rightarrow> engine \<Rightarrow> fault + nat" where
  "find_cut 0 cfg str a s = Inl NoReturn"
| "find_cut (Suc n) cfg str a s =
     bnd (inst_at a s) (\<lambda>i. case si_parent i of None \<Rightarrow> Inr a | Some p \<Rightarrow>
     bnd (state_of cfg a s) (\<lambda>st. case st_name st of None \<Rightarrow> Inl NullDeref | Some name \<Rightarrow>
     if strcmp_eq (c_str str) name then Inr a else find_cut n cfg str p s))"

text \<open>With a parameter of another type nothing is pushed.\<close>

definition issdl_cut :: "engine_cfg \<Rightarrow> nat \<Rightarrow> engine \<Rightarrow> fault + nat list \<times> engine" where
  "issdl_cut cfg a s =
     (let (p, m) = pop (vm s); s = s\<lparr>vm := m\<rparr> in
      bnd (deref m p) (\<lambda>v. case vdata v of
        VStr str \<Rightarrow>
          bnd (find_cut (en_fresh s) cfg str a s) (\<lambda>b.
          bnd (do_recursive_cut (en_fresh s) (Some b) s) (\<lambda>(ps, s).
          bnd (in_machine cfg a push_return_true s) (\<lambda>s. Inr (ps, s))))
      | _ \<Rightarrow> Inr ([], s)))"

section \<open>Past values\<close>

text \<open>The walk of \<open>pastval\<close> over the parents; \<open>n\<close> says whether the pointer that is used as a counter is not \<open>NULL\<close>.\<close>

fun past_from :: "nat \<Rightarrow> nat \<Rightarrow> nat option \<Rightarrow> bool \<Rightarrow> engine \<Rightarrow> fault + nat option" where
  "past_from k v None n s = Inr None"
| "past_from 0 v (Some a) n s = Inl NoReturn"
| "past_from (Suc k) v (Some a) n s = bnd (inst_at a s) (\<lambda>i. bnd (env_entry (si_current i) v) (\<lambda>p.
     if p \<noteq> None \<and> n then past_from k v (si_parent i) n s else Inr (Some a)))"

definition past_value :: "nat \<Rightarrow> engine \<Rightarrow> nat \<Rightarrow> bool \<Rightarrow> fault + unit" where
  "past_value a s v n = bnd (inst_at a s) (\<lambda>i. if si_parent i = None then Inr ()
     else bnd (env_entry (si_current i) v) (\<lambda>p.
       bnd (past_from (en_fresh s) v (si_parent i) (n \<or> p \<noteq> None) s) (\<lambda>_. Inr ())))"

section \<open>What the table of functions needs of the engine\<close>

definition engine_functions :: "engine_cfg \<Rightarrow> nat \<Rightarrow> engine \<Rightarrow> engine_parts" where
  "engine_functions cfg a s =
     \<lparr>ep_kill_threads = bnd (inst_at a s) (\<lambda>i. bnd (kill_queue (si_rule i) (cur_retrig_qh s) s) (\<lambda>_. Inr ())),
      ep_cut = (\<lambda>str. bnd (find_cut (en_fresh s) cfg str a s) (\<lambda>b.
        bnd (do_recursive_cut (en_fresh s) (Some b) s) (\<lambda>_. Inr ()))),
      ep_var_names = (case bnd (inst_at a s) (\<lambda>i. rule_at cfg (si_rule i) s) of Inl _ \<Rightarrow> []
        | Inr r \<Rightarrow> take (nat (dynamic_env_sz r)) (var_name r)),
      ep_past_value = past_value a s\<rparr>"

end
