(* ===== verification/Rule_Functions_Laws.thy ===== *)
theory Rule_Functions_Laws
  imports Rule_Functions Engine_Laws Hash_Table_Laws
begin

text \<open>
  What a cut and \<open>kill_threads\<close> do: which threads are marked, that nothing else changes, and that
  the recursion ends on a tree.
\<close>

section \<open>Marking\<close>

definition cut_marked :: "nat list \<Rightarrow> engine \<Rightarrow> nat \<Rightarrow> wait_thread option" where
  "cut_marked ts s = (\<lambda>t. map_option (\<lambda>x. if t \<in> set ts \<and> \<not> t_onlyonce x then x\<lparr>t_killed := True\<rparr> else x) (threads_st s t))"

lemma cut_marked_Nil: "cut_marked [] s = threads_st s"
  by (simp add: cut_marked_def fun_eq_iff option.map_ident)

lemma cut_marked_marked: "cut_marked us (s\<lparr>threads_st := cut_marked ts s\<rparr>) = cut_marked (ts @ us) s"
  by (auto simp: cut_marked_def fun_eq_iff map_option_case split: option.splits)

lemma cut_marked_next: "map_option t_next_in_inst (cut_marked ts s t) = map_option t_next_in_inst (threads_st s t)"
  by (cases "threads_st s t") (simp_all add: cut_marked_def)

lemma cut_threads_result: "cut_threads ts s = Inr s' \<Longrightarrow> s' = s\<lparr>threads_st := cut_marked ts s\<rparr>"
proof (induction ts arbitrary: s)
  case Nil
  then show ?case by (simp add: cut_marked_Nil)
next
  case (Cons t ts)
  from Cons.prems obtain x s1 where x: "threads_st s t = Some x"
    and s1: "(if \<not> t_onlyonce x then upd_thread t (\<lambda>x. x\<lparr>t_killed := True\<rparr>) s else Inr s) = Inr s1"
    and r: "cut_threads ts s1 = Inr s'" by (auto simp: access_defs)
  have "s1 = s\<lparr>threads_st := cut_marked [t] s\<rparr>"
  proof (cases "t_onlyonce x")
    case True
    then have "cut_marked [t] s u = threads_st s u" for u
      using x by (cases "threads_st s u") (auto simp: cut_marked_def)
    then have "cut_marked [t] s = threads_st s" by blast
    with s1 True show ?thesis by simp
  next
    case False
    then have "cut_marked [t] s u = ((threads_st s)(t \<mapsto> x\<lparr>t_killed := True\<rparr>)) u" for u
      using x by (cases "threads_st s u") (auto simp: cut_marked_def)
    then have "cut_marked [t] s = (threads_st s)(t \<mapsto> x\<lparr>t_killed := True\<rparr>)" by blast
    with s1 False x show ?thesis by (auto simp: upd_thread_def access_defs)
  qed
  with Cons.IH [OF r] show ?case using cut_marked_marked [of ts "[t]" s] by simp
qed

section \<open>The states of a cut\<close>

text \<open>What the recursion reaches from a state: its first child and its next sibling, and so on.\<close>

inductive cut_reach :: "engine \<Rightarrow> nat \<Rightarrow> nat \<Rightarrow> bool" for s :: engine where
  here: "cut_reach s a a"
| child: "insts_st s a = Some i \<Longrightarrow> si_first_child i = Some c \<Longrightarrow> cut_reach s c b \<Longrightarrow> cut_reach s a b"
| sibling: "insts_st s a = Some i \<Longrightarrow> si_next_sibling i = Some c \<Longrightarrow> cut_reach s c b \<Longrightarrow> cut_reach s a b"

inductive_cases cut_reachE: "cut_reach s a b"

lemma cut_reach_insts: "cut_reach s a b \<Longrightarrow> insts_st s' = insts_st s \<Longrightarrow> cut_reach s' a b"
  by (induction rule: cut_reach.induct) (auto intro: cut_reach.intros)

text \<open>The threads in the list of a state.\<close>

definition threads_of :: "engine \<Rightarrow> nat \<Rightarrow> nat list" where
  "threads_of s a = (case insts_st s a of None \<Rightarrow> [] | Some i \<Rightarrow>
     (case chain (en_fresh s) (threads_st s) t_next_in_inst (si_threads i) of Inl _ \<Rightarrow> [] | Inr ts \<Rightarrow> ts))"

lemma threads_of_marked: "threads_of (s\<lparr>threads_st := cut_marked ts s\<rparr>) = threads_of s"
  using chain_cong [of t_next_in_inst "cut_marked ts s" "threads_st s", OF cut_marked_next]
  by (simp add: threads_of_def fun_eq_iff cong: option.case_cong)

definition reached_from :: "engine \<Rightarrow> nat option \<Rightarrow> nat set" where
  "reached_from s p = (case p of None \<Rightarrow> {} | Some a \<Rightarrow> {b. cut_reach s a b})"

lemma reached_from_Some:
  "insts_st s a = Some i \<Longrightarrow>
   reached_from s (Some a) = insert a (reached_from s (si_first_child i) \<union> reached_from s (si_next_sibling i))"
  by (auto simp: reached_from_def intro: cut_reach.intros elim: cut_reachE split: option.splits)

lemma do_recursive_cut_result:
  "do_recursive_cut n p s = Inr (ps, s') \<Longrightarrow>
   set ps = reached_from s p \<and> s' = s\<lparr>threads_st := cut_marked (concat (map (threads_of s) ps)) s\<rparr>"
proof (induction n p s arbitrary: ps s' rule: do_recursive_cut.induct)
  case (1 n s)
  then show ?case by (simp add: reached_from_def cut_marked_Nil)
next
  case (3 n a s)
  from "3.prems" obtain i ts s1 qs1 s2 qs2 where i: "insts_st s a = Some i"
    and ts: "chain (en_fresh s) (threads_st s) t_next_in_inst (si_threads i) = Inr ts"
    and s1: "cut_threads ts s = Inr s1"
    and c: "do_recursive_cut n (si_first_child i) s1 = Inr (qs1, s2)"
    and d: "do_recursive_cut n (si_next_sibling i) s2 = Inr (qs2, s')"
    and ps: "ps = a # qs1 @ qs2"
    by (auto simp: inst_at_def lookup_def split: option.splits)
  have reach: "reached_from s0 = reached_from s" if "insts_st s0 = insts_st s" for s0
    using cut_reach_insts [of s0 _ _ s] cut_reach_insts [of s _ _ s0] that
    by (auto simp: reached_from_def fun_eq_iff split: option.splits)
  have at: "inst_at a s = Inr i" using i by (simp add: inst_at_def lookup_def)
  have e1: "s1 = s\<lparr>threads_st := cut_marked ts s\<rparr>" using cut_threads_result [OF s1] .
  from "3.IH"(1) [OF at ts s1 c] have r1: "set qs1 = reached_from s1 (si_first_child i)"
    "s2 = s1\<lparr>threads_st := cut_marked (concat (map (threads_of s1) qs1)) s1\<rparr>" by auto
  then have e2: "s2 = s\<lparr>threads_st := cut_marked (ts @ concat (map (threads_of s) qs1)) s\<rparr>"
    by (simp add: e1 threads_of_marked cut_marked_marked)
  from "3.IH"(2) [OF at ts s1 c refl d] have r2: "set qs2 = reached_from s2 (si_next_sibling i)"
    "s' = s2\<lparr>threads_st := cut_marked (concat (map (threads_of s2) qs2)) s2\<rparr>" by auto
  have "threads_of s a = ts" using i ts by (simp add: threads_of_def)
  then have "s' = s\<lparr>threads_st := cut_marked (concat (map (threads_of s) ps)) s\<rparr>"
    using r2(2) by (simp add: e2 threads_of_marked cut_marked_marked ps)
  moreover have "set ps = reached_from s (Some a)"
    using r1(1) r2(1) reach [of s1] reach [of s2] by (simp add: e1 e2 ps reached_from_Some [OF i] Un_assoc)
  ultimately show ?case by blast
qed simp

text \<open>The recursion ends when every step goes to a smaller number of some ranking, as in a tree.\<close>

lemma cut_threads_returns: "\<forall>t \<in> set ts. threads_st s t \<noteq> None \<Longrightarrow> \<exists>s'. cut_threads ts s = Inr s'"
proof (induction ts arbitrary: s)
  case (Cons t ts)
  from Cons.prems obtain x where x: "threads_st s t = Some x" by auto
  let ?s = "if \<not> t_onlyonce x then s\<lparr>threads_st := (threads_st s)(t \<mapsto> x\<lparr>t_killed := True\<rparr>)\<rparr> else s"
  have "\<exists>s'. cut_threads ts ?s = Inr s'" using Cons.prems by (intro Cons.IH) auto
  then show ?case using x by (auto simp: access_defs upd_thread_def split: if_splits)
qed simp

lemma chain_alive: "chain n st nxt p = Inr ts \<Longrightarrow> t \<in> set ts \<Longrightarrow> st t \<noteq> None"
proof (induction n arbitrary: p ts)
  case 0
  then show ?case by (cases p) auto
next
  case (Suc n)
  then show ?case by (cases p) (auto simp: lookup_def split: option.splits)
qed

definition cut_tree :: "engine \<Rightarrow> (nat \<Rightarrow> nat) \<Rightarrow> bool" where
  "cut_tree s rank \<longleftrightarrow> (\<forall>a i. insts_st s a = Some i \<longrightarrow>
     (\<exists>ts. chain (en_fresh s) (threads_st s) t_next_in_inst (si_threads i) = Inr ts) \<and>
     (\<forall>c. si_first_child i = Some c \<or> si_next_sibling i = Some c \<longrightarrow> insts_st s c \<noteq> None \<and> rank c < rank a))"

lemma cut_tree_marked: "cut_tree s rank \<Longrightarrow> cut_tree (s\<lparr>threads_st := cut_marked ts s\<rparr>) rank"
  using chain_cong [of t_next_in_inst "cut_marked ts s" "threads_st s", OF cut_marked_next] by (simp add: cut_tree_def)

lemma do_recursive_cut_returns:
  "cut_tree s rank \<Longrightarrow> (\<And>a. p = Some a \<Longrightarrow> insts_st s a \<noteq> None \<and> rank a < n) \<Longrightarrow> \<exists>r. do_recursive_cut n p s = Inr r"
proof (induction n p s rule: do_recursive_cut.induct)
  case (3 n a s)
  then obtain i where i: "insts_st s a = Some i" "rank a < Suc n" by auto
  note tree = "3.prems"(1) [unfolded cut_tree_def, rule_format, OF i(1)]
  from tree obtain ts where ts: "chain (en_fresh s) (threads_st s) t_next_in_inst (si_threads i) = Inr ts" by blast
  obtain s1 where s1: "cut_threads ts s = Inr s1" using cut_threads_returns [of ts s] chain_alive [OF ts] by blast
  note e1 = cut_threads_result [OF s1]
  have at: "inst_at a s = Inr i" using i by (simp add: inst_at_def lookup_def)
  have sub: "insts_st s c \<noteq> None \<and> rank c < n" if "si_first_child i = Some c \<or> si_next_sibling i = Some c" for c
    using tree that i(2) by fastforce
  have "cut_tree s1 rank" unfolding e1 by (rule cut_tree_marked [OF "3.prems"(1)])
  then obtain ps s2 where c: "do_recursive_cut n (si_first_child i) s1 = Inr (ps, s2)"
    using "3.IH"(1) [OF at ts s1] sub by (fastforce simp: e1)
  from do_recursive_cut_result [OF c] have e2: "s2 = s1\<lparr>threads_st := cut_marked (concat (map (threads_of s1) ps)) s1\<rparr>" by blast
  have "cut_tree s2 rank" unfolding e2 by (rule cut_tree_marked [OF \<open>cut_tree s1 rank\<close>])
  then obtain r where "do_recursive_cut n (si_next_sibling i) s2 = Inr r"
    using "3.IH"(2) [OF at ts s1 c refl] sub by (fastforce simp: e1 e2)
  with at ts s1 c show ?case by (cases r) simp
qed auto

section \<open>The functions\<close>

lemma in_machine_same: "in_machine cfg a f s = Inr s' \<Longrightarrow> \<exists>m. s' = s\<lparr>vm := m\<rparr>"
  by (auto simp: in_machine_def)

lemma threads_of_vm: "threads_of (s\<lparr>vm := m\<rparr>) = threads_of s"
  by (simp add: threads_of_def fun_eq_iff cong: option.case_cong)

lemma cut_reach_vm: "cut_reach (s\<lparr>vm := m\<rparr>) a b \<longleftrightarrow> cut_reach s a b"
  using cut_reach_insts [of "s\<lparr>vm := m\<rparr>" a b s] cut_reach_insts [of s a b "s\<lparr>vm := m\<rparr>"] by auto

text \<open>The chain of the parents.\<close>

text \<open>The parents of a state instance, counted from it, and the name of the state of one.\<close>

primrec parent_of :: "engine \<Rightarrow> nat \<Rightarrow> nat \<Rightarrow> nat option" where
  "parent_of s 0 a = Some a"
| "parent_of s (Suc k) a = (case insts_st s a of None \<Rightarrow> None | Some i \<Rightarrow>
     (case si_parent i of None \<Rightarrow> None | Some p \<Rightarrow> parent_of s k p))"

definition state_named :: "engine_cfg \<Rightarrow> engine \<Rightarrow> byte list \<Rightarrow> nat \<Rightarrow> bool" where
  "state_named cfg s str a \<longleftrightarrow> (\<exists>st name. state_of cfg a s = Inr st \<and> st_name st = Some name \<and> c_str str = name)"

lemma find_cut_result:
  "find_cut n cfg str a s = Inr b \<Longrightarrow> \<exists>k. parent_of s k a = Some b \<and>
     (\<forall>j < k. \<forall>c. parent_of s j a = Some c \<longrightarrow> \<not> state_named cfg s str c) \<and>
     (\<exists>i. insts_st s b = Some i \<and> (si_parent i = None \<or> state_named cfg s str b))"
proof (induction n arbitrary: a)
  case (Suc n)
  from Suc.prems obtain i where i: "insts_st s a = Some i" by (auto simp: inst_at_def lookup_def split: option.splits)
  show ?case
  proof (cases "si_parent i")
    case None
    with Suc.prems i show ?thesis by (intro exI [of _ 0]) (auto simp: inst_at_def lookup_def)
  next
    case (Some p)
    with Suc.prems i obtain st name where st: "state_of cfg a s = Inr st" "st_name st = Some name"
      "(if strcmp_eq (c_str str) name then Inr a else find_cut n cfg str p s) = Inr b"
      by (auto simp: inst_at_def lookup_def split: option.splits)
    show ?thesis
    proof (cases "c_str str = name")
      case True
      with st i show ?thesis by (intro exI [of _ 0]) (auto simp: strcmp_eq_iff state_named_def)
    next
      case False
      with st(3) have "find_cut n cfg str p s = Inr b" by (simp add: strcmp_eq_iff)
      from Suc.IH [OF this] obtain k where k: "parent_of s k p = Some b"
        "\<forall>j < k. \<forall>c. parent_of s j p = Some c \<longrightarrow> \<not> state_named cfg s str c"
        "\<exists>i. insts_st s b = Some i \<and> (si_parent i = None \<or> state_named cfg s str b)" by blast
      have "\<not> state_named cfg s str c" if "j < Suc k" "parent_of s j a = Some c" for j c
        using that k(2) st False i Some by (cases j) (auto simp: state_named_def)
      with k i Some show ?thesis by (intro exI [of _ "Suc k"]) auto
    qed
  qed
qed simp

lemma state_of_vm: "state_of cfg a (s\<lparr>vm := m\<rparr>) = state_of cfg a s"
  by (simp add: state_of_def rule_at_def inst_at_def rinst_at_def)

lemma parent_of_vm: "parent_of (s\<lparr>vm := m\<rparr>) k a = parent_of s k a"
  by (induction k arbitrary: a) (simp_all cong: option.case_cong)

lemma in_machine_result: "in_machine cfg a f s = Inr s' \<Longrightarrow> \<exists>c m. f c (vm s) = Inr m \<and> s' = s\<lparr>vm := m\<rparr>"
  by (auto simp: in_machine_def)

text \<open>
  Claim C18 (functional).  \<open>cut\<close> with the name of a state: the destination is the first state with this name on the way
  from the state itself over its parents, and the first state of the rule if there is none; the name of that
  one is not looked at.  The states that are pruned are those that are reached from the destination through first children
  and next siblings, so the younger siblings of the destination are among them.  Marked are exactly the threads in
  the lists of these states that are not limited to one event; those that are limited to one event (\<open>THREAD_ONLYONCE\<close>)
  are exempt.  Then true is pushed, and apart from the machine and the marks nothing is changed.
\<close>

theorem cut_kills_what_it_reaches:
  assumes "issdl_cut cfg a s = Inr (ps, s')" and "pop (vm s) = (p, m)" and "deref m p = Inr v" and "vdata v = VStr str"
  shows "\<exists>k b i m'. parent_of s k a = Some b \<and> insts_st s b = Some i \<and> (si_parent i = None \<or> state_named cfg s str b) \<and>
    (\<forall>j < k. \<forall>c. parent_of s j a = Some c \<longrightarrow> \<not> state_named cfg s str c) \<and>
    set ps = {c. cut_reach s b c} \<and> (\<exists>c. push_return_true c m = Inr m') \<and>
    s' = s\<lparr>vm := m', threads_st := \<lambda>t. map_option (\<lambda>x.
      if (\<exists>c \<in> set ps. t \<in> set (threads_of s c)) \<and> \<not> t_onlyonce x then x\<lparr>t_killed := True\<rparr> else x) (threads_st s t)\<rparr>"
proof -
  let ?s = "s\<lparr>vm := m\<rparr>"
  from assms obtain b s2 where b: "find_cut (en_fresh s) cfg str a ?s = Inr b"
    and c: "do_recursive_cut (en_fresh s) (Some b) ?s = Inr (ps, s2)"
    and e: "in_machine cfg a push_return_true s2 = Inr s'"
    by (auto simp: issdl_cut_def Let_def)
  from do_recursive_cut_result [OF c] have ps: "set ps = {c. cut_reach s b c}"
    and s2: "s2 = ?s\<lparr>threads_st := cut_marked (concat (map (threads_of s) ps)) ?s\<rparr>"
    using cut_reach_vm [of m s b] by (simp_all add: reached_from_def threads_of_vm fun_eq_iff set_eq_iff)
  from in_machine_result [OF e] obtain c m' where m': "push_return_true c m = Inr m'" "s' = s2\<lparr>vm := m'\<rparr>"
    by (auto simp: s2)
  have name: "state_named cfg ?s str = state_named cfg s str" by (simp add: fun_eq_iff state_named_def state_of_vm)
  from find_cut_result [OF b] obtain k i where "parent_of s k a = Some b" "insts_st s b = Some i"
    "si_parent i = None \<or> state_named cfg s str b" "\<forall>j < k. \<forall>c. parent_of s j a = Some c \<longrightarrow> \<not> state_named cfg s str c"
    unfolding parent_of_vm name by auto
  moreover have "s' = s\<lparr>vm := m', threads_st := \<lambda>t. map_option (\<lambda>x.
      if (\<exists>c \<in> set ps. t \<in> set (threads_of s c)) \<and> \<not> t_onlyonce x then x\<lparr>t_killed := True\<rparr> else x) (threads_st s t)\<rparr>"
    by (simp add: m'(2) s2 cut_marked_def)
  ultimately show ?thesis using ps m'(1) by blast
qed

text \<open>\<open>kill_threads\<close> marks the threads of its rule instance in the current queue only.\<close>

lemma issdl_kill_threads_exact:
  assumes "issdl_kill_threads cfg a s = Inr s'"
  shows "\<exists>i ts m. insts_st s a = Some i \<and> chain (en_fresh s) (threads_st s) t_next (cur_retrig_qh s) = Inr ts \<and>
    s' = s\<lparr>threads_st := marked (si_rule i) ts s, vm := m\<rparr>"
proof -
  from assms obtain i s1 where i: "insts_st s a = Some i" "kill_queue (si_rule i) (cur_retrig_qh s) s = Inr s1"
    "in_machine cfg a push_return_true s1 = Inr s'"
    by (auto simp: issdl_kill_threads_def inst_at_def lookup_def split: option.splits)
  from kill_queue_result [OF i(2)] in_machine_same [OF i(3)] i(1) show ?thesis by auto
qed

section \<open>The functions in the table\<close>

text \<open>What the table of theory \<open>Builtins\<close> has for \<open>kill_threads\<close> and \<open>cut\<close> does to the machine what these do.\<close>

lemma table_kill_threads:
  assumes "issdl_kill_threads cfg a s = Inr s'"
  shows "\<exists>c. machine_kill_threads (engine_functions cfg a s) c (vm s) = Inr (vm s')"
proof -
  from assms obtain i s1 where i: "inst_at a s = Inr i" "kill_queue (si_rule i) (cur_retrig_qh s) s = Inr s1"
    "in_machine cfg a push_return_true s1 = Inr s'" by (auto simp: issdl_kill_threads_def)
  from kill_queue_result [OF i(2)] have "vm s1 = vm s" by auto
  with in_machine_result [OF i(3)] i(1,2) show ?thesis by (auto simp: machine_kill_threads_def engine_functions_def)
qed

lemma inst_at_vm: "inst_at a (s\<lparr>vm := m\<rparr>) = inst_at a s"
  by (simp add: inst_at_def)

lemma find_cut_vm: "find_cut n cfg str a (s\<lparr>vm := m\<rparr>) = find_cut n cfg str a s"
  by (induction n arbitrary: a) (simp_all add: inst_at_vm state_of_vm bnd_def split: sum.split option.split)

lemma upd_thread_vm: "upd_thread t f (s\<lparr>vm := m\<rparr>) = bnd (upd_thread t f s) (\<lambda>s. Inr (s\<lparr>vm := m\<rparr>))"
  by (simp add: upd_thread_def access_defs lookup_def bnd_def split: sum.split option.split)

lemma cut_threads_vm: "cut_threads ts (s\<lparr>vm := m\<rparr>) = bnd (cut_threads ts s) (\<lambda>s. Inr (s\<lparr>vm := m\<rparr>))"
proof (induction ts arbitrary: s)
  case (Cons t ts)
  have "thread_at t (s\<lparr>vm := m\<rparr>) = thread_at t s" by (simp add: thread_at_def)
  with Cons.IH show ?case by (cases "thread_at t s") (auto simp: upd_thread_vm bnd_assoc)
qed simp

lemma do_recursive_cut_vm:
  "do_recursive_cut n p (s\<lparr>vm := m\<rparr>) = bnd (do_recursive_cut n p s) (\<lambda>(ps, s). Inr (ps, s\<lparr>vm := m\<rparr>))"
proof (induction n arbitrary: p s)
  case 0
  then show ?case by (cases p) simp_all
next
  case (Suc n)
  show ?case
  proof (cases p)
    case (Some a)
    then show ?thesis by (simp add: inst_at_vm cut_threads_vm bnd_assoc case_prod_beta Suc.IH)
  qed simp
qed

lemma table_cut:
  assumes "issdl_cut cfg a s = Inr (ps, s')"
  shows "\<exists>c. machine_cut (engine_functions cfg a s) c (vm s) = Inr (vm s')"
proof -
  obtain p m where p: "pop (vm s) = (p, m)" by (cases "pop (vm s)")
  let ?s = "s\<lparr>vm := m\<rparr>"
  from assms p obtain v where v: "deref m p = Inr v" by (auto simp: issdl_cut_def Let_def)
  show ?thesis
  proof (cases "\<exists>str. vdata v = VStr str")
    case True
    then obtain str where str: "vdata v = VStr str" by blast
    with assms p v obtain b s2 where b: "find_cut (en_fresh s) cfg str a ?s = Inr b"
      and c: "do_recursive_cut (en_fresh s) (Some b) ?s = Inr (ps, s2)"
      and e: "in_machine cfg a push_return_true s2 = Inr s'" by (auto simp: issdl_cut_def Let_def)
    from do_recursive_cut_result [OF c] have "vm s2 = m" by auto
    with in_machine_result [OF e] obtain x where x: "push_return_true x m = Inr (vm s')" by auto
    from c have "\<exists>y. do_recursive_cut (en_fresh s) (Some b) s = Inr y" by (auto simp: do_recursive_cut_vm)
    with b x show ?thesis by (auto simp: machine_cut_def engine_functions_def p v str find_cut_vm)
  next
    case False
    with assms p v have "s' = ?s" by (cases "vdata v") (auto simp: issdl_cut_def Let_def)
    with False show ?thesis by (cases "vdata v") (auto simp: machine_cut_def p v)
  qed
qed

section \<open>Example\<close>

text \<open>A first state \<open>0\<close> with two children: \<open>1\<close>, and its sibling \<open>2\<close>.  Each child has one thread.\<close>

definition child_inst :: "nat option \<Rightarrow> nat \<Rightarrow> state_instance" where
  "child_inst sib t = \<lparr>si_state = 1, si_rule = 0, si_first_child = None, si_next_sibling = sib, si_parent = Some 0,
     si_event = None, si_inherit = None, si_current = None, si_retrig_next = None, si_depth = 1, si_threads = Some t\<rparr>"

definition waiting_thread :: "nat \<Rightarrow> wait_thread" where
  "waiting_thread a = \<lparr>t_next = None, t_trans = tr_to 2, t_inst = a, t_bump = False, t_onlyonce = False, t_killed = False,
     t_pass = 0, t_next_in_inst = None, t_timeout = 600\<rparr>"

definition cut_rule :: rule_t where
  "cut_rule = rule_with [st_with 0 [tr_to 1], (st_with 1 [tr_to 2])\<lparr>st_name := Some [120]\<rparr>, st_with 2 []]"

definition cut_engine :: engine where
  "cut_engine = (new_engine (sample_vm\<lparr>heap := [0 \<mapsto> \<lparr>vdata = VInt 1, vflags = TYPE_CONST\<rparr>, 1 \<mapsto> \<lparr>vdata = VStr [120], vflags = 0\<rparr>],
       ovm_stack := \<lparr>stk_pos = 0, stk_size = 2, stk_grow = 2, stk_data = [Some 1, None]\<rparr>\<rparr>) [None] (\<lambda>_. \<lparr>htable = [], elmts = 0\<rparr>))
     \<lparr>en_fresh := Suc (Suc (Suc (Suc 0))),
      insts_st := [0 \<mapsto> (child_inst None 0)\<lparr>si_state := 0, si_first_child := Some 1, si_parent := None, si_threads := None\<rparr>,
        1 \<mapsto> child_inst (Some 2) 5, 2 \<mapsto> child_inst None 6],
      rinsts_st := [0 \<mapsto> \<lparr>ri_rule = 0, ri_first_state = 0, ri_next = None, ri_state_list = None, ri_threads = 2,
        ri_killed = False, ri_inuse = True, ri_created = 0, ri_locks = []\<rparr>],
      threads_st := [5 \<mapsto> waiting_thread 1, 6 \<mapsto> waiting_thread 2]\<rparr>"

lemmas cut_eval = cut_engine_def child_inst_def waiting_thread_def cut_rule_def engine_sample_eval

text \<open>A cut from the state \<open>1\<close> to itself kills the thread of its sibling.\<close>

theorem cut_kills_what_it_reaches_witness:
  "\<exists>s'. issdl_cut (sample_cfg [cut_rule]) 1 cut_engine = Inr ([1, 2], s') \<and> cut_reach cut_engine 1 2 \<and>
     (\<exists>x. threads_st s' 6 = Some x \<and> t_killed x)"
proof -
  have p: "pop (vm cut_engine) = (Some 1, vm cut_engine\<lparr>ovm_stack := \<lparr>stk_pos = -1, stk_size = 2, stk_grow = 2, stk_data = [Some 1, None]\<rparr>\<rparr>)"
    by (simp add: pop_def stack_pop_def cut_eval)
  have d: "deref (vm cut_engine\<lparr>ovm_stack := q\<rparr>) (Some 1) = Inr \<lparr>vdata = VStr [120], vflags = 0\<rparr>" for q
    by (simp add: deref_def cut_eval)
  have "\<exists>s'. issdl_cut (sample_cfg [cut_rule]) 1 cut_engine = Inr ([1, 2], s')"
    by (simp add: issdl_cut_def pop_def stack_pop_def deref_def cut_eval engine_eval in_machine_def push_return_true_def TRUE_VAR_def
        push_def stack_push_def state_of_def c_str_def Let_def at_def)
  then obtain s' where s': "issdl_cut (sample_cfg [cut_rule]) 1 cut_engine = Inr ([1, 2], s')" by blast
  have v: "vdata \<lparr>vdata = VStr [120], vflags = 0\<rparr> = VStr [120]" by simp
  from cut_kills_what_it_reaches [OF s' p d v] obtain m' where
    e: "s' = cut_engine\<lparr>vm := m', threads_st := \<lambda>t. map_option (\<lambda>x.
      if (\<exists>c \<in> set [1, 2]. t \<in> set (threads_of cut_engine c)) \<and> \<not> t_onlyonce x then x\<lparr>t_killed := True\<rparr> else x)
      (threads_st cut_engine t)\<rparr>" by blast
  have "cut_reach cut_engine 1 2"
    by (rule cut_reach.sibling [where c = 2 and i = "child_inst (Some 2) 5"]) (simp_all add: cut_eval cut_reach.here)
  moreover have "6 \<in> set (threads_of cut_engine 2)" by (simp add: threads_of_def cut_eval lookup_def)
  moreover have "threads_st cut_engine 6 = Some (waiting_thread 2)" "\<not> t_onlyonce (waiting_thread 2)"
    by (simp_all add: cut_eval)
  ultimately show ?thesis using s' by (auto simp: e)
qed

end
