(* ===== verification/Disassembler.thy ===== *)
theory Disassembler
  imports Ovm
begin

text \<open>
  \<open>fprintf_bytecode\<close> and \<open>fprintf_bytecode_short\<close> of \<open>src/ovm.c\<close>: the listing of a bytecode.
  Every call of \<open>fprintf\<close> is a line: the offset, the word in the column of the opcode, the
  word in the column of the operand if the format has one, the mnemonic, and the operand in
  brackets.  \<open>long_form\<close> tells the format of the line; the columns are hexadecimal.
\<close>

record listing_line =
  long_form :: bool
  ln_offset :: nat
  ln_opcode :: nat
  ln_column :: "nat option"
  ln_name :: string
  ln_operand :: "nat option"

datatype listing_stop = Listed | Not_Implemented | Unknown_Code

text \<open>The entry of an opcode: the mnemonic, what is printed for the opcode, and whether there is
  an operand in a column and in brackets.\<close>

datatype dis_entry = Simple string nat | Operand string | Jump string | Missing

definition entry_of :: "nat \<Rightarrow> dis_entry option" where
  "entry_of op =
     (if op = 1 then Some (Simple ''nop'' 1)
      else if op = 2 then Some (Operand ''push'')
      else if op = 3 then Some (Operand ''pop'')
      else if op = 4 then Some (Operand ''pushstatic'')
      else if op = 5 then Some (Operand ''pushfield'')
      else if op = 6 then Some (Simple ''trash'' 6)
      else if op = 7 then Some (Operand ''call'')
      else if op = 8 then Some (Simple ''add'' 8)
      else if op = 9 then Some (Simple ''sub'' 9)
      else if op = 10 then Some (Simple ''mul'' 10)
      else if op = 11 then Some (Simple ''div'' 11)
      else if op = 12 then Some (Simple ''mod'' 12)
      else if 13 \<le> op \<and> op \<le> 19 then Some Missing
      else if op = 20 then Some (Jump ''jmp'')
      else if op = 21 then Some (Jump ''popcjmp'')
      else if op = 22 then Some (Simple ''ceq'' 22)
      else if op = 23 then Some (Simple ''cneq'' 23)
      else if op = 24 then Some (Simple ''crm'' 24)
      else if op = 25 then Some (Simple ''cnrm'' 25)
      else if op = 26 then Some (Simple ''clt'' 26)
      else if op = 27 then Some (Simple ''cgt'' 27)
      else if op = 28 then Some (Simple ''cle'' 28)
      else if op = 29 then Some (Simple ''cge'' 29)
      else if op = 30 then Some (Simple ''regsplit'' 30)
      else if op = 31 then Some (Simple ''cesv'' 30)
      else None)"

text \<open>The long listing prints \<open>add\<close> for a subtraction.  The short listing uses the long format
  for \<open>trash\<close> and the jumps.\<close>

definition name_of :: "bool \<Rightarrow> string \<Rightarrow> string" where
  "name_of long n = (if long \<and> n = ''sub'' then ''add'' else n)"

definition form_of :: "bool \<Rightarrow> string \<Rightarrow> bool" where
  "form_of long n \<longleftrightarrow> long \<or> n \<in> {''trash'', ''jmp'', ''popcjmp''}"

definition end_line :: "bool \<Rightarrow> nat \<Rightarrow> listing_line" where
  "end_line long off = \<lparr>long_form = long, ln_offset = off, ln_opcode = OP_END, ln_column = None,
     ln_name = ''end'', ln_operand = None\<rparr>"

text \<open>A word outside the code is an access out of bounds.\<close>

function list_code :: "bool \<Rightarrow> culong list \<Rightarrow> nat \<Rightarrow> fault + listing_line list \<times> listing_stop" where
  "list_code long code off =
     (if length code \<le> off then Inl OutOfBounds else
      let op = unat (code ! off);
          line = \<lambda>shown col n arg. \<lparr>long_form = form_of long n, ln_offset = off, ln_opcode = shown, ln_column = col,
            ln_name = name_of long n, ln_operand = arg\<rparr>;
          more = \<lambda>k l. bnd (list_code long code (off + Suc k)) (\<lambda>(ls, stop). Inr (l # ls, stop))
      in if op = OP_END then Inr ([end_line long off], Listed) else
      case entry_of op of
        None \<Rightarrow> Inr ([], Unknown_Code)
      | Some Missing \<Rightarrow> Inr ([], Not_Implemented)
      | Some (Simple n shown) \<Rightarrow> more 0 (line shown None n None)
      | Some (Operand n) \<Rightarrow> bnd (at code (off + 1)) (\<lambda>w. more 1 (line op (Some (unat w)) n (Some (unat w))))
      | Some (Jump n) \<Rightarrow> bnd (at code (off + 1)) (\<lambda>w. more 1 (line op None n (Some (unat w)))))"
  by pat_completeness auto
termination
  by (relation "measure (\<lambda>(_, code, off). length code - off)") auto

declare list_code.simps [simp del]

definition fprintf_bytecode :: "culong list \<Rightarrow> fault + listing_line list \<times> listing_stop" where
  "fprintf_bytecode code = list_code True code 0"

definition fprintf_bytecode_short :: "culong list \<Rightarrow> fault + listing_line list \<times> listing_stop" where
  "fprintf_bytecode_short code = list_code False code 0"

text \<open>\<open>fprintf_bytecode_dump\<close> prints the words before the first zero.\<close>

definition fprintf_bytecode_dump :: "culong list \<Rightarrow> fault + nat list" where
  "fprintf_bytecode_dump code =
     (if list_all (\<lambda>w. w \<noteq> 0) code then Inl OutOfBounds else Inr (map unat (takeWhile (\<lambda>w. w \<noteq> 0) code)))"

end
