(* ===== verification/Compiler_Laws.thy ===== *)
theory Compiler_Laws
  imports Compiler
begin

text \<open>
  The reference code generator (\<open>ecode\<close>, \<open>scode\<close>): position independent code in which every
  jump is written with its displacement.  The code generator of the program, which allocates
  labels, records the jumps to them and patches the displacements at the end, produces the
  reference code for every expression and every list of statements of the grammar.
\<close>

section \<open>The expressions and statements of the grammar\<close>

definition cond_op :: "cctx \<Rightarrow> nat \<Rightarrow> bool" where
  "cond_op c op \<longleftrightarrow> op = tok_ANDAND c \<or> op = tok_OROR c \<or> comparison_op op"

fun is_expr :: "cctx \<Rightarrow> node_expr \<Rightarrow> bool" where
  "is_expr c (NODE_BINOP op l r) \<longleftrightarrow> is_expr c l \<and> is_expr c r"
| "is_expr c (NODE_COND op l r) \<longleftrightarrow> cond_op c op \<and> is_expr c l \<and> is_expr c r"
| "is_expr c (NODE_FIELD i) \<longleftrightarrow> True"
| "is_expr c (NODE_VARIABLE i) \<longleftrightarrow> True"
| "is_expr c (NODE_CONST i) \<longleftrightarrow> True"
| "is_expr c (NODE_CALL f ps) \<longleftrightarrow> list_all (is_expr c) ps"
| "is_expr c (NODE_ASSOC v e) \<longleftrightarrow> is_expr c e"
| "is_expr c _ \<longleftrightarrow> False"

text \<open>Bison numbers its tokens from 258, which is above every opcode.\<close>

definition tokens_ok :: "cctx \<Rightarrow> bool" where
  "tokens_ok c \<longleftrightarrow> 256 < tok_ANDAND c \<and> 256 < tok_OROR c \<and> tok_ANDAND c \<noteq> tok_OROR c"

section \<open>The reference code\<close>

abbreviation W :: "nat \<Rightarrow> culong" where "W \<equiv> of_nat"

definition bool_code :: "cctx \<Rightarrow> culong list" where
  "bool_code c = [W OP_PUSHSTATIC, W (static_1 c), W OP_JMP, 2, W OP_PUSHSTATIC, W (static_0 c)]"

function (sequential)
  ecode :: "cctx \<Rightarrow> node_expr \<Rightarrow> culong list" and
  pcode :: "cctx \<Rightarrow> node_expr list \<Rightarrow> culong list" and
  ccode :: "cctx \<Rightarrow> node_expr \<Rightarrow> culong list" where
  "ecode c (NODE_ASSOC v e) = ecode c e @ [W OP_POP, W v, W OP_PUSH, W v]"
| "ecode c (NODE_BINOP op l r) = ecode c l @ ecode c r @ [W op]"
| "ecode c (NODE_COND op l r) =
     (if op = tok_ANDAND c then
        ccode c l @ [W OP_POPCJMP, 2, W OP_JMP, W (length (ccode c r) + 8)] @
        ccode c r @ [W OP_POPCJMP, 2, W OP_JMP, 4] @ bool_code c
      else if op = tok_OROR c then
        ccode c l @ [W OP_POPCJMP, W (length (ccode c r) + 6), W OP_JMP, 0] @
        ccode c r @ [W OP_POPCJMP, 2, W OP_JMP, 4] @ bool_code c
      else if comparison_op op then
        ccode c (NODE_COND op l r) @ [W OP_POPCJMP, 2, W OP_JMP, 4] @ bool_code c
      else [])"
| "ecode c (NODE_FIELD i) = [W OP_PUSHFIELD, W i]"
| "ecode c (NODE_VARIABLE i) = [W OP_PUSH, W i]"
| "ecode c (NODE_CONST i) = [W OP_PUSHSTATIC, W i]"
| "ecode c (NODE_CALL f ps) = pcode c ps @ [W OP_CALL, W f]"
| "ecode c _ = []"
| "pcode c [] = []"
| "pcode c (e # es) = pcode c es @ ecode c e"
| "ccode c (NODE_COND op l r) =
     (if comparison_op op then ecode c l @ ecode c r @ [W op] else ecode c (NODE_COND op l r))"
| "ccode c e = ecode c e"
  by pat_completeness auto
termination
  by (relation "measure (\<lambda>x. case x of
        Inl (c, e) \<Rightarrow> 3 * size e + (if is_comparison e then 1 else 0)
      | Inr (Inl (c, es)) \<Rightarrow> 3 * size_list size es
      | Inr (Inr (c, e)) \<Rightarrow> 3 * size e + (if is_comparison e then 0 else 1))") auto

section \<open>How the buffer grows\<close>

text \<open>\<open>keeps S b b'\<close>: the labels in \<open>S\<close> that have a position keep it.  \<open>grows b b'\<close> is what every
  part of the generator does to the labels of the buffer; \<open>roomy\<close> bounds the label array.\<close>

definition keeps :: "nat set \<Rightarrow> code_buf \<Rightarrow> code_buf \<Rightarrow> bool" where
  "keeps S b b' \<longleftrightarrow> length (labels b) \<le> length (labels b') \<and>
     (\<forall>l\<in>S. l < length (labels b) \<longrightarrow> labels b' ! l = labels b ! l)"

definition roomy :: "code_buf \<Rightarrow> bool" where
  "roomy b \<longleftrightarrow> length (labels b) \<le> labels_nb b + LABEL_GROW"

definition grows :: "code_buf \<Rightarrow> code_buf \<Rightarrow> bool" where
  "grows b b' \<longleftrightarrow> labels_nb b \<le> labels_nb b' \<and> keeps {..<labels_nb b} b b' \<and>
     (roomy b \<longrightarrow> roomy b') \<and>
     labels_nb b' + code_pos b \<le> labels_nb b + code_pos b'"

lemma keeps_refl [simp]: "keeps S b b"
  by (simp add: keeps_def)

lemma keeps_trans: "keeps S b b' \<Longrightarrow> keeps S b' b'' \<Longrightarrow> keeps S b b''"
  by (auto simp: keeps_def)

lemma keeps_mono: "keeps S b b' \<Longrightarrow> T \<subseteq> S \<Longrightarrow> keeps T b b'"
  by (auto simp: keeps_def)

lemma grows_refl [simp]: "grows b b"
  by (simp add: grows_def)

lemma grows_trans: "grows b b' \<Longrightarrow> grows b' b'' \<Longrightarrow> grows b b''"
  by (auto simp: grows_def intro: keeps_trans keeps_mono)

section \<open>Code that a label table resolves\<close>

text \<open>\<open>seg L b b' xs\<close>: between \<open>b\<close> and \<open>b'\<close> the generator emitted code that becomes \<open>xs\<close> when the
  recorded jumps are resolved with the label positions \<open>L\<close>.\<close>

definition jump_word :: "nat list \<Rightarrow> nat \<Rightarrow> nat \<Rightarrow> culong" where
  "jump_word L l p = word_of_int (int (L ! l) - int p - 1)"

definition resolved ::
  "nat list \<Rightarrow> nat \<Rightarrow> nat list \<Rightarrow> culong list \<Rightarrow> culong list \<Rightarrow> bool" where
  "resolved L base ts raw xs \<longleftrightarrow> length raw = length xs \<and> distinct ts \<and>
     set ts \<subseteq> {base ..< base + length raw} \<and>
     (\<forall>i < length raw. if base + i \<in> set ts
        then unat (raw ! i) < length L \<and> xs ! i = jump_word L (unat (raw ! i)) (base + i)
        else xs ! i = raw ! i)"

definition seg :: "nat list \<Rightarrow> code_buf \<Rightarrow> code_buf \<Rightarrow> culong list \<Rightarrow> bool" where
  "seg L b b' xs \<longleftrightarrow> (\<exists>raw ts. bytecode b' = bytecode b @ raw \<and> toset b' = toset b @ ts \<and>
     resolved L (code_pos b) ts raw xs)"

lemma seg_same: "bytecode b' = bytecode b \<Longrightarrow> toset b' = toset b \<Longrightarrow> seg L b b' []"
  by (simp add: seg_def resolved_def)

lemma seg_length: "seg L b b' xs \<Longrightarrow> code_pos b' = code_pos b + length xs"
  by (auto simp: seg_def resolved_def)

lemma resolved_append:
  assumes "resolved L base ts raw xs" and "resolved L (base + length raw) ts' raw' xs'"
  shows "resolved L base (ts @ ts') (raw @ raw') (xs @ xs')"
proof -
  have r: "base + i \<in> set (ts @ ts') \<longleftrightarrow>
      (if i < length raw then base + i \<in> set ts else base + i \<in> set ts')" for i
    using assms by (auto simp: resolved_def)
  have "set ts \<inter> set ts' = {}" using assms by (fastforce simp: resolved_def)
  moreover have "if base + i \<in> set (ts @ ts')
        then unat ((raw @ raw') ! i) < length L \<and>
             (xs @ xs') ! i = jump_word L (unat ((raw @ raw') ! i)) (base + i)
        else (xs @ xs') ! i = (raw @ raw') ! i" if "i < length (raw @ raw')" for i
  proof (cases "i < length raw")
    case True
    with assms(1) show ?thesis unfolding r by (simp add: resolved_def nth_append)
  next
    case False
    with that have "i - length raw < length raw'" by auto
    with assms(2) False
    have "if base + length raw + (i - length raw) \<in> set ts'
        then unat (raw' ! (i - length raw)) < length L \<and> xs' ! (i - length raw) =
             jump_word L (unat (raw' ! (i - length raw))) (base + length raw + (i - length raw))
        else xs' ! (i - length raw) = raw' ! (i - length raw)"
      unfolding resolved_def by blast
    moreover have "length raw = length xs" "base + length raw + (i - length raw) = base + i"
      using assms(1) False by (auto simp: resolved_def)
    ultimately show ?thesis using False unfolding r by (auto simp: nth_append split: if_splits)
  qed
  ultimately show ?thesis using assms by (auto simp: resolved_def)
qed

lemma seg_trans:
  assumes "seg L b b' xs" and "seg L b' b'' ys"
  shows "seg L b b'' (xs @ ys)"
proof -
  from assms(1) obtain raw ts where 1: "bytecode b' = bytecode b @ raw"
    "toset b' = toset b @ ts" "resolved L (code_pos b) ts raw xs" by (auto simp: seg_def)
  from assms(2) obtain raw' ts' where 2: "bytecode b'' = bytecode b' @ raw'"
    "toset b'' = toset b' @ ts'" "resolved L (code_pos b') ts' raw' ys" by (auto simp: seg_def)
  have "resolved L (code_pos b) (ts @ ts') (raw @ raw') (xs @ ys)"
    using 1 2 by (auto intro: resolved_append)
  with 1 2 show ?thesis unfolding seg_def by (metis append_assoc)
qed

section \<open>The primitives\<close>

lemma emit_frame: "emit w b = Inr b' \<Longrightarrow> labels b' = labels b \<and> labels_nb b' = labels_nb b \<and>
    code_pos b' = Suc (code_pos b) \<and> code_pos b' \<le> BYTECODE_BUF_SZ"
  by (auto simp: emit_def split: if_splits)

lemma emit_seg: "emit w b = Inr b' \<Longrightarrow> seg L b b' [W w]"
  by (auto simp: emit_def seg_def resolved_def split: if_splits)

lemma emits_frame: "emits ws b = Inr b' \<Longrightarrow> labels b' = labels b \<and> labels_nb b' = labels_nb b \<and>
    code_pos b' = code_pos b + length ws"
  by (induction ws arbitrary: b) (auto dest!: emit_frame)

lemma emits_seg: "emits ws b = Inr b' \<Longrightarrow> seg L b b' (map W ws)"
proof (induction ws arbitrary: b)
  case (Cons w ws)
  then obtain b1 where "emit w b = Inr b1" "emits ws b1 = Inr b'" by auto
  with Cons.IH [of b1] emit_seg [of w b b1 L] seg_trans [of L b b1 "[W w]"] show ?case by auto
qed (simp add: seg_same)

lemma PUT_frame: "PUT_LABEL l b = Inr b' \<Longrightarrow> labels b' = labels b \<and> labels_nb b' = labels_nb b \<and>
    code_pos b' = Suc (code_pos b)"
  by (auto simp: PUT_LABEL_def dest!: emit_frame)

lemma PUT_seg:
  assumes "PUT_LABEL l b = Inr b'" and "l < length L" and "length L < 2 ^ 64"
  shows "seg L b b' [jump_word L l (code_pos b)]"
proof -
  have "unat (W l) = l" using assms(2,3) by (simp add: unat_of_nat)
  then show ?thesis using assms(1,2)
    by (auto simp: PUT_LABEL_def emit_def seg_def resolved_def split: if_splits
        intro!: exI [of _ "[W l]"])
qed

lemma exit_if_full_same: "exit_if_full x b = Inr b' \<Longrightarrow> b' = b"
  by (auto simp: exit_if_full_def split: if_splits)

lemma use_field_frame: "use_field i b = Inr b' \<Longrightarrow> labels b' = labels b \<and>
    labels_nb b' = labels_nb b \<and> bytecode b' = bytecode b \<and> toset b' = toset b"
  by (auto simp: use_field_def split: if_splits)

lemma SET_frame:
  assumes "SET_LABEL l b = Inr b'"
  shows "bytecode b' = bytecode b" and "toset b' = toset b" and "labels_nb b' = labels_nb b"
    and "l \<notin> S \<Longrightarrow> keeps S b b'" and "l < length (labels b')" and "labels b' ! l = code_pos b"
    and "roomy b \<Longrightarrow> roomy b'" and "length (labels b) \<le> length (labels b')"
  using assms by (auto simp: SET_LABEL_def Let_def keeps_def roomy_def nth_append
      nth_list_update split: if_splits)

lemma SET_seg: "SET_LABEL l b = Inr b' \<Longrightarrow> seg L b b' []"
  by (simp add: seg_same SET_frame)

lemma keeps_same_labels: "labels b' = labels b \<Longrightarrow> keeps S b b'"
  by (simp add: keeps_def)

lemma grows_emitted: "labels b' = labels b \<Longrightarrow> labels_nb b' = labels_nb b \<Longrightarrow>
    code_pos b \<le> code_pos b' \<Longrightarrow> grows b b'"
  by (auto simp: grows_def keeps_def roomy_def)

section \<open>Patching the displacements\<close>

lemma set_labels_resolves:
  assumes "distinct ts" and "length xs = length raw"
    and "\<And>p. p \<in> set ts \<Longrightarrow> p < length raw \<and> unat (raw ! p) < length L \<and>
           xs ! p = jump_word L (unat (raw ! p)) p"
    and "\<And>p. p < length raw \<Longrightarrow> p \<notin> set ts \<Longrightarrow> xs ! p = raw ! p"
  shows "compile_set_labels L ts raw = Inr xs"
  using assms
proof (induction ts arbitrary: raw)
  case Nil
  then show ?case by (simp add: list_eq_iff_nth_eq)
next
  case (Cons p ts)
  let ?raw = "raw[p := jump_word L (unat (raw ! p)) p]"
  have "compile_set_labels L ts ?raw = Inr xs"
    using Cons.prems by (intro Cons.IH) (auto simp: nth_list_update)
  with Cons.prems(3) [of p] show ?case by (simp add: jump_word_def)
qed

lemma seg_set_labels:
  assumes "seg L init_buf b xs"
  shows "compile_set_labels L (toset b) (bytecode b) = Inr xs"
  using assms by (auto simp: seg_def resolved_def init_buf_def intro!: set_labels_resolves)

section \<open>Conditions and booleans\<close>

lemma jump_pair_frame:
  assumes "jump_pair lt le b = Inr b'"
  shows "labels b' = labels b" "labels_nb b' = labels_nb b" "code_pos b' = code_pos b + 4"
  using assms by (auto simp: jump_pair_def dest!: emit_frame PUT_frame)

lemma jump_pair_seg:
  assumes "jump_pair lt le b = Inr b'" and "lt < length L" "le < length L" "length L < 2 ^ 64"
  shows "seg L b b' [W OP_POPCJMP, jump_word L lt (code_pos b + 1),
    W OP_JMP, jump_word L le (code_pos b + 3)]"
proof -
  from assms(1) obtain b1 b2 b3 where e: "emit OP_POPCJMP b = Inr b1" "PUT_LABEL lt b1 = Inr b2"
    "emit OP_JMP b2 = Inr b3" "PUT_LABEL le b3 = Inr b'" by (auto simp: jump_pair_def)
  have "code_pos b1 = code_pos b + 1" "code_pos b3 = code_pos b + 3"
    using e by (auto dest!: emit_frame PUT_frame)
  note p = this
  note seg4 = seg_trans [OF emit_seg [OF e(1), of L] seg_trans [OF PUT_seg [OF e(2) assms(2,4)]
      seg_trans [OF emit_seg [OF e(3)] PUT_seg [OF e(4) assms(3,4)]]]]
  from seg4 show ?thesis by (simp add: p)
qed

lemma push_bool_frame:
  assumes "push_bool c lelse lend b = Inr b'" and "lelse \<noteq> lend"
  shows "labels_nb b' = labels_nb b" and "code_pos b' = code_pos b + 6"
    and "S \<inter> {lelse, lend} = {} \<Longrightarrow> keeps S b b'" and "roomy b \<Longrightarrow> roomy b'"
    and "lelse < length (labels b')" and "labels b' ! lelse = code_pos b + 4"
    and "lend < length (labels b')" and "labels b' ! lend = code_pos b + 6"
proof -
  from assms(1) obtain b1 b2 b3 b4 where
    e: "emits [OP_PUSHSTATIC, static_1 c, OP_JMP] b = Inr b1" "PUT_LABEL lend b1 = Inr b2"
      "SET_LABEL lelse b2 = Inr b3" "emits [OP_PUSHSTATIC, static_0 c] b3 = Inr b4"
      "SET_LABEL lend b4 = Inr b'"
    by (auto simp: push_bool_def simp del: emits.simps)
  note f = emits_frame [OF e(1)] PUT_frame [OF e(2)] emits_frame [OF e(4)]
  note s3 = SET_frame [OF e(3)] and s5 = SET_frame [OF e(5)]
  show "labels_nb b' = labels_nb b" "code_pos b' = code_pos b + 6"
    using f s3 s5 by simp_all
  show "roomy b \<Longrightarrow> roomy b'" using f s3(7,3) s5(7,3) by (simp add: roomy_def)
  show "lend < length (labels b')" "labels b' ! lend = code_pos b + 6"
    using f s3 s5 by simp_all
  have "keeps {lelse} b4 b'" using assms(2) by (intro s5(4)) auto
  then show "lelse < length (labels b')" "labels b' ! lelse = code_pos b + 4"
    using f s3 by (simp_all add: keeps_def)
  assume "S \<inter> {lelse, lend} = {}"
  then have "keeps S b2 b3" "keeps S b4 b'" using s3(4) s5(4) by auto
  then show "keeps S b b'" using f by (auto simp: keeps_def)
qed

lemma jump_word_of_nat: "L ! l = p + 1 + d \<Longrightarrow> jump_word L l p = W d"
  by (simp add: jump_word_def)

lemma push_bool_seg:
  assumes e: "push_bool c lelse lend b = Inr b'"
    and L: "lend < length L" "L ! lend = code_pos b + 6" "length L < 2 ^ 64"
  shows "seg L b b' (bool_code c)"
proof -
  from e obtain b1 b2 b3 b4 where
    e: "emits [OP_PUSHSTATIC, static_1 c, OP_JMP] b = Inr b1" "PUT_LABEL lend b1 = Inr b2"
      "SET_LABEL lelse b2 = Inr b3" "emits [OP_PUSHSTATIC, static_0 c] b3 = Inr b4"
      "SET_LABEL lend b4 = Inr b'"
    by (auto simp: push_bool_def simp del: emits.simps)
  have p: "code_pos b1 = code_pos b + 3" using emits_frame [OF e(1)] by simp
  have "seg L b b' (map W [OP_PUSHSTATIC, static_1 c, OP_JMP] @ [jump_word L lend (code_pos b1)] @
      [] @ map W [OP_PUSHSTATIC, static_0 c] @ [])"
    by (rule seg_trans [OF emits_seg [OF e(1)] seg_trans [OF PUT_seg [OF e(2) L(1,3)]
        seg_trans [OF SET_seg [OF e(3)] seg_trans [OF emits_seg [OF e(4)] SET_seg [OF e(5)]]]]])
  moreover have "jump_word L lend (code_pos b1) = W 2"
    using L(2) p by (intro jump_word_of_nat) simp
  ultimately show ?thesis by (simp add: bool_code_def)
qed

section \<open>Generated pieces of code\<close>

text \<open>\<open>agrees S L b\<close>: the final table \<open>L\<close> has the positions that the labels in \<open>S\<close> have in \<open>b\<close>.
  \<open>makes b b' xs\<close>: going from \<open>b\<close> to \<open>b'\<close> generated \<open>xs\<close>, whatever happens afterwards to labels
  that were not allocated in between.\<close>

definition agrees :: "nat set \<Rightarrow> nat list \<Rightarrow> code_buf \<Rightarrow> bool" where
  "agrees S L b \<longleftrightarrow> length L < 2 ^ 64 \<and>
     (\<forall>l\<in>S. l < length (labels b) \<longrightarrow> l < length L \<and> L ! l = labels b ! l)"

definition makes :: "code_buf \<Rightarrow> code_buf \<Rightarrow> culong list \<Rightarrow> bool" where
  "makes b b' xs \<longleftrightarrow> grows b b' \<and> code_pos b' = code_pos b + length xs \<and>
     (\<forall>L. agrees {labels_nb b ..< labels_nb b'} L b' \<longrightarrow> seg L b b' xs)"

lemma agrees_keeps: "agrees S L b' \<Longrightarrow> keeps T b b' \<Longrightarrow> R \<subseteq> S \<inter> T \<Longrightarrow> agrees R L b"
  by (fastforce simp: agrees_def keeps_def)

lemma agrees_mono: "agrees S L b \<Longrightarrow> R \<subseteq> S \<Longrightarrow> agrees R L b"
  by (auto simp: agrees_def)

lemma agreesD: "agrees S L b \<Longrightarrow> l \<in> S \<Longrightarrow> l < length (labels b) \<Longrightarrow>
    l < length L \<and> L ! l = labels b ! l \<and> length L < 2 ^ 64"
  by (auto simp: agrees_def)

lemma makesD:
  assumes "makes b b' xs"
  shows "labels_nb b \<le> labels_nb b'" and "keeps {..<labels_nb b} b b'"
    and "roomy b \<Longrightarrow> roomy b'" and "labels_nb b' + code_pos b \<le> labels_nb b + code_pos b'"
    and "code_pos b' = code_pos b + length xs"
    and "agrees {labels_nb b ..< labels_nb b'} L b' \<Longrightarrow> seg L b b' xs"
  using assms by (auto simp: makes_def grows_def)

lemma makes_trans:
  assumes "makes b b' xs" and "makes b' b'' ys"
  shows "makes b b'' (xs @ ys)"
  unfolding makes_def
proof (intro conjI allI impI)
  show "grows b b''" using assms by (auto simp: makes_def intro: grows_trans)
  show "code_pos b'' = code_pos b + length (xs @ ys)" using assms by (simp add: makes_def)
  fix L assume "agrees {labels_nb b ..< labels_nb b''} L b''"
  then have "agrees {labels_nb b ..< labels_nb b'} L b'" "agrees {labels_nb b' ..< labels_nb b''} L b''"
    using makesD(1) [OF assms(1)] makesD(1,2) [OF assms(2)]
    by (auto elim!: agrees_keeps agrees_mono)
  then show "seg L b b'' (xs @ ys)" using assms by (auto simp: makes_def intro: seg_trans)
qed

lemma makes_refl: "makes b b []"
  by (simp add: makes_def seg_same)

lemma makes_emits: "emits ws b = Inr b' \<Longrightarrow> makes b b' (map W ws)"
  using emits_frame [of ws b b'] by (auto simp: makes_def emits_seg intro!: grows_emitted)

lemma makes_emit: "emit w b = Inr b' \<Longrightarrow> makes b b' [W w]"
  using emit_frame [of w b b'] by (auto simp: makes_def emit_seg intro!: grows_emitted)

lemma makes_use_field: "use_field i b = Inr b' \<Longrightarrow> makes b b' []"
  using use_field_frame [of i b b'] by (auto simp: makes_def seg_same intro!: grows_emitted)

lemma makes_exit_if_full: "exit_if_full x b = Inr b' \<Longrightarrow> makes b b' []"
  by (auto dest!: exit_if_full_same simp: makes_refl)

text \<open>A condition that jumps, and the code that turns its outcome into a boolean.\<close>

lemma cond_tail:
  assumes m: "makes b b1 xs" and j: "jump_pair lt le b1 = Inr b2"
    and s: "SET_LABEL lt b2 = Inr b3" and p: "push_bool c le lend b3 = Inr b'"
    and d: "lt < labels_nb b" "le < labels_nb b" "lend < labels_nb b" "distinct [lt, le, lend]"
  shows "labels_nb b \<le> labels_nb b'" and "S \<subseteq> {..<labels_nb b} - {lt, le, lend} \<Longrightarrow> keeps S b b'"
    and "roomy b \<Longrightarrow> roomy b'" and "labels_nb b' + code_pos b + 10 \<le> labels_nb b + code_pos b'"
    and "code_pos b' = code_pos b + length xs + 10"
    and "lt < length (labels b')" "labels b' ! lt = code_pos b + length xs + 4"
    and "le < length (labels b')" "labels b' ! le = code_pos b + length xs + 8"
    and "agrees ({labels_nb b ..< labels_nb b'} \<union> {lt, le, lend}) L b' \<Longrightarrow>
      seg L b b' (xs @ [W OP_POPCJMP, 2, W OP_JMP, 4] @ bool_code c)"
proof -
  have ne: "le \<noteq> lend" using d(4) by auto
  note m = makesD [OF m] and j' = jump_pair_frame [OF j] and s' = SET_frame [OF s]
    and p' = push_bool_frame [OF p ne]
  show nb: "labels_nb b \<le> labels_nb b'" and "roomy b \<Longrightarrow> roomy b'"
    and "labels_nb b' + code_pos b + 10 \<le> labels_nb b + code_pos b'"
    and pos: "code_pos b' = code_pos b + length xs + 10"
    using m(1,3-5) j' s'(1,3,7) p'(1,2,4) by (auto simp: roomy_def)
  have "keeps {lt} b3 b'" using d(4) by (intro p'(3)) auto
  then show lt: "lt < length (labels b')" "labels b' ! lt = code_pos b + length xs + 4"
    using s'(5,6) j'(3) m(5) by (auto simp: keeps_def)
  show le: "le < length (labels b')" "labels b' ! le = code_pos b + length xs + 8"
    using p'(5,6) s'(1) j'(3) m(5) by auto
  { assume S: "S \<subseteq> {..<labels_nb b} - {lt, le, lend}"
    then have "keeps S b b1" using m(2) by (auto intro: keeps_mono)
    moreover have "keeps S b2 b3" using S by (intro s'(4)) auto
    moreover have "keeps S b3 b'" using S by (intro p'(3)) auto
    ultimately show "keeps S b b'" using j'(1) by (auto simp: keeps_def) }
  assume L: "agrees ({labels_nb b ..< labels_nb b'} \<union> {lt, le, lend}) L b'"
  have "keeps {labels_nb b ..< labels_nb b1} b1 b'"
  proof -
    have "keeps {labels_nb b ..< labels_nb b1} b2 b3" using d by (intro s'(4)) auto
    moreover have "keeps {labels_nb b ..< labels_nb b1} b3 b'" using d by (intro p'(3)) auto
    ultimately show ?thesis using j'(1) by (auto simp: keeps_def)
  qed
  with L have "agrees {labels_nb b ..< labels_nb b1} L b1"
    using j'(2) s'(3) p'(1) by (auto elim!: agrees_keeps)
  then have 1: "seg L b b1 xs" by (rule m(6))
  have Ll: "lt < length L" "L ! lt = code_pos b + length xs + 4"
    "le < length L" "L ! le = code_pos b + length xs + 8" "length L < 2 ^ 64"
    "lend < length L" "L ! lend = code_pos b3 + 6"
    using agreesD [OF L, of lt] agreesD [OF L, of le] agreesD [OF L, of lend] lt le p'(7,8)
    by auto
  have w: "jump_word L lt (code_pos b1 + 1) = W 2" "jump_word L le (code_pos b1 + 3) = W 4"
    using jump_word_of_nat [of L lt "code_pos b1 + 1" 2] jump_word_of_nat [of L le "code_pos b1 + 3" 4]
      Ll m(5) by simp_all
  show "seg L b b' (xs @ [W OP_POPCJMP, 2, W OP_JMP, 4] @ bool_code c)"
    using seg_trans [OF 1 seg_trans [OF jump_pair_seg [OF j Ll(1,3,5)]
        seg_trans [OF SET_seg [OF s] push_bool_seg [OF p Ll(6,7,5)]]]]
    by (simp only: w append.simps of_nat_numeral)
qed

definition new_labels :: "nat \<Rightarrow> code_buf \<Rightarrow> code_buf" where
  "new_labels k b = b\<lparr>labels_nb := labels_nb b + k\<rparr>"

lemma new_labels_simps [simp]:
  "labels (new_labels k b) = labels b" "labels_nb (new_labels k b) = labels_nb b + k"
  "bytecode (new_labels k b) = bytecode b" "toset (new_labels k b) = toset b"
  "used_fields (new_labels k b) = used_fields b"
  "roomy b \<Longrightarrow> roomy (new_labels k b)"
  by (simp_all add: new_labels_def roomy_def)

lemma makes_comparison:
  assumes "makes (new_labels 4 b) b1 xs" and "jump_pair (labels_nb b + 1) (labels_nb b + 2) b1 = Inr b2"
    and "SET_LABEL (labels_nb b + 1) b2 = Inr b3"
    and "push_bool c (labels_nb b + 2) (labels_nb b + 3) b3 = Inr b'"
  shows "makes b b' (xs @ [W OP_POPCJMP, 2, W OP_JMP, 4] @ bool_code c)"
proof -
  note t = cond_tail [OF assms, simplified]
  have "keeps {..<labels_nb b} (new_labels 4 b) b'" by (rule t(2)) auto
  then have "grows b b'" using t(1,3,4) by (auto simp: grows_def keeps_def)
  moreover have "seg L b b' (xs @ [W OP_POPCJMP, 2, W OP_JMP, 4] @ bool_code c)"
    if L: "agrees {labels_nb b ..< labels_nb b'} L b'" for L
  proof -
    have "seg L (new_labels 4 b) b' (xs @ [W OP_POPCJMP, 2, W OP_JMP, 4] @ bool_code c)"
      using t(1) by (intro cond_tail(10) [OF assms] agrees_mono [OF L]) auto
    then show ?thesis by (simp add: seg_def)
  qed
  ultimately show ?thesis using t(5) by (simp add: makes_def bool_code_def)
qed

text \<open>\<open>&&\<close> and \<open>||\<close>: a first condition whose label \<open>li\<close> is set behind it, and the second condition;
  \<open>x\<close> and \<open>y\<close> are the labels to which the first one jumps.\<close>

lemma makes_logic:
  fixes b :: code_buf
  defines "li \<equiv> labels_nb b" and "lt \<equiv> labels_nb b + 1" and "le \<equiv> labels_nb b + 2"
    and "lend \<equiv> labels_nb b + 3"
  assumes m1: "makes (new_labels 4 b) b1 A" and j1: "jump_pair x y b1 = Inr b2"
    and s1: "SET_LABEL li b2 = Inr b3"
    and m2: "makes b3 b4 B" and j2: "jump_pair lt le b4 = Inr b5"
    and s2: "SET_LABEL lt b5 = Inr b6" and p: "push_bool c le lend b6 = Inr b'"
    and xy: "x = li \<and> y = le \<and> dx = 2 \<and> dy = length B + 8 \<or>
      x = lt \<and> y = li \<and> dx = length B + 6 \<and> dy = 0"
  shows "makes b b' (A @ [W OP_POPCJMP, W dx, W OP_JMP, W dy] @
    B @ [W OP_POPCJMP, 2, W OP_JMP, 4] @ bool_code c)"
proof -
  note l = li_def lt_def le_def lend_def
  note m1' = makesD [OF m1, simplified] and j1' = jump_pair_frame [OF j1] and s1' = SET_frame [OF s1]
  have nb: "labels_nb b + 4 \<le> labels_nb b3" using m1'(1) j1'(2) s1'(3) by simp
  have bounds: "lt < labels_nb b3" "le < labels_nb b3" "lend < labels_nb b3" "distinct [lt, le, lend]"
    using nb by (auto simp: l)
  note t = cond_tail [OF m2 j2 s2 p bounds]
  have pos3: "code_pos b3 = code_pos b + length A + 4" using m1'(5) j1'(3) s1'(1) by simp
  have k3: "keeps S b b3" if "S \<subseteq> {..<labels_nb b}" for S
  proof -
    have "keeps S (new_labels 4 b) b1" "keeps S b2 b3"
      using that by (auto simp: l intro!: s1'(4) keeps_mono [OF m1'(2)])
    then show ?thesis using j1'(1) by (auto simp: keeps_def)
  qed
  have "keeps {..<labels_nb b} b3 b'" using nb by (intro t(2)) (auto simp: l)
  with k3 have "keeps {..<labels_nb b} b b'" by (blast intro: keeps_trans)
  then have g: "grows b b'"
    using m1'(1,3,4) j1' s1'(1,3,7) t(1,3,4) nb pos3 m1'(5) by (auto simp: grows_def roomy_def)
  have li: "li < length (labels b')" "labels b' ! li = code_pos b3"
  proof -
    have "keeps {li} b3 b'" using nb by (intro t(2)) (auto simp: l)
    then show "li < length (labels b')" "labels b' ! li = code_pos b3"
      using s1'(1,5,6) by (auto simp: keeps_def)
  qed
  have "seg L b b' (A @ [W OP_POPCJMP, W dx, W OP_JMP, W dy] @
      B @ [W OP_POPCJMP, 2, W OP_JMP, 4] @ bool_code c)"
    if L: "agrees {labels_nb b ..< labels_nb b'} L b'" for L
  proof -
    have "keeps {labels_nb b + 4 ..< labels_nb b1} b2 b3" by (intro s1'(4)) (auto simp: l)
    moreover have "keeps {labels_nb b + 4 ..< labels_nb b1} b3 b'"
      using nb j1'(2) s1'(3) by (intro t(2)) (auto simp: l)
    ultimately have "keeps {labels_nb b + 4 ..< labels_nb b1} b1 b'"
      using j1'(1) by (auto simp: keeps_def)
    with L have "agrees {labels_nb b + 4 ..< labels_nb b1} L b1"
      using j1'(2) s1'(3) t(1) by (auto elim!: agrees_keeps)
    then have A: "seg L (new_labels 4 b) b1 A" using makesD(6) [OF m1, of L] by simp
    have B: "seg L b3 b' (B @ [W OP_POPCJMP, 2, W OP_JMP, 4] @ bool_code c)"
      using t(1) nb by (intro t(10) agrees_mono [OF L]) (auto simp: l)
    have Ll: "li < length L" "L ! li = code_pos b3" "lt < length L" "L ! lt = code_pos b3 + length B + 4"
      "le < length L" "L ! le = code_pos b3 + length B + 8" "length L < 2 ^ 64"
      using agreesD [OF L, of li] agreesD [OF L, of lt] agreesD [OF L, of le] li t(1,6-9) nb
      by (simp_all add: l)
    have "L ! x = code_pos b1 + 1 + 1 + dx" "L ! y = code_pos b1 + 3 + 1 + dy"
      using xy Ll(2,4,6) m1'(5) pos3 by auto
    then have w: "jump_word L x (code_pos b1 + 1) = W dx" "jump_word L y (code_pos b1 + 3) = W dy"
      by (simp_all only: jump_word_of_nat)
    have "x < length L" "y < length L" using xy Ll(1,3,5) by auto
    note seg4 = seg_trans [OF A seg_trans [OF jump_pair_seg [OF j1 this Ll(7)]
        seg_trans [OF SET_seg [OF s1] B]]]
    from seg4 show ?thesis by (simp only: w append.simps seg_def new_labels_simps)
  qed
  with g show ?thesis using t(5) pos3 by (simp add: makes_def bool_code_def)
qed

section \<open>The generator produces the reference code\<close>

lemma NEW_LABEL4: "(let (i, b) = NEW_LABEL b; (t, b) = NEW_LABEL b; (e, b) = NEW_LABEL b;
     (d, b) = NEW_LABEL b in f i t e d b) =
   f (labels_nb b) (labels_nb b + 1) (labels_nb b + 2) (labels_nb b + 3) (new_labels 4 b)"
  by (simp add: NEW_LABEL_def new_labels_def numeral_eq_Suc)

lemmas makes_steps = makes_emits makes_emit makes_exit_if_full makes_use_field

lemma compile_makes:
  "is_expr c e \<Longrightarrow> compile_bytecode_expr c e b = Inr b' \<Longrightarrow> makes b b' (ecode c e)"
  "list_all (is_expr c) es \<Longrightarrow> compile_params c es b = Inr b' \<Longrightarrow> makes b b' (pcode c es)"
  "is_expr c e' \<Longrightarrow> compile_bytecode_cond c e' lt le b = Inr b' \<Longrightarrow>
     \<exists>b1. makes b b1 (ccode c e') \<and> jump_pair lt le b1 = Inr b'"
proof (induction c e and c es and c e' arbitrary: b b' and b b' and b b' lt le
    rule: ecode_pcode_ccode.induct)
  case (1 c v e)
  then obtain b1 where 1: "compile_bytecode_expr c e b = Inr b1"
    and 2: "emits [OP_POP, v, OP_PUSH, v] b1 = Inr b'"
    by (auto simp: compile_bytecode_expr.simps simp del: emits.simps)
  show ?case using makes_trans [OF "1.IH" [OF _ 1] makes_emits [OF 2]] "1.prems" by simp
next
  case (2 c op l r)
  then obtain b1 b2 where b: "compile_bytecode_expr c l b = Inr b1"
    "compile_bytecode_expr c r b1 = Inr b2" "emit op b2 = Inr b'"
    by (auto simp: compile_bytecode_expr.simps)
  show ?case using makes_trans [OF "2.IH"(1) [OF _ b(1)] makes_trans [OF "2.IH"(2) [OF _ b(2)]
      makes_emit [OF b(3)]]] "2.prems" by simp
next
  case (3 c op l r)
  note C = "3.prems"(2) [unfolded compile_bytecode_expr.simps NEW_LABEL4]
  consider "op = tok_ANDAND c" | "op \<noteq> tok_ANDAND c" "op = tok_OROR c"
    | "op \<noteq> tok_ANDAND c" "op \<noteq> tok_OROR c" "comparison_op op"
    using "3.prems"(1) by (auto simp: cond_op_def)
  then show ?case
  proof cases
    case 1
    with C obtain b1 b2 b3 b4 where
      b: "compile_bytecode_cond c l (labels_nb b) (labels_nb b + 2) (new_labels 4 b) = Inr b1"
        "SET_LABEL (labels_nb b) b1 = Inr b2"
        "compile_bytecode_cond c r (labels_nb b + 1) (labels_nb b + 2) b2 = Inr b3"
        "SET_LABEL (labels_nb b + 1) b3 = Inr b4"
        "push_bool c (labels_nb b + 2) (labels_nb b + 3) b4 = Inr b'" by auto
    from "3.prems"(1) have e: "is_expr c l" "is_expr c r" by auto
    from "3.IH"(1) [OF 1 e(1) b(1)] "3.IH"(2) [OF 1 e(2) b(3)] obtain x y where
      "makes (new_labels 4 b) x (ccode c l)"
      "jump_pair (labels_nb b) (labels_nb b + 2) x = Inr b1" "makes b2 y (ccode c r)"
      "jump_pair (labels_nb b + 1) (labels_nb b + 2) y = Inr b3" by auto
    from makes_logic [OF this(1,2) b(2) this(3,4) b(4,5), of 2 "length (ccode c r) + 8"] 1
    show ?thesis by simp
  next
    case 2
    with C obtain b1 b2 b3 b4 where
      b: "compile_bytecode_cond c l (labels_nb b + 1) (labels_nb b) (new_labels 4 b) = Inr b1"
        "SET_LABEL (labels_nb b) b1 = Inr b2"
        "compile_bytecode_cond c r (labels_nb b + 1) (labels_nb b + 2) b2 = Inr b3"
        "SET_LABEL (labels_nb b + 1) b3 = Inr b4"
        "push_bool c (labels_nb b + 2) (labels_nb b + 3) b4 = Inr b'" by auto
    from "3.prems"(1) have e: "is_expr c l" "is_expr c r" by auto
    from "3.IH"(4) [OF 2 e(1) b(1)] "3.IH"(5) [OF 2 e(2) b(3)] obtain x y where
      "makes (new_labels 4 b) x (ccode c l)"
      "jump_pair (labels_nb b + 1) (labels_nb b) x = Inr b1" "makes b2 y (ccode c r)"
      "jump_pair (labels_nb b + 1) (labels_nb b + 2) y = Inr b3" by auto
    from makes_logic [OF this(1,2) b(2) this(3,4) b(4,5), of "length (ccode c r) + 6" 0] 2
    show ?thesis by simp
  next
    case 3
    with C obtain b1 b2 where
      b: "compile_bytecode_cond c (NODE_COND op l r) (labels_nb b + 1) (labels_nb b + 2)
            (new_labels 4 b) = Inr b1"
        "SET_LABEL (labels_nb b + 1) b1 = Inr b2"
        "push_bool c (labels_nb b + 2) (labels_nb b + 3) b2 = Inr b'" by auto
    from "3.IH"(7) [OF 3 "3.prems"(1) b(1)] obtain x where
      "makes (new_labels 4 b) x (ccode c (NODE_COND op l r))"
      "jump_pair (labels_nb b + 1) (labels_nb b + 2) x = Inr b1" by auto
    from makes_comparison [OF this b(2,3)] 3 show ?thesis by simp
  qed
next
  case (4 c i)
  then obtain b1 where "emits [OP_PUSHFIELD, i] b = Inr b1" "use_field i b1 = Inr b'"
    by (auto simp: compile_bytecode_expr.simps simp del: emits.simps dest!: exit_if_full_same)
  from makes_trans [OF makes_emits [OF this(1)] makes_use_field [OF this(2)]] show ?case by simp
next
  case (5 c i)
  then have "emits [OP_PUSH, i] b = Inr b'"
    by (auto simp: compile_bytecode_expr.simps simp del: emits.simps dest!: exit_if_full_same)
  from makes_emits [OF this] show ?case by simp
next
  case (6 c i)
  then have "emits [OP_PUSHSTATIC, i] b = Inr b'"
    by (auto simp: compile_bytecode_expr.simps simp del: emits.simps dest!: exit_if_full_same)
  from makes_emits [OF this] show ?case by simp
next
  case (7 c f ps)
  then obtain b1 where b: "compile_params c ps b = Inr b1" "emits [OP_CALL, f] b1 = Inr b'"
    by (auto simp: compile_bytecode_expr.simps simp del: emits.simps dest!: exit_if_full_same)
  show ?case using makes_trans [OF "7.IH" [OF _ b(1)] makes_emits [OF b(2)]] "7.prems" by simp
next
  case (10 c e es)
  then obtain b1 where b: "compile_params c es b = Inr b1" "compile_bytecode_expr c e b1 = Inr b'"
    by auto
  show ?case using makes_trans [OF "10.IH"(1) [OF _ b(1)] "10.IH"(2) [OF _ b(2)]] "10.prems" by simp
next
  case (11 c op l r)
  show ?case
  proof (cases "comparison_op op")
    case True
    with 11 obtain b1 b2 b3 where b: "compile_bytecode_expr c l b = Inr b1"
      "compile_bytecode_expr c r b1 = Inr b2" "emit op b2 = Inr b3" "jump_pair lt le b3 = Inr b'"
      by (auto simp: compile_bytecode_cond.simps)
    from makes_trans [OF "11.IH"(1) [OF True _ b(1)] makes_trans [OF "11.IH"(2) [OF True _ b(2)]
        makes_emit [OF b(3)]]] "11.prems" True
    have "makes b b3 (ccode c (NODE_COND op l r))" by simp
    with b(4) show ?thesis by blast
  next
    case False
    with 11 obtain b1 where b: "compile_bytecode_expr c (NODE_COND op l r) b = Inr b1"
      "jump_pair lt le b1 = Inr b'" by (auto simp: compile_bytecode_cond.simps)
    from "11.IH"(3) [OF False "11.prems"(1) b(1)] b(2) False show ?thesis by auto
  qed
qed ((simp only: ccode.simps compile_bytecode_cond.simps bnd_eq_Inr; blast) |
  (simp add: compile_bytecode_expr.simps compile_bytecode_cond.simps makes_refl; fail))+

section \<open>Statements\<close>

fun is_stmt :: "cctx \<Rightarrow> node_expr \<Rightarrow> bool" where
  "is_stmt c (NODE_ASSOC v e) \<longleftrightarrow> is_expr c e"
| "is_stmt c (NODE_BINOP op l r) \<longleftrightarrow> is_stmt c l \<and> is_stmt c r"
| "is_stmt c (NODE_COND op l r) \<longleftrightarrow> is_stmt c l \<and> is_stmt c r"
| "is_stmt c (NODE_CALL f ps) \<longleftrightarrow> list_all (is_expr c) ps"
| "is_stmt c (NODE_REGSPLIT e p vs) \<longleftrightarrow> is_expr c e"
| "is_stmt c (NODE_IFSTMT e th el) \<longleftrightarrow> is_expr c e \<and> list_all (is_stmt c) th \<and>
     (case el of None \<Rightarrow> True | Some ss \<Rightarrow> list_all (is_stmt c) ss)"
| "is_stmt c e \<longleftrightarrow> True"

fun scode :: "cctx \<Rightarrow> node_expr \<Rightarrow> culong list" and acode :: "cctx \<Rightarrow> node_expr list \<Rightarrow> culong list" where
  "scode c (NODE_ASSOC v e) = ecode c e @ [W OP_POP, W v]"
| "scode c (NODE_BINOP op l r) = scode c l @ scode c r @ [W op]"
| "scode c (NODE_COND op l r) = scode c l @ scode c r @ [W op]"
| "scode c (NODE_CALL f ps) = ecode c (NODE_CALL f ps) @ [W OP_TRASH]"
| "scode c (NODE_REGSPLIT e p vs) = ecode c e @ [W OP_PUSHSTATIC, W p, W OP_REGSPLIT] @
     concat (map (\<lambda>v. [W OP_POP, W v]) vs)"
| "scode c (NODE_IFSTMT e th el) =
     ccode c e @ [W OP_POPCJMP, 2, W OP_JMP, W (length (acode c th) + 2)] @ acode c th @
     (case el of None \<Rightarrow> [W OP_JMP, 0]
      | Some ss \<Rightarrow> [W OP_JMP, W (length (acode c ss))] @ acode c ss)"
| "scode c e = ecode c e @ [W OP_TRASH]"
| "acode c [] = []"
| "acode c (e # es) = scode c e @ acode c es"

lemma makes_emit_pops: "emit_pops vs b = Inr b' \<Longrightarrow>
    makes b b' (concat (map (\<lambda>v. [W OP_POP, W v]) vs))"
proof (induction vs arbitrary: b)
  case (Cons v vs)
  then obtain b1 where "emits [OP_POP, v] b = Inr b1" "emit_pops vs b1 = Inr b'"
    by (auto simp del: emits.simps)
  from makes_trans [OF makes_emits [OF this(1)] Cons.IH [OF this(2)]] show ?case by simp
qed (simp add: makes_refl)

lemma NEW_LABEL3: "(let (t, b) = NEW_LABEL b; (e, b) = NEW_LABEL b; (d, b) = NEW_LABEL b in f t e d b) =
   f (labels_nb b) (labels_nb b + 1) (labels_nb b + 2) (new_labels 3 b)"
  by (simp add: NEW_LABEL_def new_labels_def numeral_eq_Suc)

lemma makes_if:
  fixes b :: code_buf
  defines "lt \<equiv> labels_nb b" and "le \<equiv> labels_nb b + 1" and "lend \<equiv> labels_nb b + 2"
  assumes m1: "makes (new_labels 3 b) b1 P" and j: "jump_pair lt le b1 = Inr b2"
    and s1: "SET_LABEL lt b2 = Inr b3" and m2: "makes b3 b4 T"
    and e: "emit OP_JMP b4 = Inr b5" and p: "PUT_LABEL lend b5 = Inr b6"
    and s2: "SET_LABEL le b6 = Inr b7" and m3: "makes b7 b8 E" and s3: "SET_LABEL lend b8 = Inr b'"
  shows "makes b b' (P @ [W OP_POPCJMP, 2, W OP_JMP, W (length T + 2)] @ T @
    [W OP_JMP, W (length E)] @ E)"
proof -
  note l = lt_def le_def lend_def
  note m1' = makesD [OF m1, simplified] and j' = jump_pair_frame [OF j] and s1' = SET_frame [OF s1]
    and m2' = makesD [OF m2] and e' = emit_frame [OF e] and p' = PUT_frame [OF p]
    and s2' = SET_frame [OF s2] and m3' = makesD [OF m3] and s3' = SET_frame [OF s3]
  have nb: "labels_nb b + 3 \<le> labels_nb b1" "labels_nb b3 = labels_nb b1"
    "labels_nb b7 = labels_nb b4" "labels_nb b' = labels_nb b8"
    using m1'(1) j' s1'(3) e' p' s2'(3) s3'(3) by simp_all
  have pos: "code_pos b1 = code_pos b + length P" "code_pos b2 = code_pos b + length P + 4"
    "code_pos b3 = code_pos b2" "code_pos b4 = code_pos b2 + length T"
    "code_pos b5 = code_pos b4 + 1" "code_pos b6 = code_pos b4 + 2" "code_pos b7 = code_pos b6"
    "code_pos b8 = code_pos b6 + length E" "code_pos b' = code_pos b8"
    using m1'(5) j' s1'(1) m2'(5) e' p' s2'(1) m3'(5) s3'(1) by simp_all
  have k12: "keeps S b1 b3" if "S \<subseteq> - {lt}" for S
    using s1'(4) [of S] that j'(1) by (auto simp: keeps_def)
  have k47: "keeps S b4 b7" if "S \<subseteq> - {le}" for S
    using s2'(4) [of S] that e' p' by (auto simp: keeps_def)
  have k3: "keeps S b3 b7" if "S \<subseteq> {..<labels_nb b3} - {le}" for S
  proof -
    have "keeps S b3 b4" "keeps S b4 b7" using that by (auto intro!: k47 keeps_mono [OF m2'(2)])
    then show ?thesis by (rule keeps_trans)
  qed
  have k7: "keeps S b7 b'" if "S \<subseteq> {..<labels_nb b7} - {lend}" for S
  proof -
    have "keeps S b7 b8" "keeps S b8 b'" using that by (auto intro!: s3'(4) keeps_mono [OF m3'(2)])
    then show ?thesis by (rule keeps_trans)
  qed
  have k37: "keeps S b3 b'" if "S \<subseteq> {..<labels_nb b3} - {le, lend}" for S
    using that nb m2'(1) by (intro keeps_trans [OF k3 k7]) auto
  have "keeps {..<labels_nb b} b b1" using m1'(2) by (auto simp: keeps_def)
  moreover have "keeps {..<labels_nb b} b1 b3" by (rule k12) (auto simp: l)
  moreover have "keeps {..<labels_nb b} b3 b'" using nb by (intro k37) (auto simp: l)
  ultimately have g: "grows b b'"
    using m1'(1,3,4) j' s1'(1,3,7) m2'(1,3,4) e' p' s2'(1,3,7) m3'(1,3,4) s3'(1,3,7)
    by (auto simp: grows_def roomy_def intro: keeps_trans)
  have "seg L b b' (P @ [W OP_POPCJMP, 2, W OP_JMP, W (length T + 2)] @ T @
    [W OP_JMP, W (length E)] @ E)" if L: "agrees {labels_nb b ..< labels_nb b'} L b'" for L
  proof -
    have nb': "labels_nb b3 \<le> labels_nb b7" "labels_nb b7 \<le> labels_nb b'"
      using nb m2'(1) m3'(1) by simp_all
    have "keeps {lt} b3 b'" using nb by (intro k37) (auto simp: l)
    then have 1: "lt < length (labels b')" "labels b' ! lt = code_pos b2"
      using s1'(5,6) by (auto simp: keeps_def)
    have "keeps {le} b7 b'" using nb m2'(1) by (intro k7) (auto simp: l)
    then have 2: "le < length (labels b')" "labels b' ! le = code_pos b6"
      using s2'(5,6) by (auto simp: keeps_def)
    have Ll: "lt < length L" "L ! lt = code_pos b2" "le < length L" "L ! le = code_pos b6"
      "lend < length L" "L ! lend = code_pos b8" "length L < 2 ^ 64"
      using agreesD [OF L, of lt] agreesD [OF L, of le] agreesD [OF L, of lend] 1 2 s3'(5,6) nb nb'
      by (simp_all add: l)
    have "keeps {labels_nb b + 3 ..< labels_nb b1} b1 b3" by (rule k12) (auto simp: l)
    moreover have "keeps {labels_nb b + 3 ..< labels_nb b1} b3 b'"
      using nb by (intro k37) (auto simp: l)
    ultimately have "keeps {labels_nb b + 3 ..< labels_nb b1} b1 b'" by (rule keeps_trans)
    with L have "agrees {labels_nb b + 3 ..< labels_nb b1} L b1"
      using nb nb' by (auto elim!: agrees_keeps)
    then have P: "seg L (new_labels 3 b) b1 P" using makesD(6) [OF m1, of L] by simp
    have "keeps {labels_nb b3 ..< labels_nb b4} b4 b7" using nb by (intro k47) (auto simp: l)
    moreover have "keeps {labels_nb b3 ..< labels_nb b4} b7 b'" using nb by (intro k7) (auto simp: l)
    ultimately have "keeps {labels_nb b3 ..< labels_nb b4} b4 b'" by (rule keeps_trans)
    with L have "agrees {labels_nb b3 ..< labels_nb b4} L b4"
      using nb nb' by (auto elim!: agrees_keeps)
    then have T: "seg L b3 b4 T" by (rule m2'(6))
    have "keeps {labels_nb b7 ..< labels_nb b8} b8 b'"
      using nb nb' by (intro s3'(4)) (auto simp: l)
    with L have "agrees {labels_nb b7 ..< labels_nb b8} L b8"
      using nb nb' by (auto elim!: agrees_keeps)
    then have E: "seg L b7 b8 E" by (rule m3'(6))
    have w: "jump_word L lt (code_pos b1 + 1) = W 2"
      "jump_word L le (code_pos b1 + 3) = W (length T + 2)"
      "jump_word L lend (code_pos b5) = W (length E)"
      by (rule jump_word_of_nat; simp add: Ll pos)+
    note segs = seg_trans [OF P seg_trans [OF jump_pair_seg [OF j Ll(1,3,7)]
        seg_trans [OF SET_seg [OF s1] seg_trans [OF T seg_trans [OF emit_seg [OF e]
        seg_trans [OF PUT_seg [OF p Ll(5,7)] seg_trans [OF SET_seg [OF s2]
        seg_trans [OF E SET_seg [OF s3]]]]]]]]]
    from segs show ?thesis
      by (simp only: w append.simps append_Nil2 seg_def new_labels_simps of_nat_numeral)
  qed
  with g show ?thesis using pos by (simp add: makes_def)
qed

lemma trash_makes:
  assumes "bnd (compile_bytecode_expr c e b) (\<lambda>b. bnd (exit_if_full 2 b) (emit OP_TRASH)) = Inr b'"
    and e: "is_expr c e \<or> e = NODE_UNKNOWN"
  shows "makes b b' (ecode c e @ [W OP_TRASH])"
proof -
  from assms(1) obtain b1 where b: "compile_bytecode_expr c e b = Inr b1" "emit OP_TRASH b1 = Inr b'"
    by (auto dest!: exit_if_full_same)
  have "makes b b1 (ecode c e)"
    using e compile_makes(1) [OF _ b(1)] b(1)
    by (auto simp: compile_bytecode_expr.simps makes_refl)
  with makes_emit [OF b(2)] show ?thesis by (blast intro: makes_trans)
qed

lemma stmt_makes:
  "is_stmt c e \<Longrightarrow> compile_bytecode_stmt c e b = Inr b' \<Longrightarrow> makes b b' (scode c e)"
  "list_all (is_stmt c) es \<Longrightarrow> compile_stmts c es b = Inr b' \<Longrightarrow> makes b b' (acode c es)"
proof (induction c e and c es arbitrary: b b' and b b' rule: scode_acode.induct)
  case (1 c v e)
  then obtain b1 where b: "compile_bytecode_expr c e b = Inr b1" "emits [OP_POP, v] b1 = Inr b'"
    by (auto simp del: emits.simps)
  from makes_trans [OF compile_makes(1) [OF _ b(1)] makes_emits [OF b(2)]] "1.prems"
  show ?case by simp
next
  case (2 c op l r)
  then obtain b1 b2 where b: "compile_bytecode_stmt c l b = Inr b1"
    "compile_bytecode_stmt c r b1 = Inr b2" "emit op b2 = Inr b'" by auto
  from makes_trans [OF "2.IH"(1) [OF _ b(1)] makes_trans [OF "2.IH"(2) [OF _ b(2)]
      makes_emit [OF b(3)]]] "2.prems" show ?case by simp
next
  case (3 c op l r)
  then obtain b1 b2 where b: "compile_bytecode_stmt c l b = Inr b1"
    "compile_bytecode_stmt c r b1 = Inr b2" "emit op b2 = Inr b'" by auto
  from makes_trans [OF "3.IH"(1) [OF _ b(1)] makes_trans [OF "3.IH"(2) [OF _ b(2)]
      makes_emit [OF b(3)]]] "3.prems" show ?case by simp
next
  case (4 c f ps)
  then obtain b1 where b: "compile_bytecode_expr c (NODE_CALL f ps) b = Inr b1"
    "emit OP_TRASH b1 = Inr b'" by (auto dest!: exit_if_full_same)
  from makes_trans [OF compile_makes(1) [OF _ b(1)] makes_emit [OF b(2)]] "4.prems"
  show ?case by simp
next
  case (5 c e p vs)
  then obtain b1 b2 where b: "compile_bytecode_expr c e b = Inr b1"
    "emits [OP_PUSHSTATIC, p, OP_REGSPLIT] b1 = Inr b2" "emit_pops vs b2 = Inr b'"
    by (auto simp del: emits.simps dest!: exit_if_full_same)
  from makes_trans [OF compile_makes(1) [OF _ b(1)] makes_trans [OF makes_emits [OF b(2)]
      makes_emit_pops [OF b(3)]]] "5.prems" show ?case by simp
next
  case (6 c e th el)
  note C = "6.prems"(2) [unfolded compile_bytecode_stmt.simps NEW_LABEL3]
  from C obtain b1 b2 b3 b4 b5 b6 b7 where
    b: "compile_bytecode_cond c e (labels_nb b) (labels_nb b + 1) (new_labels 3 b) = Inr b1"
      "SET_LABEL (labels_nb b) b1 = Inr b2" "compile_stmts c th b2 = Inr b3"
      "emit OP_JMP b3 = Inr b4" "PUT_LABEL (labels_nb b + 2) b4 = Inr b5"
      "SET_LABEL (labels_nb b + 1) b5 = Inr b6"
      "(case el of None \<Rightarrow> Inr b6 | Some ss \<Rightarrow> bnd (compile_stmts c ss b6) (exit_if_full 2)) = Inr b7"
      "SET_LABEL (labels_nb b + 2) b7 = Inr b'"
    by (auto dest!: exit_if_full_same)
  from compile_makes(3) [OF _ b(1)] "6.prems"(1) obtain x where
    c: "makes (new_labels 3 b) x (ccode c e)" "jump_pair (labels_nb b) (labels_nb b + 1) x = Inr b1"
    by auto
  have t: "makes b2 b3 (acode c th)" using "6.IH"(1) [OF _ b(3)] "6.prems"(1) by simp
  define E where "E = (case el of None \<Rightarrow> [] | Some ss \<Rightarrow> acode c ss)"
  have "makes b6 b7 E"
  proof (cases el)
    case None
    with b(7) show ?thesis by (simp add: E_def makes_refl)
  next
    case (Some ss)
    with b(7) have "compile_stmts c ss b6 = Inr b7" by (auto dest!: exit_if_full_same)
    with "6.IH"(3) [OF Some] "6.prems"(1) Some show ?thesis by (simp add: E_def)
  qed
  from makes_if [OF c b(2) t b(4,5,6) this b(8)] show ?case
    by (simp add: E_def split: option.splits)
next
  case (9 c e es)
  then obtain b1 where b: "compile_bytecode_stmt c e b = Inr b1" "compile_stmts c es b1 = Inr b'"
    by auto
  from makes_trans [OF "9.IH"(1) [OF _ b(1)] "9.IH"(2) [OF _ b(2)]] "9.prems" show ?case by simp
qed (use trash_makes in \<open>fastforce simp: makes_refl\<close>)+

section \<open>Fields and labels that an expression uses\<close>

fun fields_of :: "node_expr \<Rightarrow> nat list" and fields_of_params :: "node_expr list \<Rightarrow> nat list" where
  "fields_of (NODE_FIELD i) = [i]"
| "fields_of (NODE_BINOP _ l r) = fields_of l @ fields_of r"
| "fields_of (NODE_COND _ l r) = fields_of l @ fields_of r"
| "fields_of (NODE_CALL _ ps) = fields_of_params ps"
| "fields_of (NODE_ASSOC _ e) = fields_of e"
| "fields_of _ = []"
| "fields_of_params [] = []"
| "fields_of_params (e # es) = fields_of_params es @ fields_of e"

fun labels_of :: "node_expr \<Rightarrow> nat" and labels_of_params :: "node_expr list \<Rightarrow> nat" where
  "labels_of (NODE_BINOP _ l r) = labels_of l + labels_of r"
| "labels_of (NODE_COND _ l r) = 4 + labels_of l + labels_of r"
| "labels_of (NODE_CALL _ ps) = labels_of_params ps"
| "labels_of (NODE_ASSOC _ e) = labels_of e"
| "labels_of _ = 0"
| "labels_of_params [] = 0"
| "labels_of_params (e # es) = labels_of_params es + labels_of e"

definition clabels_of :: "node_expr \<Rightarrow> nat" where
  "clabels_of e = (if is_comparison e then labels_of e - 4 else labels_of e)"

text \<open>\<open>room b k f l\<close>: the buffer has room for \<open>k\<close> more words, \<open>f\<close> more fields and \<open>l\<close> more
  labels without a reallocation of the label array.  \<open>takes b b' k fs l\<close>: that much was used.\<close>

definition room :: "code_buf \<Rightarrow> nat \<Rightarrow> nat \<Rightarrow> nat \<Rightarrow> bool" where
  "room b k f l \<longleftrightarrow> code_pos b + k < BYTECODE_BUF_SZ - 2 \<and>
     length (used_fields b) + f \<le> MAX_FIELDS \<and> labels_nb b + l \<le> LABEL_GROW \<and>
     LABEL_GROW \<le> length (labels b)"

definition takes :: "code_buf \<Rightarrow> code_buf \<Rightarrow> nat \<Rightarrow> nat list \<Rightarrow> nat \<Rightarrow> bool" where
  "takes b b' k fs l \<longleftrightarrow> code_pos b' = code_pos b + k \<and> used_fields b' = used_fields b @ fs \<and>
     labels_nb b' \<le> labels_nb b + l \<and> length (labels b) \<le> length (labels b')"

lemmas size_defs = BYTECODE_BUF_SZ_def MAX_FIELDS_def LABEL_GROW_def

lemma takes_trans: "takes b b' k fs l \<Longrightarrow> takes b' b'' k' fs' l' \<Longrightarrow>
    takes b b'' (k + k') (fs @ fs') (l + l')"
  by (simp add: takes_def)

lemma room_takes: "room b k f l \<Longrightarrow> takes b b' k' fs l' \<Longrightarrow> k' + k'' \<le> k \<Longrightarrow>
    length fs + f'' \<le> f \<Longrightarrow> l' + l'' \<le> l \<Longrightarrow> room b' k'' f'' l''"
  by (auto simp: room_def takes_def size_defs)

text \<open>\<open>runs m k fs l\<close>: with that much room, the generator step \<open>m\<close> succeeds and takes it.\<close>

definition runs :: "(code_buf \<Rightarrow> fault + code_buf) \<Rightarrow> nat \<Rightarrow> nat list \<Rightarrow> nat \<Rightarrow> bool" where
  "runs m k fs l \<longleftrightarrow> (\<forall>b. room b k (length fs) l \<longrightarrow> (\<exists>b'. m b = Inr b' \<and> takes b b' k fs l))"

lemma runs_bnd:
  assumes "runs m k fs l" and "runs m' k' fs' l'"
  shows "runs (\<lambda>b. bnd (m b) m') (k + k') (fs @ fs') (l + l')"
  unfolding runs_def
proof (intro allI impI)
  fix b assume r: "room b (k + k') (length (fs @ fs')) (l + l')"
  then have "room b k (length fs) l" by (auto simp: room_def)
  with assms(1) obtain b1 where 1: "m b = Inr b1" "takes b b1 k fs l" by (auto simp: runs_def)
  have "room b1 k' (length fs') l'" using room_takes [OF r 1(2)] by simp
  with assms(2) obtain b2 where "m' b1 = Inr b2" "takes b1 b2 k' fs' l'" by (auto simp: runs_def)
  with 1 show "\<exists>b'. bnd (m b) m' = Inr b' \<and> takes b b' (k + k') (fs @ fs') (l + l')"
    by (auto intro: takes_trans)
qed

lemma runs_mono: "runs m k fs l \<Longrightarrow> l \<le> l' \<Longrightarrow> runs m k fs l'"
  by (fastforce simp: runs_def room_def takes_def)

lemma runs_eq: "runs m k fs l \<Longrightarrow> m = m' \<Longrightarrow> k = k' \<Longrightarrow> fs = fs' \<Longrightarrow> l = l' \<Longrightarrow> runs m' k' fs' l'"
  by simp

lemma runs_Inr: "runs Inr 0 [] 0"
  by (simp add: runs_def takes_def)

lemma runs_emit: "runs (emit w) 1 [] 0"
  by (auto simp: runs_def room_def takes_def emit_def size_defs)

lemma runs_emits: "runs (emits ws) (length ws) [] 0"
proof (induction ws)
  case Nil
  then show ?case using runs_Inr by (simp add: runs_def)
next
  case (Cons w ws)
  have "emits (w # ws) = (\<lambda>b. bnd (emit w b) (emits ws))" by (simp add: fun_eq_iff)
  with runs_bnd [OF runs_emit Cons, of w] show ?case by simp
qed

lemma runs_PUT: "runs (PUT_LABEL i) 1 [] 0"
  by (auto simp: runs_def room_def takes_def emit_def PUT_LABEL_def size_defs)

lemma runs_SET: "i < LABEL_GROW \<Longrightarrow> runs (SET_LABEL i) 0 [] 0"
  by (auto simp: runs_def room_def takes_def SET_LABEL_def Let_def)

lemma runs_exit_if_full: "runs (exit_if_full 2) 0 [] 0"
  by (auto simp: runs_def room_def takes_def exit_if_full_def size_defs)

lemma runs_use_field: "runs (use_field i) 0 [i] 0"
  by (auto simp: runs_def room_def takes_def use_field_def)

lemma runs_jump_pair: "runs (jump_pair lt le) 4 [] 0"
  by (rule runs_eq [OF runs_bnd [OF runs_emit runs_bnd [OF runs_PUT runs_bnd [OF runs_emit runs_PUT]]]])
    (simp_all add: jump_pair_def [abs_def])

lemma runs_push_bool: "le < LABEL_GROW \<Longrightarrow> ld < LABEL_GROW \<Longrightarrow> runs (push_bool c le ld) 6 [] 0"
  by (rule runs_eq [OF runs_bnd [OF runs_emits [of "[OP_PUSHSTATIC, static_1 c, OP_JMP]"]
    runs_bnd [OF runs_PUT runs_bnd [OF runs_SET runs_bnd
    [OF runs_emits [of "[OP_PUSHSTATIC, static_0 c]"] runs_SET]]]]])
    (simp_all add: push_bool_def [abs_def] del: emits.simps)

lemma runs_new_labels:
  assumes "\<And>n. n + k \<le> LABEL_GROW \<Longrightarrow> runs (m n) w fs l"
  shows "runs (\<lambda>b. m (labels_nb b) (new_labels k b)) w fs (k + l)"
  unfolding runs_def
proof (intro allI impI)
  fix b assume r: "room b w (length fs) (k + l)"
  then have "room (new_labels k b) w (length fs) l" "labels_nb b + k \<le> LABEL_GROW"
    by (auto simp: room_def new_labels_def)
  with assms obtain b' where "m (labels_nb b) (new_labels k b) = Inr b'"
    "takes (new_labels k b) b' w fs l" by (auto simp: runs_def)
  then show "\<exists>b'. m (labels_nb b) (new_labels k b) = Inr b' \<and> takes b b' w fs (k + l)"
    by (auto simp: takes_def)
qed

lemma runs_tail:
  assumes "runs cr kr fr lr" and "t < LABEL_GROW" "e < LABEL_GROW" "d < LABEL_GROW"
  shows "runs (\<lambda>b. bnd (cr b) (\<lambda>b. bnd (SET_LABEL t b) (push_bool c e d))) (kr + 6) fr lr"
  by (rule runs_eq [OF runs_bnd [OF assms(1) runs_bnd [OF runs_SET runs_push_bool]]])
    (simp_all add: assms(2-))

lemma runs_logic:
  assumes "runs cl kl fl ll" and "runs cr kr fr lr"
    and "i < LABEL_GROW" "t < LABEL_GROW" "e < LABEL_GROW" "d < LABEL_GROW"
  shows "runs (\<lambda>b. bnd (cl b) (\<lambda>b. bnd (SET_LABEL i b) (\<lambda>b. bnd (cr b) (\<lambda>b.
     bnd (SET_LABEL t b) (push_bool c e d))))) (kl + (kr + 6)) (fl @ fr) (ll + lr)"
  by (rule runs_eq [OF runs_bnd [OF assms(1) runs_bnd [OF runs_SET runs_tail [OF assms(2)]]]])
    (simp_all add: assms(3-))

lemma runs_cond_other:
  "runs m k fs l \<Longrightarrow> k' = k + 4 \<Longrightarrow> runs (\<lambda>b. bnd (m b) (jump_pair lt le)) k' fs l"
  using runs_bnd [OF _ runs_jump_pair, of m k fs l lt le] by simp

lemma compile_runs:
  "is_expr c e \<Longrightarrow> runs (compile_bytecode_expr c e) (length (ecode c e)) (fields_of e) (labels_of e)"
  "list_all (is_expr c) es \<Longrightarrow>
     runs (compile_params c es) (length (pcode c es)) (fields_of_params es) (labels_of_params es)"
  "is_expr c e' \<Longrightarrow> runs (compile_bytecode_cond c e' lt le)
     (length (ccode c e') + 4) (fields_of e') (clabels_of e')"
proof (induction c e and c es and c e' arbitrary: and and lt le rule: ecode_pcode_ccode.induct)
  case (1 c v e)
  then have "runs (compile_bytecode_expr c e) (length (ecode c e)) (fields_of e) (labels_of e)"
    by simp
  from runs_bnd [OF this runs_emits [of "[OP_POP, v, OP_PUSH, v]"]] show ?case
    by (rule runs_eq) (simp_all add: compile_bytecode_expr.simps [abs_def])
next
  case (2 c op l r)
  then have "runs (compile_bytecode_expr c l) (length (ecode c l)) (fields_of l) (labels_of l)"
    "runs (compile_bytecode_expr c r) (length (ecode c r)) (fields_of r) (labels_of r)" by simp_all
  from runs_bnd [OF this(1) runs_bnd [OF this(2) runs_emit]] show ?case
    by (rule runs_eq) (simp_all add: compile_bytecode_expr.simps [abs_def])
next
  case (3 c op l r)
  let ?m = "\<lambda>n b. if op = tok_ANDAND c then
           bnd (compile_bytecode_cond c l n (n + 2) b) (\<lambda>b. bnd (SET_LABEL n b) (\<lambda>b.
           bnd (compile_bytecode_cond c r (n + 1) (n + 2) b) (\<lambda>b.
           bnd (SET_LABEL (n + 1) b) (push_bool c (n + 2) (n + 3)))))
         else if op = tok_OROR c then
           bnd (compile_bytecode_cond c l (n + 1) n b) (\<lambda>b. bnd (SET_LABEL n b) (\<lambda>b.
           bnd (compile_bytecode_cond c r (n + 1) (n + 2) b) (\<lambda>b.
           bnd (SET_LABEL (n + 1) b) (push_bool c (n + 2) (n + 3)))))
         else if comparison_op op then
           bnd (compile_bytecode_cond c (NODE_COND op l r) (n + 1) (n + 2) b) (\<lambda>b.
           bnd (SET_LABEL (n + 1) b) (push_bool c (n + 2) (n + 3)))
         else Inr b"
  have "runs (?m n) (length (ecode c (NODE_COND op l r))) (fields_of (NODE_COND op l r))
     (labels_of l + labels_of r)" if n: "n + 4 \<le> LABEL_GROW" for n
  proof -
    have b: "n < LABEL_GROW" "n + 1 < LABEL_GROW" "n + 2 < LABEL_GROW" "n + 3 < LABEL_GROW"
      using n by auto
    have "clabels_of l \<le> labels_of l" "clabels_of r \<le> labels_of r" by (simp_all add: clabels_of_def)
    then have le: "clabels_of l + clabels_of r \<le> labels_of l + labels_of r" by simp
    consider "op = tok_ANDAND c" | "op \<noteq> tok_ANDAND c" "op = tok_OROR c"
      | "op \<noteq> tok_ANDAND c" "op \<noteq> tok_OROR c" "comparison_op op"
      using "3.prems"(1) by (auto simp: cond_op_def)
    then show ?thesis
    proof cases
      case 1
      with "3.prems" have "runs (compile_bytecode_cond c l n (n + 2)) (length (ccode c l) + 4)
          (fields_of l) (clabels_of l)"
        "runs (compile_bytecode_cond c r (n + 1) (n + 2)) (length (ccode c r) + 4)
          (fields_of r) (clabels_of r)" by (simp_all add: "3.IH"(1,2))
      from runs_mono [OF runs_logic [OF this b, of c] le] show ?thesis
        by (rule runs_eq) (simp_all add: bool_code_def fun_eq_iff 1)
    next
      case 2
      with "3.prems" have "runs (compile_bytecode_cond c l (n + 1) n) (length (ccode c l) + 4)
          (fields_of l) (clabels_of l)"
        "runs (compile_bytecode_cond c r (n + 1) (n + 2)) (length (ccode c r) + 4)
          (fields_of r) (clabels_of r)" by (simp_all add: "3.IH"(4,5))
      from runs_mono [OF runs_logic [OF this b, of c] le] show ?thesis
        by (rule runs_eq) (use 2 in \<open>simp_all add: bool_code_def fun_eq_iff\<close>)
    next
      case 3
      with "3.prems" have "runs (compile_bytecode_cond c (NODE_COND op l r) (n + 1) (n + 2))
          (length (ccode c (NODE_COND op l r)) + 4) (fields_of (NODE_COND op l r))
          (clabels_of (NODE_COND op l r))" by (intro "3.IH"(7))
      from runs_tail [OF this b(2,3,4), of c] show ?thesis
        by (rule runs_eq) (use 3 in \<open>simp_all add: bool_code_def clabels_of_def fun_eq_iff\<close>)
    qed
  qed
  then have "runs (\<lambda>b. ?m (labels_nb b) (new_labels 4 b)) (length (ecode c (NODE_COND op l r)))
    (fields_of (NODE_COND op l r)) (4 + (labels_of l + labels_of r))"
    by (rule runs_new_labels)
  then show ?case
    by (rule runs_eq) (simp_all only: compile_bytecode_expr.simps [abs_def] NEW_LABEL4
      labels_of.simps add.assoc)
next
  case (4 c i)
  from runs_bnd [OF runs_exit_if_full runs_bnd [OF runs_emits [of "[OP_PUSHFIELD, i]"] runs_use_field [of i]]] show ?case
    by (rule runs_eq) (simp_all add: compile_bytecode_expr.simps [abs_def])
next
  case (5 c i)
  from runs_bnd [OF runs_exit_if_full runs_emits [of "[OP_PUSH, i]"]] show ?case
    by (rule runs_eq) (simp_all add: compile_bytecode_expr.simps [abs_def])
next
  case (6 c i)
  from runs_bnd [OF runs_exit_if_full runs_emits [of "[OP_PUSHSTATIC, i]"]] show ?case
    by (rule runs_eq) (simp_all add: compile_bytecode_expr.simps [abs_def])
next
  case (7 c f ps)
  then have "runs (compile_params c ps) (length (pcode c ps)) (fields_of_params ps)
    (labels_of_params ps)" by simp
  from runs_bnd [OF this runs_bnd [OF runs_exit_if_full runs_emits [of "[OP_CALL, f]"]]] show ?case
    by (rule runs_eq) (simp_all add: compile_bytecode_expr.simps [abs_def])
next
  case (9 c)
  from runs_Inr show ?case by (rule runs_eq) (simp_all add: fun_eq_iff)
next
  case (10 c e es)
  then have "runs (compile_params c es) (length (pcode c es)) (fields_of_params es)
    (labels_of_params es)"
    "runs (compile_bytecode_expr c e) (length (ecode c e)) (fields_of e) (labels_of e)" by simp_all
  from runs_bnd [OF this] show ?case by (rule runs_eq) (simp_all add: fun_eq_iff)
next
  case (11 c op l r)
  show ?case
  proof (cases "comparison_op op")
    case True
    with 11 have "runs (compile_bytecode_expr c l) (length (ecode c l)) (fields_of l) (labels_of l)"
      "runs (compile_bytecode_expr c r) (length (ecode c r)) (fields_of r) (labels_of r)"
      by simp_all
    from runs_bnd [OF this(1) runs_bnd [OF this(2) runs_bnd [OF runs_emit [of op] runs_jump_pair [of lt le]]]]
    show ?thesis using True
      by (elim runs_eq) (simp_all add: compile_bytecode_cond.simps [abs_def] clabels_of_def)
  next
    case False
    with 11 have "runs (compile_bytecode_expr c (NODE_COND op l r))
      (length (ecode c (NODE_COND op l r))) (fields_of (NODE_COND op l r))
      (labels_of (NODE_COND op l r))" by (intro "11.IH"(3)) simp_all
    from runs_bnd [OF this runs_jump_pair [of lt le]] show ?thesis using False
      by (elim runs_eq) (simp_all add: compile_bytecode_cond.simps [abs_def] clabels_of_def)
  qed
qed (simp_all add: clabels_of_def compile_bytecode_cond.simps [abs_def] runs_cond_other)

section \<open>Complete programs\<close>

lemma init_runs:
  assumes "runs m k fs l" and "k < BYTECODE_BUF_SZ - 2" "length fs \<le> MAX_FIELDS" "l < LABEL_GROW"
  obtains b where "m init_buf = Inr b" and "takes init_buf b k fs l"
proof -
  have "room init_buf k (length fs) l" using assms(2-) by (auto simp: room_def init_buf_def size_defs)
  with assms(1) that show ?thesis by (auto simp: runs_def)
qed

lemma makes_set_labels:
  assumes m: "makes init_buf b xs" and small: "length xs \<le> BYTECODE_BUF_SZ"
  shows "compile_set_labels (labels b) (toset b) (bytecode b) = Inr xs"
proof -
  note m' = makesD [OF m]
  have "length (labels b) \<le> 1 + length xs + LABEL_GROW"
    using m'(3,4,5) by (auto simp: roomy_def init_buf_def size_defs)
  then have "length (labels b) < 2 ^ 64" using small by (simp add: size_defs)
  then have "agrees {labels_nb init_buf ..< labels_nb b} (labels b) b" by (simp add: agrees_def)
  then show ?thesis by (intro seg_set_labels m'(6))
qed

lemma length_set_labels: "compile_set_labels L ts code = Inr code' \<Longrightarrow> length code' = length code"
  by (induction ts arbitrary: code) (auto simp: at_eq_Inr)

text \<open>The fields that are recorded, in the order of the code, also when the arrays are nearly
  full.\<close>

definition uses :: "code_buf \<Rightarrow> code_buf \<Rightarrow> nat list \<Rightarrow> bool" where
  "uses b b' fs \<longleftrightarrow> used_fields b' = used_fields b @ fs \<and>
     (length (used_fields b) \<le> MAX_FIELDS \<longrightarrow> length (used_fields b') \<le> MAX_FIELDS)"

lemma uses_trans: "uses b b' fs \<Longrightarrow> uses b' b'' fs' \<Longrightarrow> uses b b'' (fs @ fs')"
  by (auto simp: uses_def)

lemma uses_none: "used_fields b' = used_fields b \<Longrightarrow> uses b b' []"
  by (simp add: uses_def)

lemma emit_uses: "emit w b = Inr b' \<Longrightarrow> used_fields b' = used_fields b"
  by (auto simp: emit_def split: if_splits)

lemma emits_uses: "emits ws b = Inr b' \<Longrightarrow> used_fields b' = used_fields b"
  by (induction ws arbitrary: b) (auto dest!: emit_uses)

lemma PUT_uses: "PUT_LABEL l b = Inr b' \<Longrightarrow> used_fields b' = used_fields b"
  by (auto simp: PUT_LABEL_def dest!: emit_uses)

lemma SET_uses: "SET_LABEL l b = Inr b' \<Longrightarrow> used_fields b' = used_fields b"
  by (auto simp: SET_LABEL_def Let_def split: if_splits)

lemma jump_pair_uses: "jump_pair lt le b = Inr b' \<Longrightarrow> used_fields b' = used_fields b"
  by (auto simp: jump_pair_def dest!: emit_uses PUT_uses)

lemma push_bool_uses: "push_bool c le ld b = Inr b' \<Longrightarrow> used_fields b' = used_fields b"
  by (auto simp: push_bool_def simp del: emits.simps dest!: emits_uses PUT_uses SET_uses)

lemma use_field_uses: "use_field i b = Inr b' \<Longrightarrow> uses b b' [i]"
  by (auto simp: use_field_def uses_def split: if_splits)

lemma uses_right: "uses b b1 fs \<Longrightarrow> used_fields b' = used_fields b1 \<Longrightarrow> uses b b' fs"
  unfolding uses_def by metis

lemma uses_left: "uses b1 b' fs \<Longrightarrow> used_fields b1 = used_fields b \<Longrightarrow> uses b b' fs"
  unfolding uses_def by metis

lemma logic_uses:
  assumes "bnd (cl (new_labels 4 b)) (\<lambda>b. bnd (SET_LABEL i b) (\<lambda>b. bnd (cr b) (\<lambda>b.
      bnd (SET_LABEL j b) (push_bool c k l)))) = Inr b'"
    and "\<And>b b'. cl b = Inr b' \<Longrightarrow> uses b b' fl" and "\<And>b b'. cr b = Inr b' \<Longrightarrow> uses b b' fr"
  shows "uses b b' (fl @ fr)"
proof -
  from assms(1) obtain b1 b2 b3 b4 where b: "cl (new_labels 4 b) = Inr b1"
    "SET_LABEL i b1 = Inr b2" "cr b2 = Inr b3" "SET_LABEL j b3 = Inr b4"
    "push_bool c k l b4 = Inr b'" by auto
  have "uses b b1 fl" using uses_left [OF assms(2) [OF b(1)]] by simp
  moreover have "uses b1 b3 fr" using uses_left [OF assms(3) [OF b(3)]] SET_uses [OF b(2)] by simp
  moreover have "used_fields b' = used_fields b3"
    using SET_uses [OF b(4)] push_bool_uses [OF b(5)] by simp
  ultimately show ?thesis by (blast intro: uses_right uses_trans)
qed

lemma cond_other_uses:
  assumes "bnd (m b) (jump_pair lt le) = Inr b'" and "\<And>b'. m b = Inr b' \<Longrightarrow> uses b b' fs"
  shows "uses b b' fs"
  using assms by (auto dest!: jump_pair_uses intro: uses_right)

lemma compile_uses:
  "is_expr c e \<Longrightarrow> compile_bytecode_expr c e b = Inr b' \<Longrightarrow> uses b b' (fields_of e)"
  "list_all (is_expr c) es \<Longrightarrow> compile_params c es b = Inr b' \<Longrightarrow> uses b b' (fields_of_params es)"
  "is_expr c e' \<Longrightarrow> compile_bytecode_cond c e' lt le b = Inr b' \<Longrightarrow> uses b b' (fields_of e')"
proof (induction c e and c es and c e' arbitrary: b b' and b b' and b b' lt le
    rule: ecode_pcode_ccode.induct)
  case (1 c v e)
  then obtain b1 where "compile_bytecode_expr c e b = Inr b1" "used_fields b' = used_fields b1"
    by (auto simp: compile_bytecode_expr.simps simp del: emits.simps dest!: emits_uses)
  with uses_right [OF "1.IH"] "1.prems" show ?case by simp
next
  case (2 c op l r)
  then obtain b1 b2 where "compile_bytecode_expr c l b = Inr b1"
    "compile_bytecode_expr c r b1 = Inr b2" "used_fields b' = used_fields b2"
    by (auto simp: compile_bytecode_expr.simps dest!: emit_uses)
  with uses_right [OF uses_trans [OF "2.IH"(1,2)]] "2.prems" show ?case by simp
next
  case (3 c op l r)
  note C = "3.prems"(2) [unfolded compile_bytecode_expr.simps NEW_LABEL4]
  have e: "is_expr c l" "is_expr c r" using "3.prems"(1) by auto
  consider "op = tok_ANDAND c" | "op \<noteq> tok_ANDAND c" "op = tok_OROR c"
    | "op \<noteq> tok_ANDAND c" "op \<noteq> tok_OROR c" "comparison_op op"
    using "3.prems"(1) by (auto simp: cond_op_def)
  then show ?case
  proof cases
    case 1
    from logic_uses [where cl = "compile_bytecode_cond c l (labels_nb b) (labels_nb b + 2)" and
        cr = "compile_bytecode_cond c r (labels_nb b + 1) (labels_nb b + 2)",
        OF C [unfolded if_P [OF 1]] "3.IH"(1) [OF 1 e(1)] "3.IH"(2) [OF 1 e(2)]]
    show ?thesis by simp
  next
    case 2
    from logic_uses [where cl = "compile_bytecode_cond c l (labels_nb b + 1) (labels_nb b)" and
        cr = "compile_bytecode_cond c r (labels_nb b + 1) (labels_nb b + 2)",
        OF C [unfolded if_not_P [OF 2(1)] if_P [OF 2(2)]]
      "3.IH"(4) [OF 2 e(1)] "3.IH"(5) [OF 2 e(2)]] show ?thesis by simp
  next
    case 3
    with C obtain b1 b2 where b: "compile_bytecode_cond c (NODE_COND op l r) (labels_nb b + 1)
        (labels_nb b + 2) (new_labels 4 b) = Inr b1"
      "SET_LABEL (labels_nb b + 1) b1 = Inr b2"
      "push_bool c (labels_nb b + 2) (labels_nb b + 3) b2 = Inr b'" by auto
    have "uses b b1 (fields_of (NODE_COND op l r))"
      using uses_left [OF "3.IH"(7) [OF 3 "3.prems"(1) b(1)]] by simp
    then show ?thesis using SET_uses [OF b(2)] push_bool_uses [OF b(3)] by (simp add: uses_right)
  qed
next
  case (4 c i)
  then show ?case
    by (auto simp: compile_bytecode_expr.simps simp del: emits.simps
        dest!: exit_if_full_same emits_uses use_field_uses intro: uses_left)
next
  case (7 c f ps)
  then obtain b1 where "compile_params c ps b = Inr b1" "used_fields b' = used_fields b1"
    by (auto simp: compile_bytecode_expr.simps simp del: emits.simps
        dest!: exit_if_full_same emits_uses)
  with uses_right [OF "7.IH"] "7.prems" show ?case by simp
next
  case (10 c e es)
  then obtain b1 where "compile_params c es b = Inr b1" "compile_bytecode_expr c e b1 = Inr b'"
    by auto
  with uses_trans [OF "10.IH"(1,2)] "10.prems" show ?case by simp
next
  case (11 c op l r)
  show ?case
  proof (cases "comparison_op op")
    case True
    with 11 obtain b1 b2 where "compile_bytecode_expr c l b = Inr b1"
      "compile_bytecode_expr c r b1 = Inr b2" "used_fields b' = used_fields b2"
      by (auto simp: compile_bytecode_cond.simps dest!: emit_uses jump_pair_uses)
    with uses_right [OF uses_trans [OF "11.IH"(1,2)]] "11.prems" True show ?thesis by simp
  next
    case False
    with 11 obtain b1 where "compile_bytecode_expr c (NODE_COND op l r) b = Inr b1"
      "used_fields b' = used_fields b1"
      by (auto simp: compile_bytecode_cond.simps dest!: jump_pair_uses)
    with uses_right [OF "11.IH"(3)] "11.prems" False show ?thesis by simp
  qed
next
  case (5 c i)
  then show ?case by (auto simp: compile_bytecode_expr.simps simp del: emits.simps
      intro!: uses_none dest!: exit_if_full_same emits_uses)
next
  case (6 c i)
  then show ?case by (auto simp: compile_bytecode_expr.simps simp del: emits.simps
      intro!: uses_none dest!: exit_if_full_same emits_uses)
qed ((simp add: uses_none; fail) |
  (simp only: compile_bytecode_cond.simps, erule cond_other_uses, blast))+

section \<open>Properties of the code generator\<close>

lemma trans_bytecode_cases:
  assumes "compile_trans_bytecode c e = Inr (code, flds)"
  obtains b where "compile_bytecode_expr c e init_buf = Inr b" and "flds = used_fields b"
    and "length (bytecode b) < BYTECODE_BUF_SZ - 2"
    and "\<forall>xs. compile_set_labels (labels b) (toset b) (bytecode b) = Inr xs \<longrightarrow> code = xs @ [0]"
proof -
  from assms obtain b xs where "compile_bytecode_expr c e init_buf = Inr b"
    "compile_set_labels (labels b) (toset b) (bytecode b) = Inr xs"
    "length xs < BYTECODE_BUF_SZ - 2" "code = xs @ [0]" "flds = used_fields b"
    by (auto simp: compile_trans_bytecode_def size_defs split: if_splits)
  with length_set_labels [of "labels b" "toset b" "bytecode b" xs] show ?thesis
    by (intro that [of b]) auto
qed

lemma trans_bytecode_ref:
  assumes e: "is_expr c e" and ok: "compile_trans_bytecode c e = Inr (code, flds)"
  shows "code = ecode c e @ [of_nat OP_END] \<and> flds = fields_of e \<and>
    length (ecode c e) < BYTECODE_BUF_SZ - 2 \<and> length flds \<le> MAX_FIELDS"
proof -
  from ok obtain b where b: "compile_bytecode_expr c e init_buf = Inr b" "flds = used_fields b"
    "length (bytecode b) < BYTECODE_BUF_SZ - 2"
    "\<forall>xs. compile_set_labels (labels b) (toset b) (bytecode b) = Inr xs \<longrightarrow> code = xs @ [0]"
    by (rule trans_bytecode_cases)
  have m: "makes init_buf b (ecode c e)" using e b(1) by (rule compile_makes)
  then have len: "length (ecode c e) = length (bytecode b)"
    by (simp add: makes_def init_buf_def)
  from makes_set_labels [OF m] len b(3,4) have "code = ecode c e @ [0]" by (simp add: size_defs)
  moreover have "uses init_buf b (fields_of e)" using e b(1) by (rule compile_uses)
  then have "used_fields b = fields_of e" "length (used_fields b) \<le> MAX_FIELDS"
    by (auto simp: uses_def init_buf_def)
  ultimately show ?thesis using b(2,3) len by simp
qed

text \<open>
  Claim C2: the code of a transition is correct whenever the compiler accepts the condition: it
  is the reference code of the expression, with all jumps resolved, followed by \<open>OP_END\<close>; it
  leaves two words of the buffer free; and the fields that are recorded as required are exactly
  those that the code pushes, in order, at most sixteen.
\<close>

theorem transition_code_correct:
  assumes e: "is_expr c e" and ok: "compile_trans_bytecode c e = Inr (code, flds)"
  shows "code = ecode c e @ [of_nat OP_END] \<and> flds = fields_of e \<and>
    length (ecode c e) < BYTECODE_BUF_SZ - 2 \<and> length flds \<le> MAX_FIELDS"
  using assms by (rule trans_bytecode_ref)

definition sample_ctx :: cctx where
  "sample_ctx = \<lparr>tok_ANDAND = 300, tok_OROR = 301, static_1 = 0, static_0 = 1\<rparr>"

definition sample_cond :: node_expr where
  "sample_cond = NODE_COND 300 (NODE_COND OP_CEQ (NODE_FIELD 3) (NODE_CONST 5))
     (NODE_COND OP_CGT (NODE_BINOP OP_ADD (NODE_VARIABLE 0) (NODE_CONST 6)) (NODE_FIELD 4))"

lemma sample_code: "ecode sample_ctx sample_cond =
   [5, 3, 4, 5, 22, 21, 2, 20, 16, 2, 0, 4, 6, 8, 5, 4, 27, 21, 2, 20, 4, 4, 0, 20, 2, 4, 1]"
  by (simp add: sample_cond_def sample_ctx_def bool_code_def comparison_op_def)

lemma is_expr_sample: "is_expr sample_ctx sample_cond"
  by (simp add: sample_cond_def sample_ctx_def cond_op_def comparison_op_def)

text \<open>
  Claim C5: the compiler accepts every condition that fits its tables: code of fewer than 1022
  words, at most sixteen field references, and fewer than 256 labels.  No array is overrun, and
  the result is the reference code.
\<close>

theorem transition_code_total:
  assumes "is_expr c e" and "length (ecode c e) < BYTECODE_BUF_SZ - 2"
    and "length (fields_of e) \<le> MAX_FIELDS" and "labels_of e < LABEL_GROW"
  shows "compile_trans_bytecode c e = Inr (ecode c e @ [of_nat OP_END], fields_of e)"
proof -
  from init_runs [OF compile_runs(1) [OF assms(1)] assms(2-4)] obtain b where
    b: "compile_bytecode_expr c e init_buf = Inr b"
      "takes init_buf b (length (ecode c e)) (fields_of e) (labels_of e)" by blast
  have "compile_set_labels (labels b) (toset b) (bytecode b) = Inr (ecode c e)"
    using makes_set_labels [OF compile_makes(1) [OF assms(1) b(1)]] assms(2) by (simp add: size_defs)
  with b assms(2) show ?thesis
    by (simp add: compile_trans_bytecode_def takes_def init_buf_def size_defs)
qed

theorem transition_code_total_witness:
  "compile_trans_bytecode sample_ctx sample_cond =
    Inr ([5, 3, 4, 5, 22, 21, 2, 20, 16, 2, 0, 4, 6, 8, 5, 4, 27, 21, 2, 20, 4, 4, 0, 20, 2, 4, 1, 0],
      [3, 4])"
  using transition_code_total [OF is_expr_sample]
  by (simp add: sample_code size_defs) (simp add: sample_cond_def)

lemma sample_compiles: "compile_trans_bytecode sample_ctx sample_cond =
    Inr (ecode sample_ctx sample_cond @ [of_nat OP_END], fields_of sample_cond)"
proof -
  obtain b where "compile_bytecode_expr sample_ctx sample_cond init_buf = Inr b"
    "takes init_buf b (length (ecode sample_ctx sample_cond)) (fields_of sample_cond)
      (labels_of sample_cond)"
    by (rule init_runs [OF compile_runs(1) [OF is_expr_sample]])
      (simp_all add: sample_code size_defs, simp_all add: sample_cond_def)
  with makes_set_labels [OF compile_makes(1) [OF is_expr_sample]] show ?thesis
    by (simp add: compile_trans_bytecode_def takes_def init_buf_def sample_code size_defs)
qed

theorem transition_code_correct_witness:
  "fields_of sample_cond = [3, 4] \<and> length (ecode sample_ctx sample_cond) < BYTECODE_BUF_SZ - 2"
  using transition_code_correct [OF is_expr_sample sample_compiles] by (simp add: sample_cond_def)

text \<open>
  A condition with more than sixteen field references is never compiled: the
  seventeenth store into \<open>used_fields\<close>, whose index is not checked, is outside the array (unless
  the compiler has stopped before).
\<close>

lemma too_many_fields:
  assumes "is_expr c e" and "MAX_FIELDS < length (fields_of e)"
  shows "\<exists>f. compile_trans_bytecode c e = Inl f"
  using trans_bytecode_ref [OF assms(1)] assms(2)
  by (cases "compile_trans_bytecode c e") fastforce+

lemma too_many_fields_witness:
  "\<exists>f. compile_trans_bytecode sample_ctx (NODE_CALL 0 (replicate 17 (NODE_FIELD 1))) = Inl f"
  using too_many_fields [of sample_ctx "NODE_CALL 0 (replicate 17 (NODE_FIELD 1))"]
  by (simp add: size_defs numeral_eq_Suc)

text \<open>
  Claim C6: the code of the actions of a state is the reference code of the statements: the
  branches of every \<open>if\<close> jump to where they should, whatever the nesting.
\<close>

theorem action_code_correct:
  assumes s: "list_all (is_stmt c) es" and ok: "compile_actions_ast c es = Inr (code, pushes)"
  shows "code = acode c es @ [of_nat OP_END] \<and> length code \<le> BYTECODE_BUF_SZ - 2"
proof -
  from ok obtain b b' where b: "compile_stmts c es init_buf = Inr b" "exit_if_full 2 b = Inr b"
    "emit OP_END b = Inr b'" "compile_set_labels (labels b') (toset b') (bytecode b') = Inr code"
    by (auto simp: compile_actions_ast_def compile_actions_bytecode_def dest: exit_if_full_same)
  have m: "makes init_buf b' (acode c es @ [W OP_END])"
    by (rule makes_trans [OF stmt_makes(2) [OF s b(1)] makes_emit [OF b(3)]])
  moreover have "length (bytecode b') \<le> BYTECODE_BUF_SZ - 2"
    using b(2) emit_frame [OF b(3)] by (auto simp: exit_if_full_def size_defs split: if_splits)
  moreover have "length (bytecode b') = length (acode c es @ [W OP_END])"
    using makesD(5) [OF m] by (simp add: init_buf_def)
  ultimately show ?thesis using makes_set_labels [OF m] b(4) by (simp add: size_defs)
qed

definition sample_actions :: "node_expr list" where
  "sample_actions = [NODE_IFSTMT (NODE_VARIABLE 0) [NODE_ASSOC 1 (NODE_CONST 5)]
     (Some [NODE_ASSOC 1 (NODE_FIELD 2)])]"

lemma sample_actions_compile: "compile_actions_ast sample_ctx sample_actions =
    Inr ([2, 0, 21, 2, 20, 6, 4, 5, 3, 1, 20, 4, 5, 2, 3, 1, 0], True)"
  by (simp add: sample_actions_def sample_ctx_def compile_actions_ast_def
      compile_actions_bytecode_def compile_bytecode_cond.simps compile_bytecode_expr.simps
      init_buf_def NEW_LABEL_def SET_LABEL_def PUT_LABEL_def emit_def exit_if_full_def use_field_def
      jump_pair_def size_defs nth_append)
    (simp add: numeral_2_eq_2 numeral_3_eq_3)

theorem action_code_correct_witness:
  "acode sample_ctx sample_actions = [2, 0, 21, 2, 20, 6, 4, 5, 3, 1, 20, 4, 5, 2, 3, 1]"
  using action_code_correct [OF _ sample_actions_compile]
  by (simp add: sample_actions_def)

end
