(* ===== verification/Disassembler_Laws.thy ===== *)
theory Disassembler_Laws
  imports Disassembler Compiler_Laws
begin

text \<open>
  A listing can be read back: the opcodes and operands of the lines are the code, and the listing of
  a compiled condition shows all of it.
\<close>

section \<open>Code that can be listed\<close>

text \<open>A sequence of complete instructions, without \<open>OP_END\<close>, \<open>OP_CESV\<close> and the opcodes that are
  not implemented.\<close>

definition one_word :: "nat \<Rightarrow> bool" where
  "one_word op \<longleftrightarrow> op = 1 \<or> op = 6 \<or> 8 \<le> op \<and> op \<le> 12 \<or> 22 \<le> op \<and> op \<le> 30"

definition two_words :: "nat \<Rightarrow> bool" where
  "two_words op \<longleftrightarrow> 2 \<le> op \<and> op \<le> 5 \<or> op = 7 \<or> op = 20 \<or> op = 21"

inductive instrs :: "culong list \<Rightarrow> bool" where
  empty: "instrs []"
| one: "one_word (unat w) \<Longrightarrow> instrs ws \<Longrightarrow> instrs (w # ws)"
| two: "two_words (unat w) \<Longrightarrow> instrs ws \<Longrightarrow> instrs (w # v # ws)"

lemma instrs_append: "instrs xs \<Longrightarrow> instrs ys \<Longrightarrow> instrs (xs @ ys)"
  by (induction rule: instrs.induct) (auto intro: instrs.intros)

text \<open>What a line says of the code.\<close>

fun line_code :: "listing_line \<Rightarrow> nat list" where
  "line_code l = ln_opcode l # (case ln_operand l of None \<Rightarrow> [] | Some w \<Rightarrow> [w])"

definition read_listing :: "listing_line list \<Rightarrow> nat list" where
  "read_listing ls = concat (map line_code ls)"

lemma entry_one: "one_word op \<Longrightarrow> \<exists>n. entry_of op = Some (Simple n op)"
proof -
  assume "one_word op"
  then have "op \<in> {1, 6, 8, 9, 10, 11, 12, 22, 23, 24, 25, 26, 27, 28, 29, 30}"
    unfolding one_word_def by (simp; presburger)
  then show ?thesis by (auto simp: entry_of_def)
qed

lemma entry_two: "two_words op \<Longrightarrow> \<exists>n. entry_of op = Some (Operand n) \<or> entry_of op = Some (Jump n)"
proof -
  assume "two_words op"
  then have "op \<in> {2, 3, 4, 5, 7, 20, 21}" unfolding two_words_def by (simp; presburger)
  then show ?thesis by (auto simp: entry_of_def)
qed

lemma list_one:
  assumes "off < length code" and "one_word (unat (code ! off))" and "list_code long code (off + 1) = Inr (ls, stop)"
  shows "\<exists>l. list_code long code off = Inr (l # ls, stop) \<and> line_code l = [unat (code ! off)]"
proof -
  from entry_one [OF assms(2)] obtain n where n: "entry_of (unat (code ! off)) = Some (Simple n (unat (code ! off)))" ..
  have "unat (code ! off) \<noteq> 0" using assms(2) by (auto simp: one_word_def)
  with assms n show ?thesis by (subst list_code.simps) (simp add: Let_def)
qed

lemma list_two:
  assumes "Suc off < length code" and "two_words (unat (code ! off))" and "list_code long code (off + 2) = Inr (ls, stop)"
  shows "\<exists>l. list_code long code off = Inr (l # ls, stop) \<and> line_code l = [unat (code ! off), unat (code ! Suc off)]"
proof -
  have "unat (code ! off) \<noteq> 0" using assms(2) by (auto simp: two_words_def)
  with assms entry_two [OF assms(2)] show ?thesis
    by (subst (1) list_code.simps) (auto simp: Let_def numeral_2_eq_2)
qed

lemma list_instrs:
  "instrs ws \<Longrightarrow> \<exists>ls. list_code long (pre @ ws @ [0]) (length pre) = Inr (ls, Listed) \<and>
     read_listing ls = map unat (ws @ [0])"
proof (induction arbitrary: pre rule: instrs.induct)
  case empty
  show ?case by (subst list_code.simps) (simp add: end_line_def read_listing_def)
next
  case (one w ws)
  from one.IH [of "pre @ [w]"] obtain ls where
    ls: "list_code long (pre @ (w # ws) @ [0]) (length pre + 1) = Inr (ls, Listed)" "read_listing ls = map unat (ws @ [0])"
    by auto
  from list_one [OF _ _ ls(1)] one.hyps(1) obtain l where
    "list_code long (pre @ (w # ws) @ [0]) (length pre) = Inr (l # ls, Listed)" "line_code l = [unat w]"
    by (auto simp: nth_append)
  with ls(2) show ?case by (intro exI [of _ "l # ls"]) (simp add: read_listing_def)
next
  case (two w ws v)
  from two.IH [of "pre @ [w, v]"] obtain ls where
    ls: "list_code long (pre @ (w # v # ws) @ [0]) (length pre + 2) = Inr (ls, Listed)" "read_listing ls = map unat (ws @ [0])"
    by auto
  from list_two [OF _ _ ls(1)] two.hyps(1) obtain l where
    "list_code long (pre @ (w # v # ws) @ [0]) (length pre) = Inr (l # ls, Listed)" "line_code l = [unat w, unat v]"
    by (auto simp: nth_append)
  with ls(2) show ?case by (intro exI [of _ "l # ls"]) (simp add: read_listing_def)
qed

section \<open>Compiled conditions\<close>

text \<open>The operators of the grammar.\<close>

fun grammar_ops :: "node_expr \<Rightarrow> bool" where
  "grammar_ops (NODE_BINOP op l r) \<longleftrightarrow> OP_ADD \<le> op \<and> op \<le> OP_MOD \<and> grammar_ops l \<and> grammar_ops r"
| "grammar_ops (NODE_COND op l r) \<longleftrightarrow> grammar_ops l \<and> grammar_ops r"
| "grammar_ops (NODE_CALL f ps) \<longleftrightarrow> list_all grammar_ops ps"
| "grammar_ops (NODE_ASSOC v e) \<longleftrightarrow> grammar_ops e"
| "grammar_ops e \<longleftrightarrow> True"

lemma instr_two: "two_words op \<Longrightarrow> instrs ws \<Longrightarrow> instrs (W op # v # ws)"
  by (intro instrs.two) (auto simp: two_words_def unat_of_nat)

lemma instr_one: "one_word op \<Longrightarrow> instrs [W op]"
  by (intro instrs.one instrs.empty) (auto simp: one_word_def unat_of_nat)

lemma instrs_jumps: "instrs [W OP_POPCJMP, a, W OP_JMP, b]"
  by (intro instr_two instrs.empty) (simp_all add: two_words_def)

lemma instrs_bool: "instrs (bool_code c)"
proof -
  have "two_words OP_PUSHSTATIC" "two_words OP_JMP" by (simp_all add: two_words_def)
  then show ?thesis unfolding bool_code_def by (intro instr_two instrs.empty)
qed

lemma instrs_tail: "instrs ([W OP_POPCJMP, a, W OP_JMP, b] @ bool_code c)"
  by (rule instrs_append [OF instrs_jumps instrs_bool])

lemma comparison_one_word: "comparison_op op \<Longrightarrow> one_word op"
  by (auto simp: comparison_op_def one_word_def)

lemma code_instrs:
  "grammar_ops e \<Longrightarrow> instrs (ecode c e)"
  "list_all grammar_ops es \<Longrightarrow> instrs (pcode c es)"
  "grammar_ops e \<Longrightarrow> instrs (ccode c e)"
proof (induction c e and c es and c e rule: ecode_pcode_ccode.induct)
  case (1 c v e)
  have "instrs [W OP_POP, W v, W OP_PUSH, W v]" by (intro instr_two instrs.empty) (simp_all add: two_words_def)
  with 1 show ?case by (simp add: instrs_append)
next
  case (2 c op l r)
  then have "one_word op" by (simp add: one_word_def)
  from instr_one [OF this] 2 show ?case by (simp add: instrs_append)
next
  case (3 c op l r)
  have g: "grammar_ops l" "grammar_ops r" using "3.prems" by simp_all
  consider "op = tok_ANDAND c" | "op \<noteq> tok_ANDAND c" "op = tok_OROR c"
    | "op \<noteq> tok_ANDAND c" "op \<noteq> tok_OROR c" "comparison_op op"
    | "op \<noteq> tok_ANDAND c" "op \<noteq> tok_OROR c" "\<not> comparison_op op" by blast
  then show ?case
  proof cases
    case 1
    with "3.IH"(1,2) g have "instrs (ccode c l)" "instrs (ccode c r)" by simp_all
    with 1 show ?thesis unfolding ecode.simps if_P [OF 1]
      by (intro instrs_append instrs_tail instrs_jumps instrs_bool)
  next
    case 2
    with "3.IH" g have "instrs (ccode c l)" "instrs (ccode c r)" by auto
    with 2 show ?thesis unfolding ecode.simps if_not_P [OF 2(1)] if_P [OF 2(2)]
      by (intro instrs_append instrs_tail instrs_jumps instrs_bool)
  next
    case 3
    with "3.IH" "3.prems" have "instrs (ccode c (NODE_COND op l r))" by simp
    with 3 show ?thesis unfolding ecode.simps if_not_P [OF 3(1)] if_not_P [OF 3(2)] if_P [OF 3(3)]
      by (intro instrs_append instrs_jumps instrs_bool)
  next
    case 4
    then show ?thesis by (simp add: instrs.empty)
  qed
next
  case (4 c i)
  have "instrs [W OP_PUSHFIELD, W i]" by (intro instr_two instrs.empty) (simp add: two_words_def)
  then show ?case by simp
next
  case (5 c i)
  have "instrs [W OP_PUSH, W i]" by (intro instr_two instrs.empty) (simp add: two_words_def)
  then show ?case by simp
next
  case (6 c i)
  have "instrs [W OP_PUSHSTATIC, W i]" by (intro instr_two instrs.empty) (simp add: two_words_def)
  then show ?case by simp
next
  case (7 c f ps)
  have "instrs [W OP_CALL, W f]" by (intro instr_two instrs.empty) (simp_all add: two_words_def)
  with 7 show ?case by (simp add: instrs_append)
next
  case (10 c e es)
  then show ?case by (simp add: instrs_append)
next
  case (11 c op l r)
  then show ?case by (cases "comparison_op op") (auto intro!: instrs_append instr_one comparison_one_word)
qed (simp_all add: instrs.empty)

section \<open>Properties\<close>

text \<open>
  Claim C39.  The listing of a compiled condition can be read back.  Both disassemblers reach the
  end of the code without reading outside it, and the opcodes and operands of the lines, one
  after the other, are the code.
\<close>

theorem listing_round_trip:
  assumes "is_expr c e" and "grammar_ops e" and "compile_trans_bytecode c e = Inr (code, flds)"
  shows "(\<exists>ls. fprintf_bytecode code = Inr (ls, Listed) \<and> read_listing ls = map unat code) \<and>
    (\<exists>ls. fprintf_bytecode_short code = Inr (ls, Listed) \<and> read_listing ls = map unat code)"
proof -
  have "code = ecode c e @ [0]" using trans_bytecode_ref [OF assms(1,3)] by simp
  with list_instrs [OF code_instrs(1) [OF assms(2)], where pre = "[]"] show ?thesis
    by (simp add: fprintf_bytecode_def fprintf_bytecode_short_def)
qed

theorem listing_round_trip_witness:
  "\<exists>code flds ls. compile_trans_bytecode sample_ctx sample_cond = Inr (code, flds) \<and>
     fprintf_bytecode code = Inr (ls, Listed) \<and> read_listing ls = map unat code"
proof -
  have "grammar_ops sample_cond" by (simp add: sample_cond_def)
  from listing_round_trip [OF is_expr_sample this sample_compiles] sample_compiles show ?thesis by blast
qed

text \<open>The names do not tell the instructions apart: a subtraction is listed as an addition in the
  long form, and \<open>OP_CESV\<close> shows the opcode of \<open>OP_REGSPLIT\<close>.\<close>

lemma listing_names:
  "fprintf_bytecode [9, 31, 0] = Inr ([
     \<lparr>long_form = True, ln_offset = 0, ln_opcode = 9, ln_column = None, ln_name = ''add'', ln_operand = None\<rparr>,
     \<lparr>long_form = True, ln_offset = 1, ln_opcode = 30, ln_column = None, ln_name = ''cesv'', ln_operand = None\<rparr>,
     end_line True (Suc (Suc 0))], Listed)"
  by (simp add: fprintf_bytecode_def list_code.simps entry_of_def name_of_def form_of_def Let_def)

end
