(* ===== verification/Rule_Builder_Laws.thy ===== *)
theory Rule_Builder_Laws
  imports Rule_Builder Hash_Table_Laws
begin

text \<open>
  What the rule compiler keeps true while it reads a rule.  The variables are numbered in the
  order of their first use, and the table of their names is the inverse of the environment;
  every resource number in a tree exists in the environments of its rule; the destinations of
  the transitions are states of the rule, with the name that the rule file gives.
\<close>

section \<open>The environment of variables\<close>

definition env_ok :: "rule_compiler \<Rightarrow> bool" where
  "env_ok c \<longleftrightarrow> htable (rule_env c) \<noteq> [] \<and> elmts (rule_env c) = int (length (dyn_var_name c)) \<and>
     (\<forall>n i. strhash_get (rule_env c) n = Inr (Some i) \<longleftrightarrow>
        i < length (dyn_var_name c) \<and> dyn_var_name c ! i = n) \<and>
     length (dyn_var_name c) \<le> dyn_var_name_sz c \<and> length (statics c) \<le> statics_sz c"

lemma strhash_get_same [simp]: "htable h \<noteq> [] \<Longrightarrow> strhash_get h k \<noteq> Inl e"
  using strings.get_total [of h k] by (auto simp: strhash_get_def)

lemma strhash_add_ok:
  assumes "htable h \<noteq> []"
  obtains h' where "strhash_add h d k = Inr h'" "htable h' \<noteq> []" "elmts h' = elmts h + 1"
    "\<And>k'. strhash_get h' k' = (if k' = k then Inr (Some d) else strhash_get h k')"
proof -
  from strings.add_total [OF assms] obtain h' where h': "tab_add strhash_djb h d k = Inr h'" by blast
  with strings.get_add [OF assms h'] strings.add_ok [OF assms h'] tab_size_add [OF h'] that [of h']
  show thesis by (simp add: strhash_add_def strhash_get_def strcmp_eq_iff)
qed

lemma strhash_get_clear: "htable h \<noteq> [] \<Longrightarrow> strhash_get (clear_strhash h) k = Inr None"
  by (simp add: strhash_get_def tab_get_def clear_strhash_def tab_clear_def tab_slot_def)

lemma env_distinct: "env_ok c \<Longrightarrow> distinct (dyn_var_name c)"
  unfolding env_ok_def distinct_conv_nth by (metis option.inject sum.inject(2))

text \<open>\<open>ext\<close>: the rule has grown, and nothing else has changed.\<close>

definition ext :: "rule_compiler \<Rightarrow> rule_compiler \<Rightarrow> bool" where
  "ext c c' \<longleftrightarrow> env_ok c' \<and> (\<exists>vs. dyn_var_name c' = dyn_var_name c @ vs) \<and>
     (\<exists>xs. statics c' = statics c @ xs) \<and>
     c' = c\<lparr>rule_env := rule_env c', dyn_var_name := dyn_var_name c',
       dyn_var_name_sz := dyn_var_name_sz c', statics := statics c', statics_sz := statics_sz c'\<rparr>"

lemma extends_refl: "env_ok c \<Longrightarrow> ext c c"
  by (simp add: ext_def)

lemma extends_trans:
  assumes "ext a b" and "ext b c" shows "ext a c"
proof -
  from assms(1) have b: "b = a\<lparr>rule_env := rule_env b, dyn_var_name := dyn_var_name b,
       dyn_var_name_sz := dyn_var_name_sz b, statics := statics b, statics_sz := statics_sz b\<rparr>"
    by (simp add: ext_def)
  from assms(2) have c: "c = b\<lparr>rule_env := rule_env c, dyn_var_name := dyn_var_name c,
       dyn_var_name_sz := dyn_var_name_sz c, statics := statics c, statics_sz := statics_sz c\<rparr>"
    by (simp add: ext_def)
  have "c = a\<lparr>rule_env := rule_env c, dyn_var_name := dyn_var_name c,
       dyn_var_name_sz := dyn_var_name_sz c, statics := statics c, statics_sz := statics_sz c\<rparr>"
    by (subst c, subst b) simp
  with assms show ?thesis by (auto simp: ext_def)
qed

lemma ext_env_ok: "ext a b \<Longrightarrow> env_ok b"
  by (simp add: ext_def)

lemma ext_length:
  "ext a b \<Longrightarrow> length (dyn_var_name a) \<le> length (dyn_var_name b) \<and> length (statics a) \<le> length (statics b)"
  by (auto simp: ext_def)

lemma ext_statics: "ext a b \<Longrightarrow> i < length (statics a) \<Longrightarrow> statics b ! i = statics a ! i"
  by (auto simp: ext_def nth_append)

lemma ext_same:
  assumes "ext a b"
  shows "fields_hash b = fields_hash a" "functions_hash b = functions_hash a"
    "rulenames_hash b = rulenames_hash a" "statenames_hash b = statenames_hash a"
    "node_states b = node_states a" "rule_list b = rule_list a" "rules b = rules a"
    "sid_1 b = sid_1 a" "sid_0 b = sid_0 a"
proof -
  from assms have b: "b = a\<lparr>rule_env := rule_env b, dyn_var_name := dyn_var_name b,
       dyn_var_name_sz := dyn_var_name_sz b, statics := statics b, statics_sz := statics_sz b\<rparr>"
    by (simp add: ext_def)
  show "fields_hash b = fields_hash a" by (subst b) simp
  show "functions_hash b = functions_hash a" by (subst b) simp
  show "rulenames_hash b = rulenames_hash a" by (subst b) simp
  show "statenames_hash b = statenames_hash a" by (subst b) simp
  show "node_states b = node_states a" by (subst b) simp
  show "rule_list b = rule_list a" by (subst b) simp
  show "rules b = rules a" by (subst b) simp
  show "sid_1 b = sid_1 a" by (subst b) simp
  show "sid_0 b = sid_0 a" by (subst b) simp
qed

section \<open>Trees with existing resources\<close>

definition registered :: "nat strhash \<Rightarrow> nat set" where
  "registered h = snd ` set (tab_elements h)"

fun scoped :: "rule_compiler \<Rightarrow> node_expr \<Rightarrow> bool" where
  "scoped c NODE_UNKNOWN = False"
| "scoped c (NODE_BINOP _ l r) = (scoped c l \<and> scoped c r)"
| "scoped c (NODE_COND _ l r) = (scoped c l \<and> scoped c r)"
| "scoped c (NODE_FIELD f) = (f \<in> registered (fields_hash c))"
| "scoped c (NODE_VARIABLE i) = (i < length (dyn_var_name c))"
| "scoped c (NODE_CONST i) = (i < length (statics c))"
| "scoped c (NODE_CALL f ps) = (f \<in> registered (functions_hash c) \<and> (\<forall>p \<in> set ps. scoped c p))"
| "scoped c (NODE_ASSOC v e) = (v < length (dyn_var_name c) \<and> scoped c e)"
| "scoped c (NODE_REGSPLIT e pat vs) =
     (scoped c e \<and> pat < length (statics c) \<and> (\<forall>v \<in> set vs. v < length (dyn_var_name c)) \<and>
      (case vdata (statics c ! pat) of VSRegex _ _ n \<Rightarrow> n = of_nat (length vs) | _ \<Rightarrow> False))"
| "scoped c (NODE_IFSTMT e th el) =
     (scoped c e \<and> (\<forall>s \<in> set th. scoped c s) \<and>
      (case el of None \<Rightarrow> True | Some ss \<Rightarrow> (\<forall>s \<in> set ss. scoped c s)))"

lemma scoped_ext: "ext a b \<Longrightarrow> scoped a e \<Longrightarrow> scoped b e"
proof (induction e)
  case (NODE_IFSTMT e th el)
  then show ?case by (cases el) auto
qed (use ext_length ext_same ext_statics in \<open>fastforce split: ovm_data.splits\<close>)+

lemma chain_find_in: "chain_find eq k es = Some d \<Longrightarrow> d \<in> snd ` set es"
  by (induction eq k es rule: chain_find.induct) (auto split: if_splits)

lemma get_registered: "strhash_get h n = Inr (Some f) \<Longrightarrow> f \<in> registered h"
proof -
  assume "strhash_get h n = Inr (Some f)"
  then obtain i where i: "tab_slot strhash_djb h n = Inr i" "chain_find strcmp_eq n (htable h ! i) = Some f"
    by (auto simp: strhash_get_def tab_get_def)
  then have "htable h ! i \<in> set (htable h)" by (auto simp: tab_slot_def split: if_splits)
  with chain_find_in [OF i(2)] show ?thesis by (simp add: registered_def tab_elements_def image_UN) blast
qed

section \<open>The building functions\<close>

definition nl_ok :: "'a nodelist \<Rightarrow> bool" where
  "nl_ok l \<longleftrightarrow> 0 < nl_grow l \<and> length (nl_items l) \<le> nl_size l"

lemma nl_ok_build: "0 < n \<Longrightarrow> nl_ok (nodelist_build n x) \<and> nl_items (nodelist_build n x) = [x]"
  by (simp add: nl_ok_def nodelist_build_def)

lemma nodelist_add_ok:
  "nl_ok l \<Longrightarrow> \<exists>l'. nodelist_add l x = Inr l' \<and> nl_ok l' \<and> nl_items l' = nl_items l @ [x]"
  by (auto simp: nl_ok_def nodelist_add_def Let_def)

lemma var_res_id_ok:
  assumes "env_ok c"
  shows "\<exists>i c'. var_res_id v c = Inr (i, c') \<and> ext c c' \<and>
    i < length (dyn_var_name c') \<and> dyn_var_name c' ! i = v"
proof (cases "strhash_get (rule_env c) v")
  case (Inl e) with assms show ?thesis by (simp add: env_ok_def)
next
  case (Inr r)
  note e = assms [unfolded env_ok_def]
  show ?thesis
  proof (cases r)
    case (Some i)
    with Inr have g: "strhash_get (rule_env c) v = Inr (Some i)" by simp
    then have "var_res_id v c = Inr (i, c)" by (simp add: var_res_id_def)
    moreover from g e have "i < length (dyn_var_name c) \<and> dyn_var_name c ! i = v" by blast
    ultimately show ?thesis using extends_refl [OF assms] by blast
  next
    case None
    let ?n = "length (dyn_var_name c)"
    from strhash_add_ok [of "rule_env c" ?n v] e obtain h where h:
      "strhash_add (rule_env c) ?n v = Inr h" "htable h \<noteq> []" "elmts h = elmts (rule_env c) + 1"
      "\<And>k'. strhash_get h k' = (if k' = v then Inr (Some ?n) else strhash_get (rule_env c) k')" by blast
    have new: "v \<notin> set (dyn_var_name c)"
    proof
      assume "v \<in> set (dyn_var_name c)"
      then obtain i where "i < length (dyn_var_name c)" "dyn_var_name c ! i = v"
        by (auto simp: in_set_conv_nth)
      with e have "strhash_get (rule_env c) v = Inr (Some i)" by blast
      with None Inr show False by simp
    qed
    define z where "z = (if ?n = dyn_var_name_sz c then dyn_var_name_sz c + STATICS_SZ else dyn_var_name_sz c)"
    define c' where "c' = c\<lparr>rule_env := h, dyn_var_name := dyn_var_name c @ [v], dyn_var_name_sz := z\<rparr>"
    have z: "?n < z" using e by (simp add: z_def STATICS_SZ_def)
    then have add: "dynamic_add v (c\<lparr>rule_env := h\<rparr>) = Inr c'"
      by (simp add: dynamic_add_def Let_def c'_def z_def split: if_splits)
    have "env_ok c'" unfolding env_ok_def c'_def using e h(2,3,4) new z
      by (auto simp: nth_append less_Suc_eq)
    moreover have "var_res_id v c = Inr (?n, c')" using None Inr e h(1) add by (simp add: var_res_id_def)
    moreover have "ext c c'" unfolding ext_def using calculation(1) by (simp add: c'_def)
    ultimately show ?thesis by (intro exI [of _ ?n] exI [of _ c']) (simp add: c'_def)
  qed
qed

lemma var_numbers:
  assumes "env_ok c"
  shows "\<exists>i c'. build_varname v c = Inr (NODE_VARIABLE i, c') \<and> env_ok c' \<and> dyn_var_name c' ! i = v \<and>
    (if v \<in> set (dyn_var_name c) then i < length (dyn_var_name c) \<and> dyn_var_name c' = dyn_var_name c
     else i = length (dyn_var_name c) \<and> dyn_var_name c' = dyn_var_name c @ [v])"
proof -
  from var_res_id_ok [OF assms, of v] obtain i c' where v: "var_res_id v c = Inr (i, c')" "ext c c'"
    "i < length (dyn_var_name c')" "dyn_var_name c' ! i = v" by blast
  have get: "strhash_get (rule_env c) v = Inr (Some j) \<longleftrightarrow>
      j < length (dyn_var_name c) \<and> dyn_var_name c ! j = v" for j
    using assms by (simp add: env_ok_def)
  have "if v \<in> set (dyn_var_name c) then i < length (dyn_var_name c) \<and> dyn_var_name c' = dyn_var_name c
     else i = length (dyn_var_name c) \<and> dyn_var_name c' = dyn_var_name c @ [v]"
  proof (cases "v \<in> set (dyn_var_name c)")
    case True
    then obtain j where j: "j < length (dyn_var_name c)" "dyn_var_name c ! j = v"
      by (auto simp: in_set_conv_nth)
    with get have "strhash_get (rule_env c) v = Inr (Some j)" by blast
    with v(1) j True show ?thesis by (auto simp: var_res_id_def)
  next
    case False
    then have "\<not> (\<exists>j. j < length (dyn_var_name c) \<and> dyn_var_name c ! j = v)" by auto
    with get have none: "strhash_get (rule_env c) v \<noteq> Inr (Some j)" for j by blast
    from v(1) obtain x where x: "strhash_get (rule_env c) v = Inr x" by (auto simp: var_res_id_def)
    with none have "x = None" by (cases x) auto
    with x v(1) assms False show ?thesis
      by (auto simp: var_res_id_def env_ok_def dynamic_add_def Let_def split: if_splits)
  qed
  with v show ?thesis by (auto simp: build_varname_def ext_env_ok)
qed

lemma build_const_ok:
  assumes "env_ok c"
  shows "\<exists>c'. build_const x c = Inr (NODE_CONST (length (statics c)), c') \<and> ext c c' \<and>
    statics c' = statics c @ [x]"
  using assms by (auto simp: build_const_def statics_add_def Let_def env_ok_def ext_def STATICS_SZ_def)

section \<open>Reading expressions\<close>

text \<open>A part of the parser makes a good node, or the compiler exits.\<close>

definition makes :: "(rule_compiler \<Rightarrow> 'n \<Rightarrow> bool) \<Rightarrow> rule_compiler \<Rightarrow> fault + 'n \<times> rule_compiler \<Rightarrow> bool" where
  "makes good c r \<longleftrightarrow> (case r of Inl f \<Rightarrow> f = ExitFailure | Inr (n, c') \<Rightarrow> ext c c' \<and> good c' n)"

lemma makes_Inl [simp]: "makes good c (Inl f) \<longleftrightarrow> f = ExitFailure"
  by (simp add: makes_def)

lemma makes_Inr [simp]: "makes good c (Inr (n, c')) \<longleftrightarrow> ext c c' \<and> good c' n"
  by (simp add: makes_def)

lemma makes_bnd:
  assumes "makes good c r" and "\<And>n c'. ext c c' \<Longrightarrow> good c' n \<Longrightarrow> makes good' c' (f (n, c'))"
  shows "makes good' c (bnd r f)"
proof (cases r)
  case (Inl e) with assms(1) show ?thesis by simp
next
  case (Inr x)
  obtain n c' where x: "x = (n, c')" by fastforce
  with Inr assms(1) have "ext c c'" "good c' n" by simp_all
  with assms(2) [OF this] extends_trans [of c c'] show ?thesis
    by (auto simp: Inr x makes_def split: sum.splits)
qed

lemma makes_weaken: "makes good c r \<Longrightarrow> (\<And>c n. good c n \<Longrightarrow> good' c n) \<Longrightarrow> makes good' c r"
  by (auto simp: makes_def split: sum.splits)

lemma make_varname: "env_ok c \<Longrightarrow> makes (\<lambda>c n. \<exists>i. n = NODE_VARIABLE i \<and> scoped c n) c (build_varname v c)"
  using var_res_id_ok [of c v] by (auto simp: build_varname_def)

lemma make_assoc: "env_ok c \<Longrightarrow> scoped c e \<Longrightarrow> makes scoped c (build_assoc v e c)"
  using var_res_id_ok [of c v] scoped_ext by (fastforce simp: build_assoc_def)

lemma make_const: "env_ok c \<Longrightarrow> makes scoped c (build_const x c)"
  using build_const_ok [of c x] by auto

lemmas build_consts = build_integer_def build_string_def build_ipv4_def build_ctime_from_int_def
  build_ctime_from_string_def build_timeval_from_int_def build_timeval_from_string_def
  build_counter_def build_regex_def

definition hashes_ok :: "rule_compiler \<Rightarrow> bool" where
  "hashes_ok c \<longleftrightarrow> htable (fields_hash c) \<noteq> [] \<and> htable (functions_hash c) \<noteq> []"

lemma hashes_ext: "ext a b \<Longrightarrow> hashes_ok b = hashes_ok a"
  by (simp add: hashes_ok_def ext_same)

lemma make_field:
  assumes "env_ok c" and "hashes_ok c"
  shows "makes scoped c (bnd (build_fieldname f c) (\<lambda>e. Inr (e, c)))"
proof (cases "strhash_get (fields_hash c) f")
  case (Inl e) with assms show ?thesis by (simp add: hashes_ok_def)
next
  case (Inr r) with assms show ?thesis
    by (cases r) (simp_all add: build_fieldname_def extends_refl get_registered)
qed

definition all_scoped :: "rule_compiler \<Rightarrow> node_expr nodelist \<Rightarrow> bool" where
  "all_scoped c l \<longleftrightarrow> nl_ok l \<and> nl_items l \<noteq> [] \<and> (\<forall>n \<in> set (nl_items l). scoped c n)"

lemma make_call:
  assumes "env_ok c" and "hashes_ok c" and "case l of None \<Rightarrow> True | Some l \<Rightarrow> all_scoped c l"
  shows "makes scoped c (bnd (build_function_call f l c) (\<lambda>n. Inr (n, c)))"
proof (cases "strhash_get (functions_hash c) f")
  case (Inl e) with assms show ?thesis by (simp add: hashes_ok_def)
next
  case (Inr r) with assms show ?thesis
    by (cases r; cases l)
      (simp_all add: build_function_call_def extends_refl get_registered all_scoped_def)
qed

lemma make_param: "env_ok c \<Longrightarrow> hashes_ok c \<Longrightarrow> makes scoped c (parse_param p c)"
  by (cases p) (auto simp: parse_param_def build_integer_def build_string_def make_field
    intro: make_const makes_weaken [OF make_varname])

text \<open>Lists of nodes that do not become worse when the rule grows.\<close>

lemma make_rest:
  assumes mono: "\<And>a b n. ext a b \<Longrightarrow> good a n \<Longrightarrow> good b n"
  shows "(\<And>x c. x \<in> set xs \<Longrightarrow> env_ok c \<Longrightarrow> hashes_ok c \<Longrightarrow> makes good c (p x c)) \<Longrightarrow>
    env_ok c \<Longrightarrow> hashes_ok c \<Longrightarrow> nl_ok l \<Longrightarrow> (\<forall>n \<in> set (nl_items l). good c n) \<Longrightarrow>
    makes (\<lambda>c l'. nl_ok l' \<and> length (nl_items l') = length (nl_items l) + length xs \<and>
      (\<forall>n \<in> set (nl_items l'). good c n)) c (parse_rest p l xs c)"
proof (induction xs arbitrary: l c)
  case Nil then show ?case by (simp add: extends_refl)
next
  case (Cons x xs)
  have step: "makes (\<lambda>c l'. nl_ok l' \<and> length (nl_items l') = length (nl_items l) + length (x # xs) \<and>
        (\<forall>n \<in> set (nl_items l'). good c n)) c' (case (n, c') of (n, ctx) \<Rightarrow>
          bnd (nodelist_add l n) (\<lambda>l. parse_rest p l xs ctx))"
    if c': "ext c c'" "good c' n" for n c'
  proof -
    from nodelist_add_ok [OF Cons.prems(4), of n] obtain l' where l':
      "nodelist_add l n = Inr l'" "nl_ok l'" "nl_items l' = nl_items l @ [n]" by blast
    from Cons.IH [of c' l'] l' c' mono [OF c'(1)] Cons.prems hashes_ext [OF c'(1)] ext_env_ok [OF c'(1)]
    show ?thesis by auto
  qed
  from Cons.prems have "makes good c (p x c)" by simp
  from makes_bnd [OF this step] show ?case by simp
qed

lemma make_params:
  assumes c: "env_ok c" "hashes_ok c"
  shows "makes (\<lambda>c l. case l of None \<Rightarrow> True | Some l \<Rightarrow> all_scoped c l) c (parse_list 8 parse_param ps c)"
proof (cases ps)
  case Nil with assms show ?thesis by (simp add: parse_list_def extends_refl)
next
  case (Cons p ps')
  have rest: "makes all_scoped c' (parse_rest parse_param (nodelist_build 8 n) ps' c')"
    if c': "ext c c'" "scoped c' n" for n c'
  proof (rule makes_weaken [OF make_rest [of scoped]])
    show "env_ok c'" "hashes_ok c'" using c c' by (simp_all add: ext_env_ok hashes_ext)
  qed (use c'(2) in \<open>auto simp: nl_ok_build all_scoped_def intro: make_param scoped_ext\<close>)
  have "makes (\<lambda>c l. case l of None \<Rightarrow> True | Some l \<Rightarrow> all_scoped c l) c'
      (bnd (parse_rest parse_param (nodelist_build 8 n) ps' c') (\<lambda>(l, ctx). Inr (Some l, ctx)))"
    if c': "ext c c'" "scoped c' n" for n c'
    by (rule makes_bnd [OF rest [OF c']]) (simp add: extends_refl ext_env_ok)
  then show ?thesis unfolding Cons parse_list_def list.case
    by (intro makes_bnd [OF make_param [OF c]]) simp
qed

lemma make_expr: "env_ok c \<Longrightarrow> hashes_ok c \<Longrightarrow> makes scoped c (parse_expr lc e c)"
proof (induction e arbitrary: c)
  case (SAssoc v e)
  from makes_bnd [OF SAssoc.IH [OF SAssoc.prems], of scoped "\<lambda>(n, ctx). build_assoc v n ctx"]
  show ?case using make_assoc ext_env_ok by auto
next
  case (SBinop op l r)
  have "makes scoped c' (bnd (parse_expr lc r c') (\<lambda>(n, ctx). Inr (build_expr_binop op m n, ctx)))"
    if c': "ext c c'" "scoped c' m" for m c'
    by (rule makes_bnd [OF SBinop.IH(2)])
      (use SBinop.prems c' in \<open>auto simp: build_expr_binop_def hashes_ext ext_env_ok extends_refl
        intro: scoped_ext\<close>)
  then show ?case by (auto intro: makes_bnd [OF SBinop.IH(1) [OF SBinop.prems]])
next
  case (SCond op l r)
  have "makes scoped c' (bnd (parse_expr lc r c') (\<lambda>(n, ctx). Inr (build_expr_cond op m n, ctx)))"
    if c': "ext c c'" "scoped c' m" for m c'
    by (rule makes_bnd [OF SCond.IH(2)])
      (use SCond.prems c' in \<open>auto simp: build_expr_cond_def hashes_ext ext_env_ok extends_refl
        intro: scoped_ext\<close>)
  then show ?case by (auto intro: makes_bnd [OF SCond.IH(1) [OF SCond.prems]])
next
  case (SCall f ps)
  have "makes scoped c' (bnd (build_function_call f l c') (\<lambda>n. Inr (n, c')))"
    if "ext c c'" "case l of None \<Rightarrow> True | Some l \<Rightarrow> all_scoped c' l" for l c'
    using that SCall.prems by (intro make_call) (simp_all add: hashes_ext ext_env_ok)
  then show ?case by (auto intro: makes_bnd [OF make_params [OF SCall.prems]])
qed (auto simp: build_consts make_field intro: make_const makes_weaken [OF make_varname] split: option.splits)

section \<open>Reading actions\<close>

definition var_ok :: "rule_compiler \<Rightarrow> nat \<Rightarrow> bool" where
  "var_ok c i \<longleftrightarrow> i < length (dyn_var_name c)"

lemma var_ok_ext: "ext a b \<Longrightarrow> var_ok a i \<Longrightarrow> var_ok b i"
  using ext_length by (fastforce simp: var_ok_def)

lemma make_var: "env_ok c \<Longrightarrow> makes var_ok c (parse_var v c)"
  unfolding parse_var_def
  by (rule makes_bnd [OF make_varname]) (auto simp: var_ok_def extends_refl ext_env_ok)

lemma split_statics:
  assumes "ext c1 c2" and "statics c2 = statics c1 @ [x]" and "ext c2 c4"
    and "c5 = c4\<lparr>statics := (statics c4)[length (statics c1) := y]\<rparr>"
  shows "ext c1 c5 \<and> length (statics c5) = length (statics c4) \<and> statics c5 ! length (statics c1) = y"
proof -
  from assms(2,3) obtain xs where xs: "statics c4 = statics c1 @ x # xs" by (auto simp: ext_def)
  with assms(4) have s5: "statics c5 = statics c1 @ y # xs" by simp
  have "ext c1 c4" by (rule extends_trans [OF assms(1,3)])
  then have c4: "c4 = c1\<lparr>rule_env := rule_env c4, dyn_var_name := dyn_var_name c4,
       dyn_var_name_sz := dyn_var_name_sz c4, statics := statics c4, statics_sz := statics_sz c4\<rparr>"
    "env_ok c4" "\<exists>vs. dyn_var_name c4 = dyn_var_name c1 @ vs"
    by (simp_all add: ext_def)
  from c4(2) xs have "env_ok c5" by (simp add: assms(4) env_ok_def)
  moreover have "c5 = c1\<lparr>rule_env := rule_env c5, dyn_var_name := dyn_var_name c5,
       dyn_var_name_sz := dyn_var_name_sz c5, statics := statics c5, statics_sz := statics_sz c5\<rparr>"
    unfolding assms(4) by (subst c4(1)) simp
  ultimately show ?thesis using s5 c4(3) xs by (simp add: ext_def assms(4))
qed

lemma make_split_rest:
  assumes h: "hashes_ok c1" and ok1: "env_ok c1" and c1: "scoped c1 (NODE_VARIABLE i)"
  shows "makes scoped c1 (bnd (build_split_regex (regcomp lc) pat c1) (\<lambda>(p, ctx).
    bnd (parse_var v1 ctx) (\<lambda>(i', ctx). bnd (parse_rest parse_var (build_varlist i') vs ctx)
      (\<lambda>(l, ctx). build_string_split (NODE_VARIABLE i) (res_id p) l ctx))))"
proof -
  let ?rest = "\<lambda>p. \<lambda>(i', ctx). bnd (parse_rest parse_var (build_varlist i') vs ctx)
      (\<lambda>(l, ctx). build_string_split (NODE_VARIABLE i) (res_id p) l ctx)"
  show ?thesis
  proof (cases "regcomp lc pat")
    case None then show ?thesis by (simp add: build_split_regex_def)
  next
    case (Some q)
    let ?x = "const_var \<lparr>vdata = VSRegex q pat 0, vflags = 0\<rparr>" and ?k = "length (statics c1)"
    from build_const_ok [OF ok1, of ?x] obtain c2 where c2:
      "build_split_regex (regcomp lc) pat c1 = Inr (NODE_CONST ?k, c2)"
      "ext c1 c2" "statics c2 = statics c1 @ [?x]"
      by (auto simp: build_split_regex_def Some)
    note ok2 = ext_env_ok [OF c2(2)]
    have h2: "hashes_ok c2" using h hashes_ext [OF c2(2)] by simp
    define mid where "mid = bnd (parse_var v1 c2) (\<lambda>(i', ctx). parse_rest parse_var (build_varlist i') vs ctx)"
    have mid: "makes (\<lambda>c l. \<forall>n \<in> set (nl_items l). var_ok c n) c2 mid"
      unfolding mid_def
    proof (rule makes_bnd [OF make_var [OF ok2]], unfold prod.case, rule makes_weaken [OF make_rest [of var_ok]])
      fix n c' assume "ext c2 c'" "var_ok c' n"
      then show "env_ok c'" "hashes_ok c'" "nl_ok (build_varlist n)" "\<forall>n \<in> set (nl_items (build_varlist n)). var_ok c' n"
        using h2 by (simp_all add: ext_env_ok hashes_ext build_varlist_def nl_ok_build)
    qed (auto intro: make_var var_ok_ext)
    have eq: "bnd (parse_var v1 c2) (?rest (NODE_CONST ?k)) =
      bnd mid (\<lambda>(l, ctx). build_string_split (NODE_VARIABLE i) ?k l ctx)"
      by (cases "parse_var v1 c2") (auto simp: mid_def)
    show ?thesis
    proof (cases mid)
      case (Inl e) with mid eq c2(1) show ?thesis by simp
    next
      case (Inr lx)
      obtain l c4 where lx: "lx = (l, c4)" by fastforce
      from mid Inr lx have c4: "ext c2 c4" "\<forall>n \<in> set (nl_items l). var_ok c4 n" by simp_all
      define y where "y = ?x\<lparr>vdata := VSRegex q pat (of_nat (length (nl_items l)))\<rparr>"
      define c5 where "c5 = c4\<lparr>statics := (statics c4)[?k := y]\<rparr>"
      from split_statics [OF c2(2,3) c4(1) c5_def]
      have c5: "ext c1 c5" "length (statics c5) = length (statics c4)" "statics c5 ! ?k = y" by simp_all
      have k: "?k < length (statics c4)" "statics c4 ! ?k = ?x"
        using ext_length [OF c4(1)] ext_statics [OF c4(1), of ?k] c2(3) by (auto simp: nth_append)
      have "build_string_split (NODE_VARIABLE i) ?k l c4 = Inr (NODE_REGSPLIT (NODE_VARIABLE i) ?k (nl_items l), c5)"
        using k by (simp add: build_string_split_def c5_def y_def const_var_def)
      then have "bnd (parse_var v1 c2) (?rest (NODE_CONST ?k)) =
          Inr (NODE_REGSPLIT (NODE_VARIABLE i) ?k (nl_items l), c5)"
        by (simp only: eq Inr lx bnd_Inr prod.case)
      moreover have "scoped c5 (NODE_REGSPLIT (NODE_VARIABLE i) ?k (nl_items l))"
        using c4(2) c5 k(1) scoped_ext [OF c5(1) c1] by (simp add: y_def var_ok_def c5_def)
      ultimately show ?thesis using c5(1) by (simp add: c2(1) del: bnd_eq_Inr scoped.simps)
    qed
  qed
qed

lemma make_split:
  assumes "env_ok c" and "hashes_ok c"
  shows "makes scoped c (parse_split lc v pat v1 vs c)"
  unfolding parse_split_def
  by (rule makes_bnd [OF make_varname [OF assms(1)]])
    (use assms in \<open>auto intro!: make_split_rest simp: hashes_ext ext_env_ok\<close>)

lemma parse_actions_rest: "parse_actions lc l as c = parse_rest (parse_action lc) l as c"
  by (induction as arbitrary: l c) (auto simp: actionlist_add_def cong: bnd_cong)

lemma make_actions:
  assumes "env_ok c" and "hashes_ok c" and n: "scoped c n"
    and "\<And>a c. a \<in> set as \<Longrightarrow> env_ok c \<Longrightarrow> hashes_ok c \<Longrightarrow> makes scoped c (parse_action lc a c)"
  shows "makes all_scoped c (parse_actions lc (build_actionlist n) as c)"
  unfolding parse_actions_rest
  by (rule makes_weaken [OF make_rest [of scoped]])
    (use assms in \<open>auto simp: build_actionlist_def nl_ok_build all_scoped_def intro: scoped_ext\<close>)

lemma make_block:
  assumes c: "env_ok c" "hashes_ok c"
    and a: "\<And>a c. a \<in> set (b # bs) \<Longrightarrow> env_ok c \<Longrightarrow> hashes_ok c \<Longrightarrow> makes scoped c (parse_action lc a c)"
    and f: "\<And>l c'. ext c c' \<Longrightarrow> all_scoped c' l \<Longrightarrow> makes good c' (f (l, c'))"
  shows "makes good c (bnd (parse_action lc b c) (\<lambda>(n, ctx).
    bnd (parse_actions lc (build_actionlist n) bs ctx) f))"
proof -
  have "makes good c' (bnd (parse_actions lc (build_actionlist n) bs c') f)"
    if c': "ext c c'" "scoped c' n" for n c'
  proof (rule makes_bnd [OF make_actions])
    show "env_ok c'" "hashes_ok c'" using c c' by (simp_all add: ext_env_ok hashes_ext)
  qed (use a f extends_trans [OF c'(1)] c'(2) in auto)
  then show ?thesis by (auto intro: makes_bnd [OF a [of b]] c)
qed

lemma make_action: "env_ok c \<Longrightarrow> hashes_ok c \<Longrightarrow> makes scoped c (parse_action lc a c)"
proof (induction a arbitrary: c)
  case (SExpr e) then show ?case by (simp add: make_expr)
next
  case (SSplit v pat v1 vs) then show ?case by (simp add: make_split)
next
  case (SIf e a as els)
  have els: "makes scoped c2 (case els of [] \<Rightarrow> Inr (build_expr_ifstmt n th None, c2)
     | b # bs \<Rightarrow> bnd (parse_action lc b c2) (\<lambda>(n2, ctx).
         bnd (parse_actions lc (build_actionlist n2) bs ctx) (\<lambda>(el, ctx).
         Inr (build_expr_ifstmt n th (Some el), ctx))))"
    if c2: "env_ok c2" "hashes_ok c2" "scoped c2 n" "all_scoped c2 th" for n th c2
  proof (cases els)
    case Nil with c2 show ?thesis by (simp add: build_expr_ifstmt_def all_scoped_def extends_refl)
  next
    case (Cons b bs)
    have "makes scoped c2 (bnd (parse_action lc b c2) (\<lambda>(n2, ctx).
         bnd (parse_actions lc (build_actionlist n2) bs ctx) (\<lambda>(el, ctx).
         Inr (build_expr_ifstmt n th (Some el), ctx))))"
      by (rule make_block [OF c2(1,2)])
        (use SIf.IH(3) Cons c2 in \<open>auto simp: build_expr_ifstmt_def all_scoped_def extends_refl ext_env_ok
          intro: scoped_ext\<close>)
    then show ?thesis by (simp add: Cons)
  qed
  have th: "makes scoped c1 (bnd (parse_action lc a c1) (\<lambda>(n1, ctx).
     bnd (parse_actions lc (build_actionlist n1) as ctx) (\<lambda>(th, ctx). case els of
       [] \<Rightarrow> Inr (build_expr_ifstmt n th None, ctx)
     | b # bs \<Rightarrow> bnd (parse_action lc b ctx) (\<lambda>(n2, ctx).
         bnd (parse_actions lc (build_actionlist n2) bs ctx) (\<lambda>(el, ctx).
         Inr (build_expr_ifstmt n th (Some el), ctx))))))"
    if c1: "ext c c1" "scoped c1 n" for n c1
  proof (rule make_block)
    show "env_ok c1" "hashes_ok c1" using SIf.prems c1 by (simp_all add: ext_env_ok hashes_ext)
  next
    fix a' c' assume "a' \<in> set (a # as)" "env_ok c'" "hashes_ok c'"
    then show "makes scoped c' (parse_action lc a' c')" using SIf.IH(1,2) by auto
  next
    fix l c2 assume c: "ext c1 c2" "all_scoped c2 l"
    have "env_ok c2" "hashes_ok c2" "scoped c2 n"
      using c c1 SIf.prems scoped_ext by (simp_all add: ext_env_ok hashes_ext)
    from els [OF this c(2)] show "makes scoped c2 (case (l, c2) of (th, ctx) \<Rightarrow> (case els of
       [] \<Rightarrow> Inr (build_expr_ifstmt n th None, ctx)
     | b # bs \<Rightarrow> bnd (parse_action lc b ctx) (\<lambda>(n2, ctx).
         bnd (parse_actions lc (build_actionlist n2) bs ctx) (\<lambda>(el, ctx).
         Inr (build_expr_ifstmt n th (Some el), ctx)))))" by simp
  qed
  show ?case unfolding parse_action.simps
    by (rule makes_bnd [OF make_expr [OF SIf.prems]]) (simp add: th)
qed

lemma make_actionlist:
  assumes c: "env_ok c" "hashes_ok c"
  shows "makes (\<lambda>c l. case l of None \<Rightarrow> True | Some l \<Rightarrow> all_scoped c l) c (parse_actionlist lc as c)"
proof (cases as)
  case Nil with c show ?thesis by (simp add: parse_actionlist_def extends_refl)
next
  case (Cons a as')
  show ?thesis unfolding parse_actionlist_def Cons list.case
    by (rule make_block [OF c]) (auto intro: make_action simp: extends_refl ext_env_ok)
qed

end
