(* ===== verification/Rule_Graph_Laws.thy ===== *)
theory Rule_Graph_Laws
  imports Rule_Builder_Laws
begin

text \<open>
  The states of a rule.  \<open>grow\<close> is the growth of the context while the body of a state is
  read; \<open>labelled\<close> is the table of the named states.  The last section compares the compiled
  rule with the graph that the rule file draws.
\<close>

section \<open>Bodies of states\<close>

fun src_dest :: "src_trans \<Rightarrow> byte list option" where
  "src_dest (SGoto _ d) = Some d"
| "src_dest (SJump d) = Some d"
| "src_dest (SSub _ _) = None"

definition trans_scoped :: "rule_compiler \<Rightarrow> node_trans \<Rightarrow> bool" where
  "trans_scoped c n \<longleftrightarrow> (case nt_cond n of None \<Rightarrow> True | Some e \<Rightarrow> scoped c e)"

definition trans_good :: "src_trans \<Rightarrow> node_trans \<Rightarrow> bool" where
  "trans_good t n \<longleftrightarrow> (nt_sub n = None \<longrightarrow> nt_dest n = src_dest t \<and> src_dest t \<noteq> None) \<and>
     (nt_sub n \<noteq> None \<longrightarrow> src_dest t = None \<and> nt_cond n \<noteq> None)"

definition node_scoped :: "rule_compiler \<Rightarrow> node_state \<Rightarrow> bool" where
  "node_scoped c s \<longleftrightarrow>
     (case ns_actions s of None \<Rightarrow> True | Some l \<Rightarrow> (\<forall>e \<in> set (nl_items l). scoped c e)) \<and>
     (case ns_trans s of None \<Rightarrow> True | Some l \<Rightarrow> (\<forall>n \<in> set (nl_items l). trans_scoped c n))"

fun body_trans :: "src_body \<Rightarrow> src_trans list" where "body_trans (Body _ ts) = ts"

definition body_good :: "src_body \<Rightarrow> node_state \<Rightarrow> bool" where
  "body_good b s \<longleftrightarrow> list_all2 trans_good (body_trans b)
     (case ns_trans s of None \<Rightarrow> [] | Some l \<Rightarrow> nl_items l)"

definition grow :: "rule_compiler \<Rightarrow> rule_compiler \<Rightarrow> bool" where
  "grow c c' \<longleftrightarrow> ext (c\<lparr>node_states := node_states c'\<rparr>) c' \<and>
     (\<exists>ns. node_states c' = node_states c @ ns \<and>
        (\<forall>s \<in> set ns. ns_name s = None \<and> ns_id s = 0 \<and> node_scoped c' s))"

lemma env_ok_nodes [simp]: "env_ok (c\<lparr>node_states := ns\<rparr>) = env_ok c"
  by (simp add: env_ok_def)

lemma scoped_nodes [simp]: "scoped (c\<lparr>node_states := ns\<rparr>) e = scoped c e"
  by (induction e) (auto split: option.splits)

lemma ext_nodes: "ext a b \<Longrightarrow> ext (a\<lparr>node_states := ns\<rparr>) (b\<lparr>node_states := ns\<rparr>)"
proof -
  assume e: "ext a b"
  then have b: "b = a\<lparr>rule_env := rule_env b, dyn_var_name := dyn_var_name b,
       dyn_var_name_sz := dyn_var_name_sz b, statics := statics b, statics_sz := statics_sz b\<rparr>"
    by (simp add: ext_def)
  have "b\<lparr>node_states := ns\<rparr> = a\<lparr>node_states := ns, rule_env := rule_env b, dyn_var_name := dyn_var_name b,
       dyn_var_name_sz := dyn_var_name_sz b, statics := statics b, statics_sz := statics_sz b\<rparr>"
    by (subst b) simp
  note eq = this
  from e have "env_ok b" "\<exists>vs. dyn_var_name b = dyn_var_name a @ vs" "\<exists>xs. statics b = statics a @ xs"
    by (simp_all add: ext_def)
  then show ?thesis by (simp add: ext_def eq [symmetric])
qed

lemma trans_scoped_ext: "ext a b \<Longrightarrow> trans_scoped a n \<Longrightarrow> trans_scoped b n"
  using scoped_ext by (auto simp: trans_scoped_def split: option.splits)

lemma node_scoped_ext: "ext a b \<Longrightarrow> node_scoped a s \<Longrightarrow> node_scoped b s"
  using scoped_ext trans_scoped_ext by (auto simp: node_scoped_def split: option.splits)

lemma trans_scoped_nodes [simp]: "trans_scoped (c\<lparr>node_states := ns\<rparr>) n = trans_scoped c n"
  by (simp add: trans_scoped_def split: option.splits)

lemma node_scoped_nodes [simp]: "node_scoped (c\<lparr>node_states := ns\<rparr>) s = node_scoped c s"
  by (simp add: node_scoped_def split: option.splits)

lemma ext_grow: "ext a b \<Longrightarrow> grow a b"
  using ext_same(5) [of a b] by (simp add: grow_def)

lemma grow_env_ok: "grow a b \<Longrightarrow> env_ok b"
  by (auto simp: grow_def dest: ext_env_ok)

lemma grow_hashes: "grow a b \<Longrightarrow> hashes_ok b = hashes_ok a"
  using hashes_ext [of "a\<lparr>node_states := node_states b\<rparr>" b] by (simp add: grow_def hashes_ok_def)

lemma scoped_grow: "grow a b \<Longrightarrow> scoped a e \<Longrightarrow> scoped b e"
  using scoped_ext [of "a\<lparr>node_states := node_states b\<rparr>" b] by (simp add: grow_def)

lemma trans_scoped_grow: "grow a b \<Longrightarrow> trans_scoped a n \<Longrightarrow> trans_scoped b n"
  using trans_scoped_ext [of "a\<lparr>node_states := node_states b\<rparr>" b] by (simp add: grow_def)

lemma node_scoped_grow: "grow a b \<Longrightarrow> node_scoped a s \<Longrightarrow> node_scoped b s"
  using node_scoped_ext [of "a\<lparr>node_states := node_states b\<rparr>" b] by (simp add: grow_def)

lemma grow_same:
  assumes "grow a b"
  shows "fields_hash b = fields_hash a" "functions_hash b = functions_hash a"
    "rulenames_hash b = rulenames_hash a" "statenames_hash b = statenames_hash a"
    "rule_list b = rule_list a" "rules b = rules a"
    "sid_1 b = sid_1 a" "sid_0 b = sid_0 a"
  using ext_same [of "a\<lparr>node_states := node_states b\<rparr>" b] assms by (simp_all add: grow_def)

lemma grow_length: "grow a b \<Longrightarrow> length (node_states a) \<le> length (node_states b)"
  by (auto simp: grow_def)

lemma grow_trans:
  assumes "grow a b" and "grow b c" shows "grow a c"
proof -
  from assms(1) obtain ns where ns: "node_states b = node_states a @ ns"
    "\<forall>s \<in> set ns. ns_name s = None \<and> ns_id s = 0 \<and> node_scoped b s" by (auto simp: grow_def)
  from assms(2) obtain ms where ms: "node_states c = node_states b @ ms"
    "\<forall>s \<in> set ms. ns_name s = None \<and> ns_id s = 0 \<and> node_scoped c s" by (auto simp: grow_def)
  from assms(1) have "ext (a\<lparr>node_states := node_states b\<rparr>) b" by (simp add: grow_def)
  from ext_nodes [OF this, of "node_states c"] assms(2)
  have "ext (a\<lparr>node_states := node_states c\<rparr>) c" by (auto simp: grow_def intro: extends_trans)
  with ns ms node_scoped_grow [OF assms(2)] show ?thesis by (auto simp: grow_def)
qed

lemma grow_build_state:
  assumes "env_ok c" and "node_scoped c \<lparr>ns_id = 0, ns_line = 0, ns_name = None, ns_actions = as, ns_trans = ts, ns_flags = 0\<rparr>"
    and "build_state as ts c = (a, c')"
  shows "grow c c' \<and> length (node_states c) \<le> a \<and> a < length (node_states c') \<and>
    ns_trans (node_states c' ! a) = ts"
proof -
  from assms(3) have c': "c' = c\<lparr>node_states := node_states c'\<rparr>" and a: "a = length (node_states c)"
    and n: "node_states c' = node_states c @ [\<lparr>ns_id = 0, ns_line = 0, ns_name = None, ns_actions = as,
       ns_trans = ts, ns_flags = 0\<rparr>]"
    by (auto simp: build_state_def)
  have "env_ok c'" using assms(1) by (subst c') simp
  then have "ext (c\<lparr>node_states := node_states c'\<rparr>) c'" by (subst (2) c') (use c' extends_refl in simp)
  moreover have "node_scoped c' s = node_scoped c s" for s by (subst c') simp
  ultimately show ?thesis using assms(2) by (simp add: grow_def n a)
qed

lemma makes_InrD: "makes good c r \<Longrightarrow> r = Inr (n, c') \<Longrightarrow> ext c c' \<and> good c' n"
  by simp

lemma nodelist_add_items: "nodelist_add l x = Inr l' \<Longrightarrow> nl_items l' = nl_items l @ [x]"
  by (auto simp: nodelist_add_def Let_def split: if_splits)

definition reads_trans :: "libc \<Rightarrow> src_trans \<Rightarrow> bool" where
  "reads_trans lc t \<longleftrightarrow> (\<forall>c n c'. parse_trans lc t c = Inr (n, c') \<longrightarrow> env_ok c \<longrightarrow> hashes_ok c \<longrightarrow>
     grow c c' \<and> trans_good t n \<and> trans_scoped c' n)"

definition reads_body :: "libc \<Rightarrow> src_body \<Rightarrow> bool" where
  "reads_body lc b \<longleftrightarrow> (\<forall>c a c'. parse_body lc b c = Inr (a, c') \<longrightarrow> env_ok c \<longrightarrow> hashes_ok c \<longrightarrow>
     grow c c' \<and> length (node_states c) \<le> a \<and> a < length (node_states c') \<and> body_good b (node_states c' ! a))"

lemma read_transs:
  "(\<And>t. t \<in> set ts \<Longrightarrow> reads_trans lc t) \<Longrightarrow> parse_transs lc l ts c = Inr (l', c') \<Longrightarrow>
   env_ok c \<Longrightarrow> hashes_ok c \<Longrightarrow> grow c c' \<and>
   (\<exists>ns. nl_items l' = nl_items l @ ns \<and> list_all2 trans_good ts ns \<and> (\<forall>n \<in> set ns. trans_scoped c' n))"
proof (induction ts arbitrary: l c)
  case Nil then show ?case using ext_grow [OF extends_refl] by simp
next
  case (Cons t ts)
  from Cons.prems(2) obtain n c1 l1 where s: "parse_trans lc t c = Inr (n, c1)"
    "transitionlist_add l n = Inr l1" "parse_transs lc l1 ts c1 = Inr (l', c')" by auto
  with Cons.prems have n: "grow c c1" "trans_good t n" "trans_scoped c1 n"
    by (auto simp: reads_trans_def)
  then have c1: "env_ok c1" "hashes_ok c1" using Cons.prems grow_env_ok grow_hashes by auto
  have l1: "nl_items l1 = nl_items l @ [n]" using s(2) by (simp add: transitionlist_add_def nodelist_add_items)
  from Cons.IH [OF Cons.prems(1) s(3) c1] obtain ns where "grow c1 c'" "nl_items l' = nl_items l1 @ ns"
    "list_all2 trans_good ts ns" "\<forall>n \<in> set ns. trans_scoped c' n" by auto
  with l1 n show ?case by (auto intro: grow_trans trans_scoped_grow intro!: exI [of _ "n # ns"])
qed

lemma read_trans_body: "reads_trans lc t" "reads_body lc b"
proof (induction t and b)
  case (SGoto e d)
  show ?case unfolding reads_trans_def
  proof (intro allI impI)
    fix c n c' assume "parse_trans lc (SGoto e d) c = Inr (n, c')" and c: "env_ok c" "hashes_ok c"
    then obtain m where m: "parse_expr lc e c = Inr (m, c')" "n = build_direct_transition (Some m) d" by auto
    with makes_InrD [OF make_expr [OF c] m(1)] show "grow c c' \<and> trans_good (SGoto e d) n \<and> trans_scoped c' n"
      by (auto simp: build_direct_transition_def trans_good_def trans_scoped_def ext_grow)
  qed
next
  case (SSub e b)
  show ?case unfolding reads_trans_def
  proof (intro allI impI)
    fix c n c' assume "parse_trans lc (SSub e b) c = Inr (n, c')" and c: "env_ok c" "hashes_ok c"
    then obtain m c1 a where m: "parse_expr lc e c = Inr (m, c1)" "parse_body lc b c1 = Inr (a, c')"
      "n = build_indirect_transition m a" by auto
    with makes_InrD [OF make_expr [OF c] m(1)] have "ext c c1" "scoped c1 m" by simp_all
    moreover from this SSub m(2) c have "grow c1 c'" by (auto simp: reads_body_def ext_env_ok hashes_ext)
    ultimately show "grow c c' \<and> trans_good (SSub e b) n \<and> trans_scoped c' n"
      by (auto simp: m(3) build_indirect_transition_def trans_good_def trans_scoped_def
          intro: ext_grow grow_trans scoped_grow)
  qed
next
  case (SJump d)
  show ?case
    by (auto simp: reads_trans_def build_unconditional_transition_test_def build_direct_transition_def
        trans_good_def trans_scoped_def intro: ext_grow extends_refl)
next
  case (Body as ts)
  show ?case unfolding reads_body_def
  proof (intro allI impI)
    fix c a c' assume p: "parse_body lc (Body as ts) c = Inr (a, c')" and c: "env_ok c" "hashes_ok c"
    then obtain acts c1 where c1: "parse_actionlist lc as c = Inr (acts, c1)" by auto
    from makes_InrD [OF make_actionlist [OF c] c1] have e1: "ext c c1"
      "case acts of None \<Rightarrow> True | Some l \<Rightarrow> all_scoped c1 l" by simp_all
    have ok1: "env_ok c1" "hashes_ok c1" using e1 c by (simp_all add: ext_env_ok hashes_ext)
    show "grow c c' \<and> length (node_states c) \<le> a \<and> a < length (node_states c') \<and>
        body_good (Body as ts) (node_states c' ! a)"
    proof (cases ts)
      case Nil
      with p c1 have "build_state acts None c1 = (a, c')" by auto
      from grow_build_state [OF ok1(1) _ this] e1 Nil grow_length [OF ext_grow [OF e1(1)]] show ?thesis
        by (auto simp: node_scoped_def all_scoped_def body_good_def intro: grow_trans ext_grow
            split: option.splits)
    next
      case (Cons t ts')
      with p c1 obtain n c2 l c3 where s: "parse_trans lc t c1 = Inr (n, c2)"
        "parse_transs lc (build_transitionlist n) ts' c2 = Inr (l, c3)"
        "build_state acts (Some l) c3 = (a, c')" by auto
      from s(1) Body [of t] Cons ok1 have n: "grow c1 c2" "trans_good t n" "trans_scoped c2 n"
        by (auto simp: reads_trans_def)
      then have ok2: "env_ok c2" "hashes_ok c2" using ok1 grow_env_ok grow_hashes by auto
      from read_transs [OF _ s(2) ok2] Body Cons obtain ns where ns: "grow c2 c3"
        "nl_items l = n # ns" "list_all2 trans_good ts' ns" "\<forall>n \<in> set ns. trans_scoped c3 n"
        by (auto simp: build_transitionlist_def nodelist_build_def)
      have g: "grow c c3" "grow c1 c3" using n ns ext_grow [OF e1(1)] by (blast intro: grow_trans)+
      have sc: "node_scoped c3 \<lparr>ns_id = 0, ns_line = 0, ns_name = None, ns_actions = acts,
          ns_trans = Some l, ns_flags = 0\<rparr>"
        using ns n trans_scoped_grow [OF ns(1)] scoped_grow [OF g(2)] e1(2)
        by (auto simp: node_scoped_def all_scoped_def split: option.splits)
      from grow_build_state [OF grow_env_ok [OF g(1)] sc s(3)] ns n g Cons grow_length [OF g(1)] show ?thesis
        by (auto simp: body_good_def intro: grow_trans)
    qed
  qed
qed

section \<open>The named states\<close>

abbreviation state_name :: "src_state \<Rightarrow> byte list" where
  "state_name d \<equiv> sym_name (src_sym d)"

definition state_at :: "rule_compiler \<Rightarrow> src_state \<Rightarrow> nat \<Rightarrow> nat \<Rightarrow> bool" where
  "state_at c d j a \<longleftrightarrow> a < length (node_states c) \<and> ns_name (node_states c ! a) = Some (state_name d) \<and>
     ns_id (node_states c ! a) = j \<and> body_good (src_body d) (node_states c ! a) \<and>
     node_scoped c (node_states c ! a)"

definition labelled :: "rule_compiler \<Rightarrow> nat list \<Rightarrow> src_state list \<Rightarrow> bool" where
  "labelled c as ds \<longleftrightarrow> htable (statenames_hash c) \<noteq> [] \<and> length as = length ds \<and> distinct as \<and>
     (\<forall>n a. strhash_get (statenames_hash c) n = Inr (Some a) \<longleftrightarrow>
        (\<exists>j < length as. as ! j = a \<and> state_name (ds ! j) = n)) \<and>
     (\<forall>j < length as. state_at c (ds ! j) j (as ! j))"

lemma labelledD:
  assumes "labelled c as ds"
  shows "htable (statenames_hash c) \<noteq> []" "length ds = length as" "distinct as"
    "strhash_get (statenames_hash c) n = Inr (Some a) \<longleftrightarrow>
       (\<exists>j < length as. as ! j = a \<and> state_name (ds ! j) = n)"
    "j < length as \<Longrightarrow> state_at c (ds ! j) j (as ! j)"
  using assms by (simp_all add: labelled_def)

definition reading :: "rule_compiler \<Rightarrow> nat list \<Rightarrow> src_state list \<Rightarrow> bool" where
  "reading c as ds \<longleftrightarrow> env_ok c \<and> hashes_ok c \<and> labelled c as ds"

definition same_rules :: "rule_compiler \<Rightarrow> rule_compiler \<Rightarrow> bool" where
  "same_rules c c' \<longleftrightarrow> rulenames_hash c' = rulenames_hash c \<and> rule_list c' = rule_list c \<and> rules c' = rules c"

lemma same_rules_trans: "same_rules a b \<Longrightarrow> same_rules b c \<Longrightarrow> same_rules a c"
  by (simp add: same_rules_def)

lemma scoped_statenames [simp]: "scoped (c\<lparr>statenames_hash := h\<rparr>) e = scoped c e"
  by (induction e) (auto split: option.splits)

lemma trans_scoped_statenames [simp]: "trans_scoped (c\<lparr>statenames_hash := h\<rparr>) n = trans_scoped c n"
  by (simp add: trans_scoped_def split: option.splits)

lemma node_scoped_statenames [simp]: "node_scoped (c\<lparr>statenames_hash := h\<rparr>) s = node_scoped c s"
  by (simp add: node_scoped_def split: option.splits)

lemma grow_labelled:
  assumes "grow c c'" and "labelled c as ds" shows "labelled c' as ds"
proof -
  from assms(1) obtain ns where ns: "node_states c' = node_states c @ ns" by (auto simp: grow_def)
  then have "state_at c d j a \<Longrightarrow> state_at c' d j a" for d j a
    using node_scoped_grow [OF assms(1)] by (simp add: state_at_def nth_append)
  with assms(2) grow_same(4) [OF assms(1)] show ?thesis by (simp add: labelled_def)
qed

lemma label_new:
  assumes l: "labelled c as ds" and a: "a < length (node_states c)" "a \<notin> set as"
    and g: "body_good (src_body d) (node_states c ! a)" "node_scoped c (node_states c ! a)"
    and n: "strhash_get (statenames_hash c) (state_name d) = Inr None"
    and h: "strhash_add (statenames_hash c) a (state_name d) = Inr h"
    and s: "ns_name s = Some (state_name d)" "ns_id s = length as"
      "ns_actions s = ns_actions (node_states c ! a)" "ns_trans s = ns_trans (node_states c ! a)"
  shows "labelled (c\<lparr>node_states := (node_states c)[a := s], statenames_hash := h\<rparr>) (as @ [a]) (ds @ [d])"
proof -
  note l' = labelledD [OF l]
  obtain h1 where h1: "strhash_add (statenames_hash c) a (state_name d) = Inr h1" "htable h1 \<noteq> []"
    "\<And>k'. strhash_get h1 k' = (if k' = state_name d then Inr (Some a) else strhash_get (statenames_hash c) k')"
    by (rule strhash_add_ok [OF l'(1), of a "state_name d"]) blast
  from h h1(1) have "h1 = h" by simp
  note h' = h1(2,3) [unfolded this]
  let ?c = "c\<lparr>node_states := (node_states c)[a := s], statenames_hash := h\<rparr>"
  have new: "\<not> (\<exists>j < length as. as ! j = b \<and> state_name (ds ! j) = state_name d)" for b
    using l'(4) [of "state_name d" b] by (simp only: n sum.inject option.distinct simp_thms)
  have get: "strhash_get h m = Inr (Some b) \<longleftrightarrow>
      (\<exists>j < length (as @ [a]). (as @ [a]) ! j = b \<and> state_name ((ds @ [d]) ! j) = m)" for m b
  proof -
    have "(\<exists>j < length (as @ [a]). (as @ [a]) ! j = b \<and> state_name ((ds @ [d]) ! j) = m) \<longleftrightarrow>
        (\<exists>j < length as. as ! j = b \<and> state_name (ds ! j) = m) \<or> a = b \<and> state_name d = m"
      by (simp add: less_Suc_eq nth_append l'(2) ex_disj_distrib conj_disj_distribR cong: conj_cong)
    with l'(4) [of m b] new [of b] show ?thesis by (cases "m = state_name d") (auto simp: h'(2))
  qed
  have old: "state_at ?c e j b" if "state_at c e j b" "b \<noteq> a" for e j b
    using that by (simp add: state_at_def)
  have "body_good b s = body_good b (node_states c ! a)" "node_scoped c s = node_scoped c (node_states c ! a)" for b
    by (simp_all add: body_good_def node_scoped_def s)
  with a(1) g s(1,2) have at_a: "state_at ?c d (length as) a" by (simp add: state_at_def)
  have "state_at ?c ((ds @ [d]) ! j) j ((as @ [a]) ! j)" if j: "j < length (as @ [a])" for j
  proof (cases "j < length as")
    case True
    with a(2) have "as ! j \<noteq> a" by auto
    from old [OF l'(5) [OF True] this] True l'(2) show ?thesis by (simp add: nth_append)
  next
    case False
    with j have "j = length as" by simp
    with at_a l'(2) show ?thesis by (simp add: nth_append)
  qed
  moreover have "length (as @ [a]) = length (ds @ [d])" "distinct (as @ [a])"
    using l'(2,3) a(2) by simp_all
  ultimately show ?thesis unfolding labelled_def using h'(1) get by simp
qed

lemma read_state:
  assumes r: "reading c as ds" and p: "parse_state lc d c = Inr (a, c1)"
    and i: "change_state a (\<lambda>s. s\<lparr>ns_id := length as\<rparr>) c1 = Inr c2"
  shows "reading c2 (as @ [a]) (ds @ [d]) \<and> same_rules c c2"
proof -
  from r have c: "env_ok c" "hashes_ok c" "labelled c as ds" by (simp_all add: reading_def)
  from p obtain cb where cb: "parse_body lc (src_body d) c = Inr (a, cb)"
    "set_state_label a (src_sym d) 0 cb = Inr c1" by (auto simp: parse_state_def)
  from read_trans_body(2) [of lc "src_body d"] cb(1) c(1,2) have b: "grow c cb" "length (node_states c) \<le> a"
    "a < length (node_states cb)" "body_good (src_body d) (node_states cb ! a)"
    by (auto simp: reads_body_def)
  have lab: "labelled cb as ds" by (rule grow_labelled [OF b(1) c(3)])
  from b(1) obtain ns where ns: "node_states cb = node_states c @ ns"
    "\<forall>s \<in> set ns. ns_name s = None \<and> ns_id s = 0 \<and> node_scoped cb s" by (auto simp: grow_def)
  note al = b(3)
  from b(2,3) ns(1) have "node_states cb ! a \<in> set ns" by (auto simp: nth_append)
  moreover have "a \<notin> set as" using labelledD(5) [OF c(3)] b(2) by (fastforce simp: state_at_def in_set_conv_nth)
  ultimately have nn: "node_scoped cb (node_states cb ! a)" "a \<notin> set as" using ns(2) by auto
  from cb(2) al obtain h where h: "strhash_get (statenames_hash cb) (state_name d) = Inr None"
    "strhash_add (statenames_hash cb) a (state_name d) = Inr h"
    "c1 = cb\<lparr>node_states := (node_states cb)[a := (node_states cb ! a)\<lparr>ns_name := Some (state_name d),
       ns_line := sym_line (src_sym d), ns_flags := 0\<rparr>], statenames_hash := h\<rparr>"
    by (auto simp: set_state_label_def change_state_def split: if_splits)
  let ?s = "(node_states cb ! a)\<lparr>ns_name := Some (state_name d),
       ns_line := sym_line (src_sym d), ns_flags := 0, ns_id := length as\<rparr>"
  have c2: "c2 = cb\<lparr>node_states := (node_states cb)[a := ?s], statenames_hash := h\<rparr>"
    using i al by (auto simp: change_state_def h(3))
  have "labelled c2 (as @ [a]) (ds @ [d])" unfolding c2
    by (rule label_new [OF lab al _ b(4) _ h(1,2)]) (use nn in simp_all)
  moreover have "env_ok c2" "hashes_ok c2" "same_rules c c2"
    using grow_env_ok [OF b(1)] grow_hashes [OF b(1)] c(2) grow_same [OF b(1)]
    by (simp_all add: c2 env_ok_def hashes_ok_def same_rules_def)
  ultimately show ?thesis by (simp add: reading_def)
qed

lemma built_id:
  assumes r: "reading c as ds" and p: "parse_state lc d c = Inr (a, c1)"
  shows "a < length (node_states c1) \<and> ns_id (node_states c1 ! a) = 0"
proof -
  from r have c: "env_ok c" "hashes_ok c" by (simp_all add: reading_def)
  from p obtain cb where cb: "parse_body lc (src_body d) c = Inr (a, cb)"
    "set_state_label a (src_sym d) 0 cb = Inr c1" by (auto simp: parse_state_def)
  from read_trans_body(2) [of lc "src_body d"] cb(1) c have b: "grow c cb" "length (node_states c) \<le> a"
    "a < length (node_states cb)" by (auto simp: reads_body_def)
  then obtain ns where "node_states cb = node_states c @ ns" "\<forall>s \<in> set ns. ns_id s = 0"
    by (auto simp: grow_def)
  with b(2,3) have "ns_id (node_states cb ! a) = 0" by (auto simp: nth_append)
  with cb(2) b(3) show ?thesis by (auto simp: set_state_label_def change_state_def split: if_splits)
qed

lemma read_init:
  assumes r: "reading c [] []" and p: "parse_state lc d c = Inr (a, c1)"
  shows "reading c1 [a] [d] \<and> same_rules c c1"
proof -
  have "(node_states c1)[a := (node_states c1 ! a)\<lparr>ns_id := 0\<rparr>] = node_states c1"
    using built_id [OF r p] by (simp add: list_update_same_conv)
  then have "change_state a (\<lambda>s. s\<lparr>ns_id := length []\<rparr>) c1 = Inr c1"
    using built_id [OF r p] by (simp add: change_state_def)
  from read_state [OF r p this] show ?thesis by simp
qed

abbreviation opt_items :: "'a nodelist option \<Rightarrow> 'a list" where
  "opt_items l \<equiv> (case l of None \<Rightarrow> [] | Some l \<Rightarrow> nl_items l)"

lemma read_more:
  "reading c (a0 # nl_items l) ds \<Longrightarrow> parse_more lc l es c = Inr (l', c') \<Longrightarrow>
   reading c' (a0 # nl_items l') (ds @ es) \<and> same_rules c c'"
proof (induction es arbitrary: l c ds)
  case Nil then show ?case by (simp add: same_rules_def)
next
  case (Cons e es)
  from Cons.prems(2) obtain a c1 l1 c2 where s: "parse_state lc e c = Inr (a, c1)"
    "statelist_add l a c1 = Inr (l1, c2)" "parse_more lc l1 es c2 = Inr (l', c')" by auto
  then have "change_state a (\<lambda>s. s\<lparr>ns_id := length (a0 # nl_items l)\<rparr>) c1 = Inr c2"
    and l1: "nl_items l1 = nl_items l @ [a]" by (auto simp: statelist_add_def nodelist_add_items)
  from read_state [OF Cons.prems(1) s(1) this(1)] have "reading c2 (a0 # nl_items l1) (ds @ [e])"
    "same_rules c c2" by (simp_all add: l1)
  from Cons.IH [OF this(1) s(3)] this(2) show ?case by (auto intro: same_rules_trans)
qed

lemma read_states:
  assumes r: "reading c [a0] [d0]" and p: "parse_states lc es c = Inr (l, c')"
  shows "reading c' (a0 # opt_items l) (d0 # es) \<and> same_rules c c'"
proof (cases es)
  case Nil with assms show ?thesis by (simp add: parse_states_def same_rules_def)
next
  case (Cons e es')
  with p obtain a c1 l1 c2 l2 where s: "parse_state lc e c = Inr (a, c1)"
    "build_statelist a c1 = Inr (l1, c2)" "parse_more lc l1 es' c2 = Inr (l2, c')" "l = Some l2"
    by (auto simp: parse_states_def)
  then have "change_state a (\<lambda>s. s\<lparr>ns_id := length [a0]\<rparr>) c1 = Inr c2"
    and l1: "nl_items l1 = [a]" by (auto simp: build_statelist_def nodelist_build_def)
  from read_state [OF r s(1) this(1)] have "reading c2 (a0 # nl_items l1) ([d0] @ [e])"
    "same_rules c c2" by (simp_all add: l1)
  from read_more [OF this(1) s(3)] this(2) Cons s(4) show ?thesis by (auto intro: same_rules_trans)
qed

section \<open>The compiled graph\<close>

definition dest_ok :: "src_state list \<Rightarrow> src_trans \<Rightarrow> nat option \<Rightarrow> bool" where
  "dest_ok ds t dest \<longleftrightarrow> (case src_dest t of None \<Rightarrow> dest = None
     | Some d \<Rightarrow> (case dest of None \<Rightarrow> False | Some k \<Rightarrow> k < length ds \<and> state_name (ds ! k) = d))"

abbreviation edge_ok :: "src_state list \<Rightarrow> src_trans \<Rightarrow> transition_t \<Rightarrow> bool" where
  "edge_ok ds t tr \<equiv> dest_ok ds t (tr_dest tr)"

definition state_matches :: "src_state list \<Rightarrow> src_state \<Rightarrow> state_t \<Rightarrow> bool" where
  "state_matches ds d s \<longleftrightarrow> st_name s = Some (state_name d) \<and>
     list_all2 (edge_ok ds) (body_trans (src_body d)) (st_trans s) \<and>
     map tr_id (st_trans s) = [0..<length (st_trans s)]"

definition global_ids :: "state_t list \<Rightarrow> nat list" where
  "global_ids ss = concat (map (\<lambda>s. map global_id (st_trans s)) ss)"

definition rule_matches :: "src_rule \<Rightarrow> rule_t \<Rightarrow> bool" where
  "rule_matches r rl \<longleftrightarrow> rule_name rl = sym_name (src_name r) \<and>
     list_all2 (state_matches (src_init r # src_states r)) (src_init r # src_states r) (rule_states rl) \<and>
     map st_id (rule_states rl) = [0..<length (rule_states rl)] \<and>
     distinct (map st_name (rule_states rl)) \<and>
     global_ids (rule_states rl) = [0..<length (global_ids (rule_states rl))] \<and>
     distinct (var_name rl) \<and> dynamic_env_sz rl = int (length (var_name rl)) \<and>
     (case sync_vars rl of None \<Rightarrow> src_sync r = []
      | Some is \<Rightarrow> list_all2 (\<lambda>i v. i < length (var_name rl) \<and> var_name rl ! i = v) is (src_sync r))"

lemma resolve_dest_ok:
  assumes "labelled c as ds" and "resolve_dest c (Some n) = Inr k"
  shows "k < length ds \<and> state_name (ds ! k) = n"
proof -
  from assms(2) obtain a where a: "strhash_get (statenames_hash c) n = Inr (Some a)"
    "a < length (node_states c)" "k = ns_id (node_states c ! a)"
    by (auto simp: resolve_dest_def at_eq_Inr split: option.splits)
  with labelledD(4) [OF assms(1)] obtain j where j: "j < length as" "as ! j = a" "state_name (ds ! j) = n"
    by auto
  with labelledD(5) [OF assms(1) j(1)] a(3) labelledD(2) [OF assms(1)] show ?thesis
    by (simp add: state_at_def)
qed

lemma compile_transition_ok:
  assumes "labelled c as ds" and "trans_good st t" and "compile_transition cc c i t = Inr tr"
  shows "edge_ok ds st tr \<and> tr_id tr = i"
proof (cases "nt_sub t")
  case None
  with assms(2) obtain d where d: "nt_dest t = Some d" "src_dest st = Some d" by (auto simp: trans_good_def)
  with assms(3) None obtain k where k: "resolve_dest c (Some d) = Inr k" "tr_dest tr = Some k" "tr_id tr = i"
    by (auto simp: compile_transition_def split: option.splits)
  with resolve_dest_ok [OF assms(1) k(1)] d show ?thesis by (simp add: dest_ok_def)
next
  case (Some b)
  with assms(2) obtain e where "src_dest st = None" "nt_cond t = Some e" by (auto simp: trans_good_def)
  with assms(3) Some show ?thesis by (auto simp: compile_transition_def dest_ok_def)
qed

lemma compile_transitions_ok:
  assumes l: "labelled c as ds"
  shows "list_all2 trans_good sts ts \<Longrightarrow> compile_transitions cc c i ts = Inr trs \<Longrightarrow>
    list_all2 (edge_ok ds) sts trs \<and> map tr_id trs = [i..<i + length trs]"
proof (induction sts ts arbitrary: i trs rule: list_all2_induct)
  case Nil then show ?case by simp
next
  case (Cons st sts t ts)
  then obtain tr trs' where s: "compile_transition cc c i t = Inr tr"
    "compile_transitions cc c (i + 1) ts = Inr trs'" "trs = tr # trs'" by auto
  from compile_transition_ok [OF l Cons.hyps(1) s(1)] Cons.IH [OF s(2)] s(3) show ?case
    by (simp add: upt_cons del: upt_Suc)
qed

lemma compile_state_ok:
  assumes l: "labelled c as ds" and j: "j < length as"
    and s: "compile_state_ast cc c i (as ! j) = Inr s"
  shows "state_matches ds (ds ! j) s \<and> st_id s = i"
proof -
  from labelledD(5) [OF l j] have n: "as ! j < length (node_states c)"
    "ns_name (node_states c ! (as ! j)) = Some (state_name (ds ! j))"
    "list_all2 trans_good (body_trans (src_body (ds ! j))) (opt_items (ns_trans (node_states c ! (as ! j))))"
    by (simp_all add: state_at_def body_good_def)
  from s n(1) obtain act trs where t:
    "compile_transitions_ast cc c (ns_trans (node_states c ! (as ! j))) = Inr trs"
    "st_trans s = trs" "st_name s = ns_name (node_states c ! (as ! j))" "st_id s = i"
    by (auto simp: compile_state_ast_def)
  from t(1) have "compile_transitions cc c 0 (opt_items (ns_trans (node_states c ! (as ! j)))) = Inr trs"
    by (simp add: compile_transitions_ast_def split: option.splits)
  from compile_transitions_ok [OF l n(3) this] t n(2) show ?thesis by (simp add: state_matches_def)
qed

lemma compile_states_ok:
  assumes l: "labelled c as ds"
  shows "i + length bs = length as \<Longrightarrow> drop i as = bs \<Longrightarrow> compile_states cc c i bs = Inr ss \<Longrightarrow>
    list_all2 (state_matches ds) (drop i ds) ss \<and> map st_id ss = [i..<i + length ss]"
proof (induction bs arbitrary: i ss)
  case Nil then show ?case using labelledD(2) [OF l] by simp
next
  case (Cons b bs)
  then obtain s ss' where s: "compile_state_ast cc c i b = Inr s"
    "compile_states cc c (i + 1) bs = Inr ss'" "ss = s # ss'" by auto
  from Cons.prems(1) have i: "i < length as" by simp
  with Cons.prems(2) have b: "b = as ! i" "drop (i + 1) as = bs" by (simp_all add: Cons_nth_drop_Suc [symmetric])
  from compile_state_ok [OF l i] s(1) b(1) have "state_matches ds (ds ! i) s \<and> st_id s = i" by simp
  moreover from Cons.IH [OF _ b(2) s(2)] Cons.prems(1)
  have "list_all2 (state_matches ds) (drop (i + 1) ds) ss' \<and> map st_id ss' = [i + 1..<i + 1 + length ss']" by simp
  moreover have "drop i ds = ds ! i # drop (i + 1) ds"
    using i labelledD(2) [OF l] by (simp add: Cons_nth_drop_Suc)
  ultimately show ?case using s(3) by (simp add: upt_cons del: upt_Suc)
qed

text \<open>Numbering changes nothing but the numbers.\<close>

lemma map_number:
  "(\<And>t i. f (t\<lparr>global_id := i\<rparr>) = f t) \<Longrightarrow>
   map f (map2 (\<lambda>t i. t\<lparr>global_id := k + i\<rparr>) ts [j..<j + length ts]) = map f ts"
proof (induction ts arbitrary: j)
  case (Cons t ts)
  from Cons.IH [OF Cons.prems, of "Suc j"] Cons.prems show ?case by (simp add: upt_cons del: upt_Suc)
qed simp

lemma number_ids:
  "map global_id (map2 (\<lambda>t i. t\<lparr>global_id := k + i\<rparr>) ts [j..<j + length ts]) = [k + j..<k + j + length ts]"
proof (induction ts arbitrary: j)
  case (Cons t ts)
  from Cons.IH [of "Suc j"] show ?case by (simp add: upt_cons del: upt_Suc)
qed simp

lemma number_global: "global_ids (number_transitions k ss) = [k..<k + length (concat (map st_trans ss))]"
proof (induction ss arbitrary: k)
  case (Cons s ss)
  from number_ids [of k "st_trans s" 0]
  have "map global_id (map2 (\<lambda>t i. t\<lparr>global_id := k + i\<rparr>) (st_trans s) [0..<length (st_trans s)]) =
    [k..<k + length (st_trans s)]" by simp
  with Cons show ?case by (simp add: global_ids_def upt_append add.assoc del: upt_Suc map_map)
qed (simp add: global_ids_def)

lemma number_matches: "list_all2 (state_matches ds) es ss \<Longrightarrow> list_all2 (state_matches ds) es (number_transitions k ss)"
proof (induction es ss arbitrary: k rule: list_all2_induct)
  case (Cons e es s ss)
  let ?n = "map2 (\<lambda>t i. t\<lparr>global_id := k + i\<rparr>) (st_trans s) [0..<length (st_trans s)]"
  have tr: "map tr_dest ?n = map tr_dest (st_trans s)" "map tr_id ?n = map tr_id (st_trans s)"
    using map_number [of tr_dest k "st_trans s" 0] map_number [of tr_id k "st_trans s" 0] by simp_all
  have edges: "list_all2 (edge_ok ds) ts trs = list_all2 (dest_ok ds) ts (map tr_dest trs)" for ts trs
    by (simp add: list_all2_map2)
  from Cons.hyps(1) have "state_matches ds e (s\<lparr>st_trans := ?n\<rparr>)"
    unfolding state_matches_def edges by (simp add: tr del: map_map)
  with Cons.IH show ?case by simp
qed simp

lemma number_st_id: "map st_id (number_transitions k ss) = map st_id ss \<and> map st_name (number_transitions k ss) = map st_name ss"
  by (induction k ss rule: number_transitions.induct) auto

lemma sync_array_ok:
  "env_ok c \<Longrightarrow> sync_array c vs = Inr is \<Longrightarrow>
   list_all2 (\<lambda>i v. i < length (dyn_var_name c) \<and> dyn_var_name c ! i = v) is vs"
proof (induction vs arbitrary: "is")
  case (Cons v vs)
  then obtain i is' where i: "strhash_get (rule_env c) v = Inr (Some i)" "sync_array c vs = Inr is'" "is = i # is'"
    by (auto split: option.splits)
  from Cons.prems(1) i(1) have "i < length (dyn_var_name c) \<and> dyn_var_name c ! i = v"
    unfolding env_ok_def by blast
  with Cons.IH [OF Cons.prems(1) i(2)] i(3) show ?case by simp
qed simp

lemma first_names_all: "first_names (length ns) ns = Inr ns"
  by (induction ns) auto

lemma parse_sync_items: "parse_sync l vs = Inr l' \<Longrightarrow> nl_items l' = nl_items l @ vs"
  by (induction l vs rule: parse_sync.induct) (auto simp: syncvarlist_add_def nodelist_add_items)

lemma labelled_names:
  assumes "labelled c as ds" shows "distinct (map state_name ds)"
  unfolding distinct_conv_nth
proof (intro allI impI)
  fix i j assume ij: "i < length (map state_name ds)" "j < length (map state_name ds)" "i \<noteq> j"
  note l = labelledD [OF assms]
  from ij l(2) have len: "i < length as" "j < length as" by simp_all
  from l(4) [of "state_name (ds ! i)" "as ! i"] len
  have "strhash_get (statenames_hash c) (state_name (ds ! i)) = Inr (Some (as ! i))" by blast
  moreover from l(4) [of "state_name (ds ! j)" "as ! j"] len
  have "strhash_get (statenames_hash c) (state_name (ds ! j)) = Inr (Some (as ! j))" by blast
  moreover have "as ! i \<noteq> as ! j" using l(3) len ij(3) by (simp add: nth_eq_iff_index_eq)
  ultimately show "map state_name ds ! i \<noteq> map state_name ds ! j" using ij by auto
qed

section \<open>Whole rule files\<close>

text \<open>The rules that are known: their names are different, and lead to their numbers.\<close>

definition rules_ok :: "rule_compiler \<Rightarrow> bool" where
  "rules_ok c \<longleftrightarrow> htable (rulenames_hash c) \<noteq> [] \<and> rules c = length (rule_list c) \<and>
     map rule_id (rule_list c) = [0..<length (rule_list c)] \<and>
     (\<forall>n i. strhash_get (rulenames_hash c) n = Inr (Some i) \<longleftrightarrow>
        i < length (rule_list c) \<and> rule_name (rule_list c ! i) = n)"

definition compiler_ready :: "rule_compiler \<Rightarrow> bool" where
  "compiler_ready c \<longleftrightarrow> reading c [] [] \<and> rules_ok c"

lemma rules_ok_add:
  assumes r: "rules_ok c" and n: "strhash_get (rulenames_hash c) (rule_name rl) = Inr None"
    and h: "strhash_add (rulenames_hash c) (rules c) (rule_name rl) = Inr h" and i: "rule_id rl = rules c"
  shows "rules_ok (c\<lparr>rulenames_hash := h, rules := rules c + 1, rule_list := rule_list c @ [rl]\<rparr>)"
proof -
  have ht: "htable (rulenames_hash c) \<noteq> []" using r by (simp add: rules_ok_def)
  obtain h1 where h1: "strhash_add (rulenames_hash c) (rules c) (rule_name rl) = Inr h1" "htable h1 \<noteq> []"
    "\<And>k'. strhash_get h1 k' = (if k' = rule_name rl then Inr (Some (rules c)) else strhash_get (rulenames_hash c) k')"
    by (rule strhash_add_ok [OF ht, of "rules c" "rule_name rl"]) blast
  from h h1(1) have "h1 = h" by simp
  note h' = h1(2,3) [unfolded this]
  have old: "strhash_get (rulenames_hash c) m = Inr (Some j) \<longleftrightarrow>
      j < length (rule_list c) \<and> rule_name (rule_list c ! j) = m" for m j
    using r by (simp add: rules_ok_def)
  have len: "rules c = length (rule_list c)" using r by (simp add: rules_ok_def)
  have "strhash_get h m = Inr (Some j) \<longleftrightarrow>
      j < length (rule_list c @ [rl]) \<and> rule_name ((rule_list c @ [rl]) ! j) = m" for m j
  proof (cases "m = rule_name rl")
    case True
    with old [of m j] n show ?thesis by (auto simp: h'(2) nth_append less_Suc_eq len)
  next
    case False
    with old [of m j] show ?thesis by (auto simp: h'(2) nth_append less_Suc_eq)
  qed
  with r h'(1) i len show ?thesis by (simp add: rules_ok_def)
qed

lemma reset_ready:
  assumes "env_ok c" and "hashes_ok c" and "htable (statenames_hash c) \<noteq> []" and "rules_ok c"
  shows "compiler_ready (compiler_reset c)"
proof -
  have "strhash_get (clear_strhash (rule_env c)) n = Inr None"
    "strhash_get (clear_strhash (statenames_hash c)) n = Inr None" for n
    using assms strhash_get_clear by (auto simp: env_ok_def)
  moreover have "htable (clear_strhash h) \<noteq> []" "elmts (clear_strhash h) = 0" if "htable h \<noteq> []" for h :: "nat strhash"
    using that by (simp_all add: clear_strhash_def tab_clear_def)
  ultimately show ?thesis using assms
    by (simp add: compiler_ready_def reading_def labelled_def env_ok_def hashes_ok_def rules_ok_def
        compiler_reset_def min.coboundedI1)
qed

lemma compile_rule_ok:
  assumes rd: "reading c as (src_init r # src_states r)" and ro: "rules_ok c"
    and as: "as = a # opt_items l" and n: "n = build_rule (src_name r) (Some a) l sync"
    and sy: "case sync of None \<Rightarrow> src_sync r = [] | Some v \<Rightarrow> nl_items v = src_sync r"
    and ok: "compile_and_add_rule_ast aa oo n c = Inr c'"
  shows "\<exists>rl. rule_list c' = rule_list c @ [rl] \<and> rule_matches r rl \<and> rules_ok c' \<and>
    env_ok c' \<and> hashes_ok c' \<and> htable (statenames_hash c') \<noteq> []"
proof -
  let ?ds = "src_init r # src_states r"
  have c: "env_ok c" "hashes_ok c" "labelled c as ?ds" using rd by (simp_all add: reading_def)
  have "first_names (nat (elmts (rule_env c))) (dyn_var_name c) = Inr (dyn_var_name c)"
    using c(1) by (simp add: env_ok_def first_names_all)
  with ok obtain sv ss h where s: "strhash_get (rulenames_hash c) (nr_name n) = Inr None"
    "(case sync of None \<Rightarrow> Inr None | Some v \<Rightarrow> bnd (sync_array c (nl_items v)) (\<lambda>vs. Inr (Some vs))) = Inr sv"
    "compile_states (code_ctx aa oo c) c 0 as = Inr ss"
    "strhash_add (rulenames_hash c) (rules c) (nr_name n) = Inr h"
    and c': "c' = c\<lparr>rulenames_hash := h, rules := rules c + 1, rule_list := rule_list c @
      [\<lparr>rule_name = nr_name n, lineno = nr_line n, rule_states = number_transitions 0 ss,
        rule_static_env = statics c, dynamic_env_sz = elmts (rule_env c), var_name = dyn_var_name c,
        sync_vars = sv, rule_id = rules c\<rparr>]\<rparr>"
    by (auto simp: compile_and_add_rule_ast_def n build_rule_def as split: if_splits)
  define rl where "rl = \<lparr>rule_name = nr_name n, lineno = nr_line n, rule_states = number_transitions 0 ss,
        rule_static_env = statics c, dynamic_env_sz = elmts (rule_env c), var_name = dyn_var_name c,
        sync_vars = sv, rule_id = rules c\<rparr>"
  from compile_states_ok [OF c(3) _ _ s(3)] have ss: "list_all2 (state_matches ?ds) ?ds ss"
    "map st_id ss = [0..<length ss]" by simp_all
  have names: "map st_name ss = map (\<lambda>d. Some (state_name d)) ?ds"
    using ss(1) by (induction rule: list_all2_induct) (simp_all add: state_matches_def)
  have dn: "distinct (map st_name ss)"
    using labelled_names [OF c(3)] by (simp only: names distinct_map inj_on_def) auto
  have "case sync_vars rl of None \<Rightarrow> src_sync r = []
      | Some is \<Rightarrow> list_all2 (\<lambda>i v. i < length (var_name rl) \<and> var_name rl ! i = v) is (src_sync r)"
    using s(2) sy sync_array_ok [OF c(1)] by (cases sync) (auto simp: rl_def)
  moreover have "length (number_transitions 0 ss) = length ss"
    using number_st_id [of 0 ss] by (metis length_map)
  ultimately have "rule_matches r rl"
    unfolding rule_matches_def
    using number_matches [OF ss(1)] ss(2) dn number_st_id [of 0 ss] number_global [of 0 ss]
      env_distinct [OF c(1)] c(1)
    by (simp add: rl_def n build_rule_def env_ok_def)
  moreover have "rules_ok c'" using rules_ok_add [OF ro, of rl h] s by (simp add: c' rl_def)
  moreover have "env_ok c'" "hashes_ok c'" "htable (statenames_hash c') \<noteq> []"
    using c labelledD(1) [OF c(3)] by (simp_all add: c' env_ok_def hashes_ok_def)
  ultimately show ?thesis by (auto simp: c' rl_def)
qed

lemma rule_ok:
  assumes "compiler_ready c" and "parse_rule lc aa oo r c = Inr c'"
  shows "compiler_ready c' \<and> (\<exists>rl. rule_list c' = rule_list c @ [rl] \<and> rule_matches r rl)"
proof -
  from assms have c: "reading c [] []" "rules_ok c" by (simp_all add: compiler_ready_def)
  from assms(2) obtain sync a c1 l c2 n c3 where s:
    "(case src_sync r of [] \<Rightarrow> Inr None | v # vs \<Rightarrow> bnd (parse_sync (build_syncvarlist v) vs) (\<lambda>l. Inr (Some l))) = Inr sync"
    "parse_state lc (src_init r) c = Inr (a, c1)" "parse_states lc (src_states r) c1 = Inr (l, c2)"
    "n = build_rule (src_name r) (Some a) l sync" "compile_and_add_rule_ast aa oo n c2 = Inr c3"
    "c' = compiler_reset c3"
    by (auto simp: parse_rule_def parse_rule_node_def)
  from s(1) have sy: "case sync of None \<Rightarrow> src_sync r = [] | Some v \<Rightarrow> nl_items v = src_sync r"
    by (auto simp: build_syncvarlist_def nodelist_build_def dest: parse_sync_items split: list.splits)
  from read_init [OF c(1) s(2)] have 1: "reading c1 [a] [src_init r]" "same_rules c c1" by simp_all
  from read_states [OF 1(1) s(3)] have 2: "reading c2 (a # opt_items l) (src_init r # src_states r)"
    "same_rules c1 c2" by simp_all
  from same_rules_trans [OF 1(2) 2(2)] have sr: "same_rules c c2" .
  with c(2) have "rules_ok c2" by (simp add: rules_ok_def same_rules_def)
  from compile_rule_ok [OF 2(1) this refl s(4) sy s(5)] obtain rl where
    rl: "rule_list c3 = rule_list c2 @ [rl]" "rule_matches r rl" "rules_ok c3" "env_ok c3" "hashes_ok c3"
      "htable (statenames_hash c3) \<noteq> []" by blast
  have "compiler_ready c'" unfolding s(6) by (rule reset_ready [OF rl(4,5,6,3)])
  moreover have "rule_list c' = rule_list c @ [rl]"
    using rl(1) sr by (simp add: s(6) compiler_reset_def same_rules_def)
  ultimately show ?thesis using rl(2) by blast
qed

lemma rules_match: "compiler_ready c \<Longrightarrow> parse_rules lc aa oo rs c = Inr c' \<Longrightarrow>
   compiler_ready c' \<and> (\<exists>rls. rule_list c' = rule_list c @ rls \<and> list_all2 rule_matches rs rls)"
proof (induction rs arbitrary: c)
  case (Cons r rs)
  then obtain c1 where c1: "parse_rule lc aa oo r c = Inr c1" "parse_rules lc aa oo rs c1 = Inr c'" by auto
  from rule_ok [OF Cons.prems(1) c1(1)] obtain rl where
    rl: "compiler_ready c1" "rule_list c1 = rule_list c @ [rl]" "rule_matches r rl" by blast
  from Cons.IH [OF rl(1) c1(2)] obtain rls where "compiler_ready c'" "rule_list c' = rule_list c1 @ rls"
    "list_all2 rule_matches rs rls" by blast
  with rl(2,3) show ?case by (intro conjI exI [of _ "rl # rls"]) simp_all
qed simp

lemma rules_distinct:
  assumes "rules_ok c" shows "distinct (map rule_name (rule_list c))"
  unfolding distinct_conv_nth
proof (intro allI impI)
  fix i j assume ij: "i < length (map rule_name (rule_list c))" "j < length (map rule_name (rule_list c))" "i \<noteq> j"
  have get: "strhash_get (rulenames_hash c) n = Inr (Some i) \<longleftrightarrow>
        i < length (rule_list c) \<and> rule_name (rule_list c ! i) = n" for n i
    using assms by (simp add: rules_ok_def)
  from ij get [of "rule_name (rule_list c ! i)" i] get [of "rule_name (rule_list c ! j)" j]
  show "map rule_name (rule_list c) ! i \<noteq> map rule_name (rule_list c) ! j" by auto
qed

text \<open>A rule that has one of these errors is never compiled.\<close>

definition bad_rule :: "rule_compiler \<Rightarrow> src_rule \<Rightarrow> bool" where
  "bad_rule c r \<longleftrightarrow> (let ds = src_init r # src_states r in
     sym_name (src_name r) \<in> set (map rule_name (rule_list c)) \<or>
     \<not> distinct (map state_name ds) \<or>
     (\<exists>d \<in> set ds. \<exists>t \<in> set (body_trans (src_body d)).
        (case src_dest t of None \<Rightarrow> False | Some n \<Rightarrow> n \<notin> set (map state_name ds))))"

lemma bad_rule_exits:
  assumes "compiler_ready c" and "bad_rule c r"
  shows "\<exists>f. parse_rule lc aa oo r c = Inl f"
proof (cases "parse_rule lc aa oo r c")
  case (Inr c')
  let ?ds = "src_init r # src_states r"
  from rule_ok [OF assms(1) Inr] obtain rl where rl: "compiler_ready c'" "rule_list c' = rule_list c @ [rl]"
    "rule_matches r rl" by blast
  from rules_distinct [of c'] rl have "sym_name (src_name r) \<notin> set (map rule_name (rule_list c))"
    by (auto simp: compiler_ready_def rule_matches_def)
  moreover from rl(3) have m: "list_all2 (state_matches ?ds) ?ds (rule_states rl)"
    and dn: "distinct (map st_name (rule_states rl))" by (simp_all add: rule_matches_def)
  have "map st_name (rule_states rl) = map (\<lambda>d. Some (state_name d)) ?ds"
    using m by (induction rule: list_all2_induct) (simp_all add: state_matches_def)
  then have "map st_name (rule_states rl) = map Some (map state_name ?ds)" by simp
  with dn have "distinct (map state_name ?ds)" by (simp only: distinct_map)
  moreover have "n \<in> set (map state_name ?ds)"
    if d: "d \<in> set ?ds" "t \<in> set (body_trans (src_body d))" "src_dest t = Some n" for d t n
  proof -
    from m d(1) obtain s where "state_matches ?ds d s" by (auto simp: list_all2_conv_all_nth in_set_conv_nth)
    then have "list_all2 (edge_ok ?ds) (body_trans (src_body d)) (st_trans s)" by (simp add: state_matches_def)
    with d(2) obtain tr where "edge_ok ?ds t tr" by (auto simp: list_all2_conv_all_nth in_set_conv_nth)
    with d(3) obtain k where "k < length ?ds" "state_name (?ds ! k) = n"
      by (auto simp: dest_ok_def split: option.splits)
    then show ?thesis by (metis length_map nth_map nth_mem)
  qed
  ultimately show ?thesis using assms(2) by (fastforce simp: bad_rule_def Let_def split: option.splits)
qed simp

text \<open>The compiler context as it is before the first rule.\<close>

lemma new_strhash_ready: "0 < n \<Longrightarrow> htable (new_strhash n) \<noteq> [] \<and> elmts (new_strhash n) = 0 \<and>
    strhash_get (new_strhash n) k = Inr None"
  by (simp add: new_strhash_def tab_new_def strhash_get_def tab_get_def tab_slot_def)

lemma new_compiler_ready: "\<exists>c. new_rule_compiler_ctx = Inr c \<and> compiler_ready c \<and> length (statics c) = 5"
  by (simp add: new_rule_compiler_ctx_def Let_def statics_add_def STATICS_SZ_def empty_compiler_def
      compiler_ready_def reading_def env_ok_def hashes_ok_def labelled_def rules_ok_def new_strhash_ready)

section \<open>A small rule file\<close>

definition small_compiler :: rule_compiler where
  "small_compiler = empty_compiler\<lparr>fields_hash := new_strhash 1, functions_hash := new_strhash 1,
     rulenames_hash := new_strhash 1, statenames_hash := new_strhash 1, rule_env := new_strhash 1\<rparr>"

definition sample_libc :: libc where
  "sample_libc = \<lparr>gethostbyname = (\<lambda>_. Some 1), regcomp = (\<lambda>_. Some 7)\<rparr>"

definition sample_split :: src_action where "sample_split = SSplit [2] [9] [6] [[7]]"

definition sample_rule :: src_rule where
  "sample_rule = \<lparr>src_name = \<lparr>sym_name = [1], sym_line = 1\<rparr>, src_sync = [[2]],
     src_init = \<lparr>src_sym = \<lparr>sym_name = [3], sym_line = 2\<rparr>,
       src_body = Body [SExpr (SAssoc [2] (SNumber 5)), sample_split]
         [SGoto (SCond OP_CEQ (SVariable [2]) (SNumber 5)) [4], SSub (SVariable [6]) (Body [] [SJump [3]])]\<rparr>,
     src_states = [\<lparr>src_sym = \<lparr>sym_name = [4], sym_line = 3\<rparr>,
       src_body = Body [SExpr (SString [1, 2])] [SJump [3]]\<rparr>]\<rparr>"

text \<open>A rule whose only transition goes to a state that does not exist.\<close>

definition sample_bad_rule :: src_rule where
  "sample_bad_rule = sample_rule\<lparr>src_states := []\<rparr>"

lemma small_ready: "compiler_ready small_compiler"
  by (simp add: small_compiler_def empty_compiler_def compiler_ready_def reading_def env_ok_def
      hashes_ok_def labelled_def rules_ok_def new_strhash_ready)

lemma small_ok: "env_ok small_compiler" "hashes_ok small_compiler"
  using small_ready by (simp_all add: compiler_ready_def reading_def)

lemma single_slot: "length (htable h) = 1 \<Longrightarrow> tab_slot f h k = Inr 0"
  by (auto simp: tab_slot_def)

lemmas table_eval = strhash_get_def strhash_add_def tab_get_def tab_add_def single_slot link_front_def
  new_strhash_def tab_new_def

lemmas builder_eval = build_varname_def build_assoc_def var_res_id_def dynamic_add_def build_const_def
  statics_add_def STATICS_SZ_def build_integer_def build_string_def build_split_regex_def parse_split_def
  parse_var_def build_string_split_def nodelist_build_def nodelist_add_def build_varlist_def
  build_actionlist_def actionlist_add_def build_state_def build_transitionlist_def transitionlist_add_def
  build_direct_transition_def build_indirect_transition_def build_unconditional_transition_test_def
  parse_actionlist_def const_var_def build_expr_cond_def build_syncvarlist_def syncvarlist_add_def
  parse_rule_node_def parse_state_def set_state_label_def change_state_def parse_states_def
  build_statelist_def build_rule_def

lemmas generator_eval = compile_trans_bytecode_def compile_bytecode_expr.simps compile_bytecode_cond.simps
  NEW_LABEL_def comparison_op_def exit_if_full_def emit_def init_buf_def BYTECODE_BUF_SZ_def LABEL_GROW_def
  jump_pair_def PUT_LABEL_def SET_LABEL_def push_bool_def compile_actions_ast_def
  compile_actions_bytecode_def parse_rule_def compile_and_add_rule_ast_def compile_state_ast_def
  compile_transitions_ast_def compile_transition_def code_ctx_def resolve_dest_def

lemma first_three: "first_names 3 [x, y, z] = Inr [x, y, z]"
  using first_names_all [of "[x, y, z]"] by (simp add: numeral_3_eq_3)

lemma sample_rule_compiles: "\<exists>c. parse_rules sample_libc 300 301 [sample_rule] small_compiler = Inr c"
  by (simp add: table_eval builder_eval generator_eval at_def Let_def small_compiler_def empty_compiler_def
      sample_rule_def sample_split_def sample_libc_def first_three)

section \<open>Properties\<close>

text \<open>
  Claim C7.  A compiled rule file is the graph that it draws.  When the compiler accepts the
  rules \<open>rs\<close>, they are appended in order; each has the states of its source, numbered from
  zero in their order and with their names; every direct transition leads to the state of the
  rule that has the name after \<open>goto\<close>; the transitions are numbered without a gap within
  their state and in the whole rule; the names of the variables are different; and each
  synchronisation variable is the number of its name.  The compiler is ready for the next file.
\<close>

theorem rules_match_source:
  assumes "compiler_ready c" and "parse_rules lc andand oror rs c = Inr c'"
  shows "compiler_ready c' \<and> (\<exists>rls. rule_list c' = rule_list c @ rls \<and> list_all2 rule_matches rs rls)"
  using assms by (rule rules_match)

theorem rules_match_source_witness:
  "\<exists>c' rl. parse_rules sample_libc 300 301 [sample_rule] small_compiler = Inr c' \<and>
     rule_list c' = [rl] \<and> rule_matches sample_rule rl"
proof -
  from sample_rule_compiles obtain c' where c': "parse_rules sample_libc 300 301 [sample_rule] small_compiler = Inr c'"
    by blast
  from rules_match_source [OF small_ready c'] c' show ?thesis
    by (auto simp: small_compiler_def empty_compiler_def list_all2_Cons1)
qed



text \<open>The body of a sub-state is built but never compiled: a transition of it to a state that does not exist is accepted.\<close>

definition sample_nested_rule :: src_rule where
  "sample_nested_rule = sample_rule\<lparr>src_init := \<lparr>src_sym = \<lparr>sym_name = [3], sym_line = 2\<rparr>,
     src_body = Body [SExpr (SAssoc [2] (SNumber 5)), sample_split]
       [SGoto (SCond OP_CEQ (SVariable [2]) (SNumber 5)) [4], SSub (SVariable [6]) (Body [] [SJump [99]])]\<rparr>\<rparr>"

lemma nested_goto_accepted: "\<exists>c. parse_rules sample_libc 300 301 [sample_nested_rule] small_compiler = Inr c"
  by (simp add: table_eval builder_eval generator_eval at_def Let_def small_compiler_def empty_compiler_def
      sample_nested_rule_def sample_rule_def sample_split_def sample_libc_def first_three)

text \<open>
  Claim C19.  The trees that are built refer only to what exists.  Reading an action from a
  sound context either stops with \<open>exit\<close> or gives a tree whose fields and functions are
  registered, whose variables have a name, whose constants are in the static environment, and
  whose splits have as many variables as the pattern says; the context only grows, so that
  the trees that were built before stay correct.
\<close>

theorem trees_are_scoped:
  assumes "env_ok c" and "hashes_ok c"
  shows "case parse_action lc a c of Inl f \<Rightarrow> f = ExitFailure
    | Inr (n, c') \<Rightarrow> scoped c' n \<and> env_ok c' \<and> (\<exists>vs xs. dyn_var_name c' = dyn_var_name c @ vs \<and>
        statics c' = statics c @ xs)"
  using make_action [OF assms, of lc a] by (auto simp: makes_def ext_def split: sum.splits)

theorem trees_are_scoped_witness:
  "\<exists>n c'. parse_action sample_libc sample_split small_compiler = Inr (n, c') \<and> scoped c' n"
proof -
  have "\<exists>n c'. parse_action sample_libc sample_split small_compiler = Inr (n, c')"
    by (simp add: table_eval builder_eval Let_def small_compiler_def empty_compiler_def sample_split_def
        sample_libc_def)
  with trees_are_scoped [OF small_ok, of sample_libc sample_split] show ?thesis by auto
qed

text \<open>
  Variables are numbered in the order of their first use, and a name has one number:
  a known name gives the number that it has, a new name the next one, and the table of names
  is extended by it.
\<close>

lemma variables_are_numbered:
  assumes "env_ok c"
  shows "\<exists>i c'. build_varname v c = Inr (NODE_VARIABLE i, c') \<and> env_ok c' \<and> dyn_var_name c' ! i = v \<and>
    (if v \<in> set (dyn_var_name c) then i < length (dyn_var_name c) \<and> dyn_var_name c' = dyn_var_name c
     else i = length (dyn_var_name c) \<and> dyn_var_name c' = dyn_var_name c @ [v])"
  using assms by (rule var_numbers)

lemma variables_are_numbered_witness:
  "\<exists>i c'. build_varname [2] small_compiler = Inr (NODE_VARIABLE i, c') \<and> env_ok c' \<and> i = 0 \<and>
     dyn_var_name c' = [[2]]"
proof -
  have "dyn_var_name small_compiler = []" by (simp add: small_compiler_def empty_compiler_def)
  with variables_are_numbered [OF small_ok(1), of "[2]"] show ?thesis by auto
qed

end
