(* ===== verification/Exec_Correct.thy ===== *)
theory Exec_Correct
  imports Ovm_Laws Compiler_Laws
begin

text \<open>
  The virtual machine runs the code of a condition correctly.  \<open>eval\<close> is the meaning of an
  expression without calls and assignments, over the data that the variables, the fields of the
  event and the constants have; the program \<open>ecode c e @ [OP_END]\<close>, which the compiler generates,
  computes it, with the same crashes, and does not touch memory that existed before.
\<close>

section \<open>The meaning of expressions\<close>

definition arith_of :: "nat \<Rightarrow> ovm_data \<Rightarrow> ovm_data \<Rightarrow> arith_result" where
  "arith_of op = (if op = OP_ADD then issdl_add else if op = OP_SUB then issdl_sub
     else if op = OP_MUL then issdl_mul else if op = OP_DIV then issdl_div else issdl_mod)"

definition null_data :: "ovm_ctx \<Rightarrow> ovm \<Rightarrow> fault + ovm_data option" where
  "null_data vc m = bnd (NULL_VAR vc) (data_of m)"

definition arith_sem ::
  "ovm_ctx \<Rightarrow> ovm \<Rightarrow> nat \<Rightarrow> ovm_data option \<Rightarrow> ovm_data option \<Rightarrow> fault + ovm_data option" where
  "arith_sem vc m op a b = (case (a, b) of
      (Some x, Some y) \<Rightarrow> bnd (arith_value (arith_of op) x y)
         (\<lambda>r. case r of None \<Rightarrow> null_data vc m | Some v \<Rightarrow> Inr (Some (vdata v)))
    | _ \<Rightarrow> Inl NullDeref)"

definition truth :: "ovm_ctx \<Rightarrow> ovm \<Rightarrow> bool \<Rightarrow> fault + ovm_data option" where
  "truth vc m t = bnd (if t then TRUE_VAR vc else FALSE_VAR vc) (data_of m)"

text \<open>\<open>cval\<close> is the value that a condition tests: that of a comparison may be null.\<close>

function (sequential)
  eval :: "cctx \<Rightarrow> ovm_ctx \<Rightarrow> ovm \<Rightarrow> node_expr \<Rightarrow> fault + ovm_data option" and
  cval :: "cctx \<Rightarrow> ovm_ctx \<Rightarrow> ovm \<Rightarrow> node_expr \<Rightarrow> fault + ovm_data option" where
  "eval c vc m (NODE_BINOP op l r) =
     bnd (eval c vc m l) (\<lambda>a. bnd (eval c vc m r) (arith_sem vc m op a))"
| "eval c vc m (NODE_COND op l r) =
     (if op = tok_ANDAND c then
        bnd (cval c vc m l) (\<lambda>a. if issdl_test a
          then bnd (cval c vc m r) (\<lambda>b. truth vc m (issdl_test b)) else truth vc m False)
      else if op = tok_OROR c then
        bnd (cval c vc m l) (\<lambda>a. if issdl_test a then truth vc m True
          else bnd (cval c vc m r) (\<lambda>b. truth vc m (issdl_test b)))
      else if comparison_op op then
        bnd (cval c vc m (NODE_COND op l r)) (\<lambda>a. truth vc m (issdl_test a))
      else Inr None)"
| "eval c vc m (NODE_FIELD i) = bnd (at (field_vals vc) i) (data_of m)"
| "eval c vc m (NODE_VARIABLE i) = bnd (lookup_var vc m i) (data_of m)"
| "eval c vc m (NODE_CONST i) = bnd (at (static_env vc) i) (data_of m)"
| "eval c vc m _ = Inr None"
| "cval c vc m (NODE_COND op l r) =
     (if comparison_op op then
        bnd (eval c vc m l) (\<lambda>a. bnd (eval c vc m r) (\<lambda>b.
          bnd (cond_choice vc op a b) (data_of m)))
      else eval c vc m (NODE_COND op l r))"
| "cval c vc m e = eval c vc m e"
  by pat_completeness auto
termination
  by (relation "measure (\<lambda>x. case x of
        Inl (c, vc, m, e) \<Rightarrow> 3 * size e + (if is_comparison e then 1 else 0)
      | Inr (c, vc, m, e) \<Rightarrow> 3 * size e + (if is_comparison e then 0 else 1))") auto

text \<open>Conditions without side effects.  Resource numbers are values of a C \<open>int\<close>.\<close>

fun pure_expr :: "cctx \<Rightarrow> node_expr \<Rightarrow> bool" where
  "pure_expr c (NODE_BINOP op l r) \<longleftrightarrow> OP_ADD \<le> op \<and> op \<le> OP_MOD \<and> pure_expr c l \<and> pure_expr c r"
| "pure_expr c (NODE_COND op l r) \<longleftrightarrow> cond_op c op \<and> pure_expr c l \<and> pure_expr c r"
| "pure_expr c (NODE_FIELD i) \<longleftrightarrow> i < 2 ^ 31"
| "pure_expr c (NODE_VARIABLE i) \<longleftrightarrow> i < 2 ^ 31"
| "pure_expr c (NODE_CONST i) \<longleftrightarrow> i < 2 ^ 31"
| "pure_expr c _ \<longleftrightarrow> False"

lemma pure_is_expr: "pure_expr c e \<Longrightarrow> is_expr c e"
  by (induction e) auto

text \<open>Whether no operand of a condition is the temporary result of an arithmetic operation:
  \<open>OP_POPCJMP\<close> does not free what it pops.\<close>

fun is_arith :: "node_expr \<Rightarrow> bool" where
  "is_arith (NODE_BINOP _ _ _) \<longleftrightarrow> True"
| "is_arith _ \<longleftrightarrow> False"

fun tidy :: "node_expr \<Rightarrow> bool" where
  "tidy (NODE_BINOP op l r) \<longleftrightarrow> tidy l \<and> tidy r"
| "tidy (NODE_COND op l r) \<longleftrightarrow> tidy l \<and> tidy r \<and> (comparison_op op \<or> \<not> is_arith l \<and> \<not> is_arith r)"
| "tidy _ \<longleftrightarrow> True"

section \<open>Pieces of code that push a value\<close>

definition ext :: "nat \<Rightarrow> (nat \<Rightarrow> ovm_var option) \<Rightarrow> nat \<Rightarrow> (nat \<Rightarrow> ovm_var option) \<Rightarrow> bool" where
  "ext n h n' h' \<longleftrightarrow> n \<le> n' \<and> (\<forall>a < n. h' a = h a) \<and> (\<forall>a \<ge> n'. h' a = None)"

lemma ext_refl: "(\<forall>a \<ge> n. h a = None) \<Longrightarrow> ext n h n h"
  by (simp add: ext_def)

lemma ext_trans: "ext n h n' h' \<Longrightarrow> ext n' h' n'' h'' \<Longrightarrow> ext n h n'' h''"
  by (auto simp: ext_def)

text \<open>\<open>held\<close>: a pointer into the memory that existed before, to a value that is not a
  temporary, or \<open>NULL\<close>.  \<open>temp\<close>: a temporary allocated since address \<open>n\<close>.\<close>

definition held :: "nat \<Rightarrow> (nat \<Rightarrow> ovm_var option) \<Rightarrow> nat option \<Rightarrow> bool" where
  "held n h p \<longleftrightarrow> (\<forall>a. p = Some a \<longrightarrow> a < n \<and> (\<exists>v. h a = Some v \<and> \<not> is_not_bound v))"

definition temp :: "nat \<Rightarrow> (nat \<Rightarrow> ovm_var option) \<Rightarrow> nat option \<Rightarrow> bool" where
  "temp n h p \<longleftrightarrow> (\<exists>a v. p = Some a \<and> n \<le> a \<and> h a = Some v \<and> is_not_bound v)"

text \<open>A machine in which a condition can run: addresses from \<open>fresh\<close> on are free, and no
  variable that the rule, the event or the environments refer to is a temporary.\<close>

definition roots :: "ovm_ctx \<Rightarrow> ovm \<Rightarrow> nat option set" where
  "roots vc m = set (static_env vc) \<union> set (field_vals vc) \<union>
     (case current_env m of None \<Rightarrow> {} | Some e \<Rightarrow> set e) \<union>
     (case inherit_env m of None \<Rightarrow> {} | Some e \<Rightarrow> set e)"

definition vm_ready :: "ovm_ctx \<Rightarrow> ovm \<Rightarrow> bool" where
  "vm_ready vc m \<longleftrightarrow> stack_ok (ovm_stack m) \<and> (\<forall>a \<ge> fresh m. heap m a = None) \<and>
     (\<forall>p \<in> roots vc m. held (fresh m) (heap m) p) \<and> static_null_res_id vc < length (static_env vc)"

abbreviation "state_of m0 n h st m \<equiv> vmst h n st (current_env m0) (inherit_env m0) m"

definition pushes :: "ovm_ctx \<Rightarrow> ovm \<Rightarrow> culong list \<Rightarrow> fault + ovm_data option \<Rightarrow> bool \<Rightarrow> bool \<Rightarrow> bool" where
  "pushes vc m0 xs r clean plain \<longleftrightarrow> (\<forall>code ip h n st m. code_at code ip xs \<longrightarrow>
     length code < 2 ^ 63 \<longrightarrow> state_of m0 n h st m \<longrightarrow> ext (fresh m0) (heap m0) n h \<longrightarrow>
     (case r of
        Inl f \<Rightarrow> \<exists>s. ovm_steps vc code (ip, m) s \<and> ovm_crash vc code s f
      | Inr d \<Rightarrow> \<exists>m' h' n' p. ovm_steps vc code (ip, m) (ip + length xs, m') \<and>
          state_of m0 n' h' (p # st) m' \<and> ext n h n' h' \<and> hdata h' p = Inr d \<and>
          (held (fresh m0) (heap m0) p \<or> \<not> plain \<and> temp n h' p) \<and>
          (clean \<longrightarrow> (\<forall>a \<ge> n. h' a \<noteq> None \<longrightarrow> p = Some a))))"

lemma held_data:
  assumes "held n0 h0 p" and "ext n0 h0 n h"
  shows "hdata h p = hdata h0 p" and "drop_temp h p = h" and "\<exists>d. hdata h0 p = Inr d"
  using assms by (cases p; fastforce simp: held_def ext_def hdata_def drop_temp_def)+

lemma vm_ready_held:
  assumes "vm_ready vc m0"
  shows "at (static_env vc) i = Inr p \<Longrightarrow> held (fresh m0) (heap m0) p"
    and "at (field_vals vc) i = Inr p \<Longrightarrow> held (fresh m0) (heap m0) p"
    and "lookup_var vc m0 i = Inr p \<Longrightarrow> held (fresh m0) (heap m0) p"
  using assms
  by (auto simp: vm_ready_def roots_def at_eq_Inr lookup_var_def env_slot_def NULL_VAR_def
      split: option.splits if_splits)

lemma fresh_ext: "vm_ready vc m0 \<Longrightarrow> ext (fresh m0) (heap m0) (fresh m0) (heap m0)"
  by (simp add: vm_ready_def ext_def)

section \<open>Single instructions\<close>

lemma step_insn:
  assumes "at code ip = Inr (W op)" and "0 < op" "op < OPCODE_NUM"
    and "ovm_insn vc code op ip m = Inr (ip', m')"
  shows "ovm_step vc code (ip, m) (ip', m')"
proof -
  have "unat (W op) = op" using assms(3) by (simp add: OPCODE_NUM_def unat_of_nat)
  with assms show ?thesis by (intro ovm_step.exec) auto
qed

lemma crash_insn:
  assumes "at code ip = Inr (W op)" and "0 < op" "op < OPCODE_NUM"
    and "ovm_insn vc code op ip m = Inl f"
  shows "ovm_crash vc code (ip, m) f"
proof -
  have "unat (W op) = op" using assms(3) by (simp add: OPCODE_NUM_def unat_of_nat)
  with assms show ?thesis by (intro ovm_crash.insn) auto
qed

text \<open>An instruction that pushes the pointer \<open>g i\<close>, where \<open>i\<close> is its operand.\<close>

lemma pushes_leaf:
  assumes op: "0 < op" "op < OPCODE_NUM"
    and held: "\<And>p. g = Inr p \<Longrightarrow> held (fresh m0) (heap m0) p"
    and insn: "\<And>code ip m n h st. at code (ip + 1) = Inr (W i) \<Longrightarrow> state_of m0 n h st m \<Longrightarrow>
      ovm_insn vc code op ip m = bnd g (\<lambda>p. bnd (push p m) (\<lambda>m. Inr (ip + 2, m)))"
  shows "pushes vc m0 [W op, W i] (bnd g (data_of m0)) True True"
  unfolding pushes_def
proof (intro allI impI)
  fix code ip h n st m
  assume c: "code_at code ip [W op, W i]" and m: "state_of m0 n h st m"
    and x: "ext (fresh m0) (heap m0) n h"
  have i: "ovm_insn vc code op ip m = bnd g (\<lambda>p. bnd (push p m) (\<lambda>m. Inr (ip + 2, m)))"
    using c m by (intro insn) auto
  have at: "at code ip = Inr (W op)" using c by simp
  show "case bnd g (data_of m0) of
      Inl f \<Rightarrow> \<exists>s. ovm_steps vc code (ip, m) s \<and> ovm_crash vc code s f
    | Inr d \<Rightarrow> \<exists>m' h' n' p. ovm_steps vc code (ip, m) (ip + length [W op, W i], m') \<and>
        state_of m0 n' h' (p # st) m' \<and> ext n h n' h' \<and> hdata h' p = Inr d \<and>
        (held (fresh m0) (heap m0) p \<or> \<not> True \<and> temp n h' p) \<and>
        (True \<longrightarrow> (\<forall>a \<ge> n. h' a \<noteq> None \<longrightarrow> p = Some a))"
  proof (cases g)
    case (Inl f)
    with i at op have "ovm_crash vc code (ip, m) f" by (intro crash_insn) auto
    with Inl show ?thesis by auto
  next
    case (Inr p)
    note hp = held_data [OF held [OF Inr] x]
    from hp(3) obtain d where d: "hdata (heap m0) p = Inr d" ..
    from m obtain m' where m': "push p m = Inr m'" "state_of m0 n h (p # st) m'" by (rule vmst_push)
    have "ovm_step vc code (ip, m) (ip + 2, m')" using i at op Inr m' by (intro step_insn) auto
    then have "ovm_steps vc code (ip, m) (ip + length [W op, W i], m')"
      by (simp add: r_into_rtranclp numeral_2_eq_2)
    moreover have "ext n h n h" "\<forall>a \<ge> n. h a = None" using x by (auto simp: ext_def)
    ultimately show ?thesis using Inr d hp(1) m'(2) held [OF Inr] by (fastforce simp: data_of_heap)
  qed
qed

lemma operand_index: "at code (ip + 1) = Inr (W i) \<Longrightarrow> i < 2 ^ 31 \<Longrightarrow> operand code ip = Inr i"
  by (simp add: operand_def unat_of_nat)

lemma pushes_field:
  assumes "vm_ready vc m0" and "i < 2 ^ 31"
  shows "pushes vc m0 [W OP_PUSHFIELD, W i] (bnd (at (field_vals vc) i) (data_of m0)) True True"
  using assms by (intro pushes_leaf)
    (auto simp: ops_g_nth ovm_pushfield_def operand_index OPCODE_NUM_def simp del: add_2_eq_Suc'
      intro: vm_ready_held)

lemma pushes_const:
  assumes "vm_ready vc m0" and "i < 2 ^ 31"
  shows "pushes vc m0 [W OP_PUSHSTATIC, W i] (bnd (at (static_env vc) i) (data_of m0)) True True"
  using assms by (intro pushes_leaf)
    (auto simp: ops_g_nth ovm_pushstatic_def operand_index OPCODE_NUM_def simp del: add_2_eq_Suc'
      intro: vm_ready_held)

lemma pushes_var:
  assumes "vm_ready vc m0" and "i < 2 ^ 31"
  shows "pushes vc m0 [W OP_PUSH, W i] (bnd (lookup_var vc m0 i) (data_of m0)) True True"
proof (intro pushes_leaf)
  fix code ip m n h st
  assume "at code (ip + 1) = Inr (W i)" and m: "state_of m0 n h st m"
  moreover have "lookup_var vc m i = lookup_var vc m0 i"
    using m unfolding vmst_def lookup_var_def by (metis (no_types))
  ultimately show "ovm_insn vc code OP_PUSH ip m =
      bnd (lookup_var vc m0 i) (\<lambda>p. bnd (push p m) (\<lambda>m. Inr (ip + 2, m)))"
    using assms(2) by (simp add: ops_g_nth ovm_push_def operand_index del: add_2_eq_Suc')
qed (use assms in \<open>auto simp: OPCODE_NUM_def intro: vm_ready_held\<close>)

section \<open>Two operands\<close>

definition crashes :: "ovm_ctx \<Rightarrow> culong list \<Rightarrow> nat \<times> ovm \<Rightarrow> fault \<Rightarrow> bool" where
  "crashes vc code s f \<longleftrightarrow> (\<exists>s'. ovm_steps vc code s s' \<and> ovm_crash vc code s' f)"

lemma crashes_later: "ovm_steps vc code s s' \<Longrightarrow> crashes vc code s' f \<Longrightarrow> crashes vc code s f"
  unfolding crashes_def by (meson rtranclp_trans)

lemma pushesD:
  assumes "pushes vc m0 xs r clean plain" and "code_at code ip xs" "length code < 2 ^ 63"
    and "state_of m0 n h st m" "ext (fresh m0) (heap m0) n h"
  shows "r = Inl f \<Longrightarrow> crashes vc code (ip, m) f"
    and "r = Inr d \<Longrightarrow> \<exists>m' h' n' p. ovm_steps vc code (ip, m) (ip + length xs, m') \<and>
          state_of m0 n' h' (p # st) m' \<and> ext n h n' h' \<and> hdata h' p = Inr d \<and>
          (held (fresh m0) (heap m0) p \<or> \<not> plain \<and> temp n h' p) \<and>
          (clean \<longrightarrow> (\<forall>a \<ge> n. h' a \<noteq> None \<longrightarrow> p = Some a))"
  using assms unfolding pushes_def crashes_def by (fastforce, fastforce)

definition two_operands ::
  "ovm_ctx \<Rightarrow> ovm \<Rightarrow> culong list \<Rightarrow> nat \<times> ovm \<Rightarrow> nat \<Rightarrow> nat \<Rightarrow> (nat \<Rightarrow> ovm_var option) \<Rightarrow>
   nat option list \<Rightarrow> ovm_data option \<Rightarrow> ovm_data option \<Rightarrow> bool \<Rightarrow> bool" where
  "two_operands vc m0 code s ip' n h st d1 d2 clean \<longleftrightarrow>
     (\<exists>m' n' h' p1 p2. ovm_steps vc code s (ip', m') \<and> state_of m0 n' h' (p2 # p1 # st) m' \<and>
        hdata h' p1 = Inr d1 \<and> hdata (drop_temp h' p1) p2 = Inr d2 \<and> h' n' = None \<and>
        ext n h n' (drop_temp (drop_temp h' p1) p2) \<and>
        (clean \<longrightarrow> (\<forall>a \<ge> n. drop_temp (drop_temp h' p1) p2 a = None)))"

lemma drop_temp_at:
  "drop_temp h p a = (if p = Some a \<and> (\<exists>v. h a = Some v \<and> is_not_bound v) then None else h a)"
  by (auto simp: drop_temp_def split: option.splits)

lemma held_less: "held n0 h0 p \<Longrightarrow> ext n0 h0 n h \<Longrightarrow> p = Some a \<Longrightarrow>
    a < n \<and> (\<exists>v. h a = Some v \<and> \<not> is_not_bound v)"
  by (auto simp: held_def ext_def)

lemma temp_less: "temp k h p \<Longrightarrow> \<forall>a \<ge> n. h a = None \<Longrightarrow> p = Some a \<Longrightarrow>
    k \<le> a \<and> a < n \<and> (\<exists>v. h a = Some v \<and> is_not_bound v)"
  by (fastforce simp: temp_def not_less [symmetric])

lemma push_two:
  assumes A: "pushes vc m0 xs (Inr d1) ca pa" and B: "pushes vc m0 ys (Inr d2) cb pb"
    and c: "code_at code ip (xs @ ys)" "length code < 2 ^ 63"
    and m: "state_of m0 n h st m" "ext (fresh m0) (heap m0) n h"
  shows "two_operands vc m0 code (ip, m) (ip + length (xs @ ys)) n h st d1 d2 (ca \<and> cb)"
proof -
  let ?n0 = "fresh m0" and ?h0 = "heap m0"
  have c': "code_at code ip xs" "code_at code (ip + length xs) ys" using c(1) by simp_all
  from pushesD(2) [OF A c'(1) c(2) m refl] obtain m1 h1 n1 p1 where
    1: "ovm_steps vc code (ip, m) (ip + length xs, m1)" "state_of m0 n1 h1 (p1 # st) m1"
      "ext n h n1 h1" "hdata h1 p1 = Inr d1" "held ?n0 ?h0 p1 \<or> temp n h1 p1"
      "ca \<longrightarrow> (\<forall>a \<ge> n. h1 a \<noteq> None \<longrightarrow> p1 = Some a)" by blast
  have x1: "ext ?n0 ?h0 n1 h1" using m(2) 1(3) by (rule ext_trans)
  from pushesD(2) [OF B c'(2) c(2) 1(2) x1 refl] obtain m2 h2 n2 p2 where
    2: "ovm_steps vc code (ip + length xs, m1) (ip + length xs + length ys, m2)"
      "state_of m0 n2 h2 (p2 # p1 # st) m2"
      "ext n1 h1 n2 h2" "hdata h2 p2 = Inr d2" "held ?n0 ?h0 p2 \<or> temp n1 h2 p2"
      "cb \<longrightarrow> (\<forall>a \<ge> n1. h2 a \<noteq> None \<longrightarrow> p2 = Some a)" by blast
  have x2: "ext ?n0 ?h0 n2 h2" using x1 2(3) by (rule ext_trans)
  have n1: "\<forall>a \<ge> n1. h1 a = None" and n2: "\<forall>a \<ge> n2. h2 a = None" using 1(3) 2(3) by (auto simp: ext_def)
  have p1: "a < n1" "h2 a = h1 a" if "p1 = Some a" for a
    using that 1(5) held_less [OF _ x1 that] temp_less [OF _ n1 that] 2(3) by (auto simp: ext_def)
  have p2: "p2 = Some a \<Longrightarrow> temp n1 h2 p2 \<Longrightarrow> p1 \<noteq> p2" for a
    using p1(1) temp_less [OF _ n2] by (metis not_le)
  let ?h3 = "drop_temp (drop_temp h2 p1) p2"
  have d1: "hdata h2 p1 = Inr d1" using 1(4) p1(2) by (auto simp: hdata_def split: option.splits)
  have same: "p1 = p2 \<Longrightarrow> drop_temp h2 p1 = h2"
    using 2(5) p2 held_less [OF _ x2] by (cases p2) (fastforce simp: drop_temp_def)+
  then have d2: "hdata (drop_temp h2 p1) p2 = Inr d2"
    using 2(4) by (cases "p1 = p2") (auto simp: hdata_def drop_temp_at split: option.splits)
  have keep: "?h3 a = h2 a" if "a < n" for a
  proof -
    have "\<not> is_not_bound v" if "p1 = Some a \<or> p2 = Some a" "h2 a = Some v" for v
      using that \<open>a < n\<close> 1(3,5) 2(5) held_less [OF _ x2, of _ a] temp_less [OF _ n1, of n p1 a]
        temp_less [OF _ n2, of n1 p2 a] by (fastforce simp: ext_def)
    then show ?thesis by (auto simp: drop_temp_at)
  qed
  have gone: "?h3 a = None" if "h2 a = None" for a using that by (simp add: drop_temp_at)
  have "ext n h n2 ?h3" using keep gone 1(3) 2(3) by (auto simp: ext_def)
  moreover have "?h3 a = None" if "ca" "cb" "n \<le> a" for a
  proof (rule ccontr)
    assume "?h3 a \<noteq> None"
    then have a: "h2 a \<noteq> None" "\<And>v. h2 a = Some v \<Longrightarrow> p1 = Some a \<or> p2 = Some a \<Longrightarrow> \<not> is_not_bound v"
      by (auto simp: drop_temp_at split: if_splits)
    show False
    proof (cases "n1 \<le> a")
      case True
      with a(1) 2(6) \<open>cb\<close> have "p2 = Some a" by blast
      then show False
        using 2(5) a(2) temp_less [OF _ n2] held_less [OF _ m(2)] \<open>n \<le> a\<close> by fastforce
    next
      case False
      then have "h2 a = h1 a" using 2(3) by (simp add: ext_def)
      with a(1) 1(6) \<open>ca\<close> \<open>n \<le> a\<close> have "p1 = Some a" by auto
      then show False
        using 1(5) a(2) \<open>h2 a = h1 a\<close> temp_less [OF _ n1] held_less [OF _ m(2)] \<open>n \<le> a\<close> by fastforce
    qed
  qed
  moreover have "ovm_steps vc code (ip, m) (ip + length (xs @ ys), m2)"
    using rtranclp_trans [OF 1(1) 2(1)] by (simp add: add.assoc)
  moreover have "h2 n2 = None" using n2 by simp
  ultimately show ?thesis unfolding two_operands_def using 2(2) d1 d2 by blast
qed

lemma two_results:
  assumes A: "pushes vc m0 xs ra ca pa" and B: "pushes vc m0 ys rb cb pb"
    and c: "code_at code ip (xs @ ys)" "length code < 2 ^ 63"
    and m: "state_of m0 n h st m" "ext (fresh m0) (heap m0) n h"
  shows "(\<exists>f. bnd ra (\<lambda>a. bnd rb (k a)) = Inl f \<and> crashes vc code (ip, m) f) \<or>
    (\<exists>d1 d2. ra = Inr d1 \<and> rb = Inr d2 \<and>
      two_operands vc m0 code (ip, m) (ip + length (xs @ ys)) n h st d1 d2 (ca \<and> cb))"
proof (cases ra)
  case (Inl f)
  with pushesD(1) [OF A _ c(2) m] c(1) show ?thesis by auto
next
  case (Inr d1)
  note ra = this
  show ?thesis
  proof (cases rb)
    case (Inr d2)
    with push_two A B c m ra show ?thesis by blast
  next
    case (Inl f)
    have "code_at code ip xs" using c(1) by simp
    from pushesD(2) [OF A this c(2) m ra] obtain m1 h1 n1 p1 where
      1: "ovm_steps vc code (ip, m) (ip + length xs, m1)" "state_of m0 n1 h1 (p1 # st) m1"
        "ext n h n1 h1" by blast
    have "ext (fresh m0) (heap m0) n1 h1" using m(2) 1(3) by (rule ext_trans)
    with pushesD(1) [OF B _ c(2) 1(2) _ Inl] c(1)
    have "crashes vc code (ip + length xs, m1) f" by simp
    with 1(1) ra Inl show ?thesis by (auto intro: crashes_later)
  qed
qed

section \<open>Arithmetic and comparisons\<close>

lemma arith_insn:
  assumes "OP_ADD \<le> op" and "op \<le> OP_MOD"
  shows "ovm_insn vc code op = ovm_arith (arith_of op) vc code" and "0 < op" and "op < OPCODE_NUM"
proof -
  consider "op = OP_ADD" | "op = OP_SUB" | "op = OP_MUL" | "op = OP_DIV" | "op = OP_MOD"
    using assms by linarith
  then show "ovm_insn vc code op = ovm_arith (arith_of op) vc code"
    by cases (simp_all add: ops_g_nth arith_of_def ovm_add_def ovm_sub_def ovm_mul_def ovm_div_def
        ovm_mod_def)
qed (use assms in \<open>auto simp: OPCODE_NUM_def\<close>)

lemma arith_value_temp:
  assumes "arith_value (arith_of op) d1 d2 = Inr (Some v)"
  shows "is_not_bound v"
  using assms add_temp sub_temp mul_temp div_temp mod_temp
  by (auto simp: arith_value_def arith_of_def split: if_splits)

lemma vm_ready_null:
  assumes "vm_ready vc m0"
  obtains p d where "NULL_VAR vc = Inr p" and "held (fresh m0) (heap m0) p"
    and "hdata (heap m0) p = Inr d"
proof -
  from assms have "NULL_VAR vc = Inr (static_env vc ! static_null_res_id vc)"
    by (simp add: NULL_VAR_def vm_ready_def)
  moreover from this vm_ready_held(1) [OF assms] have
    "held (fresh m0) (heap m0) (static_env vc ! static_null_res_id vc)" by (simp add: NULL_VAR_def)
  moreover from held_data(3) [OF this fresh_ext [OF assms]] obtain d where
    "hdata (heap m0) (static_env vc ! static_null_res_id vc) = Inr d" ..
  ultimately show ?thesis using that by blast
qed

lemma pushes_arith:
  assumes r: "vm_ready vc m0" and op: "OP_ADD \<le> op" "op \<le> OP_MOD"
    and A: "pushes vc m0 xs ra ca pa" and B: "pushes vc m0 ys rb cb pb"
  shows "pushes vc m0 (xs @ ys @ [W op])
    (bnd ra (\<lambda>a. bnd rb (arith_sem vc m0 op a))) (ca \<and> cb) False"
  unfolding pushes_def
proof (intro allI impI)
  fix code ip h n st m
  assume c: "code_at code ip (xs @ ys @ [W op])" "length code < 2 ^ 63"
    and m: "state_of m0 n h st m" and x: "ext (fresh m0) (heap m0) n h"
  let ?r = "bnd ra (\<lambda>a. bnd rb (arith_sem vc m0 op a))"
  let ?ip = "ip + length (xs @ ys)"
  let ?post = "\<lambda>d m' h' n' p. ovm_steps vc code (ip, m) (ip + length (xs @ ys @ [W op]), m') \<and>
     state_of m0 n' h' (p # st) m' \<and> ext n h n' h' \<and> hdata h' p = Inr d \<and>
     (held (fresh m0) (heap m0) p \<or> \<not> False \<and> temp n h' p) \<and>
     (ca \<and> cb \<longrightarrow> (\<forall>a \<ge> n. h' a \<noteq> None \<longrightarrow> p = Some a))"
  have cc: "code_at code ip (xs @ ys)" and at: "at code ?ip = Inr (W op)"
    using c(1) by (auto simp: add.assoc)
  note insn = arith_insn [OF op]
  from two_results [OF A B cc c(2) m x, of "arith_sem vc m0 op"]
  consider f where "?r = Inl f" "crashes vc code (ip, m) f"
    | d1 d2 where "ra = Inr d1" "rb = Inr d2"
        "two_operands vc m0 code (ip, m) ?ip n h st d1 d2 (ca \<and> cb)" by blast
  then show "case ?r of Inl f \<Rightarrow> \<exists>s. ovm_steps vc code (ip, m) s \<and> ovm_crash vc code s f
      | Inr d \<Rightarrow> \<exists>m' h' n' p. ?post d m' h' n' p"
  proof cases
    case 1
    then show ?thesis by (simp add: crashes_def)
  next
    case 2
    then obtain m2 h2 n2 p1 p2 where t: "ovm_steps vc code (ip, m) (?ip, m2)"
      "state_of m0 n2 h2 (p2 # p1 # st) m2" "hdata h2 p1 = Inr d1"
      "hdata (drop_temp h2 p1) p2 = Inr d2" "h2 n2 = None"
      "ext n h n2 (drop_temp (drop_temp h2 p1) p2)"
      "ca \<and> cb \<longrightarrow> (\<forall>a \<ge> n. drop_temp (drop_temp h2 p1) p2 a = None)"
      unfolding two_operands_def by blast
    let ?h3 = "drop_temp (drop_temp h2 p1) p2"
    have crash: "case Inl f of Inl f \<Rightarrow> \<exists>s. ovm_steps vc code (ip, m) s \<and> ovm_crash vc code s f
        | Inr d \<Rightarrow> \<exists>m' h' n' p. ?post d m' h' n' p"
      if "ovm_arith (arith_of op) vc code ?ip m2 = Inl f" for f
      using crash_insn [OF at insn(2,3), of vc m2 f] that t(1) insn(1) by auto
    have step: "ovm_steps vc code (ip, m) (ip + length (xs @ ys @ [W op]), m3)"
      if "ovm_arith (arith_of op) vc code ?ip m2 = Inr (?ip + 1, m3)" for m3
      using step_insn [OF at insn(2,3), of vc m2 "?ip + 1" m3] that t(1) insn(1)
      by (simp add: rtranclp.rtrancl_into_rtrancl)
    have fin: ?thesis if "?r = Inr d" "?post d m' h' n' p" for d m' h' n' p
      unfolding that(1) sum.case using that(2) by blast
    from r obtain null d0 where null: "NULL_VAR vc = Inr null"
      "held (fresh m0) (heap m0) null" "hdata (heap m0) null = Inr d0" by (rule vm_ready_null)
    show ?thesis
    proof (cases "d1 = None \<or> d2 = None")
      case True
      then have "?r = Inl NullDeref" using 2 by (auto simp: arith_sem_def split: option.splits)
      with crash ovm_arith_null [OF t(2,3,4) True null(1)] show ?thesis by simp
    next
      case False
      then obtain x y where xy: "d1 = Some x" "d2 = Some y" by auto
      note p = t(3,4) [unfolded xy]
      show ?thesis
      proof (cases "arith_value (arith_of op) x y")
        case (Inl f)
        with 2 xy have "?r = Inl f" by (simp add: arith_sem_def)
        with crash ovm_arith_fault [OF t(2) p(1) hdata_drop [OF p(2)] Inl] show ?thesis by simp
      next
        case (Inr res)
        from ovm_arith_ok [OF t(2,5) p Inr null(1), of code ?ip] obtain m3 where
          3: "ovm_arith (arith_of op) vc code ?ip m2 = Inr (?ip + 1, m3)"
            "state_of m0 (case res of None \<Rightarrow> n2 | Some v \<Rightarrow> Suc n2)
              (case res of None \<Rightarrow> ?h3 | Some v \<Rightarrow> ?h3(n2 \<mapsto> v))
              ((case res of None \<Rightarrow> null | Some v \<Rightarrow> Some n2) # st) m3" by blast
        show ?thesis
        proof (cases res)
          case None
          then have "?r = Inr d0" using 2 xy Inr null by (simp add: arith_sem_def null_data_def data_of_heap)
          moreover have "hdata ?h3 null = Inr d0"
            using held_data(1) [OF null(2) ext_trans [OF x t(6)]] null(3) by simp
          ultimately show ?thesis using step [OF 3(1)] 3(2) None t(6,7) null(2)
            by (intro fin [of d0 m3 ?h3 n2 null]) simp_all
        next
          case (Some v)
          then have "?r = Inr (Some (vdata v))" using 2 xy Inr by (simp add: arith_sem_def)
          moreover have "temp n (?h3(n2 \<mapsto> v)) (Some n2)"
            using arith_value_temp Inr Some t(6) by (auto simp: temp_def ext_def)
          moreover have "ext n h (Suc n2) (?h3(n2 \<mapsto> v))" using t(6) by (auto simp: ext_def)
          moreover have "ca \<and> cb \<longrightarrow> (\<forall>a \<ge> n. (?h3(n2 \<mapsto> v)) a \<noteq> None \<longrightarrow> Some n2 = Some a)"
            using t(7) by auto
          ultimately show ?thesis using step [OF 3(1)] 3(2) Some
            by (intro fin [of "Some (vdata v)" m3 "?h3(n2 \<mapsto> v)" "Suc n2" "Some n2"])
              (simp_all add: hdata_def)
        qed
      qed
    qed
  qed
qed

section \<open>Conditions that jump\<close>

text \<open>The code \<open>xs\<close> of a condition followed by \<open>OP_POPCJMP\<close> and \<open>OP_JMP\<close>: control goes to the
  target that the outcome selects, and the stack is as before.\<close>

definition tests :: "ovm_ctx \<Rightarrow> ovm \<Rightarrow> culong list \<Rightarrow> fault + ovm_data option \<Rightarrow> bool \<Rightarrow> bool" where
  "tests vc m0 xs r clean \<longleftrightarrow> (\<forall>code ip h n st m x y.
     code_at code ip (xs @ [W OP_POPCJMP, W x, W OP_JMP, W y]) \<longrightarrow> x < 2 ^ 63 \<longrightarrow> y < 2 ^ 63 \<longrightarrow>
     length code < 2 ^ 63 \<longrightarrow> state_of m0 n h st m \<longrightarrow> ext (fresh m0) (heap m0) n h \<longrightarrow>
     (case r of
        Inl f \<Rightarrow> crashes vc code (ip, m) f
      | Inr d \<Rightarrow> \<exists>m' h' n'. ovm_steps vc code (ip, m)
            (if issdl_test d then ip + length xs + 2 + x else ip + length xs + 4 + y, m') \<and>
          state_of m0 n' h' st m' \<and> ext n h n' h' \<and>
          (clean \<longrightarrow> (\<forall>a \<ge> n. h' a = None))))"

lemma jump_from_W: "at code (ip + 1) = Inr (W x) \<Longrightarrow> x < 2 ^ 63 \<Longrightarrow> jump_from code ip = Inr (ip + 2 + x)"
proof -
  assume a: "at code (ip + 1) = Inr (W x)" "x < 2 ^ 63"
  have "sint (W x) = int x" using a(2) sint_word_of_int [of "int x"] by simp
  then show "jump_from code ip = Inr (ip + 2 + x)"
    using a(1) by (simp add: jump_from_def nat_add_distrib)
qed

lemma tests_pushes:
  assumes A: "pushes vc m0 xs r clean plain"
  shows "tests vc m0 xs r (clean \<and> plain)"
  unfolding tests_def
proof (intro allI impI)
  fix code ip h n st m x y
  assume c: "code_at code ip (xs @ [W OP_POPCJMP, W x, W OP_JMP, W y])" and xy: "x < 2 ^ 63" "y < 2 ^ 63"
    and len: "length code < 2 ^ 63" and m: "state_of m0 n h st m" "ext (fresh m0) (heap m0) n h"
  let ?ip = "ip + length xs"
  have cx: "code_at code ip xs" and at: "at code ?ip = Inr (W OP_POPCJMP)"
    "at code (?ip + 1) = Inr (W x)" "at code (?ip + 2) = Inr (W OP_JMP)" "at code (?ip + 2 + 1) = Inr (W y)"
    using c by (auto simp: numeral_2_eq_2)
  show "case r of Inl f \<Rightarrow> crashes vc code (ip, m) f
      | Inr d \<Rightarrow> \<exists>m' h' n'. ovm_steps vc code (ip, m)
            (if issdl_test d then ip + length xs + 2 + x else ip + length xs + 4 + y, m') \<and>
          state_of m0 n' h' st m' \<and> ext n h n' h' \<and> (clean \<and> plain \<longrightarrow> (\<forall>a \<ge> n. h' a = None))"
  proof (cases r)
    case (Inl f)
    with pushesD(1) [OF A cx len m] show ?thesis by simp
  next
    case (Inr d)
    from pushesD(2) [OF A cx len m Inr] obtain m1 h1 n1 p where
      1: "ovm_steps vc code (ip, m) (?ip, m1)" "state_of m0 n1 h1 (p # st) m1" "ext n h n1 h1"
        "hdata h1 p = Inr d" "held (fresh m0) (heap m0) p \<or> \<not> plain \<and> temp n h1 p"
        "clean \<longrightarrow> (\<forall>a \<ge> n. h1 a \<noteq> None \<longrightarrow> p = Some a)" by blast
    from 1(2) obtain m2 where 2: "pop m1 = (p, m2)" "state_of m0 n1 h1 st m2" by (rule vmst_pop)
    have d: "data_of m2 p = Inr d" using 1(4) vmst_data [OF 2(2)] by simp
    have clean: "clean \<and> plain \<longrightarrow> (\<forall>a \<ge> n. h1 a = None)"
      using 1(5,6) held_less [OF _ m(2)] by fastforce
    have pc: "ovm_popcjmp vc code ?ip m1 =
        Inr (if issdl_test d then ?ip + 2 + x else ?ip + 2, m2)"
      using 2(1) d jump_from_W [OF at(2) xy(1)] by (simp add: ovm_popcjmp_def)
    have s1: "ovm_step vc code (?ip, m1) (if issdl_test d then ?ip + 2 + x else ?ip + 2, m2)"
      using step_insn [OF at(1), of vc m1] pc by (simp add: ops_g_nth OPCODE_NUM_def)
    have s2: "ovm_step vc code (?ip + 2, m2) (?ip + 4 + y, m2)"
      using step_insn [OF at(3), of vc m2 "?ip + 4 + y" m2] jump_from_W [OF at(4) xy(2)]
      by (simp add: ops_g_nth ovm_jmp_def OPCODE_NUM_def)
    have "ovm_steps vc code (ip, m) (if issdl_test d then ?ip + 2 + x else ?ip + 4 + y, m2)"
      using 1(1) s1 s2 by (cases "issdl_test d") (auto intro: rtranclp.rtrancl_into_rtrancl)
    with 2(2) 1(3) clean show ?thesis unfolding Inr sum.case by blast
  qed
qed

section \<open>Comparisons\<close>

lemma vm_ready_static:
  assumes "vm_ready vc m0"
  shows "NULL_VAR vc = Inr p \<Longrightarrow> held (fresh m0) (heap m0) p"
    and "PARAM_ERROR_VAR vc = Inr p \<Longrightarrow> held (fresh m0) (heap m0) p"
    and "REGEX_ERROR_VAR vc = Inr p \<Longrightarrow> held (fresh m0) (heap m0) p"
    and "TRUE_VAR vc = Inr p \<Longrightarrow> held (fresh m0) (heap m0) p"
    and "FALSE_VAR vc = Inr p \<Longrightarrow> held (fresh m0) (heap m0) p"
  using vm_ready_held(1) [OF assms]
  by (simp_all add: NULL_VAR_def PARAM_ERROR_VAR_def REGEX_ERROR_VAR_def TRUE_VAR_def FALSE_VAR_def)

lemma cond_choice_held:
  assumes "vm_ready vc m0" and "cond_choice vc op a b = Inr p"
  shows "held (fresh m0) (heap m0) p"
proof -
  note held = vm_ready_static [OF assms(1)]
  have cmp: "cmp_choice vc test x y = Inr p \<Longrightarrow> held (fresh m0) (heap m0) p" for test x y
    by (auto simp: cmp_choice_def simp del: is_null.simps split: if_splits dest: held)
  have match: "match_choice vc yes no err x y = Inr p \<Longrightarrow> held (fresh m0) (heap m0) p"
    if "\<And>p. yes = Inr p \<Longrightarrow> held (fresh m0) (heap m0) p"
      "\<And>p. no = Inr p \<Longrightarrow> held (fresh m0) (heap m0) p"
      "\<And>p. err = Inr p \<Longrightarrow> held (fresh m0) (heap m0) p" for yes no err x y
    using that held by (auto simp: match_choice_def simp del: is_null.simps
      split: if_splits ovm_data.splits option.splits regex_result.splits)
  show ?thesis using assms(2) cmp
      match [OF held(4,5,2)] match [OF held(5,4,3)]
    by (auto simp: cond_choice_def split: if_splits)
qed

definition outcome :: "ovm_ctx \<Rightarrow> ovm \<Rightarrow> culong list \<Rightarrow> nat \<times> ovm \<Rightarrow> nat \<Rightarrow> nat \<Rightarrow> (nat \<Rightarrow> ovm_var option) \<Rightarrow>
    nat option list \<Rightarrow> fault + ovm_data option \<Rightarrow> bool \<Rightarrow> bool \<Rightarrow> bool" where
  "outcome vc m0 code s ip' n h st r clean plain \<longleftrightarrow>
     (case r of Inl f \<Rightarrow> crashes vc code s f
      | Inr d \<Rightarrow> \<exists>m' h' n' p. ovm_steps vc code s (ip', m') \<and>
          state_of m0 n' h' (p # st) m' \<and> ext n h n' h' \<and> hdata h' p = Inr d \<and>
          (held (fresh m0) (heap m0) p \<or> \<not> plain \<and> temp n h' p) \<and>
          (clean \<longrightarrow> (\<forall>a \<ge> n. h' a \<noteq> None \<longrightarrow> p = Some a)))"

lemma pushes_outcome: "pushes vc m0 xs r clean plain \<longleftrightarrow> (\<forall>code ip h n st m. code_at code ip xs \<longrightarrow>
     length code < 2 ^ 63 \<longrightarrow> state_of m0 n h st m \<longrightarrow> ext (fresh m0) (heap m0) n h \<longrightarrow>
     outcome vc m0 code (ip, m) (ip + length xs) n h st r clean plain)"
  unfolding pushes_def outcome_def crashes_def ..

lemma pushes_use: "pushes vc m0 xs r clean plain \<Longrightarrow> code_at code ip xs \<Longrightarrow> length code < 2 ^ 63 \<Longrightarrow>
    state_of m0 n h st m \<Longrightarrow> ext (fresh m0) (heap m0) n h \<Longrightarrow>
    outcome vc m0 code (ip, m) (ip + length xs) n h st r clean plain"
  unfolding pushes_outcome by blast

lemma outcome_crash: "crashes vc code s f \<Longrightarrow> outcome vc m0 code s ip' n h st (Inl f) clean plain"
  by (simp add: outcome_def)

lemma outcome_held:
  assumes "ovm_steps vc code s (ip', m')" and "state_of m0 n' h' (p # st) m'" and "ext n h n' h'"
    and "ext (fresh m0) (heap m0) n h"
    and "held (fresh m0) (heap m0) p" and "clean \<Longrightarrow> \<forall>a \<ge> n. h' a = None"
  shows "outcome vc m0 code s ip' n h st (data_of m0 p) clean plain"
proof -
  note x = held_data [OF assms(5) ext_trans [OF assms(4,3)]]
  from x(3) obtain d where "hdata (heap m0) p = Inr d" ..
  then show ?thesis using assms(1-3,5,6) x(1) by (fastforce simp: outcome_def data_of_heap)
qed

lemma outcome_later:
  assumes "ovm_steps vc code s s'" and "ext n h n1 h1" and "c1 \<longrightarrow> (\<forall>a \<ge> n. h1 a = None)"
    and "outcome vc m0 code s' ip' n1 h1 st r clean plain"
  shows "outcome vc m0 code s ip' n h st r (c1 \<and> clean) plain"
proof (cases r)
  case (Inl f)
  with assms show ?thesis by (auto simp: outcome_def intro: crashes_later)
next
  case (Inr d)
  with assms(4) obtain m' h' n' p where o: "ovm_steps vc code s' (ip', m')"
    "state_of m0 n' h' (p # st) m'" "ext n1 h1 n' h'" "hdata h' p = Inr d"
    "held (fresh m0) (heap m0) p \<or> \<not> plain \<and> temp n1 h' p"
    "clean \<longrightarrow> (\<forall>a \<ge> n1. h' a \<noteq> None \<longrightarrow> p = Some a)" unfolding outcome_def Inr sum.case by blast
  have "ovm_steps vc code s (ip', m')" using assms(1) o(1) by (rule rtranclp_trans)
  moreover have "ext n h n' h'" using assms(2) o(3) by (rule ext_trans)
  moreover have "temp n1 h' p \<Longrightarrow> temp n h' p" using assms(2) by (auto simp: temp_def ext_def)
  moreover have "c1 \<and> clean \<longrightarrow> (\<forall>a \<ge> n. h' a \<noteq> None \<longrightarrow> p = Some a)"
  proof (intro impI allI)
    fix a assume a: "c1 \<and> clean" "n \<le> a" "h' a \<noteq> None"
    then have "n1 \<le> a" using assms(3) o(3) by (force simp: ext_def not_less)
    with a o(6) show "p = Some a" by blast
  qed
  ultimately show ?thesis unfolding outcome_def Inr sum.case using o(2,4,5) by blast
qed

lemma pushes_cmp:
  assumes r: "vm_ready vc m0" and op: "is_cmp_op op"
    and A: "pushes vc m0 xs ra ca pa" and B: "pushes vc m0 ys rb cb pb"
  shows "pushes vc m0 (xs @ ys @ [W op])
    (bnd ra (\<lambda>a. bnd rb (\<lambda>b. bnd (cond_choice vc op a b) (data_of m0)))) (ca \<and> cb) True"
  unfolding pushes_outcome
proof (intro allI impI)
  fix code ip h n st m
  assume c: "code_at code ip (xs @ ys @ [W op])" "length code < 2 ^ 63"
    and m: "state_of m0 n h st m" and x: "ext (fresh m0) (heap m0) n h"
  let ?k = "\<lambda>a b. bnd (cond_choice vc op a b) (data_of m0)"
  let ?ip = "ip + length (xs @ ys)"
  have cc: "code_at code ip (xs @ ys)" and at: "at code ?ip = Inr (W op)"
    using c(1) by (auto simp: add.assoc)
  have o: "0 < op" "op < OPCODE_NUM" using op by (auto simp: is_cmp_op_def OPCODE_NUM_def)
  from two_results [OF A B cc c(2) m x, of ?k]
  consider f where "bnd ra (\<lambda>a. bnd rb (?k a)) = Inl f" "crashes vc code (ip, m) f"
    | d1 d2 where "ra = Inr d1" "rb = Inr d2"
        "two_operands vc m0 code (ip, m) ?ip n h st d1 d2 (ca \<and> cb)" by blast
  then show "outcome vc m0 code (ip, m) (ip + length (xs @ ys @ [W op])) n h st
      (bnd ra (\<lambda>a. bnd rb (?k a))) (ca \<and> cb) True"
  proof cases
    case 1
    then show ?thesis by (simp add: outcome_crash)
  next
    case 2
    then obtain m2 h2 n2 p1 p2 where t: "ovm_steps vc code (ip, m) (?ip, m2)"
      "state_of m0 n2 h2 (p2 # p1 # st) m2" "hdata h2 p1 = Inr d1"
      "hdata (drop_temp h2 p1) p2 = Inr d2" "h2 n2 = None"
      "ext n h n2 (drop_temp (drop_temp h2 p1) p2)"
      "ca \<and> cb \<longrightarrow> (\<forall>a \<ge> n. drop_temp (drop_temp h2 p1) p2 a = None)"
      unfolding two_operands_def by blast
    show ?thesis
    proof (cases "cond_choice vc op d1 d2")
      case (Inl f)
      from ovm_cmp_fault [OF op t(2,3) hdata_drop [OF t(4)] Inl]
      have "ovm_crash vc code (?ip, m2) f" by (rule crash_insn [OF at o])
      with t(1) have "crashes vc code (ip, m) f" unfolding crashes_def by blast
      with 2 Inl show ?thesis by (simp add: outcome_crash)
    next
      case (Inr p)
      from ovm_cmp_ok [OF op t(2,3,4) Inr] obtain m3 where
        3: "ovm_insn vc code op ?ip m2 = Inr (?ip + 1, m3)"
          "state_of m0 n2 (drop_temp (drop_temp h2 p1) p2) (p # st) m3" by blast
      from step_insn [OF at o 3(1)] t(1)
      have "ovm_steps vc code (ip, m) (ip + length (xs @ ys @ [W op]), m3)"
        by (simp add: rtranclp.rtrancl_into_rtrancl)
      from outcome_held [OF this 3(2) t(6) x cond_choice_held [OF r Inr], of "ca \<and> cb" True] t(7)
      show ?thesis using 2 Inr by simp
    qed
  qed
qed

section \<open>Booleans\<close>

text \<open>The compiler's numbers of the static \<open>1\<close> and \<open>0\<close> are those of the machine.\<close>

definition linked :: "cctx \<Rightarrow> ovm_ctx \<Rightarrow> bool" where
  "linked c vc \<longleftrightarrow> static_1 c = static_1_res_id vc \<and> static_0 c = static_0_res_id vc \<and>
     static_1 c < 2 ^ 31 \<and> static_0 c < 2 ^ 31"

lemma outcome_clean: "outcome vc m0 code s ip' n h st r True plain \<Longrightarrow>
    outcome vc m0 code s ip' n h st r clean plain"
  unfolding outcome_def by (cases r) (simp, simp, blast)

lemma bool_code_runs:
  assumes r: "vm_ready vc m0" and l: "linked c vc"
    and code: "code_at code ip (bool_code c)" "length code < 2 ^ 63"
    and m: "state_of m0 n h st m" and x: "ext (fresh m0) (heap m0) n h"
    and clean: "clean \<Longrightarrow> \<forall>a \<ge> n. h a = None"
  shows "outcome vc m0 code (if t then ip else ip + 4, m) (ip + 6) n h st (truth vc m0 t) clean True"
proof (cases t)
  case True
  have c: "code_at code ip [W OP_PUSHSTATIC, W (static_1 c)]"
    "at code (ip + 2) = Inr (W OP_JMP)" "at code (ip + 2 + 1) = Inr (W 2)"
    using code(1) by (auto simp: bool_code_def numeral_2_eq_2)
  have l1: "static_1 c < 2 ^ 31" using l by (simp add: linked_def)
  have tr: "truth vc m0 t = bnd (at (static_env vc) (static_1 c)) (data_of m0)"
    using True l by (simp add: truth_def linked_def TRUE_VAR_def)
  note p = pushesD [OF pushes_const [OF r l1] c(1) code(2) m x]
  show ?thesis
  proof (cases "truth vc m0 t")
    case (Inl f)
    with p(1) tr True show ?thesis by (simp add: outcome_crash)
  next
    case (Inr d)
    then have "bnd (at (static_env vc) (static_1 c)) (data_of m0) = Inr d" using tr by simp
    from p(2) [OF this] obtain m' h' n' q where
      q0: "ovm_steps vc code (ip, m) (ip + length [W OP_PUSHSTATIC, W (static_1 c)], m')" and
      q: "state_of m0 n' h' (q # st) m'" "ext n h n' h'" "hdata h' q = Inr d"
      "held (fresh m0) (heap m0) q" "\<forall>a \<ge> n. h' a \<noteq> None \<longrightarrow> q = Some a" by blast
    have q1: "ovm_steps vc code (ip, m) (ip + 2, m')" using q0 by (simp add: numeral_2_eq_2)
    have "ovm_step vc code (ip + 2, m') (ip + 6, m')"
      using step_insn [OF c(2), of vc m' "ip + 6" m'] jump_from_W [OF c(3)]
      by (simp add: ops_g_nth ovm_jmp_def OPCODE_NUM_def)
    with q1 have "ovm_steps vc code (ip, m) (ip + 6, m')" by (rule rtranclp.rtrancl_into_rtrancl)
    with q True show ?thesis unfolding outcome_def Inr sum.case by auto
  qed
next
  case False
  have c: "code_at code (ip + 4) [W OP_PUSHSTATIC, W (static_0 c)]"
    using code(1) by (auto simp: bool_code_def eval_nat_numeral)
  have l0: "static_0 c < 2 ^ 31" using l by (simp add: linked_def)
  have tr: "truth vc m0 t = bnd (at (static_env vc) (static_0 c)) (data_of m0)"
    using False l by (simp add: truth_def linked_def FALSE_VAR_def)
  have "outcome vc m0 code (ip + 4, m) (ip + 4 + 2) n h st (truth vc m0 t) True True"
    using pushes_const [OF r l0] c code(2) m x unfolding pushes_outcome tr
    by (fastforce simp: numeral_2_eq_2)
  from outcome_clean [OF this] False show ?thesis by (simp add: add.commute add.left_commute)
qed

lemma testsD:
  assumes "tests vc m0 xs r clean" and "code_at code ip (xs @ [W OP_POPCJMP, W x, W OP_JMP, W y])"
    and "x < 2 ^ 63" "y < 2 ^ 63" "length code < 2 ^ 63" "state_of m0 n h st m"
    and "ext (fresh m0) (heap m0) n h"
  shows "r = Inl f \<Longrightarrow> crashes vc code (ip, m) f"
    and "r = Inr d \<Longrightarrow> \<exists>m' h' n'. ovm_steps vc code (ip, m)
            (if issdl_test d then ip + length xs + 2 + x else ip + length xs + 4 + y, m') \<and>
          state_of m0 n' h' st m' \<and> ext n h n' h' \<and> (clean \<longrightarrow> (\<forall>a \<ge> n. h' a = None))"
  using assms unfolding tests_def by (fastforce, fastforce)

lemma code_at_length: "code_at code ip xs \<Longrightarrow> xs \<noteq> [] \<Longrightarrow> ip + length xs \<le> length code"
  unfolding code_at_def by (cases xs rule: rev_cases) (auto simp: at_eq_Inr dest!: spec [of _ "length _"])

lemma pushes_bool:
  assumes r: "vm_ready vc m0" and l: "linked c vc" and T: "tests vc m0 xs rx cx"
  shows "pushes vc m0 (xs @ [W OP_POPCJMP, 2, W OP_JMP, 4] @ bool_code c)
    (bnd rx (\<lambda>a. truth vc m0 (issdl_test a))) cx True"
  unfolding pushes_outcome
proof (intro allI impI)
  fix code ip h n st m
  let ?code = "xs @ [W OP_POPCJMP, 2, W OP_JMP, 4] @ bool_code c"
  assume c: "code_at code ip ?code" and len: "length code < 2 ^ 63"
    and m: "state_of m0 n h st m" and x: "ext (fresh m0) (heap m0) n h"
  have c1: "code_at code ip (xs @ [W OP_POPCJMP, W 2, W OP_JMP, W 4])"
    and c2: "code_at code (ip + length xs + 4) (bool_code c)"
    using c by (auto simp: eval_nat_numeral)
  have b: "(2 :: nat) < 2 ^ 63" "(4 :: nat) < 2 ^ 63" by simp_all
  note t = testsD [OF T c1 b len m x]
  show "outcome vc m0 code (ip, m) (ip + length ?code) n h st
     (bnd rx (\<lambda>a. truth vc m0 (issdl_test a))) cx True"
  proof (cases rx)
    case (Inl f)
    with t(1) show ?thesis by (simp add: outcome_crash)
  next
    case (Inr a)
    from t(2) [OF this] obtain m' h' n' where q0: "ovm_steps vc code (ip, m)
        (if issdl_test a then ip + length xs + 2 + 2 else ip + length xs + 4 + 4, m')"
      and s: "state_of m0 n' h' st m'" "ext n h n' h'" "cx \<longrightarrow> (\<forall>a \<ge> n. h' a = None)" by blast
    have "ip + length xs + 2 + 2 = ip + length xs + 4" by simp
    note q = q0 [unfolded this] s
    have "ext (fresh m0) (heap m0) n' h'" using x q(3) by (rule ext_trans)
    moreover have "cx \<Longrightarrow> \<forall>a \<ge> n'. h' a = None" using q(3) by (auto simp: ext_def)
    ultimately have "outcome vc m0 code (if issdl_test a then ip + length xs + 4
        else ip + length xs + 4 + 4, m') (ip + length xs + 4 + 6) n' h' st
        (truth vc m0 (issdl_test a)) cx True"
      by (intro bool_code_runs [OF r l c2 len q(2)])
    from outcome_later [OF q(1,3,4) this]
    have "outcome vc m0 code (ip, m) (ip + length xs + 4 + 6) n h st
        (truth vc m0 (issdl_test a)) cx True" by simp
    moreover have "ip + length ?code = ip + length xs + 4 + 6" by (simp add: bool_code_def)
    ultimately show ?thesis unfolding Inr bnd_Inr by (simp only:)
  qed
qed

text \<open>\<open>&&\<close> and \<open>||\<close>: after the first test, control is at the second condition or at one of the
  two entries of the boolean code.\<close>

lemma pushes_logic:
  assumes r: "vm_ready vc m0" and l: "linked c vc"
    and A: "tests vc m0 xs ra ca" and B: "tests vc m0 ys rb cb"
    and xy: "if isand then x = 2 \<and> y = length ys + 8 else x = length ys + 6 \<and> y = 0"
  shows "pushes vc m0 (xs @ [W OP_POPCJMP, W x, W OP_JMP, W y] @ ys @
      [W OP_POPCJMP, 2, W OP_JMP, 4] @ bool_code c)
    (bnd ra (\<lambda>a. if issdl_test a = isand then bnd rb (\<lambda>b. truth vc m0 (issdl_test b))
       else truth vc m0 (\<not> isand))) (ca \<and> cb) True"
  unfolding pushes_outcome
proof (intro allI impI)
  fix code ip h n st m
  let ?tail = "ys @ [W OP_POPCJMP, 2, W OP_JMP, 4] @ bool_code c"
  let ?code = "xs @ [W OP_POPCJMP, W x, W OP_JMP, W y] @ ?tail"
  let ?k = "\<lambda>a. if issdl_test a = isand then bnd rb (\<lambda>b. truth vc m0 (issdl_test b))
       else truth vc m0 (\<not> isand)"
  assume c: "code_at code ip ?code" and len: "length code < 2 ^ 63"
    and m: "state_of m0 n h st m" and x: "ext (fresh m0) (heap m0) n h"
  let ?mid = "ip + length xs + 4" and ?bool = "ip + length xs + 4 + length ys + 4"
  have c1: "code_at code ip (xs @ [W OP_POPCJMP, W x, W OP_JMP, W y])"
    and c2: "code_at code ?mid ?tail" and c3: "code_at code ?bool (bool_code c)"
    using c by (auto simp: eval_nat_numeral)
  have "ip + length ?code \<le> length code" using c by (rule code_at_length) simp
  then have lt: "x < 2 ^ 63" "y < 2 ^ 63" using xy len by (auto simp: bool_code_def split: if_splits)
  have "ip + length ?code = ?bool + 6" "ip + length ?code = ?mid + length ?tail"
    by (simp_all add: bool_code_def)
  note ends = this
  note t = testsD [OF A c1 lt len m x]
  show "outcome vc m0 code (ip, m) (ip + length ?code) n h st (bnd ra ?k) (ca \<and> cb) True"
  proof (cases ra)
    case (Inl f)
    with t(1) show ?thesis by (simp add: outcome_crash)
  next
    case (Inr a)
    from t(2) [OF Inr] obtain m' h' n' where q: "ovm_steps vc code (ip, m)
        (if issdl_test a then ip + length xs + 2 + x else ip + length xs + 4 + y, m')"
      "state_of m0 n' h' st m'" "ext n h n' h'" "ca \<longrightarrow> (\<forall>a \<ge> n. h' a = None)" by blast
    have x': "ext (fresh m0) (heap m0) n' h'" using x q(3) by (rule ext_trans)
    show ?thesis
    proof (cases "issdl_test a = isand")
      case True
      then have "(if issdl_test a then ip + length xs + 2 + x else ip + length xs + 4 + y) = ?mid"
        using xy by (auto split: if_splits)
      note q1 = q(1) [unfolded this]
      have "outcome vc m0 code (?mid, m') (?mid + length ?tail) n' h' st (?k a) cb True"
        using pushes_use [OF pushes_bool [OF r l B] c2 len q(2) x'] by (simp only: True if_True refl)
      from outcome_later [OF q1 q(3,4) this] show ?thesis unfolding Inr bnd_Inr ends(2) .
    next
      case False
      then have "(if issdl_test a then ip + length xs + 2 + x else ip + length xs + 4 + y) =
          (if \<not> isand then ?bool else ?bool + 4)" using xy by (auto split: if_splits)
      note q1 = q(1) [unfolded this]
      have clean: "\<forall>a \<ge> n'. h' a = None" using q(3) by (auto simp: ext_def)
      have "outcome vc m0 code (if \<not> isand then ?bool else ?bool + 4, m') (?bool + 6) n' h' st
          (truth vc m0 (\<not> isand)) cb True"
        by (rule bool_code_runs [OF r l c3 len q(2) x' clean])
      from outcome_later [OF q1 q(3,4) this] False show ?thesis unfolding Inr bnd_Inr ends(1) by simp
    qed
  qed
qed

lemma pushes_and:
  assumes r: "vm_ready vc m0" and l: "linked c vc"
    and A: "tests vc m0 xs ra ca" and B: "tests vc m0 ys rb cb"
  shows "pushes vc m0 (xs @ [W OP_POPCJMP, 2, W OP_JMP, W (length ys + 8)] @ ys @
      [W OP_POPCJMP, 2, W OP_JMP, 4] @ bool_code c)
    (bnd ra (\<lambda>a. if issdl_test a then bnd rb (\<lambda>b. truth vc m0 (issdl_test b))
       else truth vc m0 False)) (ca \<and> cb) True"
proof -
  have "(\<lambda>a. if issdl_test a = True then X else truth vc m0 (\<not> True)) =
      (\<lambda>a. if issdl_test a then X else truth vc m0 False)" for X by (simp add: fun_eq_iff)
  with pushes_logic [OF r l A B, of True 2 "length ys + 8"] show ?thesis
    by (simp only: of_nat_numeral if_True simp_thms)
qed

lemma pushes_or:
  assumes r: "vm_ready vc m0" and l: "linked c vc"
    and A: "tests vc m0 xs ra ca" and B: "tests vc m0 ys rb cb"
  shows "pushes vc m0 (xs @ [W OP_POPCJMP, W (length ys + 6), W OP_JMP, 0] @ ys @
      [W OP_POPCJMP, 2, W OP_JMP, 4] @ bool_code c)
    (bnd ra (\<lambda>a. if issdl_test a then truth vc m0 True
       else bnd rb (\<lambda>b. truth vc m0 (issdl_test b)))) (ca \<and> cb) True"
proof -
  have "(\<lambda>a. if issdl_test a = False then X else truth vc m0 (\<not> False)) =
      (\<lambda>a. if issdl_test a then truth vc m0 True else X)" for X by (simp add: fun_eq_iff)
  moreover have "W 0 = 0" by simp
  ultimately show ?thesis using pushes_logic [OF r l A B, of False "length ys + 6" 0]
    by (simp only: if_False simp_thms)
qed

section \<open>All expressions\<close>

lemma tests_mono:
  assumes "tests vc m0 xs r clean" and "clean' \<Longrightarrow> clean"
  shows "tests vc m0 xs r clean'"
  unfolding tests_def
proof (intro allI impI)
  fix code ip h n st m x y
  assume "code_at code ip (xs @ [W OP_POPCJMP, W x, W OP_JMP, W y])" "x < 2 ^ 63" "y < 2 ^ 63"
    "length code < 2 ^ 63" "state_of m0 n h st m" "ext (fresh m0) (heap m0) n h"
  note t = testsD [OF assms(1) this]
  show "case r of Inl f \<Rightarrow> crashes vc code (ip, m) f
      | Inr d \<Rightarrow> \<exists>m' h' n'. ovm_steps vc code (ip, m)
            (if issdl_test d then ip + length xs + 2 + x else ip + length xs + 4 + y, m') \<and>
          state_of m0 n' h' st m' \<and> ext n h n' h' \<and> (clean' \<longrightarrow> (\<forall>a \<ge> n. h' a = None))"
  proof (cases r)
    case (Inr d)
    from t(2) [OF Inr] assms(2) show ?thesis unfolding Inr sum.case by blast
  qed (use t(1) in simp)
qed

lemma outcome_mono:
  assumes "outcome vc m0 code s ip' n h st r clean plain" and "clean' \<Longrightarrow> clean" and "plain' \<Longrightarrow> plain"
  shows "outcome vc m0 code s ip' n h st r clean' plain'"
proof (cases r)
  case (Inr d)
  from assms show ?thesis unfolding outcome_def Inr sum.case by blast
qed (use assms in \<open>simp add: outcome_def\<close>)

lemma pushes_mono: "pushes vc m0 xs r clean plain \<Longrightarrow> (clean' \<Longrightarrow> clean) \<Longrightarrow> (plain' \<Longrightarrow> plain) \<Longrightarrow>
    pushes vc m0 xs r clean' plain'"
  unfolding pushes_outcome using outcome_mono by blast

definition ctidy :: "node_expr \<Rightarrow> bool" where
  "ctidy e \<longleftrightarrow> tidy e \<and> \<not> is_arith e"

lemma comparison_is_cmp: "comparison_op op \<Longrightarrow> is_cmp_op op"
  by (auto simp: comparison_op_def is_cmp_op_def)

lemma expr_runs:
  assumes r: "vm_ready vc m0" and l: "linked c vc" and tok: "tokens_ok c"
  shows "pure_expr c e \<Longrightarrow> pushes vc m0 (ecode c e) (eval c vc m0 e) (tidy e) (\<not> is_arith e)"
    and "pure_expr c e \<Longrightarrow> tests vc m0 (ccode c e) (cval c vc m0 e) (ctidy e)"
proof (induction e)
  case (NODE_BINOP op x y)
  {
    case 1
    then show ?case using pushes_arith [OF r] NODE_BINOP by simp
  next
    case 2
    then have "pushes vc m0 (ecode c (NODE_BINOP op x y)) (eval c vc m0 (NODE_BINOP op x y))
        (tidy x \<and> tidy y) False" using pushes_arith [OF r] NODE_BINOP by simp
    from tests_pushes [OF this] show ?case by (simp add: ctidy_def)
  }
next
  case (NODE_COND op x y)
  have cmp: "pushes vc m0 (ecode c x @ ecode c y @ [W op])
      (bnd (eval c vc m0 x) (\<lambda>a. bnd (eval c vc m0 y) (\<lambda>b. bnd (cond_choice vc op a b) (data_of m0))))
      (tidy x \<and> tidy y) True" if "pure_expr c (NODE_COND op x y)" "comparison_op op"
    using that NODE_COND by (intro pushes_cmp [OF r comparison_is_cmp]) simp_all
  have main: "pushes vc m0 (ecode c (NODE_COND op x y)) (eval c vc m0 (NODE_COND op x y))
      (tidy (NODE_COND op x y)) True" if pure: "pure_expr c (NODE_COND op x y)"
  proof -
    have T: "tests vc m0 (ccode c x) (cval c vc m0 x) (ctidy x)"
      "tests vc m0 (ccode c y) (cval c vc m0 y) (ctidy y)" using pure NODE_COND by simp_all
    consider "op = tok_ANDAND c" "\<not> comparison_op op"
      | "op \<noteq> tok_ANDAND c" "op = tok_OROR c" "\<not> comparison_op op"
      | "op \<noteq> tok_ANDAND c" "op \<noteq> tok_OROR c" "comparison_op op"
      using pure tok by (auto simp: cond_op_def tokens_ok_def comparison_op_def)
    then show ?thesis
    proof cases
      case 1
      from pushes_and [OF r l T] have
        "pushes vc m0 (ecode c (NODE_COND op x y)) (eval c vc m0 (NODE_COND op x y))
          (ctidy x \<and> ctidy y) True"
        by (simp only: ecode.simps eval.simps 1(1) if_True refl append_assoc)
      then show ?thesis by (rule pushes_mono) (use 1(2) in \<open>simp_all add: ctidy_def\<close>)
    next
      case 2
      from pushes_or [OF r l T] have
        "pushes vc m0 (ecode c (NODE_COND op x y)) (eval c vc m0 (NODE_COND op x y))
          (ctidy x \<and> ctidy y) True"
        by (simp only: ecode.simps eval.simps if_not_P [OF 2(1)] if_P [OF 2(2)] append_assoc)
      then show ?thesis by (rule pushes_mono) (use 2(3) in \<open>simp_all add: ctidy_def\<close>)
    next
      case 3
      from pushes_bool [OF r l tests_pushes [OF cmp [OF pure 3(3)]]] 3 show ?thesis by simp
    qed
  qed
  {
    case 1
    then show ?case using main by simp
  next
    case 2
    show ?case
    proof (cases "comparison_op op")
      case True
      from tests_pushes [OF cmp [OF 2 True]] True
      have "tests vc m0 (ccode c (NODE_COND op x y)) (cval c vc m0 (NODE_COND op x y))
        (tidy x \<and> tidy y)" by simp
      then show ?thesis by (rule tests_mono) (simp add: ctidy_def)
    next
      case False
      from tests_pushes [OF main [OF 2]] False show ?thesis by (simp add: ctidy_def)
    qed
  }
next
  case (NODE_FIELD i)
  { case 1 then show ?case using pushes_field [OF r] by simp }
  { case 2 then show ?case using tests_pushes [OF pushes_field [OF r]] by (simp add: ctidy_def) }
next
  case (NODE_VARIABLE i)
  { case 1 then show ?case using pushes_var [OF r] by simp }
  { case 2 then show ?case using tests_pushes [OF pushes_var [OF r]] by (simp add: ctidy_def) }
next
  case (NODE_CONST i)
  { case 1 then show ?case using pushes_const [OF r] by simp }
  { case 2 then show ?case using tests_pushes [OF pushes_const [OF r]] by (simp add: ctidy_def) }
qed simp_all

section \<open>Running a condition\<close>

text \<open>The result of \<open>ovm_exec\<close> for the value on top of the stack: \<open>0\<close> if the condition holds.\<close>

definition exit_code :: "ovm_data option \<Rightarrow> int" where
  "exit_code d = (case d of Some (VInt i) \<Rightarrow> (if i = 0 then 1 else 0) | _ \<Rightarrow> 1)"

lemma ovm_flush_empty:
  assumes "state_of m0 n h [] m"
  shows "ovm_flush m = Inr m"
proof -
  have "pop m = (None, m)" using assms by (rule vmst_pop_empty)
  then show ?thesis by (subst ovm_flush.simps) simp
qed

lemma step_end: "at code ip = Inr (W OP_END) \<Longrightarrow> ovm_loop (Suc k) c code ip m = Some (Inr (Finished m))"
  by simp

lemma ready_state: "vm_ready vc m \<Longrightarrow> state_of m (fresh m) (heap m) (stack_list (ovm_stack m)) m"
  by (simp add: vmst_def vm_ready_def)

lemma exec_crash:
  assumes "crashes vc code (0, m) f"
  shows "\<exists>N. \<forall>fuel \<ge> N. ovm_exec fuel vc code m = Some (Inl f)"
proof -
  from assms obtain s where s: "ovm_steps vc code (0, m) s" "ovm_crash vc code s f"
    by (auto simp: crashes_def)
  from loop_steps [OF s(1)] obtain n where n: "\<forall>k. ovm_loop (n + k) vc code 0 m =
      ovm_loop k vc code (fst s) (snd s)" by auto
  have "ovm_exec (n + 1) vc code m = Some (Inl f)"
    using n [rule_format, of 1] loop_crash [OF s(2), of 0]
    by (simp add: ovm_exec_def del: ovm_loop.simps)
  then show ?thesis using exec_mono by (metis le_iff_add)
qed

lemma exec_finish:
  assumes s: "ovm_steps vc code (0, m) (ip, m1)" and e: "at code ip = Inr (W OP_END)"
    and m1: "state_of m0 n h [p] m1" and d: "hdata h p = Inr d"
  shows "\<exists>N m'. (\<forall>fuel \<ge> N. ovm_exec fuel vc code m = Some (Inr (exit_code d, m'))) \<and>
    state_of m0 n h [] m'"
proof -
  from loop_steps [OF s] obtain k where k: "\<forall>j. ovm_loop (k + j) vc code 0 m =
      ovm_loop j vc code ip m1" by auto
  from m1 obtain m2 where m2: "pop m1 = (p, m2)" "state_of m0 n h [] m2" by (rule vmst_pop)
  have "ovm_loop (k + 1) vc code 0 m = Some (Inr (Finished m1))"
    using k [rule_format, of 1] step_end [OF e, of 0 vc m1] by (simp del: ovm_loop.simps)
  then have "ovm_exec (k + 1) vc code m = Some (Inr (exit_code d, m2))"
    using m2 ovm_flush_empty [OF m2(2)] vmst_data [OF m2(2)] d
    by (simp add: ovm_exec_def exit_code_def split: option.splits ovm_data.splits)
  then show ?thesis using exec_mono m2(2) by (metis le_iff_add)
qed

lemma transition_run:
  assumes pure: "pure_expr c e" and tok: "tokens_ok c" and l: "linked c vc" and r: "vm_ready vc m"
    and empty: "stack_list (ovm_stack m) = []"
    and ok: "compile_trans_bytecode c e = Inr (code, flds)"
  shows "eval c vc m e = Inl f \<Longrightarrow> \<exists>N. \<forall>fuel \<ge> N. ovm_exec fuel vc code m = Some (Inl f)"
    and "eval c vc m e = Inr d \<Longrightarrow> \<exists>N m' n h p.
      (\<forall>fuel \<ge> N. ovm_exec fuel vc code m = Some (Inr (exit_code d, m'))) \<and>
      state_of m n h [] m' \<and> ext (fresh m) (heap m) n h \<and>
      (held (fresh m) (heap m) p \<or> is_arith e) \<and>
      (tidy e \<longrightarrow> (\<forall>a \<ge> fresh m. h a \<noteq> None \<longrightarrow> p = Some a))"
proof -
  have code: "code = ecode c e @ [W OP_END]" "length code < 2 ^ 63"
    using trans_bytecode_ref [OF pure_is_expr [OF pure] ok] by (auto simp: size_defs)
  have at: "code_at code 0 (ecode c e)" "at code (0 + length (ecode c e)) = Inr (W OP_END)"
    using code(1) by (auto simp: code_at_whole at_def)
  have m: "state_of m (fresh m) (heap m) [] m" using ready_state [OF r] empty by simp
  have o: "outcome vc m code (0, m) (0 + length (ecode c e)) (fresh m) (heap m) []
      (eval c vc m e) (tidy e) (\<not> is_arith e)"
    by (rule pushes_use [OF expr_runs(1) [OF r l tok pure] at(1) code(2) m fresh_ext [OF r]])
  { assume "eval c vc m e = Inl f"
    with o have "crashes vc code (0, m) f" by (simp add: outcome_def)
    then show "\<exists>N. \<forall>fuel \<ge> N. ovm_exec fuel vc code m = Some (Inl f)" by (rule exec_crash) }
  assume "eval c vc m e = Inr d"
  from o [unfolded outcome_def this sum.case] obtain m1 h n p where
    1: "ovm_steps vc code (0, m) (0 + length (ecode c e), m1)" "state_of m n h [p] m1"
      "ext (fresh m) (heap m) n h" "hdata h p = Inr d"
      "held (fresh m) (heap m) p \<or> \<not> \<not> is_arith e \<and> temp (fresh m) h p"
      "tidy e \<longrightarrow> (\<forall>a \<ge> fresh m. h a \<noteq> None \<longrightarrow> p = Some a)" by blast
  from exec_finish [OF 1(1) at(2) 1(2,4)] 1(3,5,6) show "\<exists>N m' n h p.
      (\<forall>fuel \<ge> N. ovm_exec fuel vc code m = Some (Inr (exit_code d, m'))) \<and>
      state_of m n h [] m' \<and> ext (fresh m) (heap m) n h \<and>
      (held (fresh m) (heap m) p \<or> is_arith e) \<and>
      (tidy e \<longrightarrow> (\<forall>a \<ge> fresh m. h a \<noteq> None \<longrightarrow> p = Some a))" by blast
qed

text \<open>
  Claim C1: compiler and virtual machine together implement the conditions of transitions.  For
  every condition that is built from fields, variables, constants, arithmetic, comparisons,
  pattern matches, \<open>&&\<close> and \<open>||\<close>, and that the compiler accepts, the virtual machine started
  with an empty stack runs the generated code to its end in a bounded number of steps.  It crashes
  exactly when the evaluation of the expression does, with the same fault; otherwise it returns
  \<open>0\<close> if and only if the expression evaluates to a non-zero integer, it leaves the stack empty
  and the environments alone, and every variable that existed before is unchanged.
\<close>

theorem transition_test_correct:
  assumes pure: "pure_expr c e" and tok: "tokens_ok c" and l: "linked c vc" and r: "vm_ready vc m"
    and empty: "stack_list (ovm_stack m) = []"
    and ok: "compile_trans_bytecode c e = Inr (code, flds)"
  shows "\<exists>N r. (\<forall>fuel \<ge> N. ovm_exec fuel vc code m = Some r) \<and>
    (case eval c vc m e of
       Inl f \<Rightarrow> r = Inl f
     | Inr d \<Rightarrow> \<exists>m'. r = Inr (exit_code d, m') \<and> stack_list (ovm_stack m') = [] \<and>
         current_env m' = current_env m \<and> inherit_env m' = inherit_env m \<and>
         (\<forall>a < fresh m. heap m' a = heap m a))"
proof (cases "eval c vc m e")
  case (Inl f)
  from transition_run(1) [OF assms Inl] Inl show ?thesis by auto
next
  case (Inr d)
  from transition_run(2) [OF assms Inr] obtain N m' n h where
    N: "\<forall>fuel \<ge> N. ovm_exec fuel vc code m = Some (Inr (exit_code d, m'))"
    and m': "state_of m n h [] m'" "ext (fresh m) (heap m) n h" by blast
  have "stack_list (ovm_stack m') = [] \<and> current_env m' = current_env m \<and>
      inherit_env m' = inherit_env m \<and> (\<forall>a < fresh m. heap m' a = heap m a)"
    using m' by (auto simp: vmst_def ext_def)
  with N show ?thesis unfolding Inr sum.case by blast
qed

text \<open>A machine, an event and a rule for the sample condition
  \<open>.f3 == 7 && $v0 + 1 > .f4\<close>.\<close>

definition sample_vc :: ovm_ctx where
  "sample_vc = \<lparr>static_env = map Some [0 ..< 7], field_vals = [None, None, None, Some 7, Some 8],
     static_1_res_id = 0, static_0_res_id = 1, static_null_res_id = 2, static_param_error_res_id = 3,
     static_regex_error_res_id = 4, vm_func_tbl = [], regexec = (\<lambda>_ _. RegNoMatch)\<rparr>"

definition sample_vars :: "ovm_data list" where
  "sample_vars = [VInt 1, VInt 0, VNull 1, VNull 2, VNull 3, VInt 7, VInt 1, VInt 7, VInt 40, VInt 41]"

definition sample_vm :: ovm where
  "sample_vm = \<lparr>heap = (\<lambda>a. if a < 10 then Some \<lparr>vdata = sample_vars ! a, vflags = 0\<rparr> else None),
     fresh = 10, ovm_stack = new_stack 16 16, current_env = Some [Some 9], inherit_env = None\<rparr>"

lemma sample_ready: "vm_ready sample_vc sample_vm"
  by (auto simp: vm_ready_def sample_vm_def sample_vc_def roots_def held_def stack_ok_new
      is_not_bound_def TYPE_CANFREE_def TYPE_NOTBOUND_def)

lemma sample_eval: "eval sample_ctx sample_vc sample_vm sample_cond = Inr (Some (VInt 1))"
  by (simp add: sample_cond_def sample_ctx_def sample_vc_def sample_vm_def sample_vars_def
      comparison_op_def at_def upt_rec data_of_def deref_def lookup_var_def env_slot_def
      cond_choice_def cmp_choice_def int_cmp_def c_int_of_long_def TRUE_VAR_def FALSE_VAR_def truth_def
      arith_sem_def arith_value_def arith_of_def int_add_def)

theorem transition_test_correct_witness:
  "\<exists>N m'. (\<forall>fuel \<ge> N. ovm_exec fuel sample_vc (ecode sample_ctx sample_cond @ [of_nat 0]) sample_vm =
      Some (Inr (0, m'))) \<and> (\<forall>a < 10. heap m' a = heap sample_vm a)"
proof -
  have h: "pure_expr sample_ctx sample_cond" "tokens_ok sample_ctx" "linked sample_ctx sample_vc"
    by (simp_all add: sample_cond_def sample_ctx_def cond_op_def comparison_op_def tokens_ok_def
        linked_def sample_vc_def)
  have e: "stack_list (ovm_stack sample_vm) = []" by (simp add: sample_vm_def stack_list_new)
  from transition_test_correct [OF h sample_ready e sample_compiles] obtain N r where
    N: "\<forall>fuel \<ge> N. ovm_exec fuel sample_vc (ecode sample_ctx sample_cond @ [of_nat 0]) sample_vm = Some r"
    and c: "case eval sample_ctx sample_vc sample_vm sample_cond of
       Inl f \<Rightarrow> r = Inl f
     | Inr d \<Rightarrow> \<exists>m'. r = Inr (exit_code d, m') \<and> stack_list (ovm_stack m') = [] \<and>
         current_env m' = current_env sample_vm \<and> inherit_env m' = inherit_env sample_vm \<and>
         (\<forall>a < fresh sample_vm. heap m' a = heap sample_vm a)" by (elim exE conjE)
  from c [unfolded sample_eval sum.case] obtain m' where
    "r = Inr (exit_code (Some (VInt 1)), m')" "\<forall>a < fresh sample_vm. heap m' a = heap sample_vm a"
    by (elim exE conjE)
  moreover have "exit_code (Some (VInt 1)) = 0" "fresh sample_vm = 10"
    by (simp_all add: exit_code_def sample_vm_def)
  ultimately show ?thesis using N by (intro exI [of _ N] exI [of _ m']) (simp only: simp_thms)
qed



end
