(* ===== verification/Hash_Funcs_Laws.thy ===== *)
theory Hash_Funcs_Laws
  imports Hash_Funcs "HOL-Library.Multiset"
begin

text \<open>
  What the hash functions have in common and where they differ: the versions with shifts
  instead of multiplications, the functions that are the same or only look the same, keys on
  which a function is not usable.
\<close>

section \<open>Loop bodies\<close>

lemma fnv_shifts_mult: "fnv_shifts = fnv_mult"
  by (rule ext) (simp add: fnv_shifts_def fnv_mult_def push_bit_eq_mult)

lemma top_nibble: "bit (0xF0000000 :: culong) n \<longleftrightarrow> 28 \<le> n \<and> n < 32"
proof -
  have m: "(0xF0000000 :: culong) = push_bit 28 (mask 4)"
    by (simp add: mask_eq_exp_minus_1 push_bit_eq_mult)
  show ?thesis unfolding m by (auto simp: bit_push_bit_iff bit_mask_iff)
qed

lemma clear_is_toggle:
  fixes h m :: culong
  assumes "\<And>n. bit m n \<longleftrightarrow> 28 \<le> n \<and> n < 32"
  shows "(h XOR drop_bit 24 (h AND m)) AND NOT (h AND m) = (h XOR drop_bit 24 (h AND m)) XOR (h AND m)"
  by (rule bit_eqI) (auto simp: bit_simps assms)

lemma elf_step_pjw: "elf_step = pjw_step 24"
  by (intro ext) (simp only: elf_step_def pjw_step_def Let_def clear_is_toggle [OF top_nibble])

lemma over_chars_ascii:
  "list_all (\<lambda>b. b < 128) key \<Longrightarrow> over_chars step h key = over_bytes step h key"
  unfolding over_chars_def over_bytes_def
  by (rule arg_cong [where f = "foldl step h"]) (simp add: list_all_iff scast_ascii)

lemma x65599_sum: "hash_x65599 key = 65599 * sum_list (map uchar key)"
proof -
  have "foldl x65599_step h ks = h + 65599 * sum_list ks" for h ks
    by (induction ks arbitrary: h) (simp_all add: x65599_step_def algebra_simps)
  then show ?thesis by (simp add: hash_x65599_def over_bytes_def)
qed

section \<open>The reversal of an address\<close>

lemma jglbr_rounds:
  "b \<le> 63 \<Longrightarrow> (jglbr_round ^^ b) (a, 0) = (i, j) \<Longrightarrow>
   i = drop_bit b a \<and> (\<forall>n < 64. bit j n \<longleftrightarrow> 1 \<le> n \<and> n \<le> b \<and> bit a (b - n))"
proof (induction b arbitrary: i j)
  case (Suc b)
  obtain i0 j0 where r: "(jglbr_round ^^ b) (a, 0) = (i0, j0)" by fastforce
  from Suc.IH [OF _ r] Suc.prems(1)
  have i0: "i0 = drop_bit b a" and j0: "\<And>n. n < 64 \<Longrightarrow> bit j0 n \<longleftrightarrow> 1 \<le> n \<and> n \<le> b \<and> bit a (b - n)"
    by auto
  from Suc.prems(2) r have "jglbr_round (i0, j0) = (i, j)" by simp
  then have ij: "i = drop_bit 1 i0" "j = push_bit 1 (j0 OR (i0 AND 1))"
    by (auto simp: jglbr_round_def)
  have "bit j n \<longleftrightarrow> 1 \<le> n \<and> n \<le> Suc b \<and> bit a (Suc b - n)" if "n < 64" for n
    using that j0 [of "n - 1"]
    unfolding ij i0 bit_push_bit_iff bit_or_iff bit_and_iff bit_drop_bit_eq bit_1_iff
    by (cases n) (auto simp: Suc_le_eq)
  then show ?case by (simp add: ij i0 drop_bit_drop_bit)
qed auto

lemma jglbr_bit:
  assumes "n < 64"
  shows "bit (hash_jglbr a) n \<longleftrightarrow> n \<noteq> 0 \<and> bit a (63 - n)"
proof -
  obtain i j where r: "(jglbr_round ^^ 63) (a, 0) = (i, j)" by fastforce
  from jglbr_rounds [OF _ r] assms show ?thesis by (auto simp: hash_jglbr_def r)
qed

section \<open>Keys that are not hashed\<close>

lemma hash_ethz_loop_fault:
  "i \<le> length key \<Longrightarrow> 0 < length key \<Longrightarrow> length key < 2 ^ 63 \<Longrightarrow>
   hash_ethz_loop key h i (of_nat (length key + i)) = Inl OutOfBounds"
proof (induction "length key - i" arbitrary: h i)
  case 0
  then have "(of_nat (length key + i) :: culong) \<noteq> 0" by (subst word_of_nat_eq_0_iff) (auto dest!: dvd_imp_le)
  with 0 show ?case by (simp add: hash_ethz_loop.simps [of key h i] at_def)
next
  case (Suc n)
  then have "(of_nat (length key + i) :: culong) \<noteq> 0" by (subst word_of_nat_eq_0_iff) (auto dest!: dvd_imp_le)
  with Suc.hyps(2) Suc.prems Suc.hyps(1) [of "Suc i"] show ?case
    by (simp add: hash_ethz_loop.simps [of key h i] at_def ac_simps)
qed

lemma hash_ethz_fault: "key \<noteq> [] \<Longrightarrow> length key < 2 ^ 63 \<Longrightarrow> hash_ethz key = Inl OutOfBounds"
  using hash_ethz_loop_fault [of 0 key 0] by (simp add: hash_ethz_def)

lemma jglbr_top: "hash_jglbr (a OR 0x8000000000000000) = hash_jglbr a"
proof (rule bit_word_eqI)
  fix n assume "n < LENGTH(64)"
  have m: "(0x8000000000000000 :: culong) = push_bit 63 1" by (simp add: push_bit_eq_mult)
  have "bit (push_bit 63 1 :: culong) k \<longleftrightarrow> k = 63" for k
    by (subst bit_push_bit_iff) (auto simp: bit_1_iff)
  with \<open>n < LENGTH(64)\<close> show "bit (hash_jglbr (a OR 0x8000000000000000)) n \<longleftrightarrow> bit (hash_jglbr a) n"
    unfolding m by (subst (1 2) jglbr_bit) (auto simp: bit_or_iff simp del: push_bit_of_1)
qed

section \<open>Properties\<close>

text \<open>
  The hash functions whose names say that they are optimised, and those that are
  written differently but come from the same source, are the same functions: the shifts of
  the \<open>fnv\<close> family are the multiplication by its prime, for both kinds of keys; clearing the
  top nibble in \<open>elf\<close> is toggling it in \<open>pjw_typo\<close> and in \<open>objhash_pjw\<close>.
\<close>

lemma hash_functions_equal:
  "hash_fnv0_opt = hash_fnv0 \<and> hash_fnv1_opt = hash_fnv1 \<and> hash_fnv1a_opt = hash_fnv1a \<and>
   strhash_fnv0_opt = strhash_fnv0 \<and> strhash_fnv1_opt = strhash_fnv1 \<and>
   strhash_fnv1a_opt = strhash_fnv1a \<and> hash_elf = hash_pjw_typo \<and>
   strhash_elf = strhash_pjw_typo \<and> objhash_pjw = strhash_pjw_typo"
  by (simp add: hash_fnv0_opt_def hash_fnv0_def hash_fnv1_opt_def hash_fnv1_def hash_fnv1a_opt_def
      hash_fnv1a_def strhash_fnv0_opt_def strhash_fnv0_def strhash_fnv1_opt_def strhash_fnv1_def
      strhash_fnv1a_opt_def strhash_fnv1a_def fnv_shifts_mult hash_elf_def hash_pjw_typo_def
      strhash_elf_def strhash_pjw_typo_def objhash_pjw_def elf_step_pjw)

text \<open>
  Where a hash function is not one.  \<open>hash_ethz\<close> counts the length up and reads
  past the end of every key that is not empty; \<open>hash_x65599\<close> is a multiple of the sum of the
  bytes, so it does not see their order, unlike the version that is called optimised; and
  \<open>hash_jglbr\<close> reverses the bits of an address but loses its highest bit.
\<close>

lemma hash_functions_broken:
  assumes "length key < 2 ^ 63"
  shows "(hash_ethz key = Inl OutOfBounds \<longleftrightarrow> key \<noteq> []) \<and>
   hash_x65599 key = 65599 * sum_list (map uchar key) \<and>
   hash_x65599_opt [1, 2] \<noteq> hash_x65599_opt [2, 1] \<and>
   hash_jglbr (address OR 0x8000000000000000) = hash_jglbr address"
proof -
  have "hash_ethz [] = Inr 0" by (simp add: hash_ethz_def hash_ethz_loop.simps)
  moreover have "hash_x65599_opt [1, 2] \<noteq> hash_x65599_opt [2, 1]" by code_simp
  ultimately show ?thesis using assms by (auto simp: hash_ethz_fault x65599_sum jglbr_top)
qed

lemma hash_functions_broken_witness:
  "hash_ethz [7] = Inl OutOfBounds \<and> hash_x65599 [7] = 459193"
  using hash_functions_broken [of "[7]" 0] by simp

text \<open>
  A string and a block with the same bytes have the same hash code, for every
  function that the two files define the same way, as long as all bytes are ASCII: only then
  the signed characters of a string are the unsigned bytes of a block.
\<close>

lemma strhash_is_hash_on_ascii:
  assumes "list_all (\<lambda>b. b < 128) key"
  shows "strhash_djb key = hash_djb key \<and> strhash_pjw key = hash_pjw key \<and>
    strhash_bkdr key = hash_bkdr key \<and> strhash_dk key = hash_dk key \<and>
    strhash_fnv1a key = hash_fnv1a key \<and> strhash_lcg32dk key = hash_lcg32dk key \<and>
    strhash_rot13 key = hash_rot13 key \<and> strhash_oat key = hash_oat key \<and>
    strhash_rz key = hash_rz key \<and> strhash_kazlib key = hash_kazlib key"
  using over_chars_ascii [OF assms]
  by (simp add: strhash_djb_def hash_djb_def strhash_pjw_def hash_pjw_def strhash_bkdr_def
      hash_bkdr_def strhash_dk_def hash_dk_def strhash_fnv1a_def hash_fnv1a_def strhash_lcg32dk_def
      hash_lcg32dk_def strhash_rot13_def hash_rot13_def strhash_oat_def hash_oat_def strhash_rz_def
      hash_rz_def strhash_kazlib_def hash_kazlib_def)

lemma strhash_is_hash_on_ascii_witness:
  "strhash_djb [65, 66] = hash_djb [65, 66] \<and> strhash_djb [200] \<noteq> hash_djb [200]"
proof -
  have "strhash_djb [200] \<noteq> hash_djb [200]" by code_simp
  then show ?thesis using strhash_is_hash_on_ascii [of "[65, 66]"] by simp
qed

end
