(* ===== verification/Crc32_Laws.thy ===== *)
theory Crc32_Laws
  imports Crc32
begin

text \<open>
  The table of \<open>src/util/crc32.c\<close> is the table of the polynomial, the unrolled loop is the
  plain loop, and a checksum can be computed piece by piece.
\<close>

section \<open>The table\<close>

text \<open>The division is linear, so the table is determined by its entries at the powers of two:
  each of them doubles the part of the table that is known.\<close>

fun doubled :: "culong list \<Rightarrow> culong list \<Rightarrow> culong list" where
  "doubled [] ts = ts"
| "doubled (p # ps) ts = doubled ps (ts @ map (\<lambda>t. p XOR t) ts)"

lemma crc_table_doubled:
  "crc_table = doubled [0x77073096, 0xee0e612c, 0x076dc419, 0x0edb8832, 0x1db71064, 0x3b6e20c8,
     0x76dc4190, 0xedb88320] [0]"
  by (simp add: crc_table_def)

fun poly_bits :: "nat \<Rightarrow> cint \<Rightarrow> cint" where
  "poly_bits 0 r = r"
| "poly_bits (Suc n) r = poly_bits n (poly_bit r)"

lemma poly_bits_pow: "(poly_bit ^^ n) r = poly_bits n r"
  by (induction n arbitrary: r) (simp_all add: funpow_Suc_right del: funpow.simps(2))

lemma poly_bit_xor: "poly_bit (r XOR s) = poly_bit r XOR poly_bit s"
  by (simp add: poly_bit_def bit_xor_iff drop_bit_xor xor.assoc xor.left_commute xor.commute)

lemma poly_bits_xor: "poly_bits n (r XOR s) = poly_bits n r XOR poly_bits n s"
  by (induction n arbitrary: r s) (simp_all add: poly_bit_xor)

definition poly_entry :: "cint \<Rightarrow> culong" where
  "poly_entry r = ucast (poly_bits 8 r)"

lemma poly_entry_xor: "poly_entry (r XOR s) = poly_entry r XOR poly_entry s"
  by (simp add: poly_entry_def poly_bits_xor unsigned_xor_eq)

lemma poly_entry_powers:
  "map poly_entry [1, 2, 4, 8, 16, 32, 64, 128] =
     [0x77073096, 0xee0e612c, 0x076dc419, 0x0edb8832, 0x1db71064, 0x3b6e20c8, 0x76dc4190, 0xedb88320]"
  by code_simp

definition poly_table :: "nat \<Rightarrow> culong list" where
  "poly_table n = map (\<lambda>i. poly_entry (of_nat i)) [0..<n]"

lemma xor_power: "i < 2 ^ k \<Longrightarrow> (of_nat i + 2 ^ k :: cint) = 2 ^ k XOR of_nat i"
proof -
  assume i: "i < 2 ^ k"
  have "(2 ^ k AND of_nat i :: cint) = 0"
    by (rule bit_eqI) (use not_bit_above [OF i] in \<open>auto simp: bit_and_iff bit_exp_iff bit_of_nat_iff\<close>)
  then show ?thesis by (metis add.commute disjunctive_add_eq_xor)
qed

lemma poly_table_double:
  "poly_table (2 ^ Suc k) =
    poly_table (2 ^ k) @ map (\<lambda>t. poly_entry (2 ^ k) XOR t) (poly_table (2 ^ k))"
proof -
  have "[0..<2 ^ Suc k] = [0..<2 ^ k] @ map (\<lambda>i. i + 2 ^ k) [0..<2 ^ k]"
    by (simp add: upt_add_eq_append [of 0 "2 ^ k" "2 ^ k", simplified] mult_2 map_add_upt)
  then show ?thesis
    by (simp add: poly_table_def poly_entry_xor xor_power)
qed

lemma doubled_poly_table:
  "doubled (map (\<lambda>k. poly_entry (2 ^ k)) [k..<k + n]) (poly_table (2 ^ k)) = poly_table (2 ^ (k + n))"
proof (induction n arbitrary: k)
  case (Suc n)
  have "[k..<k + Suc n] = k # [Suc k..<Suc k + n]" by (simp add: upt_rec)
  with Suc.IH [of "Suc k"] show ?case
    by (simp add: poly_table_double del: power_Suc upt_Suc)
qed simp

lemma crc_table_poly: "crc_table = poly_table 256"
proof -
  have "crc_table = doubled (map (\<lambda>k. poly_entry (2 ^ k)) [0..<0 + 8]) [0]"
    unfolding crc_table_doubled poly_entry_powers [symmetric] by (simp add: upt_rec)
  moreover have "poly_table (2 ^ 0) = [0]"
    unfolding poly_table_def poly_entry_def by code_simp
  ultimately show ?thesis
    using doubled_poly_table [of 0 8] by simp
qed

section \<open>The loop\<close>

lemma crc_by_eight_rest:
  "crc_by_eight crc bs = (crc', bs') \<Longrightarrow> crc_rest crc' bs' = foldl crc_step crc bs"
proof (induction crc bs rule: crc_by_eight.induct)
  case (1 crc b1 b2 b3 b4 b5 b6 b7 b8 bs)
  then show ?case by (simp add: Let_def)
qed (auto simp: Let_def)

lemma poly_bits_high: "(\<And>i. i < n \<Longrightarrow> \<not> bit r i) \<Longrightarrow> poly_bits n r = drop_bit n r"
proof (induction n arbitrary: r)
  case (Suc n)
  have "poly_bit r = drop_bit 1 r" using Suc.prems [of 0] by (simp add: poly_bit_def)
  moreover have "poly_bits n (drop_bit 1 r) = drop_bit n (drop_bit 1 r)"
    by (rule Suc.IH) (use Suc.prems in \<open>simp add: bit_drop_bit_eq\<close>)
  ultimately show ?case by (simp add: drop_bit_drop_bit ac_simps)
qed simp

lemma crc_table_entry: "i < 256 \<Longrightarrow> crc_table ! i = poly_entry (of_nat i)"
  by (simp add: crc_table_poly poly_table_def)

lemma low_byte_char: "(crc XOR scast b) AND 0xff = (crc XOR ucast b) AND (0xff :: cint)" for b :: byte
proof -
  have ff: "(0xff :: cint) = mask 8" by (simp add: mask_eq_exp_minus_1)
  show ?thesis
    unfolding ff by (rule bit_eqI) (auto simp: bit_simps bit_mask_iff)
qed

lemma crc_step_poly: "crc_step crc b = poly_byte crc b"
proof -
  let ?x = "crc XOR ucast b :: cint"
  have ff: "(0xff :: cint) = mask 8" by (simp add: mask_eq_exp_minus_1)
  have less: "unat (?x AND 0xff) < 256"
    using word_and_le1 [of ?x "0xff"] by (simp add: word_le_nat_alt)
  have split: "?x = (?x AND 0xff) XOR (?x AND NOT 0xff)"
    by (rule bit_eqI) (auto simp: bit_simps)
  have high: "poly_bits 8 (?x AND NOT 0xff) = drop_bit 8 (?x AND NOT 0xff)"
    by (rule poly_bits_high) (simp add: ff bit_simps bit_mask_iff)
  have drop: "drop_bit 8 (?x AND NOT 0xff) = drop_bit 8 crc"
    unfolding ff by (rule bit_eqI) (auto simp: bit_simps bit_mask_iff dest: bit_imp_le_length)
  have "poly_byte crc b = poly_bits 8 (?x AND 0xff) XOR drop_bit 8 crc"
    unfolding poly_byte_def poly_bits_pow by (subst split) (simp only: poly_bits_xor high drop)
  moreover have "crc_step crc b = poly_bits 8 (?x AND 0xff) XOR drop_bit 8 crc"
    unfolding crc_step_def low_byte_char crc_table_entry [OF less] poly_entry_def
    by (simp add: unsigned_xor_eq ucast_up_down)
  ultimately show ?thesis by simp
qed

lemma crc32_fold:
  "crc32 crc (Some bs) = foldl crc_step (crc XOR 0xffffffff) bs XOR 0xffffffff"
  using crc_by_eight_rest by (auto simp: crc32_def split: prod.split)

text \<open>
  Claim C40: the checksum that the unrolled, table-driven loop computes is the remainder of the
  bitwise division by the polynomial \<open>0xEDB88320\<close>, and it can be computed incrementally: the
  checksum of a prefix is the start value for the rest.
\<close>

theorem crc32_correct:
  "crc32 crc (Some bs) = crc_ref crc bs \<and>
   crc32 crc (Some (as @ bs)) = crc32 (crc32 crc (Some as)) (Some bs)"
  by (simp add: crc32_fold crc_ref_def crc_step_poly [abs_def] fun_eq_iff xor.assoc)

end
