(* ===== verification/Rtactions_Laws.thy ===== *)
theory Rtactions_Laws
  imports Rtactions Value_Laws "HOL-Library.Multiset"
begin

text \<open>
  The queue of real-time actions on its links is a sorted list, and the dispatcher runs what
  is due.  The proofs about the links use the interface \<open>sequence\<close> only.
\<close>

section \<open>Dates\<close>

definition date_key :: "timeval \<Rightarrow> int \<times> int" where
  "date_key t = (sint (fst t), sint (snd t))"

definition before :: "timeval \<Rightarrow> timeval \<Rightarrow> bool" where
  "before a b \<longleftrightarrow> fst (date_key a) < fst (date_key b) \<or>
     (fst (date_key a) = fst (date_key b) \<and> snd (date_key a) < snd (date_key b))"

lemma sint_inject: "sint (a :: clong) = sint b \<longleftrightarrow> a = b"
  by (auto intro: signed_word_eqI)

lemma timercmp_less_before: "timercmp_less a b = before a b"
  by (auto simp: timercmp_less_def before_def date_key_def sint_inject)

lemma timercmp_le_before: "timercmp_le a b \<longleftrightarrow> \<not> before b a"
  by (auto simp: timercmp_le_def before_def date_key_def sint_inject)

lemma before_irrefl [simp]: "\<not> before a a"
  by (simp add: before_def)

lemma not_before_trans: "\<not> before b a \<Longrightarrow> \<not> before c b \<Longrightarrow> \<not> before c a"
  by (auto simp: before_def)

lemma before_asym: "before a b \<Longrightarrow> \<not> before b a"
  by (auto simp: before_def)

lemma before_le_trans: "before a b \<Longrightarrow> \<not> before c b \<Longrightarrow> before a c"
  by (auto simp: before_def)

section \<open>The queue as a list\<close>

text \<open>What \<open>register_rtaction\<close> does to the list of the actions; \<open>d\<close> gives their dates.\<close>

fun insert_action :: "(nat \<Rightarrow> timeval) \<Rightarrow> nat \<Rightarrow> nat list \<Rightarrow> nat list" where
  "insert_action d e [] = [e]"
| "insert_action d e [a] = (if before (d a) (d e) then [a, e] else [e, a])"
| "insert_action d e (a # b # xs) =
     (if before (d e) (d a) then e # a # b # xs else a # insert_action d e (b # xs))"

abbreviation in_order :: "(nat \<Rightarrow> timeval) \<Rightarrow> nat list \<Rightarrow> bool" where
  "in_order d \<equiv> sorted_wrt (\<lambda>a b. \<not> before (d b) (d a))"

lemma mset_insert_action: "mset (insert_action d e xs) = add_mset e (mset xs)"
  by (induction d e xs rule: insert_action.induct) auto

lemma set_insert_action: "set (insert_action d e xs) = insert e (set xs)"
  using arg_cong [OF mset_insert_action, of set_mset d e xs] by simp

lemma in_order_insert: "in_order d xs \<Longrightarrow> in_order d (insert_action d e xs)"
proof (induction d e xs rule: insert_action.induct)
  case (3 d e a b xs)
  show ?case
  proof (cases "before (d e) (d a)")
    case True
    with 3 show ?thesis by (auto dest: before_asym before_le_trans)
  next
    case False
    with 3 show ?thesis by (auto simp: set_insert_action)
  qed
qed (auto dest: before_asym)

lemma insert_action_split:
  "\<forall>q \<in> set qs. \<not> before (d e) (d q) \<Longrightarrow> before (d e) (d b) \<or> rs = [] \<Longrightarrow>
   insert_action d e (qs @ b # rs) =
     (if rs = [] \<and> before (d b) (d e) then qs @ [b, e] else qs @ e # b # rs)"
proof (induction qs)
  case Nil
  then show ?case by (cases rs) (auto dest: before_asym)
next
  case (Cons q qs)
  then show ?case by (cases qs) auto
qed

definition dates :: "'w evt_ctx \<Rightarrow> nat \<Rightarrow> timeval" where
  "dates ctx a = date (action ctx a)"

definition queue_ok :: "'w evt_ctx \<Rightarrow> nat list \<Rightarrow> bool" where
  "queue_ok ctx xs \<longleftrightarrow> represents (rtactionlist ctx) xs \<and> in_order (dates ctx) xs"

lemma find_place_result:
  "represents d (ps @ a # ys) \<Longrightarrow>
   \<exists>qs b rs. a # ys = qs @ b # rs \<and> find_place later d (Some a) = Some (Some b) \<and>
     (later b \<or> rs = []) \<and> (\<forall>q \<in> set qs. \<not> later q)"
proof (induction ys arbitrary: ps a)
  case Nil
  with dl.succ_rep [OF Nil] show ?case
    by (intro exI [of _ "[]"] exI [of _ a]) (subst find_place.simps, simp add: first_of_def)
next
  case (Cons y ys)
  have succ: "DLIST_NEXT d a = Some y" using dl.succ_rep [OF Cons.prems] by (simp add: first_of_def)
  show ?case
  proof (cases "later a")
    case True
    then show ?thesis
      by (intro exI [of _ "[]"] exI [of _ a] exI [of _ "y # ys"]) (subst find_place.simps, simp)
  next
    case False
    from Cons.prems have "represents d ((ps @ [a]) @ y # ys)" by simp
    from Cons.IH [OF this] obtain qs b rs where
      r: "y # ys = qs @ b # rs" "find_place later d (Some y) = Some (Some b)" "later b \<or> rs = []"
        "\<forall>q \<in> set qs. \<not> later q" by blast
    have "find_place later d (Some a) = Some (Some b)"
      using False succ r(2) by (subst find_place.simps) simp
    with r False show ?thesis by (intro exI [of _ "a # qs"] exI [of _ b] exI [of _ rs]) auto
  qed
qed

lemma register_result:
  assumes "represents (rtactionlist ctx) xs" and "e \<notin> set xs"
  shows "\<exists>d. register_rtaction e ctx = Some (Inr (ctx\<lparr>rtactionlist := d\<rparr>)) \<and>
    represents d (insert_action (dates ctx) e xs)"
proof (cases xs)
  case Nil
  with assms represents_empty [OF assms(1)] dl.rep_first [OF assms] show ?thesis
    by (intro exI [of _ "DLIST_INSERT_HEAD e (rtactionlist ctx)"])
      (simp add: register_rtaction_def Let_def)
next
  case (Cons a ys)
  let ?d = "rtactionlist ctx"
  from assms(1) have "represents ?d ([] @ a # ys)" by (simp add: Cons)
  from find_place_result [OF this, of "later_than ctx e"] obtain qs b rs where
    r: "a # ys = qs @ b # rs" "find_place (later_than ctx e) ?d (Some a) = Some (Some b)"
      "later_than ctx e b \<or> rs = []" "\<forall>q \<in> set qs. \<not> later_than ctx e q" by blast
  have rep: "represents ?d (qs @ b # rs)" and new: "e \<notin> set (qs @ b # rs)"
    using assms r(1) Cons by auto
  have succ: "DLIST_NEXT ?d b = None \<longleftrightarrow> rs = []"
    using dl.succ_rep [OF rep] by (cases rs) (auto simp: first_of_def)
  have "DLIST_FIRST ?d = Some a" "\<not> DLIST_IS_EMPTY ?d"
    using dl.first_rep [OF assms(1)] represents_empty [OF assms(1)] by (auto simp: Cons first_of_def)
  then have reg: "register_rtaction e ctx = Some (Inr
      (if rs = [] \<and> later_than ctx b e then ctx\<lparr>rtactionlist := DLIST_INSERT_AFTER b e ?d\<rparr>
       else ctx\<lparr>rtactionlist := DLIST_INSERT_BEFORE b e ?d\<rparr>))"
    by (simp add: register_rtaction_def Let_def r(2) succ)
  have "insert_action (dates ctx) e xs =
      (if rs = [] \<and> later_than ctx b e then qs @ [b, e] else qs @ e # b # rs)"
    using r(3,4) insert_action_split [of qs "dates ctx" e b rs]
    by (simp add: Cons r(1) later_than_def dates_def timercmp_less_before)
  then show ?thesis
    using reg dl.rep_after [OF rep new] dl.rep_before [OF rep new] by auto
qed

lemma dates_list_update [simp]: "dates (ctx\<lparr>rtactionlist := d\<rparr>) = dates ctx"
  by (simp add: dates_def fun_eq_iff)

lemma register_queue_ok:
  assumes "queue_ok ctx xs" and "e \<notin> set xs"
  shows "\<exists>ctx'. register_rtaction e ctx = Some (Inr ctx') \<and>
    queue_ok ctx' (insert_action (dates ctx) e xs) \<and> dates ctx' = dates ctx"
  using register_result [of ctx xs e] assms in_order_insert by (auto simp: queue_ok_def)

lemma get_next_queue_ok:
  assumes "queue_ok ctx (a # xs)"
  shows "\<exists>d. get_next_rtaction ctx = (Some a, ctx\<lparr>rtactionlist := d\<rparr>) \<and>
    queue_ok (ctx\<lparr>rtactionlist := d\<rparr>) xs"
  using assms dl.remove_first [of "rtactionlist ctx" a xs] dl.first_rep [of "rtactionlist ctx" "a # xs"]
  by (auto simp: queue_ok_def get_next_rtaction_def first_of_def Let_def)

lemma get_next_empty:
  assumes "queue_ok ctx []"
  shows "get_next_rtaction ctx = (None, ctx)"
  using assms dl.first_rep [of "rtactionlist ctx" "[]"]
  by (auto simp: queue_ok_def get_next_rtaction_def first_of_def Let_def)

section \<open>The dispatcher\<close>

text \<open>The action that was taken out, and the queue: different actions that the allocator has given out.\<close>

definition known :: "'w evt_ctx \<Rightarrow> nat list \<Rightarrow> bool" where
  "known ctx xs \<longleftrightarrow> (\<forall>x \<in> set xs. x < next_action ctx)"

definition held :: "timeval \<Rightarrow> 'w evt_ctx \<Rightarrow> nat \<Rightarrow> nat list \<Rightarrow> bool" where
  "held now ctx e xs \<longleftrightarrow> queue_ok ctx xs \<and> e \<notin> set xs \<and> known ctx (e # xs) \<and> cur_loop_time ctx = now"

text \<open>How late an action is, in seconds and at least one; and all actions of a queue together.\<close>

definition late :: "timeval \<Rightarrow> timeval \<Rightarrow> nat" where
  "late now t = (if due_at now t then nat (sint (fst now) - sint (fst t)) + 1 else 0)"

definition lateness :: "timeval \<Rightarrow> 'w evt_ctx \<Rightarrow> nat list \<Rightarrow> nat" where
  "lateness now ctx xs = sum_list (map (late now \<circ> dates ctx) xs)"

text \<open>A callback may register new actions, and its own again.  All together must be less late than before it ran.\<close>

definition postponed :: "timeval \<Rightarrow> 'w evt_ctx \<Rightarrow> nat \<Rightarrow> nat list \<Rightarrow> 'w evt_ctx \<Rightarrow> bool" where
  "postponed now ctx e xs ctx' \<longleftrightarrow> (\<exists>ys. queue_ok ctx' ys \<and> known ctx' ys \<and> cur_loop_time ctx' = now \<and>
     lateness now ctx' ys < lateness now ctx xs + late now (dates ctx e))"

definition postpones :: "'w callbacks \<Rightarrow> timeval \<Rightarrow> bool" where
  "postpones cbs now \<longleftrightarrow> (\<forall>f e ctx xs. held now ctx e xs \<and> due_at now (dates ctx e) \<and> cb (action ctx e) = Some f \<longrightarrow>
     postponed now ctx e xs (cbs f e ctx))"

lemma late_due: "0 < late now t \<longleftrightarrow> due_at now t"
  by (simp add: late_def)

lemma due_at_le: "due_at now t \<Longrightarrow> \<not> before t u \<Longrightarrow> due_at now u"
  unfolding due_at_def timercmp_le_before using not_before_trans by blast

lemma call_cb_postpones:
  assumes "postpones cbs now" and "held now ctx e xs" and "due_at now (dates ctx e)"
  shows "postponed now ctx e xs (call_cb cbs e ctx)"
proof (cases "cb (action ctx e)")
  case None
  with assms(2) late_due [of now "dates ctx e"] assms(3) show ?thesis unfolding postponed_def
    by (intro exI [of _ xs]) (auto simp: call_cb_def held_def known_def)
next
  case (Some f)
  from assms(1) [unfolded postpones_def, rule_format, of ctx e xs f] assms(2,3) Some
  show ?thesis by (simp add: call_cb_def)
qed

lemma none_due: "queue_ok ctx (b # xs) \<Longrightarrow> \<not> due_at now (dates ctx b) \<Longrightarrow> x \<in> set xs \<Longrightarrow> \<not> due_at now (dates ctx x)"
  using due_at_le [of now "dates ctx x" "dates ctx b"] by (auto simp: queue_ok_def)

lemma queue_distinct: "queue_ok ctx xs \<Longrightarrow> distinct xs"
  by (simp add: queue_ok_def represents_def)

lemma consume_past_result:
  assumes "postpones cbs now" and "held now ctx a xs" and "due_at now (dates ctx a)"
  shows "\<exists>e ctx' ys. consume_past cbs (due_at now) (Some a) ctx = Some (e, ctx') \<and> queue_ok ctx' ys \<and>
    (\<forall>b \<in> set ys \<union> set_option e. \<not> due_at now (dates ctx' b))"
  using assms(2,3)
proof (induction "late now (dates ctx a) + lateness now ctx xs" arbitrary: ctx xs a rule: less_induct)
  case less
  let ?c = "call_cb cbs a ctx"
  from call_cb_postpones [OF assms(1) less.prems] obtain ys where ys: "queue_ok ?c ys" "known ?c ys" "cur_loop_time ?c = now"
    "lateness now ?c ys < lateness now ctx xs + late now (dates ctx a)" unfolding postponed_def by blast
  have step: "consume_past cbs (due_at now) (Some a) ctx =
      (case get_next_rtaction ?c of (e', ctx') \<Rightarrow> consume_past cbs (due_at now) e' ctx')"
    using less.prems(2) by (subst consume_past.simps) (simp add: dates_def)
  show ?case
  proof (cases ys)
    case Nil
    with ys(1) have "get_next_rtaction ?c = (None, ?c)" by (simp add: get_next_empty)
    then have "consume_past cbs (due_at now) (Some a) ctx = Some (None, ?c)" unfolding step
      by (simp) (subst consume_past.simps, simp)
    with ys(1) Nil show ?thesis by (intro exI [of _ None] exI [of _ ?c] exI [of _ "[]"]) simp
  next
    case (Cons b zs)
    with get_next_queue_ok ys(1) obtain d where
      d: "get_next_rtaction ?c = (Some b, ?c\<lparr>rtactionlist := d\<rparr>)" "queue_ok (?c\<lparr>rtactionlist := d\<rparr>) zs" by blast
    let ?d = "?c\<lparr>rtactionlist := d\<rparr>"
    have held: "held now ?d b zs"
      using d(2) ys(2,3) queue_distinct [OF ys(1)] by (simp add: held_def known_def Cons)
    show ?thesis
    proof (cases "due_at now (dates ?d b)")
      case True
      have "late now (dates ?d b) + lateness now ?d zs = lateness now ?c ys" by (simp add: Cons lateness_def)
      with ys(4) have "late now (dates ?d b) + lateness now ?d zs < late now (dates ctx a) + lateness now ctx xs" by simp
      from less.hyps [OF this held True] step d(1) show ?thesis by simp
    next
      case False
      then have "consume_past cbs (due_at now) (Some b) ?d = Some (Some b, ?d)"
        by (subst consume_past.simps) (simp add: dates_def)
      moreover have "\<not> due_at now (dates ?d x)" if "x \<in> set zs" for x
        using none_due [of ?c b zs now x] ys(1) False that by (simp add: Cons)
      ultimately show ?thesis using step d False
        by (intro exI [of _ "Some b"] exI [of _ ?d] exI [of _ zs]) auto
    qed
  qed
qed

text \<open>The two kinds of callbacks that the code has: one that registers a new action, and one that puts off its own
  action.\<close>

definition added :: "'w evt_ctx \<Rightarrow> nat option \<Rightarrow> clong \<Rightarrow> dlist \<Rightarrow> 'w evt_ctx" where
  "added ctx f delay d = ctx\<lparr>next_action := next_action ctx + 1,
      action := (action ctx)(next_action ctx := \<lparr>date = (fst (cur_loop_time ctx) + delay, snd (cur_loop_time ctx)), cb = f\<rparr>),
      rtactionlist := d\<rparr>"

lemma register_rtcallback_ok:
  assumes "queue_ok ctx xs" and "known ctx xs"
  shows "\<exists>d ys. register_rtcallback f delay ctx = Some (Inr (next_action ctx, added ctx f delay d)) \<and>
    queue_ok (added ctx f delay d) ys \<and> mset ys = add_mset (next_action ctx) (mset xs)"
proof -
  let ?e = "next_action ctx"
  let ?ctx = "ctx\<lparr>next_action := ?e + 1,
      action := (action ctx)(?e := \<lparr>date = (fst (cur_loop_time ctx) + delay, snd (cur_loop_time ctx)), cb = f\<rparr>)\<rparr>"
  have new: "?e \<notin> set xs" using assms(2) by (auto simp: known_def)
  have "dates ?ctx x = dates ctx x" if "x \<in> set xs" for x using that new by (auto simp: dates_def)
  then have q: "queue_ok ?ctx xs" using assms(1) by (auto simp: queue_ok_def sorted_wrt_iff_nth_less)
  from register_result [of ?ctx xs ?e] q new obtain d where d: "register_rtaction ?e ?ctx = Some (Inr (?ctx\<lparr>rtactionlist := d\<rparr>))"
    "represents d (insert_action (dates ?ctx) ?e xs)" by (auto simp: queue_ok_def)
  have "queue_ok (?ctx\<lparr>rtactionlist := d\<rparr>) (insert_action (dates ?ctx) ?e xs)"
    using d(2) q in_order_insert [of "dates ?ctx" xs ?e] by (simp add: queue_ok_def dates_def)
  with d(1) show ?thesis
    by (intro exI [of _ d] exI [of _ "insert_action (dates ?ctx) ?e xs"] conjI)
      (simp_all add: added_def register_rtcallback_def Let_def mset_insert_action)
qed

lemma lateness_mset: "mset ys = add_mset e (mset xs) \<Longrightarrow>
   lateness now ctx ys = late now (dates ctx e) + lateness now ctx xs"
  unfolding lateness_def sum_mset_sum_list [symmetric] mset_map by simp

lemma lateness_cong: "\<forall>x \<in> set xs. dates ctx' x = dates ctx x \<Longrightarrow> lateness now ctx' xs = lateness now ctx xs"
  by (auto simp: lateness_def intro!: arg_cong [where f = sum_list])

lemma lateness_list: "lateness now (ctx\<lparr>rtactionlist := d\<rparr>) = lateness now ctx"
  by (simp add: lateness_def fun_eq_iff)

lemma later_date:
  assumes "due_at now t" and "0 < sint delay" and "sint (fst now) + sint delay < 2 ^ 63"
  shows "late now (fst t + delay, snd t) < late now t"
proof -
  have le: "sint (fst t) \<le> sint (fst now)" using assms(1) by (simp add: due_at_def timercmp_le_def split: if_splits)
  have "- (2 ^ 63) \<le> sint (fst t)" using sint_ge [of "fst t"] by simp
  with le assms(2,3) have "sint (fst t + delay) = sint (fst t) + sint delay"
    by (intro sint_add_small) simp
  with le assms(1,2) show ?thesis by (simp add: late_def) (auto simp: due_at_def timercmp_le_def split: if_splits)
qed

lemma put_back_postpones:
  assumes "held now ctx e xs" and "due_at now (dates ctx e)" and "0 < sint delay"
    and "sint (fst now) + sint delay < 2 ^ 63"
  shows "\<exists>ctx'. put_back e delay ctx = Some (Inr ctx') \<and> postponed now ctx e xs ctx'"
proof -
  let ?ctx = "ctx\<lparr>action := (action ctx)(e := (action ctx e)\<lparr>date := (fst (dates ctx e) + delay, snd (dates ctx e))\<rparr>)\<rparr>"
  have new: "e \<notin> set xs" using assms(1) by (simp add: held_def)
  have same: "\<forall>x \<in> set xs. dates ?ctx x = dates ctx x" using new by (auto simp: dates_def)
  then have q: "queue_ok ?ctx xs"
    using assms(1) by (auto simp: held_def queue_ok_def sorted_wrt_iff_nth_less)
  from register_result [of ?ctx xs e] q new obtain d where d: "register_rtaction e ?ctx = Some (Inr (?ctx\<lparr>rtactionlist := d\<rparr>))"
    "represents d (insert_action (dates ?ctx) e xs)" by (auto simp: queue_ok_def)
  let ?ys = "insert_action (dates ?ctx) e xs"
  have "queue_ok (?ctx\<lparr>rtactionlist := d\<rparr>) ?ys"
    using d(2) q in_order_insert [of "dates ?ctx" xs e] by (simp add: queue_ok_def dates_def)
  moreover have "known (?ctx\<lparr>rtactionlist := d\<rparr>) ?ys" "cur_loop_time (?ctx\<lparr>rtactionlist := d\<rparr>) = now"
    using assms(1) by (auto simp: held_def known_def set_insert_action)
  moreover have "lateness now (?ctx\<lparr>rtactionlist := d\<rparr>) ?ys < lateness now ctx xs + late now (dates ctx e)"
    using later_date [OF assms(2-4)] lateness_cong [OF same, of now] lateness_mset [OF mset_insert_action, of now ?ctx "dates ?ctx" e xs]
      lateness_list [of now d ?ctx] by (simp add: dates_def)
  ultimately have "postponed now ctx e xs (?ctx\<lparr>rtactionlist := d\<rparr>)" unfolding postponed_def by blast
  with d(1) show ?thesis by (simp add: put_back_def dates_def Let_def)
qed

lemma register_rtcallback_postpones:
  assumes "held now ctx e xs" and "due_at now (dates ctx e)" and "0 < sint delay"
    and "sint (fst now) + sint delay < 2 ^ 63"
  shows "\<exists>b ctx'. register_rtcallback f delay ctx = Some (Inr (b, ctx')) \<and> postponed now ctx e xs ctx'"
proof -
  have t: "cur_loop_time ctx = now" and "queue_ok ctx xs" "known ctx xs" using assms(1) by (auto simp: held_def known_def)
  from register_rtcallback_ok [OF this(2,3), of f delay] obtain d ys where
    r: "register_rtcallback f delay ctx = Some (Inr (next_action ctx, added ctx f delay d))"
       "queue_ok (added ctx f delay d) ys" "mset ys = add_mset (next_action ctx) (mset xs)" by blast
  let ?c = "added ctx f delay d"
  have new: "next_action ctx \<notin> set xs" using \<open>known ctx xs\<close> by (auto simp: known_def)
  have "set ys = insert (next_action ctx) (set xs)" using arg_cong [OF r(3), of set_mset] by simp
  then have "known ?c ys" using \<open>known ctx xs\<close> by (auto simp: known_def added_def)
  moreover have "cur_loop_time ?c = now" by (simp add: added_def t)
  moreover have "\<forall>x \<in> set xs. dates ?c x = dates ctx x" using new by (auto simp: dates_def added_def)
  then have "lateness now ?c ys = late now (dates ?c (next_action ctx)) + lateness now ctx xs"
    by (simp add: lateness_mset [OF r(3)] lateness_cong)
  moreover have "- (2 ^ 63) \<le> sint (fst now)" using sint_ge [of "fst now"] by simp
  then have "sint (fst now + delay) = sint (fst now) + sint delay"
    using assms(3,4) by (intro sint_add_small) simp
  then have "late now (dates ?c (next_action ctx)) = 0"
    using assms(3) by (simp add: late_def dates_def added_def t due_at_def timercmp_le_def) auto
  moreover have "0 < late now (dates ctx e)" using assms(2) by (simp add: late_due)
  ultimately have "postponed now ctx e xs ?c" using r(2) unfolding postponed_def by (intro exI [of _ ys]) simp
  with r(1) show ?thesis by blast
qed

text \<open>An input callback that only registers new actions, and stays connected.\<close>

definition grown :: "'w evt_ctx \<Rightarrow> nat list \<Rightarrow> 'w evt_ctx \<Rightarrow> nat list \<Rightarrow> bool" where
  "grown ctx xs ctx' ys \<longleftrightarrow> queue_ok ctx' ys \<and> known ctx' ys \<and> set xs \<subseteq> set ys \<and> fds ctx' = fds ctx \<and>
     next_action ctx \<le> next_action ctx' \<and> (\<forall>x < next_action ctx. action ctx' x = action ctx x)"

definition inputs_register :: "(nat \<Rightarrow> int \<Rightarrow> 'w evt_ctx \<Rightarrow> int \<times> 'w evt_ctx) \<Rightarrow> bool" where
  "inputs_register inp \<longleftrightarrow> (\<forall>m fd ctx xs. queue_ok ctx xs \<and> known ctx xs \<longrightarrow>
     fst (inp m fd ctx) \<le> 0 \<and> (\<exists>ys. grown ctx xs (snd (inp m fd ctx)) ys))"

text \<open>\<open>select\<close> finds at least one of the descriptors that are waited for ready.\<close>

definition has_data :: "sys \<Rightarrow> int set \<Rightarrow> bool" where
  "has_data s r \<longleftrightarrow> (\<forall>t. case sys_select s r t of (n, ready) \<Rightarrow> 0 < n \<and> n = int (card ready) \<and> ready \<subseteq> r)"

lemma grown_refl: "queue_ok ctx xs \<Longrightarrow> known ctx xs \<Longrightarrow> grown ctx xs ctx xs"
  by (simp add: grown_def)

lemma grown_trans: "grown ctx xs ctx' ys \<Longrightarrow> grown ctx' ys ctx'' zs \<Longrightarrow> grown ctx xs ctx'' zs"
  by (auto simp: grown_def)

lemma grownD: "grown ctx xs ctx' ys \<Longrightarrow> queue_ok ctx' ys \<and> known ctx' ys"
  by (simp add: grown_def)

lemma serve_inputs_grown:
  assumes "inputs_register inp" and "queue_ok ctx xs" and "known ctx xs"
  shows "\<exists>ys. grown ctx xs (serve_inputs inp ready rtis n ctx) ys"
  using assms(2,3)
proof (induction rtis arbitrary: ctx xs n)
  case Nil
  then show ?case using grown_refl by auto
next
  case (Cons r rtis)
  obtain m fd where r: "r = (m, fd)" by (cases r)
  obtain k c where kc: "inp m fd ctx = (k, c)" by (cases "inp m fd ctx")
  from assms(1) Cons.prems obtain ys where ys: "k \<le> 0" "grown ctx xs c ys"
    unfolding inputs_register_def by (metis kc fst_conv snd_conv)
  from Cons.IH [of c ys "n - 1"] grownD [OF ys(2)] obtain zs where
    "grown c ys (serve_inputs inp ready rtis (n - 1) c) zs" by blast
  with grown_trans [OF ys(2)] have "\<exists>ys. grown ctx xs (serve_inputs inp ready rtis (n - 1) c) ys" by blast
  with Cons.IH [OF Cons.prems] grown_refl [OF Cons.prems] ys(1) show ?case by (auto simp: r kc)
qed

lemma not_due_consume:
  "\<not> due_at now (dates ctx a) \<Longrightarrow> consume_past cbs (due_at now) (Some a) ctx = Some (Some a, ctx)"
  by (subst consume_past.simps) (simp add: dates_def)

lemma turn_with_data:
  assumes "inputs_register inp" and "queue_ok ctx xs" and "known ctx (a # xs)"
    and "\<not> due_at (sys_time s) (dates ctx a)" and "has_data s (fds ctx)"
  shows "\<exists>ctx' ys. (\<forall>cbs. dispatch_turn cbs inp s (Some a) ctx = Some (Inr (Some a, ctx'))) \<and> grown ctx xs ctx' ys"
proof -
  let ?c = "ctx\<lparr>cur_loop_time := sys_time s\<rparr>"
  obtain n ready where sel: "sys_select s (fds ctx) (Some (Timer_Sub (dates ctx a) (sys_time s))) = (n, ready)"
    by (cases "sys_select s (fds ctx) (Some (Timer_Sub (dates ctx a) (sys_time s)))")
  with assms(5) [unfolded has_data_def, rule_format, of "Some (Timer_Sub (dates ctx a) (sys_time s))"]
  have n: "n \<noteq> 0" by simp
  have c: "queue_ok ?c xs" "known ?c xs" "dates ?c a = dates ctx a"
    using assms(2,3) by (simp_all add: queue_ok_def known_def dates_def [abs_def])
  from serve_inputs_grown [OF assms(1) c(1,2)] obtain ys where
    "grown ?c xs (serve_inputs inp ready (realtime_handler_list ctx) n ?c) ys" by blast
  then have "grown ctx xs (serve_inputs inp ready (realtime_handler_list ctx) n ?c) ys" by (simp add: grown_def)
  moreover have "dispatch_turn cbs inp s (Some a) ctx = Some (Inr (Some a, serve_inputs inp ready (realtime_handler_list ctx) n ?c))" for cbs
    using not_due_consume [of "sys_time s" ?c a cbs] assms(4) sel n
    by (simp add: dispatch_turn_def wait_time_def c(3)) (simp add: dates_def)
  ultimately show ?thesis by blast
qed

lemma turns_with_data:
  assumes "inputs_register inp" and "queue_ok ctx xs" and "known ctx (a # xs)"
    and "\<forall>s \<in> set ss. \<not> due_at (sys_time s) (dates ctx a) \<and> has_data s (fds ctx)"
  shows "\<exists>ctx' ys. (\<forall>cbs. dispatch_turns cbs inp ss (Some a) ctx = Some (Inr (Some a, ctx'))) \<and> grown ctx xs ctx' ys"
  using assms(2-)
proof (induction ss arbitrary: ctx xs)
  case Nil
  then show ?case using grown_refl [of ctx xs] by (auto simp: known_def)
next
  case (Cons s ss)
  from turn_with_data [OF assms(1) Cons.prems(1,2), of s] Cons.prems(3) obtain c ys where
    c: "\<forall>cbs. dispatch_turn cbs inp s (Some a) ctx = Some (Inr (Some a, c))" "grown ctx xs c ys" by auto
  have "queue_ok c ys" "known c (a # ys)" "fds c = fds ctx" "dates c a = dates ctx a"
    using c(2) Cons.prems(2) by (auto simp: grown_def known_def dates_def)
  with Cons.IH [of c ys] Cons.prems(3) obtain c' zs where
    "\<forall>cbs. dispatch_turns cbs inp ss (Some a) c = Some (Inr (Some a, c'))" "grown c ys c' zs" by auto
  with c grown_trans show ?case by (intro exI [of _ c'] exI [of _ zs]) fastforce
qed

section \<open>Properties\<close>

text \<open>
  Claim C23: the queue of real-time actions is a priority queue.  On a sorted queue that does
  not hold the action, \<open>register_rtaction\<close> returns without a fault with a queue that is sorted
  by date again and holds the action in addition, and \<open>get_next_rtaction\<close> takes an action out
  that no action of the queue precedes.
\<close>

theorem rtactions_sorted:
  assumes "queue_ok ctx xs" and "e \<notin> set xs"
  shows "\<exists>ctx' ys a ctx'' zs. register_rtaction e ctx = Some (Inr ctx') \<and> queue_ok ctx' ys \<and>
    mset ys = add_mset e (mset xs) \<and> get_next_rtaction ctx' = (Some a, ctx'') \<and>
    queue_ok ctx'' zs \<and> ys = a # zs \<and> (\<forall>b \<in> set zs. \<not> before (dates ctx' b) (dates ctx' a))"
proof -
  from register_queue_ok [OF assms] obtain ctx' where
    r: "register_rtaction e ctx = Some (Inr ctx')" "queue_ok ctx' (insert_action (dates ctx) e xs)" by blast
  moreover have "insert_action (dates ctx) e xs \<noteq> []"
    using arg_cong [OF mset_insert_action, of size "dates ctx" e xs] by auto
  then obtain a zs where az: "insert_action (dates ctx) e xs = a # zs" by (cases "insert_action (dates ctx) e xs") auto
  from r(2) get_next_queue_ok [of ctx' a zs] obtain d where
    "get_next_rtaction ctx' = (Some a, ctx'\<lparr>rtactionlist := d\<rparr>)" "queue_ok (ctx'\<lparr>rtactionlist := d\<rparr>) zs"
    by (auto simp: az)
  moreover have "\<forall>b \<in> set zs. \<not> before (dates ctx' b) (dates ctx' a)"
    using r(2) by (simp add: az queue_ok_def)
  moreover have "mset (a # zs) = add_mset e (mset xs)" using mset_insert_action az by metis
  ultimately show ?thesis using az by metis
qed

definition quiet_ctx :: "rtaction \<Rightarrow> rtaction \<Rightarrow> unit evt_ctx" where
  "quiet_ctx a b = \<lparr>rtactionlist = DLIST_INSERT_HEAD 0 empty_dlist,
     action = (\<lambda>n. if n = 0 then a else b), next_action = 2, cur_loop_time = (0, 0), fds = {},
     realtime_handler_list = [], world = ()\<rparr>"

lemma quiet_queue: "queue_ok (quiet_ctx a b) [0]"
  by (simp add: queue_ok_def quiet_ctx_def represents_insert_head represents_empty_dlist)

theorem rtactions_sorted_witness:
  "\<exists>ctx'. register_rtaction 1 (quiet_ctx \<lparr>date = (5, 0), cb = None\<rparr> \<lparr>date = (3, 0), cb = None\<rparr>) =
     Some (Inr ctx') \<and> (\<exists>ys. queue_ok ctx' ys \<and> mset ys = {#0, 1#})"
proof -
  let ?c = "quiet_ctx \<lparr>date = (5, 0), cb = None\<rparr> \<lparr>date = (3, 0), cb = None\<rparr>"
  have "1 \<notin> set [0 :: nat]" by simp
  from rtactions_sorted [OF quiet_queue [of "\<lparr>date = (5, 0), cb = None\<rparr>" "\<lparr>date = (3, 0), cb = None\<rparr>"] this]
  obtain ctx' ys where "register_rtaction 1 ?c = Some (Inr ctx')" "queue_ok ctx' ys"
    "mset ys = add_mset 1 (mset [0])" by (elim exE conjE)
  then show ?thesis by (auto simp: add_mset_commute)
qed

text \<open>
  Actions with the same date are not run in the order of their registration.  An
  action goes behind all actions that are not later, except that an action with the date of
  the last one of the queue is put in front of it.
\<close>

lemma rtactions_same_date:
  assumes "queue_ok ctx (xs @ [l])" and "e \<notin> set (xs @ [l])"
  shows "\<exists>ctx'. register_rtaction e ctx = Some (Inr ctx') \<and> queue_ok ctx'
    (if before (dates ctx l) (dates ctx e) then xs @ [l, e]
     else if \<not> before (dates ctx e) (dates ctx l) then xs @ [e, l]
     else takeWhile (\<lambda>x. \<not> before (dates ctx e) (dates ctx x)) xs @
       e # dropWhile (\<lambda>x. \<not> before (dates ctx e) (dates ctx x)) xs @ [l])"
proof -
  let ?P = "\<lambda>x. \<not> before (dates ctx e) (dates ctx x)"
  have le: "\<not> before (dates ctx l) (dates ctx x)" if "x \<in> set xs" for x
    using assms(1) that by (auto simp: queue_ok_def sorted_wrt_append)
  have eq: "insert_action (dates ctx) e (xs @ [l]) =
    (if before (dates ctx l) (dates ctx e) then xs @ [l, e]
     else if ?P l then xs @ [e, l] else takeWhile ?P xs @ e # dropWhile ?P xs @ [l])"
  proof (cases "?P l")
    case True
    have "\<forall>q \<in> set xs. ?P q" using True le not_before_trans by blast
    with True insert_action_split [of xs "dates ctx" e l "[]"] show ?thesis by simp
  next
    case False
    then have nl: "\<not> before (dates ctx l) (dates ctx e)" by (auto dest: before_asym)
    have tw: "\<forall>q \<in> set (takeWhile ?P xs). ?P q" by (auto dest: set_takeWhileD)
    show ?thesis
    proof (cases "dropWhile ?P xs")
      case Nil
      then have tk: "takeWhile ?P xs = xs" by (simp add: dropWhile_eq_Nil_conv takeWhile_eq_all_conv)
      have "insert_action (dates ctx) e (xs @ [l]) = xs @ [e, l]"
        using False nl tw insert_action_split [of xs "dates ctx" e l "[]"] unfolding tk by simp
      with False nl show ?thesis unfolding tk Nil by simp
    next
      case (Cons b rs)
      obtain ps where ps: "takeWhile ?P xs = ps" by blast
      have b: "before (dates ctx e) (dates ctx b)" using hd_dropWhile [of ?P xs] Cons by simp
      have xs: "xs = ps @ b # rs" using takeWhile_dropWhile_id [of ?P xs] by (simp only: ps Cons)
      have "insert_action (dates ctx) e (ps @ b # rs @ [l]) = ps @ e # b # rs @ [l]"
        using b tw insert_action_split [of ps "dates ctx" e b "rs @ [l]"] by (simp add: ps)
      then have ins: "insert_action (dates ctx) e (xs @ [l]) = ps @ e # b # rs @ [l]" by (simp add: xs)
      show ?thesis
        unfolding ins ps Cons append_Cons using False nl by (simp only: if_False)
    qed
  qed
  from register_queue_ok [OF assms] show ?thesis unfolding eq by (elim exE conjE) (intro exI conjI)
qed

lemma rtactions_same_date_witness:
  "\<exists>ctx'. register_rtaction 1 (quiet_ctx \<lparr>date = (5, 0), cb = None\<rparr> \<lparr>date = (5, 0), cb = None\<rparr>) =
     Some (Inr ctx') \<and> queue_ok ctx' [1, 0]"
proof -
  let ?c = "quiet_ctx \<lparr>date = (5, 0), cb = None\<rparr> \<lparr>date = (5, 0), cb = None\<rparr>"
  have "queue_ok ?c ([] @ [0])" "dates ?c 0 = dates ?c 1"
    by (simp_all add: quiet_queue) (simp add: dates_def quiet_ctx_def)
  from rtactions_same_date [OF this(1), of 1] this(2) show ?thesis by simp
qed

text \<open>
  Claim C24: the loop of the dispatcher over the past actions ends when the callbacks put things off: what a callback
  leaves in the queue is together less late than the queue and the action it ran for were.  Then neither the action that
  the dispatcher waits for nor any action of the queue is due.  A callback that registers its own action again for a
  later date, and one that registers a new action with a positive delay, are of this kind (\<open>put_back_postpones\<close>,
  \<open>register_rtcallback_postpones\<close>).
\<close>

theorem consume_past_terminates:
  assumes "postpones cbs now" and "held now ctx a xs" and "due_at now (dates ctx a)"
  shows "\<exists>e ctx' ys. consume_past cbs (due_at now) (Some a) ctx = Some (e, ctx') \<and> queue_ok ctx' ys \<and>
    (\<forall>b \<in> set ys \<union> set_option e. \<not> due_at now (dates ctx' b))"
  using assms by (rule consume_past_result)

text \<open>One callback puts its own action off, the other one registers a new action.\<close>

definition sample_callbacks :: "unit callbacks" where
  "sample_callbacks f e ctx =
     (if f = 0 then (case put_back e 5 ctx of Some (Inr ctx') \<Rightarrow> ctx' | _ \<Rightarrow> ctx)
      else (case register_rtcallback (Some 0) 3 ctx of Some (Inr (b, ctx')) \<Rightarrow> ctx' | _ \<Rightarrow> ctx))"

lemma sample_callbacks_postpone: "postpones sample_callbacks (4, 0)"
proof -
  have "postponed (4, 0) ctx e xs (sample_callbacks f e ctx)"
    if "held (4, 0) ctx e xs" "due_at (4, 0) (dates ctx e)" for f e xs and ctx :: "unit evt_ctx"
    using put_back_postpones [OF that, of 5] register_rtcallback_postpones [OF that, of 3 "Some 0"]
    by (auto simp: sample_callbacks_def)
  then show ?thesis by (simp add: postpones_def)
qed

theorem consume_past_terminates_witness:
  "\<exists>e ctx'. consume_past sample_callbacks (due_at (4, 0)) (Some 1)
     (quiet_ctx \<lparr>date = (2, 0), cb = Some 0\<rparr> \<lparr>date = (3, 0), cb = Some 1\<rparr>\<lparr>cur_loop_time := (4, 0)\<rparr>) = Some (e, ctx') \<and>
     (\<forall>b. e = Some b \<longrightarrow> \<not> due_at (4, 0) (dates ctx' b))"
proof -
  let ?c = "quiet_ctx \<lparr>date = (2, 0), cb = Some 0\<rparr> \<lparr>date = (3, 0), cb = Some 1\<rparr>\<lparr>cur_loop_time := (4, 0)\<rparr>"
  have "queue_ok ?c [0]"
    using quiet_queue [of "\<lparr>date = (2, 0), cb = Some 0\<rparr>" "\<lparr>date = (3, 0), cb = Some 1\<rparr>"] by (simp add: queue_ok_def)
  then have "held (4, 0) ?c 1 [0]" by (simp add: held_def known_def quiet_ctx_def)
  moreover have "due_at (4, 0) (dates ?c 1)" by (simp add: dates_def quiet_ctx_def due_at_def timercmp_le_def)
  ultimately obtain e ctx' ys where "consume_past sample_callbacks (due_at (4, 0)) (Some 1) ?c = Some (e, ctx')"
    "\<forall>b \<in> set ys \<union> set_option e. \<not> due_at (4, 0) (dates ctx' b)"
    using consume_past_terminates [OF sample_callbacks_postpone] by blast
  then show ?thesis by auto
qed

text \<open>
  Claim C25: the action that the dispatcher waits for is no longer in the queue, and nothing compares it with the queue
  again.  As long as it is not due and some input has data, no turn of the dispatcher runs any callback of an action, and
  everything in the queue stays there, however overdue it is or becomes and whatever the inputs register in addition.
  When no input has data, \<open>select\<close> is asked to wait until the date of the held action, and after the timeout the
  held action is the first one to run.
\<close>

theorem held_action_hides_queue:
  assumes "inputs_register inp" and "queue_ok ctx xs" and "known ctx (a # xs)"
    and "\<forall>s \<in> set ss. \<not> due_at (sys_time s) (dates ctx a) \<and> has_data s (fds ctx)"
  shows "\<exists>ctx' ys. (\<forall>cbs. dispatch_turns cbs inp ss (Some a) ctx = Some (Inr (Some a, ctx'))) \<and>
    queue_ok ctx' ys \<and> set xs \<subseteq> set ys \<and> (\<forall>x \<in> set (a # xs). action ctx' x = action ctx x) \<and>
    (\<forall>cbs s r. \<not> due_at (sys_time s) (dates ctx a) \<longrightarrow>
       sys_select s (fds ctx) (Some (Timer_Sub (dates ctx a) (sys_time s))) = (0, r) \<longrightarrow>
       dispatch_turn cbs inp s (Some a) ctx' =
         run_timeout cbs (sys_time_after s) (Some a) (ctx'\<lparr>cur_loop_time := sys_time s\<rparr>))"
proof -
  from turns_with_data [OF assms] obtain ctx' ys where
    t: "\<forall>cbs. dispatch_turns cbs inp ss (Some a) ctx = Some (Inr (Some a, ctx'))" "grown ctx xs ctx' ys" by blast
  have same: "\<forall>x \<in> set (a # xs). action ctx' x = action ctx x" "fds ctx' = fds ctx"
    using t(2) assms(3) by (auto simp: grown_def known_def)
  have "dispatch_turn cbs inp s (Some a) ctx' =
      run_timeout cbs (sys_time_after s) (Some a) (ctx'\<lparr>cur_loop_time := sys_time s\<rparr>)"
    if "\<not> due_at (sys_time s) (dates ctx a)"
      "sys_select s (fds ctx) (Some (Timer_Sub (dates ctx a) (sys_time s))) = (0, r)" for cbs s r
    using not_due_consume [of "sys_time s" "ctx'\<lparr>cur_loop_time := sys_time s\<rparr>" a cbs] that same
    by (simp add: dispatch_turn_def wait_time_def dates_def)
  with t same(1) show ?thesis by (intro exI [of _ ctx'] exI [of _ ys]) (auto simp: grown_def)
qed

text \<open>An input that registers an action two seconds ahead each time it has data.\<close>

definition sample_input :: "nat \<Rightarrow> int \<Rightarrow> unit evt_ctx \<Rightarrow> int \<times> unit evt_ctx" where
  "sample_input m fd ctx = (case register_rtcallback (Some 0) 2 ctx of Some (Inr (b, ctx')) \<Rightarrow> (0, ctx') | _ \<Rightarrow> (0, ctx))"

lemma sample_input_registers: "inputs_register sample_input"
proof -
  have "fst (sample_input m fd ctx) \<le> 0 \<and> (\<exists>ys. grown ctx xs (snd (sample_input m fd ctx)) ys)"
    if "queue_ok ctx xs" "known ctx xs" for m fd ctx xs
  proof -
    from register_rtcallback_ok [OF that, of "Some 0" 2] obtain d ys where
      r: "register_rtcallback (Some 0) 2 ctx = Some (Inr (next_action ctx, added ctx (Some 0) 2 d))"
         "queue_ok (added ctx (Some 0) 2 d) ys" "mset ys = add_mset (next_action ctx) (mset xs)" by blast
    have "set ys = insert (next_action ctx) (set xs)" using arg_cong [OF r(3), of set_mset] by simp
    with r(2) that(2) have "grown ctx xs (added ctx (Some 0) 2 d) ys"
      by (auto simp: grown_def known_def added_def less_Suc_eq)
    with r(1) show ?thesis by (auto simp: sample_input_def)
  qed
  then show ?thesis unfolding inputs_register_def by blast
qed

text \<open>At the time \<open>t\<close> the descriptor 7 has data.\<close>

definition busy_at :: "timeval \<Rightarrow> sys" where
  "busy_at t = \<lparr>sys_time = t, sys_select = (\<lambda>r w. (1, {7})), sys_time_after = t\<rparr>"

abbreviation waiting_ctx :: "unit evt_ctx" where
  "waiting_ctx \<equiv> quiet_ctx \<lparr>date = (3, 0), cb = Some 0\<rparr> \<lparr>date = (9, 0), cb = Some 0\<rparr>
     \<lparr>fds := {7}, realtime_handler_list := [(0, 7)]\<rparr>"

theorem held_action_hides_queue_witness:
  "\<exists>ctx' ys. (\<forall>cbs. dispatch_turns cbs sample_input [busy_at (4, 0), busy_at (5, 0)] (Some 1) waiting_ctx =
       Some (Inr (Some 1, ctx'))) \<and>
     queue_ok ctx' ys \<and> 0 \<in> set ys \<and> dates ctx' 0 = (3, 0)"
proof -
  have "queue_ok waiting_ctx [0]"
    using quiet_queue [of "\<lparr>date = (3, 0), cb = Some 0\<rparr>" "\<lparr>date = (9, 0), cb = Some 0\<rparr>"]
    by (simp add: queue_ok_def)
  moreover have "known waiting_ctx [1, 0]" by (simp add: known_def quiet_ctx_def)
  moreover have "\<forall>s \<in> set [busy_at (4, 0), busy_at (5, 0)].
      \<not> due_at (sys_time s) (dates waiting_ctx 1) \<and> has_data s (fds waiting_ctx)"
    by (simp add: busy_at_def has_data_def dates_def quiet_ctx_def due_at_def timercmp_le_def)
  ultimately obtain ctx' ys where
    "\<forall>cbs. dispatch_turns cbs sample_input [busy_at (4, 0), busy_at (5, 0)] (Some 1) waiting_ctx = Some (Inr (Some 1, ctx'))"
    "queue_ok ctx' ys" "set [0] \<subseteq> set ys" "\<forall>x \<in> set [1, 0]. action ctx' x = action waiting_ctx x"
    using held_action_hides_queue [OF sample_input_registers] by meson
  then show ?thesis by (intro exI [of _ ctx'] exI [of _ ys]) (simp add: dates_def quiet_ctx_def)
qed

end
