(* ===== verification/Spec2Isabelle.thy ===== *)
theory Spec2Isabelle
  imports Sharedvars_Laws Auditd_Laws Textfile_Laws Config_Laws Containers_Laws Rule_Functions_Laws Syslog_Laws Engine_Laws Builtins_Laws Disassembler_Laws Rule_Graph_Laws Value_Laws Exec_Correct Ovm_Safety Hash_Table_Laws Hash_Funcs_Laws Crc32_Laws Rtactions_Laws
begin

text \<open>
  A verification development for Orchids, an intrusion detection system.

  \<^bold>\<open>The program.\<close>  Input modules read lines and packets (\<open>src/modules\<close>) and post them as events, lists of numbered fields
  (\<open>post_event\<close> in \<open>src/orchids_api.c\<close>).  Dissectors take the fields of an event apart and post it again.  In the end the
  event is injected into the rule engine (\<open>src/engine.c\<close>), which runs it through the state machines of the rules: for
  every thread that waits at a transition, the condition of the transition is bytecode that runs on a stack machine
  (\<open>src/ovm.c\<close>) over tagged values (\<open>src/lang.c\<close>).  The bytecode comes from a compiler (\<open>src/rule_compiler.c\<close>) whose
  building functions are called by the grammar of the rule language (\<open>src/issdl.y\<close>).  An event manager (\<open>src/evt_mgr.c\<close>)
  waits for inputs and runs timed actions, configuration files (\<open>src/orchids_cfg.c\<close>) say which modules and rules are
  used, and \<open>src/util\<close> has the containers and hash functions.

  \<^bold>\<open>How the code is represented.\<close>  A function of C is a function of HOL that gets the state it reads and returns the state
  it changes; \<open>fault + 'a\<close> (theory \<open>Prelude\<close>) is its result or the way in which the program stops: a \<open>NULL\<close> pointer, a
  block that was freed, an access out of bounds, a trap of the arithmetic, \<open>exit\<close>, or that it does not return.
  Integers are words of their width in an LP64 build (\<open>cint\<close>, \<open>clong\<close>, \<open>culong\<close>); comparisons that C makes on signed
  values are made with \<open>sint\<close>.  Blocks of memory that are shared are addresses in a store; blocks that are owned are
  values.  A string of C is the list of its bytes, with the terminator where the code can read behind it.  The
  messages of \<open>DebugLog\<close>, statistics and printing are left out.

  \<^bold>\<open>Values and machine.\<close>  \<open>Values\<close>: the types \<open>T_*\<close>, constructors, comparison, arithmetic and cloning of \<open>src/lang.c\<close>.
  \<open>Lifo_Stack\<close>: \<open>src/util/stack.c\<close>, behind the interface \<open>lifo\<close>.  \<open>Ovm\<close>: all instructions, the jump table and the loop of \<open>src/ovm.c\<close>, with the
  function table, the environments and the store of variables in one record.  \<open>Builtins\<close>: the functions that rules can
  call (\<open>issdl_*\<close> of \<open>src/lang.c\<close>) and their registration.  \<open>Disassembler\<close>: the listings of \<open>src/ovm.c\<close>.
  \<open>Value_Laws\<close> says when an operation faults and what it computes; \<open>Ovm_Laws\<close> and \<open>Ovm_Safety\<close> what each instruction
  does and what no program can do; \<open>Builtins_Laws\<close> that the functions meet the requirement \<open>well_behaved\<close> which the laws of
  the machine make on calls, and that numbers survive the way through strings; \<open>Disassembler_Laws\<close> that a listing can
  be read back.

  \<^bold>\<open>Compiler.\<close>  \<open>Compiler\<close>: the generation of code from trees, with labels that are patched and buffers that can
  overflow.  \<open>Rule_Builder\<close>: the building functions of \<open>src/rule_compiler.c\<close>, the actions of the grammar on trees of a
  rule file, the compilation of states and rules.  \<open>Compiler_Laws\<close>: the code is that of a compositional reference
  compiler, and the compiler accepts all that fits its tables.  \<open>Exec_Correct\<close>: the machine runs this code to the value
  of the condition, and leaves no temporary behind.  \<open>Rule_Builder_Laws\<close> and \<open>Rule_Graph_Laws\<close>: trees refer to what
  exists, and the compiled rules are the graphs that the file draws.

  \<^bold>\<open>Engine.\<close>  \<open>Engine\<close>: \<open>inject_event\<close> and all it calls; threads, state instances, rule instances and kept events are
  addresses, their links are pointers.  \<open>Linked\<close> reads links as sequences.  \<open>Engine_Queues\<close>: the queues of threads.
  \<open>Engine_Counts\<close>: the counters and reference counts.  \<open>Engine_Laws\<close>: both hold after every sequence of events, the loop
  ends, environments are inherited, and the case in which freed memory is used.  \<open>Rule_Functions\<close> and its laws: the
  functions \<open>cut\<close> and \<open>kill_threads\<close>, which mark threads of the engine from within a rule.  \<open>Sharedvars\<close>:
  \<open>src/modules/mod_sharedvars.c\<close>, variables that all rules share; they are one map from names to values.

  \<^bold>\<open>Inputs.\<close>  \<open>Text_Tools\<close>: \<open>src/util/string_util.c\<close> and \<open>fgets\<close>.  \<open>Input\<close>: the tables of modules, fields, inputs, dissectors and
  hooks of \<open>src/orchids_api.c\<close> and \<open>src/mod_mgr.c\<close>, and \<open>post_event\<close>.  \<open>Syslog\<close>: \<open>src/modules/mod_syslog.c\<close>, with laws on
  bounds, on the fields that are found, and on the way of a line through dissector and core to the engine.  \<open>Textfile\<close>:
  \<open>src/modules/mod_textfile.c\<close>, with laws on the lines of sockets and files.  \<open>Auditd\<close>: \<open>src/modules/mod_auditd.c\<close>, a tree
  that recognises keywords and readers for the values behind them, with laws on bounds and on the fields of a line.  \<open>Config\<close>: \<open>src/orchids_cfg.c\<close> and the
  choice of a preprocessor of \<open>src/rule_compiler.c\<close>, with laws on the parser and on what directives do to the tables of
  \<open>Input\<close>.  \<open>Rtactions\<close>: the timed actions and the dispatcher of \<open>src/evt_mgr.c\<close>; its laws say that the queue is sorted
  and when actions are run.

  \<^bold>\<open>Containers.\<close>  \<open>Dlist\<close>: \<open>src/util/dlist.h\<close>, behind the interface \<open>sequence\<close>.  \<open>Hash_Table\<close>: \<open>hash.c\<close>, \<open>strhash.c\<close> and
  \<open>objhash.c\<close> of \<open>src/util\<close>, behind the interface \<open>dictionary\<close>, which the rule compiler and the dissectors rest on.
  \<open>Containers\<close>: \<open>queue.c\<close>, \<open>list.c\<close> and \<open>array.c\<close>; the interface of a queue is \<open>fifo\<close>.  \<open>Hash_Funcs\<close> and \<open>Crc32\<close>: the hash
  functions and the checksum, with the equality of their optimised and plain versions.

  \<^bold>\<open>Fuel.\<close>  Loops that C code may not leave have a bound, and \<open>NoReturn\<close> when it is used up; loops over the links of
  \<open>dlist.h\<close> are partial functions.  \<open>cfg_fuel\<close> bounds the instructions of a condition and the recursion over
  unconditional transitions.  The invariants of the engine hold for every value of it with which the run returns; for the
  code of a condition \<open>Exec_Correct\<close> proves that there is a bound from which on every value gives the same result.
  The walks along queues and lists of the engine are bounded by the number of addresses, which \<open>Engine_Laws\<close> and
  \<open>Rule_Functions_Laws\<close> prove to be enough (\<open>waiting_length\<close>).  The first argument of \<open>post_event\<close> bounds the chain of
  dissectors, and that of \<open>build_config_tree\<close> the depth of files that include each other, which \<open>Config_Laws\<close> treats; the
  parser of one file gets the length of the file, which is enough (\<open>section_fuel\<close>).  The bound of \<open>process_new_lines\<close> is
  free: \<open>Textfile_Laws\<close> shows that for lines that end it suffices that it exceeds their length, and that for a line that
  does not end none does.

  \<^bold>\<open>Parameters.\<close>  What the operating system and libraries give is an argument: the regular expression matcher, the clock,
  \<open>select\<close>, \<open>read\<close>, files and patterns, shared objects, \<open>mktime\<close>, \<open>inet_addr\<close>, and the callbacks of modules.

  \<^bold>\<open>Not modelled.\<close>  Floating point values (T_FLOAT), which the allowed theories have no executable model of.  The built-in
  functions \<open>regex_from_str\<close>, \<open>sendmail\<close>, \<open>sendmail_report\<close>, \<open>shutdown\<close> (library, processes, files) and \<open>pastval\<close> (not
  finished in the code).  Functions that only print (\<open>fprintf_*\<close>, \<open>src/graph_output.c\<close>, the module \<open>html_output\<close>).  The
  generated scanner and parser.  The other input modules, which are sockets and external libraries around formats
  like those of the two that are modelled, and \<open>src/modules/period.c\<close>, which computes with floating point and writes
  scripts for gnuplot.  Polling of files and opening of inputs in \<open>mod_textfile\<close>, \<open>dlopen\<close> itself, the lock file, the command line and
  signals of \<open>src/main.c\<close>.  Of \<open>src/util\<close>: \<open>ringqueue.c\<close>, whose arithmetic is undefined in C, and \<open>tree.c\<close> and \<open>objpool.c\<close>,
  which nothing uses.
\<close>

end
